(* ===== verification/ManosPrelude.thy ===== *)
theory ManosPrelude
  imports Main "HOL-Library.Word" "HOL-Library.Monad_Syntax"
begin

text \<open>
  Shared vocabulary of the manos development: the machine types of the K70 build
  (a 32-bit ARM: \<open>size_t\<close>, \<open>unsigned\<close>, \<open>unsigned long\<close> and pointers are 32 bits wide),
  the values \<open>errno\<close> takes, C strings, and the generic lemmas and named collections the
  components share.

  Conventions used by every component:
  \<^item> a function that dereferences a bad pointer, indexes outside an array or divides by zero
    has no result: its model returns \<open>None\<close>. A theorem that a function \<open>= Some x\<close> therefore
    includes the statement that the call is memory safe;
  \<^item> a function that reports failure through its return value and \<open>errno\<close> returns
    \<open>errno + 'a\<close>;
  \<^item> a C string is the list of its characters before the terminating NUL.
\<close>

unbundle bit_operations_syntax

type_synonym u8 = "8 word"
type_synonym u16 = "16 word"
type_synonym u32 = "32 word"
type_synonym u64 = "64 word"

datatype errno =
    EOK | EPERM | ENOENT | EIO | EBADF | ENOMEM | ENODEV | ENOTDIR | EISDIR | EINVAL
  | EMFILE | ENODATA | ENOBUFS | ENOTRECOVERABLE

named_theorems ring_simps "rules that rewrite a ring buffer window after one step"
named_theorems unat_conv "rules that move a word comparison or increment to the naturals"

subsection \<open>Words\<close>

lemma unat_inc_lt [unat_conv]:
  assumes "(x::'a::len word) < y"
  shows "unat (x + 1) = Suc (unat x)"
proof -
  have "unat x < unat y" using assms by (simp add: word_less_nat_alt)
  moreover have "unat y < 2 ^ LENGTH('a)" by (rule unsigned_less)
  ultimately have "Suc (unat x) < 2 ^ LENGTH('a)" by linarith
  then show ?thesis by (simp add: unat_word_ariths)
qed

lemma unat_mod_eq [unat_conv]: "unat ((x::'a::len word) mod y) = unat x mod unat y"
  by (rule unat_mod)

lemma word_neq_0_unat [unat_conv]: "((x::'a::len word) \<noteq> 0) = (0 < unat x)"
  by (simp add: unat_gt_0)

subsection \<open>Windows of a ring buffer\<close>

text \<open>\<open>ring xs r n\<close> is the \<open>n\<close> elements of \<open>xs\<close> read from index \<open>r\<close> on, wrapping round.\<close>

definition ring :: "'a list \<Rightarrow> nat \<Rightarrow> nat \<Rightarrow> 'a list" where
  "ring xs r n = map (\<lambda>i. xs ! ((r + i) mod length xs)) [0..<n]"

lemma length_ring [simp]: "length (ring xs r n) = n"
  by (simp add: ring_def)

lemma ring_0 [simp]: "ring xs r 0 = []"
  by (simp add: ring_def)

lemma ring_slot_inj:
  assumes "i < n" "n < (m::nat)" "(r + i) mod m = (r + n) mod m"
  shows False
proof -
  have "(int r + int i) mod int m = (int r + int n) mod int m"
    using assms(3) by (metis of_nat_add of_nat_mod)
  then have "(int n - int i) mod int m = 0"
    by (metis add_diff_cancel_left mod_diff_cong mod_self diff_self mod_0)
  with assms(1,2) show False by simp
qed

lemma ring_snoc [ring_simps]:
  assumes "n < length xs"
  shows "ring (xs[(r + n) mod length xs := x]) r (Suc n) = ring xs r n @ [x]"
proof -
  have pos: "xs \<noteq> []" using assms by auto
  have other: "xs[(r + n) mod length xs := x] ! ((r + i) mod length xs)
      = xs ! ((r + i) mod length xs)" if "i < n" for i
    using ring_slot_inj [of i n "length xs" r] that assms pos
    by (metis nth_list_update_neq)
  show ?thesis
    using pos by (auto simp: ring_def other intro!: nth_list_update_eq)
qed

lemma ring_pop [ring_simps]:
  assumes "0 < n" "r < length xs"
  shows "ring xs r n = xs ! r # ring xs (Suc r mod length xs) (n - 1)"
proof -
  obtain m where n: "n = Suc m" using assms(1) by (cases n) auto
  have shift: "Suc (r + i) mod length xs = (Suc r mod length xs + i) mod length xs" for i
    by (metis mod_add_left_eq add_Suc)
  show ?thesis
    unfolding n ring_def using assms(2)
    by (simp add: upt_rec [of 0] map_Suc_upt [symmetric] shift del: upt_Suc)
qed

subsection \<open>C strings\<close>

text \<open>The C string a byte buffer holds from its first byte: the bytes before the first NUL.\<close>

definition cstr :: "char list \<Rightarrow> string" where
  "cstr buf = takeWhile (\<lambda>c. c \<noteq> CHR 0x00) buf"

lemma cstr_no_nul [simp]: "CHR 0x00 \<notin> set (cstr buf)"
  by (auto simp: cstr_def dest: set_takeWhileD)

lemma cstr_terminated [simp]:
  "CHR 0x00 \<notin> set s \<Longrightarrow> cstr (s @ CHR 0x00 # rest) = s"
  by (induction s) (auto simp: cstr_def)

lemma cstr_id [simp]: "CHR 0x00 \<notin> set s \<Longrightarrow> cstr s = s"
  by (induction s) (auto simp: cstr_def)

lemma unat_of_nat_small: "n < 2 ^ LENGTH('a) \<Longrightarrow> unat (of_nat n :: 'a::len word) = n"
  by (simp add: unat_of_nat take_bit_eq_mod)

text \<open>A C \<open>int\<close> result: \<open>None\<close> where the signed operation overflows.\<close>

definition cint :: "int \<Rightarrow> int option" where
  "cint x = (if - (2 ^ 31) \<le> x \<and> x < 2 ^ 31 then Some x else None)"

lemma ucast_of_unat: "(ucast (w :: 'a::len word) :: 'b::len word) = of_nat (unat w)"
  by simp

lemma unat_less32 [simp]: "unat (w :: u32) < 4294967296"
  using unsigned_less [of w, where ?'a = nat] by simp

lemma of_nat_eq_small:
  "a < 2 ^ LENGTH('a) \<Longrightarrow> b < 2 ^ LENGTH('a) \<Longrightarrow> (of_nat a = (of_nat b :: 'a::len word)) \<longleftrightarrow> a = b"
  by (metis unat_of_nat_small)

lemma unat_add_small: "unat (a :: 'a::len word) + unat b < 2 ^ LENGTH('a) \<Longrightarrow> unat (a + b) = unat a + unat b"
  by (simp add: unat_word_ariths)

lemma unat_mult_small: "unat (a :: 'a::len word) * unat b < 2 ^ LENGTH('a) \<Longrightarrow> unat (a * b) = unat a * unat b"
  by (simp add: unat_word_ariths)

lemma unat_minus_small: "unat (b :: 'a::len word) \<le> unat a \<Longrightarrow> unat (a - b) = unat a - unat b"
  by (simp add: unat_sub_if')

text \<open>Rows and columns of a number.\<close>

lemma row_column: "(b :: nat) < n \<Longrightarrow> (a * n + b) div n = a" "b < n \<Longrightarrow> (a * n + b) mod n = b"
  by simp_all

text \<open>Bytes and characters.\<close>

definition chr8 :: "u8 \<Rightarrow> char" where
  "chr8 b = char_of (unat b)"

definition ord8 :: "char \<Rightarrow> u8" where
  "ord8 c = of_nat (of_char c)"

lemma chr8_ord8 [simp]: "chr8 (ord8 c) = c"
proof -
  have "(of_char c :: nat) < 256" by simp
  then have "unat (of_nat (of_char c) :: u8) = of_char c" by (intro unat_of_nat_small) simp
  then show ?thesis by (simp add: chr8_def ord8_def)
qed

lemma ord8_chr8 [simp]: "ord8 (chr8 b) = b"
proof -
  have "unat b < 256" using unsigned_less [of b, where ?'a = nat] by simp
  then show ?thesis by (simp add: chr8_def ord8_def)
qed

end
