(* ===== verification/FifoQueue.thy ===== *)
theory FifoQueue
  imports ManosPrelude
begin

text \<open>
  The byte queue of \<open>src/src/fifoq\<close>: a ring buffer with a read offset, a write offset and an
  \<open>isEmpty\<close> flag that tells the full queue from the empty one. The UART driver keeps one
  for each direction. \<open>contents\<close> is the abstraction to a list; the locale \<open>bounded_fifo\<close> is
  the contract the driver uses.
\<close>

subsection \<open>The queue and its operations\<close>

record FifoQ =
  isEmpty :: bool
  readOffset :: u32
  writeOffset :: u32
  qsize :: u32
  qbuf :: "u8 list"

definition sizeof_FifoQ :: u32 where
  "sizeof_FifoQ = 16"

definition clearFifoQ :: "FifoQ \<Rightarrow> FifoQ" where
  "clearFifoQ q =
     \<lparr>isEmpty = True, readOffset = 0, writeOffset = 0, qsize = qsize q, qbuf = qbuf q\<rparr>"

text \<open>
  \<open>syskmalloc\<close> is an argument: it maps a byte count to the bytes behind the pointer it
  returns, \<open>None\<close> for \<open>NULL\<close>. The first \<open>sizeof_FifoQ\<close> bytes are the fields.
\<close>

definition newFifoQ :: "(u32 \<Rightarrow> u8 list option) \<Rightarrow> u32 \<Rightarrow> errno + FifoQ" where
  "newFifoQ syskmalloc sz =
     (case syskmalloc (sizeof_FifoQ + sz) of
        None \<Rightarrow> Inl ENOMEM
      | Some bytes \<Rightarrow>
          Inr (clearFifoQ \<lparr>isEmpty = False, readOffset = 0, writeOffset = 0, qsize = sz,
                           qbuf = drop (unat sizeof_FifoQ) bytes\<rparr>))"

text \<open>A queue pointer is \<open>None\<close> when it is \<open>NULL\<close>.\<close>

definition isFullFifoQ :: "FifoQ option \<Rightarrow> bool" where
  "isFullFifoQ p =
     (case p of None \<Rightarrow> False
      | Some q \<Rightarrow> \<not> isEmpty q \<and> readOffset q = writeOffset q)"

definition enqueueFifoQ :: "FifoQ option \<Rightarrow> u8 \<Rightarrow> (bool \<times> FifoQ option) option" where
  "enqueueFifoQ p c =
     (if isFullFifoQ p then Some (False, p)
      else case p of
        None \<Rightarrow> None
      | Some q \<Rightarrow>
          if unat (writeOffset q) < length (qbuf q) \<and> qsize q \<noteq> 0
          then Some (True, Some (q\<lparr>qbuf := (qbuf q)[unat (writeOffset q) := c],
                                   writeOffset := (writeOffset q + 1) mod qsize q,
                                   isEmpty := False\<rparr>))
          else None)"

text \<open>The result of a dequeue: the return value with, when it is 1, the byte stored in \<open>*c\<close>.\<close>

definition dequeueFifoQ :: "FifoQ option \<Rightarrow> (u8 option \<times> FifoQ option) option" where
  "dequeueFifoQ p =
     (case p of
        None \<Rightarrow> Some (None, None)
      | Some q \<Rightarrow>
          if isEmpty q then Some (None, Some q)
          else if unat (readOffset q) < length (qbuf q) \<and> qsize q \<noteq> 0
          then (let c = qbuf q ! unat (readOffset q);
                    r = (readOffset q + 1) mod qsize q
                in Some (Some c, Some (q\<lparr>readOffset := r, isEmpty := (r = writeOffset q)\<rparr>)))
          else None)"

subsection \<open>Invariant and abstraction\<close>

definition fifo_inv :: "FifoQ \<Rightarrow> bool" where
  "fifo_inv q \<longleftrightarrow>
     0 < qsize q \<and> length (qbuf q) = unat (qsize q) \<and>
     readOffset q < qsize q \<and> writeOffset q < qsize q \<and>
     (isEmpty q \<longrightarrow> readOffset q = writeOffset q)"

definition used :: "FifoQ \<Rightarrow> nat" where
  "used q =
     (let r = unat (readOffset q); w = unat (writeOffset q)
      in if isEmpty q then 0 else if r < w then w - r else unat (qsize q) + w - r)"

definition contents :: "FifoQ \<Rightarrow> u8 list" where
  "contents q = ring (qbuf q) (unat (readOffset q)) (used q)"

lemma fifo_inv_nat:
  assumes "fifo_inv q"
  shows "length (qbuf q) = unat (qsize q)" "unat (readOffset q) < unat (qsize q)"
    "unat (writeOffset q) < unat (qsize q)" "qsize q \<noteq> 0"
  using assms by (auto simp: fifo_inv_def word_less_nat_alt)

lemma length_contents [simp]: "length (contents q) = used q"
  by (simp add: contents_def)

lemma used_le: "fifo_inv q \<Longrightarrow> used q \<le> unat (qsize q)"
  using fifo_inv_nat [of q] by (auto simp: used_def Let_def)

lemma write_slot:
  assumes "fifo_inv q"
  shows "unat (writeOffset q) = (unat (readOffset q) + used q) mod unat (qsize q)"
  using fifo_inv_nat [OF assms] assms by (auto simp: used_def Let_def fifo_inv_def)

lemma isEmpty_iff: "fifo_inv q \<Longrightarrow> isEmpty q \<longleftrightarrow> contents q = []"
  using fifo_inv_nat [of q]
  by (auto simp: contents_def ring_def used_def Let_def split: if_splits)

lemma isFull_iff:
  assumes "fifo_inv q"
  shows "isFullFifoQ (Some q) \<longleftrightarrow> length (contents q) = unat (qsize q)"
  using fifo_inv_nat [OF assms] word_unat_eq_iff [of "readOffset q" "writeOffset q"]
  by (auto simp: isFullFifoQ_def used_def Let_def split: if_splits)

lemma clearFifoQ_inv:
  "0 < qsize q \<Longrightarrow> length (qbuf q) = unat (qsize q) \<Longrightarrow>
     fifo_inv (clearFifoQ q) \<and> contents (clearFifoQ q) = []"
  by (simp add: fifo_inv_def clearFifoQ_def contents_def used_def)

lemma unat_wrap_inc:
  fixes r s :: u32
  assumes "r < s"
  shows "unat ((r + 1) mod s) = Suc (unat r) mod unat s"
  using assms by (simp add: unat_conv)

lemma enqueue_step:
  assumes inv: "fifo_inv q" and room: "\<not> isFullFifoQ (Some q)"
  shows "\<exists>q'. enqueueFifoQ (Some q) c = Some (True, Some q') \<and> fifo_inv q' \<and>
           contents q' = contents q @ [c] \<and> qsize q' = qsize q"
proof -
  note n = fifo_inv_nat [OF inv]
  let ?w = "(writeOffset q + 1) mod qsize q"
  let ?q' = "q\<lparr>qbuf := (qbuf q)[unat (writeOffset q) := c], writeOffset := ?w, isEmpty := False\<rparr>"
  have wlt: "writeOffset q < qsize q" using inv by (simp add: fifo_inv_def)
  have u: "used q < unat (qsize q)"
    using used_le [OF inv] room isFull_iff [OF inv] by simp
  have w': "unat ?w = Suc (unat (writeOffset q)) mod unat (qsize q)"
    by (rule unat_wrap_inc [OF wlt])
  have inv': "fifo_inv ?q'"
    using inv n w' by (simp add: fifo_inv_def word_less_nat_alt)
  have used': "used ?q' = Suc (used q)"
  proof -
    have "readOffset q = writeOffset q \<or> unat (readOffset q) \<noteq> unat (writeOffset q)"
      by (simp add: word_unat_eq_iff)
    then show ?thesis
      using n w' room inv
      by (cases "Suc (unat (writeOffset q)) = unat (qsize q)")
        (auto simp: used_def Let_def isFullFifoQ_def fifo_inv_def)
  qed
  have "contents ?q' = ring ((qbuf q)[unat (writeOffset q) := c]) (unat (readOffset q)) (Suc (used q))"
    by (simp add: contents_def used')
  also have "\<dots> = contents q @ [c]"
    using ring_snoc [of "used q" "qbuf q" "unat (readOffset q)" c] u n write_slot [OF inv]
    by (simp add: contents_def)
  finally show ?thesis
    using inv' n room by (simp add: enqueueFifoQ_def)
qed

lemma dequeue_step:
  assumes inv: "fifo_inv q" and ne: "contents q \<noteq> []"
  shows "\<exists>q'. dequeueFifoQ (Some q) = Some (Some (hd (contents q)), Some q') \<and> fifo_inv q' \<and>
           contents q' = tl (contents q) \<and> qsize q' = qsize q"
proof -
  note n = fifo_inv_nat [OF inv]
  let ?r = "(readOffset q + 1) mod qsize q"
  let ?q' = "q\<lparr>readOffset := ?r, isEmpty := (?r = writeOffset q)\<rparr>"
  have nonempty: "\<not> isEmpty q" using isEmpty_iff [OF inv] ne by simp
  have r': "unat ?r = Suc (unat (readOffset q)) mod unat (qsize q)"
    using inv by (intro unat_wrap_inc) (simp add: fifo_inv_def)
  have inv': "fifo_inv ?q'"
    using inv n r' by (simp add: fifo_inv_def word_less_nat_alt)
  have eq: "?r = writeOffset q \<longleftrightarrow> unat ?r = unat (writeOffset q)"
    by (simp add: word_unat_eq_iff)
  have used': "used ?q' = used q - 1"
    using n r' nonempty eq
    by (cases "Suc (unat (readOffset q)) = unat (qsize q)") (auto simp: used_def Let_def)
  have "0 < used q" using ne by (cases "used q") (auto simp: contents_def)
  then have "contents q = qbuf q ! unat (readOffset q) # contents ?q'"
    using ring_pop [of "used q" "unat (readOffset q)" "qbuf q"] n used' r'
    by (simp add: contents_def)
  then show ?thesis
    using inv' n nonempty by (simp add: dequeueFifoQ_def Let_def)
qed

subsection \<open>The contract the driver relies on\<close>

text \<open>
  The list queue with a capacity that both directions of a UART stand for, and a run of
  operations on any implementation of it.
\<close>

datatype 'a fifo_op = Enq 'a | Deq

datatype 'a fifo_out = Enqueued bool | Dequeued "'a option"

fun spec_op :: "nat \<Rightarrow> 'a list \<Rightarrow> 'a fifo_op \<Rightarrow> 'a fifo_out \<times> 'a list" where
  "spec_op n xs (Enq x) = (if length xs < n then (Enqueued True, xs @ [x]) else (Enqueued False, xs))"
| "spec_op n [] Deq = (Dequeued None, [])"
| "spec_op n (x # xs) Deq = (Dequeued (Some x), xs)"

fun spec_run :: "nat \<Rightarrow> 'a list \<Rightarrow> 'a fifo_op list \<Rightarrow> 'a fifo_out list \<times> 'a list" where
  "spec_run n xs [] = ([], xs)"
| "spec_run n xs (p # ps) =
     (let (r, ys) = spec_op n xs p; (rs, zs) = spec_run n ys ps in (r # rs, zs))"

fun fifo_run ::
  "('q \<Rightarrow> 'a \<Rightarrow> (bool \<times> 'q) option) \<Rightarrow> ('q \<Rightarrow> ('a option \<times> 'q) option) \<Rightarrow>
   'q \<Rightarrow> 'a fifo_op list \<Rightarrow> ('a fifo_out list \<times> 'q) option" where
  "fifo_run enq deq q [] = Some ([], q)"
| "fifo_run enq deq q (Enq x # ps) =
     do { (b, q') \<leftarrow> enq q x; (rs, q'') \<leftarrow> fifo_run enq deq q' ps; Some (Enqueued b # rs, q'') }"
| "fifo_run enq deq q (Deq # ps) =
     do { (r, q') \<leftarrow> deq q; (rs, q'') \<leftarrow> fifo_run enq deq q' ps; Some (Dequeued r # rs, q'') }"

locale bounded_fifo =
  fixes inv :: "'q \<Rightarrow> bool"
    and cap :: "'q \<Rightarrow> nat"
    and items :: "'q \<Rightarrow> 'a list"
    and enq :: "'q \<Rightarrow> 'a \<Rightarrow> (bool \<times> 'q) option"
    and deq :: "'q \<Rightarrow> ('a option \<times> 'q) option"
  assumes bounded: "inv q \<Longrightarrow> length (items q) \<le> cap q"
    and enq_room: "inv q \<Longrightarrow> length (items q) < cap q \<Longrightarrow>
      \<exists>q'. enq q x = Some (True, q') \<and> inv q' \<and> items q' = items q @ [x] \<and> cap q' = cap q"
    and enq_full: "inv q \<Longrightarrow> length (items q) = cap q \<Longrightarrow> enq q x = Some (False, q)"
    and deq_item: "inv q \<Longrightarrow> items q = x # xs \<Longrightarrow>
      \<exists>q'. deq q = Some (Some x, q') \<and> inv q' \<and> items q' = xs \<and> cap q' = cap q"
    and deq_empty: "inv q \<Longrightarrow> items q = [] \<Longrightarrow> deq q = Some (None, q)"
begin

lemma enq_spec:
  assumes "inv q"
  shows "\<exists>b q'. enq q x = Some (b, q') \<and> inv q' \<and> cap q' = cap q \<and>
           spec_op (cap q) (items q) (Enq x) = (Enqueued b, items q')"
  using enq_room [OF assms, of x] enq_full [OF assms, of x] bounded [OF assms]
  by (cases "length (items q) < cap q") (auto simp: le_less assms)

lemma deq_spec:
  assumes "inv q"
  shows "\<exists>r q'. deq q = Some (r, q') \<and> inv q' \<and> cap q' = cap q \<and>
           spec_op (cap q) (items q) Deq = (Dequeued r, items q')"
  using deq_item [OF assms] deq_empty [OF assms] assms by (cases "items q") auto

lemma run_refines:
  "inv q \<Longrightarrow> \<exists>rs q'. fifo_run enq deq q ps = Some (rs, q') \<and> inv q' \<and> cap q' = cap q \<and>
     spec_run (cap q) (items q) ps = (rs, items q')"
proof (induction ps arbitrary: q)
  case Nil
  then show ?case by simp
next
  case (Cons p ps)
  show ?case
  proof (cases p)
    case (Enq x)
    obtain b q1 where "enq q x = Some (b, q1)" "inv q1" "cap q1 = cap q"
      "spec_op (cap q) (items q) (Enq x) = (Enqueued b, items q1)"
      using enq_spec [OF Cons.prems] by blast
    with Cons.IH [of q1] Enq show ?thesis by fastforce
  next
    case Deq
    obtain r q1 where "deq q = Some (r, q1)" "inv q1" "cap q1 = cap q"
      "spec_op (cap q) (items q) Deq = (Dequeued r, items q1)"
      using deq_spec [OF Cons.prems] by blast
    with Cons.IH [of q1] Deq show ?thesis by fastforce
  qed
qed

end

text \<open>The code's queue, behind a pointer that is not \<open>NULL\<close>, keeps the contract.\<close>

definition fifoP_inv :: "FifoQ option \<Rightarrow> bool" where
  "fifoP_inv p = (case p of None \<Rightarrow> False | Some q \<Rightarrow> fifo_inv q)"

definition fifoP_cap :: "FifoQ option \<Rightarrow> nat" where
  "fifoP_cap p = (case p of None \<Rightarrow> 0 | Some q \<Rightarrow> unat (qsize q))"

definition fifoP_items :: "FifoQ option \<Rightarrow> u8 list" where
  "fifoP_items p = (case p of None \<Rightarrow> [] | Some q \<Rightarrow> contents q)"

lemmas fifoP_defs = fifoP_inv_def fifoP_cap_def fifoP_items_def

interpretation byteq: bounded_fifo fifoP_inv fifoP_cap fifoP_items enqueueFifoQ dequeueFifoQ
proof (unfold_locales, goal_cases)
  case (1 q)
  then show ?case by (auto simp: fifoP_defs used_le split: option.splits)
next
  case (2 q x)
  then show ?case
    using enqueue_step [of "the q" x] isFull_iff [of "the q"]
    by (fastforce simp: fifoP_defs split: option.splits)
next
  case (3 q x)
  then show ?case
    using isFull_iff [of "the q"] by (auto simp: fifoP_defs enqueueFifoQ_def split: option.splits)
next
  case (4 q x xs)
  then show ?case
    using dequeue_step [of "the q"] by (fastforce simp: fifoP_defs split: option.splits)
next
  case (5 q)
  then show ?case
    using isEmpty_iff [of "the q"] by (auto simp: fifoP_defs dequeueFifoQ_def split: option.splits)
qed

subsection \<open>Properties\<close>

text \<open>
  C1: any sequence of enqueues and dequeues on a well-formed queue is memory safe, keeps the
  queue well formed and answers each operation as a list queue of capacity \<open>size\<close> would: bytes
  leave in the order they came, a full queue refuses, an empty queue yields nothing.
\<close>

theorem fifo_ops_refine_list_queue:
  assumes "fifo_inv q"
  shows "\<exists>outs q'. fifo_run enqueueFifoQ dequeueFifoQ (Some q) ops = Some (outs, Some q') \<and>
           fifo_inv q' \<and> qsize q' = qsize q \<and>
           spec_run (unat (qsize q)) (contents q) ops = (outs, contents q')"
proof -
  obtain outs p where run: "fifo_run enqueueFifoQ dequeueFifoQ (Some q) ops = Some (outs, p)"
    and inv: "fifoP_inv p" and cap: "fifoP_cap p = unat (qsize q)"
    and sp: "spec_run (unat (qsize q)) (contents q) ops = (outs, fifoP_items p)"
    using byteq.run_refines [of "Some q" ops] assms by (auto simp: fifoP_defs)
  then obtain q' where "p = Some q'" by (cases p) (auto simp: fifoP_defs)
  with run inv cap sp show ?thesis by (auto simp: fifoP_defs word_unat_eq_iff)
qed

definition fifo_example :: FifoQ where
  "fifo_example = \<lparr>isEmpty = False, readOffset = 1, writeOffset = 0, qsize = 2, qbuf = [7, 9]\<rparr>"

theorem fifo_ops_refine_list_queue_witness:
  "fifo_inv fifo_example \<and>
   (\<exists>q'. fifo_run enqueueFifoQ dequeueFifoQ (Some fifo_example) [Enq 1, Enq 2, Deq, Deq, Deq] =
           Some ([Enqueued True, Enqueued False, Dequeued (Some 9), Dequeued (Some 1),
                  Dequeued None], Some q'))"
proof -
  have inv: "fifo_inv fifo_example" by (simp add: fifo_inv_def fifo_example_def)
  have sp: "contents fifo_example = [9]"
    by (simp add: contents_def ring_def used_def fifo_example_def)
  have run: "spec_run 2 [9] [Enq 1, Enq (2::u8), Deq, Deq, Deq] =
    ([Enqueued True, Enqueued False, Dequeued (Some 9), Dequeued (Some 1), Dequeued None], [])"
    by simp
  have cap: "unat (qsize fifo_example) = 2" by (simp add: fifo_example_def)
  show ?thesis
    using fifo_ops_refine_list_queue [OF inv, of "[Enq 1, Enq 2, Deq, Deq, Deq]"] inv
    unfolding sp cap run by blast
qed

text \<open>
  \<open>newFifoQ\<close> of a positive size that does not wrap the allocation request gives, when the
  allocator returns that many bytes, an empty well-formed queue; when it returns \<open>NULL\<close> the
  call fails with \<open>ENOMEM\<close>.
\<close>

theorem newFifoQ_correct:
  assumes "0 < sz" and "unat sz + 16 < 2 ^ 32"
    and "\<And>n bytes. alloc n = Some bytes \<Longrightarrow> length bytes = unat n"
  shows "(case newFifoQ alloc sz of
            Inl e \<Rightarrow> e = ENOMEM \<and> alloc (16 + sz) = None
          | Inr q \<Rightarrow> fifo_inv q \<and> contents q = [] \<and> qsize q = sz)"
proof (cases "alloc (16 + sz)")
  case None
  then show ?thesis by (simp add: newFifoQ_def sizeof_FifoQ_def)
next
  case (Some bytes)
  have "unat (16 + sz) = 16 + unat sz"
    using assms(2) by (subst unat_add_lem [THEN iffD1]) auto
  with assms(3) [OF Some] have "length (drop 16 bytes) = unat sz" by simp
  with Some assms(1) show ?thesis
    by (simp add: newFifoQ_def sizeof_FifoQ_def clearFifoQ_def fifo_inv_def contents_def used_def)
qed

theorem newFifoQ_correct_witness:
  "newFifoQ (\<lambda>n. Some (replicate (unat n) 0)) 2 =
     Inr \<lparr>isEmpty = True, readOffset = 0, writeOffset = 0, qsize = 2, qbuf = [0, 0]\<rparr> \<and>
   fifo_inv \<lparr>isEmpty = True, readOffset = 0, writeOffset = 0, qsize = 2, qbuf = [0, 0]\<rparr>"
proof -
  have eq: "newFifoQ (\<lambda>n. Some (replicate (unat n) 0)) 2 =
     Inr \<lparr>isEmpty = True, readOffset = 0, writeOffset = 0, qsize = 2, qbuf = [0, 0]\<rparr>"
    using replicate_Suc [of 1 "0::u8"]
    by (simp add: newFifoQ_def sizeof_FifoQ_def clearFifoQ_def flip: numeral_2_eq_2)
  show ?thesis
    using newFifoQ_correct [of 2 "\<lambda>n. Some (replicate (unat n) 0)"] eq by simp
qed

end
