(* ===== verification/HeapQueue.thy ===== *)
theory HeapQueue
  imports ManosPrelude "HOL-Library.Multiset"
begin

text \<open>
  The bounded priority heap of \<open>src/src/heapq\<close>: an array of 32-bit keys with the largest key at
  index 0. The recursive sifts are partial functions, since the code bounds them by the indices
  it is given and not by the array; \<open>None\<close> is an access outside the array. Shown: enqueue and
  dequeue keep the heap order and the multiset of keys, and what a dequeue of the last key does.
\<close>

subsection \<open>The heap and its operations\<close>

record HeapQ =
  hn :: u32
  hsize :: u32
  hbuf :: "u32 list"

definition sizeof_HeapQ :: u32 where
  "sizeof_HeapQ = 8"

definition clearHeapQ :: "HeapQ \<Rightarrow> HeapQ" where
  "clearHeapQ q = \<lparr>hn = 0, hsize = hsize q, hbuf = hbuf q\<rparr>"

text \<open>\<open>syskmalloc\<close> gives the words behind the pointer it returns; the first two are the fields.\<close>

definition newHeapQ :: "(u32 \<Rightarrow> u32 list option) \<Rightarrow> u32 \<Rightarrow> errno + HeapQ" where
  "newHeapQ syskmalloc sz =
     (case syskmalloc (sizeof_HeapQ + 4 * sz) of
        None \<Rightarrow> Inl ENOMEM
      | Some ws \<Rightarrow> Inr (clearHeapQ \<lparr>hn = 0, hsize = sz, hbuf = drop 2 ws\<rparr>))"

definition rd :: "u32 list \<Rightarrow> u32 \<Rightarrow> u32 option" where
  "rd b i = (if unat i < length b then Some (b ! unat i) else None)"

definition wr :: "HeapQ \<Rightarrow> u32 \<Rightarrow> u32 \<Rightarrow> HeapQ option" where
  "wr q i x = (if unat i < length (hbuf q) then Some (q\<lparr>hbuf := (hbuf q)[unat i := x]\<rparr>) else None)"

partial_function (option) downHeapQ :: "HeapQ \<Rightarrow> u32 \<Rightarrow> u32 \<Rightarrow> HeapQ option" where
  "downHeapQ q startIndex bottomIndex =
     (let leftIndex = startIndex * 2 + 1; rightIndex = startIndex * 2 + 2 in
      if leftIndex \<le> bottomIndex then
        do {
          maxIndex \<leftarrow> (if leftIndex = bottomIndex then Some leftIndex
                       else do {
                         l \<leftarrow> rd (hbuf q) leftIndex;
                         r \<leftarrow> rd (hbuf q) rightIndex;
                         Some (if l \<le> r then rightIndex else leftIndex)
                       });
          s \<leftarrow> rd (hbuf q) startIndex;
          m \<leftarrow> rd (hbuf q) maxIndex;
          if s \<le> m then do {
            q1 \<leftarrow> wr q startIndex m;
            q2 \<leftarrow> wr q1 maxIndex s;
            downHeapQ q2 maxIndex bottomIndex
          } else Some q
        }
      else Some q)"

partial_function (option) upHeapQ :: "HeapQ \<Rightarrow> u32 \<Rightarrow> u32 \<Rightarrow> HeapQ option" where
  "upHeapQ q startIndex bottomIndex =
     (if startIndex < bottomIndex then
        (let upIndex = (bottomIndex - 1) div 2 in
         do {
           u \<leftarrow> rd (hbuf q) upIndex;
           b \<leftarrow> rd (hbuf q) bottomIndex;
           if u < b then do {
             q1 \<leftarrow> wr q upIndex b;
             q2 \<leftarrow> wr q1 bottomIndex u;
             upHeapQ q2 startIndex upIndex
           } else Some q
         })
      else Some q)"

definition enqueueHeapQ :: "HeapQ \<Rightarrow> u32 \<Rightarrow> (bool \<times> HeapQ) option" where
  "enqueueHeapQ q x =
     (if hn q < hsize q then
        do {
          q1 \<leftarrow> wr q (hn q) x;
          q2 \<leftarrow> upHeapQ q1 0 (hn q1);
          Some (True, q2\<lparr>hn := hn q2 + 1\<rparr>)
        }
      else Some (False, q))"

text \<open>The result is the return value, the key stored in \<open>*x\<close> and the heap.\<close>

definition dequeueHeapQ :: "HeapQ \<Rightarrow> (bool \<times> u32 \<times> HeapQ) option" where
  "dequeueHeapQ q =
     do {
       x \<leftarrow> rd (hbuf q) 0;
       let q1 = q\<lparr>hn := hn q - 1\<rparr>;
       y \<leftarrow> rd (hbuf q1) (hn q1);
       q2 \<leftarrow> wr q1 0 y;
       q3 \<leftarrow> downHeapQ q2 0 (hn q2 - 1);
       Some (0 < hn q3, x, q3)
     }"

subsection \<open>Heap order\<close>

definition heap_upto :: "u32 list \<Rightarrow> nat \<Rightarrow> bool" where
  "heap_upto b n \<longleftrightarrow> (\<forall>i. 0 < i \<and> i < n \<longrightarrow> b ! i \<le> b ! ((i - 1) div 2))"

text \<open>The heap order with a hole at \<open>s\<close>: only the edges below \<open>s\<close> may be wrong.\<close>

definition heap_below :: "u32 list \<Rightarrow> nat \<Rightarrow> nat \<Rightarrow> bool" where
  "heap_below b n s \<longleftrightarrow>
     (\<forall>i. 0 < i \<and> i < n \<and> (i - 1) div 2 \<noteq> s \<longrightarrow> b ! i \<le> b ! ((i - 1) div 2)) \<and>
     (\<forall>i. 0 < i \<and> i < n \<and> (i - 1) div 2 = s \<and> 0 < s \<longrightarrow> b ! i \<le> b ! ((s - 1) div 2))"

text \<open>The heap order with only the edge above \<open>s\<close> possibly wrong.\<close>

definition heap_above :: "u32 list \<Rightarrow> nat \<Rightarrow> nat \<Rightarrow> bool" where
  "heap_above b n s \<longleftrightarrow>
     (\<forall>i. 0 < i \<and> i < n \<and> i \<noteq> s \<longrightarrow> b ! i \<le> b ! ((i - 1) div 2)) \<and>
     (\<forall>i. 0 < i \<and> i < n \<and> (i - 1) div 2 = s \<and> 0 < s \<longrightarrow> b ! i \<le> b ! ((s - 1) div 2))"

definition swapL :: "'a list \<Rightarrow> nat \<Rightarrow> nat \<Rightarrow> 'a list" where
  "swapL b i j = b[i := b ! j, j := b ! i]"

lemma length_swapL [simp]: "length (swapL b i j) = length b"
  by (simp add: swapL_def)

lemma nth_swapL:
  "i < length b \<Longrightarrow> j < length b \<Longrightarrow> k < length b \<Longrightarrow>
     swapL b i j ! k = (if k = i then b ! j else if k = j then b ! i else b ! k)"
  by (simp add: swapL_def nth_list_update)

lemma mset_take_swapL:
  "i < n \<Longrightarrow> j < n \<Longrightarrow> n \<le> length b \<Longrightarrow> mset (take n (swapL b i j)) = mset (take n b)"
  using mset_swap [of j "take n b" i] by (simp add: swapL_def take_update_swap)

lemma drop_swapL: "i < n \<Longrightarrow> j < n \<Longrightarrow> drop n (swapL b i j) = drop n b"
  by (simp add: swapL_def)

lemma heap_below_swap:
  assumes h: "heap_below b n s" and m: "m < n" "(m - 1) div 2 = s" "0 < m"
    and big: "\<And>i. 0 < i \<Longrightarrow> i < n \<Longrightarrow> (i - 1) div 2 = s \<Longrightarrow> b ! i \<le> b ! m"
    and len: "n \<le> length b" and le: "b ! s \<le> b ! m"
  shows "heap_below (swapL b s m) n m"
proof -
  have "s < m" using m(2,3) by auto
  then have sw: "swapL b s m ! k = (if k = s then b ! m else if k = m then b ! s else b ! k)"
    if "k < n" for k using that m(1) len by (intro nth_swapL) auto
  show ?thesis
    unfolding heap_below_def
  proof (intro conjI allI impI)
    fix i assume i: "0 < i \<and> i < n \<and> (i - 1) div 2 \<noteq> m"
    then have p: "(i - 1) div 2 < n" by auto
    show "swapL b s m ! i \<le> swapL b s m ! ((i - 1) div 2)"
    proof (cases "(i - 1) div 2 = s")
      case True
      then show ?thesis using i p big [of i] le \<open>s < m\<close> by (auto simp: sw)
    next
      case False
      then have "b ! i \<le> b ! ((i - 1) div 2)" using h i by (auto simp: heap_below_def)
      moreover have "i \<noteq> m" using False m(2) by auto
      moreover have "b ! m \<le> b ! ((s - 1) div 2)" if "i = s"
        using h m i that by (auto simp: heap_below_def)
      ultimately show ?thesis using False i p by (auto simp: sw)
    qed
  next
    fix i assume i: "0 < i \<and> i < n \<and> (i - 1) div 2 = m \<and> 0 < m"
    then have "m < i" by auto
    moreover have "b ! i \<le> b ! m" using h i m(2) \<open>s < m\<close> by (auto simp: heap_below_def)
    ultimately show "swapL b s m ! i \<le> swapL b s m ! ((m - 1) div 2)"
      using i m(1,2) \<open>s < m\<close> by (auto simp: sw)
  qed
qed

lemma heap_below_done:
  assumes "heap_below b n s" "\<And>i. 0 < i \<Longrightarrow> i < n \<Longrightarrow> (i - 1) div 2 = s \<Longrightarrow> b ! i \<le> b ! s"
  shows "heap_upto b n"
  using assms by (auto simp: heap_below_def heap_upto_def)

lemma heap_above_swap:
  assumes h: "heap_above b n s" and s: "0 < s" "s < n" and len: "n \<le> length b"
    and u: "u = (s - 1) div 2" and lt: "b ! u < b ! s"
  shows "heap_above (swapL b u s) n u"
proof -
  have "u < s" using s u by auto
  then have sw: "swapL b u s ! k = (if k = u then b ! s else if k = s then b ! u else b ! k)"
    if "k < n" for k using that s len by (intro nth_swapL) auto
  show ?thesis
    unfolding heap_above_def
  proof (intro conjI allI impI)
    fix i assume i: "0 < i \<and> i < n \<and> i \<noteq> u"
    then have p: "(i - 1) div 2 < n" by auto
    show "swapL b u s ! i \<le> swapL b u s ! ((i - 1) div 2)"
    proof (cases "i = s")
      case True
      then show ?thesis unfolding True u [symmetric] using lt s \<open>u < s\<close> by (simp add: sw)
    next
      case False
      then have e: "b ! i \<le> b ! ((i - 1) div 2)" using h i by (auto simp: heap_above_def)
      have "b ! i \<le> b ! u" if "(i - 1) div 2 = s"
        using h i s u that by (auto simp: heap_above_def)
      with e False i p lt show ?thesis by (auto simp: sw)
    qed
  next
    fix i assume i: "0 < i \<and> i < n \<and> (i - 1) div 2 = u \<and> 0 < u"
    have "(u - 1) div 2 < u"
      using i by (intro le_less_trans [OF div_le_dividend]) auto
    then have up: "(u - 1) div 2 < n \<and> (u - 1) div 2 < u" using \<open>u < s\<close> s by auto
    have e: "b ! u \<le> b ! ((u - 1) div 2)"
      using h i \<open>u < s\<close> s by (auto simp: heap_above_def)
    have "i \<noteq> u" using i by auto
    moreover have "b ! i \<le> b ! u" if "i \<noteq> s"
      using h i that by (auto simp: heap_above_def)
    ultimately show "swapL b u s ! i \<le> swapL b u s ! ((u - 1) div 2)"
      using i up e \<open>u < s\<close> by (cases "i = s") (auto simp: sw)
  qed
qed

lemma heap_max:
  assumes "heap_upto b n" "i < n"
  shows "b ! i \<le> b ! 0"
  using assms(2)
proof (induction i rule: less_induct)
  case (less i)
  show ?case
  proof (cases "i = 0")
    case False
    then have "b ! i \<le> b ! ((i - 1) div 2)" using assms(1) less.prems by (auto simp: heap_upto_def)
    also have "\<dots> \<le> b ! 0" using False less by auto
    finally show ?thesis .
  qed simp
qed

subsection \<open>The sifts\<close>

lemma swap_wr:
  assumes "unat i < length (hbuf q)" "unat j < length (hbuf q)"
  shows "(do { q1 \<leftarrow> wr q i (hbuf q ! unat j); q2 \<leftarrow> wr q1 j (hbuf q ! unat i); f q2 }) =
         f (q\<lparr>hbuf := swapL (hbuf q) (unat i) (unat j)\<rparr>)"
  using assms by (simp add: wr_def swapL_def)

lemma unat_children:
  fixes s :: u32
  assumes "unat s < 2 ^ 31 - 1"
  shows "unat (s * 2 + 1) = 2 * unat s + 1" "unat (s * 2 + 2) = 2 * unat s + 2"
  using assms by (auto simp: unat_word_ariths)

text \<open>One level of the sift down: either it stops, or it swaps with the larger child and goes on.\<close>

lemma downHeapQ_step:
  assumes bt: "unat bt < length (hbuf q)" and len: "length (hbuf q) < 2 ^ 31"
    and s: "unat s \<le> unat bt"
  shows "(downHeapQ q s bt = Some q \<and>
           (\<forall>i. 0 < i \<and> i \<le> unat bt \<and> (i - 1) div 2 = unat s \<longrightarrow> hbuf q ! i \<le> hbuf q ! unat s)) \<or>
         (\<exists>m. unat m \<le> unat bt \<and> 0 < unat m \<and> (unat m - 1) div 2 = unat s \<and>
           (\<forall>i. 0 < i \<and> i \<le> unat bt \<and> (i - 1) div 2 = unat s \<longrightarrow> hbuf q ! i \<le> hbuf q ! unat m) \<and>
           hbuf q ! unat s \<le> hbuf q ! unat m \<and>
           downHeapQ q s bt =
             downHeapQ (q\<lparr>hbuf := swapL (hbuf q) (unat s) (unat m)\<rparr>) m bt)"
proof -
  have ch: "unat (s * 2 + 1) = 2 * unat s + 1" "unat (s * 2 + 2) = 2 * unat s + 2"
  proof -
    have "unat s < 2 ^ 31 - 1" using assms by simp
    then show "unat (s * 2 + 1) = 2 * unat s + 1" "unat (s * 2 + 2) = 2 * unat s + 2"
      by (rule unat_children)+
  qed
  have kids: "i = 2 * unat s + 1 \<or> i = 2 * unat s + 2" if "(i - 1) div 2 = unat s" "0 < i" for i
    using that by auto
  let ?l = "s * 2 + 1" and ?r = "s * 2 + 2"
  show ?thesis
  proof (cases "?l \<le> bt")
    case False
    then have "unat bt < 2 * unat s + 1" using ch(1) by (simp add: word_le_nat_alt)
    then show ?thesis using False by (subst downHeapQ.simps) auto
  next
    case True
    then have lb: "2 * unat s + 1 \<le> unat bt" using ch(1) by (simp add: word_le_nat_alt)
    define m where "m = (if ?l = bt then ?l
      else if hbuf q ! unat ?l \<le> hbuf q ! unat ?r then ?r else ?l)"
    have rb: "2 * unat s + 2 \<le> unat bt" if "?l \<noteq> bt"
      using that lb ch(1) by (auto simp: word_unat_eq_iff)
    have m: "unat m \<le> unat bt" "0 < unat m" "(unat m - 1) div 2 = unat s"
      using lb rb ch by (auto simp: m_def)
    have big: "hbuf q ! i \<le> hbuf q ! unat m"
      if "0 < i" "i \<le> unat bt" "(i - 1) div 2 = unat s" for i
      using kids [OF that(3,1)] that(2) ch lb by (auto simp: m_def word_unat_eq_iff)
    have pick: "(if ?l = bt then Some ?l
       else do { l \<leftarrow> rd (hbuf q) ?l; r \<leftarrow> rd (hbuf q) ?r; Some (if l \<le> r then ?r else ?l) }) = Some m"
      using lb bt ch rb by (cases "?l = bt") (auto simp: m_def rd_def)
    have eq: "downHeapQ q s bt =
      (if hbuf q ! unat s \<le> hbuf q ! unat m
       then downHeapQ (q\<lparr>hbuf := swapL (hbuf q) (unat s) (unat m)\<rparr>) m bt else Some q)"
      using swap_wr [of s q m "\<lambda>q2. downHeapQ q2 m bt"] True m(1) bt s
      by (subst downHeapQ.simps) (simp add: Let_def pick rd_def)
    show ?thesis
    proof (cases "hbuf q ! unat s \<le> hbuf q ! unat m")
      case True
      then show ?thesis using eq m big by auto
    next
      case False
      then have "hbuf q ! i \<le> hbuf q ! unat s"
        if "0 < i" "i \<le> unat bt" "(i - 1) div 2 = unat s" for i
        using big [OF that] by (meson le_less_linear order_trans less_imp_le)
      then show ?thesis using eq False by auto
    qed
  qed
qed

lemma downHeapQ_sifts:
  assumes "unat bt < length (hbuf q)" "length (hbuf q) < 2 ^ 31" "unat s \<le> unat bt"
    and "heap_below (hbuf q) (Suc (unat bt)) (unat s)"
  shows "\<exists>b. downHeapQ q s bt = Some (q\<lparr>hbuf := b\<rparr>) \<and> length b = length (hbuf q) \<and>
           heap_upto b (Suc (unat bt)) \<and>
           mset (take (Suc (unat bt)) b) = mset (take (Suc (unat bt)) (hbuf q)) \<and>
           drop (Suc (unat bt)) b = drop (Suc (unat bt)) (hbuf q)"
  using assms
proof (induction "unat bt - unat s" arbitrary: q s rule: less_induct)
  case less
  let ?n = "Suc (unat bt)"
  consider (stop) "downHeapQ q s bt = Some q"
      "\<forall>i. 0 < i \<and> i \<le> unat bt \<and> (i - 1) div 2 = unat s \<longrightarrow> hbuf q ! i \<le> hbuf q ! unat s"
    | (go) m where "unat m \<le> unat bt" "0 < unat m" "(unat m - 1) div 2 = unat s"
      "\<forall>i. 0 < i \<and> i \<le> unat bt \<and> (i - 1) div 2 = unat s \<longrightarrow> hbuf q ! i \<le> hbuf q ! unat m"
      "hbuf q ! unat s \<le> hbuf q ! unat m"
      "downHeapQ q s bt = downHeapQ (q\<lparr>hbuf := swapL (hbuf q) (unat s) (unat m)\<rparr>) m bt"
    using downHeapQ_step [OF less.prems(1-3)] by blast
  then show ?case
  proof cases
    case stop
    have "heap_upto (hbuf q) ?n"
      by (rule heap_below_done [OF less.prems(4)]) (use stop(2) in auto)
    with stop(1) show ?thesis by (intro exI [of _ "hbuf q"]) simp
  next
    case go
    let ?q = "q\<lparr>hbuf := swapL (hbuf q) (unat s) (unat m)\<rparr>"
    have sm: "unat s < unat m" using go(2,3) by auto
    have hb: "heap_below (hbuf ?q) ?n (unat m)"
      using heap_below_swap [OF less.prems(4), of "unat m"] go(1-5) less.prems(1) by simp
    have "\<exists>b. downHeapQ ?q m bt = Some (?q\<lparr>hbuf := b\<rparr>) \<and> length b = length (hbuf ?q) \<and>
        heap_upto b ?n \<and> mset (take ?n b) = mset (take ?n (hbuf ?q)) \<and>
        drop ?n b = drop ?n (hbuf ?q)"
      using less.hyps [of m ?q] hb less.prems go(1) sm by simp
    then show ?thesis
      using go(1,6) sm less.prems(1) by (auto simp: mset_take_swapL drop_swapL)
  qed
qed

lemma upHeapQ_sifts:
  assumes "unat bt < length (hbuf q)" "unat bt < n" "n \<le> length (hbuf q)"
    and "heap_above (hbuf q) n (unat bt)"
  shows "\<exists>b. upHeapQ q 0 bt = Some (q\<lparr>hbuf := b\<rparr>) \<and> length b = length (hbuf q) \<and>
           heap_upto b n \<and> mset (take n b) = mset (take n (hbuf q)) \<and>
           drop n b = drop n (hbuf q)"
  using assms
proof (induction "unat bt" arbitrary: q bt rule: less_induct)
  case less
  show ?case
  proof (cases "0 < bt")
    case False
    then have "bt = 0" by (simp add: word_gt_0)
    then have "heap_upto (hbuf q) n" using less.prems(4) by (auto simp: heap_above_def heap_upto_def)
    then show ?thesis using False
      by (intro exI [of _ "hbuf q"]) (subst upHeapQ.simps, simp)
  next
    case True
    then have pos: "0 < unat bt" by (simp add: unat_gt_0 word_gt_0)
    define up where "up = (bt - 1) div 2"
    have "unat (bt - 1) = unat bt - 1" using True by (simp add: unat_minus_one word_gt_0)
    then have up: "unat up = (unat bt - 1) div 2" by (simp add: up_def unat_div)
    then have lt: "unat up < unat bt" using pos by auto
    let ?q = "q\<lparr>hbuf := swapL (hbuf q) (unat up) (unat bt)\<rparr>"
    have eq: "upHeapQ q 0 bt =
      (if hbuf q ! unat up < hbuf q ! unat bt then upHeapQ ?q 0 up else Some q)"
      using swap_wr [of up q bt "\<lambda>q2. upHeapQ q2 0 up"] True lt less.prems(1)
      by (subst upHeapQ.simps) (simp add: rd_def flip: up_def)
    show ?thesis
    proof (cases "hbuf q ! unat up < hbuf q ! unat bt")
      case True
      have ha: "heap_above (hbuf ?q) n (unat up)"
        using heap_above_swap [OF less.prems(4) pos less.prems(2,3) up True] by simp
      have "\<exists>b. upHeapQ ?q 0 up = Some (?q\<lparr>hbuf := b\<rparr>) \<and> length b = length (hbuf ?q) \<and>
          heap_upto b n \<and> mset (take n b) = mset (take n (hbuf ?q)) \<and> drop n b = drop n (hbuf ?q)"
        using less.hyps [OF lt, of ?q] ha less.prems lt by simp
      then show ?thesis
        using eq True lt less.prems by (auto simp: mset_take_swapL drop_swapL)
    next
      case False
      then have "heap_upto (hbuf q) n"
        using less.prems(4) up by (auto simp: heap_above_def heap_upto_def not_less)
      then show ?thesis using eq False by (intro exI [of _ "hbuf q"]) simp
    qed
  qed
qed

subsection \<open>Enqueue and dequeue\<close>

definition heapq_inv :: "HeapQ \<Rightarrow> bool" where
  "heapq_inv q \<longleftrightarrow> hn q \<le> hsize q \<and> length (hbuf q) = unat (hsize q) \<and> unat (hsize q) < 2 ^ 31 \<and>
     heap_upto (hbuf q) (unat (hn q))"

definition keys :: "HeapQ \<Rightarrow> u32 multiset" where
  "keys q = mset (take (unat (hn q)) (hbuf q))"

lemma enqueue_keys:
  assumes inv: "heapq_inv q" and room: "hn q < hsize q"
  shows "\<exists>q'. enqueueHeapQ q x = Some (True, q') \<and> heapq_inv q' \<and> keys q' = add_mset x (keys q) \<and>
           hsize q' = hsize q"
proof -
  let ?n = "unat (hn q)"
  let ?b = "(hbuf q)[?n := x]"
  have n: "?n < length (hbuf q)" using inv room by (simp add: heapq_inv_def word_less_nat_alt)
  have ha: "heap_above ?b (Suc ?n) ?n"
  proof -
    have "b' \<noteq> ?n" if "b' = (i - 1) div 2" "0 < i" "i < Suc ?n" for i b' using that by auto
    moreover have "(i - 1) div 2 \<noteq> ?n" if "0 < i" "i < Suc ?n" for i using that by auto
    ultimately show ?thesis
      using inv n by (auto simp: heap_above_def heapq_inv_def heap_upto_def nth_list_update)
  qed
  obtain b where b: "upHeapQ (q\<lparr>hbuf := ?b\<rparr>) 0 (hn q) = Some (q\<lparr>hbuf := b\<rparr>)"
    "length b = length (hbuf q)" "heap_upto b (Suc ?n)" "mset (take (Suc ?n) b) = mset (take (Suc ?n) ?b)"
    using upHeapQ_sifts [of "hn q" "q\<lparr>hbuf := ?b\<rparr>" "Suc ?n"] n ha by auto
  have n': "unat (hn q + 1) = Suc ?n" by (rule unat_inc_lt [OF room])
  have "enqueueHeapQ q x = Some (True, q\<lparr>hbuf := b, hn := hn q + 1\<rparr>)"
    using room n b(1) by (simp add: enqueueHeapQ_def wr_def)
  moreover have "heapq_inv (q\<lparr>hbuf := b, hn := hn q + 1\<rparr>)"
    using inv b n n' by (simp add: heapq_inv_def word_le_nat_alt)
  moreover have "keys (q\<lparr>hbuf := b, hn := hn q + 1\<rparr>) = add_mset x (keys q)"
    using b(4) n n' by (simp add: keys_def take_Suc_conv_app_nth)
  ultimately show ?thesis by auto
qed

lemma dequeue_keys:
  assumes inv: "heapq_inv q" and two: "2 \<le> unat (hn q)"
  shows "\<exists>q'. dequeueHeapQ q = Some (True, hbuf q ! 0, q') \<and> heapq_inv q' \<and>
           keys q = add_mset (hbuf q ! 0) (keys q') \<and> (\<forall>k \<in># keys q. k \<le> hbuf q ! 0) \<and>
           hsize q' = hsize q"
proof -
  define n where "n = unat (hn q)"
  have len: "length (hbuf q) = unat (hsize q)" "n \<le> length (hbuf q)" "length (hbuf q) < 2 ^ 31"
    using inv by (auto simp: heapq_inv_def n_def word_le_nat_alt)
  have nz: "hn q \<noteq> 0" "hn q - 1 \<noteq> 0"
    using two by (auto simp: unat_eq_0 [symmetric] unat_minus_one simp del: unat_eq_0)
  have n1: "unat (hn q - 1) = n - 1" "unat (hn q - 1 - 1) = n - 2"
  proof -
    show a: "unat (hn q - 1) = n - 1" unfolding n_def by (rule unat_minus_one [OF nz(1)])
    show "unat (hn q - 1 - 1) = n - 2" using unat_minus_one [OF nz(2)] a by linarith
  qed
  let ?b = "(hbuf q)[0 := hbuf q ! (n - 1)]"
  let ?q = "q\<lparr>hn := hn q - 1, hbuf := ?b\<rparr>"
  have below: "heap_below ?b (Suc (n - 2)) 0"
    using inv two len
    by (auto simp: heap_below_def heapq_inv_def heap_upto_def nth_list_update n_def)
  have lt1: "n - 1 < length (hbuf q)" "hbuf q \<noteq> []"
    using len two unfolding n_def by (linarith, auto)
  have lt2: "n - 2 < length (hbuf q)" using len two unfolding n_def by linarith
  obtain b where b: "downHeapQ ?q 0 (hn q - 1 - 1) = Some (?q\<lparr>hbuf := b\<rparr>)"
    "length b = length (hbuf q)" "heap_upto b (Suc (n - 2))"
    "mset (take (Suc (n - 2)) b) = mset (take (Suc (n - 2)) ?b)"
    using downHeapQ_sifts [of "hn q - 1 - 1" ?q 0] lt2 len below n1 by (auto simp: n_def)
  let ?q' = "q\<lparr>hn := hn q - 1, hbuf := b\<rparr>"
  have deq: "dequeueHeapQ q = Some (True, hbuf q ! 0, ?q')"
    using two len n1 nz b(1) lt1
    by (simp add: dequeueHeapQ_def rd_def wr_def n_def Let_def word_gt_0)
  have n2: "Suc (n - 2) = n - 1" using two by (simp add: n_def)
  have inv': "heapq_inv ?q'"
    using inv b(2,3) n1 n2 len by (simp add: heapq_inv_def word_le_nat_alt)
  have keys: "keys q = add_mset (hbuf q ! 0) (keys ?q')"
  proof -
    obtain y ys where y: "take n (hbuf q) = y # ys @ [hbuf q ! (n - 1)]" "length ys = n - 2"
    proof -
      obtain m where m: "n = Suc (Suc m)" using two
        by (metis n_def numeral_2_eq_2 Suc_le_D Suc_le_mono)
      have "take n (hbuf q) = take (Suc m) (hbuf q) @ [hbuf q ! Suc m]"
        using m len by (simp add: take_Suc_conv_app_nth)
      moreover have "take (Suc m) (hbuf q) = hd (hbuf q) # take m (tl (hbuf q))"
        using m len by (cases "hbuf q") auto
      ultimately show ?thesis using m len that by (cases "hbuf q") auto
    qed
    have "take (n - 1) ?b = hbuf q ! (n - 1) # ys"
    proof -
      have l: "length (y # ys) = n - 1" using y(2) two unfolding n_def by simp
      have "take (length (y # ys)) (take n (hbuf q)) = y # ys" unfolding y(1) by simp
      then have "take (n - 1) (hbuf q) = y # ys" unfolding l by (simp add: min_def)
      then show ?thesis using two by (cases "n - 1") (auto simp: take_update_swap n_def)
    qed
    moreover have "y = hbuf q ! 0"
      using arg_cong [OF y(1), of "\<lambda>xs. xs ! 0"] two by (simp add: n_def)
    ultimately show ?thesis
      using b(4) y(1) n1 n2 by (simp add: keys_def n_def)
  qed
  have "k \<le> hbuf q ! 0" if "k \<in># keys q" for k
  proof -
    obtain i where "i < n" "k = hbuf q ! i"
      using \<open>k \<in># keys q\<close> len by (auto simp: keys_def n_def in_set_conv_nth)
    then show ?thesis using heap_max [of "hbuf q" n i] inv by (auto simp: heapq_inv_def n_def)
  qed
  with deq inv' keys show ?thesis by auto
qed

subsection \<open>Properties\<close>



text \<open>
  C27: with at least two keys, \<open>dequeueHeapQ\<close> is memory safe, returns 1, delivers the largest
  key (the comment above the function promises the lowest), removes exactly that key and keeps
  the heap order.
\<close>

theorem dequeueHeapQ_max:
  assumes "heapq_inv q" and "2 \<le> unat (hn q)"
  shows "\<exists>x q'. dequeueHeapQ q = Some (True, x, q') \<and> heapq_inv q' \<and>
           keys q = add_mset x (keys q') \<and> (\<forall>k \<in># keys q. k \<le> x)"
  using dequeue_keys [OF assms] by blast

theorem dequeueHeapQ_max_witness:
  "heapq_inv \<lparr>hn = 2, hsize = 2, hbuf = [8, 5]\<rparr> \<and>
   (\<exists>q'. dequeueHeapQ \<lparr>hn = 2, hsize = 2, hbuf = [8, 5]\<rparr> = Some (True, 8, q') \<and> keys q' = {#5#})"
proof -
  let ?q = "\<lparr>hn = 2, hsize = 2, hbuf = [8, 5]\<rparr>"
  have inv: "heapq_inv ?q" by (simp add: heapq_inv_def heap_upto_def)
  obtain x q' where q': "dequeueHeapQ ?q = Some (True, x, q')" "keys ?q = add_mset x (keys q')"
    "\<forall>k \<in># keys ?q. k \<le> x"
    using dequeueHeapQ_max [OF inv] by auto
  have k: "keys ?q = {#5, 8#}" by (simp add: keys_def)
  then have "8 \<le> x" using q'(3) by simp
  moreover have "x \<in># keys ?q" unfolding q'(2) by simp
  ultimately have "x = 8" using k by auto
  then show ?thesis using q'(1,2) k inv by (auto simp: add_mset_commute)
qed

text \<open>
  Dequeuing the last key. The sift is called with bottom index \<open>0 - 1\<close>, which wraps to the
  largest index, so it compares keys past the end of the heap: with room for one or two keys
  that is an access outside the array.
\<close>

theorem dequeueHeapQ_last_key_unsafe:
  assumes "hn q = 1" and "length (hbuf q) \<in> {1, 2}"
  shows "dequeueHeapQ q = None"
proof -
  have bound: "(1::u32) \<le> hn q - 1 - 1" "(1::u32) \<noteq> hn q - 1 - 1" using assms(1) by simp_all
  have "downHeapQ (q\<lparr>hn := hn q - 1, hbuf := b\<rparr>) 0 (hn q - 1 - 1) = None"
    if "length b = length (hbuf q)" for b
    using that assms(2) bound by (subst downHeapQ.simps) (auto simp: rd_def Let_def)
  then show ?thesis
    using assms by (auto simp: dequeueHeapQ_def rd_def wr_def Let_def)
qed

theorem dequeueHeapQ_last_key_unsafe_witness:
  "heapq_inv \<lparr>hn = 1, hsize = 2, hbuf = [5, 0]\<rparr> \<and>
   dequeueHeapQ \<lparr>hn = 1, hsize = 2, hbuf = [5, 0]\<rparr> = None"
  using dequeueHeapQ_last_key_unsafe [of "\<lparr>hn = 1, hsize = 2, hbuf = [5, 0]\<rparr>"]
  by (simp add: heapq_inv_def heap_upto_def)

end
