(* ===== verification/Paths.thy ===== *)
theory Paths
  imports ManosPrelude
begin

text \<open>
  Path names (\<open>src/src/path/mkPath.c\<close>): a path is copied to a zeroed buffer, its slashes are
  replaced by \<open>NUL\<close> and the elements are pointers into that buffer.
\<close>

subsection \<open>The model\<close>

abbreviation "NUL \<equiv> CHR 0x00"
abbreviation "slash \<equiv> CHR 0x2F"

record Path =
  elems :: "string list"
  nelems :: u32
  nbuf :: u32
  pbuf :: string

definition sizeof_Path :: u32 where
  "sizeof_Path = 12"

text \<open>The last loop of \<open>mkPath\<close>: the strings a pointer running over the buffer meets.\<close>

fun elemsFrom :: "nat \<Rightarrow> string \<Rightarrow> string list option" where
  "elemsFrom 0 b = Some []"
| "elemsFrom (Suc n) b =
     (if NUL \<in> set b
      then (let s = takeWhile (\<lambda>c. c \<noteq> NUL) b
            in do { es \<leftarrow> elemsFrom n (drop (length s + 1) b); Some (s # es) })
      else None)"

definition isAbsolute :: "string \<Rightarrow> bool" where
  "isAbsolute path \<longleftrightarrow> path \<noteq> [] \<and> hd path = slash"

text \<open>The buffer after the copy and the \<open>while\<close> loop, and the number of elements counted.\<close>

definition pathBuf :: "string \<Rightarrow> string" where
  "pathBuf path =
     (let c = (if isAbsolute path then tl path else path)
      in map (\<lambda>ch. if ch = slash then NUL else ch) c @ replicate (length path + 1 - length c) NUL)"

definition pathCount :: "string \<Rightarrow> nat" where
  "pathCount path =
     (let n = length (filter (\<lambda>ch. ch = slash) path)
      in if n = 0 \<and> path \<noteq> [] then 1 else n)"

text \<open>
  \<open>avail1\<close> and \<open>avail2\<close> tell for which sizes the two allocations succeed; the block is zeroed.
  The second result is not tested, so the program writes through \<open>NULL\<close> when it fails and there
  is an element to store.
\<close>

definition mkPath :: "(u32 \<Rightarrow> bool) \<Rightarrow> (u32 \<Rightarrow> bool) \<Rightarrow> string \<Rightarrow> Path option option" where
  "mkPath avail1 avail2 path =
     (let n = pathCount path; b = pathBuf path in
      if \<not> avail1 (sizeof_Path + of_nat (length path) + 1) then Some None
      else if avail2 (4 * of_nat n) \<or> n = 0
      then do {
        es \<leftarrow> elemsFrom n b;
        Some (Some \<lparr>elems = es, nelems = of_nat n, nbuf = of_nat n, pbuf = b\<rparr>)
      }
      else None)"

subsection \<open>Joining and splitting\<close>

fun join :: "string list \<Rightarrow> string" where
  "join [] = []"
| "join [x] = x"
| "join (x # y # es) = x @ slash # join (y # es)"

definition plain :: "string \<Rightarrow> bool" where
  "plain s \<longleftrightarrow> NUL \<notin> set s \<and> slash \<notin> set s"

definition nulled :: "string \<Rightarrow> string" where
  "nulled s = map (\<lambda>ch. if ch = slash then NUL else ch) s"

lemma nulled_simps [simp]:
  "nulled [] = []" "nulled (s @ t) = nulled s @ nulled t" "nulled (slash # t) = NUL # nulled t"
  "plain s \<Longrightarrow> nulled s = s" "length (nulled s) = length s"
  by (auto simp: nulled_def plain_def intro: map_idI)

lemma takeWhile_plain:
  assumes "plain s"
  shows "takeWhile (\<lambda>c. c \<noteq> NUL) (s @ NUL # b) = s"
proof -
  have "\<forall>c \<in> set s. c \<noteq> NUL" using assms by (auto simp: plain_def)
  then show ?thesis by simp
qed

lemma elemsFrom_join:
  assumes "es \<noteq> []" "\<forall>s \<in> set es. plain s" "n \<le> length es"
  shows "elemsFrom n (nulled (join es) @ NUL # b) = Some (take n es)"
  using assms
proof (induction es arbitrary: n rule: join.induct)
  case (2 x)
  then show ?case by (cases n) (auto simp: takeWhile_plain)
next
  case (3 x y es)
  then show ?case
    by (cases n) (auto simp: takeWhile_plain [of x "nulled (join (y # es)) @ NUL # b"])
qed simp

lemma count_slash_join:
  "es \<noteq> [] \<Longrightarrow> \<forall>s \<in> set es. plain s \<Longrightarrow> Suc (length (filter (\<lambda>ch. ch = slash) (join es))) = length es"
proof (induction es rule: join.induct)
  case (2 x)
  then show ?case by (auto simp: plain_def filter_empty_conv)
next
  case (3 x y es)
  have "filter (\<lambda>ch. ch = slash) x = []" using 3 by (auto simp: plain_def filter_empty_conv)
  then show ?case using 3 by simp
qed simp

lemma mkPath_absolute:
  assumes "es \<noteq> []" and "\<forall>s \<in> set es. plain s"
    and "avail1 (sizeof_Path + of_nat (length (slash # join es)) + 1)" and "avail2 (4 * of_nat (length es))"
  shows "\<exists>p. mkPath avail1 avail2 (slash # join es) = Some (Some p) \<and> elems p = es \<and> nelems p = of_nat (length es)"
proof -
  let ?path = "slash # join es"
  have n: "pathCount ?path = length es"
    using count_slash_join [OF assms(1,2)] assms(1) by (simp add: pathCount_def)
  have "pathBuf ?path = nulled (join es) @ NUL # [NUL]"
    by (simp add: pathBuf_def isAbsolute_def nulled_def numeral_2_eq_2)
  then show ?thesis
    using elemsFrom_join [OF assms(1,2), of "length es" "[NUL]"] assms(3,4) n
    by (simp add: mkPath_def Let_def)
qed

subsection \<open>Properties\<close>

text \<open>
  C34: splitting inverts joining on absolute paths: for every non-empty list of elements without
  slashes, \<open>mkPath\<close> of the slash-separated path with a leading slash is exactly that list of
  elements, and no access leaves the buffer.
\<close>

theorem mkPath_absolute_roundtrip:
  assumes "es \<noteq> []" and "\<forall>s \<in> set es. plain s"
    and "avail1 (sizeof_Path + of_nat (length (slash # join es)) + 1)" and "avail2 (4 * of_nat (length es))"
  shows "\<exists>p. mkPath avail1 avail2 (slash # join es) = Some (Some p) \<and> elems p = es \<and> nelems p = of_nat (length es)"
  using assms by (rule mkPath_absolute)

theorem mkPath_absolute_roundtrip_witness:
  "\<exists>p. mkPath (\<lambda>_. True) (\<lambda>_. True) ''/dev/led/red'' = Some (Some p) \<and> elems p = [''dev'', ''led'', ''red'']"
proof -
  have "\<forall>s \<in> set [''dev'', ''led'', ''red'']. plain s" by (simp add: plain_def)
  then show ?thesis
    using mkPath_absolute_roundtrip [of "[''dev'', ''led'', ''red'']" "\<lambda>_. True" "\<lambda>_. True"] by auto
qed

text \<open>
  A relative path of several elements loses its last element: the number of elements is
  counted as the number of slashes.
\<close>

theorem mkPath_relative_drops_last:
  assumes "es \<noteq> []" and "\<forall>s \<in> set es. plain s" and "hd es \<noteq> []"
    and "avail1 (sizeof_Path + of_nat (length (join es)) + 1)"
    and "avail2 (4 * of_nat (max 1 (length es - 1)))"
  shows "\<exists>p. mkPath avail1 avail2 (join es) = Some (Some p) \<and>
           elems p = (if length es = 1 then es else butlast es)"
proof -
  let ?c = "join es"
  obtain x xs where es: "es = x # xs" using assms(1) by (cases es) auto
  have hd: "?c \<noteq> []" "hd ?c \<noteq> slash"
    using assms(2,3) by (cases xs; auto simp: es plain_def neq_Nil_conv)+
  have "length (filter (\<lambda>ch. ch = slash) ?c) = length es - 1"
    using count_slash_join [OF assms(1,2)] by simp
  then have n: "pathCount ?c = max 1 (length es - 1)"
    using hd by (auto simp: pathCount_def Let_def max_def)
  have b: "pathBuf ?c = nulled ?c @ NUL # []"
    using hd by (simp add: pathBuf_def isAbsolute_def nulled_def)
  have k: "max 1 (length es - 1) \<le> length es" using es by simp
  have "take (max 1 (length es - 1)) es = (if length es = 1 then es else butlast es)"
    by (cases xs) (auto simp: es max_def butlast_conv_take)
  then show ?thesis
    using elemsFrom_join [OF assms(1,2) k, of "[]"] assms(4,5) unfolding mkPath_def n b Let_def
    by simp
qed

theorem mkPath_relative_drops_last_witness:
  "\<exists>p. mkPath (\<lambda>_. True) (\<lambda>_. True) ''led/red'' = Some (Some p) \<and> elems p = [''led'']"
proof -
  have "\<forall>s \<in> set [''led'', ''red'']. plain s" by (simp add: plain_def)
  then show ?thesis
    using mkPath_relative_drops_last [of "[''led'', ''red'']" "\<lambda>_. True" "\<lambda>_. True"] by auto
qed

end
