(* ===== verification/DateTime.thy ===== *)
theory DateTime
  imports ManosPrelude
begin

text \<open>
  Dates (\<open>src/src/date/date.c\<close>): the conversion of seconds since 1970 to a calendar date and
  back. The fields of a date and the year are C \<open>int\<close>s; \<open>cint\<close> is \<open>None\<close> where a signed result
  would overflow. In \<open>secondsToDate\<close> the year cannot: it is at most 1970 + 2^32 / 365.
\<close>

subsection \<open>The model\<close>

record Date =
  seconds :: int
  minutes :: int
  hours :: int
  day :: int
  month :: int
  year :: int

abbreviation "EPOCH_YEAR \<equiv> (1970 :: int)"

definition IS_LEAP :: "int \<Rightarrow> bool" where
  "IS_LEAP y \<longleftrightarrow> y mod 400 = 0 \<or> (y mod 100 \<noteq> 0 \<and> y mod 4 = 0)"

definition DAYS_IN_YEAR :: "int \<Rightarrow> nat" where
  "DAYS_IN_YEAR y = (if IS_LEAP y then 366 else 365)"

definition monthDays :: "bool \<Rightarrow> nat list" where
  "monthDays leap = [31, if leap then 29 else 28, 31, 30, 31, 30, 31, 31, 30, 31, 30, 31]"

lemma DAYS_IN_YEAR_bounds [simp]: "0 < DAYS_IN_YEAR y" "DAYS_IN_YEAR y \<le> 366"
  by (simp_all add: DAYS_IN_YEAR_def)

lemma unat_DAYS [simp]: "unat (of_nat (DAYS_IN_YEAR y) :: u32) = DAYS_IN_YEAR y"
  using DAYS_IN_YEAR_bounds(2) [of y] by (intro unat_of_nat_small) (auto simp del: DAYS_IN_YEAR_bounds)

lemma days_sub:
  "of_nat (DAYS_IN_YEAR y) \<le> (d :: u32) \<Longrightarrow> unat (d - of_nat (DAYS_IN_YEAR y)) = unat d - DAYS_IN_YEAR y"
  by (simp add: unat_sub)

lemma DAYS_le_iff: "of_nat (DAYS_IN_YEAR y) \<le> (d :: u32) \<longleftrightarrow> DAYS_IN_YEAR y \<le> unat d"
  by (simp add: word_le_nat_alt)

text \<open>The two loops of \<open>secondsToDate\<close>; a month past the table is \<open>None\<close>.\<close>

function yearLoop :: "u32 \<Rightarrow> int \<Rightarrow> u32 \<times> int" where
  "yearLoop days y =
     (if of_nat (DAYS_IN_YEAR y) \<le> days then yearLoop (days - of_nat (DAYS_IN_YEAR y)) (y + 1)
      else (days, y))"
  by pat_completeness auto
termination
proof (relation "measure (unat \<circ> fst)")
  fix days :: u32 and y
  assume "of_nat (DAYS_IN_YEAR y) \<le> days"
  then have "unat (days - of_nat (DAYS_IN_YEAR y)) < unat days"
    using days_sub DAYS_le_iff DAYS_IN_YEAR_bounds(1) [of y]
    by (metis diff_less less_le_trans)
  then show "((days - of_nat (DAYS_IN_YEAR y), y + 1), days, y) \<in> measure (unat \<circ> fst)" by simp
qed simp

function monthLoop :: "bool \<Rightarrow> u32 \<Rightarrow> nat \<Rightarrow> (u32 \<times> nat) option" where
  "monthLoop leap days m =
     (if m < 12
      then if of_nat (monthDays leap ! m) \<le> days
           then monthLoop leap (days - of_nat (monthDays leap ! m)) (m + 1)
           else Some (days, m)
      else None)"
  by pat_completeness auto
termination by (relation "measure (\<lambda>(leap, days, m). 12 - m)") auto

declare yearLoop.simps [simp del] monthLoop.simps [simp del]

definition secondsToDate :: "u64 \<Rightarrow> Date option" where
  "secondsToDate s =
     (let daySeconds = (ucast (s mod 86400) :: u32);
          (days, y) = yearLoop (ucast (s div 86400)) EPOCH_YEAR
      in do {
           (days', m) \<leftarrow> monthLoop (IS_LEAP y) days 0;
           Some \<lparr>seconds = uint (daySeconds mod 60), minutes = uint ((daySeconds mod 3600) div 60),
                 hours = uint (daySeconds div 3600), day = uint (days' + 1), month = int m, year = y\<rparr>
         })"

text \<open>The loops of \<open>dateToSeconds\<close>.\<close>

fun addMonths :: "bool \<Rightarrow> nat \<Rightarrow> u64 \<Rightarrow> u64 option" where
  "addMonths leap 0 s = Some s"
| "addMonths leap (Suc i) s =
     do { s' \<leftarrow> addMonths leap i s;
          if i < 12 then Some (s' + ucast (of_nat (monthDays leap ! i) * 86400 :: u32)) else None }"

function downYears :: "int \<Rightarrow> u64 \<Rightarrow> u64" where
  "downYears y s =
     (if EPOCH_YEAR < y then downYears (y - 1) (s + of_nat (DAYS_IN_YEAR y * 86400)) else s)"
  by pat_completeness auto
termination by (relation "measure (\<lambda>(y, s). nat (y - EPOCH_YEAR))") auto

function upYears :: "int \<Rightarrow> u64 \<Rightarrow> u64" where
  "upYears y s =
     (if y < EPOCH_YEAR then upYears (y + 1) (s + of_nat (DAYS_IN_YEAR y * 86400)) else s)"
  by pat_completeness auto
termination by (relation "measure (\<lambda>(y, s). nat (EPOCH_YEAR - y))") auto

declare downYears.simps [simp del] upYears.simps [simp del]

definition dateToSeconds :: "Date \<Rightarrow> u64 option" where
  "dateToSeconds d =
     do {
       m \<leftarrow> cint (minutes d * 60);
       h \<leftarrow> cint (hours d * 3600);
       sm \<leftarrow> cint (seconds d + m);
       hms \<leftarrow> cint (sm + h);
       dd \<leftarrow> cint (day d * 86400);
       s \<leftarrow> addMonths (IS_LEAP (year d)) (nat (month d)) (of_int hms + of_int dd);
       Some (if EPOCH_YEAR < year d then downYears (year d) s else upYears (year d) s)
     }"

subsection \<open>What the loops compute\<close>

definition daysBefore :: "int \<Rightarrow> nat" where
  "daysBefore y = (\<Sum>k \<in> {EPOCH_YEAR ..< y}. DAYS_IN_YEAR k)"

definition daysBeforeMonth :: "bool \<Rightarrow> nat \<Rightarrow> nat" where
  "daysBeforeMonth leap m = sum_list (take m (monthDays leap))"

lemma daysBefore_Suc:
  assumes "EPOCH_YEAR \<le> y"
  shows "daysBefore (y + 1) = daysBefore y + DAYS_IN_YEAR y"
proof -
  have "{EPOCH_YEAR ..< y + 1} = insert y {EPOCH_YEAR ..< y}" using assms by auto
  then show ?thesis by (simp add: daysBefore_def)
qed

lemma length_monthDays [simp]: "length (monthDays leap) = 12"
  by (simp add: monthDays_def)

lemma monthDays_pos: "m < 12 \<Longrightarrow> monthDays leap ! m \<le> 31 \<and> 0 < monthDays leap ! m"
proof -
  have "\<forall>d \<in> set (monthDays leap). d \<le> 31 \<and> 0 < d" by (simp add: monthDays_def)
  then show "m < 12 \<Longrightarrow> ?thesis" by (metis length_monthDays nth_mem)
qed

lemma daysBeforeMonth_Suc: "m < 12 \<Longrightarrow> daysBeforeMonth leap (Suc m) = daysBeforeMonth leap m + monthDays leap ! m"
  by (simp add: daysBeforeMonth_def take_Suc_conv_app_nth)

lemma daysBeforeMonth_12: "daysBeforeMonth (IS_LEAP y) 12 = DAYS_IN_YEAR y"
  by (simp add: daysBeforeMonth_def monthDays_def DAYS_IN_YEAR_def)

lemma yearLoop_days:
  assumes "yearLoop days y = (d, y')" "EPOCH_YEAR \<le> y"
  shows "EPOCH_YEAR \<le> y' \<and> unat d < DAYS_IN_YEAR y' \<and> daysBefore y + unat days = daysBefore y' + unat d"
  using assms
proof (induction days y rule: yearLoop.induct)
  case (1 days y)
  show ?case
  proof (cases "of_nat (DAYS_IN_YEAR y) \<le> days")
    case True
    then have "DAYS_IN_YEAR y \<le> unat days" by (simp add: DAYS_le_iff)
    then show ?thesis using 1 True by (simp add: yearLoop.simps [of days y] days_sub daysBefore_Suc)
  next
    case False
    then show ?thesis using 1 by (simp add: yearLoop.simps [of days y] DAYS_le_iff)
  qed
qed

lemma monthLoop_days:
  assumes "daysBeforeMonth leap m + unat days < daysBeforeMonth leap 12" "m \<le> 12"
  shows "\<exists>d m'. monthLoop leap days m = Some (d, m') \<and> m' < 12 \<and> unat d < monthDays leap ! m' \<and>
           daysBeforeMonth leap m + unat days = daysBeforeMonth leap m' + unat d"
  using assms
proof (induction leap days m rule: monthLoop.induct)
  case (1 leap days m)
  have m: "m < 12" using 1(2,3) by (cases "m = 12") auto
  have un: "unat (of_nat (monthDays leap ! m) :: u32) = monthDays leap ! m"
    using monthDays_pos [OF m, of leap] by (intro unat_of_nat_small) auto
  show ?case
  proof (cases "of_nat (monthDays leap ! m) \<le> days")
    case True
    then have "monthDays leap ! m \<le> unat days" by (simp add: word_le_nat_alt un)
    moreover have "unat (days - of_nat (monthDays leap ! m)) = unat days - monthDays leap ! m"
      using True by (simp add: unat_sub un)
    ultimately show ?thesis
      using 1 m True by (simp add: monthLoop.simps [of leap days m] daysBeforeMonth_Suc)
  next
    case False
    then show ?thesis using m by (simp add: monthLoop.simps [of leap days m] word_le_nat_alt un)
  qed
qed

lemma addMonths_sum:
  "m \<le> 12 \<Longrightarrow> addMonths leap m s = Some (s + of_nat (daysBeforeMonth leap m * 86400))"
proof (induction m)
  case 0
  then show ?case by (simp add: daysBeforeMonth_def)
next
  case (Suc i)
  have "monthDays leap ! i * 86400 < 2 ^ 32" using monthDays_pos [of i leap] Suc.prems by auto
  then have "unat (of_nat (monthDays leap ! i * 86400) :: u32) = monthDays leap ! i * 86400"
    by (intro unat_of_nat_small) simp
  then have "ucast (of_nat (monthDays leap ! i) * 86400 :: u32) = (of_nat (monthDays leap ! i * 86400) :: u64)"
    by (metis of_nat_mult of_nat_numeral ucast_of_unat)
  then show ?case using Suc by (simp add: daysBeforeMonth_Suc algebra_simps)
qed

lemma downYears_sum:
  assumes "EPOCH_YEAR \<le> y"
  shows "downYears y s = s + of_nat (daysBefore (y + 1) * 86400) - of_nat (DAYS_IN_YEAR EPOCH_YEAR * 86400)"
  using assms
proof (induction y s rule: downYears.induct)
  case (1 y s)
  show ?case
  proof (cases "EPOCH_YEAR < y")
    case True
    then show ?thesis
      using 1 daysBefore_Suc [of y] by (simp add: downYears.simps [of y s] algebra_simps)
  next
    case False
    then have "y = EPOCH_YEAR" using 1 by simp
    then show ?thesis using daysBefore_Suc [of EPOCH_YEAR]
      by (simp add: downYears.simps daysBefore_def)
  qed
qed

subsection \<open>Properties\<close>

definition dateOf :: "u64 \<Rightarrow> Date \<Rightarrow> bool" where
  "dateOf s d \<longleftrightarrow>
     (let days = unat s div 86400; t = unat s mod 86400 in
      EPOCH_YEAR \<le> year d \<and> 0 \<le> month d \<and> month d < 12 \<and> 1 \<le> day d \<and>
      day d \<le> int (monthDays (IS_LEAP (year d)) ! nat (month d)) \<and>
      int days = int (daysBefore (year d)) + int (daysBeforeMonth (IS_LEAP (year d)) (nat (month d))) + (day d - 1) \<and>
      0 \<le> hours d \<and> 0 \<le> minutes d \<and> minutes d < 60 \<and> 0 \<le> seconds d \<and> seconds d < 60 \<and>
      int t = 3600 * hours d + 60 * minutes d + seconds d)"

text \<open>The time of the day, and the day, read from the words of \<open>secondsToDate\<close>.\<close>

lemma unat_u64_mod: "unat (s mod 86400 :: u64) = unat s mod 86400"
  by (simp add: unat_mod_distrib)

lemma unat_u64_div: "unat (s div 86400 :: u64) = unat s div 86400"
  by (simp add: unat_div_distrib)

lemma unat_ucast_small: "unat w < 2 ^ 32 \<Longrightarrow> unat (ucast (w :: u64) :: u32) = unat w"
  by (simp add: unsigned_ucast_eq take_bit_eq_mod)

lemma time_of_day:
  "t = 3600 * (t div 3600) + 60 * (t mod 3600 div 60) + t mod 60" "t mod 3600 div 60 < 60" for t :: nat
proof -
  have "t mod 60 = t mod 3600 mod 60" by (simp add: mod_mod_cancel)
  then show "t = 3600 * (t div 3600) + 60 * (t mod 3600 div 60) + t mod 60"
    using div_mult_mod_eq [of t 3600] div_mult_mod_eq [of "t mod 3600" 60] by linarith
  have "t mod 3600 < 60 * 60" by simp
  then show "t mod 3600 div 60 < 60" by (rule less_mult_imp_div_less)
qed

lemma day_split: "int n = 86400 * int (n div 86400) + int (n mod 86400)" "int (n mod 86400) < 86400"
  using div_mult_mod_eq [of n 86400] mod_less_divisor [of 86400 n] by linarith+

lemma secondsToDate_dateOf:
  assumes "unat s div 86400 < 2 ^ 32"
  shows "\<exists>d. secondsToDate s = Some d \<and> dateOf s d"
proof -
  define ds where "ds = (ucast (s mod 86400) :: u32)"
  have "unat (s mod 86400) < 86400" by (simp add: unat_u64_mod)
  then have ds: "unat ds = unat s mod 86400" unfolding ds_def by (subst unat_ucast_small) (auto simp: unat_u64_mod)
  have days: "unat (ucast (s div 86400) :: u32) = unat s div 86400"
    using assms by (subst unat_ucast_small) (auto simp: unat_u64_div)
  obtain r y where yl: "yearLoop (ucast (s div 86400)) EPOCH_YEAR = (r, y)" by fastforce
  have y: "EPOCH_YEAR \<le> y" "unat r < DAYS_IN_YEAR y" "unat s div 86400 = daysBefore y + unat r"
    using yearLoop_days [OF yl] days by (auto simp: daysBefore_def)
  have "daysBeforeMonth (IS_LEAP y) 0 + unat r < daysBeforeMonth (IS_LEAP y) 12"
    using y by (simp add: daysBeforeMonth_12) (simp add: daysBeforeMonth_def)
  then obtain r' m where ml: "monthLoop (IS_LEAP y) r 0 = Some (r', m)" "m < 12"
    "unat r' < monthDays (IS_LEAP y) ! m" "unat r = daysBeforeMonth (IS_LEAP y) m + unat r'"
    using monthLoop_days [of "IS_LEAP y" 0 r] by (auto simp: daysBeforeMonth_def)
  have "unat r' < 31" using ml monthDays_pos [of m "IS_LEAP y"] by simp
  then have d1: "uint (r' + 1) = int (unat r') + 1"
    by (subst uint_nat, subst unat_inc_lt [of r' 31]) (auto simp: word_less_nat_alt)
  have hms: "uint (ds mod 60) = int (unat s mod 86400 mod 60)"
    "uint ((ds mod 3600) div 60) = int (unat s mod 86400 mod 3600 div 60)"
    "uint (ds div 3600) = int (unat s mod 86400 div 3600)"
    by (simp_all add: uint_nat unat_mod_distrib unat_div_distrib ds)
  have k: "uint r' + 1 \<le> int (monthDays (IS_LEAP y) ! m)" using ml(3) uint_nat [of r'] by linarith
  define t where "t = unat s mod 86400"
  have tod: "int t = 3600 * int (t div 3600) + 60 * int (t mod 3600 div 60) + int (t mod 60)"
    "int (t mod 3600 div 60) < 60" "int (t mod 60) < 60"
    using time_of_day [of t] mod_less_divisor [of 60 t] by linarith+
  have "secondsToDate s = Some \<lparr>seconds = int (t mod 60), minutes = int (t mod 3600 div 60),
      hours = int (t div 3600), day = int (unat r') + 1, month = int m, year = y\<rparr>"
    by (simp add: secondsToDate_def yl ml(1) d1 ds_def [symmetric] Let_def hms [folded t_def])
  then show ?thesis
    using y ml(2-4) tod k unfolding dateOf_def Let_def t_def [symmetric] by simp
qed



text \<open>
  \<open>dateToSeconds\<close>, given a date of \<open>secondsToDate\<close> with the day counted from 0 (as
  \<open>writeDate\<close> passes it), returns the seconds the date stands for in a common year, and one day
  more in a leap year: it adds the lengths of the years after 1970 up to the date's own year
  instead of the years from 1970 up to the year before it.
\<close>

theorem dateToSeconds_of_secondsToDate:
  assumes "unat s div 86400 < 2 ^ 32"
  shows "\<exists>d. secondsToDate s = Some d \<and>
           dateToSeconds (d\<lparr>day := day d - 1\<rparr>) = Some (if IS_LEAP (year d) then s + 86400 else s)"
proof -
  obtain d where sd: "secondsToDate s = Some d" and d: "dateOf s d" using secondsToDate_dateOf [OF assms] by auto
  define hms where "hms = seconds d + minutes d * 60 + hours d * 3600"
  define m where "m = nat (month d)"
  note t = day_split(2) [of "unat s"]
  have rng: "0 \<le> hours d" "0 \<le> minutes d" "minutes d < 60" "0 \<le> seconds d" "seconds d < 60" "hours d < 24"
    "int (unat s mod 86400) = hms"
    using d t by (auto simp: dateOf_def Let_def hms_def)
  have m: "m < 12" "int m = month d" using d by (auto simp: dateOf_def Let_def m_def)
  have day: "1 \<le> day d" "day d \<le> 31"
    using d monthDays_pos [OF m(1), of "IS_LEAP (year d)"] by (auto simp: dateOf_def Let_def m_def)
  have y: "EPOCH_YEAR \<le> year d" using d by (simp add: dateOf_def Let_def)
  define dd where "dd = day d - 1"
  have tot: "int (unat s) = 86400 * (int (daysBefore (year d)) + int (daysBeforeMonth (IS_LEAP (year d)) m) + dd) + hms"
    using d rng(7) day_split(1) [of "unat s"] by (simp add: dateOf_def Let_def m_def dd_def)
  have s: "s = of_int (int (unat s))" by simp
  have add: "addMonths (IS_LEAP (year d)) m (of_int hms + of_int (dd * 86400)) =
      Some (of_int (hms + dd * 86400 + int (daysBeforeMonth (IS_LEAP (year d)) m * 86400)))"
    using m(1) by (subst addMonths_sum) simp_all
  have years: "(if EPOCH_YEAR < year d then downYears (year d) w else upYears (year d) w) =
      w + of_int (86400 * (int (daysBefore (year d)) + int (DAYS_IN_YEAR (year d)) - 365))" for w
  proof -
    have leap: "DAYS_IN_YEAR EPOCH_YEAR = 365" by (simp add: DAYS_IN_YEAR_def IS_LEAP_def)
    show ?thesis
    proof (cases "EPOCH_YEAR < year d")
      case True
      then show ?thesis using downYears_sum [OF y, of w] daysBefore_Suc [OF y] leap
        by (simp add: algebra_simps)
    next
      case False
      then have "year d = EPOCH_YEAR" using y by simp
      then show ?thesis using leap by (simp add: upYears.simps daysBefore_def)
    qed
  qed
  have c: "cint (minutes d * 60) = Some (minutes d * 60)" "cint (hours d * 3600) = Some (hours d * 3600)"
    "cint (seconds d + minutes d * 60) = Some (seconds d + minutes d * 60)"
    "cint (seconds d + minutes d * 60 + hours d * 3600) = Some hms"
    "cint (dd * 86400) = Some (dd * 86400)"
    using rng day by (simp_all add: cint_def hms_def dd_def)
  define X :: u64 where
    "X = of_int (hms + dd * 86400 + int (daysBeforeMonth (IS_LEAP (year d)) m * 86400))"
  have "dateToSeconds (d\<lparr>day := dd\<rparr>) =
      Some (if EPOCH_YEAR < year d then downYears (year d) X else upYears (year d) X)"
    by (simp add: dateToSeconds_def c m_def [symmetric] add [folded X_def]
        del: of_int_add of_int_mult of_int_diff of_int_of_nat_eq of_nat_mult)
  also have "\<dots> = Some (X + of_int (86400 * (int (daysBefore (year d)) + int (DAYS_IN_YEAR (year d)) - 365)))"
    by (simp only: years)
  also have "\<dots> = Some (of_int (int (unat s)) + of_int (86400 * (int (DAYS_IN_YEAR (year d)) - 365)))"
    unfolding tot X_def by (simp add: algebra_simps)
  also have "\<dots> = Some (if IS_LEAP (year d) then s + 86400 else s)"
    by (simp add: DAYS_IN_YEAR_def)
  finally show ?thesis using sd by (auto simp: dd_def)
qed

theorem dateToSeconds_of_secondsToDate_witness:
  "\<exists>d. secondsToDate 951827696 = Some d \<and> dateToSeconds (d\<lparr>day := day d - 1\<rparr>) =
     Some (if IS_LEAP (year d) then 951914096 else 951827696)"
  using dateToSeconds_of_secondsToDate [of 951827696] by (auto split: if_splits)

end
