(* ===== verification/Fmt.thy ===== *)
theory Fmt
  imports Paths
begin

text \<open>
  Formatted output (\<open>src/src/sys/fmt.c\<close>): the digits of a number and the interpreter of format
  strings behind every \<open>print\<close> of the kernel. The destination is the memory from \<open>buf\<close> on, so
  a write past its end has no result; a pointer into the format is the rest of the format.
\<close>

subsection \<open>Numbers\<close>

definition intToHexLC :: string where
  "intToHexLC = ''0123456789abcdef''"

definition digitChar :: "bool \<Rightarrow> u32 \<Rightarrow> char" where
  "digitChar hex r = (if hex then intToHexLC ! unat r else char_of (unat r + 48))"

text \<open>The loop of \<open>uintToStr\<close>: the pointer is \<open>x - 1\<close> places into the buffer.\<close>

fun uintLoop :: "bool \<Rightarrow> nat \<Rightarrow> u32 \<Rightarrow> string \<Rightarrow> nat \<times> string" where
  "uintLoop hex 0 i b = (0, b)"
| "uintLoop hex (Suc x) i b =
     (if i = 0 then (Suc x, b)
      else let bs = (if hex then 16 else 10)
           in uintLoop hex x (i div bs) (b[x := digitChar hex (i mod bs)]))"

definition uintToStr :: "string \<Rightarrow> nat \<Rightarrow> bool \<Rightarrow> u32 \<Rightarrow> nat \<times> string" where
  "uintToStr b n hex i =
     (if n = 0 then (0, b)
      else if i = 0 then (1, b[n - 1 := CHR ''0''])
      else let (x, b') = uintLoop hex n i b in (n - x, b'))"

text \<open>\<open>atoi\<close> of the C library; a value outside \<open>int\<close> is undefined.\<close>

definition isDigit :: "char \<Rightarrow> bool" where
  "isDigit c \<longleftrightarrow> 48 \<le> (of_char c :: nat) \<and> (of_char c :: nat) \<le> 57"

definition digitsVal :: "string \<Rightarrow> int" where
  "digitsVal s = foldl (\<lambda>v c. v * 10 + (of_char c - 48)) 0 s"

definition isSpace :: "char \<Rightarrow> bool" where
  "isSpace c \<longleftrightarrow> c = CHR '' '' \<or> (9 \<le> (of_char c :: nat) \<and> (of_char c :: nat) \<le> 13)"

definition atoi :: "string \<Rightarrow> int option" where
  "atoi s =
     (case dropWhile isSpace s of
        [] \<Rightarrow> Some 0
      | c # cs \<Rightarrow>
          if c = CHR ''-'' then cint (- digitsVal (takeWhile isDigit cs))
          else if c = CHR ''+'' then cint (digitsVal (takeWhile isDigit cs))
          else cint (digitsVal (takeWhile isDigit (c # cs))))"

subsection \<open>The interpreter\<close>

abbreviation "INTBUF_SIZE \<equiv> (20 :: nat)"

datatype fmt_arg = UIntArg u32 | StrArg string

text \<open>
  The locals of \<open>fmtVsnprintfInternal\<close>: the memory at \<open>buf\<close>, the offset of \<open>p\<close> in it, \<open>n\<close>,
  \<open>intBuf\<close> and the arguments not yet taken.
\<close>

record FmtSt =
  fbuf :: string
  fpos :: nat
  frem :: u32
  fint :: string
  fargs :: "fmt_arg list"

definition putn :: "FmtSt \<Rightarrow> string \<Rightarrow> FmtSt option" where
  "putn st s =
     (if fpos st + length s \<le> length (fbuf st)
      then Some (st\<lparr>fbuf := take (fpos st) (fbuf st) @ s @ drop (fpos st + length s) (fbuf st),
                    fpos := fpos st + length s, frem := frem st - of_nat (length s)\<rparr>)
      else None)"

fun fmtLit :: "bool \<Rightarrow> string \<Rightarrow> FmtSt \<Rightarrow> (string \<times> FmtSt) option" where
  "fmtLit useN [] st = Some ([], st)"
| "fmtLit useN (ch # x) st =
     (if (frem st \<noteq> 0 \<or> \<not> useN) \<and> ch \<noteq> CHR ''%''
      then do { st' \<leftarrow> putn st [ch]; fmtLit useN x st' }
      else Some (ch # x, st))"

definition fmtNum :: "bool \<Rightarrow> bool \<Rightarrow> u32 \<Rightarrow> FmtSt \<Rightarrow> FmtSt option" where
  "fmtNum useN hex width st =
     (case fargs st of
        UIntArg i # as \<Rightarrow>
          (let (b, ib) = uintToStr (fint st) INTBUF_SIZE hex i;
               bytes0 = (if b < unat width then unat width else b);
               bytes = (if useN \<and> unat (frem st) < bytes0 then unat (frem st) else bytes0)
           in if bytes \<le> INTBUF_SIZE
              then putn (st\<lparr>fargs := as, fint := ib\<rparr>) (take bytes (drop (INTBUF_SIZE - bytes) ib))
              else None)
      | _ \<Rightarrow> None)"

text \<open>The Boolean of the result is false when the conversion is left by its first \<open>break\<close>.\<close>

definition fmtStr :: "bool \<Rightarrow> u32 \<Rightarrow> u32 option \<Rightarrow> FmtSt \<Rightarrow> (bool \<times> FmtSt) option" where
  "fmtStr useN width precision st =
     (case fargs st of
        StrArg s # as \<Rightarrow>
          (let bytes0 = (case precision of
                           None \<Rightarrow> length s
                         | Some p \<Rightarrow> if unat p < length s then unat p else length s);
               pad0 = unat width - bytes0;
               pad = (if useN \<and> unat (frem st) < pad0 then unat (frem st) else pad0)
           in do {
             st1 \<leftarrow> putn (st\<lparr>fargs := as\<rparr>) (replicate pad (CHR '' ''));
             if useN \<and> frem st1 = 0 then Some (False, st1)
             else do {
               st2 \<leftarrow> putn st1 (take (if useN \<and> unat (frem st1) < bytes0 then unat (frem st1) else bytes0) s);
               Some (True, st2)
             }
           })
      | _ \<Rightarrow> None)"

definition startsWith :: "char \<Rightarrow> string \<Rightarrow> bool" where
  "startsWith c s \<longleftrightarrow> s \<noteq> [] \<and> hd s = c"

text \<open>A conversion, entered after its \<open>%\<close>; an unknown type leaves the format at that type.\<close>

definition fmtConv :: "bool \<Rightarrow> string \<Rightarrow> FmtSt \<Rightarrow> (string \<times> FmtSt) option" where
  "fmtConv useN x0 st0 =
     (let zero = startsWith (CHR ''0'') x0;
          st = (if zero then st0\<lparr>fint := replicate INTBUF_SIZE (CHR ''0'') @ drop INTBUF_SIZE (fint st0)\<rparr> else st0);
          x1 = (if zero then tl x0 else x0);
          x2 = dropWhile isDigit x1;
          hasP = startsWith (CHR ''.'') x2;
          x3 = (if hasP then dropWhile isDigit (tl x2) else x2);
          x4 = dropWhile (\<lambda>c. c = CHR ''l'') x3
      in do {
        w \<leftarrow> atoi x1;
        p \<leftarrow> (if hasP then do { v \<leftarrow> atoi (tl x2); Some (Some (of_int v)) } else Some None);
        (case x4 of
           [] \<Rightarrow> Some (x3, st)
         | t # x5 \<Rightarrow>
             if t = CHR ''d'' \<or> t = CHR ''u'' then do { st' \<leftarrow> fmtNum useN False (of_int w) st; Some (x5, st') }
             else if t = CHR ''x'' then do { st' \<leftarrow> fmtNum useN True (of_int w) st; Some (x5, st') }
             else if t = CHR ''s'' then
               do { (done, st') \<leftarrow> fmtStr useN (of_int w) p st; Some (if done then x5 else x3, st') }
             else Some (x3, st))
      })"

partial_function (option) fmtLoop :: "bool \<Rightarrow> string \<Rightarrow> FmtSt \<Rightarrow> FmtSt option" where
  "fmtLoop useN c st =
     (if frem st \<noteq> 0 \<and> c \<noteq> [] then
        do {
          (x, st1) \<leftarrow> fmtLit useN c st;
          if startsWith (CHR ''%'') x then
            if startsWith (CHR ''%'') (tl x) then
              do { st2 \<leftarrow> putn st1 ''%''; fmtLoop useN (tl (tl x)) st2 }
            else
              do { (c', st2) \<leftarrow> fmtConv useN (tl x) st1; fmtLoop useN c' st2 }
          else fmtLoop useN x st1
        }
      else Some st)"

definition fmtVsnprintfInternal ::
  "string \<Rightarrow> u32 \<Rightarrow> bool \<Rightarrow> string \<Rightarrow> fmt_arg list \<Rightarrow> (nat \<times> string) option" where
  "fmtVsnprintfInternal buf n useN fmt ap =
     do {
       st \<leftarrow> fmtLoop useN fmt
         \<lparr>fbuf = buf, fpos = 0, frem = n, fint = replicate (INTBUF_SIZE + 1) NUL, fargs = ap\<rparr>;
       if fpos st < length (fbuf st) then Some (fpos st, (fbuf st)[fpos st := NUL]) else None
     }"

definition fmtVsnprintf :: "string \<Rightarrow> u32 \<Rightarrow> string \<Rightarrow> fmt_arg list \<Rightarrow> (nat \<times> string) option" where
  "fmtVsnprintf buf n fmt ap = fmtVsnprintfInternal buf n True fmt ap"

definition fmtSnprintf :: "string \<Rightarrow> u32 \<Rightarrow> string \<Rightarrow> fmt_arg list \<Rightarrow> (nat \<times> string) option" where
  "fmtSnprintf buf n fmt ap = fmtVsnprintf buf n fmt ap"

definition cstrlen :: "string \<Rightarrow> nat" where
  "cstrlen s = length (cstr s)"

definition fmtSprintf :: "string \<Rightarrow> string \<Rightarrow> fmt_arg list \<Rightarrow> (nat \<times> string) option" where
  "fmtSprintf buf fmt ap = fmtVsnprintfInternal buf (of_nat (cstrlen buf)) False fmt ap"

subsection \<open>Digits\<close>

fun numeral0 :: "nat \<Rightarrow> nat \<Rightarrow> nat \<Rightarrow> string" where
  "numeral0 0 b k = []"
| "numeral0 (Suc m) b k =
     (if k = 0 then [] else numeral0 m b (k div b) @ [if b = 16 then intToHexLC ! (k mod b) else char_of (k mod b + 48)])"

text \<open>The numeral of \<open>k\<close> in base \<open>b\<close>; twenty places are enough for every 32-bit number.\<close>

definition showNum :: "bool \<Rightarrow> u32 \<Rightarrow> string" where
  "showNum hex i = (if i = 0 then ''0'' else numeral0 20 (if hex then 16 else 10) (unat i))"

lemma length_numeral0: "length (numeral0 m b k) \<le> m"
  by (induction m arbitrary: k) (auto simp: Suc_le_eq le_imp_less_Suc)

lemma numeral0_numeral:
  "numeral0 (numeral v) b k =
     (if k = 0 then []
      else numeral0 (pred_numeral v) b (k div b) @ [if b = 16 then intToHexLC ! (k mod b) else char_of (k mod b + 48)])"
  by (simp add: numeral_eq_Suc)

lemma length_showNum: "length (showNum hex i) \<le> 20"
  using length_numeral0 by (auto simp: showNum_def)

lemma uintLoop_digits:
  assumes "x \<le> length b"
  shows "uintLoop hex x i b =
    (let ds = numeral0 x (if hex then 16 else 10) (unat i)
     in (x - length ds, take (x - length ds) b @ ds @ drop x b))"
  using assms
proof (induction x arbitrary: i b)
  case (Suc x)
  let ?bs = "if hex then 16 else 10 :: nat"
  let ?d = "digitChar hex (i mod (if hex then 16 else 10))"
  show ?case
  proof (cases "i = 0")
    case False
    have d: "?d = (if ?bs = 16 then intToHexLC ! (unat i mod ?bs) else char_of (unat i mod ?bs + 48))"
      by (simp add: digitChar_def unat_mod_distrib)
    have q: "unat (i div (if hex then 16 else 10)) = unat i div ?bs" by (simp add: unat_div_distrib)
    let ?ds = "numeral0 x ?bs (unat i div ?bs)"
    have nz: "unat i \<noteq> 0" using False by (simp add: unat_eq_0)
    have drop: "drop x (b[x := ?d]) = ?d # drop (Suc x) b"
      using Suc.prems by (simp add: Cons_nth_drop_Suc [symmetric])
    have "uintLoop hex (Suc x) i b = uintLoop hex x (i div (if hex then 16 else 10)) (b[x := ?d])"
      using False by (simp add: Let_def)
    also have "\<dots> = (x - length ?ds, take (x - length ?ds) b @ ?ds @ ?d # drop (Suc x) b)"
      using Suc.IH [of "b[x := ?d]" "i div (if hex then 16 else 10)"] Suc.prems
      by (simp only: length_list_update Let_def q drop take_update_cancel diff_le_self)
    also have "?ds @ ?d # drop (Suc x) b = numeral0 (Suc x) ?bs (unat i) @ drop (Suc x) b"
      using nz by (simp only: numeral0.simps d if_False) simp
    finally show ?thesis using nz by (simp add: Let_def)
  qed simp
qed simp

lemma uintToStr_digits:
  assumes "length b = 21"
  shows "fst (uintToStr b 20 hex i) = length (showNum hex i)"
    "snd (uintToStr b 20 hex i) = take (20 - length (showNum hex i)) b @ showNum hex i @ drop 20 b"
proof -
  have "b[19 := CHR ''0''] = take 19 b @ ''0'' @ drop 20 b"
    using assms upd_conv_take_nth_drop [of 19 b "CHR ''0''"] by simp
  moreover have "length (numeral0 20 (if hex then 16 else 10) (unat i)) \<le> 20" by (rule length_numeral0)
  ultimately show "fst (uintToStr b 20 hex i) = length (showNum hex i)"
    "snd (uintToStr b 20 hex i) = take (20 - length (showNum hex i)) b @ showNum hex i @ drop 20 b"
    using assms uintLoop_digits [of 20 b hex i]
    by (simp_all add: uintToStr_def showNum_def Let_def split_beta)
qed

subsection \<open>The text of a format\<close>

text \<open>
  The formats the kernel uses: literal characters, \<open>%%\<close>, numbers with an optional zero-padded
  width of one digit, strings with an optional precision of one digit.
\<close>

datatype fmt_item = Lit char | Percent | Num bool "char option" | Str "char option"

definition digitVal :: "char \<Rightarrow> nat" where
  "digitVal c = of_char c - 48"

fun fmtText :: "fmt_item \<Rightarrow> string" where
  "fmtText (Lit c) = [c]"
| "fmtText Percent = ''%%''"
| "fmtText (Num hex w) =
     CHR ''%'' # (case w of None \<Rightarrow> [] | Some d \<Rightarrow> [CHR ''0'', d]) @ [if hex then CHR ''x'' else CHR ''d'']"
| "fmtText (Str p) = CHR ''%'' # (case p of None \<Rightarrow> [] | Some d \<Rightarrow> [CHR ''.'', d]) @ ''s''"

fun item_ok :: "fmt_item \<Rightarrow> bool" where
  "item_ok (Lit c) = (c \<noteq> CHR ''%'')"
| "item_ok Percent = True"
| "item_ok (Num hex w) = (case w of None \<Rightarrow> True | Some d \<Rightarrow> isDigit d)"
| "item_ok (Str p) = (case p of None \<Rightarrow> True | Some d \<Rightarrow> isDigit d)"

definition zeroPad :: "nat \<Rightarrow> string \<Rightarrow> string" where
  "zeroPad w s = replicate (w - length s) (CHR ''0'') @ s"

fun expand :: "fmt_item \<Rightarrow> fmt_arg list \<Rightarrow> (string \<times> fmt_arg list) option" where
  "expand (Lit c) as = Some ([c], as)"
| "expand Percent as = Some (''%'', as)"
| "expand (Num hex w) (UIntArg i # as) =
     Some (case w of None \<Rightarrow> showNum hex i | Some d \<Rightarrow> zeroPad (digitVal d) (showNum hex i), as)"
| "expand (Str p) (StrArg s # as) = Some (case p of None \<Rightarrow> s | Some d \<Rightarrow> take (digitVal d) s, as)"
| "expand _ _ = None"

fun expandAll :: "fmt_item list \<Rightarrow> fmt_arg list \<Rightarrow> string option" where
  "expandAll [] as = Some []"
| "expandAll (it # its) as =
     do { (s, as') \<leftarrow> expand it as; t \<leftarrow> expandAll its as'; Some (s @ t) }"

lemma isDigit_facts:
  assumes "isDigit d"
  shows "\<not> isSpace d" "d \<noteq> CHR ''-''" "d \<noteq> CHR ''+''" "digitVal d \<le> 9" "d \<noteq> CHR ''%''"
    "int (digitVal d) = of_char d - 48" "d \<noteq> CHR ''l''" "d \<noteq> CHR ''.''"
  using assms by (auto simp: isDigit_def isSpace_def digitVal_def of_nat_diff of_nat_of_char)

lemma atoi_digit: "isDigit d \<Longrightarrow> \<not> isDigit c \<Longrightarrow> atoi (d # c # s) = Some (int (digitVal d))"
  using isDigit_facts [of d] by (simp add: atoi_def digitsVal_def cint_def)

lemma atoi_nondigit:
  "atoi (CHR ''d'' # s) = Some 0" "atoi (CHR ''x'' # s) = Some 0" "atoi (CHR ''s'' # s) = Some 0"
  "atoi (CHR ''.'' # s) = Some 0"
  by (simp_all add: atoi_def isSpace_def isDigit_def digitsVal_def cint_def)

lemma nondigit [simp]: "\<not> isDigit (CHR ''d'')" "\<not> isDigit (CHR ''x'')" "\<not> isDigit (CHR ''s'')" "\<not> isDigit (CHR ''.'')"
  by (simp_all add: isDigit_def)

lemma unat_digitVal [simp]: "isDigit d \<Longrightarrow> unat (word_of_nat (digitVal d) :: u32) = digitVal d"
  using isDigit_facts(4) [of d] by (intro unat_of_nat_small) simp

subsection \<open>Interpreting a format\<close>

lemma putn_fits:
  "fpos st + length s \<le> length (fbuf st) \<Longrightarrow>
   putn st s = Some (st\<lparr>fbuf := take (fpos st) (fbuf st) @ s @ drop (fpos st + length s) (fbuf st),
                        fpos := fpos st + length s, frem := frem st - of_nat (length s)\<rparr>)"
  by (simp add: putn_def)

definition fmt_inv :: "FmtSt \<Rightarrow> bool" where
  "fmt_inv st \<longleftrightarrow> length (fint st) = 21 \<and> fpos st \<le> length (fbuf st)"

text \<open>\<open>st'\<close> is \<open>st\<close> after the characters \<open>s\<close> were stored, with the arguments \<open>as\<close> left.\<close>

definition emitted :: "FmtSt \<Rightarrow> string \<Rightarrow> fmt_arg list \<Rightarrow> FmtSt \<Rightarrow> bool" where
  "emitted st s as st' \<longleftrightarrow>
     fmt_inv st' \<and> fargs st' = as \<and> fpos st' = fpos st + length s \<and>
     fbuf st' = take (fpos st) (fbuf st) @ s @ drop (fpos st + length s) (fbuf st) \<and>
     frem st' = frem st - of_nat (length s)"

lemma putn_emitted:
  assumes "length (fint st) = 21" "fpos st + length s \<le> length (fbuf st)"
  shows "\<exists>st'. putn st s = Some st' \<and> emitted st s (fargs st) st'"
  using assms by (auto simp: putn_fits emitted_def fmt_inv_def)

lemma emitted_rem:
  assumes "emitted st s as st'" "length s < unat (frem st)"
  shows "unat (frem st') = unat (frem st) - length s" "frem st' \<noteq> 0"
proof -
  have "length s < 2 ^ 32" using less_trans [OF assms(2) unat_less32] by simp
  then have "unat (of_nat (length s) :: u32) = length s" by (intro unat_of_nat_small) simp
  then have "unat (frem st - of_nat (length s)) = unat (frem st) - length s"
    using assms(2) by (subst unat_sub) (auto simp: word_le_nat_alt)
  then show "unat (frem st') = unat (frem st) - length s" "frem st' \<noteq> 0"
    using assms by (auto simp: emitted_def)
qed

lemma emitted_trans:
  assumes "emitted st s as st'" "emitted st' t bs st''"
  shows "emitted st (s @ t) bs st''"
proof -
  have "frem st'' = frem st - of_nat (length s) - of_nat (length t)" using assms by (simp add: emitted_def)
  then have "frem st'' = frem st - of_nat (length (s @ t))" by (simp add: algebra_simps)
  then show ?thesis using assms by (auto simp: emitted_def fmt_inv_def algebra_simps)
qed

lemma fmtNum_emits:
  assumes inv: "length (fint st) = 21" and a: "fargs st = UIntArg i # as"
    and s: "s = (if zero then zeroPad (unat w) (showNum hex i) else showNum hex i)"
    and w: "if zero then unat w \<le> 9 \<and> fint st = replicate 20 (CHR ''0'') @ drop 20 (fint st) else w = 0"
    and room: "length s < unat (frem st)" "fpos st + length s \<le> length (fbuf st)"
  shows "\<exists>st'. fmtNum True hex w st = Some st' \<and> emitted st s as st'"
proof -
  let ?n = "showNum hex i"
  let ?ib = "take (20 - length ?n) (fint st) @ ?n @ drop 20 (fint st)"
  have len: "length ?n \<le> 20" by (rule length_showNum)
  have bytes: "length s = (if length ?n < unat w then unat w else length ?n)" "length s \<le> 20"
    using s w len by (auto simp: zeroPad_def split: if_splits)
  have src: "take (length s) (drop (20 - length s) ?ib) = s"
  proof (cases zero)
    case True
    have f: "fint st = replicate 20 (CHR ''0'') @ drop 20 (fint st)" using w True by simp
    have "take (20 - length ?n) (fint st) = replicate (20 - length ?n) (CHR ''0'')"
      by (subst f) (simp add: min_def)
    moreover have "zeroPad (unat w) ?n = replicate (length s - length ?n) (CHR ''0'') @ ?n"
      using bytes by (simp add: zeroPad_def)
    ultimately show ?thesis using True s bytes len inv by (auto simp: min_def)
  next
    case False
    then show ?thesis using s inv len by simp
  qed
  obtain st' where "putn (st\<lparr>fargs := as, fint := ?ib\<rparr>) s = Some st'"
    "emitted (st\<lparr>fargs := as, fint := ?ib\<rparr>) s as st'"
    using putn_emitted [of "st\<lparr>fargs := as, fint := ?ib\<rparr>" s] room inv len by auto
  moreover have "fmtNum True hex w st = putn (st\<lparr>fargs := as, fint := ?ib\<rparr>) s"
  proof -
    have u: "uintToStr (fint st) 20 hex i = (length ?n, ?ib)"
      using uintToStr_digits [OF inv, of hex i] by (simp add: prod_eq_iff)
    have r: "\<not> unat (frem st) < length s" using room by simp
    show ?thesis
      unfolding fmtNum_def a list.case fmt_arg.case u Let_def prod.case bytes(1) [symmetric]
      using r bytes(2) src by simp
  qed
  ultimately show ?thesis by (auto simp: emitted_def)
qed

lemma fmtStr_emits:
  assumes inv: "length (fint st) = 21" and a: "fargs st = StrArg t # as"
    and s: "s = (case p of None \<Rightarrow> t | Some n \<Rightarrow> take (unat n) t)"
    and room: "length s < unat (frem st)" "fpos st + length s \<le> length (fbuf st)"
  shows "\<exists>st'. fmtStr True 0 p st = Some (True, st') \<and> emitted st s as st'"
proof -
  let ?b = "case p of None \<Rightarrow> length t | Some q \<Rightarrow> if unat q < length t then unat q else length t"
  have b: "length s = ?b" "take ?b t = s" using s by (auto split: option.splits simp: min_def)
  obtain st' where "putn (st\<lparr>fargs := as\<rparr>) s = Some st'" "emitted (st\<lparr>fargs := as\<rparr>) s as st'"
    using putn_emitted [of "st\<lparr>fargs := as\<rparr>" s] room inv by auto
  moreover have "putn (st\<lparr>fargs := as\<rparr>) [] = Some (st\<lparr>fargs := as\<rparr>)" using room by (simp add: putn_def)
  moreover have "frem st \<noteq> 0" "\<not> unat (frem st) < ?b" using room b by auto
  ultimately show ?thesis using a b unfolding fmtStr_def by (auto simp: Let_def emitted_def)
qed

text \<open>Each item of a format stores its expansion and goes on with the rest of the format.\<close>

lemma startsWith_simps [simp]: "\<not> startsWith c []" "startsWith c (d # s) \<longleftrightarrow> d = c"
  by (auto simp: startsWith_def)

lemma fmtLit_stop [simp]:
  "useN \<Longrightarrow> frem st = 0 \<Longrightarrow> fmtLit useN c st = Some (c, st)"
  "fmtLit useN (CHR ''%'' # c) st = Some (CHR ''%'' # c, st)"
  by (cases c; simp)+

lemma fmtLoop_end: "fmtLoop useN [] st = Some st"
  by (subst fmtLoop.simps) simp

lemma fmtLoop_lit:
  assumes "c \<noteq> CHR ''%''" "frem st \<noteq> 0" "putn st [c] = Some st'" "frem st' \<noteq> 0"
  shows "fmtLoop True (c # x) st = fmtLoop True x st'"
proof (cases x)
  case Nil
  then show ?thesis using assms by (subst fmtLoop.simps) simp
next
  case (Cons d y)
  then show ?thesis using assms
    by (subst (1 2) fmtLoop.simps) simp
qed

lemma fmtLoop_conv:
  assumes "frem st \<noteq> 0" "\<not> startsWith (CHR ''%'') x" "fmtConv True x st = Some (c, st')"
  shows "fmtLoop True (CHR ''%'' # x) st = fmtLoop True c st'"
  using assms by (subst fmtLoop.simps) simp

lemma fmtLoop_item:
  assumes ok: "item_ok it" and ex: "expand it (fargs st) = Some (s, as)" and inv: "length (fint st) = 21"
    and room: "length s < unat (frem st)" "fpos st + length s \<le> length (fbuf st)"
  shows "\<exists>st'. emitted st s as st' \<and> fmtLoop True (fmtText it @ x) st = fmtLoop True x st'"
proof -
  have nz: "frem st \<noteq> 0" using room by auto
  show ?thesis
  proof (cases it)
    case (Lit c)
    then obtain st' where st': "putn st [c] = Some st'" "emitted st [c] (fargs st) st'"
      using putn_emitted [OF inv, of "[c]"] ex room by auto
    have "fmtLoop True (c # x) st = fmtLoop True x st'"
      using Lit ok ex room emitted_rem(2) [OF st'(2)] st'(1) nz by (intro fmtLoop_lit) auto
    then show ?thesis using Lit ex st' by auto
  next
    case Percent
    then obtain st' where st': "putn st ''%'' = Some st'" "emitted st ''%'' (fargs st) st'"
      using putn_emitted [OF inv, of "''%''"] ex room by auto
    have "fmtLoop True (''%%'' @ x) st = fmtLoop True x st'"
      using nz st' by (subst fmtLoop.simps) simp
    then show ?thesis using Percent ex st' by auto
  next
    case (Num hex w)
    then obtain i as' where a: "fargs st = UIntArg i # as'" "as' = as"
      using ex by (cases "(it, fargs st)" rule: expand.cases) auto
    show ?thesis
    proof (cases w)
      case None
      then obtain st' where st': "fmtNum True hex 0 st = Some st'" "emitted st s as st'"
        using fmtNum_emits [OF inv a(1), of s False 0] ex a Num room by auto
      then have c: "fmtConv True ((if hex then CHR ''x'' else CHR ''d'') # x) st = Some (x, st')"
        by (cases hex) (simp_all add: fmtConv_def atoi_nondigit)
      show ?thesis using fmtLoop_conv [OF nz _ c] Num None st' by auto
    next
      case (Some d)
      let ?st = "st\<lparr>fint := replicate 20 (CHR ''0'') @ drop 20 (fint st)\<rparr>"
      have d: "isDigit d" using ok Num Some by simp
      have i: "length (fint ?st) = 21" using inv by simp
      obtain st' where st': "fmtNum True hex (of_nat (digitVal d)) ?st = Some st'" "emitted ?st s as st'"
        using fmtNum_emits [OF i, of i as' s True "of_nat (digitVal d)"] ex a Num Some room d
          isDigit_facts(4) [OF d] by auto
      have "fmtConv True (CHR ''0'' # d # (if hex then CHR ''x'' else CHR ''d'') # x) st = Some (x, st')"
        using st' d isDigit_facts(1-5,7,8) [OF d] by (cases hex) (simp_all add: fmtConv_def atoi_digit)
      moreover have "emitted st s as st'" using st'(2) by (simp add: emitted_def)
      ultimately show ?thesis using fmtLoop_conv [OF nz] Num Some by auto
    qed
  next
    case (Str p)
    then obtain t as' where a: "fargs st = StrArg t # as'" "as' = as"
      using ex by (cases "(it, fargs st)" rule: expand.cases) auto
    show ?thesis
    proof (cases p)
      case None
      then obtain st' where st': "fmtStr True 0 None st = Some (True, st')" "emitted st s as st'"
        using fmtStr_emits [OF inv a(1), of s None] ex a Str room by auto
      then have c: "fmtConv True (CHR ''s'' # x) st = Some (x, st')" by (simp add: fmtConv_def atoi_nondigit)
      show ?thesis using fmtLoop_conv [OF nz _ c] Str None st' by auto
    next
      case (Some d)
      have d: "isDigit d" using ok Str Some by simp
      obtain st' where st': "fmtStr True 0 (Some (of_nat (digitVal d))) st = Some (True, st')" "emitted st s as st'"
        using fmtStr_emits [OF inv a(1), of s "Some (of_nat (digitVal d))"] ex a Str Some room d by auto
      then have c: "fmtConv True (CHR ''.'' # d # CHR ''s'' # x) st = Some (x, st')"
        using d isDigit_facts(1-5,7,8) [OF d] by (simp add: fmtConv_def atoi_digit atoi_nondigit)
      show ?thesis using fmtLoop_conv [OF nz _ c] Str Some st' by auto
    qed
  qed
qed

lemma fmtLoop_items:
  assumes "\<forall>it \<in> set its. item_ok it" "expandAll its (fargs st) = Some s" "length (fint st) = 21"
    "length s < unat (frem st)" "fpos st + length s \<le> length (fbuf st)"
  shows "\<exists>st' as. emitted st s as st' \<and> fmtLoop True (concat (map fmtText its)) st = Some st'"
  using assms
proof (induction its arbitrary: st s)
  case Nil
  then show ?case by (auto simp: fmtLoop_end emitted_def fmt_inv_def)
next
  case (Cons it its)
  then obtain s1 as1 s2 where s: "expand it (fargs st) = Some (s1, as1)" "expandAll its as1 = Some s2" "s = s1 @ s2"
    by (auto split: bind_splits)
  obtain st1 where st1: "emitted st s1 as1 st1"
    "fmtLoop True (fmtText it @ concat (map fmtText its)) st = fmtLoop True (concat (map fmtText its)) st1"
    using fmtLoop_item [of it st s1 as1 "concat (map fmtText its)"] Cons.prems s by auto
  have room: "length s1 < unat (frem st)" "length s1 + length s2 < unat (frem st)" using Cons.prems s by simp_all
  have e1: "length s2 < unat (frem st1)" using emitted_rem(1) [OF st1(1) room(1)] room by simp
  have e2: "length (fint st1) = 21" "fargs st1 = as1" "fpos st1 + length s2 \<le> length (fbuf st1)"
    using st1(1) Cons.prems s(3) by (auto simp: emitted_def fmt_inv_def)
  obtain st2 as2 where "emitted st1 s2 as2 st2" "fmtLoop True (concat (map fmtText its)) st1 = Some st2"
    using Cons.IH [of st1 s2] Cons.prems(1) s e1 e2 by auto
  then show ?case using st1 emitted_trans [OF st1(1)] s(3) by auto
qed

lemma fmtLit_fills:
  assumes "CHR ''%'' \<notin> set c" "unat (frem st) = length (fbuf st) - fpos st" "fpos st \<le> length (fbuf st)"
    "length (fbuf st) - fpos st \<le> length c"
  shows "\<exists>x st'. fmtLit True c st = Some (x, st') \<and> frem st' = 0 \<and> fpos st' = length (fbuf st') \<and>
           \<not> startsWith (CHR ''%'') x"
  using assms
proof (induction c arbitrary: st)
  case Nil
  then show ?case by (simp add: unat_eq_0)
next
  case (Cons ch c)
  show ?case
  proof (cases "frem st = 0")
    case True
    then have "length (fbuf st) = fpos st" using Cons.prems by simp
    then show ?thesis using True Cons.prems by auto
  next
    case False
    then have pos: "0 < unat (frem st)" by (simp add: unat_gt_0)
    let ?st = "st\<lparr>fbuf := take (fpos st) (fbuf st) @ [ch] @ drop (fpos st + 1) (fbuf st),
      fpos := fpos st + 1, frem := frem st - 1\<rparr>"
    have p: "putn st [ch] = Some ?st" using pos Cons.prems by (simp add: putn_def)
    have u: "unat (frem st - 1) = unat (frem st) - 1" using False by (simp add: unat_minus_one)
    have len: "length (fbuf ?st) = length (fbuf st)" using pos Cons.prems by simp
    show ?thesis using Cons.IH [of ?st] Cons.prems pos u False p len by (simp; fastforce)
  qed
qed

lemma fmtSnprintf_items:
  assumes "\<forall>it \<in> set its. item_ok it" and "expandAll its ap = Some s"
    and "length s < unat n" and "length s < length buf"
  shows "fmtSnprintf buf n (concat (map fmtText its)) ap =
         Some (length s, s @ NUL # drop (length s + 1) buf)"
proof -
  let ?st = "\<lparr>fbuf = buf, fpos = 0, frem = n, fint = replicate (INTBUF_SIZE + 1) NUL, fargs = ap\<rparr>"
  obtain st' as where st': "emitted ?st s as st'" "fmtLoop True (concat (map fmtText its)) ?st = Some st'"
    using fmtLoop_items [of its ?st s] assms by auto
  then show ?thesis using assms(4)
    by (auto simp: fmtSnprintf_def fmtVsnprintf_def fmtVsnprintfInternal_def emitted_def list_update_append
        drop_Suc [symmetric] Cons_nth_drop_Suc [symmetric])
qed

subsection \<open>Properties\<close>


lemma showNum_beef: "showNum True 48879 = ''beef''"
  by (simp add: showNum_def numeral0_numeral intToHexLC_def)

lemma expandAll_beef:
  "expandAll [Lit (CHR ''0''), Lit (CHR ''x''), Num True (Some (CHR ''8'')), Lit (CHR ''!'')] [UIntArg 48879]
   = Some ''0x0000beef!''"
  by (simp add: showNum_beef zeroPad_def digitVal_def numeral_eq_Suc)


text \<open>
  \<open>fmtSprintf\<close> prints nothing into a buffer that holds the empty string: it takes the
  length of the string already in the buffer for the room left in it. The names
  \<open>resetUart\<close> formats into zeroed nodes stay empty.
\<close>

theorem fmtSprintf_empty_buffer:
  "fmtSprintf (NUL # rest) fmt ap = Some (0, NUL # rest)"
  by (simp add: fmtSprintf_def fmtVsnprintfInternal_def cstrlen_def cstr_def fmtLoop.simps)

text \<open>
  The terminating \<open>NUL\<close> is not counted in the size: literal output that fills the size of
  the buffer makes \<open>fmtSnprintf\<close> store the \<open>NUL\<close> one past the end of the buffer.
\<close>

theorem fmtSnprintf_full_overflow:
  assumes "CHR ''%'' \<notin> set fmt" and "length buf \<le> length fmt" and "0 < length buf" and "length buf < 2 ^ 32"
  shows "fmtSnprintf buf (of_nat (length buf)) fmt ap = None"
proof -
  let ?st = "\<lparr>fbuf = buf, fpos = 0, frem = of_nat (length buf), fint = replicate (INTBUF_SIZE + 1) NUL, fargs = ap\<rparr>"
  have u: "unat (frem ?st) = length (fbuf ?st) - fpos ?st" using assms(4) by (simp add: unat_of_nat_small)
  obtain x st' where st': "fmtLit True fmt ?st = Some (x, st')" "frem st' = 0" "fpos st' = length (fbuf st')"
    "\<not> startsWith (CHR ''%'') x"
    using fmtLit_fills [OF assms(1) u] assms(2) by auto
  have nz: "(of_nat (length buf) :: u32) \<noteq> 0" "fmt \<noteq> []" using u assms(2,3) by (auto simp: unat_gt_0)
  have "fmtLoop True x st' = Some st'" using st'(2) by (subst fmtLoop.simps) simp
  then have "fmtLoop True fmt ?st = Some st'" using st' nz by (subst fmtLoop.simps) simp
  then show ?thesis using st'(3) by (simp add: fmtSnprintf_def fmtVsnprintf_def fmtVsnprintfInternal_def)
qed

theorem fmtSnprintf_full_overflow_witness:
  "fmtSnprintf [NUL, NUL, NUL] 3 ''abc'' [] = None"
  using fmtSnprintf_full_overflow [of "''abc''" "[NUL, NUL, NUL]" "[]"] by simp

end
