(* ===== verification/TorgoStrings.thy ===== *)
theory TorgoStrings
  imports Paths
begin

text \<open>
  The string types of the shell (\<open>src/src/torgo/charbuf.c\<close>, \<open>string.c\<close>, \<open>env.c\<close>): the growing
  character buffer, sized strings, and the environment, a linked list of variables. The
  outcomes of the coming allocations are a list of Booleans, all successful once it is used up.
\<close>

subsection \<open>Allocation outcomes\<close>

type_synonym allocs = "bool list"

fun alloc :: "allocs \<Rightarrow> bool \<times> allocs" where
  "alloc [] = (True, [])"
| "alloc (b # bs) = (b, bs)"

text \<open>A pointer a constructor returns: \<open>mkCharBuf\<close> and \<open>concatString\<close> can return freed memory.\<close>

datatype 'a ptr = Null | Freed | Valid 'a

subsection \<open>Character buffers\<close>

text \<open>\<open>cdata\<close> is the memory block \<open>data\<close> points to.\<close>

record CharBuf =
  cdata :: string
  csize :: u32
  cused :: u32

definition mkCharBuf :: "u32 \<Rightarrow> allocs \<Rightarrow> CharBuf ptr \<times> allocs" where
  "mkCharBuf n al =
     (let (ok1, al1) = alloc al in
      if \<not> ok1 then (Null, al1)
      else let (ok2, al2) = alloc al1 in
           if \<not> ok2 then (Freed, al2)
           else (Valid \<lparr>cdata = replicate (unat n) NUL, csize = n, cused = 0\<rparr>, al2))"

text \<open>\<open>putAt\<close> is a copy of bytes into a block, \<open>None\<close> when it runs past its end.\<close>

definition putAt :: "string \<Rightarrow> nat \<Rightarrow> string \<Rightarrow> string option" where
  "putAt b i s = (if i + length s \<le> length b then Some (take i b @ s @ drop (i + length s) b) else None)"

definition clearCharBuf :: "CharBuf \<Rightarrow> CharBuf option" where
  "clearCharBuf buf = do { d \<leftarrow> putAt (cdata buf) 0 [NUL]; Some (buf\<lparr>cdata := d, cused := 0\<rparr>) }"

definition isEmptyCharBuf :: "CharBuf \<Rightarrow> bool" where
  "isEmptyCharBuf buf \<longleftrightarrow> cused buf = 0"

text \<open>The Boolean is false when \<open>NULL\<close> is returned.\<close>

definition concatCharBuf :: "CharBuf \<Rightarrow> string \<Rightarrow> allocs \<Rightarrow> (bool \<times> CharBuf \<times> allocs) option" where
  "concatCharBuf buf str al =
     (let strSize = of_nat (length str);
          size = strSize + csize buf * 2;
          (ok, al') = alloc al;
          grow = csize buf - cused buf < strSize + 1
      in if grow \<and> \<not> ok then Some (False, buf, al')
         else do {
           buf1 \<leftarrow> (if grow
                    then (if unat (cused buf) \<le> length (cdata buf)
                          then do { d \<leftarrow> putAt (replicate (unat size) NUL) 0 (take (unat (cused buf)) (cdata buf));
                                    Some (buf\<lparr>cdata := d, csize := size\<rparr>) }
                          else None)
                    else Some buf);
           d1 \<leftarrow> putAt (cdata buf1) (unat (cused buf1)) str;
           let used' = cused buf1 + strSize;
           d2 \<leftarrow> putAt d1 (unat used') [NUL];
           Some (True, buf1\<lparr>cdata := d2, cused := used'\<rparr>, if grow then al' else al)
         })"

definition appendCharBuf :: "CharBuf \<Rightarrow> char \<Rightarrow> allocs \<Rightarrow> (char \<times> CharBuf \<times> allocs) option" where
  "appendCharBuf buf c al =
     do { (_, buf', al') \<leftarrow> concatCharBuf buf (if c = NUL then [] else [c]) al; Some (c, buf', al') }"

definition dropLastCharBuf :: "CharBuf \<Rightarrow> (char \<times> CharBuf) option" where
  "dropLastCharBuf buf =
     (if cused buf = 0 then Some (NUL, buf)
      else (let i = unat (cused buf - 1) in
            if i < length (cdata buf)
            then Some (cdata buf ! i, buf\<lparr>cused := cused buf - 1, cdata := (cdata buf)[i := NUL]\<rparr>)
            else None))"

definition fromCharBuf :: "CharBuf \<Rightarrow> string" where
  "fromCharBuf buf = cstr (cdata buf)"

subsection \<open>Strings\<close>

text \<open>\<open>sstr\<close> is the C string \<open>str\<close> points to, \<open>None\<close> for \<open>NULL\<close>.\<close>

record String =
  sstr :: "string option"
  ssize :: u32

definition assignString :: "string \<Rightarrow> String" where
  "assignString c = \<lparr>sstr = Some c, ssize = of_nat (length c)\<rparr>"

definition mkString :: "string \<Rightarrow> allocs \<Rightarrow> String option \<times> allocs" where
  "mkString c al =
     (let (ok1, al1) = alloc al in
      if \<not> ok1 then (None, al1)
      else let (ok2, al2) = alloc al1 in
           (Some \<lparr>sstr = (if ok2 then Some c else None), ssize = of_nat (length c)\<rparr>, al2))"

definition copyString :: "String \<Rightarrow> allocs \<Rightarrow> (String option \<times> allocs) option" where
  "copyString s al = do { c \<leftarrow> sstr s; Some (mkString c al) }"

definition concatString :: "String \<Rightarrow> String \<Rightarrow> allocs \<Rightarrow> (String ptr \<times> allocs) option" where
  "concatString a b al =
     (let (ok1, al1) = alloc al in
      if \<not> ok1 then Some (Null, al1)
      else let (ok2, al2) = alloc al1 in
           if \<not> ok2 then Some (Freed, al2)
           else do {
             x \<leftarrow> sstr a;
             y \<leftarrow> sstr b;
             if unat (ssize a) \<le> length x \<and> unat (ssize b) \<le> length y
             then Some (Valid \<lparr>sstr = Some (take (unat (ssize a)) x @ take (unat (ssize b)) y),
                               ssize = ssize a + ssize b\<rparr>, al2)
             else None
           })"

text \<open>How far \<open>aptr\<close> is moved by the loop of \<open>matchString\<close>.\<close>

fun matchLoop :: "string \<Rightarrow> string \<Rightarrow> nat" where
  "matchLoop [] bs = 0"
| "matchLoop (a # as) [] = 1"
| "matchLoop (a # as) (b # bs) = (if a = b then Suc (matchLoop as bs) else 1)"

definition matchString :: "String \<Rightarrow> String \<Rightarrow> bool option" where
  "matchString a b =
     (if ssize a \<noteq> ssize b then Some False
      else do { x \<leftarrow> sstr a; y \<leftarrow> sstr b; Some (of_nat (matchLoop x y) = ssize a) })"

subsection \<open>The environment\<close>

text \<open>A variable's name and value are pointers to strings, \<open>None\<close> where a copy failed.\<close>

record EnvVar =
  vname :: "String option"
  vvalue :: "String option"

type_synonym Env = "EnvVar list"

definition mkEnvVar :: "String \<Rightarrow> String \<Rightarrow> allocs \<Rightarrow> (EnvVar option \<times> allocs) option" where
  "mkEnvVar name value al =
     (let (ok, al1) = alloc al in
      if \<not> ok then Some (None, al1)
      else do {
        (n, al2) \<leftarrow> copyString name al1;
        (v, al3) \<leftarrow> copyString value al2;
        Some (Some \<lparr>vname = n, vvalue = v\<rparr>, al3)
      })"

text \<open>\<open>mkEnv\<close> writes to the new block without looking at the result of the allocation.\<close>

definition mkEnv :: "allocs \<Rightarrow> (Env \<times> allocs) option" where
  "mkEnv al = (let (ok, al1) = alloc al in if ok then Some ([], al1) else None)"

text \<open>\<open>freeString\<close> writes to the string it frees, so a \<open>NULL\<close> name or value is an error.\<close>

definition freeEnvVar :: "EnvVar \<Rightarrow> unit option" where
  "freeEnvVar var = do { _ \<leftarrow> vname var; _ \<leftarrow> vvalue var; Some () }"

fun clearEnv :: "Env \<Rightarrow> Env option" where
  "clearEnv [] = Some []"
| "clearEnv (v # vs) = do { _ \<leftarrow> freeEnvVar v; clearEnv vs }"

definition addVarEnv :: "Env \<Rightarrow> String \<Rightarrow> String \<Rightarrow> allocs \<Rightarrow> (String option \<times> Env \<times> allocs) option" where
  "addVarEnv env name value al =
     do {
       (v, al1) \<leftarrow> mkEnvVar name value al;
       Some (case v of None \<Rightarrow> (None, env, al1) | Some var \<Rightarrow> (vname var, var # env, al1))
     }"

fun lookupVarEnv :: "Env \<Rightarrow> String \<Rightarrow> String option option" where
  "lookupVarEnv [] name = Some None"
| "lookupVarEnv (v # vs) name =
     do { n \<leftarrow> vname v; m \<leftarrow> matchString n name; if m then Some (vvalue v) else lookupVarEnv vs name }"

text \<open>
  The loop of \<open>updateVarEnv\<close> never moves its pointer: it looks at the first variable again and
  again. The result is the environment with the new value, \<open>None\<close> inside for an empty list.
\<close>

partial_function (option) updateLoop :: "Env \<Rightarrow> String \<Rightarrow> EnvVar \<Rightarrow> Env option option" where
  "updateLoop vars name stub =
     (case vars of
        [] \<Rightarrow> Some None
      | v # vs \<Rightarrow>
          do { n \<leftarrow> vname v; m \<leftarrow> matchString n name;
               if m then do { _ \<leftarrow> freeEnvVar (stub\<lparr>vvalue := vvalue v\<rparr>);
                              Some (Some (v\<lparr>vvalue := vvalue stub\<rparr> # vs)) }
               else updateLoop vars name stub })"

definition updateVarEnv :: "Env \<Rightarrow> String \<Rightarrow> String \<Rightarrow> allocs \<Rightarrow> (String option \<times> Env \<times> allocs) option" where
  "updateVarEnv env name value al =
     do {
       (st, al1) \<leftarrow> mkEnvVar name value al;
       (case st of
          None \<Rightarrow> Some (None, env, al1)
        | Some stub \<Rightarrow>
            do { r \<leftarrow> updateLoop env name stub;
                 Some (case r of Some env' \<Rightarrow> (Some value, env', al1)
                       | None \<Rightarrow> (vvalue stub, stub # env, al1)) })
     }"

text \<open>The loop of \<open>unsetVarEnv\<close> on the variables after the first; both branches unlink.\<close>

fun unsetLoop :: "Env \<Rightarrow> String \<Rightarrow> Env option" where
  "unsetLoop [] name = Some []"
| "unsetLoop (v # vs) name =
     do { n \<leftarrow> vname v; m \<leftarrow> matchString n name; if m then do { _ \<leftarrow> freeEnvVar v; unsetLoop vs name } else unsetLoop vs name }"

definition unsetVarEnv :: "Env \<Rightarrow> String \<Rightarrow> Env option" where
  "unsetVarEnv env name = (case env of [] \<Rightarrow> None | dummy # rest \<Rightarrow> unsetLoop rest name)"

subsection \<open>Lemmas\<close>

definition charbuf_inv :: "CharBuf \<Rightarrow> bool" where
  "charbuf_inv buf \<longleftrightarrow> 0 < csize buf \<and> length (cdata buf) = unat (csize buf) \<and> cused buf < csize buf \<and>
     cdata buf ! unat (cused buf) = NUL"

definition chars :: "CharBuf \<Rightarrow> string" where
  "chars buf = take (unat (cused buf)) (cdata buf)"

definition string_wf :: "String \<Rightarrow> bool" where
  "string_wf s \<longleftrightarrow> (\<exists>c. sstr s = Some c \<and> length c < 2 ^ 32 \<and> ssize s = of_nat (length c))"

lemma matchLoop_full:
  "length a = length b \<Longrightarrow> matchLoop a b = length a \<longleftrightarrow> butlast a = butlast b"
proof (induction a b rule: matchLoop.induct)
  case (3 a as b bs)
  then show ?case by (cases as; cases bs) auto
qed auto

lemma matchLoop_le: "matchLoop a b \<le> length a"
  by (induction a b rule: matchLoop.induct) auto

lemma putAt_length: "putAt b i s = Some d \<Longrightarrow> length d = length b"
  by (auto simp: putAt_def split: if_splits)

lemma concatCharBuf_ok:
  assumes inv: "charbuf_inv buf" and len: "2 * unat (csize buf) + length s < 2 ^ 32"
  shows "\<exists>buf'. concatCharBuf buf s [] = Some (True, buf', []) \<and> charbuf_inv buf' \<and>
           chars buf' = chars buf @ s \<and> unat (csize buf') \<le> 2 * unat (csize buf) + length s \<and>
           (csize buf' = csize buf \<or> unat (csize buf) \<le> unat (cused buf) + length s)"
proof -
  let ?n = "of_nat (length s) :: u32"
  have n: "unat ?n = length s" using len by (intro unat_of_nat_small) simp
  have sz: "unat (?n + csize buf * 2) = length s + unat (csize buf) * 2"
    using len n by (simp add: unat_word_ariths)
  have us: "unat (cused buf) < unat (csize buf)" "length (cdata buf) = unat (csize buf)"
    using inv by (auto simp: charbuf_inv_def word_less_nat_alt)
  have room: "unat (csize buf - cused buf) = unat (csize buf) - unat (cused buf)"
    using us by (simp add: unat_sub word_le_nat_alt)
  have n1: "unat (?n + 1) = length s + 1" using n len us by (subst unat_add_small) auto
  have used': "unat (cused buf + ?n) = unat (cused buf) + length s"
    using n len us by (subst unat_add_small) auto
  let ?grow = "csize buf - cused buf < ?n + 1"
  define d where "d = (if ?grow then chars buf @ replicate (length s + unat (csize buf) * 2 - unat (cused buf)) NUL
                       else cdata buf)"
  define sz' where "sz' = (if ?grow then ?n + csize buf * 2 else csize buf)"
  have ld: "length d = unat sz'" "unat (cused buf) + length s + 1 \<le> length d" "take (unat (cused buf)) d = chars buf"
    using us sz room n1 by (auto simp: d_def sz'_def chars_def word_less_nat_alt)
  have lc: "length (chars buf) = unat (cused buf)" using us by (simp add: chars_def)
  let ?d' = "take (unat (cused buf)) d @ s @ NUL # drop (unat (cused buf) + length s + 1) d"
  have p1: "putAt d (unat (cused buf)) s = Some (take (unat (cused buf)) d @ s @ drop (unat (cused buf) + length s) d)"
    using ld by (simp add: putAt_def)
  have p2: "putAt (take (unat (cused buf)) d @ s @ drop (unat (cused buf) + length s) d) (unat (cused buf) + length s) [NUL] = Some ?d'"
    using ld lc by (simp add: putAt_def)
  have grow: "(if ?grow then (if unat (cused buf) \<le> length (cdata buf)
        then do { d \<leftarrow> putAt (replicate (unat (?n + csize buf * 2)) NUL) 0 (take (unat (cused buf)) (cdata buf));
                  Some (buf\<lparr>cdata := d, csize := ?n + csize buf * 2\<rparr>) } else None) else Some buf) =
      Some (buf\<lparr>cdata := d, csize := sz'\<rparr>)"
    using us sz by (simp add: putAt_def d_def sz'_def chars_def min_def)
  have "concatCharBuf buf s [] = Some (True, buf\<lparr>cdata := ?d', csize := sz', cused := cused buf + ?n\<rparr>, [])"
    unfolding concatCharBuf_def Let_def alloc.simps prod.case grow by (simp add: used' p1 p2)
  moreover have "charbuf_inv (buf\<lparr>cdata := ?d', csize := sz', cused := cused buf + ?n\<rparr>)"
    using ld used' us n lc by (auto simp: charbuf_inv_def word_less_nat_alt nth_append min_def)
  moreover have "chars (buf\<lparr>cdata := ?d', csize := sz', cused := cused buf + ?n\<rparr>) = chars buf @ s"
    using ld used' us lc by (simp add: chars_def min_def)
  moreover have "unat sz' \<le> 2 * unat (csize buf) + length s \<and> (sz' = csize buf \<or> unat (csize buf) \<le> unat (cused buf) + length s)"
    using sz room n1 us by (cases ?grow) (auto simp: sz'_def word_less_nat_alt)
  ultimately show ?thesis by auto
qed

definition str_is :: "String \<Rightarrow> string \<Rightarrow> bool" where
  "str_is s c \<longleftrightarrow> sstr s = Some c \<and> length c < 2 ^ 32 \<and> ssize s = of_nat (length c)"

lemma matchString_eq:
  assumes "str_is a x" "str_is b y"
  shows "matchString a b = Some (length x = length y \<and> butlast x = butlast y)"
proof -
  have x: "length x < 2 ^ 32" "length y < 2 ^ 32" "matchLoop x y < 2 ^ 32"
    using assms matchLoop_le [of x y] by (auto simp: str_is_def)
  have "(of_nat (length x) = (of_nat (length y) :: u32)) \<longleftrightarrow> length x = length y"
    "(of_nat (matchLoop x y) = (of_nat (length x) :: u32)) \<longleftrightarrow> matchLoop x y = length x"
    using x by (simp_all add: of_nat_eq_small)
  then show ?thesis using assms matchLoop_full [of x y] by (auto simp: matchString_def str_is_def)
qed

definition env_ok :: "Env \<Rightarrow> bool" where
  "env_ok env \<longleftrightarrow> (\<forall>v \<in> set env. \<exists>n x w y. vname v = Some n \<and> str_is n x \<and> vvalue v = Some w \<and> str_is w y)"

lemma unsetLoop_nil: "env_ok env \<Longrightarrow> str_is name c \<Longrightarrow> unsetLoop env name = Some []"
proof (induction env)
  case (Cons v vs)
  then obtain n x w y where "vname v = Some n" "str_is n x" "vvalue v = Some w" "str_is w y"
    by (auto simp: env_ok_def)
  then show ?case using Cons matchString_eq [of n x name c] by (simp add: env_ok_def freeEnvVar_def)
qed simp

text \<open>A loop that meets its own argument again has no result.\<close>

lemma updateLoop_diverges:
  assumes "vname v = Some n" "matchString n name = Some False"
  shows "updateLoop (v # vs) name stub = None"
proof -
  let ?P = "\<lambda>vars nm (st :: EnvVar) (r :: Env option).
    vars \<noteq> [] \<longrightarrow> (\<forall>n. vname (hd vars) = Some n \<longrightarrow> matchString n nm \<noteq> Some False)"
  have "?P vars nm st r" if "updateLoop vars nm st = Some r" for vars nm st r
    by (rule updateLoop.raw_induct [of ?P, OF _ that]) (auto split: list.splits bind_splits if_splits)
  then show ?thesis using assms by (metis list.discI list.sel(1) not_None_eq)
qed

subsection \<open>Properties\<close>

text \<open>
  Appending to a character buffer is memory safe and appends: for a well-formed buffer and
  any string, with the allocation successful, the buffer stays well formed and
  \<open>NUL\<close>-terminated, holds its old characters followed by the string, and its size at most
  doubles plus the length of the string.
\<close>

theorem concatCharBuf_appends:
  assumes "charbuf_inv buf" and "2 * unat (csize buf) + length s < 2 ^ 32"
  shows "\<exists>buf' al'. concatCharBuf buf s [] = Some (True, buf', al') \<and> charbuf_inv buf' \<and>
           chars buf' = chars buf @ s \<and> unat (csize buf') \<le> 2 * unat (csize buf) + length s"
  using concatCharBuf_ok [OF assms] by blast

theorem concatCharBuf_appends_witness:
  "\<exists>buf' al'. concatCharBuf \<lparr>cdata = [CHR ''a'', NUL], csize = 2, cused = 1\<rparr> ''bcd'' [] = Some (True, buf', al') \<and>
     chars buf' = ''abcd'' \<and> charbuf_inv buf'"
proof -
  have "charbuf_inv \<lparr>cdata = [CHR ''a'', NUL], csize = 2, cused = 1\<rparr>" by (simp add: charbuf_inv_def)
  then show ?thesis
    using concatCharBuf_appends [of "\<lparr>cdata = [CHR ''a'', NUL], csize = 2, cused = 1\<rparr>" "''bcd''"]
    by (auto simp: chars_def)
qed

text \<open>
  \<open>matchString\<close> does not decide equality: on strings of equal length it ignores the last
  character, so two strings that differ only there match.
\<close>

theorem matchString_ignores_last:
  assumes "str_is a x" and "str_is b y"
  shows "matchString a b = Some (length x = length y \<and> butlast x = butlast y)"
  by (rule matchString_eq [OF assms])

theorem matchString_ignores_last_witness:
  "matchString (assignString ''pid1'') (assignString ''pid2'') = Some True"
  using matchString_ignores_last [of "assignString ''pid1''" "''pid1''" "assignString ''pid2''" "''pid2''"]
  by (simp add: str_is_def assignString_def)

text \<open>
  \<open>unsetVarEnv\<close> of any name empties the environment: both branches of its loop unlink the
  next variable and the head is then set to the end of the list, so every variable is dropped,
  whatever the name; on an environment without variables it dereferences \<open>NULL\<close>.
\<close>

theorem unsetVarEnv_empties:
  assumes "env_ok env" and "str_is name c"
  shows "unsetVarEnv env name = (if env = [] then None else Some [])"
proof (cases env)
  case (Cons v vs)
  then have "env_ok vs" using assms(1) by (simp add: env_ok_def)
  then show ?thesis using Cons unsetLoop_nil assms(2) by (simp add: unsetVarEnv_def)
qed (simp add: unsetVarEnv_def)

theorem unsetVarEnv_empties_witness:
  "unsetVarEnv [\<lparr>vname = Some (assignString ''path''), vvalue = Some (assignString ''/'')\<rparr>] (assignString ''x'') = Some []"
  using unsetVarEnv_empties [of "[\<lparr>vname = Some (assignString ''path''), vvalue = Some (assignString ''/'')\<rparr>]"
      "assignString ''x''" "''x''"]
  by (auto simp: env_ok_def str_is_def assignString_def)

text \<open>
  \<open>updateVarEnv\<close> never returns when the environment has a first variable of another name:
  its loop does not advance to the next variable.
\<close>

theorem updateVarEnv_diverges:
  assumes "env_ok (v # vs)" and "str_is name c" and "str_is val d" and "vname v = Some n" and "str_is n x"
    and "length x \<noteq> length c"
  shows "updateVarEnv (v # vs) name val [] = None"
proof -
  have "matchString n name = Some False" using matchString_eq [OF assms(5,2)] assms(6) by simp
  then have "updateLoop (v # vs) name stub = None" for stub by (rule updateLoop_diverges [OF assms(4)])
  then show ?thesis using assms(2,3)
    by (simp add: updateVarEnv_def mkEnvVar_def copyString_def mkString_def str_is_def)
qed

theorem updateVarEnv_diverges_witness:
  "updateVarEnv [\<lparr>vname = Some (assignString ''path''), vvalue = Some (assignString ''/'')\<rparr>]
     (assignString ''x'') (assignString ''1'') [] = None"
  using updateVarEnv_diverges [of "\<lparr>vname = Some (assignString ''path''), vvalue = Some (assignString ''/'')\<rparr>" "[]"
      "assignString ''x''" "''x''" "assignString ''1''" "''1''" "assignString ''path''" "''path''"]
  by (auto simp: env_ok_def str_is_def assignString_def)

end
