(* ===== verification/ShellParser.thy ===== *)
theory ShellParser
  imports TorgoStrings
begin

text \<open>
  The command parser of the shell (\<open>src/src/torgo/parser.c\<close>): a state machine over a chain of
  input strings that can be extended between parses. The tokens are in reverse order while a
  command is read. \<open>NULL\<close> dereferences (unchecked allocations included) have no result.
\<close>

subsection \<open>Results and iterators\<close>

datatype ParseResult = ParsedCommand "String option list" | ParseIncomplete | ParseError "String option"

definition freeParseToken :: "String option \<Rightarrow> unit option" where
  "freeParseToken tok = do { _ \<leftarrow> tok; Some () }"

text \<open>An iterator is the rest of its list; the result is the string and the advanced iterator.\<close>

definition mkParseTokenIterator :: "String option list \<Rightarrow> allocs \<Rightarrow> String option list option \<times> allocs" where
  "mkParseTokenIterator toks al = (let (ok, al1) = alloc al in (if ok then Some toks else None, al1))"

definition getNextParseTokenIterator :: "String option list option \<Rightarrow> String option \<times> String option list option" where
  "getNextParseTokenIterator it =
     (case it of None \<Rightarrow> (None, None) | Some [] \<Rightarrow> (None, Some []) | Some (t # ts) \<Rightarrow> (t, Some ts))"

definition mkParseIncomplete :: "allocs \<Rightarrow> (ParseResult \<times> allocs) option" where
  "mkParseIncomplete al = (let (ok, al1) = alloc al in if ok then Some (ParseIncomplete, al1) else None)"

definition mkParseError :: "String \<Rightarrow> allocs \<Rightarrow> (ParseResult \<times> allocs) option" where
  "mkParseError err al =
     (let (ok, al1) = alloc al in
      if ok then do { (s, al2) \<leftarrow> copyString err al1; Some (ParseError s, al2) } else None)"

fun copyTokens :: "String option list \<Rightarrow> String option list \<Rightarrow> allocs \<Rightarrow> (String option list \<times> allocs) option" where
  "copyTokens [] acc al = Some (acc, al)"
| "copyTokens (t # ts) acc al =
     (let (ok, al1) = alloc al in
      if ok then do { s \<leftarrow> t; (c, al2) \<leftarrow> copyString s al1; copyTokens ts (c # acc) al2 } else None)"

definition mkParsedCommand :: "String option list \<Rightarrow> allocs \<Rightarrow> (ParseResult \<times> allocs) option" where
  "mkParsedCommand tokens al =
     (let (ok, al1) = alloc al in
      if ok then do { (ts, al2) \<leftarrow> copyTokens tokens [] al1; Some (ParsedCommand ts, al2) } else None)"

fun freeTokens :: "String option list \<Rightarrow> unit option" where
  "freeTokens [] = Some ()"
| "freeTokens (t # ts) = do { _ \<leftarrow> freeParseToken t; freeTokens ts }"

fun freeParseResult :: "ParseResult \<Rightarrow> unit option" where
  "freeParseResult (ParseError e) = do { _ \<leftarrow> e; Some () }"
| "freeParseResult (ParsedCommand ts) = freeTokens ts"
| "freeParseResult ParseIncomplete = Some ()"

fun getLengthParseResult :: "ParseResult \<Rightarrow> nat" where
  "getLengthParseResult (ParsedCommand ts) = length ts"
| "getLengthParseResult _ = 0"

fun isCompleteParseResult :: "ParseResult \<Rightarrow> bool" where
  "isCompleteParseResult (ParsedCommand ts) = True"
| "isCompleteParseResult _ = False"

subsection \<open>The parser\<close>

datatype ParserState =
  ParserStateReady | ParserStateWord | ParserStateQuotation | ParserStateEscapeInQuot
| ParserStateEscapeInWord | ParserStateOperator | ParserStateComplete

text \<open>
  \<open>inputChain\<close> lists the strings of the chain; \<open>lastLink\<close> is whether the pointer to its last link
  is set; \<open>input\<close> is the rest of the string \<open>input\<close> points to, \<open>None\<close> for \<open>NULL\<close>.
\<close>

record Parser =
  tokens :: "String option list"
  token :: CharBuf
  inputChain :: "String list"
  lastLink :: bool
  input :: "string option"
  pstate :: ParserState

text \<open>
  \<open>mkCharBuf\<close> returns freed memory when its second allocation fails; the parser then holds a
  dangling pointer, which the model has no value for.
\<close>

definition mkParser :: "allocs \<Rightarrow> (Parser ptr \<times> allocs) option" where
  "mkParser al =
     (let (ok, al1) = alloc al in
      if \<not> ok then Some (Null, al1)
      else let (tok, al2) = mkCharBuf 32 al1 in
           case tok of
             Null \<Rightarrow> Some (Freed, al2)
           | Freed \<Rightarrow> None
           | Valid b \<Rightarrow>
               Some (Valid \<lparr>tokens = [], token = b, inputChain = [], lastLink = False, input = None,
                            pstate = ParserStateReady\<rparr>, al2))"

definition flushTokensParser :: "Parser \<Rightarrow> Parser option" where
  "flushTokensParser p = do { _ \<leftarrow> freeTokens (tokens p); Some (p\<lparr>tokens := []\<rparr>) }"

definition flushInputChainParser :: "Parser \<Rightarrow> Parser" where
  "flushInputChainParser p = p\<lparr>inputChain := [], lastLink := False, input := None\<rparr>"

text \<open>When the link cannot be allocated the string is freed and then read.\<close>

definition addInputParser :: "Parser \<Rightarrow> string \<Rightarrow> allocs \<Rightarrow> (string option \<times> Parser \<times> allocs) option" where
  "addInputParser p inp al =
     (let (str, al1) = mkString inp al in
      case str of
        None \<Rightarrow> Some (None, p, al1)
      | Some s \<Rightarrow>
          (let (ok, al2) = alloc al1 in
           if \<not> ok then None
           else Some (sstr s,
                      (if lastLink p then p\<lparr>inputChain := inputChain p @ [s]\<rparr>
                       else p\<lparr>inputChain := [s], input := sstr s\<rparr>)\<lparr>lastLink := True\<rparr>,
                      al2)))"

text \<open>\<open>advanceInputParser\<close>, at the end of a string and in general.\<close>

definition advanceEnd :: "Parser \<Rightarrow> Parser option" where
  "advanceEnd p =
     (case inputChain p of
        [] \<Rightarrow> None
      | [c] \<Rightarrow> Some (p\<lparr>lastLink := False\<rparr>)
      | c # c' # cs \<Rightarrow> Some (p\<lparr>inputChain := c' # cs, input := sstr c'\<rparr>))"

definition advanceInputParser :: "Parser \<Rightarrow> Parser option" where
  "advanceInputParser p =
     (case input p of
        None \<Rightarrow> None
      | Some [] \<Rightarrow> advanceEnd p
      | Some (c # cs) \<Rightarrow>
          if cs = [] then advanceEnd (p\<lparr>input := Some cs\<rparr>) else Some (p\<lparr>input := Some cs\<rparr>))"

definition appendToken :: "Parser \<Rightarrow> char \<Rightarrow> allocs \<Rightarrow> (Parser \<times> allocs) option" where
  "appendToken p c al = do { (_, b, al') \<leftarrow> appendCharBuf (token p) c al; Some (p\<lparr>token := b\<rparr>, al') }"

definition unescape :: "char \<Rightarrow> char" where
  "unescape c =
     (if c = CHR ''a'' then CHR 0x07 else if c = CHR ''b'' then CHR 0x08
      else if c = CHR ''f'' then CHR 0x0C else if c = CHR ''n'' then CHR 0x0A
      else if c = CHR ''r'' then CHR 0x0D else if c = CHR ''t'' then CHR 0x09
      else if c = CHR ''v'' then CHR 0x0B else c)"

definition isBlank :: "char \<Rightarrow> bool" where
  "isBlank c \<longleftrightarrow> c = CHR '' '' \<or> c = CHR 0x09"

definition isOperator :: "char \<Rightarrow> bool" where
  "isOperator c \<longleftrightarrow> c = CHR 0x0D \<or> c = CHR 0x0A \<or> c = CHR '';''"

text \<open>The body of the parse loop on the next character \<open>c\<close>.\<close>

definition pushToken :: "Parser \<Rightarrow> allocs \<Rightarrow> (Parser \<times> allocs) option" where
  "pushToken p al =
     (if isEmptyCharBuf (token p) then Some (p, al)
      else (let (ok, al1) = alloc al in
            if \<not> ok then None
            else (let (t, al2) = mkString (fromCharBuf (token p)) al1
                  in do { b \<leftarrow> clearCharBuf (token p); Some (p\<lparr>tokens := t # tokens p, token := b\<rparr>, al2) })))"

definition parseStep :: "char \<Rightarrow> Parser \<Rightarrow> allocs \<Rightarrow> (Parser \<times> allocs) option" where
  "parseStep c p al =
     (let go = (\<lambda>st (p, al). do { p' \<leftarrow> advanceInputParser p; Some (p'\<lparr>pstate := st\<rparr>, al) })
      in case pstate p of
        ParserStateComplete \<Rightarrow> Some (p, al)
      | ParserStateReady \<Rightarrow>
          do {
            (p1, al1) \<leftarrow> pushToken p al;
            if isBlank c then go ParserStateReady (p1, al1)
            else if isOperator c then Some (p1\<lparr>pstate := ParserStateOperator\<rparr>, al1)
            else Some (p1\<lparr>pstate := ParserStateWord\<rparr>, al1)
          }
      | ParserStateWord \<Rightarrow>
          if c = CHR 0x22 then go ParserStateQuotation (p, al)
          else if c = CHR 0x5C then go ParserStateEscapeInWord (p, al)
          else if isBlank c \<or> isOperator c then Some (p\<lparr>pstate := ParserStateReady\<rparr>, al)
          else do { r \<leftarrow> appendToken p c al; go ParserStateWord r }
      | ParserStateQuotation \<Rightarrow>
          if c = CHR 0x5C then go ParserStateEscapeInQuot (p, al)
          else if c = CHR 0x22 then go ParserStateWord (p, al)
          else do { r \<leftarrow> appendToken p c al; go ParserStateQuotation r }
      | ParserStateEscapeInWord \<Rightarrow> do { r \<leftarrow> appendToken p (unescape c) al; go ParserStateWord r }
      | ParserStateEscapeInQuot \<Rightarrow> do { r \<leftarrow> appendToken p (unescape c) al; go ParserStateQuotation r }
      | ParserStateOperator \<Rightarrow> go ParserStateComplete (p, al))"

partial_function (option) parseLoop :: "Parser \<Rightarrow> allocs \<Rightarrow> (Parser \<times> allocs) option" where
  "parseLoop p al =
     (case input p of
        None \<Rightarrow> None
      | Some [] \<Rightarrow> Some (p, al)
      | Some (c # cs) \<Rightarrow>
          if pstate p = ParserStateComplete then Some (p, al)
          else do { (p', al') \<leftarrow> parseStep c p al; parseLoop p' al' })"

definition parseInputParser :: "Parser \<Rightarrow> allocs \<Rightarrow> (ParseResult \<times> Parser \<times> allocs) option" where
  "parseInputParser p al =
     do {
       (p1, al1) \<leftarrow> parseLoop p al;
       if pstate p1 \<noteq> ParserStateComplete then
         do { (r, al2) \<leftarrow> mkParseIncomplete al1; Some (r, p1, al2) }
       else
         do {
           (r, al2) \<leftarrow> mkParsedCommand (tokens p1) al1;
           p2 \<leftarrow> flushTokensParser p1;
           b \<leftarrow> clearCharBuf (token p2);
           Some (r, p2\<lparr>token := b, pstate := ParserStateReady\<rparr>, al2)
         }
     }"

definition hasUnparsedInputParser :: "Parser \<Rightarrow> bool" where
  "hasUnparsedInputParser p \<longleftrightarrow> (input p \<noteq> None \<and> input p \<noteq> Some []) \<or> lastLink p"

subsection \<open>The language\<close>

text \<open>The same machine over a plain string: its state, the word being read and the words read.\<close>

type_synonym lexer = "ParserState \<times> string \<times> string list"

definition flushWord :: "string \<Rightarrow> string list \<Rightarrow> string list" where
  "flushWord w ws = (if w = [] then ws else w # ws)"

definition inWord :: "char \<Rightarrow> string \<Rightarrow> string list \<Rightarrow> lexer" where
  "inWord c w ws =
     (if c = CHR 0x22 then (ParserStateQuotation, w, ws)
      else if c = CHR 0x5C then (ParserStateEscapeInWord, w, ws)
      else (ParserStateWord, w @ [c], ws))"

definition inReady :: "char \<Rightarrow> string \<Rightarrow> string list \<Rightarrow> lexer" where
  "inReady c w ws =
     (if isBlank c then (ParserStateReady, [], flushWord w ws)
      else if isOperator c then (ParserStateComplete, [], flushWord w ws)
      else inWord c [] (flushWord w ws))"

fun feed :: "lexer \<Rightarrow> char \<Rightarrow> lexer" where
  "feed (ParserStateReady, w, ws) c = inReady c w ws"
| "feed (ParserStateWord, w, ws) c =
     (if isBlank c \<or> isOperator c then inReady c w ws else inWord c w ws)"
| "feed (ParserStateQuotation, w, ws) c =
     (if c = CHR 0x5C then (ParserStateEscapeInQuot, w, ws)
      else if c = CHR 0x22 then (ParserStateWord, w, ws)
      else (ParserStateQuotation, w @ [c], ws))"
| "feed (ParserStateEscapeInWord, w, ws) c = (ParserStateWord, w @ [unescape c], ws)"
| "feed (ParserStateEscapeInQuot, w, ws) c = (ParserStateQuotation, w @ [unescape c], ws)"
| "feed (st, w, ws) c = (ParserStateComplete, w, ws)"

fun run :: "lexer \<Rightarrow> string \<Rightarrow> lexer \<times> string" where
  "run s [] = (s, [])"
| "run s (c # cs) = (if fst s = ParserStateComplete then (s, c # cs) else run (feed s c) cs)"

subsection \<open>The parser follows the lexer\<close>

definition chainText :: "String list \<Rightarrow> string list \<Rightarrow> bool" where
  "chainText cs xs \<longleftrightarrow> map sstr cs = map Some xs"

text \<open>
  \<open>plex L p s i xs\<close>: \<open>p\<close> stands for the lexer state \<open>s\<close>, with \<open>i\<close> left of the current string
  and the non-empty strings \<open>xs\<close> after it; \<open>L\<close> bounds the word and the text together.
\<close>

definition plex :: "nat \<Rightarrow> Parser \<Rightarrow> lexer \<Rightarrow> string \<Rightarrow> string list \<Rightarrow> bool" where
  "plex L p s i xs \<longleftrightarrow>
     (\<exists>st w ws c0 cs. s = (st, w, ws) \<and> pstate p = st \<and> charbuf_inv (token p) \<and> chars (token p) = w \<and>
        NUL \<notin> set w \<and> (\<forall>v \<in> set ws. length v < 2 ^ 32) \<and>
        tokens p = map (\<lambda>v. Some (assignString v)) ws \<and> unat (csize (token p)) \<le> 33 + 2 * L \<and>
        input p = Some i \<and> inputChain p = c0 # cs \<and> chainText cs xs \<and> [] \<notin> set xs \<and>
        lastLink p = (i \<noteq> []) \<and> (i = [] \<longrightarrow> xs = []) \<and> NUL \<notin> set (i @ concat xs) \<and>
        length w + length (i @ concat xs) \<le> L)"

lemma appendCharBuf_ok:
  assumes inv: "charbuf_inv buf" and c: "c \<noteq> NUL" and sz: "unat (csize buf) \<le> 33 + 2 * L"
    and L: "length (chars buf) < L" "L < 2 ^ 29"
  shows "\<exists>buf'. appendCharBuf buf c [] = Some (c, buf', []) \<and> charbuf_inv buf' \<and>
           chars buf' = chars buf @ [c] \<and> unat (csize buf') \<le> 33 + 2 * L"
proof -
  have used: "length (chars buf) = unat (cused buf)"
    using inv by (auto simp: chars_def charbuf_inv_def word_less_nat_alt)
  obtain buf' where "concatCharBuf buf [c] [] = Some (True, buf', [])" "charbuf_inv buf'"
    "chars buf' = chars buf @ [c]" "unat (csize buf') \<le> 2 * unat (csize buf) + 1"
    "csize buf' = csize buf \<or> unat (csize buf) \<le> unat (cused buf) + 1"
    using concatCharBuf_ok [OF inv, of "[c]"] sz L by auto
  then show ?thesis using c L used sz by (auto simp: appendCharBuf_def)
qed

lemma clearCharBuf_ok:
  assumes "charbuf_inv buf"
  shows "\<exists>buf'. clearCharBuf buf = Some buf' \<and> charbuf_inv buf' \<and> chars buf' = [] \<and> csize buf' = csize buf"
  using assms
  by (auto simp: clearCharBuf_def putAt_def charbuf_inv_def chars_def word_less_nat_alt Suc_le_eq)

lemma fromCharBuf_chars:
  assumes "charbuf_inv buf" "NUL \<notin> set (chars buf)"
  shows "fromCharBuf buf = chars buf"
proof -
  have n: "unat (cused buf) < length (cdata buf)" using assms(1) by (simp add: charbuf_inv_def word_less_nat_alt)
  have "cdata buf = chars buf @ NUL # drop (Suc (unat (cused buf))) (cdata buf)"
    using assms(1) id_take_nth_drop [OF n] by (simp add: charbuf_inv_def chars_def)
  then show ?thesis using assms(2) by (metis cstr_terminated fromCharBuf_def)
qed

lemma pushToken_ok:
  assumes "plex L p (st, w, ws) i xs" "L < 2 ^ 29"
  shows "\<exists>p'. pushToken p [] = Some (p', []) \<and> plex L p' (st, [], flushWord w ws) i xs"
proof (cases "w = []")
  case True
  then have "isEmptyCharBuf (token p)"
    using assms(1) by (auto simp: plex_def isEmptyCharBuf_def chars_def charbuf_inv_def word_less_nat_alt unat_eq_0)
  then show ?thesis using assms True by (auto simp: pushToken_def flushWord_def)
next
  case False
  then have ne: "\<not> isEmptyCharBuf (token p)" using assms(1) by (auto simp: plex_def isEmptyCharBuf_def chars_def)
  have inv: "charbuf_inv (token p)" "fromCharBuf (token p) = w" "length w < 2 ^ 32"
    using assms fromCharBuf_chars by (auto simp: plex_def)
  obtain b where "clearCharBuf (token p) = Some b" "charbuf_inv b" "chars b = []" "csize b = csize (token p)"
    using clearCharBuf_ok [OF inv(1)] by blast
  then show ?thesis using assms(1) ne inv False
    by (auto simp: pushToken_def mkString_def plex_def flushWord_def assignString_def)
qed

lemma advance_ok:
  assumes "plex L p (st, w, ws) (c # i) xs"
  shows "\<exists>p' i' xs'. advanceInputParser p = Some p' \<and> plex L (p'\<lparr>pstate := st'\<rparr>) (st', w, ws) i' xs' \<and>
           i' @ concat xs' = i @ concat xs"
proof -
  obtain c0 cs where p: "pstate p = st" "charbuf_inv (token p)" "chars (token p) = w"
    "tokens p = map (\<lambda>v. Some (assignString v)) ws" "unat (csize (token p)) \<le> 33 + 2 * L"
    "input p = Some (c # i)" "inputChain p = c0 # cs" "chainText cs xs" "[] \<notin> set xs" "lastLink p"
    "NUL \<notin> set (c # i @ concat xs)" "length w + length (c # i @ concat xs) \<le> L" "NUL \<notin> set w"
    "\<forall>v \<in> set ws. length v < 2 ^ 32"
    using assms by (auto simp: plex_def)
  show ?thesis
  proof (cases "i = []")
    case False
    then show ?thesis using p
      by (intro exI [of _ "p\<lparr>input := Some i\<rparr>"] exI [of _ i] exI [of _ xs])
        (auto simp: advanceInputParser_def plex_def)
  next
    case True
    show ?thesis
    proof (cases xs)
      case Nil
      then have "cs = []" using p by (simp add: chainText_def)
      then show ?thesis using p True Nil
        by (intro exI [of _ "p\<lparr>input := Some [], lastLink := False\<rparr>"] exI [of _ "[]"] exI [of _ "[]"])
          (auto simp: advanceInputParser_def advanceEnd_def plex_def)
    next
      case (Cons x ys)
      then obtain c1 ds where cs: "cs = c1 # ds" "sstr c1 = Some x" "chainText ds ys"
        using p(8) by (cases cs) (auto simp: chainText_def)
      then show ?thesis using p True Cons
        by (intro exI [of _ "p\<lparr>input := Some x, inputChain := c1 # ds\<rparr>"] exI [of _ x] exI [of _ ys])
          (auto simp: advanceInputParser_def advanceEnd_def plex_def)
    qed
  qed
qed

lemma plex_state: "plex L p (st, w, ws) i xs \<Longrightarrow> plex L (p\<lparr>pstate := st'\<rparr>) (st', w, ws) i xs"
  by (auto simp: plex_def)

lemma plex_pstate: "plex L p (st, w, ws) i xs \<Longrightarrow> pstate p = st \<and> input p = Some i"
  by (auto simp: plex_def)

lemma parseLoop_unfold:
  assumes "plex L p (st, w, ws) (c # i) xs" "st \<noteq> ParserStateComplete"
    "parseStep c p [] = Some (p', [])"
  shows "parseLoop p [] = parseLoop p' []"
  using plex_pstate [OF assms(1)] assms(2,3) by (subst parseLoop.simps) simp

lemma advance_token:
  "advanceInputParser (p\<lparr>token := b\<rparr>) = map_option (\<lambda>p. p\<lparr>token := b\<rparr>) (advanceInputParser p)"
  by (simp add: advanceInputParser_def advanceEnd_def split: option.splits list.splits)

lemma append_advance:
  assumes p: "plex L p (st, w, ws) (c # i) xs" and d: "d \<noteq> NUL" and L: "L < 2 ^ 29"
  shows "\<exists>p1 p' i' xs'. appendToken p d [] = Some (p1, []) \<and> advanceInputParser p1 = Some p' \<and>
           plex L (p'\<lparr>pstate := st'\<rparr>) (st', w @ [d], ws) i' xs' \<and> i' @ concat xs' = i @ concat xs"
proof -
  have tok: "charbuf_inv (token p)" "unat (csize (token p)) \<le> 33 + 2 * L" "chars (token p) = w" "length w < L"
    and len: "length w + length (c # i @ concat xs) \<le> L"
    using p by (auto simp: plex_def)
  obtain b where b: "appendCharBuf (token p) d [] = Some (d, b, [])" "charbuf_inv b" "chars b = w @ [d]"
    "unat (csize b) \<le> 33 + 2 * L"
    using appendCharBuf_ok [OF tok(1) d tok(2) _ L] tok(3,4) by auto
  obtain p' i' xs' where a: "advanceInputParser p = Some p'" "plex L (p'\<lparr>pstate := st'\<rparr>) (st', w, ws) i' xs'"
    "i' @ concat xs' = i @ concat xs"
    using advance_ok [OF p, of st'] by blast
  have len': "length i' + length (concat xs') = length i + length (concat xs)" using a(3) by (metis length_append)
  have "plex L ((p'\<lparr>token := b\<rparr>)\<lparr>pstate := st'\<rparr>) (st', w @ [d], ws) i' xs'"
    using a(2) b d len len' by (auto simp: plex_def)
  then show ?thesis using a b by (auto simp: appendToken_def advance_token)
qed

definition follows :: "nat \<Rightarrow> Parser \<Rightarrow> lexer \<Rightarrow> string \<Rightarrow> bool" where
  "follows L p s text \<longleftrightarrow>
     (\<exists>p' i' xs'. parseLoop p [] = parseLoop p' [] \<and> plex L p' s i' xs' \<and> i' @ concat xs' = text)"

lemma followsI: "parseLoop p [] = parseLoop p' [] \<Longrightarrow> plex L p' s i xs \<Longrightarrow> i @ concat xs = text \<Longrightarrow> follows L p s text"
  by (auto simp: follows_def)

lemma follows_step: "parseLoop p [] = parseLoop p' [] \<Longrightarrow> follows L p' s text \<Longrightarrow> follows L p s text"
  by (auto simp: follows_def)

lemma follows_advance:
  assumes "plex L p (st, w, ws) (c # i) xs" "st \<noteq> ParserStateComplete"
    "\<And>p'. advanceInputParser p = Some p' \<Longrightarrow> parseStep c p [] = Some (p'\<lparr>pstate := st'\<rparr>, [])"
  shows "follows L p (st', w, ws) (i @ concat xs)"
proof -
  obtain p' i' xs' where "advanceInputParser p = Some p'" "plex L (p'\<lparr>pstate := st'\<rparr>) (st', w, ws) i' xs'"
    "i' @ concat xs' = i @ concat xs"
    using advance_ok [OF assms(1), of st'] by blast
  then show ?thesis using parseLoop_unfold [OF assms(1,2) assms(3)] by (auto intro: followsI)
qed

lemma follows_append:
  assumes "plex L p (st, w, ws) (c # i) xs" "st \<noteq> ParserStateComplete" "d \<noteq> NUL" "L < 2 ^ 29"
    "\<And>p1 p'. appendToken p d [] = Some (p1, []) \<Longrightarrow> advanceInputParser p1 = Some p' \<Longrightarrow>
      parseStep c p [] = Some (p'\<lparr>pstate := st'\<rparr>, [])"
  shows "follows L p (st', w @ [d], ws) (i @ concat xs)"
proof -
  obtain p1 p' i' xs' where a: "appendToken p d [] = Some (p1, [])" "advanceInputParser p1 = Some p'"
    "plex L (p'\<lparr>pstate := st'\<rparr>) (st', w @ [d], ws) i' xs'" "i' @ concat xs' = i @ concat xs"
    using append_advance [OF assms(1,3,4), of st'] by blast
  show ?thesis using parseLoop_unfold [OF assms(1,2) assms(5) [OF a(1,2)]] a(3,4) by (auto intro: followsI)
qed

lemma not_nul: "plex L p s (c # i) xs \<Longrightarrow> c \<noteq> NUL \<and> unescape c \<noteq> NUL"
  by (auto simp: plex_def unescape_def)

lemma follows_inWord:
  assumes p: "plex L p (ParserStateWord, w, ws) (c # i) xs" and c: "\<not> isBlank c" "\<not> isOperator c"
    and L: "L < 2 ^ 29"
  shows "follows L p (inWord c w ws) (i @ concat xs)"
proof -
  note st = plex_pstate [OF p]
  consider "c = CHR 0x22" | "c = CHR 0x5C" | (other) "c \<noteq> CHR 0x22" "c \<noteq> CHR 0x5C" by blast
  then show ?thesis
  proof cases
    case 1
    then show ?thesis using follows_advance [OF p, of ParserStateQuotation] st
      by (simp add: inWord_def parseStep_def)
  next
    case 2
    then show ?thesis using follows_advance [OF p, of ParserStateEscapeInWord] st
      by (simp add: inWord_def parseStep_def)
  next
    case other
    then show ?thesis using follows_append [OF p _ _ L, of c ParserStateWord] st c not_nul [OF p]
      by (simp add: inWord_def parseStep_def)
  qed
qed

lemma follows_inReady:
  assumes p: "plex L p (ParserStateReady, w, ws) (c # i) xs" and L: "L < 2 ^ 29"
  shows "follows L p (inReady c w ws) (i @ concat xs)"
proof -
  note st = plex_pstate [OF p]
  obtain p1 where p1: "pushToken p [] = Some (p1, [])"
    and plex1: "plex L p1 (ParserStateReady, [], flushWord w ws) (c # i) xs"
    using pushToken_ok [OF p] L by auto
  consider (blank) "isBlank c" | (op) "\<not> isBlank c" "isOperator c" | (word) "\<not> isBlank c" "\<not> isOperator c" by blast
  then show ?thesis
  proof cases
    case blank
    then obtain p' i' xs' where "advanceInputParser p1 = Some p'"
      "plex L (p'\<lparr>pstate := ParserStateReady\<rparr>) (ParserStateReady, [], flushWord w ws) i' xs'"
      "i' @ concat xs' = i @ concat xs"
      using advance_ok [OF plex1, of ParserStateReady] by blast
    moreover from this have "parseStep c p [] = Some (p'\<lparr>pstate := ParserStateReady\<rparr>, [])"
      using st p1 blank by (simp add: parseStep_def)
    ultimately show ?thesis using parseLoop_unfold [OF p] blank by (auto simp: inReady_def intro: followsI)
  next
    case op
    note p2 = plex_state [OF plex1, of ParserStateOperator]
    have s: "parseStep c p [] = Some (p1\<lparr>pstate := ParserStateOperator\<rparr>, [])"
      using st p1 op by (simp add: parseStep_def)
    have "follows L (p1\<lparr>pstate := ParserStateOperator\<rparr>) (ParserStateComplete, [], flushWord w ws) (i @ concat xs)"
      by (rule follows_advance [OF p2]) (simp_all add: parseStep_def)
    then show ?thesis using follows_step [OF parseLoop_unfold [OF p _ s]] op by (simp add: inReady_def)
  next
    case word
    note p2 = plex_state [OF plex1, of ParserStateWord]
    have s: "parseStep c p [] = Some (p1\<lparr>pstate := ParserStateWord\<rparr>, [])"
      using st p1 word by (simp add: parseStep_def)
    show ?thesis using follows_step [OF parseLoop_unfold [OF p _ s] follows_inWord [OF p2 word L]] word
      by (simp add: inReady_def)
  qed
qed

lemma follows_feed:
  assumes p: "plex L p (st, w, ws) (c # i) xs" and L: "L < 2 ^ 29"
    and st: "st \<noteq> ParserStateComplete" "st \<noteq> ParserStateOperator"
  shows "follows L p (feed (st, w, ws) c) (i @ concat xs)"
proof -
  note ps = plex_pstate [OF p]
  show ?thesis
  proof (cases st)
    case ParserStateReady
    then show ?thesis using follows_inReady [OF _ L] p by simp
  next
    case ParserStateWord
    show ?thesis
    proof (cases "isBlank c \<or> isOperator c")
      case True
      have q: "c \<noteq> CHR 0x22" "c \<noteq> CHR 0x5C" using True by (auto simp: isBlank_def isOperator_def)
      have "parseStep c p [] = Some (p\<lparr>pstate := ParserStateReady\<rparr>, [])"
        using ps ParserStateWord True q by (simp add: parseStep_def)
      then show ?thesis
        using follows_step [OF parseLoop_unfold [OF p st(1)] follows_inReady [OF plex_state [OF p] L]]
          ParserStateWord True by simp
    next
      case False
      then show ?thesis using follows_inWord [of L p w ws c i xs] p L ParserStateWord by simp
    qed
  next
    case ParserStateQuotation
    then show ?thesis
      using follows_advance [OF p st(1), of ParserStateEscapeInQuot] follows_advance [OF p st(1), of ParserStateWord]
        follows_append [OF p st(1) _ L, of c ParserStateQuotation] not_nul [OF p] ps
      by (auto simp: parseStep_def)
  next
    case ParserStateEscapeInQuot
    then show ?thesis
      using follows_append [OF p st(1) _ L, of "unescape c" ParserStateQuotation] not_nul [OF p] ps
      by (simp add: parseStep_def)
  next
    case ParserStateEscapeInWord
    then show ?thesis
      using follows_append [OF p st(1) _ L, of "unescape c" ParserStateWord] not_nul [OF p] ps
      by (simp add: parseStep_def)
  qed (use st in auto)
qed

lemma feed_state: "fst (feed s c) \<noteq> ParserStateOperator"
  by (cases "(s, c)" rule: feed.cases) (auto simp: inReady_def inWord_def)

lemma parseLoop_run:
  "plex L p s i xs \<Longrightarrow> L < 2 ^ 29 \<Longrightarrow> fst s \<noteq> ParserStateOperator \<Longrightarrow>
   \<exists>p' i' xs'. parseLoop p [] = Some (p', []) \<and> plex L p' (fst (run s (i @ concat xs))) i' xs' \<and>
     i' @ concat xs' = snd (run s (i @ concat xs))"
proof (induction "length (i @ concat xs)" arbitrary: p s i xs rule: less_induct)
  case less
  obtain st w ws where s: "s = (st, w, ws)" by (cases s) auto
  note ps = plex_pstate [OF less.prems(1) [unfolded s]]
  show ?case
  proof (cases i)
    case Nil
    then have "xs = []" using less.prems(1) by (auto simp: plex_def)
    then show ?thesis using less.prems(1) ps Nil by (subst parseLoop.simps) auto
  next
    case (Cons c i')
    show ?thesis
    proof (cases "st = ParserStateComplete")
      case True
      then have "parseLoop p [] = Some (p, [])" using ps Cons by (subst parseLoop.simps) simp
      then show ?thesis using less.prems(1) True Cons s by (intro exI [of _ p] exI [of _ i] exI [of _ xs]) simp
    next
      case False
      then have "follows L p (feed s c) (i' @ concat xs)"
        using follows_feed less.prems Cons s by simp
      then obtain p1 i1 xs1 where p1: "parseLoop p [] = parseLoop p1 []" "plex L p1 (feed s c) i1 xs1"
        "i1 @ concat xs1 = i' @ concat xs" by (auto simp: follows_def)
      have "length (i1 @ concat xs1) < length (i @ concat xs)" using p1(3) Cons by simp
      from less.hyps [OF this p1(2) less.prems(2) feed_state] p1 Cons False s
      show ?thesis by (simp only: run.simps append_Cons fst_conv if_False p1(3))
    qed
  qed
qed

lemma copyTokens_ok:
  "\<forall>v \<in> set ws. length v < 2 ^ 32 \<Longrightarrow>
   copyTokens (map (\<lambda>v. Some (assignString v)) ws) acc [] =
     Some (rev (map (\<lambda>v. Some (assignString v)) ws) @ acc, [])"
  by (induction ws arbitrary: acc) (auto simp: copyString_def assignString_def mkString_def)

lemma freeTokens_ok: "freeTokens (map (\<lambda>v. Some (f v)) ws) = Some ()"
  by (induction ws) (auto simp: freeParseToken_def)

text \<open>A result, on the side of the lexer.\<close>

definition lexResult :: "lexer \<Rightarrow> ParseResult" where
  "lexResult s =
     (case s of (st, w, ws) \<Rightarrow>
        if st = ParserStateComplete then ParsedCommand (map (\<lambda>v. Some (assignString v)) (rev ws))
        else ParseIncomplete)"

definition lexNext :: "lexer \<Rightarrow> lexer" where
  "lexNext s = (if fst s = ParserStateComplete then (ParserStateReady, [], []) else s)"

lemma parseInputParser_run:
  assumes "plex L p s i xs" "L < 2 ^ 29" "fst s \<noteq> ParserStateOperator"
  shows "\<exists>p' i' xs'. parseInputParser p [] = Some (lexResult (fst (run s (i @ concat xs))), p', []) \<and>
           plex L p' (lexNext (fst (run s (i @ concat xs)))) i' xs' \<and>
           i' @ concat xs' = snd (run s (i @ concat xs))"
proof -
  obtain p' i' xs' where p': "parseLoop p [] = Some (p', [])"
    "plex L p' (fst (run s (i @ concat xs))) i' xs'" "i' @ concat xs' = snd (run s (i @ concat xs))"
    using parseLoop_run [OF assms] by blast
  obtain st w ws where r: "fst (run s (i @ concat xs)) = (st, w, ws)" by (cases "fst (run s (i @ concat xs))")
  show ?thesis
  proof (cases "st = ParserStateComplete")
    case False
    then show ?thesis using p' plex_pstate [OF p'(2) [unfolded r]]
      by (auto simp: parseInputParser_def r lexResult_def lexNext_def mkParseIncomplete_def)
  next
    case True
    have t: "tokens p' = map (\<lambda>v. Some (assignString v)) ws" "\<forall>v \<in> set ws. length v < 2 ^ 32"
      "charbuf_inv (token p')" using p'(2) r by (auto simp: plex_def)
    obtain b where b: "clearCharBuf (token p') = Some b" "charbuf_inv b" "chars b = []" "csize b = csize (token p')"
      using clearCharBuf_ok [OF t(3)] by blast
    let ?p = "p'\<lparr>tokens := [], token := b, pstate := ParserStateReady\<rparr>"
    have "parseInputParser p [] = Some (lexResult (st, w, ws), ?p, [])"
      using p' plex_pstate [OF p'(2) [unfolded r]] True b t copyTokens_ok [OF t(2)]
      by (simp add: parseInputParser_def lexResult_def mkParsedCommand_def flushTokensParser_def freeTokens_ok rev_map)
    moreover have "plex L ?p (ParserStateReady, [], []) i' xs'"
      using p'(2) r b by (auto simp: plex_def)
    ultimately show ?thesis using p'(3) r True by (auto simp: lexNext_def)
  qed
qed

lemma plex_mono: "plex L p s i xs \<Longrightarrow> L \<le> M \<Longrightarrow> plex M p s i xs"
  by (auto simp: plex_def)

lemma addInputParser_ok:
  assumes "plex L p s i xs" "x \<noteq> []" "NUL \<notin> set x"
  shows "\<exists>p' i' xs'. addInputParser p x [] = Some (Some x, p', []) \<and> plex (L + length x) p' s i' xs' \<and>
           i' @ concat xs' = i @ concat xs @ x"
proof (cases "i = []")
  case True
  then have "xs = []" "\<not> lastLink p" using assms(1) by (auto simp: plex_def)
  then show ?thesis using assms True
    by (intro exI [of _ "p\<lparr>inputChain := [assignString x], input := Some x, lastLink := True\<rparr>"]
        exI [of _ x] exI [of _ "[]"])
      (auto simp: addInputParser_def mkString_def assignString_def plex_def chainText_def)
next
  case False
  then have "lastLink p" using assms(1) by (auto simp: plex_def)
  then show ?thesis using assms False
    by (intro exI [of _ "p\<lparr>inputChain := inputChain p @ [assignString x], lastLink := True\<rparr>"]
        exI [of _ i] exI [of _ "xs @ [x]"])
      (auto simp: addInputParser_def mkString_def assignString_def plex_def chainText_def)
qed

subsection \<open>Scripts of inputs and parses\<close>

datatype parse_op = Add string | Parse

fun lex_script :: "lexer \<Rightarrow> string \<Rightarrow> parse_op list \<Rightarrow> ParseResult list" where
  "lex_script s text [] = []"
| "lex_script s text (Add x # ops) = lex_script s (text @ x) ops"
| "lex_script s text (Parse # ops) =
     (let (s', rest) = run s text in lexResult s' # lex_script (lexNext s') rest ops)"

fun parse_script :: "Parser \<Rightarrow> parse_op list \<Rightarrow> ParseResult list option" where
  "parse_script p [] = Some []"
| "parse_script p (Add x # ops) = do { (_, p', _) \<leftarrow> addInputParser p x []; parse_script p' ops }"
| "parse_script p (Parse # ops) =
     do { (r, p', _) \<leftarrow> parseInputParser p []; rs \<leftarrow> parse_script p' ops; Some (r # rs) }"

fun op_ok :: "parse_op \<Rightarrow> bool" where
  "op_ok (Add x) = (x \<noteq> [] \<and> NUL \<notin> set x)"
| "op_ok Parse = True"

fun op_len :: "parse_op \<Rightarrow> nat" where
  "op_len (Add x) = length x"
| "op_len Parse = 0"

lemma run_state: "fst s \<noteq> ParserStateOperator \<Longrightarrow> fst (fst (run s t)) \<noteq> ParserStateOperator"
  by (induction s t rule: run.induct) (auto simp: feed_state)

lemma parse_script_lex:
  assumes "plex L p s i xs" "fst s \<noteq> ParserStateOperator" "\<forall>x \<in> set ops. op_ok x"
    "L + sum_list (map op_len ops) < 2 ^ 29"
  shows "parse_script p ops = Some (lex_script s (i @ concat xs) ops)"
  using assms
proof (induction ops arbitrary: L p s i xs)
  case (Cons x ops)
  show ?case
  proof (cases x)
    case (Add y)
    obtain p' i' xs' where p': "addInputParser p y [] = Some (Some y, p', [])" "plex (L + length y) p' s i' xs'"
      "i' @ concat xs' = i @ concat xs @ y"
      using addInputParser_ok [OF Cons.prems(1), of y] Cons.prems(3) Add by auto
    show ?thesis using Cons.IH [OF p'(2)] Cons.prems p'(1,3) Add by simp
  next
    case Parse
    obtain p' i' xs' where p': "parseInputParser p [] = Some (lexResult (fst (run s (i @ concat xs))), p', [])"
      "plex L p' (lexNext (fst (run s (i @ concat xs)))) i' xs'" "i' @ concat xs' = snd (run s (i @ concat xs))"
      using parseInputParser_run [OF Cons.prems(1)] Cons.prems by auto
    have "fst (lexNext (fst (run s (i @ concat xs)))) \<noteq> ParserStateOperator"
      using run_state [OF Cons.prems(2)] by (auto simp: lexNext_def)
    then show ?thesis using Cons.IH [OF p'(2)] Cons.prems p'(1,3) Parse by (simp add: split_beta)
  qed
qed simp

lemma mkParser_add:
  assumes "x \<noteq> []" "NUL \<notin> set x"
  shows "\<exists>p0 p. mkParser [] = Some (Valid p0, []) \<and> addInputParser p0 x [] = Some (Some x, p, []) \<and>
           plex (length x) p (ParserStateReady, [], []) x []"
  using assms
  by (auto simp: mkParser_def mkCharBuf_def addInputParser_def mkString_def plex_def charbuf_inv_def chars_def
      chainText_def)

subsection \<open>Quoting\<close>

definition quote :: "string \<Rightarrow> string" where
  "quote w = CHR 0x22 # concat (map (\<lambda>c. if c = CHR 0x22 \<or> c = CHR 0x5C then [CHR 0x5C, c] else [c]) w) @ [CHR 0x22]"

definition commandLine :: "string list \<Rightarrow> string" where
  "commandLine ws = concat (map (\<lambda>w. quote w @ '' '') ws) @ [CHR 0x0A]"

lemma run_quote_body:
  "run (ParserStateQuotation, v, ws)
     (concat (map (\<lambda>c. if c = CHR 0x22 \<or> c = CHR 0x5C then [CHR 0x5C, c] else [c]) w) @ t) =
   run (ParserStateQuotation, v @ w, ws) t"
  by (induction w arbitrary: v) (auto simp: unescape_def)

lemma run_quote:
  "w \<noteq> [] \<Longrightarrow> run (ParserStateReady, [], ws) (quote w @ CHR '' '' # t) = run (ParserStateReady, [], w # ws) t"
  using run_quote_body [of "[]" ws w "CHR 0x22 # CHR '' '' # t"]
  by (simp add: quote_def inReady_def inWord_def isBlank_def isOperator_def flushWord_def)

lemma run_commandLine:
  "\<forall>w \<in> set ws. w \<noteq> [] \<Longrightarrow>
   run (ParserStateReady, [], vs) (commandLine ws @ t) = ((ParserStateComplete, [], rev ws @ vs), t)"
proof (induction ws arbitrary: vs)
  case Nil
  then show ?case by (cases t) (simp_all add: commandLine_def inReady_def isBlank_def isOperator_def flushWord_def)
next
  case (Cons w ws)
  then show ?case using run_quote [of w vs "commandLine ws @ t"] by (simp add: commandLine_def)
qed

lemma commandLine_ok: "\<forall>w \<in> set ws. NUL \<notin> set w \<Longrightarrow> NUL \<notin> set (commandLine ws) \<and> commandLine ws \<noteq> []"
  by (auto simp: commandLine_def quote_def split: if_splits)

subsection \<open>Properties\<close>



text \<open>
  Quoting is inverted by parsing: for every list of non-empty words, of any characters but
  \<open>NUL\<close>, the line of the words in double quotes, with quotes and backslashes escaped, parses to
  the command of exactly those words.
\<close>

theorem parse_quoted_roundtrip:
  assumes "\<forall>w \<in> set ws. w \<noteq> [] \<and> NUL \<notin> set w" and "length (commandLine ws) < 2 ^ 29"
  shows "\<exists>p0 p p'. mkParser [] = Some (Valid p0, []) \<and>
           addInputParser p0 (commandLine ws) [] = Some (Some (commandLine ws), p, []) \<and>
           parseInputParser p [] = Some (ParsedCommand (map (\<lambda>w. Some (assignString w)) ws), p', [])"
proof -
  have x: "commandLine ws \<noteq> []" "NUL \<notin> set (commandLine ws)" using commandLine_ok assms(1) by auto
  obtain p0 p where p: "mkParser [] = Some (Valid p0, [])"
    "addInputParser p0 (commandLine ws) [] = Some (Some (commandLine ws), p, [])"
    "plex (length (commandLine ws)) p (ParserStateReady, [], []) (commandLine ws) []"
    using mkParser_add [OF x] by blast
  have "run (ParserStateReady, [], []) (commandLine ws) = ((ParserStateComplete, [], rev ws), [])"
    using run_commandLine [of ws "[]" "[]"] assms(1) by simp
  then show ?thesis using parseInputParser_run [OF p(3) assms(2)] p(1,2) by (auto simp: lexResult_def)
qed

theorem parse_quoted_roundtrip_witness:
  "\<exists>p0 p p'. mkParser [] = Some (Valid p0, []) \<and>
     addInputParser p0 (commandLine [''a b'', [CHR 0x22]]) [] = Some (Some (commandLine [''a b'', [CHR 0x22]]), p, []) \<and>
     parseInputParser p [] = Some (ParsedCommand [Some (assignString ''a b''), Some (assignString [CHR 0x22])], p', [])"
  using parse_quoted_roundtrip [of "[''a b'', [CHR 0x22]]"] by (simp add: commandLine_def quote_def)

text \<open>
  An empty input string wedges the parser: once the string being read is empty and its link
  is the last of the chain, every parse is incomplete and leaves the parser as it was, and
  further input is only appended to the chain, never read.
\<close>

theorem empty_input_wedges:
  assumes "input p = Some []" and "lastLink p" and "pstate p \<noteq> ParserStateComplete"
  shows "parseInputParser p [] = Some (ParseIncomplete, p, []) \<and>
         (\<exists>p'. addInputParser p x [] = Some (Some x, p', []) \<and> input p' = Some [] \<and> lastLink p' \<and>
               parseInputParser p' [] = Some (ParseIncomplete, p', []))"
proof -
  have "parseInputParser q [] = Some (ParseIncomplete, q, [])"
    if "input q = Some []" "pstate q \<noteq> ParserStateComplete" for q
    using that by (simp add: parseInputParser_def mkParseIncomplete_def parseLoop.simps [of q])
  then show ?thesis using assms by (simp add: addInputParser_def mkString_def)
qed

theorem empty_input_wedges_witness:
  "\<exists>p0 p p'. mkParser [] = Some (Valid p0, []) \<and> addInputParser p0 '''' [] = Some (Some '''', p, []) \<and>
     addInputParser p [CHR ''l'', CHR ''s'', CHR 0x0A] [] = Some (Some [CHR ''l'', CHR ''s'', CHR 0x0A], p', []) \<and>
     parseInputParser p' [] = Some (ParseIncomplete, p', [])"
proof -
  obtain p0 p where p: "mkParser [] = Some (Valid p0, [])" "addInputParser p0 '''' [] = Some (Some '''', p, [])"
    "input p = Some []" "lastLink p" "pstate p = ParserStateReady"
    by (auto simp: mkParser_def mkCharBuf_def addInputParser_def mkString_def)
  then show ?thesis
    using empty_input_wedges [OF p(3,4), of "[CHR ''l'', CHR ''s'', CHR 0x0A]"] by auto
qed

end
