(* ===== verification/Shell.thy ===== *)
theory Shell
  imports ShellParser
begin

text \<open>
  The shell (\<open>src/src/torgo/torgo.c\<close>) and its \<open>echo\<close> command: reading a line with editing, the
  arguments of a parsed command with variables expanded, and the main loop. What the terminal
  delivers is a list of reads; what the shell does to it, and the commands it starts, are lists
  of events. \<open>kexec\<close> and \<open>kopen\<close> are system calls, parameters here.
\<close>

subsection \<open>Reading a line\<close>

text \<open>A read of one byte from the terminal, or end of file.\<close>

datatype tty_read = Got char | Eof

text \<open>
  The loop of \<open>readPromptShell\<close>; \<open>readMax\<close> is only tested, never counted down. The result is the
  buffer, what was echoed and the reads left; \<open>None\<close> also when the reads run out.
\<close>

fun readLoop :: "int \<Rightarrow> tty_read list \<Rightarrow> CharBuf \<Rightarrow> string \<Rightarrow> allocs \<Rightarrow>
    (CharBuf \<times> string \<times> tty_read list \<times> allocs) option" where
  "readLoop readMax rs buf out al =
     (if \<not> (readMax = -1 \<or> 0 < readMax) then Some (buf, out, rs, al)
      else case rs of
        [] \<Rightarrow> None
      | r # rs' \<Rightarrow>
          (let c = (case r of Eof \<Rightarrow> NUL | Got c \<Rightarrow> c) in
           if c = NUL then Some (buf, out, rs', al)
           else if c = CHR 0x7F then
             do { (d, buf') \<leftarrow> dropLastCharBuf buf;
                  readLoop readMax rs' buf' (out @ (if d \<noteq> NUL then [CHR 0x08, CHR '' '', CHR 0x08] else [CHR 0x07])) al }
           else if c = CHR 0x0D then
             do { (_, buf', al') \<leftarrow> appendCharBuf buf (CHR 0x0A) al; Some (buf', out @ [c, CHR 0x0A], rs', al') }
           else if c = CHR 0x0A then
             do { (_, buf', al') \<leftarrow> appendCharBuf buf c al; Some (buf', out @ [c], rs', al') }
           else
             do { (_, buf', al') \<leftarrow> appendCharBuf buf c al; readLoop readMax rs' buf' (out @ [c]) al' }))"

declare readLoop.simps [simp del]

definition readPromptShell :: "CharBuf \<Rightarrow> string \<Rightarrow> int \<Rightarrow> tty_read list \<Rightarrow> allocs \<Rightarrow>
    (CharBuf \<times> string \<times> tty_read list \<times> allocs) option" where
  "readPromptShell readBuf promptStr readMax rs al =
     do {
       buf \<leftarrow> clearCharBuf readBuf;
       if promptStr = [] then None
       else readLoop readMax rs buf
              (promptStr @ (if List.last promptStr \<noteq> CHR '' '' then [CHR '' ''] else [])) al
     }"

subsection \<open>The arguments of a command\<close>

definition isNameStart :: "char \<Rightarrow> bool" where
  "isNameStart c \<longleftrightarrow> c = CHR ''_'' \<or> (97 \<le> (of_char c :: nat) \<and> (of_char c :: nat) \<le> 122) \<or>
     (65 \<le> (of_char c :: nat) \<and> (of_char c :: nat) \<le> 90)"

definition isNameChar :: "char \<Rightarrow> bool" where
  "isNameChar c \<longleftrightarrow> isNameStart c \<or> (48 \<le> (of_char c :: nat) \<and> (of_char c :: nat) \<le> 57)"

text \<open>The inner loop: the name is collected in \<open>varBuilder\<close>.\<close>

fun nameLoop :: "string \<Rightarrow> CharBuf \<Rightarrow> allocs \<Rightarrow> (string \<times> CharBuf \<times> allocs) option" where
  "nameLoop [] vb al = Some ([], vb, al)"
| "nameLoop (c # s) vb al =
     (if isNameChar c then do { (_, vb', al') \<leftarrow> appendCharBuf vb c al; nameLoop s vb' al' }
      else Some (c # s, vb, al))"

lemma nameLoop_length: "nameLoop s vb al = Some (s', vb', al') \<Longrightarrow> length s' \<le> length s"
  by (induction s vb al rule: nameLoop.induct) (fastforce split: if_splits bind_splits)+

partial_function (option) tokenLoop ::
  "Env \<Rightarrow> string \<Rightarrow> CharBuf \<Rightarrow> CharBuf \<Rightarrow> allocs \<Rightarrow> (CharBuf \<times> CharBuf \<times> allocs) option" where
  "tokenLoop env s tb vb al =
     (case s of
        [] \<Rightarrow> Some (tb, vb, al)
      | c # s1 \<Rightarrow>
          if c = CHR ''$'' then
            do {
              vb1 \<leftarrow> clearCharBuf vb;
              if s1 \<noteq> [] \<and> isNameStart (hd s1) then
                do {
                  (s2, vb2, al2) \<leftarrow> nameLoop s1 vb1 al;
                  v \<leftarrow> lookupVarEnv env (assignString (fromCharBuf vb2));
                  (case v of
                     None \<Rightarrow> tokenLoop env s2 tb vb2 al2
                   | Some val \<Rightarrow>
                       do { t \<leftarrow> sstr val; (_, tb', al3) \<leftarrow> concatCharBuf tb t al2;
                            tokenLoop env s2 tb' vb2 al3 })
                }
              else tokenLoop env s1 tb vb1 al
            }
          else do { (_, tb', al') \<leftarrow> appendCharBuf tb c al; tokenLoop env s1 tb' vb al' })"

text \<open>One iteration of the \<open>for\<close> loop per token; the block of \<open>argv_[i]\<close> is zeroed.\<close>

fun argLoop ::
  "Env \<Rightarrow> String option list \<Rightarrow> CharBuf \<Rightarrow> CharBuf \<Rightarrow> allocs \<Rightarrow> (string list \<times> CharBuf \<times> CharBuf \<times> allocs) option" where
  "argLoop env [] tb vb al = Some ([], tb, vb, al)"
| "argLoop env (tok # toks) tb vb al =
     do {
       t \<leftarrow> tok;
       s \<leftarrow> sstr t;
       tb0 \<leftarrow> clearCharBuf tb;
       (tb1, vb1, al1) \<leftarrow> tokenLoop env s tb0 vb al;
       let (ok, al2) = alloc al1;
       if \<not> ok then None
       else do {
         (args, tb2, vb2, al3) \<leftarrow> argLoop env toks tb1 vb1 al2;
         Some (fromCharBuf tb1 # args, tb2, vb2, al3)
       }
     }"

definition getParseTokenIteratorParseResult :: "ParseResult \<Rightarrow> allocs \<Rightarrow> String option list option \<times> allocs" where
  "getParseTokenIteratorParseResult r al =
     (case r of ParsedCommand ts \<Rightarrow> mkParseTokenIterator ts al | _ \<Rightarrow> (None, al))"

fun valid :: "'a ptr \<Rightarrow> 'a option" where
  "valid (Valid x) = Some x"
| "valid _ = None"

text \<open>
  The result is whether the command runs in the background and the arguments. The last
  character of the last argument is read at \<open>strlen - 1\<close>, before the block when it is empty.
\<close>

definition populateCmdArgsShell :: "Env \<Rightarrow> ParseResult \<Rightarrow> allocs \<Rightarrow> (bool \<times> string list \<times> allocs) option" where
  "populateCmdArgsShell env result al =
     (let n = getLengthParseResult result;
          (ok, al1) = alloc al;
          (it, al2) = getParseTokenIteratorParseResult result al1;
          (tb, al3) = mkCharBuf 32 al2;
          (vb, al4) = mkCharBuf 32 al3
      in do {
        tb0 \<leftarrow> valid tb;
        vb0 \<leftarrow> valid vb;
        if n = 0 then Some (False, [], al4)
        else do {
          toks \<leftarrow> it;
          if \<not> ok then None
          else do {
            (args, _, _, al5) \<leftarrow> argLoop env toks tb0 vb0 al4;
            let lastArg = List.last args;
            if lastArg = [] then None
            else if List.last lastArg = CHR ''&'' then Some (True, butlast args @ [butlast lastArg], al5)
            else Some (False, args, al5)
          }
        }
      })"

subsection \<open>The main loop\<close>

datatype ShellState = ShellStateRun | ShellStateEOF | ShellStateExit

record Shell =
  env :: Env
  parser :: Parser
  readBuf :: CharBuf
  shstate :: ShellState

text \<open>
  \<open>mkShell\<close> when its allocations succeed; the failure paths free the parts that are still
  \<open>NULL\<close>, which dereferences them.
\<close>

definition mkShell :: "allocs \<Rightarrow> (Shell option \<times> allocs) option" where
  "mkShell al =
     (let (ok, al1) = alloc al in
      if \<not> ok then Some (None, al1)
      else do {
        (e, al2) \<leftarrow> mkEnv al1;
        (pp, al3) \<leftarrow> mkParser al2;
        p \<leftarrow> valid pp;
        let (bb, al4) = mkCharBuf 32 al3;
        b \<leftarrow> valid bb;
        Some (Some \<lparr>env = e, parser = p, readBuf = b, shstate = ShellStateRun\<rparr>, al4)
      })"

text \<open>What the shell does: text to the terminal, a command started (its arguments), a wait.\<close>

datatype shell_event = Out string | Exec "string list" | Wait int

text \<open>The inner loop: commands are executed as long as input is unparsed. The flag is the prompt.\<close>

partial_function (option) commandLoop ::
  "(string list \<Rightarrow> int) \<Rightarrow> Shell \<Rightarrow> bool \<Rightarrow> shell_event list \<Rightarrow> allocs \<Rightarrow> (Shell \<times> bool \<times> shell_event list \<times> allocs) option" where
  "commandLoop kexec sh cont ev al =
     (if hasUnparsedInputParser (parser sh) then
        do {
          (r, p, al1) \<leftarrow> parseInputParser (parser sh) al;
          if isCompleteParseResult r then
            do {
              (bg, args, al2) \<leftarrow> populateCmdArgsShell (env sh) r al1;
              let pid = kexec args;
              _ \<leftarrow> freeParseResult r;
              commandLoop kexec (sh\<lparr>parser := p\<rparr>) False
                (ev @ [Exec args] @ (if 0 < pid \<and> \<not> bg then [Wait pid] else [])) al2
            }
          else do { _ \<leftarrow> freeParseResult r; commandLoop kexec (sh\<lparr>parser := p\<rparr>) True ev al1 }
        }
      else Some (sh, cont, ev, al))"

text \<open>\<open>torgo_main\<close> after its banner, as long as there are reads.\<close>

partial_function (option) shellLoop ::
  "(string list \<Rightarrow> int) \<Rightarrow> Shell \<Rightarrow> bool \<Rightarrow> tty_read list \<Rightarrow> shell_event list \<Rightarrow> allocs \<Rightarrow>
   (Shell \<times> tty_read list \<times> shell_event list) option" where
  "shellLoop kexec sh cont rs ev al =
     (if shstate sh \<noteq> ShellStateRun then Some (sh, rs, ev)
      else do {
        (buf, out, rs1, al1) \<leftarrow> readPromptShell (readBuf sh) (if cont then ''> '' else ''torgo > '') 32 rs al;
        let sh1 = sh\<lparr>readBuf := buf\<rparr>;
        if isEmptyCharBuf buf then
          Some (sh1\<lparr>shstate := ShellStateEOF\<rparr>, rs1,
                ev @ [Out out] @
                (if hasUnparsedInputParser (parser sh1)
                 then [Out (''error: unexpected end-of-file'' @ [CHR 0x0A])] else []) @
                [Out [CHR 0x0A]])
        else do {
          (_, p, al2) \<leftarrow> addInputParser (parser sh1) (fromCharBuf buf) al1;
          (sh2, cont', ev', al3) \<leftarrow> commandLoop kexec (sh1\<lparr>parser := p\<rparr>) cont (ev @ [Out out]) al2;
          shellLoop kexec sh2 cont' rs1 ev' al3
        }
      })"

subsection \<open>The \<open>echo\<close> command\<close>

text \<open>
  The search for a redirection, from argument \<open>i\<close> on: the number of arguments to print and the
  file, \<open>None\<close> for a bad redirection.
\<close>

fun redirection :: "nat \<Rightarrow> string list \<Rightarrow> nat \<Rightarrow> (nat \<times> string option) option" where
  "redirection i [] argc = Some (argc, None)"
| "redirection i (a # as) argc =
     (if a \<noteq> [] \<and> hd a = CHR ''>'' then
        (if tl a \<noteq> [] then Some (i, Some (tl a))
         else case as of b # _ \<Rightarrow> Some (i, Some b) | [] \<Rightarrow> None)
      else redirection (i + 1) as argc)"

text \<open>The writes to the terminal or to the opened file, and the result.\<close>

datatype echo_write = ToTty string | ToFile int string

definition cmdEcho__Main :: "(string \<Rightarrow> int) \<Rightarrow> string list \<Rightarrow> int \<times> echo_write list" where
  "cmdEcho__Main kopen argv =
     (case redirection 1 (tl argv) (length argv) of
        None \<Rightarrow> (-1, [ToTty (''Bad Redirection'' @ [CHR 0x0A])])
      | Some (k, out) \<Rightarrow>
          (let text = (let words = take (k - 1) (tl argv) in
                       concat (map (\<lambda>(i, w). (if i = 0 then [] else '' '') @ w) (zip [0 ..< length words] words)) @ [CHR 0x0A])
           in case out of
                None \<Rightarrow> (0, [ToTty text])
              | Some path \<Rightarrow>
                  (let fd = kopen path in
                   if fd < 0 then (-1, [ToTty (''Cannot write to '' @ path @ [CHR 0x0A])])
                   else (0, [ToFile fd text]))))"

subsection \<open>What the arguments expand to\<close>

definition valueOf :: "Env \<Rightarrow> string \<Rightarrow> string" where
  "valueOf e n =
     (case lookupVarEnv e (assignString n) of Some (Some v) \<Rightarrow> (case sstr v of Some t \<Rightarrow> t | None \<Rightarrow> []) | _ \<Rightarrow> [])"

function expandText :: "Env \<Rightarrow> string \<Rightarrow> string" where
  "expandText e [] = []"
| "expandText e (c # s) =
     (if c \<noteq> CHR ''$'' then c # expandText e s
      else if s \<noteq> [] \<and> isNameStart (hd s)
      then valueOf e (takeWhile isNameChar s) @ expandText e (dropWhile isNameChar s)
      else expandText e s)"
  by pat_completeness auto
termination by (relation "measure (\<lambda>(e, s). length s)") (auto simp: length_dropWhile_le le_imp_less_Suc)

text \<open>Buffers whose size the total text bounds.\<close>

definition buf_ok :: "nat \<Rightarrow> CharBuf \<Rightarrow> bool" where
  "buf_ok L b \<longleftrightarrow> charbuf_inv b \<and> unat (csize b) \<le> 33 + 3 * L \<and> NUL \<notin> set (chars b)"

lemma concat_buf:
  assumes "buf_ok L b" "length (chars b) + length s \<le> L" "L < 2 ^ 28" "NUL \<notin> set s"
  shows "\<exists>b'. concatCharBuf b s [] = Some (True, b', []) \<and> buf_ok L b' \<and> chars b' = chars b @ s"
proof -
  have used: "length (chars b) = unat (cused b)"
    using assms(1) by (auto simp: buf_ok_def chars_def charbuf_inv_def word_less_nat_alt)
  have sz: "2 * unat (csize b) + length s < 2 ^ 32" using assms by (auto simp: buf_ok_def)
  obtain b' where b': "concatCharBuf b s [] = Some (True, b', [])" "charbuf_inv b'" "chars b' = chars b @ s"
    "unat (csize b') \<le> 2 * unat (csize b) + length s"
    "csize b' = csize b \<or> unat (csize b) \<le> unat (cused b) + length s"
    using concatCharBuf_ok [of b s] sz assms(1) by (auto simp: buf_ok_def)
  have "unat (csize b') \<le> 33 + 3 * L" using b'(4,5) used assms(1,2) by (auto simp: buf_ok_def)
  then show ?thesis using b' assms by (auto simp: buf_ok_def)
qed

lemma append_buf:
  assumes "buf_ok L b" "length (chars b) < L" "L < 2 ^ 28" "c \<noteq> NUL"
  shows "\<exists>b'. appendCharBuf b c [] = Some (c, b', []) \<and> buf_ok L b' \<and> chars b' = chars b @ [c]"
  using concat_buf [of L b "[c]"] assms by (auto simp: appendCharBuf_def)

lemma clear_buf:
  "buf_ok L b \<Longrightarrow> \<exists>b'. clearCharBuf b = Some b' \<and> buf_ok L b' \<and> chars b' = []"
  using clearCharBuf_ok [of b] by (auto simp: buf_ok_def)

lemma from_buf: "buf_ok L b \<Longrightarrow> fromCharBuf b = chars b"
  by (simp add: buf_ok_def fromCharBuf_chars)

lemma new_buf: "\<exists>b. mkCharBuf 32 [] = (Valid b, []) \<and> buf_ok L b \<and> chars b = []"
  by (simp add: mkCharBuf_def buf_ok_def charbuf_inv_def chars_def)

lemma nameLoop_takes:
  assumes "buf_ok L vb" "length (chars vb) + length s \<le> L" "L < 2 ^ 28" "NUL \<notin> set s"
  shows "\<exists>vb'. nameLoop s vb [] = Some (dropWhile isNameChar s, vb', []) \<and> buf_ok L vb' \<and>
           chars vb' = chars vb @ takeWhile isNameChar s"
  using assms
proof (induction s arbitrary: vb)
  case (Cons c s)
  show ?case
  proof (cases "isNameChar c")
    case True
    obtain b where b: "appendCharBuf vb c [] = Some (c, b, [])" "buf_ok L b" "chars b = chars vb @ [c]"
      using append_buf [of L vb c] Cons.prems by auto
    then show ?thesis using Cons.IH [of b] Cons.prems True by auto
  qed (use Cons.prems in auto)
qed auto

definition env_plain :: "Env \<Rightarrow> bool" where
  "env_plain e \<longleftrightarrow> (\<forall>v \<in> set e. \<exists>n x w y. vname v = Some n \<and> str_is n x \<and> vvalue v = Some w \<and> str_is w y \<and> NUL \<notin> set y)"

lemma lookup_plain:
  assumes "env_plain e" "length n < 2 ^ 32"
  shows "lookupVarEnv e (assignString n) = Some None \<or>
         (\<exists>v y. lookupVarEnv e (assignString n) = Some (Some v) \<and> sstr v = Some y \<and> NUL \<notin> set y)"
  using assms
proof (induction e)
  case (Cons v e)
  then obtain m x w y where v: "vname v = Some m" "str_is m x" "vvalue v = Some w" "str_is w y" "NUL \<notin> set y"
    by (auto simp: env_plain_def)
  have "str_is (assignString n) n" using Cons.prems by (simp add: str_is_def assignString_def)
  from matchString_eq [OF v(2) this] v Cons show ?case by (auto simp: env_plain_def str_is_def)
qed simp

lemma tokenLoop_expands:
  assumes "env_plain e" "buf_ok L tb" "buf_ok L vb" "NUL \<notin> set s" "L < 2 ^ 28"
    "length (chars tb) + length (expandText e s) \<le> L" "length s \<le> L"
  shows "\<exists>tb' vb'. tokenLoop e s tb vb [] = Some (tb', vb', []) \<and> buf_ok L tb' \<and> buf_ok L vb' \<and>
           chars tb' = chars tb @ expandText e s"
  using assms
proof (induction "length s" arbitrary: s tb vb rule: less_induct)
  case less
  show ?case
  proof (cases s)
    case Nil
    then show ?thesis using less.prems by (subst tokenLoop.simps) simp
  next
    case (Cons c s1)
    show ?thesis
    proof (cases "c = CHR ''$''")
      case False
      obtain b where b: "appendCharBuf tb c [] = Some (c, b, [])" "buf_ok L b" "chars b = chars tb @ [c]"
        using append_buf [of L tb c] less.prems Cons False by auto
      obtain tb' vb' where "tokenLoop e s1 b vb [] = Some (tb', vb', [])" "buf_ok L tb'" "buf_ok L vb'"
        "chars tb' = chars b @ expandText e s1"
        using less.hyps [of s1 b vb] less.prems Cons b False by auto
      then show ?thesis using Cons False b by (subst tokenLoop.simps) simp
    next
      case True
      obtain v1 where v1: "clearCharBuf vb = Some v1" "buf_ok L v1" "chars v1 = []"
        using clear_buf less.prems(3) by blast
      show ?thesis
      proof (cases "s1 \<noteq> [] \<and> isNameStart (hd s1)")
        case False
        obtain tb' vb' where "tokenLoop e s1 tb v1 [] = Some (tb', vb', [])" "buf_ok L tb'" "buf_ok L vb'"
          "chars tb' = chars tb @ expandText e s1"
          using less.hyps [of s1 tb v1] less.prems Cons v1 True False by auto
        then show ?thesis using Cons True False v1 by (subst tokenLoop.simps) auto
      next
        case name: True
        let ?n = "takeWhile isNameChar s1" and ?r = "dropWhile isNameChar s1"
        obtain v2 where v2: "nameLoop s1 v1 [] = Some (?r, v2, [])" "buf_ok L v2" "chars v2 = ?n"
          using nameLoop_takes [of L v1 s1] v1 less.prems Cons by auto
        have len: "length ?r \<le> length s1" "length ?n \<le> length s1" "length ?r < length s"
          using length_dropWhile_le [of isNameChar s1] length_takeWhile_le [of isNameChar s1] Cons by auto
        have from_n: "fromCharBuf v2 = ?n" using from_buf [OF v2(2)] v2(3) by simp
        have nul: "NUL \<notin> set ?r" using less.prems(4) Cons by (auto dest: set_dropWhileD)
        have ex: "expandText e s = valueOf e ?n @ expandText e ?r" using Cons True name by simp
        have lk: "lookupVarEnv e (assignString ?n) = Some None \<or>
            (\<exists>v y. lookupVarEnv e (assignString ?n) = Some (Some v) \<and> sstr v = Some y \<and> NUL \<notin> set y)"
          using lookup_plain [OF less.prems(1), of ?n] len less.prems Cons by simp
        then show ?thesis
        proof
          assume l: "lookupVarEnv e (assignString ?n) = Some None"
          then have "valueOf e ?n = []" by (simp add: valueOf_def)
          then obtain tb' vb' where "tokenLoop e ?r tb v2 [] = Some (tb', vb', [])" "buf_ok L tb'" "buf_ok L vb'"
            "chars tb' = chars tb @ expandText e ?r"
            using less.hyps [of ?r tb v2] less.prems Cons v2 len nul ex by auto
          then show ?thesis using Cons True name v1 v2(1) from_n l ex \<open>valueOf e ?n = []\<close>
            by (subst tokenLoop.simps) simp
        next
          assume "\<exists>v y. lookupVarEnv e (assignString ?n) = Some (Some v) \<and> sstr v = Some y \<and> NUL \<notin> set y"
          then obtain v y where l: "lookupVarEnv e (assignString ?n) = Some (Some v)" "sstr v = Some y" "NUL \<notin> set y"
            by blast
          then have val: "valueOf e ?n = y" by (simp add: valueOf_def)
          obtain b where b: "concatCharBuf tb y [] = Some (True, b, [])" "buf_ok L b" "chars b = chars tb @ y"
            using concat_buf [of L tb y] less.prems ex val l(3) by auto
          obtain tb' vb' where "tokenLoop e ?r b v2 [] = Some (tb', vb', [])" "buf_ok L tb'" "buf_ok L vb'"
            "chars tb' = chars b @ expandText e ?r"
            using less.hyps [of ?r b v2] less.prems Cons v2 len nul ex val b by auto
          then show ?thesis using Cons True name v1 v2(1) from_n l b ex val
            by (subst tokenLoop.simps) simp
        qed
      qed
    qed
  qed
qed

lemma argLoop_expands:
  assumes "env_plain e" "L < 2 ^ 28"
  shows "\<forall>w \<in> set ws. NUL \<notin> set w \<and> length w \<le> L \<and> length (expandText e w) \<le> L \<Longrightarrow> buf_ok L tb \<Longrightarrow> buf_ok L vb \<Longrightarrow>
    \<exists>tb' vb'. argLoop e (map (\<lambda>w. Some (assignString w)) ws) tb vb [] = Some (map (expandText e) ws, tb', vb', [])"
proof (induction ws arbitrary: tb vb)
  case (Cons w ws)
  obtain b where b: "clearCharBuf tb = Some b" "buf_ok L b" "chars b = []" using clear_buf Cons.prems(2) by blast
  obtain tb' vb' where t: "tokenLoop e w b vb [] = Some (tb', vb', [])" "buf_ok L tb'" "buf_ok L vb'"
    "chars tb' = expandText e w"
    using tokenLoop_expands [OF assms(1) b(2) Cons.prems(3), of w] Cons.prems b assms(2) by auto
  then show ?case using Cons.IH [of tb' vb'] Cons.prems b from_buf [OF t(2)] by (auto simp: assignString_def)
qed simp

lemma populate_args:
  assumes "env_plain e" and "ws \<noteq> []" and "L < 2 ^ 28"
    and "\<forall>w \<in> set ws. NUL \<notin> set w \<and> length w \<le> L \<and> length (expandText e w) \<le> L"
  shows "populateCmdArgsShell e (ParsedCommand (map (\<lambda>w. Some (assignString w)) ws)) [] =
    (let args = map (expandText e) ws; lastArg = List.last args in
     if lastArg = [] then None
     else if List.last lastArg = CHR ''&'' then Some (True, butlast args @ [butlast lastArg], [])
     else Some (False, args, []))"
proof -
  obtain b where b: "mkCharBuf 32 [] = (Valid b, [])" "buf_ok L b" using new_buf by blast
  obtain tb vb where "argLoop e (map (\<lambda>w. Some (assignString w)) ws) b b [] = Some (map (expandText e) ws, tb, vb, [])"
    using argLoop_expands [OF assms(1,3,4) b(2,2)] by blast
  then show ?thesis using assms(2) b(1)
    by (simp add: populateCmdArgsShell_def getParseTokenIteratorParseResult_def mkParseTokenIterator_def Let_def)
qed

subsection \<open>A session\<close>

definition typable :: "char \<Rightarrow> bool" where
  "typable c \<longleftrightarrow> c \<noteq> NUL \<and> c \<noteq> CHR 0x7F \<and> c \<noteq> CHR 0x0D \<and> c \<noteq> CHR 0x0A"

lemma readLoop_line:
  assumes "\<forall>c \<in> set t. typable c" "buf_ok L buf" "length (chars buf) + length t < L" "L < 2 ^ 28"
  shows "\<exists>buf'. readLoop 32 (map Got (t @ [CHR 0x0A]) @ rs) buf out [] = Some (buf', out @ t @ [CHR 0x0A], rs, []) \<and>
           buf_ok L buf' \<and> chars buf' = chars buf @ t @ [CHR 0x0A]"
  using assms
proof (induction t arbitrary: buf out)
  case Nil
  obtain b where "appendCharBuf buf (CHR 0x0A) [] = Some (CHR 0x0A, b, [])" "buf_ok L b" "chars b = chars buf @ [CHR 0x0A]"
    using append_buf [of L buf "CHR 0x0A"] Nil by auto
  then show ?case by (simp add: readLoop.simps [of 32 "Got (CHR 0x0A) # rs"])
next
  case (Cons c t)
  have c: "c \<noteq> NUL" "c \<noteq> CHR 0x7F" "c \<noteq> CHR 0x0D" "c \<noteq> CHR 0x0A" using Cons.prems(1) by (auto simp: typable_def)
  obtain b where b: "appendCharBuf buf c [] = Some (c, b, [])" "buf_ok L b" "chars b = chars buf @ [c]"
    using append_buf [of L buf c] Cons.prems c by auto
  obtain b' where "readLoop 32 (map Got (t @ [CHR 0x0A]) @ rs) b (out @ [c]) [] = Some (b', (out @ [c]) @ t @ [CHR 0x0A], rs, [])"
    "buf_ok L b'" "chars b' = chars b @ t @ [CHR 0x0A]"
    using Cons.IH [of b "out @ [c]"] Cons.prems b by auto
  then show ?case using b c by (simp add: readLoop.simps [of 32 "Got c # map Got t @ Got (CHR 0x0A) # rs"])
qed

lemma expandText_plain: "CHR ''$'' \<notin> set s \<Longrightarrow> expandText e s = s"
  by (induction s) auto

lemma commandLine_typable:
  "\<forall>w \<in> set ws. \<forall>c \<in> set w. typable c \<Longrightarrow>
   \<exists>t. commandLine ws = t @ [CHR 0x0A] \<and> (\<forall>c \<in> set t. typable c)"
  by (intro exI [of _ "concat (map (\<lambda>w. quote w @ '' '') ws)"])
    (auto simp: commandLine_def quote_def typable_def split: if_splits)

definition word_ok :: "string \<Rightarrow> bool" where
  "word_ok w \<longleftrightarrow> w \<noteq> [] \<and> (\<forall>c \<in> set w. typable c) \<and> CHR ''$'' \<notin> set w"

lemma length_commandLine_word: "w \<in> set ws \<Longrightarrow> length w < length (commandLine ws)"
proof (induction ws)
  case (Cons v ws)
  have "length v \<le> length (concat (map (\<lambda>c. if c = CHR 0x22 \<or> c = CHR 0x5C then [CHR 0x5C, c] else [c]) v))"
    by (induction v) auto
  then show ?case using Cons by (auto simp: commandLine_def quote_def)
qed simp

lemma mkShell_new:
  "\<exists>p0 b. mkShell [] = Some (Some \<lparr>env = [], parser = p0, readBuf = b, shstate = ShellStateRun\<rparr>, []) \<and>
     mkParser [] = Some (Valid p0, []) \<and> buf_ok L b"
proof -
  obtain b where "mkCharBuf 32 [] = (Valid b, [])" "buf_ok L b" using new_buf by blast
  then show ?thesis by (auto simp: mkShell_def mkEnv_def mkParser_def)
qed

lemma readPrompt_line:
  assumes "\<forall>c \<in> set t. typable c" "buf_ok L b" "length t < L" "L < 2 ^ 28"
  shows "\<exists>b'. readPromptShell b ''torgo > '' 32 (map Got (t @ [CHR 0x0A]) @ rs) [] =
      Some (b', ''torgo > '' @ t @ [CHR 0x0A], rs, []) \<and> buf_ok L b' \<and> chars b' = t @ [CHR 0x0A]"
proof -
  obtain b0 where b0: "clearCharBuf b = Some b0" "buf_ok L b0" "chars b0 = []" using clear_buf assms(2) by blast
  then show ?thesis using readLoop_line [OF assms(1) b0(2) _ assms(4), of rs "''torgo > ''"] assms(3)
    by (auto simp: readPromptShell_def)
qed

lemma readPrompt_eof:
  assumes "buf_ok L b"
  shows "\<exists>b'. readPromptShell b ''torgo > '' 32 [Eof] [] = Some (b', ''torgo > '', [], []) \<and> isEmptyCharBuf b'"
proof -
  obtain b0 where b0: "clearCharBuf b = Some b0" "chars b0 = []" using clear_buf assms by blast
  moreover have "isEmptyCharBuf b0" using b0 by (auto simp: clearCharBuf_def isEmptyCharBuf_def split: bind_splits)
  ultimately show ?thesis by (auto simp: readPromptShell_def readLoop.simps)
qed

lemma commandLoop_one:
  assumes p: "plex L p (ParserStateReady, [], []) (commandLine ws) []" "L < 2 ^ 28"
    and ws: "ws \<noteq> []" "\<forall>w \<in> set ws. word_ok w" "List.last (List.last ws) \<noteq> CHR ''&''"
    and sh: "parser sh = p" "env sh = []"
  shows "\<exists>p'. commandLoop kexec sh cont ev [] =
      Some (sh\<lparr>parser := p'\<rparr>, False, ev @ Exec ws # (if 0 < kexec ws then [Wait (kexec ws)] else []), []) \<and>
      \<not> hasUnparsedInputParser p'"
proof -
  have nul: "\<forall>w \<in> set ws. w \<noteq> [] \<and> NUL \<notin> set w" using ws(2) by (auto simp: word_ok_def typable_def)
  have run: "run (ParserStateReady, [], []) (commandLine ws) = ((ParserStateComplete, [], rev ws), [])"
    using run_commandLine [of ws "[]" "[]"] nul by simp
  obtain p' i' xs' where p': "parseInputParser p [] = Some (ParsedCommand (map (\<lambda>w. Some (assignString w)) ws), p', [])"
    "plex L p' (ParserStateReady, [], []) i' xs'" "i' @ concat xs' = []"
    using parseInputParser_run [OF p(1)] p(2) run by (auto simp: lexResult_def lexNext_def)
  have finished: "\<not> hasUnparsedInputParser p'" using p'(2,3) by (auto simp: hasUnparsedInputParser_def plex_def)
  have more: "hasUnparsedInputParser p"
    using p(1) by (auto simp: hasUnparsedInputParser_def plex_def commandLine_def)
  have ex: "map (expandText []) ws = ws" using ws(2) by (auto simp: word_ok_def expandText_plain intro: map_idI)
  have exw: "w \<in> set ws \<Longrightarrow> expandText [] w = w" for w using ws(2) by (auto simp: word_ok_def expandText_plain)
  have len: "w \<in> set ws \<Longrightarrow> length w \<le> L" for w
    using length_commandLine_word [of w ws] p(1) by (force simp: plex_def)
  have "List.last ws \<noteq> []" using ws(1,2) by (auto simp: word_ok_def)
  then have pop: "populateCmdArgsShell [] (ParsedCommand (map (\<lambda>w. Some (assignString w)) ws)) [] = Some (False, ws, [])"
    using populate_args [of "[]" ws L] ws nul ex exw len p(2) by (simp add: env_plain_def Let_def)
  have fin: "commandLoop kexec (sh\<lparr>parser := p'\<rparr>) c e a = Some (sh\<lparr>parser := p'\<rparr>, c, e, a)" for c e a
    using finished by (subst commandLoop.simps) simp
  show ?thesis
    by (subst commandLoop.simps) (use more p'(1) pop fin sh finished in \<open>auto simp: Let_def freeTokens_ok\<close>)
qed

subsection \<open>Properties\<close>



text \<open>
  The arguments of a command are its tokens with the variables expanded, and the last
  argument's final \<open>&\<close> is cut and reported as background; when the last argument expands to the
  empty string, the character before its block is read.
\<close>

theorem populateCmdArgs_expands:
  assumes "env_plain e" and "ws \<noteq> []" and "L < 2 ^ 28"
    and "\<forall>w \<in> set ws. NUL \<notin> set w \<and> length w \<le> L \<and> length (expandText e w) \<le> L"
  shows "populateCmdArgsShell e (ParsedCommand (map (\<lambda>w. Some (assignString w)) ws)) [] =
    (let args = map (expandText e) ws; lastArg = List.last args in
     if lastArg = [] then None
     else if List.last lastArg = CHR ''&'' then Some (True, butlast args @ [butlast lastArg], [])
     else Some (False, args, []))"
  by (rule populate_args [OF assms])

theorem populateCmdArgs_expands_witness:
  "populateCmdArgsShell [] (ParsedCommand (map (\<lambda>w. Some (assignString w)) [''ls'', ''$HOME''])) [] = None"
proof -
  have "expandText [] ''$HOME'' = ''''"
    by (simp add: valueOf_def isNameStart_def isNameChar_def)
  moreover have "expandText [] ''ls'' = ''ls''" by simp
  ultimately show ?thesis
    using populateCmdArgs_expands [of "[]" "[''ls'', ''$HOME'']" 10]
    by (simp add: env_plain_def Let_def del: expandText.simps)
qed

end
