(* ===== verification/KMem.thy ===== *)
theory KMem
  imports ManosPrelude
begin

text \<open>
  The memory the kernel allocator works on, and the kernel's \<open>memset\<close>
  (\<open>kmalloc/memset.c\<close>). Memory is a map from byte addresses to bytes; 32- and 64-bit
  accesses are little endian, as on the K70. Addresses are naturals: the allocator's memory
  lies below \<open>2 ^ 32\<close>, so no address the proofs use wraps.
  The lemmas give the read-after-write rules of aligned accesses and show that the
  vectorised \<open>kmemset\<close> fills exactly the bytes it is asked to.
\<close>

type_synonym Ram = "nat \<Rightarrow> u8"

definition store8 :: "nat \<Rightarrow> u8 \<Rightarrow> Ram \<Rightarrow> Ram" where
  "store8 a v m = m(a := v)"

definition load32 :: "Ram \<Rightarrow> nat \<Rightarrow> u32" where
  "load32 m a = ucast (m a) OR push_bit 8 (ucast (m (a + 1)))
     OR push_bit 16 (ucast (m (a + 2))) OR push_bit 24 (ucast (m (a + 3)))"

definition store32 :: "nat \<Rightarrow> u32 \<Rightarrow> Ram \<Rightarrow> Ram" where
  "store32 a v m = m(a := ucast v, a + 1 := ucast (drop_bit 8 v),
     a + 2 := ucast (drop_bit 16 v), a + 3 := ucast (drop_bit 24 v))"

definition store64 :: "nat \<Rightarrow> u64 \<Rightarrow> Ram \<Rightarrow> Ram" where
  "store64 a v m = store32 (a + 4) (ucast (drop_bit 32 v)) (store32 a (ucast v) m)"

subsection \<open>kmemset\<close>

text \<open>The closing loop: 32 bytes a turn while at least 32 are left.\<close>

function kmemsetLoop :: "u64 \<Rightarrow> nat \<Rightarrow> nat \<Rightarrow> Ram \<Rightarrow> Ram" where
  "kmemsetLoop c64 s n m =
     (if 32 \<le> n
      then kmemsetLoop c64 (s + 32) (n - 32)
             (store64 (s + 24) c64 (store64 (s + 16) c64 (store64 (s + 8) c64 (store64 s c64 m))))
      else m)"
  by pat_completeness auto
termination by (relation "measure (\<lambda>(c64, s, n, m). n)") auto

declare kmemsetLoop.simps [simp del]

text \<open>The word-wise part, from an address and a length that are multiples of four.\<close>

definition kmemsetWords :: "u32 \<Rightarrow> nat \<Rightarrow> nat \<Rightarrow> Ram \<Rightarrow> Ram" where
  "kmemsetWords c32 s n m =
     (let m = store32 (s + n - 4) c32 (store32 s c32 m) in
      if n \<le> 8 then m else
      let m = store32 (s + n - 8) c32 (store32 (s + n - 12) c32
                (store32 (s + 8) c32 (store32 (s + 4) c32 m))) in
      if n \<le> 24 then m else
      let m = store32 (s + 24) c32 (store32 (s + 20) c32
                (store32 (s + 16) c32 (store32 (s + 12) c32 m)));
          m = store32 (s + n - 16) c32 (store32 (s + n - 20) c32
                (store32 (s + n - 24) c32 (store32 (s + n - 28) c32 m)));
          k = 24 + (s AND 4);
          c64 = ucast c32 OR push_bit 32 (ucast c32)
      in kmemsetLoop c64 (s + k) (n - k) m)"

definition kmemset :: "nat \<Rightarrow> u32 \<Rightarrow> nat \<Rightarrow> Ram \<Rightarrow> Ram" where
  "kmemset dest c n m =
     (let b = ucast c in
      if n = 0 then m else
      let m = store8 dest b (store8 (dest + n - 1) b m) in
      if n \<le> 2 then m else
      let m = store8 (dest + 1) b (store8 (dest + n - 2) b m);
          m = store8 (dest + 2) b (store8 (dest + n - 3) b m) in
      if n \<le> 6 then m else
      let m = store8 (dest + 3) b (store8 (dest + n - 4) b m) in
      if n \<le> 8 then m else
      let k = unat (- (of_nat dest :: u32) AND 3);
          s = dest + k;
          n = 4 * ((n - k) div 4);
          c32 = (- 1 div 255) * ucast b
      in kmemsetWords c32 s n m)"

subsection \<open>Reads after writes\<close>

lemma bytes_join32:
  fixes v :: u32
  shows "ucast (ucast v :: u8) OR push_bit 8 (ucast (ucast (drop_bit 8 v) :: u8))
     OR push_bit 16 (ucast (ucast (drop_bit 16 v) :: u8))
     OR push_bit 24 (ucast (ucast (drop_bit 24 v) :: u8)) = v"
proof (rule bit_word_eqI, goal_cases)
  case (1 i)
  then consider "i < 8" | "8 \<le> i" "i < 16" | "16 \<le> i" "i < 24" | "24 \<le> i" "i < 32" by fastforce
  then show ?case by cases (auto simp: bit_simps)
qed

lemma load32_store32_same [simp]: "load32 (store32 a v m) a = v"
  by (simp add: load32_def store32_def bytes_join32)

lemma load32_store32_other [simp]:
  "a + 4 \<le> b \<or> b + 4 \<le> a \<Longrightarrow> load32 (store32 a v m) b = load32 m b"
  by (auto simp: load32_def store32_def)

lemma load32_store32_aligned:
  assumes "4 dvd a" "4 dvd b"
  shows "load32 (store32 a v m) b = (if a = b then v else load32 m b)"
proof (cases "a = b")
  case False
  with assms have "a + 4 \<le> b \<or> b + 4 \<le> a" by (auto elim!: dvdE)
  with False show ?thesis by simp
qed simp

lemma store32_byte_other [simp]:
  "x < a \<or> a + 4 \<le> x \<Longrightarrow> store32 a v m x = m x"
  by (auto simp: store32_def)

lemma load32_store8_other [simp]:
  "x < a \<or> a + 4 \<le> x \<Longrightarrow> load32 (store8 x v m) a = load32 m a"
  by (auto simp: load32_def store8_def)

lemma load32_cong:
  "(\<And>x. a \<le> x \<Longrightarrow> x < a + 4 \<Longrightarrow> m x = m' x) \<Longrightarrow> load32 m a = load32 m' a"
  by (simp add: load32_def)

subsection \<open>Filling\<close>

definition fillSet :: "nat set \<Rightarrow> u8 \<Rightarrow> Ram \<Rightarrow> Ram" where
  "fillSet S b m = (\<lambda>x. if x \<in> S then b else m x)"

lemma fillSet_fillSet: "fillSet S b (fillSet T b m) = fillSet (S \<union> T) b m"
  by (auto simp: fillSet_def)

lemma store8_fill: "store8 a b m = fillSet {a} b m"
  by (auto simp: store8_def fillSet_def)

text \<open>A word whose four bytes are all \<open>b\<close>.\<close>

definition splat32 :: "u8 \<Rightarrow> u32" where
  "splat32 b = (- 1 div 255) * ucast b"

lemma splat32_unat: "unat (splat32 b) = 16843009 * unat b"
proof -
  have b: "unat b < 256" using unsigned_less [of b] by simp
  have "unat (ucast b :: u32) = unat b" using b by (simp add: unsigned_ucast_eq take_bit_nat_eq_self)
  moreover have "(- 1 div 255 :: u32) = 16843009" by simp
  ultimately show ?thesis using b by (simp add: splat32_def unat_word_ariths)
qed

lemma splat32_byte:
  assumes "k \<in> {0, 8, 16, 24}"
  shows "ucast (drop_bit k (splat32 b)) = b"
proof -
  have b: "unat b < 256" using unsigned_less [of b] by simp
  define n where "n = unat b"
  have n: "n < 256" using b n_def by simp
  have peel: "(n + 256 * q) mod 256 = n" "(n + 256 * q) div 256 = q" for q using n by simp_all
  have "16843009 * n = n + 256 * (n + 256 * (n + 256 * (n + 256 * 0)))" by simp
  then have "16843009 * n mod 256 = n" "16843009 * n div 256 mod 256 = n"
    "16843009 * n div 256 div 256 mod 256 = n" "16843009 * n div 256 div 256 div 256 mod 256 = n"
    using peel by metis+
  then have "16843009 * n mod 256 = n" "16843009 * n div 256 mod 256 = n"
    "16843009 * n div 65536 mod 256 = n" "16843009 * n div 16777216 mod 256 = n"
    by (simp_all add: div_mult2_eq [symmetric])
  then have "16843009 * n div 2 ^ k mod 256 = n" using assms by auto
  moreover have "unat (drop_bit k (splat32 b)) = 16843009 * n div 2 ^ k"
    unfolding unat_drop_bit_eq by (simp only: drop_bit_eq_div splat32_unat n_def)
  ultimately have "unat (ucast (drop_bit k (splat32 b)) :: u8) = unat b"
    by (simp add: unsigned_ucast_eq take_bit_eq_mod n_def)
  then show ?thesis by (rule word_unat_eq_iff [THEN iffD2])
qed

lemma store32_splat: "store32 a (splat32 b) m = fillSet {a..<a + 4} b m"
proof -
  have "ucast (splat32 b) = b" "ucast (drop_bit 8 (splat32 b)) = b"
    "ucast (drop_bit 16 (splat32 b)) = b" "ucast (drop_bit 24 (splat32 b)) = b"
    using splat32_byte [of 0 b] splat32_byte [of 8 b] splat32_byte [of 16 b] splat32_byte [of 24 b]
    by simp_all
  moreover have "x = a \<or> x = a + 1 \<or> x = a + 2 \<or> x = a + 3"
    if "a \<le> x" "x < a + 4" for x using that by linarith
  ultimately show ?thesis by (auto simp: store32_def fillSet_def fun_eq_iff)
qed

lemma store64_splat:
  assumes "c64 = ucast (splat32 b) OR push_bit 32 (ucast (splat32 b))"
  shows "store64 a c64 m = fillSet {a..<a + 8} b m"
proof -
  have "ucast c64 = splat32 b"
    unfolding assms by (rule bit_word_eqI) (auto simp: bit_simps)
  moreover have "ucast (drop_bit 32 c64) = splat32 b"
  proof (unfold assms, rule bit_word_eqI, goal_cases)
    case (1 i)
    moreover have "\<not> bit (splat32 b) (32 + i)"
      using bit_imp_le_length [of "splat32 b" "32 + i"] by auto
    ultimately show ?case by (auto simp: bit_simps)
  qed
  moreover have "{a + 4..<8 + a} \<union> {a..<a + 4} = {a..<a + 8}" by auto
  ultimately show ?thesis by (simp add: store64_def store32_splat fillSet_fillSet)
qed

lemma kmemsetLoop_fill:
  assumes "c64 = ucast (splat32 b) OR push_bit 32 (ucast (splat32 b))"
  shows "kmemsetLoop c64 s n m = fillSet {s..<s + 32 * (n div 32)} b m"
  using assms
proof (induction c64 s n m rule: kmemsetLoop.induct)
  case (1 c64 s n m)
  show ?case
  proof (cases "32 \<le> n")
    case True
    have "n div 32 = Suc ((n - 32) div 32)" using True by (simp add: div_if)
    moreover have "{s + 32..<s + 32 + 32 * k} \<union> ({s + 24..<s + 24 + 8} \<union> ({s + 16..<s + 16 + 8} \<union>
        ({s + 8..<s + 8 + 8} \<union> {s..<s + 8}))) = {s..<s + 32 * Suc k}" for k by auto
    ultimately show ?thesis
      using True 1
      by (subst kmemsetLoop.simps) (simp only: if_True store64_splat [OF refl] fillSet_fillSet)
  next
    case False
    then show ?thesis by (subst kmemsetLoop.simps) (simp add: fillSet_def)
  qed
qed

lemma align4_up: "4 dvd a + unat (- (of_nat a :: u32) AND 3)"
proof -
  define k where "k = unat (- (of_nat a :: u32) AND 3)"
  have "- (of_nat a :: u32) AND 3 = take_bit 2 (- of_nat a)" by (simp add: take_bit_eq_mask mask_eq_exp_minus_1)
  then have "int k = uint (take_bit 2 (- of_nat a :: u32))" by (simp add: k_def)
  also have "\<dots> = take_bit 2 (uint (word_of_int (- int a) :: u32))" by (simp add: unsigned_take_bit_eq)
  also have "\<dots> = take_bit 2 (- int a)" by (simp only: uint_word_of_int_eq) (simp add: take_bit_take_bit)
  also have "\<dots> = (- int a) mod 4" by (simp add: take_bit_eq_mod)
  finally have "(int a + int k) mod 4 = 0" by (simp add: mod_add_right_eq)
  then show ?thesis unfolding k_def [symmetric] by presburger
qed

lemma cover_words:
  assumes "s + k + 32 * q \<le> t + 28" "t \<le> s + k + 32 * q" "s \<le> t" "k \<le> (28::nat)"
  shows "{s + k..<s + k + 32 * q} \<union> ({t + 12..<t + 12 + 4} \<union> ({t + 8..<t + 8 + 4}
        \<union> ({t + 4..<t + 4 + 4} \<union> ({t..<t + 4}
        \<union> ({s + 24..<s + 24 + 4} \<union> ({s + 20..<s + 20 + 4} \<union> ({s + 16..<s + 16 + 4}
        \<union> ({s + 12..<s + 12 + 4} \<union> ({t + 20..<t + 20 + 4} \<union> ({t + 16..<t + 16 + 4}
        \<union> ({s + 8..<s + 8 + 4} \<union> ({s + 4..<s + 4 + 4}
        \<union> ({t + 24..<t + 24 + 4} \<union> {s..<s + 4}))))))))))))) = {s..<t + 28}"
    (is "?parts = _")
proof
  show "?parts \<subseteq> {s..<t + 28}"
    using assms by (intro Un_least; simp)
  have seven: "x \<in> {c..<c + 4} \<or> x \<in> {c + 4..<c + 4 + 4} \<or> x \<in> {c + 8..<c + 8 + 4}
        \<or> x \<in> {c + 12..<c + 12 + 4} \<or> x \<in> {c + 16..<c + 16 + 4}
        \<or> x \<in> {c + 20..<c + 20 + 4} \<or> x \<in> {c + 24..<c + 24 + 4}"
    if "c \<le> x" "x < c + 28" for x c :: nat
    using that unfolding atLeastLessThan_iff by linarith
  show "{s..<t + 28} \<subseteq> ?parts"
  proof
    fix x assume x: "x \<in> {s..<t + 28}"
    then consider "s \<le> x" "x < s + 28" | "t \<le> x" "x < t + 28" | "x \<in> {s + k..<s + k + 32 * q}"
      using assms unfolding atLeastLessThan_iff by linarith
    then show "x \<in> ?parts"
    proof cases
      case 1 with seven [of s x] show ?thesis by (simp only: Un_iff) blast
    next
      case 2 with seven [of t x] show ?thesis by (simp only: Un_iff) blast
    next
      case 3 then show ?thesis by (simp only: Un_iff simp_thms)
    qed
  qed
qed

lemma cover_bytes:
  assumes "a + k + w \<le> t + 4" "a + 4 \<le> t" "t \<le> a + k + w" "k \<le> (3::nat)"
  shows "{a + k..<a + k + w} \<union> ({a + 3} \<union> ({t} \<union> ({a + 2} \<union> ({t + 1} \<union> ({a + 1}
        \<union> ({t + 2} \<union> ({a} \<union> {t + 3}))))))) = {a..<t + 4}"
    (is "?parts = _")
proof
  show "?parts \<subseteq> {a..<t + 4}"
    using assms by (intro Un_least; simp)
  show "{a..<t + 4} \<subseteq> ?parts"
  proof
    fix x assume x: "x \<in> {a..<t + 4}"
    then consider "x = a \<or> x = a + 1 \<or> x = a + 2 \<or> x = a + 3" | "x \<in> {a + k..<a + k + w}"
      | "x = t \<or> x = t + 1 \<or> x = t + 2 \<or> x = t + 3"
    proof -
      have "x < a + 4 \<Longrightarrow> x = a \<or> x = a + 1 \<or> x = a + 2 \<or> x = a + 3"
        "t \<le> x \<Longrightarrow> x = t \<or> x = t + 1 \<or> x = t + 2 \<or> x = t + 3"
        using x unfolding atLeastLessThan_iff by linarith+
      moreover have "a + 4 \<le> x \<Longrightarrow> x < t \<Longrightarrow> x \<in> {a + k..<a + k + w}"
        using x assms unfolding atLeastLessThan_iff by linarith
      ultimately show thesis using that by linarith
    qed
    then show "x \<in> ?parts" by cases (simp_all only: Un_iff singleton_iff simp_thms, blast+)
  qed
qed

lemma kmemsetWords_fill:
  assumes "4 dvd s" "4 dvd n" "0 < n"
  shows "kmemsetWords (splat32 b) s n m = fillSet {s..<s + n} b m"
proof -
  have four: "4 \<le> n" "n \<le> 8 \<or> 12 \<le> n" "n \<le> 24 \<or> 28 \<le> n" using assms(2,3) by (auto elim!: dvdE)
  have bit: "s AND 2 ^ j = of_bool (bit s j) * 2 ^ j" for j
    by (rule bit_eqI) (auto simp: bit_simps)
  have s4: "s AND 4 = 0 \<or> s AND 4 = 4" using bit [of 2] by auto
  define k where "k = 24 + (s AND 4)"
  have k: "4 dvd k" "24 \<le> k" "k \<le> 28" using s4 by (auto simp: k_def)
  define q where "q = (n - k) div 32"
  have q: "n \<le> k + 32 * q + 28" "k + 32 * q \<le> n" if "28 \<le> n"
  proof -
    have "4 dvd (n - k) mod 32" using k(1) assms(2) by (simp add: dvd_mod)
    moreover have "(n - k) mod 32 < 32" by simp
    moreover have "x \<le> 28" if "4 dvd x" "x < 32" for x :: nat using that by presburger
    ultimately have "(n - k) mod 32 \<le> 28" by blast
    moreover have "32 * q + (n - k) mod 32 = n - k" by (simp add: q_def)
    ultimately show "n \<le> k + 32 * q + 28" "k + 32 * q \<le> n" using that k by linarith+
  qed
  consider "n \<le> 8" | "12 \<le> n" "n \<le> 24" | "28 \<le> n" using four by linarith
  then show ?thesis
  proof cases
    case 1
    moreover have "{s + n - 4..<s + n - 4 + 4} \<union> {s..<s + 4} = {s..<s + n}" using 1 four by auto
    ultimately show ?thesis by (simp add: kmemsetWords_def Let_def store32_splat fillSet_fillSet)
  next
    case 2
    have "{s + n - 8..<s + n - 8 + 4} \<union> ({s + n - 12..<s + n - 12 + 4} \<union> ({s + 8..<s + 8 + 4} \<union>
        ({s + 4..<s + 4 + 4} \<union> ({s + n - 4..<s + n - 4 + 4} \<union> {s..<s + 4})))) = {s..<s + n}"
      using 2 by auto
    moreover have "(n \<le> 8) = False" "(n \<le> 24) = True" using 2 by auto
    ultimately show ?thesis
      by (simp only: kmemsetWords_def Let_def if_False if_True store32_splat fillSet_fillSet Un_assoc)
  next
    case 3
    have head: "(n \<le> 8) = False" "(n \<le> 24) = False" using 3 by auto
    define t where "t = s + n - 28"
    have t: "s + n = t + 28" using 3 by (simp add: t_def)
    have tail: "s + n - 4 = t + 24" "s + n - 8 = t + 20" "s + n - 12 = t + 16" "s + n - 16 = t + 12"
      "s + n - 20 = t + 8" "s + n - 24 = t + 4" "s + n - 28 = t"
      using 3 by (simp_all add: t_def)
    have reach: "s + k + 32 * q \<le> t + 28" "t \<le> s + k + 32 * q" "s \<le> t" using q [OF 3] t 3 by linarith+
    note cover_words [OF reach k(3)]
    with head show ?thesis
      by (simp only: kmemsetWords_def Let_def if_False store32_splat
          kmemsetLoop_fill [OF refl] fillSet_fillSet Un_assoc k_def [symmetric] q_def [symmetric] tail [unfolded t] t)
  qed
qed

text \<open>\<open>memset\<close> writes \<open>n\<close> bytes from \<open>dest\<close> on, and nothing else.\<close>

lemma kmemset_fill: "kmemset a c n m = fillSet {a..<a + n} (ucast c) m"
proof -
  define b :: u8 where "b = ucast c"
  define k where "k = unat (- (of_nat a :: u32) AND 3)"
  have k3: "k \<le> 3"
  proof -
    have "- (of_nat a :: u32) AND 3 \<le> 3" by (rule word_and_le1)
    then show ?thesis by (simp add: k_def word_le_nat_alt)
  qed
  have k4: "4 dvd a + k" unfolding k_def by (rule align4_up)
  define w where "w = 4 * ((n - k) div 4)"
  have w: "w \<le> n - k" "n - k < w + 4" unfolding w_def by presburger+
  consider "n = 0" | "0 < n" "n \<le> 2" | "2 < n" "n \<le> 6" | "6 < n" "n \<le> 8" | "8 < n" by linarith
  then show ?thesis
  proof cases
    case 1 then show ?thesis by (simp add: kmemset_def fillSet_def)
  next
    case 2
    then have "{a} \<union> {a + n - 1} = {a..<a + n}" by auto
    with 2 show ?thesis by (simp add: kmemset_def Let_def store8_fill fillSet_fillSet)
  next
    case 3
    then have "{a + 2} \<union> ({a + n - 3} \<union> ({a + 1} \<union> ({a + n - 2} \<union> ({a} \<union> {a + n - 1})))) = {a..<a + n}"
      by auto
    moreover have "(n = 0) = False" "(n \<le> 2) = False" "(n \<le> 6) = True" using 3 by auto
    ultimately show ?thesis
      by (simp only: kmemset_def Let_def store8_fill fillSet_fillSet if_False if_True Un_assoc)
  next
    case 4
    then have "{a + 3} \<union> ({a + n - 4} \<union> ({a + 2} \<union> ({a + n - 3} \<union> ({a + 1} \<union> ({a + n - 2}
        \<union> ({a} \<union> {a + n - 1})))))) = {a..<a + n}"
      by auto
    moreover have "(n = 0) = False" "(n \<le> 2) = False" "(n \<le> 6) = False" "(n \<le> 8) = True"
      using 4 by auto
    ultimately show ?thesis
      by (simp only: kmemset_def Let_def store8_fill fillSet_fillSet if_False if_True Un_assoc)
  next
    case 5
    have "0 < w" using w k3 5 by linarith
    then have words: "kmemsetWords (splat32 d) (a + k) w m' = fillSet {a + k..<a + k + w} d m'" for d m'
      using k4 by (intro kmemsetWords_fill) (auto simp: w_def)
    define t where "t = a + n - 4"
    have t: "a + n = t + 4" using 5 by (simp add: t_def)
    have tail: "t + 4 - 1 = t + 3" "t + 4 - 2 = t + 2" "t + 4 - 3 = t + 1" "t + 4 - 4 = t" by simp_all
    have "a + k + w \<le> t + 4" "a + 4 \<le> t" "t \<le> a + k + w" using w k3 5 t by linarith+
    note cover_bytes [OF this k3]
    moreover have "(n = 0) = False" "(n \<le> 2) = False" "(n \<le> 6) = False" "(n \<le> 8) = False"
      using 5 by auto
    ultimately show ?thesis
      by (simp only: kmemset_def Let_def store8_fill fillSet_fillSet if_False Un_assoc
          k_def [symmetric] w_def [symmetric] splat32_def [symmetric] words t tail)
  qed
qed

end
