(* ===== verification/KMalloc.thy ===== *)
theory KMalloc
  imports KMem
begin

text \<open>
  The kernel's allocator, \<open>src/kmalloc/kmalloc.c\<close>, with the K70 constants of
  \<open>ramk70.h\<close>. Everything the allocator keeps lives in the memory it manages: the
  \<open>AllocHeader\<close> (last size, 128 pairs of list heads, the allocation bitmap) at \<open>ram0\<close>
  and, from \<open>heap\<close> on, the chunks, each between two tags. The definitions read and write
  that memory (\<open>Ram\<close>) byte for byte; only the C file's own statics are in the record
  \<open>Kheap\<close>. A failed \<open>ASSERT\<close> and a dereference of a null list pointer have no result.

  Sizes are \<open>u32\<close> and wrap as they do in the code. The searches follow pointers through
  memory and may not end on a corrupt list: they are partial functions.
\<close>

definition ASSERT :: "bool \<Rightarrow> unit option" where
  "ASSERT b = (if b then Some () else None)"

lemma ASSERT_simps [simp]: "ASSERT True = Some ()" "ASSERT False = None"
  by (simp_all add: ASSERT_def)

subsection \<open>Padding and the constants of the K70\<close>

definition WORD_PAD :: "u32 \<Rightarrow> u32" where
  "WORD_PAD n = (n + 4 - 1) AND NOT (4 - 1)"

definition DWORD_PAD :: "u32 \<Rightarrow> u32" where
  "DWORD_PAD n = (n + 8 - 1) AND NOT (8 - 1)"

definition IS_WORD_ALIGNED :: "nat \<Rightarrow> bool" where
  "IS_WORD_ALIGNED a = (a mod 4 = 0)"

abbreviation MIN_ALLOC_BYTES :: u32 where "MIN_ALLOC_BYTES \<equiv> 16"
abbreviation MAX_PRE_ALLOCATIONS :: nat where "MAX_PRE_ALLOCATIONS \<equiv> 16"
abbreviation MAX_BINS :: nat where "MAX_BINS \<equiv> 128"

definition SDRAM_START :: nat where "SDRAM_START = 0x8007f800"
definition SDRAM_SIZE :: nat where "SDRAM_SIZE = 133695488"

definition SDRAM_END :: nat where
  "SDRAM_END = unat ((of_nat (SDRAM_START + SDRAM_SIZE - 1) :: u32) AND NOT 3)"

definition ALLOCATION_BITMAP_SIZE :: nat where "ALLOCATION_BITMAP_SIZE = 1036392"

text \<open>\<open>sizeof (AllocHeader)\<close>: the last size, the bins, the bitmap.\<close>

definition sizeofAllocHeader :: nat where
  "sizeofAllocHeader = 4 + 8 * MAX_BINS + ALLOCATION_BITMAP_SIZE"

subsection \<open>Chunk tags\<close>

record ChunkTag =
  tagSize :: "24 word"
  tagPid :: "7 word"
  tagFree :: bool

text \<open>The bit fields fill the tag's word from its low end.\<close>

definition encodeTag :: "ChunkTag \<Rightarrow> u32" where
  "encodeTag t = ucast (tagSize t) OR push_bit 24 (ucast (tagPid t))
     OR push_bit 31 (of_bool (tagFree t))"

definition decodeTag :: "u32 \<Rightarrow> ChunkTag" where
  "decodeTag w = \<lparr>tagSize = ucast w, tagPid = ucast (drop_bit 24 w), tagFree = bit w 31\<rparr>"

definition readTag :: "Ram \<Rightarrow> nat \<Rightarrow> ChunkTag" where
  "readTag m p = decodeTag (load32 m p)"

definition writeTag :: "nat \<Rightarrow> ChunkTag \<Rightarrow> Ram \<Rightarrow> Ram" where
  "writeTag p t m = store32 p (encodeTag t) m"

definition readSize :: "ChunkTag \<Rightarrow> u32" where
  "readSize t = push_bit 3 (ucast (tagSize t))"

definition writeSizePtr :: "nat \<Rightarrow> u32 \<Rightarrow> Ram \<Rightarrow> Ram" where
  "writeSizePtr p sz m = writeTag p ((readTag m p)\<lparr>tagSize := ucast (drop_bit 3 sz)\<rparr>) m"

definition writePid :: "nat \<Rightarrow> int \<Rightarrow> Ram \<Rightarrow> Ram" where
  "writePid p pid m = writeTag p ((readTag m p)\<lparr>tagPid := word_of_int pid\<rparr>) m"

definition writeFree :: "nat \<Rightarrow> bool \<Rightarrow> Ram \<Rightarrow> Ram" where
  "writeFree p b m = writeTag p ((readTag m p)\<lparr>tagFree := b\<rparr>) m"

definition getSize :: "Ram \<Rightarrow> nat \<Rightarrow> u32" where
  "getSize m chk = readSize (readTag m chk)"

definition getPayload :: "nat \<Rightarrow> nat" where
  "getPayload chk = chk + 4"

definition getFooter :: "Ram \<Rightarrow> nat \<Rightarrow> nat" where
  "getFooter m chk = chk + unat (getSize m chk) - 4"

definition getSucc :: "Ram \<Rightarrow> nat \<Rightarrow> nat" where
  "getSucc m chk = chk + unat (getSize m chk)"

definition getTagPred :: "Ram \<Rightarrow> nat \<Rightarrow> ChunkTag" where
  "getTagPred m chk = readTag m (chk - 4)"

definition getTagSucc :: "Ram \<Rightarrow> nat \<Rightarrow> ChunkTag" where
  "getTagSucc m chk = readTag m (getSucc m chk)"

definition getPred :: "Ram \<Rightarrow> nat \<Rightarrow> nat" where
  "getPred m chk = chk - unat (readSize (getTagPred m chk))"

definition zeroTag :: "nat \<Rightarrow> Ram \<Rightarrow> Ram" where
  "zeroTag chk m = writeFree chk False (writeSizePtr chk 0 (writePid chk 0 m))"

definition zeroFooter :: "nat \<Rightarrow> Ram \<Rightarrow> Ram" where
  "zeroFooter chk m = (let m = writeSizePtr (getFooter m chk) 0 m in writeFree (getFooter m chk) False m)"

subsection \<open>List pointers\<close>

definition loadPtr :: "Ram \<Rightarrow> nat \<Rightarrow> nat" where
  "loadPtr m p = unat (load32 m p)"

definition storePtr :: "nat \<Rightarrow> nat \<Rightarrow> Ram \<Rightarrow> Ram" where
  "storePtr p v m = store32 p (of_nat v) m"

text \<open>A chunk's \<open>prev\<close> (the address of the pointer that points at it) and \<open>next\<close>.\<close>

abbreviation prevOf :: "nat \<Rightarrow> nat" where "prevOf chk \<equiv> chk + 4"
abbreviation nextOf :: "nat \<Rightarrow> nat" where "nextOf chk \<equiv> chk + 8"

definition isUnlinked :: "Ram \<Rightarrow> nat \<Rightarrow> bool" where
  "isUnlinked m chk = (chk \<noteq> 0 \<and> loadPtr m (prevOf chk) = 0 \<and> loadPtr m (nextOf chk) = 0)"

definition isExactMatch :: "Ram \<Rightarrow> nat \<Rightarrow> u32 \<Rightarrow> bool" where
  "isExactMatch m chk sz =
     (chk \<noteq> 0 \<and> (getSize m chk = sz \<or> getSize m chk - sz \<le> MIN_ALLOC_BYTES))"

definition initChunk :: "nat \<Rightarrow> nat \<Rightarrow> u32 \<Rightarrow> Ram \<Rightarrow> (nat \<times> Ram) option" where
  "initChunk ramHighAddress mem sz m = do {
     ASSERT (IS_WORD_ALIGNED mem);
     ASSERT (IS_WORD_ALIGNED (unat sz));
     ASSERT (MIN_ALLOC_BYTES \<le> sz);
     ASSERT (\<not> mem + unat sz > ramHighAddress);
     let m = zeroTag mem m;
     let m = writeSizePtr mem sz m;
     let m = writeSizePtr (getFooter m mem) sz m;
     let m = writeFree mem True m;
     let m = writeFree (getFooter m mem) True m;
     let m = storePtr (prevOf mem) 0 m;
     let m = storePtr (nextOf mem) 0 m;
     Some (mem, m)
   }"

definition insertChunkBefore :: "nat \<Rightarrow> nat \<Rightarrow> Ram \<Rightarrow> Ram option" where
  "insertChunkBefore that this m = do {
     ASSERT (that \<noteq> 0);
     ASSERT (this \<noteq> 0);
     ASSERT (loadPtr m (prevOf that) \<noteq> 0);
     let m = storePtr (prevOf this) (loadPtr m (prevOf that)) m;
     let m = storePtr (loadPtr m (prevOf this)) this m;
     let m = storePtr (nextOf this) that m;
     let m = storePtr (prevOf that) (nextOf this) m;
     Some m
   }"

definition insertChunkAfter :: "nat \<Rightarrow> nat \<Rightarrow> Ram \<Rightarrow> Ram option" where
  "insertChunkAfter that this m = do {
     ASSERT (that \<noteq> 0);
     ASSERT (this \<noteq> 0);
     let m = storePtr (nextOf this) (loadPtr m (nextOf that)) m;
     let m = (if loadPtr m (nextOf this) \<noteq> 0
              then storePtr (prevOf (loadPtr m (nextOf this))) (nextOf this) m else m);
     let m = storePtr (nextOf that) this m;
     let m = storePtr (prevOf this) (nextOf that) m;
     Some m
   }"

text \<open>The write through a null \<open>prev\<close> faults.\<close>

definition removeChunk :: "nat \<Rightarrow> Ram \<Rightarrow> Ram option" where
  "removeChunk this m = do {
     ASSERT (this \<noteq> 0);
     ASSERT (loadPtr m (prevOf this) \<noteq> 0);
     let m = storePtr (loadPtr m (prevOf this)) (loadPtr m (nextOf this)) m;
     let m = (if loadPtr m (nextOf this) \<noteq> 0
              then storePtr (prevOf (loadPtr m (nextOf this))) (loadPtr m (prevOf this)) m else m);
     Some m
   }"

definition unlinkChunk :: "nat \<Rightarrow> Ram \<Rightarrow> Ram option" where
  "unlinkChunk chunk m =
     (if loadPtr m (prevOf chunk) \<noteq> 0 \<or> loadPtr m (nextOf chunk) \<noteq> 0 then do {
        m \<leftarrow> removeChunk chunk m;
        let m = storePtr (prevOf chunk) 0 m;
        let m = storePtr (nextOf chunk) 0 m;
        Some m
      } else Some m)"

subsection \<open>Bins\<close>

definition isFastBinSize :: "u32 \<Rightarrow> bool" where
  "isFastBinSize sz = (sz < 512 \<and> sz AND 7 = 0)"

definition fastBinIndex :: "u32 \<Rightarrow> u32" where
  "fastBinIndex sz = (sz - MIN_ALLOC_BYTES) div 8"

definition rangeBinIndex :: "u32 \<Rightarrow> u32" where
  "rangeBinIndex sz = (126 * (sz - MIN_ALLOC_BYTES)) div (push_bit 26 1 - MIN_ALLOC_BYTES)"

definition getBinIndex :: "u32 \<Rightarrow> u32" where
  "getBinIndex sz = 1 + (if isFastBinSize sz then fastBinIndex sz else rangeBinIndex sz)"

text \<open>The addresses of \<open>header->bins[i].clean\<close> and \<open>header->bins[i].dirty\<close>.\<close>

definition cleanBin :: "nat \<Rightarrow> nat \<Rightarrow> nat" where
  "cleanBin header i = header + 4 + 8 * i"

definition dirtyBin :: "nat \<Rightarrow> nat \<Rightarrow> nat" where
  "dirtyBin header i = header + 8 + 8 * i"

abbreviation RECENT_CHUNK_BIN :: "nat \<Rightarrow> nat" where
  "RECENT_CHUNK_BIN header \<equiv> dirtyBin header 0"

abbreviation REMAINDER_CHUNK_BIN :: "nat \<Rightarrow> nat" where
  "REMAINDER_CHUNK_BIN header \<equiv> cleanBin header 0"

text \<open>\<open>getBin\<close>: the bin of a size; an index past the array has no bin.\<close>

definition getBin :: "u32 \<Rightarrow> nat option" where
  "getBin sz = (if unat (getBinIndex sz) < MAX_BINS then Some (unat (getBinIndex sz)) else None)"

datatype BinChunkMode = BinDirty | BinClean | BinRecent | BinLastSplitRem

text \<open>The walk at the end of \<open>binChunk\<close>: addresses are compared as signed integers.\<close>

partial_function (option) binSorted :: "nat \<Rightarrow> nat \<Rightarrow> Ram \<Rightarrow> Ram option" where
  "binSorted chunk chunks m =
     (if chunks = 0 then Some m
      else if (of_nat chunk :: u32) <s of_nat chunks then insertChunkBefore chunks chunk m
      else if loadPtr m (nextOf chunks) = 0 then insertChunkAfter chunks chunk m
      else binSorted chunk (loadPtr m (nextOf chunks)) m)"

text \<open>An empty list takes the chunk as its only element.\<close>

definition binFirst :: "nat \<Rightarrow> nat \<Rightarrow> Ram \<Rightarrow> Ram" where
  "binFirst cell chunk m = storePtr (prevOf chunk) cell (storePtr cell chunk m)"

definition binChunk :: "nat \<Rightarrow> nat \<Rightarrow> BinChunkMode \<Rightarrow> Ram \<Rightarrow> Ram option" where
  "binChunk header chunk mode m = do {
     ASSERT (isUnlinked m chunk);
     bin \<leftarrow> getBin (getSize m chunk);
     (case mode of
        BinDirty \<Rightarrow>
          (let chunks = loadPtr m (dirtyBin header bin) in
           if chunks = 0 then Some (binFirst (dirtyBin header bin) chunk m)
           else binSorted chunk chunks m)
      | BinClean \<Rightarrow>
          (let chunks = loadPtr m (cleanBin header bin) in
           if chunks = 0 then Some (binFirst (cleanBin header bin) chunk m)
           else binSorted chunk chunks m)
      | BinRecent \<Rightarrow>
          (let chunks = loadPtr m (RECENT_CHUNK_BIN header) in
           if chunks = 0 then Some (binFirst (RECENT_CHUNK_BIN header) chunk m)
           else insertChunkBefore chunks chunk m)
      | BinLastSplitRem \<Rightarrow> do {
          ASSERT (loadPtr m (REMAINDER_CHUNK_BIN header) = 0);
          Some (binFirst (REMAINDER_CHUNK_BIN header) chunk m)
        })
   }"

subsection \<open>The allocation bitmap\<close>

definition getAddrBitmapOffset :: "nat \<Rightarrow> nat \<Rightarrow> nat" where
  "getAddrBitmapOffset heap addr = unat (((of_nat addr :: u32) - of_nat heap) div MIN_ALLOC_BYTES)"

definition getAddrBit :: "nat \<Rightarrow> nat \<Rightarrow> nat" where
  "getAddrBit heap addr = 7 - getAddrBitmapOffset heap addr mod 8"

definition getAddrByte :: "nat \<Rightarrow> nat \<Rightarrow> nat" where
  "getAddrByte heap addr = getAddrBitmapOffset heap addr div 8"

text \<open>The bitmap follows the bins in the header.\<close>

definition bitmapAt :: "nat \<Rightarrow> nat \<Rightarrow> nat" where
  "bitmapAt header i = header + 4 + 8 * MAX_BINS + i"

definition setBitmap :: "nat \<Rightarrow> nat \<Rightarrow> nat \<Rightarrow> Ram \<Rightarrow> Ram" where
  "setBitmap header heap addr m =
     (let p = bitmapAt header (getAddrByte heap addr)
      in store8 p (m p OR push_bit (getAddrBit heap addr) 1) m)"

definition clearBitmap :: "nat \<Rightarrow> nat \<Rightarrow> nat \<Rightarrow> Ram \<Rightarrow> Ram" where
  "clearBitmap header heap addr m =
     (let p = bitmapAt header (getAddrByte heap addr)
      in store8 p (m p AND NOT (push_bit (getAddrBit heap addr) 1)) m)"

definition checkBitmap :: "nat \<Rightarrow> nat \<Rightarrow> nat \<Rightarrow> Ram \<Rightarrow> bool" where
  "checkBitmap header heap addr m =
     (m (bitmapAt header (getAddrByte heap addr)) AND push_bit (getAddrBit heap addr) 1 \<noteq> 0)"

subsection \<open>Searches, splitting and coalescing\<close>

datatype ExactFitRebinFlag = ExactFitDontRebin | ExactFitDoRebin

partial_function (option) exactFitSearch ::
  "nat \<Rightarrow> u32 \<Rightarrow> ExactFitRebinFlag \<Rightarrow> nat \<Rightarrow> Ram \<Rightarrow> (nat \<times> Ram) option" where
  "exactFitSearch header sz rebinMismatch chunk m =
     (if chunk = 0 then Some (0, m)
      else if isExactMatch m chunk sz then Some (chunk, m)
      else if rebinMismatch = ExactFitDoRebin then do {
        let nxt = loadPtr m (nextOf chunk);
        m \<leftarrow> unlinkChunk chunk m;
        m \<leftarrow> binChunk header chunk BinDirty m;
        exactFitSearch header sz rebinMismatch nxt m
      }
      else exactFitSearch header sz rebinMismatch (loadPtr m (nextOf chunk)) m)"

partial_function (option) firstFitSearch :: "Ram \<Rightarrow> u32 \<Rightarrow> nat \<Rightarrow> nat option" where
  "firstFitSearch m sz chunk =
     (if chunk = 0 then Some 0
      else if sz \<le> getSize m chunk then Some chunk
      else firstFitSearch m sz (loadPtr m (nextOf chunk)))"

text \<open>Both pieces of a split, the one of the wanted size first.\<close>

definition splitChunk :: "nat \<Rightarrow> nat \<Rightarrow> u32 \<Rightarrow> Ram \<Rightarrow> (nat \<times> nat \<times> Ram) option" where
  "splitChunk ramHighAddress chunk sz m = do {
     ASSERT (sz < getSize m chunk);
     ASSERT (IS_WORD_ALIGNED (unat sz));
     ASSERT (IS_WORD_ALIGNED (unat (getSize m chunk)));
     let oldSize = getSize m chunk;
     (chunkA, m) \<leftarrow> initChunk ramHighAddress chunk sz m;
     (chunkB, m) \<leftarrow> initChunk ramHighAddress (chunk + unat sz) (oldSize - sz) m;
     ASSERT (IS_WORD_ALIGNED chunkA);
     ASSERT (IS_WORD_ALIGNED chunkB);
     ASSERT (getSize m chunkA = sz);
     ASSERT (readSize (readTag m (getFooter m chunkA)) = sz);
     ASSERT (getSize m chunkB = oldSize - sz);
     ASSERT (readSize (readTag m (getFooter m chunkB)) = oldSize - sz);
     Some (chunkA, chunkB, m)
   }"

text \<open>One round of \<open>coalesce\<close>: merge with the free neighbours.\<close>

definition coalesceOne :: "nat \<Rightarrow> nat \<Rightarrow> nat \<Rightarrow> Ram \<Rightarrow> Ram option" where
  "coalesceOne header heap chunk m =
     (if tagFree (getTagPred m chunk) \<and> tagFree (getTagSucc m chunk) then do {
        let pred = getPred m chunk;
        let succ = getSucc m chunk;
        ASSERT (\<not> checkBitmap header heap (getPayload pred) m);
        ASSERT (\<not> checkBitmap header heap (getPayload succ) m);
        ASSERT (tagFree (readTag m pred));
        ASSERT (tagFree (readTag m succ));
        let m = writeSizePtr pred (getSize m pred + getSize m chunk + getSize m succ) m;
        let m = writeSizePtr (getFooter m chunk) (getSize m pred) m;
        m \<leftarrow> unlinkChunk chunk m;
        m \<leftarrow> unlinkChunk succ m;
        let m = zeroFooter succ m;
        let m = zeroTag chunk m;
        let m = zeroFooter chunk m;
        let m = zeroTag succ m;
        m \<leftarrow> unlinkChunk pred m;
        binChunk header pred BinClean m
      }
      else if tagFree (getTagPred m chunk) then do {
        let pred = getPred m chunk;
        ASSERT (\<not> checkBitmap header heap (getPayload pred) m);
        ASSERT (tagFree (readTag m pred));
        let m = writeSizePtr pred (getSize m pred + getSize m chunk) m;
        let m = writeSizePtr (getFooter m chunk) (getSize m pred) m;
        m \<leftarrow> unlinkChunk chunk m;
        let m = zeroFooter pred m;
        let m = zeroTag chunk m;
        m \<leftarrow> unlinkChunk pred m;
        binChunk header pred BinClean m
      }
      else if tagFree (getTagSucc m chunk) then do {
        let succ = getSucc m chunk;
        ASSERT (\<not> checkBitmap header heap (getPayload succ) m);
        ASSERT (tagFree (readTag m succ));
        let m = writeSizePtr chunk (getSize m chunk + getSize m succ) m;
        let m = writeSizePtr (getFooter m succ) (getSize m chunk) m;
        m \<leftarrow> unlinkChunk succ m;
        let m = zeroFooter chunk m;
        let m = zeroTag succ m;
        m \<leftarrow> unlinkChunk chunk m;
        binChunk header chunk BinClean m
      }
      else Some m)"

partial_function (option) coalesce :: "nat \<Rightarrow> nat \<Rightarrow> nat \<Rightarrow> Ram \<Rightarrow> Ram option" where
  "coalesce header heap chunk m =
     (if chunk = 0 then Some m else do {
        let nxt = loadPtr m (nextOf chunk);
        ASSERT (\<not> checkBitmap header heap (getPayload chunk) m);
        m \<leftarrow> coalesceOne header heap chunk m;
        coalesce header heap nxt m
      })"

subsection \<open>Allocating a chunk\<close>

text \<open>Steps 6 and 7: the clean lists of the bins from \<open>i\<close> on; \<open>0\<close> when none fits.\<close>

function searchClean :: "nat \<Rightarrow> u32 \<Rightarrow> nat \<Rightarrow> Ram \<Rightarrow> nat option" where
  "searchClean header sz i m =
     (if i < MAX_BINS then do {
        chunk \<leftarrow> firstFitSearch m sz (loadPtr m (cleanBin header i));
        if chunk \<noteq> 0 then Some chunk else searchClean header sz (i + 1) m
      } else Some 0)"
  by pat_completeness auto
termination by (relation "measure (\<lambda>(header, sz, i, m). MAX_BINS - i)") auto

declare searchClean.simps [simp del]

text \<open>The loop that cuts pre-allocated chunks off the remainder; \<open>n\<close> rounds are left.\<close>

primrec preAllocate :: "nat \<Rightarrow> nat \<Rightarrow> nat \<Rightarrow> u32 \<Rightarrow> nat \<Rightarrow> Ram \<Rightarrow> (nat \<times> Ram) option" where
  "preAllocate 0 header ramHighAddress sz rest m = Some (rest, m)"
| "preAllocate (Suc n) header ramHighAddress sz rest m =
     (if sz < getSize m rest \<and> MIN_ALLOC_BYTES \<le> getSize m rest - sz then do {
        (pre, rest, m) \<leftarrow> splitChunk ramHighAddress rest sz m;
        m \<leftarrow> binChunk header pre BinRecent m;
        preAllocate n header ramHighAddress sz rest m
      } else Some (rest, m))"

text \<open>From the label \<open>split\<close> on.\<close>

definition splitExit :: "nat \<Rightarrow> nat \<Rightarrow> u32 \<Rightarrow> nat \<Rightarrow> Ram \<Rightarrow> (nat \<times> Ram) option" where
  "splitExit header ramHighAddress sz chunk m =
     (if getSize m chunk - sz < MIN_ALLOC_BYTES then Some (chunk, m) else do {
        (chunk, rest, m) \<leftarrow> splitChunk ramHighAddress chunk sz m;
        (rest, m) \<leftarrow> (if load32 m header = sz
           then preAllocate MAX_PRE_ALLOCATIONS header ramHighAddress sz rest m
           else Some (rest, m));
        m \<leftarrow> binChunk header rest BinLastSplitRem m;
        Some (chunk, m)
      })"

definition allocateChunk :: "nat \<Rightarrow> nat \<Rightarrow> u32 \<Rightarrow> Ram \<Rightarrow> (nat \<times> Ram) option" where
  "allocateChunk header ramHighAddress sz m = do {
     let recent = loadPtr m (RECENT_CHUNK_BIN header);
     if isExactMatch m recent sz then do {
       m \<leftarrow> unlinkChunk recent m;
       Some (recent, m)
     } else do {
     bin \<leftarrow> getBin sz;
     (chunk, m) \<leftarrow> exactFitSearch header sz ExactFitDontRebin (loadPtr m (dirtyBin header bin)) m;
     if chunk \<noteq> 0 then do {
       m \<leftarrow> unlinkChunk chunk m;
       Some (chunk, m)
     } else do {
     (chunk, m) \<leftarrow> exactFitSearch header sz ExactFitDoRebin (loadPtr m (RECENT_CHUNK_BIN header)) m;
     if chunk \<noteq> 0 then do {
       m \<leftarrow> unlinkChunk chunk m;
       Some (chunk, m)
     } else do {
     chunk \<leftarrow> firstFitSearch m sz (loadPtr m (REMAINDER_CHUNK_BIN header));
     if chunk \<noteq> 0 then do {
       m \<leftarrow> unlinkChunk chunk m;
       splitExit header ramHighAddress sz chunk m
     } else do {
     chunk \<leftarrow> firstFitSearch m sz (loadPtr m (cleanBin header bin));
     if chunk \<noteq> 0 then do {
       m \<leftarrow> unlinkChunk chunk m;
       splitExit header ramHighAddress sz chunk m
     } else do {
     chunk \<leftarrow> searchClean header sz (bin + 1) m;
     if chunk \<noteq> 0 then do {
       m \<leftarrow> unlinkChunk chunk m;
       splitExit header ramHighAddress sz chunk m
     } else do {
     chunk \<leftarrow> searchClean header sz (bin + 1) m;
     if chunk \<noteq> 0 then do {
       m \<leftarrow> unlinkChunk chunk m;
       splitExit header ramHighAddress sz chunk m
     } else Some (0, m)
     }}}}}}}"

subsection \<open>The interface\<close>

text \<open>The statics of \<open>kmalloc.c\<close> with the memory they point into.\<close>

record Kheap =
  ram :: Ram
  ram0 :: nat
  ramHighAddress :: nat
  header :: nat
  heap :: nat
  numChunkOffsets :: nat
  totalRAM :: u32
  allocHWM :: u32
  allocCount :: u32
  freeCount :: u32
  allocInUse :: u32
  allocFree :: u32
  allocPM :: u32

text \<open>Before the first call: no pointer set, the memory arbitrary.\<close>

definition bootHeap :: "Ram \<Rightarrow> Kheap" where
  "bootHeap m = \<lparr>ram = m, ram0 = 0, ramHighAddress = 0, header = 0, heap = 0, numChunkOffsets = 0,
     totalRAM = 0, allocHWM = 0, allocCount = 0, freeCount = 0, allocInUse = 0, allocFree = 0,
     allocPM = 0\<rparr>"

text \<open>The loop that empties the bins.\<close>

primrec clearBins :: "nat \<Rightarrow> nat \<Rightarrow> Ram \<Rightarrow> Ram" where
  "clearBins hdr 0 m = m"
| "clearBins hdr (Suc i) m = storePtr (cleanBin hdr i) 0 (storePtr (dirtyBin hdr i) 0 (clearBins hdr i m))"

definition initRam :: "Kheap \<Rightarrow> Kheap option" where
  "initRam h =
     (if ram0 h = 0 then do {
        let r0 = SDRAM_START;
        let high = SDRAM_END;
        let m = kmemset r0 0 sizeofAllocHeader (ram h);
        let m = clearBins r0 MAX_BINS m;
        let base = r0 + unat (WORD_PAD (of_nat sizeofAllocHeader));
        let total = of_nat (high - base);
        let m = kmemset base 0xfa (unat total) m;
        (firstChunk, m) \<leftarrow> initChunk high base total m;
        let m = storePtr (cleanBin r0 (MAX_BINS - 1)) firstChunk m;
        let m = storePtr (prevOf firstChunk) (cleanBin r0 (MAX_BINS - 1)) m;
        Some (h\<lparr>ram := m, ram0 := r0, ramHighAddress := high, header := r0, heap := base,
                totalRAM := total, numChunkOffsets := unat (total div MIN_ALLOC_BYTES),
                allocFree := getSize m firstChunk\<rparr>)
      } else Some h)"

text \<open>The check, every 16 bytes, that no address of the new block is already allocated.\<close>

function regionClear :: "nat \<Rightarrow> nat \<Rightarrow> nat \<Rightarrow> nat \<Rightarrow> Ram \<Rightarrow> bool" where
  "regionClear hdr base p stop m =
     (if p < stop then \<not> checkBitmap hdr base p m \<and> regionClear hdr base (p + 16) stop m else True)"
  by pat_completeness auto
termination by (relation "measure (\<lambda>(hdr, base, p, stop, m). stop - p)") auto

declare regionClear.simps [simp del]

text \<open>The chunk size for a request: two tags more, the minimum at least, a multiple of eight.\<close>

definition chunkSizeFor :: "u32 \<Rightarrow> u32" where
  "chunkSizeFor sz =
     (let newSize = sz + 2 * 4
      in DWORD_PAD (if newSize < MIN_ALLOC_BYTES then newSize + (MIN_ALLOC_BYTES - newSize) else newSize))"

text \<open>\<open>Inl ENOMEM\<close> is the null pointer with \<open>errno\<close> set.\<close>

definition kmallocPid :: "u32 \<Rightarrow> int \<Rightarrow> Kheap \<Rightarrow> ((errno + nat) \<times> Kheap) option" where
  "kmallocPid sz pid h = do {
     h \<leftarrow> initRam h;
     (chunk, m) \<leftarrow> allocateChunk (header h) (ramHighAddress h) (chunkSizeFor sz) (ram h);
     if chunk \<noteq> 0 then do {
       let mem = getPayload chunk;
       let m = store32 (header h) (getSize m chunk) m;
       let m = writePid chunk pid m;
       let m = writePid (getFooter m chunk) pid m;
       let m = writeFree chunk False m;
       let m = writeFree (getFooter m chunk) False m;
       ASSERT (\<not> checkBitmap (header h) (heap h) mem m);
       ASSERT (regionClear (header h) (heap h) mem ((mem + unat sz) mod 2 ^ 32) m);
       let m = setBitmap (header h) (heap h) mem m;
       let inUse = allocInUse h + getSize m chunk;
       let h = h\<lparr>allocInUse := inUse, allocFree := allocFree h - getSize m chunk,
                 allocPM := allocPM h + 1, allocCount := allocCount h + 1,
                 allocHWM := (if allocHWM h < inUse then inUse else allocHWM h)\<rparr>;
       let m = kmemset mem 0 (unat sz) m;
       Some (Inr mem, h\<lparr>ram := m\<rparr>)
     } else Some (Inl ENOMEM, h\<lparr>ram := m\<rparr>)
   }"

text \<open>Called by user programs and by the kernel for the running process; \<open>syskmalloc0\<close> charges
  the kernel. All three hold the critical region, so a call is one step.\<close>

definition kmalloc :: "u32 \<Rightarrow> int \<Rightarrow> Kheap \<Rightarrow> ((errno + nat) \<times> Kheap) option" where
  "kmalloc sz getpid h = kmallocPid sz getpid h"

definition syskmalloc :: "u32 \<Rightarrow> int \<Rightarrow> Kheap \<Rightarrow> ((errno + nat) \<times> Kheap) option" where
  "syskmalloc sz getpid h = kmallocPid sz getpid h"

definition syskmalloc0 :: "u32 \<Rightarrow> Kheap \<Rightarrow> ((errno + nat) \<times> Kheap) option" where
  "syskmalloc0 sz h = kmallocPid sz 0 h"

text \<open>The consistency check of a chunk against its two neighbours, made before it is freed.\<close>

definition assertNeighbour :: "nat \<Rightarrow> nat \<Rightarrow> Ram \<Rightarrow> nat \<Rightarrow> ChunkTag \<Rightarrow> unit option" where
  "assertNeighbour hdr base m c seen = do {
     ASSERT (getSize m c = readSize (readTag m (getFooter m c)));
     ASSERT (getSize m c = readSize seen);
     ASSERT (tagFree (readTag m c) = tagFree (readTag m (getFooter m c)));
     ASSERT (tagFree (readTag m c) = tagFree seen);
     ASSERT (tagFree seen \<or> checkBitmap hdr base (getPayload c) m)
   }"

definition assertChunk :: "nat \<Rightarrow> nat \<Rightarrow> nat \<Rightarrow> nat \<Rightarrow> Ram \<Rightarrow> unit option" where
  "assertChunk hdr base high chunk m = do {
     (if base \<noteq> chunk
      then assertNeighbour hdr base m (getPred m chunk) (getTagPred m chunk) else Some ());
     if chunk + unat (getSize m chunk) \<noteq> high
     then assertNeighbour hdr base m (getSucc m chunk) (getTagSucc m chunk) else Some ()
   }"

definition kfreePtr :: "nat \<Rightarrow> Kheap \<Rightarrow> Kheap option" where
  "kfreePtr ptr h =
     (if ptr = 0 then Some h
      else if ptr mod 8 \<noteq> 0 then Some h
      else do {
        let m = ram h;
        ASSERT (checkBitmap (header h) (heap h) ptr m);
        ASSERT (heap h \<le> ptr \<and> ptr \<le> ramHighAddress h);
        let chunk = ptr - 4;
        assertChunk (header h) (heap h) (ramHighAddress h) chunk m;
        let chunkSize = getSize m chunk;
        let h = h\<lparr>allocInUse := allocInUse h - chunkSize, allocFree := allocFree h + chunkSize,
                  freeCount := freeCount h + 1, allocPM := allocPM h - 1\<rparr>;
        let m = writePid chunk 0 m;
        let m = writeFree chunk True m;
        let m = writePid (getFooter m chunk) 0 m;
        let m = writeFree (getFooter m chunk) True m;
        let m = storePtr (prevOf chunk) 0 m;
        let m = storePtr (nextOf chunk) 0 m;
        let m = clearBitmap (header h) (heap h) ptr m;
        m \<leftarrow> binChunk (header h) chunk BinRecent m;
        Some (h\<lparr>ram := m\<rparr>)
      })"

definition kfree :: "nat \<Rightarrow> Kheap \<Rightarrow> Kheap option" where
  "kfree ptr h = kfreePtr ptr h"

definition syskfree :: "nat \<Rightarrow> Kheap \<Rightarrow> Kheap option" where
  "syskfree ptr h = kfreePtr ptr h"

subsection \<open>The debug check of the bitmap macros\<close>

text \<open>\<open>kmallocBitmapFunctionIntegrityCheck\<close>: the addresses it prints between stars, in order;
  the bitmap is the routine's own.\<close>

function integrityLoop :: "nat \<Rightarrow> nat \<Rightarrow> nat \<Rightarrow> Ram \<Rightarrow> nat list" where
  "integrityLoop base addr stop bitmap =
     (if addr < stop then
        (let byte = getAddrByte base addr; b = push_bit (getAddrBit base addr) 1;
             isSet = bitmap byte AND b \<noteq> 0
         in (if isSet then [addr] else []) @
            integrityLoop base (addr + 16) stop (bitmap(byte := bitmap byte OR b)))
      else [])"
  by pat_completeness auto
termination by (relation "measure (\<lambda>(base, addr, stop, bitmap). stop - addr)") auto

declare integrityLoop.simps [simp del]

definition kmallocBitmapFunctionIntegrityCheck :: "Kheap \<Rightarrow> nat list" where
  "kmallocBitmapFunctionIntegrityCheck h =
     integrityLoop (heap h) (heap h) (heap h + unat (totalRAM h)) (\<lambda>_. 0)"

end
