(* ===== verification/KChain.thy ===== *)
theory KChain
  imports ManosPrelude
begin

text \<open>
  The linked lists of \<open>kmalloc.c\<close>: a node at \<open>x\<close> keeps at \<open>x + 4\<close> the address of the pointer
  that points at it and at \<open>x + 8\<close> the next node. The lists are described over a map \<open>f\<close> from
  the address of a pointer to its value, so that this theory is about function updates only.
\<close>

fun chain :: "(nat \<Rightarrow> nat) \<Rightarrow> nat \<Rightarrow> nat list \<Rightarrow> bool" where
  "chain f c [] = (f c = 0)"
| "chain f c (x # xs) = (f c = x \<and> x \<noteq> 0 \<and> f (x + 4) = c \<and> chain f (x + 8) xs)"

fun lseg :: "(nat \<Rightarrow> nat) \<Rightarrow> nat \<Rightarrow> nat list \<Rightarrow> bool" where
  "lseg f c [] = True"
| "lseg f c (x # xs) = (f c = x \<and> x \<noteq> 0 \<and> f (x + 4) = c \<and> lseg f (x + 8) xs)"

fun tailCell :: "nat \<Rightarrow> nat list \<Rightarrow> nat" where
  "tailCell c [] = c"
| "tailCell c (x # xs) = tailCell (x + 8) xs"

definition links :: "nat set \<Rightarrow> nat set" where
  "links S = (\<lambda>x. x + 4) ` S \<union> (\<lambda>x. x + 8) ` S"

text \<open>Nodes whose link words do not overlap, away from the cell \<open>c\<close>.\<close>

definition roomyNodes :: "nat \<Rightarrow> nat set \<Rightarrow> bool" where
  "roomyNodes c S = (c \<notin> links S \<and> (\<forall>x\<in>S. 4 + x \<notin> S))"

lemma links_simps [simp]:
  "links {} = {}" "links (insert x S) = {x + 4, x + 8} \<union> links S" "links (S \<union> T) = links S \<union> links T"
  by (auto simp: links_def)

lemma links_mono: "S \<subseteq> T \<Longrightarrow> links S \<subseteq> links T"
  by (auto simp: links_def)

lemma in_links: "p \<in> links S \<longleftrightarrow> (\<exists>x\<in>S. p = x + 4 \<or> p = x + 8)"
  by (auto simp: links_def)

lemma roomyNodes_mono: "roomyNodes c T \<Longrightarrow> S \<subseteq> T \<Longrightarrow> roomyNodes c S"
  unfolding roomyNodes_def using links_mono by blast

lemma roomyNodes_next:
  "roomyNodes c (insert x S) \<Longrightarrow> x \<notin> S \<Longrightarrow> roomyNodes (x + 8) S"
  by (auto simp: roomyNodes_def in_links)

lemma chain_append: "chain f c (xs @ ys) \<longleftrightarrow> lseg f c xs \<and> chain f (tailCell c xs) ys"
  by (induction xs arbitrary: c) auto

lemma lseg_append: "lseg f c (xs @ ys) \<longleftrightarrow> lseg f c xs \<and> lseg f (tailCell c xs) ys"
  by (induction xs arbitrary: c) auto

lemma tailCell_append [simp]: "tailCell c (xs @ ys) = tailCell (tailCell c xs) ys"
  by (induction xs arbitrary: c) auto

lemma tailCell_cases: "tailCell c xs = c \<and> xs = [] \<or> (\<exists>x\<in>set xs. tailCell c xs = x + 8)"
  by (induction xs arbitrary: c) auto

lemma chain_cong:
  "(\<And>p. p = c \<or> p \<in> links (set xs) \<Longrightarrow> f p = g p) \<Longrightarrow> chain f c xs = chain g c xs"
  by (induction xs arbitrary: c) auto

lemma chain_upd_other:
  "p \<noteq> c \<Longrightarrow> p \<notin> links (set xs) \<Longrightarrow> chain (f(p := v)) c xs = chain f c xs"
  by (rule chain_cong) auto

lemma lseg_cong:
  "(\<And>p. p = c \<or> p \<in> links (set xs) \<Longrightarrow> f p = g p) \<Longrightarrow> lseg f c xs = lseg g c xs"
  by (induction xs arbitrary: c) auto

lemma lseg_upd_other:
  "p \<noteq> c \<Longrightarrow> p \<notin> links (set xs) \<Longrightarrow> lseg (f(p := v)) c xs = lseg f c xs"
  by (rule lseg_cong) auto

text \<open>A segment does not read the pointer at its own end.\<close>

lemma lseg_upd_tail:
  "roomyNodes c (set xs) \<Longrightarrow> distinct xs \<Longrightarrow> lseg (f(tailCell c xs := v)) c xs = lseg f c xs"
proof (induction xs arbitrary: c)
  case (Cons x xs)
  have ne: "tailCell (x + 8) xs \<noteq> c" "tailCell (x + 8) xs \<noteq> x + 4"
    using Cons.prems tailCell_cases [of "x + 8" xs] by (auto simp: roomyNodes_def in_links)
  have "lseg (f(tailCell (x + 8) xs := v)) (x + 8) xs = lseg f (x + 8) xs"
    using Cons.prems by (intro Cons.IH) (auto intro: roomyNodes_next)
  with ne show ?case by (simp add: fun_upd_other del: fun_upd_apply)
qed simp

lemma tailCell_fresh:
  assumes "roomyNodes c (set xs \<union> S)" "set xs \<inter> S = {}"
  shows "tailCell c xs \<notin> links S"
  using assms tailCell_cases [of c xs] by (auto simp: roomyNodes_def in_links)

subsection \<open>Taking a node out\<close>

lemma chain_unlink:
  assumes ch: "chain f c (xs @ x # ys)" and room: "roomyNodes c (set (xs @ x # ys))"
    and dist: "distinct (xs @ x # ys)"
  defines "q \<equiv> f (x + 4)" and "n \<equiv> f (x + 8)"
  defines "g \<equiv> f(q := n)"
  shows "q \<noteq> 0 \<Longrightarrow> chain ((if n \<noteq> 0 then g(n + 4 := q) else g)(x + 4 := 0, x + 8 := 0)) c (xs @ ys)"
    and "q = tailCell c xs" and "n = (case ys of [] \<Rightarrow> 0 | y # _ \<Rightarrow> y)"
proof -
  have s: "lseg f c xs" and q: "f (tailCell c xs) = x" "x \<noteq> 0" "q = tailCell c xs"
    and r: "chain f (x + 8) ys"
    using ch by (auto simp: chain_append q_def)
  show "q = tailCell c xs" by (rule q)
  show n: "n = (case ys of [] \<Rightarrow> 0 | y # _ \<Rightarrow> y)" using r by (cases ys) (auto simp: n_def)
  have roomx: "roomyNodes c (set xs)" using room by (rule roomyNodes_mono) auto
  have qy: "q \<notin> links (set (x # ys))" "q \<noteq> x + 4" "q \<noteq> x + 8"
    using tailCell_fresh [of c xs "set (x # ys)"] room dist q by auto
  have xs4: "p \<notin> links (set xs)" "p \<noteq> c" if "p \<in> {x + 4, x + 8} \<union> links (set ys)" for p
    using that room dist by (auto simp: roomyNodes_def in_links)
  let ?h = "(if n \<noteq> 0 then g(n + 4 := q) else g)(x + 4 := 0, x + 8 := 0)"
  have lseg: "lseg ?h c xs"
  proof -
    have "n = 0 \<or> n + 4 \<in> links (set ys)" using n by (cases ys) auto
    then have "lseg ?h c xs = lseg g c xs" using xs4 by (auto simp: lseg_upd_other)
    also have "\<dots> = lseg f c xs" unfolding g_def q(3) using roomx dist by (intro lseg_upd_tail) auto
    finally show ?thesis using s by simp
  qed
  have rest: "chain ?h q ys"
  proof (cases ys)
    case Nil
    with n qy show ?thesis by (simp add: g_def)
  next
    case (Cons y zs)
    with n have y: "n = y" "y \<noteq> 0" "y \<noteq> x" using r dist by auto
    have "chain ?h (y + 8) zs = chain f (y + 8) zs"
    proof (rule chain_cong)
      fix p assume p: "p = y + 8 \<or> p \<in> links (set zs)"
      then have "p \<noteq> q" using qy Cons by auto
      moreover have "p \<noteq> x + 4" "p \<noteq> x + 8" "p \<noteq> y + 4"
        using p room dist Cons by (auto simp: roomyNodes_def in_links)
      ultimately show "?h p = f p" using y by (simp add: g_def)
    qed
    with Cons r y qy room show ?thesis by (auto simp: g_def roomyNodes_def)
  qed
  show "q \<noteq> 0 \<Longrightarrow> chain ?h c (xs @ ys)" using lseg rest q by (simp add: chain_append)
qed

subsection \<open>Putting a node in\<close>

lemma chain_insert_before:
  assumes ch: "chain f c (xs @ y # ys)" and room: "roomyNodes c (insert x (set (xs @ y # ys)))"
    and dist: "distinct (xs @ y # ys)" "x \<notin> set (xs @ y # ys)" "x \<noteq> 0"
  shows "chain (f(x + 4 := f (y + 4), f (y + 4) := x, x + 8 := y, y + 4 := x + 8)) c (xs @ x # y # ys)"
    and "f (y + 4) = tailCell c xs"
proof -
  have s: "lseg f c xs" and q: "f (tailCell c xs) = y" "y \<noteq> 0" "f (y + 4) = tailCell c xs"
    and r: "chain f (y + 8) ys"
    using ch by (auto simp: chain_append)
  show "f (y + 4) = tailCell c xs" by (rule q)
  define q' where "q' = tailCell c xs"
  have roomx: "roomyNodes c (set xs)" using room by (rule roomyNodes_mono) auto
  have "roomyNodes c (set xs \<union> insert x (set (y # ys)))" using room by (rule roomyNodes_mono) auto
  then have qy: "q' \<notin> links (insert x (set (y # ys)))"
    unfolding q'_def by (rule tailCell_fresh) (use dist in auto)
  let ?h = "f(x + 4 := q', q' := x, x + 8 := y, y + 4 := x + 8)"
  have out: "p \<notin> links (set xs)" "p \<noteq> c" if "p \<in> {x + 4, x + 8, y + 4}" for p
    using that room dist by (auto simp: roomyNodes_def in_links)
  have "lseg ?h c xs = lseg (f(x + 4 := q', q' := x)) c xs" using out by (auto simp: lseg_upd_other)
  also have "\<dots> = lseg (f(x + 4 := q')) c xs"
    unfolding q'_def using roomx dist by (intro lseg_upd_tail) auto
  also have "\<dots> = lseg f c xs" using out by (auto simp: lseg_upd_other)
  finally have lseg: "lseg ?h c xs" using s by simp
  have "chain ?h (y + 8) ys = chain f (y + 8) ys"
  proof (rule chain_cong)
    fix p assume p: "p = y + 8 \<or> p \<in> links (set ys)"
    then have "p \<noteq> q'" using qy by auto
    moreover have "p \<noteq> x + 4" "p \<noteq> x + 8" "p \<noteq> y + 4"
      using p room dist by (auto simp: roomyNodes_def in_links)
    ultimately show "?h p = f p" by simp
  qed
  with lseg r q qy dist room
  show "chain (f(x + 4 := f (y + 4), f (y + 4) := x, x + 8 := y, y + 4 := x + 8)) c (xs @ x # y # ys)"
    by (auto simp: chain_append q'_def [symmetric] roomyNodes_def)
qed

lemma chain_insert_last:
  assumes ch: "chain f c (xs @ [y])" and room: "roomyNodes c (insert x (set (xs @ [y])))"
    and dist: "distinct (xs @ [y])" "x \<notin> set (xs @ [y])" "x \<noteq> 0"
  shows "chain (f(x + 8 := 0, y + 8 := x, x + 4 := y + 8)) c (xs @ [y, x])"
proof -
  have s: "lseg f c (xs @ [y])" using ch by (auto simp: chain_append lseg_append)
  have tc: "tailCell c (xs @ [y]) = y + 8" by simp
  have roomx: "roomyNodes c (set (xs @ [y]))" using room by (rule roomyNodes_mono) auto
  have out: "p \<notin> links (set (xs @ [y]))" "p \<noteq> c" if "p \<in> {x + 4, x + 8}" for p
    using that room dist by (auto simp: roomyNodes_def in_links)
  have "lseg (f(x + 8 := 0, y + 8 := x, x + 4 := y + 8)) c (xs @ [y])
      = lseg (f(x + 8 := 0, y + 8 := x)) c (xs @ [y])" using out by (intro lseg_upd_other) auto
  also have "\<dots> = lseg (f(x + 8 := 0)) c (xs @ [y])"
    using lseg_upd_tail [OF roomx dist(1), of "f(x + 8 := 0)" x] by (simp add: tc)
  also have "\<dots> = lseg f c (xs @ [y])" using out by (intro lseg_upd_other) auto
  finally have "lseg (f(x + 8 := 0, y + 8 := x, x + 4 := y + 8)) c (xs @ [y])" using s by simp
  moreover have "chain (f(x + 8 := 0, y + 8 := x, x + 4 := y + 8)) (y + 8) [x]"
    using dist room by (auto simp: roomyNodes_def)
  ultimately show ?thesis using chain_append [of _ c "xs @ [y]" "[x]"] by simp
qed

lemma chain_first:
  assumes "roomyNodes c {x}" "x \<noteq> 0" "f (x + 8) = 0"
  shows "chain (f(c := x, x + 4 := c)) c [x]"
  using assms by (auto simp: roomyNodes_def)

end
