(* ===== verification/KHeap.thy ===== *)
theory KHeap
  imports KMalloc KChain
begin

text \<open>
  The state of the allocator as a whole. \<open>layout\<close> says that chunks tile the heap, \<open>pool\<close> that
  memory holds such a tiling: tags at both ends of every chunk, every free chunk on exactly one
  list, the bitmap marking exactly the allocated chunks. The lemmas show that each operation of
  \<open>KMalloc\<close> on lists keeps the pool.
\<close>

subsection \<open>Aligned words\<close>

definition ramWords :: "Ram \<Rightarrow> nat \<Rightarrow> u32" where
  "ramWords m p = (if 4 dvd p then load32 m p else 0)"

definition ptrs :: "Ram \<Rightarrow> nat \<Rightarrow> nat" where
  "ptrs m p = unat (ramWords m p)"

definition tags :: "Ram \<Rightarrow> nat \<Rightarrow> ChunkTag" where
  "tags m p = decodeTag (ramWords m p)"

text \<open>The bytes of a chunk or tag that a tag stands for.\<close>

definition tagBytes :: "ChunkTag \<Rightarrow> nat" where
  "tagBytes t = unat (readSize t)"

lemma unat_of_nat32: "n < 2 ^ 32 \<Longrightarrow> unat (of_nat n :: u32) = n"
  by (rule unat_of_nat_small) simp

lemma decode_encodeTag [simp]: "decodeTag (encodeTag t) = t"
proof -
  have "tagSize (decodeTag (encodeTag t)) = tagSize t"
    unfolding decodeTag_def encodeTag_def
    by (simp only: ChunkTag.select_convs, rule bit_word_eqI) (auto simp: bit_simps)
  moreover have "tagPid (decodeTag (encodeTag t)) = tagPid t"
    unfolding decodeTag_def encodeTag_def
    by (simp only: ChunkTag.select_convs, rule bit_word_eqI) (auto simp: bit_simps dest: bit_imp_le_length)
  moreover have "tagFree (decodeTag (encodeTag t)) = tagFree t"
    unfolding decodeTag_def encodeTag_def
    by (auto simp: bit_simps dest: bit_imp_le_length)
  ultimately show ?thesis by (intro ChunkTag.equality) auto
qed

lemma ramWords_store32 [simp]:
  "4 dvd p \<Longrightarrow> ramWords (store32 p v m) = (ramWords m)(p := v)"
  by (auto simp: ramWords_def load32_store32_aligned fun_eq_iff)

lemma loadPtr_ptrs: "4 dvd p \<Longrightarrow> loadPtr m p = ptrs m p"
  by (simp add: ptrs_def loadPtr_def ramWords_def)

lemma readTag_tags: "4 dvd p \<Longrightarrow> readTag m p = tags m p"
  by (simp add: tags_def readTag_def ramWords_def)

lemma ptrs_storePtr:
  "4 dvd p \<Longrightarrow> v < 2 ^ 32 \<Longrightarrow> ptrs (storePtr p v m) = (ptrs m)(p := v)"
  by (auto simp: ptrs_def storePtr_def unat_of_nat32 fun_eq_iff)

lemma tags_writeTag: "4 dvd p \<Longrightarrow> tags (writeTag p t m) = (tags m)(p := t)"
  by (auto simp: tags_def writeTag_def fun_eq_iff)

lemma tags_storePtr_other: "4 dvd p \<Longrightarrow> q \<noteq> p \<Longrightarrow> tags (storePtr p v m) q = tags m q"
  by (simp add: tags_def storePtr_def)

lemma ptrs_writeTag_other: "4 dvd p \<Longrightarrow> q \<noteq> p \<Longrightarrow> ptrs (writeTag p t m) q = ptrs m q"
  by (simp add: ptrs_def writeTag_def)

lemma ramWords_cong:
  "(\<And>x. p \<le> x \<Longrightarrow> x < p + 4 \<Longrightarrow> m' x = m x) \<Longrightarrow> ramWords m' p = ramWords m p"
  by (simp add: ramWords_def load32_def)

lemma ptrs_less [simp]: "ptrs m p < 4294967296"
  by (simp add: ptrs_def)

lemma tagBytes_eq: "tagBytes t = 8 * unat (tagSize t)"
proof -
  define n where "n = unat (tagSize t)"
  have n: "n < 2 ^ 24" using unsigned_less [of "tagSize t"] by (simp add: n_def)
  have "readSize t = of_nat (push_bit 3 n)"
    by (simp only: readSize_def ucast_of_unat n_def push_bit_of_nat)
  also have "push_bit 3 n = 8 * n" by (simp add: push_bit_eq_mult)
  finally have "tagBytes t = unat (of_nat (8 * n) :: u32)" by (simp only: tagBytes_def)
  also have "\<dots> = 8 * n" using n by (intro unat_of_nat32) simp
  finally show ?thesis by (simp only: n_def)
qed

text \<open>A size that is a multiple of eight below \<open>2 ^ 27\<close> survives the 24 bits of the tag.\<close>

lemma tagBytes_write:
  assumes "8 dvd unat sz" "unat sz < 2 ^ 27"
  shows "tagBytes (t\<lparr>tagSize := ucast (drop_bit 3 sz)\<rparr>) = unat (sz :: u32)"
proof -
  have n: "unat sz div 8 < 2 ^ 24" using assms(2) by simp
  have "unat (ucast (drop_bit 3 sz) :: 24 word) = unat (of_nat (unat sz div 8) :: 24 word)"
    by (simp only: ucast_of_unat unat_drop_bit_eq) (simp add: drop_bit_eq_div)
  also have "\<dots> = unat sz div 8" using n by (intro unat_of_nat_small) simp
  finally have "tagBytes (t\<lparr>tagSize := ucast (drop_bit 3 sz)\<rparr>) = 8 * (unat sz div 8)"
    by (simp add: tagBytes_eq)
  then show ?thesis using assms(1) by simp
qed

lemma getSize_tags: "4 dvd a \<Longrightarrow> unat (getSize m a) = tagBytes (tags m a)"
  by (simp add: getSize_def readTag_tags tagBytes_def)

subsection \<open>Tilings\<close>

definition layout :: "nat \<Rightarrow> nat \<Rightarrow> (nat \<rightharpoonup> nat) \<Rightarrow> bool" where
  "layout base high C =
     (base \<in> dom C \<and>
      (\<forall>a s. C a = Some s \<longrightarrow> base \<le> a \<and> a mod 8 = 4 \<and> 8 dvd s \<and> 16 \<le> s \<and> a + s \<le> high
         \<and> (a + s = high \<or> a + s \<in> dom C)
         \<and> (a = base \<or> (\<exists>b t. C b = Some t \<and> b + t = a))
         \<and> (\<forall>b\<in>dom C. a < b \<longrightarrow> a + s \<le> b)))"

lemma layoutD:
  assumes "layout base high C" "C a = Some s"
  shows "base \<le> a" "a mod 8 = 4" "8 dvd s" "16 \<le> s" "a + s \<le> high"
    and "a + s = high \<or> a + s \<in> dom C" "a = base \<or> (\<exists>b t. C b = Some t \<and> b + t = a)"
    and "b \<in> dom C \<Longrightarrow> a < b \<Longrightarrow> a + s \<le> b"
  using assms unfolding layout_def by blast+

lemma layout_apart:
  assumes "layout base high C" "C a = Some s" "C b = Some t" "a \<noteq> b"
  shows "a + s \<le> b \<or> b + t \<le> a"
  using assms layoutD(8) [OF assms(1), of a s b] layoutD(8) [OF assms(1), of b t a]
  by (metis domI linorder_neqE_nat)

lemma layout_aligned: "layout base high C \<Longrightarrow> a \<in> dom C \<Longrightarrow> 4 dvd a"
  using layoutD(2) [of base high C a] by (auto simp: dom_def) presburger

lemma layout_pos: "layout base high C \<Longrightarrow> a \<in> dom C \<Longrightarrow> 0 < a"
  using layoutD(2) [of base high C a] by (cases a) (auto simp: dom_def)

lemma layout_below: "layout base high C \<Longrightarrow> a \<in> dom C \<Longrightarrow> a + 16 \<le> high \<and> base \<le> a"
  using layoutD(1,4,5) [of base high C a] by (force simp: dom_def)

lemma layout_far:
  assumes "layout base high C" "a \<in> dom C" "b \<in> dom C" "a \<noteq> b"
  shows "a + 16 \<le> b \<or> b + 16 \<le> a"
  using assms layout_apart [OF assms(1)] layoutD(4) [OF assms(1)] by (fastforce simp: dom_def)

text \<open>The addresses of the 256 list heads.\<close>

definition cells :: "nat \<Rightarrow> nat set" where
  "cells hdr = cleanBin hdr ` {..<MAX_BINS} \<union> dirtyBin hdr ` {..<MAX_BINS}"

lemma cells_bounds: "c \<in> cells hdr \<Longrightarrow> hdr + 4 \<le> c \<and> c + 4 \<le> hdr + 4 + 8 * MAX_BINS"
  by (auto simp: cells_def cleanBin_def dirtyBin_def)

lemma cells_aligned: "4 dvd hdr \<Longrightarrow> c \<in> cells hdr \<Longrightarrow> 4 dvd c"
  by (auto simp: cells_def cleanBin_def dirtyBin_def)

lemma cells_intro [intro, simp]:
  "i < MAX_BINS \<Longrightarrow> cleanBin hdr i \<in> cells hdr" "i < MAX_BINS \<Longrightarrow> dirtyBin hdr i \<in> cells hdr"
  by (auto simp: cells_def)

lemma bins_distinct [simp]:
  "cleanBin hdr i \<noteq> dirtyBin hdr j" "dirtyBin hdr j \<noteq> cleanBin hdr i"
  "cleanBin hdr i = cleanBin hdr j \<longleftrightarrow> i = j" "dirtyBin hdr i = dirtyBin hdr j \<longleftrightarrow> i = j"
  unfolding cleanBin_def dirtyBin_def by presburger+

subsection \<open>The pool\<close>

definition tagsOk :: "Ram \<Rightarrow> (nat \<rightharpoonup> nat) \<Rightarrow> nat set \<Rightarrow> bool" where
  "tagsOk m C U =
     (\<forall>a s. C a = Some s \<longrightarrow> tagBytes (tags m a) = s \<and> tagBytes (tags m (a + s - 4)) = s
        \<and> tagFree (tags m a) = (a \<notin> U) \<and> tagFree (tags m (a + s - 4)) = (a \<notin> U))"

definition bitmapBit :: "nat \<Rightarrow> Ram \<Rightarrow> nat \<Rightarrow> bool" where
  "bitmapBit hdr m i = bit (m (bitmapAt hdr (i div 8))) (7 - i mod 8)"

definition bitmapOk :: "nat \<Rightarrow> nat \<Rightarrow> Ram \<Rightarrow> nat set \<Rightarrow> bool" where
  "bitmapOk hdr base m U =
     (\<forall>i < 8 * ALLOCATION_BITMAP_SIZE. bitmapBit hdr m i = (\<exists>a\<in>U. (a + 4 - base) div 16 = i))"

text \<open>\<open>L\<close> gives the list of each cell, \<open>H\<close> the free chunks an operation holds in its hands.\<close>

definition listsOk :: "nat \<Rightarrow> Ram \<Rightarrow> (nat \<Rightarrow> nat list) \<Rightarrow> nat set \<Rightarrow> nat set \<Rightarrow> bool" where
  "listsOk hdr m L F H =
     ((\<forall>c\<in>cells hdr. chain (ptrs m) c (L c) \<and> distinct (L c)) \<and>
      (\<forall>c\<in>cells hdr. \<forall>d\<in>cells hdr. c \<noteq> d \<longrightarrow> set (L c) \<inter> set (L d) = {}) \<and>
      (\<Union>c\<in>cells hdr. set (L c)) = F \<and>
      (\<forall>x\<in>H. ptrs m (x + 4) = 0 \<and> ptrs m (x + 8) = 0))"

definition pool :: "nat \<Rightarrow> nat \<Rightarrow> nat \<Rightarrow> Ram \<Rightarrow> (nat \<rightharpoonup> nat) \<Rightarrow> nat set \<Rightarrow> (nat \<Rightarrow> nat list) \<Rightarrow> nat set \<Rightarrow> bool" where
  "pool hdr base high m C U L H =
     (layout base high C \<and> U \<subseteq> dom C \<and> H \<subseteq> dom C - U \<and> tagsOk m C U \<and>
      listsOk hdr m L (dom C - U - H) H \<and> bitmapOk hdr base m U)"

text \<open>The bytes of a cell and of the links of the chunks in \<open>S\<close>: what list operations write.\<close>

definition linkBytes :: "nat \<Rightarrow> nat set \<Rightarrow> nat set" where
  "linkBytes c S = {c..<c + 4} \<union> (\<Union>x\<in>S. {x + 4..<x + 12})"

definition onlyLinks :: "nat \<Rightarrow> nat set \<Rightarrow> Ram \<Rightarrow> Ram \<Rightarrow> bool" where
  "onlyLinks c S m m' = (\<forall>x. x \<notin> linkBytes c S \<longrightarrow> m' x = m x)"

text \<open>The bytes of the chunks in \<open>U\<close>.\<close>

definition chunkBytes :: "(nat \<rightharpoonup> nat) \<Rightarrow> nat set \<Rightarrow> nat set" where
  "chunkBytes C U = (\<Union>a\<in>U. {a..<a + the (C a)})"

definition sameOn :: "nat set \<Rightarrow> Ram \<Rightarrow> Ram \<Rightarrow> bool" where
  "sameOn A m m' = (\<forall>x\<in>A. m' x = m x)"

lemma sameOn_refl [simp]: "sameOn A m m"
  by (simp add: sameOn_def)

lemma sameOn_trans: "sameOn A m m' \<Longrightarrow> sameOn A m' m'' \<Longrightarrow> sameOn A m m''"
  by (simp add: sameOn_def)

lemma sameOn_sub: "sameOn A m m' \<Longrightarrow> B \<subseteq> A \<Longrightarrow> sameOn B m m'"
  by (auto simp: sameOn_def)

lemma onlyLinks_refl [simp]: "onlyLinks c S m m"
  by (simp add: onlyLinks_def)

lemma onlyLinks_trans: "onlyLinks c S m m' \<Longrightarrow> onlyLinks c S m' m'' \<Longrightarrow> onlyLinks c S m m''"
  by (simp add: onlyLinks_def)

lemma onlyLinks_mono: "onlyLinks c S m m' \<Longrightarrow> S \<subseteq> T \<Longrightarrow> onlyLinks c T m m'"
  by (auto simp: onlyLinks_def linkBytes_def)

lemma onlyLinks_storePtr:
  assumes "onlyLinks c S m m'" "p = c \<or> p \<in> links S"
  shows "onlyLinks c S m (storePtr p v m')"
  using assms by (fastforce simp: onlyLinks_def linkBytes_def storePtr_def in_links)

lemma onlyLinks_byte:
  "onlyLinks c S m m' \<Longrightarrow> x \<notin> linkBytes c S \<Longrightarrow> m' x = m x"
  by (simp add: onlyLinks_def)

lemma onlyLinks_word:
  assumes "onlyLinks c S m m'" "4 dvd c" "\<And>x. x \<in> S \<Longrightarrow> 4 dvd x" "p \<noteq> c" "p \<notin> links S"
  shows "ramWords m' p = ramWords m p"
proof (cases "4 dvd p")
  case True
  have "p + 4 \<le> c \<or> c + 4 \<le> p" using True assms(2,4) by (auto elim!: dvdE)
  moreover have "p + 4 \<le> x + 4 \<or> x + 12 \<le> p" if "x \<in> S" for x
  proof -
    have "p \<noteq> x + 4" "p \<noteq> x + 8" using assms(5) that by (auto simp: in_links)
    then show ?thesis using True assms(3) [OF that] by presburger
  qed
  ultimately show ?thesis
    by (intro ramWords_cong onlyLinks_byte [OF assms(1)]) (fastforce simp: linkBytes_def)
qed (simp add: ramWords_def)

lemma onlyLinks_ptrs:
  assumes "onlyLinks c S m m'" "4 dvd c" "\<And>x. x \<in> S \<Longrightarrow> 4 dvd x" "p \<noteq> c" "p \<notin> links S"
  shows "ptrs m' p = ptrs m p"
  using onlyLinks_word [OF assms] by (simp add: ptrs_def)

lemma onlyLinks_tags:
  assumes "onlyLinks c S m m'" "4 dvd c" "\<And>x. x \<in> S \<Longrightarrow> 4 dvd x" "p \<noteq> c" "p \<notin> links S"
  shows "tags m' p = tags m p"
  using onlyLinks_word [OF assms] by (simp add: tags_def)

subsection \<open>List operations on memory\<close>

lemma unlinkChunk_chain:
  assumes ch: "chain (ptrs m) c (xs @ x # ys)" and room: "roomyNodes c (set (xs @ x # ys))"
    and dist: "distinct (xs @ x # ys)" and al: "4 dvd c" "\<And>z. z \<in> set (xs @ x # ys) \<Longrightarrow> 4 dvd z"
    and c: "c \<noteq> 0"
  shows "\<exists>m'. unlinkChunk x m = Some m' \<and> chain (ptrs m') c (xs @ ys)
    \<and> ptrs m' (x + 4) = 0 \<and> ptrs m' (x + 8) = 0 \<and> onlyLinks c (set (xs @ x # ys)) m m'"
proof -
  define q where "q = ptrs m (x + 4)"
  define n where "n = ptrs m (x + 8)"
  have q: "q = tailCell c xs" and n: "n = (case ys of [] \<Rightarrow> 0 | y # _ \<Rightarrow> y)"
    using chain_unlink(2,3) [OF ch room dist] by (simp_all add: q_def n_def)
  have q0: "q \<noteq> 0" "4 dvd q" "q = c \<or> q \<in> links (set xs)"
    using q tailCell_cases [of c xs] c al by (auto simp: in_links)
  have x: "4 dvd x" "4 dvd x + 4" "4 dvd x + 8" "x \<noteq> 0" using al(2) [of x] ch by (auto simp: chain_append)
  have n4: "4 dvd n + 4" "n + 4 \<noteq> x + 4" "n + 4 \<noteq> x + 8" if "n \<noteq> 0"
    using that n al(2) dist room by (auto split: list.splits simp: roomyNodes_def)
  have small: "q < 2 ^ 32" "n < 2 ^ 32" by (simp_all add: q_def n_def)
  have qx: "q \<noteq> x + 4" "q \<noteq> x + 8" "n \<noteq> 0 \<Longrightarrow> q \<noteq> n + 4"
    using tailCell_fresh [of c xs "set (x # ys)"] room dist q n
    by (auto simp: in_links split: list.splits)
  define m1 where "m1 = storePtr q n m"
  define m2 where "m2 = (if n \<noteq> 0 then storePtr (n + 4) q m1 else m1)"
  define m3 where "m3 = storePtr (x + 8) 0 (storePtr (x + 4) 0 m2)"
  have p1: "ptrs m1 = (ptrs m)(q := n)" using q0 small by (simp add: m1_def ptrs_storePtr)
  have p2: "ptrs m2 = (if n \<noteq> 0 then (ptrs m1)(n + 4 := q) else ptrs m1)"
    using n4 small by (simp add: m2_def ptrs_storePtr)
  have p3: "ptrs m3 = (ptrs m2)(x + 4 := 0, x + 8 := 0)"
    using x by (simp add: m3_def ptrs_storePtr)
  have l1: "loadPtr m (prevOf x) = q" "loadPtr m (nextOf x) = n" "loadPtr m1 (prevOf x) = q" "loadPtr m1 (nextOf x) = n"
    using x qx by (simp_all add: loadPtr_ptrs p1 q_def n_def)
  have "unlinkChunk x m = Some m3"
    using q0 x by (simp add: unlinkChunk_def removeChunk_def l1 Let_def m1_def [symmetric])
      (simp add: m2_def m3_def l1 Let_def)
  moreover have "chain (ptrs m3) c (xs @ ys)"
    using chain_unlink(1) [OF ch room dist, folded q_def n_def] q0(1) by (simp add: p3 p2 p1 split: if_splits)
  moreover have "onlyLinks c (set (xs @ x # ys)) m m3"
  proof -
    have "n \<noteq> 0 \<Longrightarrow> n + 4 \<in> links (set ys)" using n by (auto split: list.splits)
    then have "onlyLinks c (set (xs @ x # ys)) m m2"
      unfolding m2_def m1_def using q0 by (auto intro!: onlyLinks_storePtr)
    then show ?thesis unfolding m3_def by (auto intro!: onlyLinks_storePtr)
  qed
  ultimately show ?thesis by (auto simp: p3)
qed

lemma insertChunkBefore_chain:
  assumes ch: "chain (ptrs m) c (xs @ y # ys)" and room: "roomyNodes c (insert x (set (xs @ y # ys)))"
    and dist: "distinct (xs @ y # ys)" "x \<notin> set (xs @ y # ys)" "x \<noteq> 0"
    and al: "4 dvd c" "\<And>z. z \<in> insert x (set (xs @ y # ys)) \<Longrightarrow> 4 dvd z"
    and c: "c \<noteq> 0" and small: "x + 8 < 2 ^ 32"
  shows "\<exists>m'. insertChunkBefore y x m = Some m' \<and> chain (ptrs m') c (xs @ x # y # ys)
    \<and> onlyLinks c (insert x (set (xs @ y # ys))) m m'"
proof -
  define q where "q = ptrs m (y + 4)"
  have q: "q = tailCell c xs" using chain_insert_before(2) [OF ch room dist] by (simp add: q_def)
  have q0: "q \<noteq> 0" "4 dvd q" "q = c \<or> q \<in> links (set xs)"
    using q tailCell_cases [of c xs] c al by (auto simp: in_links)
  have x: "4 dvd x + 4" "4 dvd x + 8" "x \<noteq> 0" "4 dvd y + 4" "y \<noteq> 0" "y < 2 ^ 32"
    using al(2) [of x] al(2) [of y] ch dist ptrs_less [of m "tailCell c xs"] by (auto simp: chain_append)
  have "roomyNodes c (set xs \<union> insert x (set (y # ys)))" using room by (rule roomyNodes_mono) auto
  then have "q \<notin> links (insert x (set (y # ys)))"
    unfolding q by (rule tailCell_fresh) (use dist in auto)
  then have qx: "q \<noteq> x + 4" "q \<noteq> x + 8" "q \<noteq> y + 4" by auto
  have xy: "x + 8 \<noteq> y + 4" "x \<noteq> y" using room dist by (auto simp: roomyNodes_def)
  define m1 where "m1 = storePtr (x + 4) q m"
  define m2 where "m2 = storePtr q x m1"
  define m3 where "m3 = storePtr (x + 8) y m2"
  define m4 where "m4 = storePtr (y + 4) (x + 8) m3"
  have q_small: "q < 4294967296" by (simp add: q_def)
  have p: "ptrs m4 = (ptrs m)(x + 4 := q, q := x, x + 8 := y, y + 4 := x + 8)"
    using x q0 q_small small by (simp add: m4_def m3_def m2_def m1_def ptrs_storePtr)
  have "loadPtr m1 (prevOf x) = q" using x q_small by (simp add: m1_def loadPtr_ptrs ptrs_storePtr)
  then have "insertChunkBefore y x m = Some m4"
    using x q0(1) by (simp add: insertChunkBefore_def loadPtr_ptrs q_def [symmetric] m1_def [symmetric] Let_def)
      (simp add: m4_def m3_def m2_def)
  moreover have "chain (ptrs m4) c (xs @ x # y # ys)"
    using chain_insert_before(1) [OF ch room dist, folded q_def] by (simp add: p)
  moreover have "onlyLinks c (insert x (set (xs @ y # ys))) m m4"
    unfolding m4_def m3_def m2_def m1_def using q0(3) by (auto intro!: onlyLinks_storePtr)
  ultimately show ?thesis by blast
qed

lemma insertChunkAfter_chain:
  assumes ch: "chain (ptrs m) c (xs @ [y])" and room: "roomyNodes c (insert x (set (xs @ [y])))"
    and dist: "distinct (xs @ [y])" "x \<notin> set (xs @ [y])" "x \<noteq> 0"
    and al: "\<And>z. z \<in> insert x (set (xs @ [y])) \<Longrightarrow> 4 dvd z" and small: "x < 2 ^ 32" "y + 8 < 2 ^ 32"
  shows "\<exists>m'. insertChunkAfter y x m = Some m' \<and> chain (ptrs m') c (xs @ [y, x])
    \<and> onlyLinks c (insert x (set (xs @ [y]))) m m'"
proof -
  have y: "ptrs m (y + 8) = 0" "y \<noteq> 0" using ch by (auto simp: chain_append)
  have x: "4 dvd x + 4" "4 dvd x + 8" "4 dvd y + 8" using al [of x] al [of y] by auto
  define m1 where "m1 = storePtr (x + 8) 0 m"
  define m2 where "m2 = storePtr (y + 8) x m1"
  define m3 where "m3 = storePtr (x + 4) (y + 8) m2"
  have p1: "ptrs m1 = (ptrs m)(x + 8 := 0)" using x by (simp add: m1_def ptrs_storePtr)
  have p: "ptrs m3 = (ptrs m)(x + 8 := 0, y + 8 := x, x + 4 := y + 8)"
    using x small by (simp add: m3_def m2_def p1 ptrs_storePtr)
  have "insertChunkAfter y x m = Some m3"
    using x y dist by (simp add: insertChunkAfter_def loadPtr_ptrs Let_def m1_def [symmetric] p1)
      (simp add: m3_def m2_def)
  moreover have "chain (ptrs m3) c (xs @ [y, x])"
    using chain_insert_last [OF ch room dist] by (simp add: p)
  moreover have "onlyLinks c (insert x (set (xs @ [y]))) m m3"
    unfolding m3_def m2_def m1_def by (auto intro!: onlyLinks_storePtr)
  ultimately show ?thesis by blast
qed

lemma binFirst_chain:
  assumes "ptrs m (x + 8) = 0" "roomyNodes c {x}" "x \<noteq> 0" "4 dvd c" "4 dvd x" "x < 2 ^ 32" "c < 2 ^ 32"
  shows "chain (ptrs (binFirst c x m)) c [x]" "onlyLinks c {x} m (binFirst c x m)"
proof -
  have "ptrs (binFirst c x m) = (ptrs m)(c := x, x + 4 := c)"
    using assms by (simp add: binFirst_def ptrs_storePtr)
  then show "chain (ptrs (binFirst c x m)) c [x]" using chain_first [of c x "ptrs m"] assms by simp
  show "onlyLinks c {x} m (binFirst c x m)"
    unfolding binFirst_def by (auto intro!: onlyLinks_storePtr)
qed

text \<open>The chunk lists are kept in address order: the walk of \<open>binChunk\<close> is an \<open>insort\<close>.\<close>

lemma signed_less_high:
  assumes "2 ^ 31 \<le> a" "a < 2 ^ 32" "2 ^ 31 \<le> b" "b < 2 ^ 32"
  shows "(of_nat a :: u32) <s of_nat b \<longleftrightarrow> a < b"
proof -
  have "sint (of_nat n :: u32) = int n - 2 ^ 32" if "2 ^ 31 \<le> n" "n < 2 ^ 32" for n
  proof -
    have "sint (of_nat n :: u32) = signed_take_bit 31 (int n)" by (simp add: signed_of_nat)
    also have "\<dots> = (int n + 2 ^ 31) mod 2 ^ 32 - 2 ^ 31"
      by (simp add: signed_take_bit_eq_take_bit_shift take_bit_eq_mod)
    also have "(int n + 2 ^ 31) mod 2 ^ 32 = int n - 2 ^ 31"
      using that by (subst mod_pos_geq) (auto simp: mod_pos_pos_trivial)
    finally show ?thesis by simp
  qed
  then show ?thesis using assms by (simp add: word_sless_alt)
qed

lemma binSorted_chain:
  assumes "chain (ptrs m) c (xs @ y # ys)" "roomyNodes c (insert x (set (xs @ y # ys)))"
    and "distinct (xs @ y # ys)" "x \<notin> set (xs @ y # ys)"
    and "4 dvd c" "c \<noteq> 0"
    and al: "\<And>z. z \<in> insert x (set (xs @ y # ys)) \<Longrightarrow> 4 dvd z \<and> 2 ^ 31 \<le> z \<and> z + 8 < 2 ^ 32"
  shows "\<exists>m'. binSorted x y m = Some m' \<and> chain (ptrs m') c (xs @ insort x (y # ys))
    \<and> onlyLinks c (insert x (set (xs @ y # ys))) m m'"
  using assms
proof (induction ys arbitrary: xs y)
  case Nil
  have y: "y \<noteq> 0" "ptrs m (y + 8) = 0" using Nil.prems(1) by (auto simp: chain_append)
  have x0: "x \<noteq> 0" using Nil.prems(7) [of x] by auto
  have less: "((of_nat x :: u32) <s of_nat y) = (x < y)"
    using Nil.prems(7) [of x] Nil.prems(7) [of y] by (intro signed_less_high) auto
  show ?case
  proof (cases "x < y")
    case True
    with Nil x0 insertChunkBefore_chain [of m c xs y "[]" x] y less show ?thesis
      by (subst binSorted.simps) auto
  next
    case False
    then have "insort x [y] = [y, x]" using Nil.prems(4) by auto
    moreover have x32: "x < 2 ^ 32" using Nil.prems(7) [of x] by simp
    ultimately show ?thesis
      using False Nil x0 insertChunkAfter_chain [of m c xs y x] y less
      by (subst binSorted.simps) (auto simp: loadPtr_ptrs)
  qed
next
  case (Cons z zs)
  have y: "y \<noteq> 0" "ptrs m (y + 8) = z" "z \<noteq> 0" using Cons.prems(1) by (auto simp: chain_append)
  have x0: "x \<noteq> 0" using Cons.prems(7) [of x] by auto
  have less: "((of_nat x :: u32) <s of_nat y) = (x < y)"
    using Cons.prems(7) [of x] Cons.prems(7) [of y] by (intro signed_less_high) auto
  show ?case
  proof (cases "x < y")
    case True
    have "\<exists>m'. insertChunkBefore y x m = Some m' \<and> chain (ptrs m') c (xs @ x # y # z # zs)
        \<and> onlyLinks c (insert x (set (xs @ y # z # zs))) m m'"
      using Cons.prems x0 by (intro insertChunkBefore_chain) auto
    then show ?thesis using True y less by (subst binSorted.simps) auto
  next
    case False
    have "\<exists>m'. binSorted x z m = Some m' \<and> chain (ptrs m') c ((xs @ [y]) @ insort x (z # zs))
        \<and> onlyLinks c (insert x (set ((xs @ [y]) @ z # zs))) m m'"
      using Cons.prems by (intro Cons.IH) auto
    moreover have "insort x (y # z # zs) = y # insort x (z # zs)" using False Cons.prems(4) by auto
    moreover have "4 dvd y" using Cons.prems(7) [of y] by simp
    then have "binSorted x y m = binSorted x z m"
      using False y less by (subst binSorted.simps) (simp add: loadPtr_ptrs)
    ultimately show ?thesis by simp
  qed
qed

subsection \<open>The memory map\<close>

text \<open>What the proofs need of the addresses: the header in front of the heap, all of it above
  \<open>2 ^ 31\<close> (so that signed comparison is address order), the heap small enough for the tags' 27
  bits and for the bitmap.\<close>

locale arena =
  fixes hdr base high :: nat
  assumes hdr: "2 ^ 31 \<le> hdr" "4 dvd hdr"
    and heap_above: "hdr + sizeofAllocHeader \<le> base" "base \<le> high"
    and heap_size: "high - base < 2 ^ 27" "high + 8 < 2 ^ 32"
    and bitmap_covers: "high - base \<le> 128 * ALLOCATION_BITMAP_SIZE"
begin

lemma base_high: "2 ^ 31 \<le> base" "0 < hdr" "hdr + 1028 \<le> base"
  using hdr heap_above by (auto simp: sizeofAllocHeader_def)

lemma cell_facts:
  assumes "c \<in> cells hdr"
  shows "4 dvd c" "c \<noteq> 0" "c + 4 \<le> hdr + 1028" "hdr + 4 \<le> c" "c < 2 ^ 32"
  using cells_bounds [OF assms] cells_aligned [OF hdr(2) assms] hdr base_high heap_above heap_size by auto

lemma chunk_facts:
  assumes "layout base high C" "a \<in> dom C"
  shows "4 dvd a" "2 ^ 31 \<le> a" "a + 8 < 2 ^ 32" "a \<noteq> 0" "base \<le> a" "a + 16 \<le> high" "a < 2 ^ 32"
  using layout_aligned [OF assms] layout_below [OF assms] base_high heap_size by auto

lemma cell_not_link: "layout base high C \<Longrightarrow> S \<subseteq> dom C \<Longrightarrow> c \<in> cells hdr \<Longrightarrow> c \<notin> links S"
  using cell_facts [of c] chunk_facts(5) base_high by (fastforce simp: in_links)

lemma room: "layout base high C \<Longrightarrow> S \<subseteq> dom C \<Longrightarrow> c \<in> cells hdr \<Longrightarrow> roomyNodes c S"
  unfolding roomyNodes_def using cell_not_link layout_far by fastforce

lemma links_apart:
  assumes "layout base high C" "S \<subseteq> dom C" "T \<subseteq> dom C" "S \<inter> T = {}"
  shows "links S \<inter> links T = {}"
  using assms layout_far [OF assms(1)] by (fastforce simp: in_links)

text \<open>No tag of a chunk is a list head or a link.\<close>

lemma tag_not_link:
  assumes "layout base high C" "S \<subseteq> dom C" "C a = Some s" "c \<in> cells hdr"
  shows "a \<noteq> c" "a + s - 4 \<noteq> c" "a \<notin> links S" "a + s - 4 \<notin> links S"
proof -
  have a: "a \<in> dom C" "16 \<le> s" using assms(1,3) layoutD(4) by auto
  show "a \<noteq> c" "a + s - 4 \<noteq> c"
    using chunk_facts(5) [OF assms(1) a(1)] a(2) cell_facts [OF assms(4)] base_high by linarith+
  have "x + 8 < a \<or> a = x \<or> a + s \<le> x" if "x \<in> S" for x
  proof -
    have "x \<in> dom C" using that assms(2) by auto
    then obtain t where t: "C x = Some t" by auto
    show ?thesis
      using layout_apart [OF assms(1,3) t] layoutD(4) [OF assms(1) t] by (cases "a = x") auto
  qed
  then show "a \<notin> links S" "a + s - 4 \<notin> links S"
    using a(2) by (fastforce simp: in_links)+
qed

lemma bitmap_not_link:
  assumes "layout base high C" "S \<subseteq> dom C" "c \<in> cells hdr" "i < ALLOCATION_BITMAP_SIZE"
  shows "bitmapAt hdr i \<notin> linkBytes c S"
proof -
  have "hdr + 1028 \<le> bitmapAt hdr i" "bitmapAt hdr i < base"
    using assms(4) heap_above by (auto simp: bitmapAt_def sizeofAllocHeader_def)
  then show ?thesis
    using cell_facts [OF assms(3)] chunk_facts(5) [OF assms(1)] assms(2)
    by (fastforce simp: linkBytes_def)
qed

text \<open>One list changes, its nodes coming from it or from the chunks in hand.\<close>

lemma pool_relink:
  assumes P: "pool hdr base high m C U L H" and c: "c \<in> cells hdr"
    and S: "S = set (L c) \<union> set xs" "set xs \<union> H' = set (L c) \<union> H" "set xs \<inter> H' = {}"
    and frame: "onlyLinks c S m m'" and ch: "chain (ptrs m') c xs" "distinct xs"
    and zero: "\<And>x. x \<in> H' \<Longrightarrow> x \<in> S \<Longrightarrow> ptrs m' (x + 4) = 0 \<and> ptrs m' (x + 8) = 0"
  shows "pool hdr base high m' C U (L(c := xs)) H'"
proof -
  have lay: "layout base high C" and U: "U \<subseteq> dom C" and H: "H \<subseteq> dom C - U" and T: "tagsOk m C U"
    and Ls: "listsOk hdr m L (dom C - U - H) H" and B: "bitmapOk hdr base m U"
    using P by (auto simp: pool_def)
  have Lc: "set (L d) \<subseteq> dom C - U - H" if "d \<in> cells hdr" for d
    using Ls that unfolding listsOk_def by blast
  have SC: "S \<subseteq> dom C - U" using S Lc [OF c] H by blast
  have al: "4 dvd x" if "x \<in> S" for x using chunk_facts(1) [OF lay] that SC by blast
  have c4: "4 dvd c" using cell_facts [OF c] by simp
  have SD: "S \<subseteq> dom C" using SC by blast
  have P': "ptrs m' p = ptrs m p" if "p \<noteq> c" "p \<notin> links S" for p
    by (rule onlyLinks_ptrs [OF frame c4 al that])
  have T': "tags m' p = tags m p" if "p \<noteq> c" "p \<notin> links S" for p
    by (rule onlyLinks_tags [OF frame c4 al that])
  have "tagsOk m' C U"
    using T tag_not_link [OF lay SD _ c] by (simp add: tagsOk_def T')
  moreover have "bitmapOk hdr base m' U"
  proof -
    have "m' (bitmapAt hdr (i div 8)) = m (bitmapAt hdr (i div 8))"
      if "i < 8 * ALLOCATION_BITMAP_SIZE" for i
      using that by (intro onlyLinks_byte [OF frame] bitmap_not_link [OF lay SD c]) auto
    then show ?thesis using B by (simp add: bitmapOk_def bitmapBit_def)
  qed
  moreover have "listsOk hdr m' (L(c := xs)) (dom C - U - H') H'"
  proof -
    have other: "chain (ptrs m') d (L d)" if d: "d \<in> cells hdr" "d \<noteq> c" for d
    proof -
      have "set (L d) \<inter> S = {}"
        using Ls Lc [OF d(1)] d c S(1,2) unfolding listsOk_def by blast
      then have "links (set (L d)) \<inter> links S = {}"
        using Lc [OF d(1)] by (intro links_apart [OF lay _ SD]) auto
      moreover have "c \<notin> links (set (L d))" "d \<notin> links S"
        using cell_not_link [OF lay _ c] cell_not_link [OF lay SD d(1)] Lc [OF d(1)] by auto
      ultimately have "chain (ptrs m') d (L d) = chain (ptrs m) d (L d)"
        using d(2) by (intro chain_cong P') auto
      then show ?thesis using Ls d by (auto simp: listsOk_def)
    qed
    have hands: "ptrs m' (x + 4) = 0 \<and> ptrs m' (x + 8) = 0" if x: "x \<in> H'" for x
    proof (cases "x \<in> S")
      case False
      then have xH: "x \<in> H" using x S by blast
      then have "{x} \<subseteq> dom C" "{x} \<inter> S = {}" using False H by auto
      note xs = this
      have "links {x} \<inter> links S = {}" by (rule links_apart [OF lay xs(1) SD xs(2)])
      moreover have "c \<notin> links {x}" by (rule cell_not_link [OF lay xs(1) c])
      ultimately have "ptrs m' (x + 4) = ptrs m (x + 4)" "ptrs m' (x + 8) = ptrs m (x + 8)"
        by (intro P'; auto)+
      then show ?thesis using Ls xH by (simp add: listsOk_def)
    qed (use zero x in auto)
    define W where "W = (\<Union>d\<in>cells hdr - {c}. set (L d))"
    have W: "W \<union> set (L c) = dom C - U - H" "W \<inter> set (L c) = {}"
      using Ls c unfolding listsOk_def W_def by blast+
    have "W \<union> set xs = dom C - U - H'"
      using W S(2,3) H by blast
    moreover have "(\<Union>d\<in>cells hdr. set ((L(c := xs)) d)) = W \<union> set xs"
      using c by (auto simp: W_def split: if_splits)
    moreover have "set xs \<inter> set (L d) = {}" if "d \<in> cells hdr" "d \<noteq> c" for d
      using that W S(2) H Lc [OF that(1)] unfolding W_def by blast
    ultimately show ?thesis
      using Ls other hands ch unfolding listsOk_def by (auto simp: disjoint_iff)
  qed
  moreover have "H' \<subseteq> dom C - U" using S Lc [OF c] H by blast
  ultimately show ?thesis using lay U by (simp add: pool_def)
qed

lemma poolD:
  assumes "pool hdr base high m C U L H"
  shows "layout base high C" "U \<subseteq> dom C" "H \<subseteq> dom C - U" "tagsOk m C U"
    "bitmapOk hdr base m U" "c \<in> cells hdr \<Longrightarrow> chain (ptrs m) c (L c)" "c \<in> cells hdr \<Longrightarrow> distinct (L c)"
    "c \<in> cells hdr \<Longrightarrow> set (L c) \<subseteq> dom C - U - H"
    "x \<in> H \<Longrightarrow> ptrs m (x + 4) = 0" "x \<in> H \<Longrightarrow> ptrs m (x + 8) = 0"
proof -
  show "layout base high C" "U \<subseteq> dom C" "H \<subseteq> dom C - U" "tagsOk m C U" "bitmapOk hdr base m U"
    using assms by (simp_all add: pool_def)
  have L: "listsOk hdr m L (dom C - U - H) H" using assms by (simp add: pool_def)
  then show "c \<in> cells hdr \<Longrightarrow> chain (ptrs m) c (L c)" "c \<in> cells hdr \<Longrightarrow> distinct (L c)"
    "x \<in> H \<Longrightarrow> ptrs m (x + 4) = 0" "x \<in> H \<Longrightarrow> ptrs m (x + 8) = 0"
    by (simp_all add: listsOk_def)
  have "(\<Union>c\<in>cells hdr. set (L c)) = dom C - U - H" using L by (simp add: listsOk_def)
  then show "c \<in> cells hdr \<Longrightarrow> set (L c) \<subseteq> dom C - U - H" by blast
qed

lemma pool_size:
  assumes "pool hdr base high m C U L H" "a \<in> dom C"
  shows "unat (getSize m a) = the (C a)" "getSize m a = of_nat (the (C a))"
proof -
  obtain s where s: "C a = Some s" using assms(2) by auto
  have lay: "layout base high C" using assms(1) by (rule poolD)
  have "tagBytes (tags m a) = s" using poolD(4) [OF assms(1)] s by (simp add: tagsOk_def)
  then show "unat (getSize m a) = the (C a)"
    using chunk_facts(1) [OF lay assms(2)] s by (simp add: getSize_tags)
  then have "of_nat (unat (getSize m a)) = (of_nat (the (C a)) :: u32)" by simp
  then show "getSize m a = of_nat (the (C a))" by simp
qed

lemma chunk_size:
  assumes "layout base high C" "a \<in> dom C"
  shows "16 \<le> the (C a)" "the (C a) < 2 ^ 27" "8 dvd the (C a)" "the (C a) \<le> high - base"
proof -
  obtain s where s: "C a = Some s" using assms(2) by auto
  show "16 \<le> the (C a)" "8 dvd the (C a)" "the (C a) \<le> high - base" "the (C a) < 2 ^ 27"
    using layoutD(1,3,4,5) [OF assms(1) s] s heap_size by auto
qed

lemma pool_unlink:
  assumes P: "pool hdr base high m C U L H" and c: "c \<in> cells hdr" and x: "x \<in> set (L c)"
  shows "\<exists>m'. unlinkChunk x m = Some m' \<and>
    pool hdr base high m' C U (L(c := remove1 x (L c))) (insert x H) \<and>
    onlyLinks c (set (L c)) m m'"
proof -
  note D = poolD [OF P]
  obtain xs ys where L: "L c = xs @ x # ys" "x \<notin> set xs" using split_list_first [OF x] by blast
  have dist: "distinct (xs @ x # ys)" using D(7) [OF c] L by simp
  have sub: "set (xs @ x # ys) \<subseteq> dom C" using D(8) [OF c] L by auto
  obtain m' where m': "unlinkChunk x m = Some m'" "chain (ptrs m') c (xs @ ys)"
    "ptrs m' (x + 4) = 0" "ptrs m' (x + 8) = 0" "onlyLinks c (set (xs @ x # ys)) m m'"
    using unlinkChunk_chain [of m c xs x ys] D(6) [OF c] L dist room [OF D(1) sub c] cell_facts(1,2) [OF c]
      chunk_facts(1) [OF D(1)] sub by (metis subsetD)
  have r: "remove1 x (L c) = xs @ ys" using L by (simp add: remove1_append)
  have "pool hdr base high m' C U (L(c := xs @ ys)) (insert x H)"
  proof (rule pool_relink [OF P c])
    show "set (L c) \<union> set (xs @ ys) = set (L c) \<union> set (xs @ ys)" ..
    show "set (xs @ ys) \<union> insert x H = set (L c) \<union> H" using L by auto
    show "set (xs @ ys) \<inter> insert x H = {}" using L dist D(8) [OF c] by auto
    show "onlyLinks c (set (L c) \<union> set (xs @ ys)) m m'"
      using m'(5) by (rule onlyLinks_mono) (simp add: L)
    show "ptrs m' (y + 4) = 0 \<and> ptrs m' (y + 8) = 0"
      if "y \<in> insert x H" "y \<in> set (L c) \<union> set (xs @ ys)" for y
      using that m' D(8) [OF c] L by auto
  qed (use m' dist in auto)
  with m' show ?thesis unfolding r by (auto simp: L)
qed

lemma pool_put:
  assumes P: "pool hdr base high m C U L H" and c: "c \<in> cells hdr" and x: "x \<in> H"
    and xs: "set xs = insert x (set (L c))" "distinct xs" "chain (ptrs m') c xs"
    and frame: "onlyLinks c (insert x (set (L c))) m m'"
  shows "pool hdr base high m' C U (L(c := xs)) (H - {x})"
proof (rule pool_relink [OF P c])
  show "set (L c) \<union> set xs = set (L c) \<union> set xs" ..
  show "set xs \<union> (H - {x}) = set (L c) \<union> H" using xs(1) x by auto
  show "set xs \<inter> (H - {x}) = {}" using xs(1) poolD(8) [OF P c] by auto
  show "onlyLinks c (set (L c) \<union> set xs) m m'" using frame by (rule onlyLinks_mono) (use xs(1) in auto)
  show "ptrs m' (y + 4) = 0 \<and> ptrs m' (y + 8) = 0" if "y \<in> H - {x}" "y \<in> set (L c) \<union> set xs" for y
    using that xs(1) poolD(8) [OF P c] by auto
qed (use xs in auto)

lemma held_facts:
  assumes P: "pool hdr base high m C U L H" and x: "x \<in> H" and c: "c \<in> cells hdr"
  shows "x \<in> dom C" "x \<notin> U" "x \<notin> set (L c)" "isUnlinked m x" "insert x (set (L c)) \<subseteq> dom C" "4 dvd x"
    "x \<noteq> 0"
proof -
  note D = poolD [OF P]
  show x1: "x \<in> dom C" "x \<notin> U" using D(3) x by auto
  show "x \<notin> set (L c)" using D(8) [OF c] x by auto
  show "insert x (set (L c)) \<subseteq> dom C" using D(8) [OF c] x1 by auto
  show "4 dvd x" "x \<noteq> 0" using chunk_facts [OF D(1) x1(1)] by auto
  then show "isUnlinked m x" using D(9,10) [OF x] by (simp add: isUnlinked_def loadPtr_ptrs)
qed

lemma pool_binFirst:
  assumes P: "pool hdr base high m C U L H" and c: "c \<in> cells hdr" and x: "x \<in> H" and e: "L c = []"
  shows "pool hdr base high (binFirst c x m) C U (L(c := [x])) (H - {x})"
    and "onlyLinks c {x} m (binFirst c x m)"
proof -
  note h = held_facts [OF P x c] and D = poolD [OF P]
  have "roomyNodes c {x}" using room [OF D(1) _ c] h by auto
  then have b: "chain (ptrs (binFirst c x m)) c [x]" "onlyLinks c {x} m (binFirst c x m)"
    using binFirst_chain [of m x c] D(10) [OF x] chunk_facts(7) [OF D(1) h(1)] h cell_facts(1,5) [OF c]
    by auto
  then show "onlyLinks c {x} m (binFirst c x m)" by simp
  show "pool hdr base high (binFirst c x m) C U (L(c := [x])) (H - {x})"
    by (rule pool_put [OF P c x]) (use b e in auto)
qed

lemma getBin_index:
  assumes "16 \<le> unat sz" "8 dvd unat (sz :: u32)"
  shows "\<exists>b. getBin sz = Some b \<and> 1 \<le> b \<and> b \<le> 65"
proof -
  have ge: "16 \<le> sz" using assms(1) by (simp add: word_le_nat_alt)
  have d: "unat (sz - 16) = unat sz - 16" using assms(1) by (simp add: unat_minus_small)
  have "unat (if isFastBinSize sz then fastBinIndex sz else rangeBinIndex sz) \<le> 64"
  proof (cases "isFastBinSize sz")
    case True
    then have "unat sz < 512" by (simp add: isFastBinSize_def word_less_nat_alt)
    then have "(unat sz - 16) div 8 \<le> 64" by simp
    then show ?thesis using True by (simp add: fastBinIndex_def unat_div d)
  next
    case False
    define p where "p = 126 * (sz - 16)"
    have "unat p < 4294967296" by simp
    then have "unat p div 67108848 \<le> 4294967295 div 67108848" by (intro div_le_mono) linarith
    then have "unat p div 67108848 \<le> 64" by simp
    moreover have "push_bit 26 1 - 16 = (67108848 :: u32)" by (simp add: push_bit_eq_mult)
    then have "rangeBinIndex sz = p div 67108848" by (simp only: rangeBinIndex_def p_def)
    ultimately show ?thesis using False by (simp add: unat_div)
  qed
  then have "unat (getBinIndex sz) = 1 + unat (if isFastBinSize sz then fastBinIndex sz else rangeBinIndex sz)"
    unfolding getBinIndex_def by (subst unat_add_small) auto
  with \<open>_ \<le> 64\<close> show ?thesis by (simp add: getBin_def)
qed

lemma chain_first_nonempty:
  assumes P: "pool hdr base high m C U L H" and c: "c \<in> cells hdr"
  shows "loadPtr m c = (case L c of [] \<Rightarrow> 0 | y # _ \<Rightarrow> y)" "L c = y # ys \<Longrightarrow> y \<noteq> 0"
  using poolD(6) [OF P c] cell_facts(1) [OF c] by (auto simp: loadPtr_ptrs split: list.splits)

text \<open>Binning into a sorted list, as \<open>BinDirty\<close> does with the list of the chunk's size.\<close>

lemma pool_bin_sorted:
  assumes P: "pool hdr base high m C U L H" and c: "c \<in> cells hdr" and x: "x \<in> H"
    and ne: "L c = y # ys"
  shows "\<exists>m'. binSorted x y m = Some m' \<and>
    pool hdr base high m' C U (L(c := insort x (L c))) (H - {x}) \<and>
    onlyLinks c (insert x (set (L c))) m m'"
proof -
  note h = held_facts [OF P x c] and D = poolD [OF P]
  have al: "4 dvd z \<and> 2 ^ 31 \<le> z \<and> z + 8 < 2 ^ 32" if "z \<in> insert x (set ([] @ y # ys))" for z
    using chunk_facts(1-3) [OF D(1), of z] that h(5) ne by auto
  obtain m' where m': "binSorted x y m = Some m'" "chain (ptrs m') c ([] @ insort x (y # ys))"
    "onlyLinks c (insert x (set ([] @ y # ys))) m m'"
    using binSorted_chain [of m c "[]" y ys x, OF _ _ _ _ _ _ al] D(6,7) [OF c] ne h room [OF D(1) h(5) c]
      cell_facts(1,2) [OF c] by auto
  moreover have "pool hdr base high m' C U (L(c := insort x (L c))) (H - {x})"
    by (rule pool_put [OF P c x])
      (use m' D(7) [OF c] h(3) ne in \<open>simp_all add: set_insort_key distinct_insort insert_commute\<close>)
  ultimately show ?thesis using ne by auto
qed

lemma pool_bin_dirty:
  assumes P: "pool hdr base high m C U L H" and x: "x \<in> H"
  shows "\<exists>m' b. binChunk hdr x BinDirty m = Some m' \<and> 1 \<le> b \<and> b < MAX_BINS \<and>
    pool hdr base high m' C U (L(dirtyBin hdr b := insort x (L (dirtyBin hdr b)))) (H - {x}) \<and>
    onlyLinks (dirtyBin hdr b) (insert x (set (L (dirtyBin hdr b)))) m m'"
proof -
  have xC: "x \<in> dom C" using poolD(3) [OF P] x by auto
  have sz: "unat (getSize m x) = the (C x)" by (rule pool_size [OF P xC])
  obtain b where b: "getBin (getSize m x) = Some b" "1 \<le> b" "b \<le> 65"
    using getBin_index [of "getSize m x"] chunk_size [OF poolD(1) [OF P] xC] sz by auto
  define c where "c = dirtyBin hdr b"
  have c: "c \<in> cells hdr" using b by (simp add: c_def)
  have "\<exists>m'. binChunk hdr x BinDirty m = Some m' \<and> pool hdr base high m' C U (L(c := insort x (L c))) (H - {x})
      \<and> onlyLinks c (insert x (set (L c))) m m'"
  proof (cases "L c")
    case Nil
    with pool_binFirst [OF P c x] held_facts(4) [OF P x c] b(1) chain_first_nonempty [OF P c]
    show ?thesis by (simp add: binChunk_def c_def [symmetric] Let_def)
  next
    case (Cons y ys)
    with pool_bin_sorted [OF P c x Cons] held_facts(4) [OF P x c] b(1) chain_first_nonempty [OF P c]
    show ?thesis by (simp add: binChunk_def c_def [symmetric] Let_def)
  qed
  with b show ?thesis unfolding c_def by (intro exI [of _ b] ex_comm [THEN iffD1]) auto
qed

lemma pool_bin_recent:
  assumes P: "pool hdr base high m C U L H" and x: "x \<in> H"
  defines "c \<equiv> RECENT_CHUNK_BIN hdr"
  shows "\<exists>m'. binChunk hdr x BinRecent m = Some m' \<and>
    pool hdr base high m' C U (L(c := x # L c)) (H - {x}) \<and> onlyLinks c (insert x (set (L c))) m m'"
proof -
  have c: "c \<in> cells hdr" by (simp add: c_def)
  note h = held_facts [OF P x c] and D = poolD [OF P]
  obtain b where b: "getBin (getSize m x) = Some b"
    using getBin_index [of "getSize m x"] chunk_size [OF D(1) h(1)] pool_size [OF P h(1)] by auto
  show ?thesis
  proof (cases "L c")
    case Nil
    with pool_binFirst [OF P c x] h(4) b chain_first_nonempty [OF P c]
    show ?thesis by (simp add: binChunk_def c_def [symmetric] Let_def)
  next
    case (Cons y ys)
    have al: "4 dvd z" if "z \<in> insert x (set ([] @ y # ys))" for z
      using chunk_facts(1) [OF D(1), of z] that h(5) Cons by auto
    have ch: "chain (ptrs m) c ([] @ y # ys)" "distinct ([] @ y # ys)" "x \<notin> set ([] @ y # ys)"
      "roomyNodes c (insert x (set ([] @ y # ys)))"
      using D(6,7) [OF c] h(3) room [OF D(1) h(5) c] Cons by simp_all
    obtain m' where m': "insertChunkBefore y x m = Some m'" "chain (ptrs m') c ([] @ x # y # ys)"
      "onlyLinks c (insert x (set ([] @ y # ys))) m m'"
      using insertChunkBefore_chain [OF ch(1,4,2,3) h(7) cell_facts(1) [OF c] al cell_facts(2) [OF c]]
        chunk_facts(3) [OF D(1) h(1)] by blast
    have "pool hdr base high m' C U (L(c := x # L c)) (H - {x})"
      by (rule pool_put [OF P c x]) (use m' ch Cons in auto)
    with m' h(4) b chain_first_nonempty [OF P c] Cons show ?thesis
      by (simp add: binChunk_def c_def [symmetric] Let_def)
  qed
qed

lemma pool_bin_remainder:
  assumes P: "pool hdr base high m C U L H" and x: "x \<in> H"
  defines "c \<equiv> REMAINDER_CHUNK_BIN hdr"
  assumes e: "L c = []"
  shows "\<exists>m'. binChunk hdr x BinLastSplitRem m = Some m' \<and>
    pool hdr base high m' C U (L(c := [x])) (H - {x}) \<and> onlyLinks c {x} m m'"
proof -
  have c: "c \<in> cells hdr" by (simp add: c_def)
  note h = held_facts [OF P x c] and D = poolD [OF P]
  obtain b where b: "getBin (getSize m x) = Some b"
    using getBin_index [of "getSize m x"] chunk_size [OF D(1) h(1)] pool_size [OF P h(1)] by auto
  show ?thesis
    using pool_binFirst [OF P c x e] h(4) b chain_first_nonempty [OF P c] e
    by (simp add: binChunk_def c_def [symmetric] Let_def)
qed

subsection \<open>Memory that list operations leave alone\<close>

lemma links_spare_chunks:
  assumes lay: "layout base high C" and c: "c \<in> cells hdr" and S: "S \<subseteq> dom C - T" and T: "T \<subseteq> dom C"
    and frame: "onlyLinks c S m m'"
  shows "sameOn (chunkBytes C T) m m'" "load32 m' hdr = load32 m hdr"
proof -
  have "x \<notin> linkBytes c S" if x: "x \<in> chunkBytes C T" for x
  proof -
    obtain a s where a: "a \<in> T" "C a = Some s" "a \<le> x" "x < a + s"
      using x T by (auto simp: chunkBytes_def)
    have aC: "a \<in> dom C" using a by auto
    have "x \<notin> {c..<c + 4}" using a chunk_facts(5) [OF lay aC] cell_facts [OF c] base_high by auto
    moreover have "x \<notin> {z + 4..<z + 12}" if "z \<in> S" for z
    proof -
      have "z \<in> dom C" "z \<noteq> a" using that S a(1) by auto
      then obtain t where t: "C z = Some t" by auto
      show ?thesis
        using layout_apart [OF lay a(2) t] layoutD(4) [OF lay t] a \<open>z \<noteq> a\<close> by auto
    qed
    ultimately show ?thesis by (auto simp: linkBytes_def)
  qed
  then show "sameOn (chunkBytes C T) m m'"
    using onlyLinks_byte [OF frame] by (simp add: sameOn_def)
  have "x \<notin> linkBytes c S" if "hdr \<le> x" "x < hdr + 4" for x
    using that cell_facts(4) [OF c] chunk_facts(5) [OF lay] S base_high by (fastforce simp: linkBytes_def)
  then show "load32 m' hdr = load32 m hdr"
    by (intro load32_cong onlyLinks_byte [OF frame])
qed

end

end
