(* ===== verification/KPool.thy ===== *)
theory KPool
  imports KHeap
begin

text \<open>
  Searching, splitting and pre-allocating on a pool: each returns, keeps the pool, and leaves
  the bytes of the allocated chunks and \<open>lastAllocSize\<close> as they were.
\<close>

definition quiet :: "nat \<Rightarrow> (nat \<rightharpoonup> nat) \<Rightarrow> nat set \<Rightarrow> Ram \<Rightarrow> Ram \<Rightarrow> bool" where
  "quiet hdr C U m m' = (sameOn (chunkBytes C U) m m' \<and> load32 m' hdr = load32 m hdr)"

lemma quiet_refl [simp]: "quiet hdr C U m m"
  by (simp add: quiet_def)

lemma quiet_trans: "quiet hdr C U m m' \<Longrightarrow> quiet hdr C U m' m'' \<Longrightarrow> quiet hdr C U m m''"
  by (auto simp: quiet_def intro: sameOn_trans)

lemma quiet_cong: "(\<And>a. a \<in> U \<Longrightarrow> C' a = C a) \<Longrightarrow> quiet hdr C' U m m' = quiet hdr C U m m'"
  by (simp add: quiet_def chunkBytes_def cong: SUP_cong_simp)

subsection \<open>Writing tags\<close>

lemma tags_writes [simp]:
  assumes "4 dvd p"
  shows "tags (writeSizePtr p sz m) = (tags m)(p := (tags m p)\<lparr>tagSize := ucast (drop_bit 3 sz)\<rparr>)"
    and "tags (writePid p pid m) = (tags m)(p := (tags m p)\<lparr>tagPid := word_of_int pid\<rparr>)"
    and "tags (writeFree p b m) = (tags m)(p := (tags m p)\<lparr>tagFree := b\<rparr>)"
  using assms
  by (simp_all add: writeSizePtr_def writePid_def writeFree_def readTag_tags tags_writeTag)

lemma ptrs_writes [simp]:
  assumes "4 dvd p" "q \<noteq> p"
  shows "ptrs (writeSizePtr p sz m) q = ptrs m q" "ptrs (writePid p pid m) q = ptrs m q"
    "ptrs (writeFree p b m) q = ptrs m q"
  using assms by (simp_all add: writeSizePtr_def writePid_def writeFree_def ptrs_writeTag_other)

lemma writes_byte [simp]:
  assumes "x < p \<or> p + 4 \<le> x"
  shows "writeSizePtr p sz m x = m x" "writePid p pid m x = m x" "writeFree p b m x = m x"
    "storePtr p v m x = m x"
  using assms by (auto simp: writeSizePtr_def writePid_def writeFree_def writeTag_def storePtr_def)

lemma tagBytes_upd [simp]:
  "tagBytes (t\<lparr>tagPid := p\<rparr>) = tagBytes t" "tagBytes (t\<lparr>tagFree := b\<rparr>) = tagBytes t"
  by (simp_all add: tagBytes_eq)

text \<open>\<open>initChunk\<close> touches the bytes of the chunk only and makes it a free, unlinked chunk.\<close>

definition freshChunk :: "Ram \<Rightarrow> nat \<Rightarrow> nat \<Rightarrow> bool" where
  "freshChunk m a s =
     (tagBytes (tags m a) = s \<and> tagBytes (tags m (a + s - 4)) = s \<and> tagFree (tags m a)
      \<and> tagFree (tags m (a + s - 4)) \<and> ptrs m (a + 4) = 0 \<and> ptrs m (a + 8) = 0)"

lemma initChunk_fresh:
  assumes a: "4 dvd a" and s: "8 dvd unat sz" "16 \<le> unat sz" "unat sz < 2 ^ 27" "a + unat sz \<le> high"
  shows "\<exists>m'. initChunk high a sz m = Some (a, m') \<and> freshChunk m' a (unat sz)
    \<and> (\<forall>x. x \<notin> {a..<a + unat sz} \<longrightarrow> m' x = m x)"
proof -
  define f where "f = a + unat sz - 4"
  have s4: "4 dvd unat sz" using s(1) by (rule dvd_trans [rotated]) simp
  have f4: "4 dvd f" using a s s4 by (simp add: f_def)
  have f: "a + 12 \<le> f" "f + 4 = a + unat sz" "f \<noteq> a" "f \<noteq> a + 4" "f \<noteq> a + 8" using s by (auto simp: f_def)
  define m2 where "m2 = writeSizePtr a sz (zeroTag a m)"
  have t2: "tags m2 a = (tags (zeroTag a m) a)\<lparr>tagSize := ucast (drop_bit 3 sz)\<rparr>"
    using a by (simp add: m2_def)
  have foot: "getFooter m' a = f" if "tagBytes (tags m' a) = unat sz" for m'
    using that a by (simp add: getFooter_def getSize_tags f_def)
  have g2: "getFooter m2 a = f" by (rule foot) (simp only: t2 tagBytes_write [OF s(1,3)])
  define m4 where "m4 = writeFree a True (writeSizePtr f sz m2)"
  have t4: "tags m4 = (tags m2)(f := (tags m2 f)\<lparr>tagSize := ucast (drop_bit 3 sz)\<rparr>,
      a := (tags m2 a)\<lparr>tagFree := True\<rparr>)"
    using a f f4 by (simp add: m4_def)
  have g4: "getFooter m4 a = f"
    by (rule foot) (simp add: t4 t2 tagBytes_write [OF s(1,3)] del: ChunkTag.update_convs)
  define m7 where "m7 = storePtr (a + 8) 0 (storePtr (a + 4) 0 (writeFree f True m4))"
  have "16 \<le> sz" using s(2) by (simp add: word_le_nat_alt)
  then have "initChunk high a sz m = Some (a, m7)"
    using a s s4 by (simp add: initChunk_def IS_WORD_ALIGNED_def dvd_eq_mod_eq_0 [symmetric] Let_def
        m2_def [symmetric] g2 m4_def [symmetric] g4 m7_def)
  moreover have "freshChunk m7 a (unat sz)"
  proof -
    have t7: "tags m7 q = (if q = f then (tags m4 f)\<lparr>tagFree := True\<rparr> else tags m4 q)"
      if "q = a \<or> q = f" for q
      using that f f4 a by (auto simp: m7_def tags_storePtr_other)
    have "ptrs m7 (a + 4) = 0" "ptrs m7 (a + 8) = 0"
      using a by (simp_all add: m7_def ptrs_storePtr)
    then show ?thesis
      using f t7 [of a] t7 [of f]
      by (simp add: freshChunk_def f_def [symmetric] t4 t2 tagBytes_write [OF s(1,3)])
  qed
  moreover have "m7 x = m x" if "x \<notin> {a..<a + unat sz}" for x
    using that f unfolding m7_def m4_def m2_def zeroTag_def by (auto simp: not_le)
  ultimately show ?thesis by blast
qed

lemma freshChunk_cong:
  assumes "\<And>x. a \<le> x \<Longrightarrow> x < a + s \<Longrightarrow> m' x = m x" "16 \<le> s"
  shows "freshChunk m' a s = freshChunk m a s"
proof -
  have "ramWords m' p = ramWords m p" if "a \<le> p" "p + 4 \<le> a + s" for p
    using that by (intro ramWords_cong assms(1)) auto
  then show ?thesis using assms(2) by (simp add: freshChunk_def tags_def ptrs_def)
qed

lemma freshChunk_sizes:
  assumes "freshChunk m a (unat sz)" "4 dvd a" "4 dvd unat sz" "16 \<le> unat sz"
  shows "getSize m a = sz" "readSize (readTag m (getFooter m a)) = sz"
proof -
  have t: "tagBytes (tags m a) = unat sz" "tagBytes (tags m (a + unat sz - 4)) = unat sz"
    using assms(1) by (auto simp: freshChunk_def)
  have "unat (getSize m a) = unat sz" using t(1) assms(2) by (simp add: getSize_tags)
  then show g: "getSize m a = sz" by (rule word_unat_eq_iff [THEN iffD2])
  have "4 dvd a + unat sz - 4" using assms(2,3) by simp
  then have "unat (readSize (readTag m (getFooter m a))) = unat sz"
    using t(2) g by (simp add: getFooter_def readTag_tags tagBytes_def)
  then show "readSize (readTag m (getFooter m a)) = sz" by (rule word_unat_eq_iff [THEN iffD2])
qed

lemma splitChunk_fresh:
  assumes a: "4 dvd a" and t: "tagBytes (tags m a) = t" "8 dvd t" "t < 2 ^ 27" "a + t \<le> high"
    and s: "8 dvd unat sz" "16 \<le> unat sz" "unat sz + 16 \<le> t"
  shows "\<exists>m'. splitChunk high a sz m = Some (a, a + unat sz, m') \<and> freshChunk m' a (unat sz)
    \<and> freshChunk m' (a + unat sz) (t - unat sz) \<and> (\<forall>x. x \<notin> {a..<a + t} \<longrightarrow> m' x = m x)"
proof -
  define old where "old = getSize m a"
  have old: "unat old = t" using t(1) a by (simp add: old_def getSize_tags)
  have rest: "unat (old - sz) = t - unat sz" using old s(3) by (simp add: unat_minus_small)
  have s4: "4 dvd unat sz" "4 dvd t" using s(1) t(2) by (auto elim!: dvd_trans [rotated])
  obtain m1 where m1: "initChunk high a sz m = Some (a, m1)" "freshChunk m1 a (unat sz)"
    "\<forall>x. x \<notin> {a..<a + unat sz} \<longrightarrow> m1 x = m x"
    using initChunk_fresh [OF a s(1,2), of high m] s(3) t(3,4) by auto
  obtain m2 where m2: "initChunk high (a + unat sz) (old - sz) m1 = Some (a + unat sz, m2)"
    "freshChunk m2 (a + unat sz) (t - unat sz)"
    "\<forall>x. x \<notin> {a + unat sz..<a + unat sz + (t - unat sz)} \<longrightarrow> m2 x = m1 x"
  proof -
    have "\<exists>m'. initChunk high (a + unat sz) (old - sz) m1 = Some (a + unat sz, m')
        \<and> freshChunk m' (a + unat sz) (unat (old - sz))
        \<and> (\<forall>x. x \<notin> {a + unat sz..<a + unat sz + unat (old - sz)} \<longrightarrow> m' x = m1 x)"
      using a s t(2-4) s4 by (intro initChunk_fresh) (auto simp: rest dvd_diff_nat)
    then show thesis using that by (auto simp only: rest)
  qed
  have f1: "freshChunk m2 a (unat sz)"
    using freshChunk_cong [of a "unat sz" m2 m1] m2(3) m1(2) s(2) by simp
  have g: "getSize m2 a = sz" "readSize (readTag m2 (getFooter m2 a)) = sz"
    using freshChunk_sizes [OF f1 a s4(1) s(2)] by auto
  have h: "getSize m2 (a + unat sz) = old - sz"
    "readSize (readTag m2 (getFooter m2 (a + unat sz))) = old - sz"
    using freshChunk_sizes [of m2 "a + unat sz" "old - sz"] m2(2) a s s4 rest by (auto simp: dvd_diff_nat)
  have "sz < old" using old s by (simp add: word_less_nat_alt)
  moreover have "a mod 4 = 0" "unat sz mod 4 = 0" "t mod 4 = 0" "(a + unat sz) mod 4 = 0"
    using a s4 by (auto simp: dvd_eq_mod_eq_0 [symmetric])
  ultimately have "splitChunk high a sz m = Some (a, a + unat sz, m2)"
    using m1(1) m2(1) g h
    by (simp add: splitChunk_def IS_WORD_ALIGNED_def old_def [symmetric] old Let_def)
  moreover have "m2 x = m x" if "x \<notin> {a..<a + t}" for x
    using that m1(3) m2(3) s by auto
  ultimately show ?thesis using f1 m2(2) by blast
qed

lemma layout_split:
  assumes lay: "layout base high C" and a: "C a = Some t" and s: "8 dvd s" "16 \<le> s" "s + 16 \<le> t"
  shows "layout base high (C(a \<mapsto> s, a + s \<mapsto> t - s))"
proof -
  let ?C = "C(a \<mapsto> s, a + s \<mapsto> t - s)"
  note A = layoutD [OF lay a]
  have dom: "dom ?C = insert (a + s) (dom C)" using a by auto
  have "base \<le> b \<and> b mod 8 = 4 \<and> 8 dvd u \<and> 16 \<le> u \<and> b + u \<le> high
      \<and> (b + u = high \<or> b + u \<in> dom ?C) \<and> (b = base \<or> (\<exists>d v. ?C d = Some v \<and> d + v = b))
      \<and> (\<forall>d\<in>dom ?C. b < d \<longrightarrow> b + u \<le> d)" if b: "?C b = Some u" for b u
  proof -
    consider "b = a + s" "u = t - s" | "b = a" "u = s" "s \<noteq> 0" | "b \<noteq> a" "b \<noteq> a + s" "C b = Some u"
      using b s by (auto split: if_splits)
    then show ?thesis
    proof cases
      case 1
      have "(a + s) mod 8 = 4" using A(2) s(1) by (auto elim!: dvdE)
      moreover have "?C a = Some s" using s by auto
      moreover have "a + t \<le> d" if "d \<in> dom C" "a + s < d" for d using A(8) [OF that(1)] that(2) by simp
      ultimately show ?thesis using 1 A s dom by (auto simp: dvd_diff_nat)
    next
      case 2
      have "a + s \<le> d" if "d \<in> dom ?C" "a < d" for d
      proof (cases "d = a + s")
        case False
        then have "d \<in> dom C" using that(1) unfolding dom by blast
        then show ?thesis using A(8) that(2) s by fastforce
      qed simp
      moreover have "a = base \<or> (\<exists>d v. ?C d = Some v \<and> d + v = a)"
      proof (cases "a = base")
        case False
        then obtain d v where d: "C d = Some v" "d + v = a" using A(7) by auto
        moreover have "d \<noteq> a" "d \<noteq> a + s" using d layoutD(4) [OF lay d(1)] by auto
        ultimately show ?thesis by auto
      qed simp
      ultimately show ?thesis using 2 A s dom by auto
    next
      case 3
      note B = layoutD [OF lay 3(3)]
      have ap: "a + t \<le> b \<or> b + u \<le> a" using layout_apart [OF lay a 3(3)] 3(1) by auto
      have "b = base \<or> (\<exists>d v. ?C d = Some v \<and> d + v = b)"
      proof (cases "b = base")
        case False
        then obtain d v where d: "C d = Some v" "d + v = b" using B(7) by auto
        show ?thesis
        proof (cases "d = a")
          case True
          then have "?C (a + s) = Some (t - s)" "a + s + (t - s) = b" using d a s by auto
          then show ?thesis by blast
        next
          case False
          have "d \<noteq> a + s"
          proof
            assume "d = a + s"
            then show False using A(8) [of d] d(1) s by auto
          qed
          with False d show ?thesis by auto
        qed
      qed simp
      moreover have "b + u \<le> d" if "d \<in> dom ?C" "b < d" for d
      proof (cases "d = a + s")
        case True
        then show ?thesis using ap that(2) s by auto
      next
        case False
        then have "d \<in> dom C" using that(1) unfolding dom by blast
        then show ?thesis using B(8) that(2) by blast
      qed
      ultimately show ?thesis using B dom by auto
    qed
  qed
  moreover have "base \<in> dom ?C" using lay by (auto simp: layout_def)
  ultimately show ?thesis unfolding layout_def by blast
qed

context arena
begin

lemma quiet_links:
  assumes "layout base high C" "c \<in> cells hdr" "S \<subseteq> dom C - U" "U \<subseteq> dom C" "onlyLinks c S m m'"
  shows "quiet hdr C U m m'"
  using links_spare_chunks [OF assms] by (simp add: quiet_def)

subsection \<open>Searches\<close>

lemma exactFit_dont:
  assumes "chain (ptrs m) c xs" "4 dvd c" "\<And>x. x \<in> set xs \<Longrightarrow> 4 dvd x"
  shows "\<exists>r. exactFitSearch hdr sz ExactFitDontRebin (ptrs m c) m = Some (r, m)
    \<and> (r = 0 \<or> r \<in> set xs \<and> isExactMatch m r sz)"
  using assms
proof (induction xs arbitrary: c)
  case Nil
  then show ?case by (subst exactFitSearch.simps) simp
next
  case (Cons x xs)
  have "\<exists>r. exactFitSearch hdr sz ExactFitDontRebin (ptrs m (x + 8)) m = Some (r, m)
      \<and> (r = 0 \<or> r \<in> set xs \<and> isExactMatch m r sz)"
    using Cons.prems by (intro Cons.IH) auto
  then show ?case
    using Cons.prems by (subst exactFitSearch.simps) (auto simp: loadPtr_ptrs)
qed

lemma firstFit:
  assumes "chain (ptrs m) c xs" "4 dvd c" "\<And>x. x \<in> set xs \<Longrightarrow> 4 dvd x"
  shows "\<exists>r. firstFitSearch m sz (ptrs m c) = Some r
    \<and> (if r = 0 then \<forall>x\<in>set xs. getSize m x < sz else r \<in> set xs \<and> sz \<le> getSize m r)"
  using assms
proof (induction xs arbitrary: c)
  case Nil
  then show ?case by (subst firstFitSearch.simps) simp
next
  case (Cons x xs)
  obtain r where r: "firstFitSearch m sz (ptrs m (x + 8)) = Some r"
      "if r = 0 then \<forall>x\<in>set xs. getSize m x < sz else r \<in> set xs \<and> sz \<le> getSize m r"
    using Cons.IH [of "x + 8"] Cons.prems by auto
  have x: "ptrs m c = x" "x \<noteq> 0" "4 dvd x" using Cons.prems by auto
  show ?case
  proof (cases "sz \<le> getSize m x")
    case True
    with x show ?thesis by (subst firstFitSearch.simps) simp
  next
    case False
    then have "firstFitSearch m sz (ptrs m c) = Some r"
      using x r(1) by (subst firstFitSearch.simps) (simp add: loadPtr_ptrs)
    with r(2) False show ?thesis by (auto simp: not_le split: if_splits)
  qed
qed

lemma pool_firstFit:
  assumes P: "pool hdr base high m C U L H" and c: "c \<in> cells hdr"
  shows "\<exists>r. firstFitSearch m sz (loadPtr m c) = Some r
    \<and> (if r = 0 then \<forall>x\<in>set (L c). getSize m x < sz else r \<in> set (L c) \<and> sz \<le> getSize m r)"
proof -
  have "4 dvd x" if "x \<in> set (L c)" for x
    using that poolD(8) [OF P c] chunk_facts(1) [OF poolD(1) [OF P], of x] by auto
  with firstFit [OF poolD(6) [OF P c] cell_facts(1) [OF c]] cell_facts(1) [OF c]
  show ?thesis by (simp add: loadPtr_ptrs)
qed

lemma pool_exactFit_dont:
  assumes P: "pool hdr base high m C U L H" and c: "c \<in> cells hdr"
  shows "\<exists>r. exactFitSearch hdr sz ExactFitDontRebin (loadPtr m c) m = Some (r, m)
    \<and> (r = 0 \<or> r \<in> set (L c) \<and> isExactMatch m r sz)"
proof -
  have "4 dvd x" if "x \<in> set (L c)" for x
    using that poolD(8) [OF P c] chunk_facts(1) [OF poolD(1) [OF P], of x] by auto
  with exactFit_dont [OF poolD(6) [OF P c] cell_facts(1) [OF c]] cell_facts(1) [OF c]
  show ?thesis by (simp add: loadPtr_ptrs)
qed

text \<open>The recent list is emptied into the dirty lists until a chunk fits.\<close>

lemma pool_exactFit_rebin:
  assumes "pool hdr base high m C U L H" "L (RECENT_CHUNK_BIN hdr) = xs"
  shows "\<exists>r m' L'. exactFitSearch hdr sz ExactFitDoRebin (loadPtr m (RECENT_CHUNK_BIN hdr)) m = Some (r, m')
    \<and> pool hdr base high m' C U L' H
    \<and> (r = 0 \<or> r \<in> set (L' (RECENT_CHUNK_BIN hdr)) \<and> isExactMatch m' r sz)
    \<and> (\<forall>i. L' (cleanBin hdr i) = L (cleanBin hdr i)) \<and> quiet hdr C U m m'"
  using assms
proof (induction xs arbitrary: m L)
  case Nil
  have "loadPtr m (RECENT_CHUNK_BIN hdr) = 0"
    using chain_first_nonempty(1) [OF Nil.prems(1), of "RECENT_CHUNK_BIN hdr"] Nil.prems(2) by simp
  with Nil.prems(1) show ?case by (subst exactFitSearch.simps) auto
next
  case (Cons x xs)
  let ?c = "RECENT_CHUNK_BIN hdr"
  note P = Cons.prems(1)
  have c: "?c \<in> cells hdr" by simp
  note D = poolD [OF P]
  have x: "x \<in> set (L ?c)" "x \<in> dom C" "x \<notin> H" "4 dvd x" "set (L ?c) \<subseteq> dom C - U"
    using D(8) [OF c] Cons.prems(2) chunk_facts(1) [OF D(1), of x] by auto
  have ld: "loadPtr m ?c = x" "x \<noteq> 0"
    using chain_first_nonempty [OF P c] Cons.prems(2) by auto
  show ?case
  proof (cases "isExactMatch m x sz")
    case True
    with ld x P show ?thesis by (subst exactFitSearch.simps) auto
  next
    case False
    obtain m1 where m1: "unlinkChunk x m = Some m1"
      "pool hdr base high m1 C U (L(?c := remove1 x (L ?c))) (insert x H)" "onlyLinks ?c (set (L ?c)) m m1"
      using pool_unlink [OF P c x(1)] by blast
    obtain m2 b where m2: "binChunk hdr x BinDirty m1 = Some m2" "1 \<le> b" "b < MAX_BINS"
      "pool hdr base high m2 C U ((L(?c := xs))(dirtyBin hdr b := insort x (L (dirtyBin hdr b)))) (insert x H - {x})"
      "onlyLinks (dirtyBin hdr b) (insert x (set (L (dirtyBin hdr b)))) m1 m2"
      using pool_bin_dirty [OF m1(2), of x] Cons.prems(2) by (auto split: if_splits)
    define L2 where "L2 = (L(?c := xs))(dirtyBin hdr b := insort x (L (dirtyBin hdr b)))"
    have P2: "pool hdr base high m2 C U L2 H" using m2(4) x(3) by (simp add: L2_def)
    have L2: "L2 ?c = xs" using m2(2) by (simp add: L2_def)
    obtain r m' L' where r: "exactFitSearch hdr sz ExactFitDoRebin (loadPtr m2 ?c) m2 = Some (r, m')"
      "pool hdr base high m' C U L' H" "r = 0 \<or> r \<in> set (L' ?c) \<and> isExactMatch m' r sz"
      "\<forall>i. L' (cleanBin hdr i) = L2 (cleanBin hdr i)" "quiet hdr C U m2 m'"
      using Cons.IH [OF P2 L2] by blast
    have "loadPtr m (nextOf x) = (case xs of [] \<Rightarrow> 0 | y # _ \<Rightarrow> y)"
      using D(6) [OF c] Cons.prems(2) x(4) by (cases xs) (auto simp: loadPtr_ptrs)
    then have nxt: "loadPtr m2 ?c = loadPtr m (nextOf x)"
      using chain_first_nonempty(1) [OF P2 c] L2 by simp
    have "set (L (dirtyBin hdr b)) \<subseteq> dom C - U" using D(8) [of "dirtyBin hdr b"] m2(3) by auto
    then have q: "quiet hdr C U m m1" "quiet hdr C U m1 m2"
      using quiet_links [OF D(1) c x(5) D(2) m1(3)]
        quiet_links [OF D(1) _ _ D(2) m2(5)] x D(8) [OF c] m2(3) by auto
    have "exactFitSearch hdr sz ExactFitDoRebin (loadPtr m ?c) m = Some (r, m')"
      using False ld m1(1) m2(1) r(1) nxt by (subst exactFitSearch.simps) (simp add: Let_def)
    moreover have "\<forall>i. L' (cleanBin hdr i) = L (cleanBin hdr i)" using r(4) by (simp add: L2_def)
    moreover have "quiet hdr C U m m'" using q r(5) by (blast intro: quiet_trans)
    ultimately show ?thesis
      using r(2,3) by (intro exI [of _ r] exI [of _ m'] exI [of _ L']) simp
  qed
qed

subsection \<open>Splitting\<close>

text \<open>What a change inside one chunk leaves alone.\<close>

lemma inside_chunk:
  assumes lay: "layout base high C" and a: "C a = Some t"
    and out: "\<forall>x. x \<notin> {a..<a + t} \<longrightarrow> m' x = m x"
  shows "b \<in> dom C \<Longrightarrow> b \<noteq> a \<Longrightarrow> x \<in> {b..<b + the (C b)} \<Longrightarrow> m' x = m x"
    and "C b = Some s \<Longrightarrow> b \<noteq> a \<Longrightarrow> b \<le> p \<Longrightarrow> p + 4 \<le> b + s \<Longrightarrow> ramWords m' p = ramWords m p"
    and "p + 4 \<le> base \<Longrightarrow> ramWords m' p = ramWords m p" "x < base \<Longrightarrow> m' x = m x"
proof -
  have chunk: "m' x = m x" if b: "C b = Some s" "b \<noteq> a" "b \<le> x" "x < b + s" for b s x
    using layout_apart [OF lay a b(1)] b by (intro out [rule_format]) auto
  then show "b \<in> dom C \<Longrightarrow> b \<noteq> a \<Longrightarrow> x \<in> {b..<b + the (C b)} \<Longrightarrow> m' x = m x" by auto
  show "C b = Some s \<Longrightarrow> b \<noteq> a \<Longrightarrow> b \<le> p \<Longrightarrow> p + 4 \<le> b + s \<Longrightarrow> ramWords m' p = ramWords m p"
    by (intro ramWords_cong chunk [of b s]) auto
  show low: "x < base \<Longrightarrow> m' x = m x" for x
    using layoutD(1) [OF lay a] by (intro out [rule_format]) auto
  show "p + 4 \<le> base \<Longrightarrow> ramWords m' p = ramWords m p"
    by (intro ramWords_cong low) auto
qed

lemma pool_split:
  assumes P: "pool hdr base high m C U L H" and a: "a \<in> H"
    and s: "8 dvd unat sz" "16 \<le> unat sz" "unat sz + 16 \<le> the (C a)"
  defines "C' \<equiv> C(a \<mapsto> unat sz, a + unat sz \<mapsto> the (C a) - unat sz)"
  shows "\<exists>m'. splitChunk high a sz m = Some (a, a + unat sz, m')
    \<and> pool hdr base high m' C' U L (insert (a + unat sz) H) \<and> quiet hdr C U m m' \<and> a + unat sz \<notin> dom C"
proof -
  note D = poolD [OF P]
  define t where "t = the (C a)"
  define r where "r = a + unat sz"
  have aC: "a \<in> dom C" "a \<notin> U" using D(3) a by auto
  then have t: "C a = Some t" by (auto simp: t_def)
  note A = layoutD [OF D(1) t]
  have a4: "4 dvd a" by (rule chunk_facts(1) [OF D(1) aC(1)])
  have "tagBytes (tags m a) = t" using D(4) t by (simp add: tagsOk_def)
  then obtain m' where m': "splitChunk high a sz m = Some (a, r, m')" "freshChunk m' a (unat sz)"
    "freshChunk m' r (t - unat sz)" and out: "\<forall>x. x \<notin> {a..<a + t} \<longrightarrow> m' x = m x"
    using splitChunk_fresh [OF a4, of m t high sz] A(3,5) chunk_size(2) [OF D(1) aC(1)] s
    by (auto simp: t_def r_def)
  note frame = inside_chunk [OF D(1) t out]
  have rC: "r \<notin> dom C"
  proof
    assume "r \<in> dom C"
    then show False using A(8) [of r] s t_def r_def by auto
  qed
  have C': "C' b = C b" if "b \<noteq> a" "b \<noteq> r" for b using that by (simp add: C'_def r_def)
  have C'2: "C' a = Some (unat sz)" "C' r = Some (t - unat sz)" "dom C' = insert r (dom C)"
    using s(2) t by (auto simp: C'_def r_def t_def)
  have U: "U \<subseteq> dom C'" "insert r H \<subseteq> dom C' - U" "dom C' - U - insert r H = dom C - U - H"
    using D(2,3) rC C'2(3) by auto
  have tags: "tagsOk m' C' U"
  proof -
    have "tagBytes (tags m' b) = u \<and> tagBytes (tags m' (b + u - 4)) = u \<and> tagFree (tags m' b) = (b \<notin> U)
        \<and> tagFree (tags m' (b + u - 4)) = (b \<notin> U)" if b: "C' b = Some u" for b u
    proof (cases "b = a \<or> b = r")
      case True
      have "r \<notin> U" using D(2) rC by auto
      with True show ?thesis using b m'(2,3) C'2 aC(2) by (auto simp: freshChunk_def)
    next
      case False
      then have c: "C b = Some u" using b C' by simp
      then have "tags m' b = tags m b" "tags m' (b + u - 4) = tags m (b + u - 4)"
        using frame(2) [OF c] False layoutD(4) [OF D(1) c] by (simp_all add: tags_def)
      then show ?thesis using D(4) c by (simp add: tagsOk_def)
    qed
    then show ?thesis by (simp add: tagsOk_def)
  qed
  have linkp: "ptrs m' p = ptrs m p" if "b \<in> dom C" "b \<noteq> a" "p = b + 4 \<or> p = b + 8" for b p
  proof -
    have "b \<in> dom C" by (rule that(1))
    then obtain u where u: "C b = Some u" by auto
    show ?thesis using frame(2) [OF u that(2)] that(3) layoutD(4) [OF D(1) u] by (auto simp: ptrs_def)
  qed
  have lists: "listsOk hdr m' L (dom C' - U - insert r H) (insert r H)"
  proof -
    have "chain (ptrs m') c (L c)" if c: "c \<in> cells hdr" for c
    proof -
      have "c + 4 \<le> base" using cell_facts(3) [OF c] base_high by simp
      then have "ptrs m' c = ptrs m c" by (simp add: ptrs_def frame(3))
      moreover have "ptrs m' p = ptrs m p" if p: "p \<in> links (set (L c))" for p
      proof -
        obtain b where b: "b \<in> set (L c)" "p = b + 4 \<or> p = b + 8" using p by (auto simp: in_links)
        then have "b \<in> dom C" "b \<noteq> a" using D(8) [OF c] a by auto
        then show ?thesis using b(2) by (rule linkp)
      qed
      ultimately have "chain (ptrs m') c (L c) = chain (ptrs m) c (L c)"
        by (intro chain_cong) auto
      then show ?thesis using D(6) [OF c] by simp
    qed
    moreover have "ptrs m' (x + 4) = 0 \<and> ptrs m' (x + 8) = 0" if "x \<in> insert r H" for x
    proof (cases "x = a \<or> x = r")
      case True then show ?thesis using m'(2,3) by (auto simp: freshChunk_def)
    next
      case False
      then have x: "x \<in> H" "x \<in> dom C" "x \<noteq> a" using that D(3) by auto
      then have "ptrs m' (x + 4) = ptrs m (x + 4)" "ptrs m' (x + 8) = ptrs m (x + 8)"
        by (auto intro: linkp)
      then show ?thesis using D(9,10) [OF x(1)] by simp
    qed
    moreover have "listsOk hdr m L (dom C - U - H) H" using P by (simp add: pool_def)
    ultimately show ?thesis unfolding U(3) by (simp add: listsOk_def)
  qed
  have "bitmapOk hdr base m' U"
  proof -
    have "m' (bitmapAt hdr (i div 8)) = m (bitmapAt hdr (i div 8))" if "i < 8 * ALLOCATION_BITMAP_SIZE" for i
      using that heap_above by (intro frame(4)) (auto simp: bitmapAt_def sizeofAllocHeader_def)
    then show ?thesis using D(5) by (simp add: bitmapOk_def bitmapBit_def)
  qed
  moreover have "layout base high C'"
    using layout_split [OF D(1) t s(1,2)] s(3) by (simp add: C'_def t_def)
  ultimately have "pool hdr base high m' C' U L (insert r H)"
    using U(1,2) tags lists by (simp add: pool_def)
  moreover have "quiet hdr C U m m'"
  proof -
    have "m' x = m x" if "x \<in> chunkBytes C U" for x
      using that frame(1) D(2) aC(2) by (fastforce simp: chunkBytes_def)
    moreover have "load32 m' hdr = load32 m hdr" using base_high by (intro load32_cong frame(4)) auto
    ultimately show ?thesis by (simp add: quiet_def sameOn_def)
  qed
  ultimately show ?thesis using m'(1) rC by (auto simp: r_def)
qed

text \<open>Cutting off pre-allocated chunks leaves one remainder in hand.\<close>

lemma pool_preAllocate:
  assumes "pool hdr base high m C U L H" "rest \<in> H" and s: "8 dvd unat sz" "16 \<le> unat sz"
  shows "\<exists>rest' m' C' L'. preAllocate n hdr high sz rest m = Some (rest', m')
    \<and> pool hdr base high m' C' U L' (insert rest' (H - {rest})) \<and> rest' \<notin> H - {rest}
    \<and> (\<forall>b\<in>dom C - {rest}. C' b = C b) \<and> (\<forall>i. L' (cleanBin hdr i) = L (cleanBin hdr i))
    \<and> quiet hdr C U m m'"
  using assms(1,2)
proof (induction n arbitrary: m C L H rest)
  case 0
  then show ?case by (intro exI [of _ rest] exI [of _ m] exI [of _ C] exI [of _ L]) (auto simp: insert_absorb)
next
  case (Suc n)
  note P = Suc.prems(1) and D = poolD [OF Suc.prems(1)]
  have rC: "rest \<in> dom C" "rest \<notin> U" using D(3) Suc.prems(2) by auto
  show ?case
  proof (cases "sz < getSize m rest \<and> MIN_ALLOC_BYTES \<le> getSize m rest - sz")
    case False
    then show ?thesis using Suc.prems
      by (intro exI [of _ rest] exI [of _ m] exI [of _ C] exI [of _ L]) (auto simp: insert_absorb)
  next
    case True
    have "unat sz + 16 \<le> the (C rest)"
    proof -
      have "unat sz < unat (getSize m rest)" using True by (simp add: word_less_nat_alt)
      moreover have "16 \<le> unat (getSize m rest - sz)" using True by (simp add: word_le_nat_alt)
      ultimately show ?thesis using pool_size(1) [OF P rC(1)] by (simp add: unat_minus_small)
    qed
    note split = pool_split [OF P Suc.prems(2) s this]
    define r where "r = rest + unat sz"
    define C1 where "C1 = C(rest \<mapsto> unat sz, r \<mapsto> the (C rest) - unat sz)"
    obtain m1 where m1: "splitChunk high rest sz m = Some (rest, r, m1)"
      "pool hdr base high m1 C1 U L (insert r H)" "quiet hdr C U m m1" "r \<notin> dom C"
      using split unfolding r_def C1_def by blast
    let ?c = "RECENT_CHUNK_BIN hdr"
    obtain m2 where m2: "binChunk hdr rest BinRecent m1 = Some m2"
      "pool hdr base high m2 C1 U (L(?c := rest # L ?c)) (insert r H - {rest})"
      "onlyLinks ?c (insert rest (set (L ?c))) m1 m2"
      using pool_bin_recent [OF m1(2), of rest] Suc.prems(2) by blast
    have r: "r \<noteq> rest" "r \<notin> H" "insert r H - {rest} - {r} = H - {rest}" using m1(4) rC D(3) by auto
    obtain r' m' C' L' where r': "preAllocate n hdr high sz r m2 = Some (r', m')"
      "pool hdr base high m' C' U L' (insert r' (H - {rest}))" "r' \<notin> H - {rest}"
      "\<forall>b\<in>dom C1 - {r}. C' b = C1 b"
      "\<forall>i. L' (cleanBin hdr i) = (L(?c := rest # L ?c)) (cleanBin hdr i)" "quiet hdr C1 U m2 m'"
      using Suc.IH [OF m2(2), of r] r by auto
    have "set (L ?c) \<subseteq> dom C - U" "dom C \<subseteq> dom C1" using D(8) [of ?c] by (auto simp: C1_def)
    then have "quiet hdr C1 U m1 m2"
      using poolD(1,2) [OF m2(2)] rC m2(3) by (intro quiet_links [of C1 ?c]) auto
    then have "quiet hdr C1 U m1 m'" using r'(6) by (rule quiet_trans)
    moreover have "quiet hdr C1 U m1 m' = quiet hdr C U m1 m'"
      using D(2) m1(4) rC(2) by (intro quiet_cong) (auto simp: C1_def)
    ultimately have "quiet hdr C U m m'" using m1(3) by (blast intro: quiet_trans)
    moreover have "\<forall>b\<in>dom C - {rest}. C' b = C b"
    proof
      fix b assume "b \<in> dom C - {rest}"
      then have "b \<in> dom C1 - {r}" "C1 b = C b" using m1(4) by (auto simp: C1_def)
      then show "C' b = C b" using r'(4) by simp
    qed
    moreover have "preAllocate (Suc n) hdr high sz rest m = Some (r', m')"
      using True m1(1) m2(1) r'(1) by simp
    ultimately show ?thesis
      using r'(2,3,5) by (intro exI [of _ r'] exI [of _ m'] exI [of _ C'] exI [of _ L']) simp
  qed
qed

text \<open>The label \<open>split\<close>: the chunk in hand is cut down, its remainder becomes the only one.\<close>

lemma pool_splitExit:
  assumes P: "pool hdr base high m C U L {a}" and s: "8 dvd unat sz" "16 \<le> unat sz"
    and fit: "sz \<le> getSize m a" and none: "L (REMAINDER_CHUNK_BIN hdr) = []"
  shows "\<exists>m' C' L'. splitExit hdr high sz a m = Some (a, m')
    \<and> pool hdr base high m' C' U L' {a} \<and> (\<forall>b\<in>U. C' b = C b)
    \<and> unat sz \<le> the (C' a) \<and> the (C' a) < unat sz + 16
    \<and> (\<exists>xs. length xs \<le> 1 \<and> (\<forall>i. L' (cleanBin hdr i) = (L(REMAINDER_CHUNK_BIN hdr := xs)) (cleanBin hdr i)))
    \<and> quiet hdr C U m m'"
proof -
  note D = poolD [OF P]
  have aC: "a \<in> dom C" "a \<notin> U" using D(3) by auto
  define t where "t = the (C a)"
  have size: "unat (getSize m a) = t" using pool_size(1) [OF P aC(1)] by (simp add: t_def)
  have fit': "unat sz \<le> t" using fit size by (simp add: word_le_nat_alt)
  have diff: "unat (getSize m a - sz) = t - unat sz" using size fit' by (simp add: unat_minus_small)
  show ?thesis
  proof (cases "getSize m a - sz < MIN_ALLOC_BYTES")
    case True
    then have "t - unat sz < 16" using diff by (simp add: word_less_nat_alt)
    moreover have "splitExit hdr high sz a m = Some (a, m)" using True by (simp add: splitExit_def)
    moreover have "L(REMAINDER_CHUNK_BIN hdr := []) = L" using none by auto
    ultimately show ?thesis using P fit'
      by (intro exI [of _ m] exI [of _ C] exI [of _ L] conjI exI [of _ "[]"]) (simp_all add: t_def)
  next
    case False
    then have "16 \<le> t - unat sz" using diff by (simp add: word_less_nat_alt)
    then have fit2: "unat sz + 16 \<le> the (C a)" unfolding t_def by simp
    define r where "r = a + unat sz"
    define C1 where "C1 = C(a \<mapsto> unat sz, r \<mapsto> the (C a) - unat sz)"
    obtain m1 where m1: "splitChunk high a sz m = Some (a, r, m1)"
      "pool hdr base high m1 C1 U L (insert r {a})" "quiet hdr C U m m1" "r \<notin> dom C"
      using pool_split [OF P _ s fit2] unfolding r_def C1_def by blast
    have r: "insert r {a} - {r} = {a}" "r \<noteq> a" "C1 a = Some (unat sz)" "a \<in> dom C1" using s(2) by (auto simp: r_def C1_def)
    obtain r' m2 C' L1 where m2: "(if load32 m1 hdr = sz then preAllocate MAX_PRE_ALLOCATIONS hdr high sz r m1
        else Some (r, m1)) = Some (r', m2)"
      "pool hdr base high m2 C' U L1 (insert r' {a})" "r' \<noteq> a" "\<forall>b\<in>dom C1 - {r}. C' b = C1 b"
      "\<forall>i. L1 (cleanBin hdr i) = L (cleanBin hdr i)" "quiet hdr C1 U m1 m2"
    proof (cases "load32 m1 hdr = sz")
      case True
      have "\<exists>r' m2 C' L1. preAllocate MAX_PRE_ALLOCATIONS hdr high sz r m1 = Some (r', m2)
          \<and> pool hdr base high m2 C' U L1 (insert r' {a}) \<and> r' \<notin> {a} \<and> (\<forall>b\<in>dom C1 - {r}. C' b = C1 b)
          \<and> (\<forall>i. L1 (cleanBin hdr i) = L (cleanBin hdr i)) \<and> quiet hdr C1 U m1 m2"
        using pool_preAllocate [OF m1(2) _ s, of r MAX_PRE_ALLOCATIONS] unfolding r(1) by blast
      then show thesis using that True by auto
    next
      case False
      then show thesis using that [of r m1 C1 L] m1(2) r(2) by simp
    qed
    obtain m3 where m3: "binChunk hdr r' BinLastSplitRem m2 = Some m3"
      "pool hdr base high m3 C' U (L1(REMAINDER_CHUNK_BIN hdr := [r'])) {a}"
      "onlyLinks (REMAINDER_CHUNK_BIN hdr) {r'} m2 m3"
      using pool_bin_remainder [OF m2(2), of r'] m2(3,5) none by (auto simp: insert_Diff_if)
    have CU: "C1 b = C b \<and> C' b = C b" if "b \<in> U" for b
    proof -
      have "b \<in> dom C1 - {r}" "C1 b = C b" using that D(2) aC(2) m1(4) by (auto simp: C1_def)
      then show ?thesis using m2(4) by simp
    qed
    have "quiet hdr C' U m2 m3"
      using poolD(1,2,3) [OF m2(2)] m3(3) by (intro quiet_links [of C' "REMAINDER_CHUNK_BIN hdr"]) auto
    then have "quiet hdr C U m2 m3" using quiet_cong [of U C' C] CU by simp
    moreover have "quiet hdr C U m1 m2" using m2(6) quiet_cong [of U C1 C] CU by simp
    ultimately have "quiet hdr C U m m3" using m1(3) by (blast intro: quiet_trans)
    moreover have "splitExit hdr high sz a m = Some (a, m3)"
      using False m1(1) m2(1) m3(1) by (simp add: splitExit_def)
    moreover have "C' a = Some (unat sz)" using m2(4) r by auto
    moreover have "\<forall>i. (L1(REMAINDER_CHUNK_BIN hdr := [r'])) (cleanBin hdr i)
        = (L(REMAINDER_CHUNK_BIN hdr := [r'])) (cleanBin hdr i)" using m2(5) by simp
    moreover define L' where "L' = L1(REMAINDER_CHUNK_BIN hdr := [r'])"
    ultimately show ?thesis
      using m3(2) CU fit2
      by (intro exI [of _ m3] exI [of _ C'] exI [of _ L'] conjI exI [of _ "[r']"]) simp_all
  qed
qed

end

subsection \<open>Allocating\<close>

text \<open>At most one chunk is on the clean lists and the remainder list together.\<close>

definition oneClean :: "nat \<Rightarrow> (nat \<Rightarrow> nat list) \<Rightarrow> bool" where
  "oneClean hdr L =
     (\<forall>i<MAX_BINS. \<forall>j<MAX_BINS. \<forall>x\<in>set (L (cleanBin hdr i)). \<forall>y\<in>set (L (cleanBin hdr j)). x = y \<and> i = j)"

lemma oneClean_cong:
  "oneClean hdr L \<Longrightarrow> (\<And>i. L' (cleanBin hdr i) = L (cleanBin hdr i)) \<Longrightarrow> oneClean hdr L'"
  by (simp add: oneClean_def)

lemma oneClean_single:
  assumes "\<And>i. i < MAX_BINS \<Longrightarrow> L (cleanBin hdr i) = []" "length xs \<le> 1"
    and "\<forall>i. L' (cleanBin hdr i) = (L(cleanBin hdr 0 := xs)) (cleanBin hdr i)"
  shows "oneClean hdr L'"
  using assms by (cases xs) (auto simp: oneClean_def split: if_splits)

lemma oneClean_unlink:
  assumes one: "oneClean hdr L" and k: "k < MAX_BINS" and d: "distinct (L (cleanBin hdr k))"
    and x: "x \<in> set (L (cleanBin hdr k))" and i: "i < MAX_BINS"
  shows "(L(cleanBin hdr k := remove1 x (L (cleanBin hdr k)))) (cleanBin hdr i) = []"
proof -
  have y: "y = x \<and> i = k" if "y \<in> set (L (cleanBin hdr i))" for y
    using one k i x that unfolding oneClean_def by blast
  show ?thesis
  proof (cases "i = k")
    case True
    have "y \<notin> set (remove1 x (L (cleanBin hdr k)))" for y
      using y [of y] True d by auto
    then have "remove1 x (L (cleanBin hdr k)) = []" by (metis last_in_set)
    with True show ?thesis by simp
  next
    case False
    then have "L (cleanBin hdr i) = []" using y by (metis last_in_set)
    with False show ?thesis by simp
  qed
qed

text \<open>What an allocation of \<open>sz\<close> bytes leaves behind when it hands out the chunk \<open>a\<close>.\<close>

definition taken :: "nat \<Rightarrow> nat \<Rightarrow> nat \<Rightarrow> u32 \<Rightarrow> Ram \<Rightarrow> (nat \<rightharpoonup> nat) \<Rightarrow> nat set \<Rightarrow> nat \<Rightarrow> Ram \<Rightarrow> bool" where
  "taken hdr base high sz m C U a m' =
     (\<exists>C' L'. pool hdr base high m' C' U L' {a} \<and> oneClean hdr L' \<and> (\<forall>b\<in>U. C' b = C b)
        \<and> unat sz \<le> the (C' a) \<and> the (C' a) \<le> unat sz + 16 \<and> quiet hdr C U m m')"

text \<open>An exact match is off by 16 bytes at most, whatever the subtraction does.\<close>

lemma exactMatch_size:
  assumes "isExactMatch m a sz" "16 \<le> unat (getSize m a)" "8 dvd unat sz"
  shows "unat sz \<le> unat (getSize m a)" "unat (getSize m a) \<le> unat sz + 16"
proof -
  define d where "d = getSize m a - sz"
  have d: "unat d \<le> 16" using assms(1) by (auto simp: isExactMatch_def d_def word_le_nat_alt)
  have "getSize m a = sz + d" by (simp add: d_def)
  then have g: "unat (getSize m a) = (unat sz + unat d) mod 4294967296" by (simp add: unat_word_ariths)
  have "unat sz \<le> 4294967288"
  proof -
    obtain k where k: "unat sz = 8 * k" using assms(3) by (elim dvdE)
    have "unat sz < 4294967296" by simp
    then have "k \<le> 536870911" unfolding k by linarith
    then show ?thesis unfolding k by linarith
  qed
  have "(unat sz + unat d) mod 4294967296 \<le> 8" if "\<not> unat sz + unat d < 4294967296"
  proof -
    have "4294967296 \<le> unat sz + unat d" using that by linarith
    then obtain e where e: "unat sz + unat d = 4294967296 + e" by (rule le_Suc_ex [THEN exE])
    moreover have "e \<le> 8" using e d \<open>unat sz \<le> 4294967288\<close> by linarith
    ultimately show ?thesis by simp
  qed
  then have "unat sz + unat d < 4294967296 \<or> (unat sz + unat d) mod 4294967296 \<le> 8" by blast
  then have "unat (getSize m a) = unat sz + unat d" using g assms(2) by auto
  then show "unat sz \<le> unat (getSize m a)" "unat (getSize m a) \<le> unat sz + 16" using d by auto
qed

context arena
begin

lemma pool_searchClean:
  assumes P: "pool hdr base high m C U L H"
  shows "\<exists>r. searchClean hdr sz i m = Some r
    \<and> (if r = 0 then \<forall>j. i \<le> j \<longrightarrow> j < MAX_BINS \<longrightarrow> (\<forall>x\<in>set (L (cleanBin hdr j)). getSize m x < sz)
       else \<exists>j<MAX_BINS. r \<in> set (L (cleanBin hdr j)) \<and> sz \<le> getSize m r)"
proof (induction "MAX_BINS - i" arbitrary: i)
  case 0
  then show ?case by (subst searchClean.simps) simp
next
  case (Suc n)
  then have i: "i < MAX_BINS" by simp
  obtain r where r: "firstFitSearch m sz (loadPtr m (cleanBin hdr i)) = Some r"
    "if r = 0 then \<forall>x\<in>set (L (cleanBin hdr i)). getSize m x < sz
     else r \<in> set (L (cleanBin hdr i)) \<and> sz \<le> getSize m r"
    using pool_firstFit [OF P, of "cleanBin hdr i"] i by blast
  show ?case
  proof (cases "r = 0")
    case False
    then have "searchClean hdr sz i m = Some r" using i r(1) by (subst searchClean.simps) simp
    with False r(2) i show ?thesis by auto
  next
    case True
    obtain q where q: "searchClean hdr sz (i + 1) m = Some q"
      "if q = 0 then \<forall>j. i + 1 \<le> j \<longrightarrow> j < MAX_BINS \<longrightarrow> (\<forall>x\<in>set (L (cleanBin hdr j)). getSize m x < sz)
       else \<exists>j<MAX_BINS. q \<in> set (L (cleanBin hdr j)) \<and> sz \<le> getSize m q"
    proof -
      have "n = MAX_BINS - (i + 1)" using Suc.hyps(2) by linarith
      from Suc.hyps(1) [OF this] show thesis using that by blast
    qed
    have "searchClean hdr sz i m = Some q" using i r(1) q(1) True by (subst searchClean.simps) simp
    moreover have "\<forall>x\<in>set (L (cleanBin hdr j)). getSize m x < sz" if "q = 0" "i \<le> j" "j < MAX_BINS" for j
      using that q(2) r(2) True by (cases "i = j") (auto simp: Suc_le_eq dest: le_neq_implies_less)
    ultimately show ?thesis using q(2) by auto
  qed
qed

lemma take_exact:
  assumes P: "pool hdr base high m C U L {}" and one: "oneClean hdr L" and k: "k < MAX_BINS"
    and r: "r \<in> set (L (dirtyBin hdr k))" "isExactMatch m r sz" and s: "8 dvd unat sz"
  shows "\<exists>m'. unlinkChunk r m = Some m' \<and> taken hdr base high sz m C U r m'"
proof -
  let ?c = "dirtyBin hdr k"
  have c: "?c \<in> cells hdr" using k by simp
  note D = poolD [OF P]
  have rC: "r \<in> dom C" using D(8) [OF c] r(1) by auto
  obtain m' where m': "unlinkChunk r m = Some m'"
    "pool hdr base high m' C U (L(?c := remove1 r (L ?c))) {r}" "onlyLinks ?c (set (L ?c)) m m'"
    using pool_unlink [OF P c r(1)] by auto
  have "quiet hdr C U m m'" using quiet_links [OF D(1) c _ D(2) m'(3)] D(8) [OF c] by auto
  moreover have "unat sz \<le> the (C r)" "the (C r) \<le> unat sz + 16"
    using exactMatch_size [OF r(2) _ s] chunk_size(1) [OF D(1) rC] pool_size(1) [OF P rC] by auto
  moreover have "oneClean hdr (L(?c := remove1 r (L ?c)))" using one by (rule oneClean_cong) simp
  ultimately show ?thesis using m' unfolding taken_def by blast
qed

lemma take_split:
  assumes P: "pool hdr base high m C U L {}" and one: "oneClean hdr L" and k: "k < MAX_BINS"
    and r: "r \<in> set (L (cleanBin hdr k))" "sz \<le> getSize m r" and s: "8 dvd unat sz" "16 \<le> unat sz"
  shows "\<exists>m1 m'. unlinkChunk r m = Some m1 \<and> splitExit hdr high sz r m1 = Some (r, m') \<and> taken hdr base high sz m C U r m'"
proof -
  let ?c = "cleanBin hdr k"
  have c: "?c \<in> cells hdr" using k by simp
  note D = poolD [OF P]
  have rC: "r \<in> dom C" using D(8) [OF c] r(1) by auto
  define L1 where "L1 = L(?c := remove1 r (L ?c))"
  obtain m1 where m1: "unlinkChunk r m = Some m1" "pool hdr base high m1 C U L1 {r}"
    "onlyLinks ?c (set (L ?c)) m m1"
    using pool_unlink [OF P c r(1)] unfolding L1_def by auto
  have clean: "L1 (cleanBin hdr i) = []" if "i < MAX_BINS" for i
    unfolding L1_def using oneClean_unlink [OF one k D(7) [OF c] r(1) that] .
  have "getSize m1 r = getSize m r" using pool_size(2) [OF P rC] pool_size(2) [OF m1(2) rC] by simp
  then obtain m' C' L' xs where m': "splitExit hdr high sz r m1 = Some (r, m')"
    "pool hdr base high m' C' U L' {r}" "\<forall>b\<in>U. C' b = C b" "unat sz \<le> the (C' r)"
    "the (C' r) < unat sz + 16" "length xs \<le> 1"
    "\<forall>i. L' (cleanBin hdr i) = (L1(REMAINDER_CHUNK_BIN hdr := xs)) (cleanBin hdr i)" "quiet hdr C U m1 m'"
    using pool_splitExit [OF m1(2) s] r(2) clean [of 0] by auto
  have "oneClean hdr L'" by (rule oneClean_single [OF clean m'(6,7)])
  moreover have "quiet hdr C U m m1" using quiet_links [OF D(1) c _ D(2) m1(3)] D(8) [OF c] by auto
  then have "quiet hdr C U m m'" using m'(8) by (rule quiet_trans)
  ultimately have "taken hdr base high sz m C U r m'"
    unfolding taken_def using m'(2-5) by (intro exI [of _ C'] exI [of _ L']) simp
  with m1(1) m'(1) show ?thesis by blast
qed

end

end
