(* ===== verification/KAlloc.thy ===== *)
theory KAlloc
  imports KPool
begin

text \<open>
  The allocator's entry points: \<open>allocateChunk\<close>, \<open>kmalloc\<close> and \<open>kfree\<close> on a heap that
  \<open>initRam\<close> set up. \<open>heapOk\<close> is the invariant of a whole heap, in terms of the chunks and
  the set of those handed out.
\<close>

lemma taken_trans:
  "quiet hdr C U m m1 \<Longrightarrow> taken hdr base high sz m1 C U a m' \<Longrightarrow> taken hdr base high sz m C U a m'"
  unfolding taken_def by (blast intro: quiet_trans)

text \<open>No chunk handed out: nothing changed but the order of the lists, and neither the remainder
  nor the chunk of the first call was big enough.\<close>

definition allocOutcome ::
  "nat \<Rightarrow> nat \<Rightarrow> nat \<Rightarrow> u32 \<Rightarrow> Ram \<Rightarrow> (nat \<rightharpoonup> nat) \<Rightarrow> nat set \<Rightarrow> (nat \<Rightarrow> nat list) \<Rightarrow> nat \<Rightarrow> Ram \<Rightarrow> bool" where
  "allocOutcome hdr base high sz m C U L a m' =
     (if a = 0
      then (\<exists>L'. pool hdr base high m' C U L' {} \<and> oneClean hdr L' \<and> quiet hdr C U m m')
        \<and> (\<forall>x\<in>set (L (REMAINDER_CHUNK_BIN hdr)) \<union> set (L (cleanBin hdr (MAX_BINS - 1))). the (C x) < unat sz)
      else taken hdr base high sz m C U a m')"

subsection \<open>The bitmap\<close>

lemma word_bit_test: "(w :: u8) AND push_bit k 1 \<noteq> 0 \<longleftrightarrow> bit w k"
proof
  assume "w AND push_bit k 1 \<noteq> 0"
  then show "bit w k"
    by (rule contrapos_np) (rule bit_word_eqI, auto simp: bit_simps)
next
  assume "bit w k"
  moreover have "k < 8" using bit_imp_le_length [OF \<open>bit w k\<close>] by simp
  ultimately have "bit (w AND push_bit k 1) k" by (simp add: bit_simps)
  then show "w AND push_bit k 1 \<noteq> 0" by auto
qed

lemma getAddrBitmapOffset_eq:
  assumes "base \<le> addr" "addr < 2 ^ 32"
  shows "getAddrBitmapOffset base addr = (addr - base) div 16"
proof -
  have "(of_nat addr :: u32) - of_nat base = of_nat (addr - base)" using assms(1) by simp
  moreover have "unat (of_nat (addr - base) :: u32) = addr - base" using assms(2) by (intro unat_of_nat32) simp
  ultimately show ?thesis by (simp only: getAddrBitmapOffset_def unat_div) simp
qed

lemma checkBitmap_bit:
  assumes "base \<le> addr" "addr < 2 ^ 32"
  shows "checkBitmap hdr base addr m = bitmapBit hdr m ((addr - base) div 16)"
  by (simp only: checkBitmap_def word_bit_test bitmapBit_def getAddrByte_def getAddrBit_def
      getAddrBitmapOffset_eq [OF assms])

text \<open>Two slots share a byte and a bit of it only when they are the same slot.\<close>

lemma slot_inj:
  assumes "i div 8 = j div 8" "7 - i mod 8 = 7 - j mod (8 :: nat)"
  shows "i = j"
proof -
  have "x = y" if "7 - x = 7 - y" "x < 8" "y < 8" for x y :: nat using that by linarith
  from this [OF assms(2)] have "i mod 8 = j mod 8" by simp
  then show ?thesis using assms(1) by (metis div_mult_mod_eq)
qed

lemma setBitmap_bit:
  assumes "base \<le> addr" "addr < 2 ^ 32"
  shows "bitmapBit hdr (setBitmap hdr base addr m) i = (bitmapBit hdr m i \<or> i = (addr - base) div 16)"
proof -
  let ?j = "(addr - base) div 16"
  have "i = ?j \<longleftrightarrow> i div 8 = ?j div 8 \<and> 7 - i mod 8 = 7 - ?j mod 8" using slot_inj by blast
  then show ?thesis
    by (auto simp: bitmapBit_def setBitmap_def store8_def bitmapAt_def getAddrByte_def getAddrBit_def
        getAddrBitmapOffset_eq [OF assms] Let_def bit_simps)
qed

lemma clearBitmap_bit:
  assumes "base \<le> addr" "addr < 2 ^ 32"
  shows "bitmapBit hdr (clearBitmap hdr base addr m) i = (bitmapBit hdr m i \<and> i \<noteq> (addr - base) div 16)"
proof -
  let ?j = "(addr - base) div 16"
  have "i = ?j \<longleftrightarrow> i div 8 = ?j div 8 \<and> 7 - i mod 8 = 7 - ?j mod 8" using slot_inj by blast
  then show ?thesis
    by (auto simp: bitmapBit_def clearBitmap_def store8_def bitmapAt_def getAddrByte_def getAddrBit_def
        getAddrBitmapOffset_eq [OF assms] Let_def bit_simps dest: bit_imp_le_length)
qed

context arena
begin

lemma getSize_less:
  assumes "pool hdr base high m C U L H" "x \<in> dom C"
  shows "getSize m x < sz \<longleftrightarrow> the (C x) < unat sz"
  using pool_size(1) [OF assms] by (simp add: word_less_nat_alt)

lemma taken_nonzero: "taken hdr base high sz m C U a m' \<Longrightarrow> a \<noteq> 0"
  unfolding taken_def using poolD(1,3) chunk_facts(4) by blast

lemma outcome_taken: "taken hdr base high sz m C U a m' \<Longrightarrow> allocOutcome hdr base high sz m C U L a m'"
  using taken_nonzero [of sz m C U a m'] by (simp add: allocOutcome_def)

text \<open>Steps 4 to 8 on the pool the exact searches left.\<close>

lemma pool_allocate_split:
  assumes P: "pool hdr base high m C U L {}" and one: "oneClean hdr L"
    and s: "8 dvd unat sz" "16 \<le> unat sz" and bin: "bin \<le> 65"
  shows "\<exists>a m'. (do {
     chunk \<leftarrow> firstFitSearch m sz (loadPtr m (REMAINDER_CHUNK_BIN hdr));
     if chunk \<noteq> 0 then do {
       m \<leftarrow> unlinkChunk chunk m;
       splitExit hdr high sz chunk m
     } else do {
     chunk \<leftarrow> firstFitSearch m sz (loadPtr m (cleanBin hdr bin));
     if chunk \<noteq> 0 then do {
       m \<leftarrow> unlinkChunk chunk m;
       splitExit hdr high sz chunk m
     } else do {
     chunk \<leftarrow> searchClean hdr sz (bin + 1) m;
     if chunk \<noteq> 0 then do {
       m \<leftarrow> unlinkChunk chunk m;
       splitExit hdr high sz chunk m
     } else do {
     chunk \<leftarrow> searchClean hdr sz (bin + 1) m;
     if chunk \<noteq> 0 then do {
       m \<leftarrow> unlinkChunk chunk m;
       splitExit hdr high sz chunk m
     } else Some (0, m)
     }}}}) = Some (a, m') \<and> allocOutcome hdr base high sz m C U L a m'"
proof -
  have take: "\<exists>m1 m'. unlinkChunk r m = Some m1 \<and> splitExit hdr high sz r m1 = Some (r, m')
      \<and> allocOutcome hdr base high sz m C U L r m'"
    if "k < MAX_BINS" "r \<in> set (L (cleanBin hdr k))" "sz \<le> getSize m r" for k r
    using take_split [OF P one that s] outcome_taken by blast
  obtain r3 where r3: "firstFitSearch m sz (loadPtr m (REMAINDER_CHUNK_BIN hdr)) = Some r3"
    "if r3 = 0 then \<forall>x\<in>set (L (REMAINDER_CHUNK_BIN hdr)). getSize m x < sz
     else r3 \<in> set (L (REMAINDER_CHUNK_BIN hdr)) \<and> sz \<le> getSize m r3"
    using pool_firstFit [OF P, of "REMAINDER_CHUNK_BIN hdr" sz] by auto
  obtain r4 where r4: "firstFitSearch m sz (loadPtr m (cleanBin hdr bin)) = Some r4"
    "r4 \<noteq> 0 \<longrightarrow> r4 \<in> set (L (cleanBin hdr bin)) \<and> sz \<le> getSize m r4"
    using pool_firstFit [OF P, of "cleanBin hdr bin" sz] bin by (auto split: if_splits)
  obtain r5 where r5: "searchClean hdr sz (bin + 1) m = Some r5"
    "if r5 = 0 then \<forall>j. bin + 1 \<le> j \<longrightarrow> j < MAX_BINS \<longrightarrow> (\<forall>x\<in>set (L (cleanBin hdr j)). getSize m x < sz)
     else \<exists>j<MAX_BINS. r5 \<in> set (L (cleanBin hdr j)) \<and> sz \<le> getSize m r5"
    using pool_searchClean [OF P] by blast
  consider "r3 \<noteq> 0" | "r3 = 0" "r4 \<noteq> 0" | "r3 = 0" "r4 = 0" "r5 \<noteq> 0" | "r3 = 0" "r4 = 0" "r5 = 0" by blast
  then show ?thesis
  proof cases
    case 1
    with take [of 0 r3] r3 show ?thesis by auto
  next
    case 2
    with take [of bin r4] r3(1) r4 bin show ?thesis by auto
  next
    case 3
    then obtain j where "j < MAX_BINS" "r5 \<in> set (L (cleanBin hdr j))" "sz \<le> getSize m r5"
      using r5(2) by auto
    from take [OF this] 3 r3(1) r4(1) r5(1) show ?thesis by auto
  next
    case 4
    have "the (C x) < unat sz"
      if x: "x \<in> set (L (REMAINDER_CHUNK_BIN hdr)) \<union> set (L (cleanBin hdr (MAX_BINS - 1)))" for x
    proof -
      have "getSize m x < sz"
      proof (cases "x \<in> set (L (REMAINDER_CHUNK_BIN hdr))")
        case False
        with x have "x \<in> set (L (cleanBin hdr (MAX_BINS - 1)))" by simp
        moreover have "bin + 1 \<le> MAX_BINS - 1" using bin by simp
        ultimately show ?thesis using r5(2) 4(3) by fastforce
      qed (use r3(2) 4 in simp)
      moreover have "x \<in> dom C"
        using x poolD(8) [OF P, of "REMAINDER_CHUNK_BIN hdr"] poolD(8) [OF P, of "cleanBin hdr (MAX_BINS - 1)"]
        by auto
      ultimately show ?thesis using getSize_less [OF P] by simp
    qed
    then have "allocOutcome hdr base high sz m C U L 0 m"
      unfolding allocOutcome_def if_P [OF refl] using P one by (blast intro: quiet_refl)
    with 4 r3(1) r4(1) r5(1) show ?thesis by auto
  qed
qed

lemma outcome_trans:
  assumes "quiet hdr C U m m1" "\<forall>i. L1 (cleanBin hdr i) = L (cleanBin hdr i)"
    "allocOutcome hdr base high sz m1 C U L1 a m'"
  shows "allocOutcome hdr base high sz m C U L a m'"
  using assms taken_trans [OF assms(1)] unfolding allocOutcome_def
  by (auto intro: quiet_trans split: if_splits)

lemma pool_allocate:
  assumes P: "pool hdr base high m C U L {}" and one: "oneClean hdr L"
    and s: "8 dvd unat sz" "16 \<le> unat sz"
  shows "\<exists>a m'. allocateChunk hdr high sz m = Some (a, m') \<and> allocOutcome hdr base high sz m C U L a m'"
proof -
  let ?rc = "RECENT_CHUNK_BIN hdr"
  obtain bin where bin: "getBin sz = Some bin" "bin \<le> 65" using getBin_index [OF s(2,1)] by blast
  have take: "\<exists>m'. unlinkChunk r m = Some m' \<and> allocOutcome hdr base high sz m C U L r m'"
    if "k < MAX_BINS" "r \<in> set (L (dirtyBin hdr k))" "isExactMatch m r sz" for k r
    using take_exact [OF P one that s(1)] outcome_taken by blast
  obtain r1 where r1: "exactFitSearch hdr sz ExactFitDontRebin (loadPtr m (dirtyBin hdr bin)) m = Some (r1, m)"
    "r1 \<noteq> 0 \<longrightarrow> r1 \<in> set (L (dirtyBin hdr bin)) \<and> isExactMatch m r1 sz"
    using pool_exactFit_dont [OF P, of "dirtyBin hdr bin" sz] bin(2) by auto
  obtain r2 m2 L2 where r2: "exactFitSearch hdr sz ExactFitDoRebin (loadPtr m ?rc) m = Some (r2, m2)"
    "pool hdr base high m2 C U L2 {}" "r2 = 0 \<or> r2 \<in> set (L2 ?rc) \<and> isExactMatch m2 r2 sz"
    "\<forall>i. L2 (cleanBin hdr i) = L (cleanBin hdr i)" "quiet hdr C U m m2"
    using pool_exactFit_rebin [OF P refl] by blast
  note one2 = oneClean_cong [OF one r2(4) [rule_format]]
  consider "isExactMatch m (loadPtr m ?rc) sz" | "\<not> isExactMatch m (loadPtr m ?rc) sz" "r1 \<noteq> 0"
    | "\<not> isExactMatch m (loadPtr m ?rc) sz" "r1 = 0" "r2 \<noteq> 0"
    | "\<not> isExactMatch m (loadPtr m ?rc) sz" "r1 = 0" "r2 = 0" by blast
  then show ?thesis
  proof cases
    case 1
    then have "loadPtr m ?rc \<in> set (L ?rc)"
      using chain_first_nonempty(1) [OF P, of ?rc] by (auto simp: isExactMatch_def split: list.splits)
    with take [of 0 "loadPtr m ?rc"] 1 show ?thesis by (auto simp: allocateChunk_def Let_def)
  next
    case 2
    with take [of bin r1] r1 bin show ?thesis by (auto simp: allocateChunk_def Let_def)
  next
    case 3
    obtain m' where m': "unlinkChunk r2 m2 = Some m'" "taken hdr base high sz m2 C U r2 m'"
      using take_exact [OF r2(2) one2, of 0 r2 sz] r2(3) s(1) 3 by auto
    have "allocOutcome hdr base high sz m C U L r2 m'"
      by (rule outcome_trans [OF r2(5,4) outcome_taken [OF m'(2)]])
    with m'(1) 3 r1(1) r2(1) bin(1) show ?thesis by (auto simp: allocateChunk_def Let_def)
  next
    case 4
    from pool_allocate_split [OF r2(2) one2 s bin(2)] outcome_trans [OF r2(5,4)] 4 r1(1) r2(1) bin(1)
    show ?thesis by (simp add: allocateChunk_def Let_def) blast
  qed
qed

subsection \<open>Handing a chunk out and taking it back\<close>

lemma slots_differ:
  assumes "layout base high C" "a \<in> dom C" "b \<in> dom C" "a \<noteq> b"
  shows "(a + 4 - base) div 16 \<noteq> (b + 4 - base) div 16"
proof -
  have *: "(x + 4 - base) div 16 \<noteq> (y + 4 - base) div 16" if "base \<le> x" "x + 16 \<le> y" for x y
  proof -
    have "(x + 4 - base) div 16 + 1 = (x + 4 - base + 16) div 16" by simp
    also have "\<dots> \<le> (y + 4 - base) div 16" using that by (intro div_le_mono) linarith
    finally show ?thesis by simp
  qed
  show ?thesis
    using layout_far [OF assms] *[of a b] *[of b a] layout_below [OF assms(1)] assms(2,3) by metis
qed

lemma slot_bound:
  assumes "layout base high C" "a \<in> dom C"
  shows "(a + 4 - base) div 16 < 8 * ALLOCATION_BITMAP_SIZE"
proof -
  have "a + 4 - base < 16 * (8 * ALLOCATION_BITMAP_SIZE)"
    using layout_below [OF assms] bitmap_covers heap_above by auto
  then show ?thesis by (simp add: less_mult_imp_div_less mult.commute)
qed

text \<open>A change that keeps the list heads and everything outside the chunk \<open>a\<close> keeps the lists.\<close>

lemma pool_change_chunk:
  assumes P: "pool hdr base high m C U L H" and a: "a \<in> dom C" "a \<notin> dom C - U - H"
    and heads: "\<forall>x. hdr + 4 \<le> x \<and> x < hdr + 1028 \<longrightarrow> m' x = m x"
    and heap: "\<forall>x. base \<le> x \<and> x \<notin> {a..<a + the (C a)} \<longrightarrow> m' x = m x"
    and new: "tagBytes (tags m' a) = the (C a)" "tagBytes (tags m' (a + the (C a) - 4)) = the (C a)"
      "tagFree (tags m' a) = (a \<notin> U')" "tagFree (tags m' (a + the (C a) - 4)) = (a \<notin> U')"
    and U': "U' - {a} = U - {a}" "H' \<subseteq> {a}" "H \<subseteq> {a}" "a \<in> U' \<longleftrightarrow> a \<notin> H'"
    and zero: "\<And>x. x \<in> H' \<Longrightarrow> ptrs m' (x + 4) = 0 \<and> ptrs m' (x + 8) = 0"
    and bits: "bitmapOk hdr base m' U'"
  shows "pool hdr base high m' C U' L H'"
proof -
  note D = poolD [OF P]
  obtain t where t: "C a = Some t" using a(1) by auto
  have word: "ramWords m' p = ramWords m p" if "C b = Some s" "b \<noteq> a" "b \<le> p" "p + 4 \<le> b + s" for b s p
    using that layout_apart [OF D(1) t that(1)] layoutD(1) [OF D(1) that(1)] t
    by (intro ramWords_cong heap [rule_format]) auto
  have free: "dom C - U' - H' = dom C - U - H"
  proof -
    have "a \<notin> dom C - U' - H'" using U'(4) by auto
    moreover have "dom C - U' - H' - {a} = dom C - U - H - {a}" using U'(1-3) by blast
    ultimately show ?thesis using a(2) by blast
  qed
  have "tagsOk m' C U'"
  proof -
    have "tagBytes (tags m' b) = s \<and> tagBytes (tags m' (b + s - 4)) = s \<and> tagFree (tags m' b) = (b \<notin> U')
        \<and> tagFree (tags m' (b + s - 4)) = (b \<notin> U')" if b: "C b = Some s" for b s
    proof (cases "b = a")
      case True then show ?thesis using new b by simp
    next
      case False
      then have "tags m' b = tags m b" "tags m' (b + s - 4) = tags m (b + s - 4)" "b \<in> U' \<longleftrightarrow> b \<in> U"
        using word [OF b] layoutD(4) [OF D(1) b] U'(1) by (auto simp: tags_def)
      then show ?thesis using D(4) b by (simp add: tagsOk_def)
    qed
    then show ?thesis by (simp add: tagsOk_def)
  qed
  moreover have "listsOk hdr m' L (dom C - U' - H') H'"
  proof -
    have "chain (ptrs m') c (L c)" if c: "c \<in> cells hdr" for c
    proof -
      have "ptrs m' c = ptrs m c"
        using cell_facts(3,4) [OF c] unfolding ptrs_def
        by (intro arg_cong [of _ _ unat] ramWords_cong heads [rule_format]) auto
      moreover have "ptrs m' p = ptrs m p" if p: "p \<in> links (set (L c))" for p
      proof -
        obtain b where b: "b \<in> set (L c)" "p = b + 4 \<or> p = b + 8" using p by (auto simp: in_links)
        then have "b \<in> dom C" "b \<noteq> a" using D(8) [OF c] a by auto
        then obtain s where "C b = Some s" "b \<noteq> a" by auto
        then show ?thesis using word [of b s p] layoutD(4) [OF D(1), of b s] b(2) by (auto simp: ptrs_def)
      qed
      ultimately have "chain (ptrs m') c (L c) = chain (ptrs m) c (L c)" by (intro chain_cong) auto
      then show ?thesis using D(6) [OF c] by simp
    qed
    moreover have "listsOk hdr m L (dom C - U - H) H" using P by (simp add: pool_def)
    ultimately show ?thesis unfolding free using zero by (simp add: listsOk_def)
  qed
  moreover have "U' \<subseteq> dom C" "H' \<subseteq> dom C - U'" using U' D(2) a(1) by blast+
  ultimately show ?thesis using D(1) bits by (simp add: pool_def)
qed

lemma regionClear_free:
  assumes "\<And>k. p + 16 * k < stop \<Longrightarrow> \<not> checkBitmap hdr base (p + 16 * k) m"
  shows "regionClear hdr base p stop m"
  using assms
proof (induction hdr base p stop m rule: regionClear.induct)
  case (1 hdr base p stop m)
  show ?case
  proof (cases "p < stop")
    case True
    have "\<not> checkBitmap hdr base (p + 16 + 16 * k) m" if "p + 16 + 16 * k < stop" for k
      using 1(2) [of "Suc k"] that by (simp add: algebra_simps)
    then have "regionClear hdr base (p + 16) stop m" using True by (intro 1(1)) auto
    moreover have "\<not> checkBitmap hdr base p m" using 1(2) [of 0] True by simp
    ultimately show ?thesis using True by (subst regionClear.simps) simp
  qed (subst regionClear.simps, simp)
qed

text \<open>No 16-byte slot the new block starts in is marked by another block.\<close>

lemma slot_free:
  assumes lay: "layout base high C" and a: "C a = Some s" and b: "b \<in> dom C" "b \<noteq> a"
    and k: "16 * k < n" "n + 8 \<le> s"
  shows "(b + 4 - base) div 16 \<noteq> (a + 4 + 16 * k - base) div 16"
proof -
  obtain t where t: "C b = Some t" using b(1) by auto
  note A = layoutD [OF lay a] and B = layoutD [OF lay t]
  have "16 * k + 16 \<le> s"
  proof -
    obtain q where "s = 8 * q" using A(3) by (elim dvdE)
    then show ?thesis using k by presburger
  qed
  then have "b + 16 \<le> a \<or> a + 16 * k + 16 \<le> b"
    using layout_apart [OF lay a t] b(2) B(4) by auto
  moreover have "x div 16 \<noteq> y div 16" if "x + 16 \<le> y" for x y :: nat
  proof -
    have "x div 16 + 1 = (x + 16) div 16" by simp
    also have "\<dots> \<le> y div 16" using that by (rule div_le_mono)
    finally show ?thesis by simp
  qed
  moreover have "(b + 4 - base) + 16 \<le> a + 4 + 16 * k - base" if "b + 16 \<le> a" using that A(1) B(1) by linarith
  moreover have "(a + 4 + 16 * k - base) + 16 \<le> b + 4 - base" if "a + 16 * k + 16 \<le> b"
    using that A(1) B(1) by linarith
  ultimately show ?thesis by metis
qed

lemma foot_facts:
  assumes "layout base high C" "a \<in> dom C"
  defines "f \<equiv> a + the (C a) - 4"
  shows "4 dvd f" "a + 12 \<le> f" "f + 4 = a + the (C a)" "f \<noteq> a" "f \<noteq> a + 4" "f \<noteq> a + 8"
    "\<And>m. tagBytes (tags m a) = the (C a) \<Longrightarrow> getFooter m a = f"
proof -
  note s = chunk_size [OF assms(1,2)] and a = chunk_facts [OF assms(1,2)]
  have "4 dvd the (C a)" using s(3) by (rule dvd_trans [rotated]) simp
  then show "4 dvd f" using a(1) by (simp add: f_def)
  show "a + 12 \<le> f" "f + 4 = a + the (C a)" "f \<noteq> a" "f \<noteq> a + 4" "f \<noteq> a + 8" using s(1) by (auto simp: f_def)
  show "\<And>m. tagBytes (tags m a) = the (C a) \<Longrightarrow> getFooter m a = f"
    using a(1) by (simp add: getFooter_def getSize_tags f_def)
qed

lemma hand_out:
  assumes P: "pool hdr base high m C U L {a}" and n: "n + 8 \<le> the (C a)"
    and m1: "m1 = store32 hdr (getSize m a) m" and m2: "m2 = writePid a pid m1"
    and m3: "m3 = writePid (getFooter m2 a) pid m2" and m4: "m4 = writeFree a False m3"
    and m5: "m5 = writeFree (getFooter m4 a) False m4" and m6: "m6 = setBitmap hdr base (a + 4) m5"
    and m7: "m7 = kmemset (a + 4) 0 n m6"
  shows "\<not> checkBitmap hdr base (a + 4) m5" "regionClear hdr base (a + 4) ((a + 4 + n) mod 2 ^ 32) m5"
    "getSize m6 a = getSize m a" "pool hdr base high m7 C (insert a U) L {}"
    "\<forall>x\<in>{a + 4..<a + 4 + n}. m7 x = 0" "sameOn (chunkBytes C U) m m7"
proof -
  note D = poolD [OF P]
  have aC: "a \<in> dom C" "a \<notin> U" using D(3) by auto
  define s where "s = the (C a)"
  define f where "f = a + s - 4"
  have s: "C a = Some s" "16 \<le> s" using aC(1) chunk_size(1) [OF D(1) aC(1)] by (auto simp: s_def)
  note F = foot_facts [OF D(1) aC(1), folded s_def, folded f_def]
  note A = chunk_facts [OF D(1) aC(1)]
  have high: "a + s \<le> high" using layoutD(5) [OF D(1) s(1)] .
  have t1: "tags m1 q = tags m q" if "q \<noteq> hdr" for q
    using that hdr(2) by (simp add: m1 tags_def)
  have ah: "a \<noteq> hdr" "f \<noteq> hdr" using A(5) base_high F(2) by auto
  have tm: "tagBytes (tags m a) = s" "tagBytes (tags m f) = s" using D(4) s(1) by (auto simp: tagsOk_def f_def)
  have g2: "getFooter m2 a = f" by (rule F(7)) (simp add: m2 A(1) t1 ah tm)
  have m3': "m3 = writePid f pid m2" by (simp add: m3 g2)
  have g4: "getFooter m4 a = f"
    by (rule F(7)) (use F(1,4) in \<open>simp add: m4 m3' m2 A(1) t1 ah tm\<close>)
  have m5': "m5 = writeFree f False m4" by (simp add: m5 g4)
  have t5: "tagBytes (tags m5 a) = s" "tagBytes (tags m5 f) = s" "\<not> tagFree (tags m5 a)" "\<not> tagFree (tags m5 f)"
    using F(1,4) by (simp_all add: m5' m4 m3' m2 A(1) t1 ah tm)
  have out5: "m5 x = m x" if "x < hdr \<or> hdr + 4 \<le> x" "x \<notin> {a..<a + 4}" "x \<notin> {f..<f + 4}" for x
    using that unfolding m5' m4 m3' m2 m1 by (auto simp: not_le)
  define j where "j = (a + 4 - base) div 16"
  have low: "bitmapAt hdr i + 4 \<le> base + 4 \<and> hdr + 1028 \<le> bitmapAt hdr i \<and> bitmapAt hdr i < base"
    if "i < ALLOCATION_BITMAP_SIZE" for i
    using that heap_above by (auto simp: bitmapAt_def sizeofAllocHeader_def)
  have bits5: "bitmapBit hdr m5 i = bitmapBit hdr m i" if "i < 8 * ALLOCATION_BITMAP_SIZE" for i
  proof -
    have "i div 8 < ALLOCATION_BITMAP_SIZE" using that by auto
    then have "m5 (bitmapAt hdr (i div 8)) = m (bitmapAt hdr (i div 8))"
      using low [of "i div 8"] A(5) F(2) by (intro out5) auto
    then show ?thesis by (simp add: bitmapBit_def)
  qed
  have j: "j < 8 * ALLOCATION_BITMAP_SIZE" unfolding j_def by (rule slot_bound [OF D(1) aC(1)])
  have pay: "base \<le> a + 4" "a + 4 < 2 ^ 32" using A by auto
  have free: "\<not> checkBitmap hdr base (a + 4 + 16 * k) m5" if kn: "16 * k < n \<or> k = 0" for k
  proof -
    have r: "base \<le> a + 4 + 16 * k" "a + 4 + 16 * k < 2 ^ 32" using that pay high n heap_size by (auto simp: s_def)
    have "(a + 4 + 16 * k - base) div 16 < 8 * ALLOCATION_BITMAP_SIZE"
    proof -
      have "a + 4 + 16 * k - base < 16 * (8 * ALLOCATION_BITMAP_SIZE)"
        using that high n s(2) bitmap_covers heap_above A(5) by (auto simp: s_def)
      then show ?thesis by (simp add: less_mult_imp_div_less mult.commute)
    qed
    moreover have "(b + 4 - base) div 16 \<noteq> (a + 4 + 16 * k - base) div 16" if b: "b \<in> U" for b
    proof (cases "k = 0")
      case True
      then show ?thesis using slots_differ [OF D(1), of b a] b D(2) aC by auto
    next
      case False
      have bC: "b \<in> dom C" "b \<noteq> a" using b D(2) aC by auto
      have "16 * k < n" "n + 8 \<le> s" using kn False n by (auto simp: s_def)
      then show ?thesis by (rule slot_free [OF D(1) s(1) bC])
    qed
    ultimately show ?thesis
      using D(5) bits5 unfolding checkBitmap_bit [OF r] bitmapOk_def by blast
  qed
  from free [of 0] show "\<not> checkBitmap hdr base (a + 4) m5" by simp
  have stop: "(a + 4 + n) mod 2 ^ 32 = a + 4 + n" using high n s(2) heap_size by (simp add: s_def)
  show "regionClear hdr base (a + 4) ((a + 4 + n) mod 2 ^ 32) m5"
    unfolding stop by (rule regionClear_free) (simp add: free)
  have m6x: "m6 x = m5 x" if "x \<noteq> bitmapAt hdr (j div 8)" for x
    using that by (simp add: m6 setBitmap_def Let_def store8_def getAddrByte_def getAddrBitmapOffset_eq [OF pay] j_def)
  have jb: "hdr + 1028 \<le> bitmapAt hdr (j div 8)" "bitmapAt hdr (j div 8) < base"
    using low [of "j div 8"] j by auto
  have m7x: "m7 x = (if a + 4 \<le> x \<and> x < a + 4 + n then 0 else m6 x)" for x
    by (simp add: m7 kmemset_fill fillSet_def)
  have w: "ramWords m7 p = ramWords m5 p" "ramWords m6 p = ramWords m5 p" if "p = a \<or> p = f" for p
    using that n F(2,3) A(5) jb by (auto intro!: ramWords_cong simp: m7x m6x s_def)
  then have "tags m6 a = tags m5 a" by (simp add: tags_def)
  then have "unat (getSize m6 a) = unat (getSize m a)" using A(1) t5(1) tm(1) by (simp add: getSize_tags)
  then show "getSize m6 a = getSize m a" by (rule word_unat_eq_iff [THEN iffD2])
  have out7: "m7 x = m x" if "hdr + 4 \<le> x" "x \<notin> {a..<a + s}" "x \<noteq> bitmapAt hdr (j div 8)" for x
    using that n s(2) F(2,3) by (auto simp: m7x m6x s_def intro!: out5)
  show "\<forall>x\<in>{a + 4..<a + 4 + n}. m7 x = 0" by (simp add: m7x)
  show "sameOn (chunkBytes C U) m m7"
    unfolding sameOn_def
  proof
    fix x assume "x \<in> chunkBytes C U"
    then obtain b where b: "b \<in> U" "x \<in> {b..<b + the (C b)}" by (auto simp: chunkBytes_def)
    then have "b \<in> dom C" "b \<noteq> a" using D(2) aC by auto
    then obtain t where t: "C b = Some t" "b \<noteq> a" by auto
    then show "m7 x = m x"
      using b(2) layout_apart [OF D(1) s(1) t(1)] layoutD(1) [OF D(1) t(1)] jb base_high
      by (intro out7) auto
  qed
  show "pool hdr base high m7 C (insert a U) L {}"
  proof (rule pool_change_chunk [OF P aC(1)])
    show "\<forall>x. hdr + 4 \<le> x \<and> x < hdr + 1028 \<longrightarrow> m7 x = m x"
      using jb A(5) by (intro allI impI out7) auto
    show "\<forall>x. base \<le> x \<and> x \<notin> {a..<a + the (C a)} \<longrightarrow> m7 x = m x"
      using jb base_high by (intro allI impI out7) (auto simp: s_def)
    have "tags m7 a = tags m5 a" "tags m7 f = tags m5 f" using w by (auto simp: tags_def)
    then show "tagBytes (tags m7 a) = the (C a)" "tagBytes (tags m7 (a + the (C a) - 4)) = the (C a)"
      "tagFree (tags m7 a) = (a \<notin> insert a U)" "tagFree (tags m7 (a + the (C a) - 4)) = (a \<notin> insert a U)"
      using t5 by (simp_all add: s_def [symmetric] f_def [symmetric])
    have "bitmapBit hdr m7 i = (bitmapBit hdr m i \<or> i = j)" if i: "i < 8 * ALLOCATION_BITMAP_SIZE" for i
    proof -
      have "bitmapAt hdr (i div 8) < base" using low [of "i div 8"] i by auto
      then have "bitmapBit hdr m7 i = bitmapBit hdr m6 i" using A(5) by (simp add: bitmapBit_def m7x)
      then show ?thesis using bits5 [OF i] by (simp add: m6 setBitmap_bit [OF pay] j_def)
    qed
    then show "bitmapOk hdr base m7 (insert a U)"
      using D(5) by (auto simp: bitmapOk_def j_def)
  qed auto
qed

lemma pool_bitmap:
  assumes P: "pool hdr base high m C U L H" and a: "a \<in> dom C"
  shows "checkBitmap hdr base (a + 4) m = (a \<in> U)"
proof -
  note D = poolD [OF P] and A = chunk_facts [OF poolD(1) [OF P] a]
  have "checkBitmap hdr base (a + 4) m = (\<exists>b\<in>U. (b + 4 - base) div 16 = (a + 4 - base) div 16)"
    using D(5) slot_bound [OF D(1) a] A by (subst checkBitmap_bit) (auto simp: bitmapOk_def)
  also have "\<dots> = (a \<in> U)" using slots_differ [OF D(1) _ a] D(2) by blast
  finally show ?thesis .
qed

lemma neighbour_ok:
  assumes P: "pool hdr base high m C U L H" and b: "C b = Some t"
    and seen: "tagBytes seen = t" "tagFree seen = (b \<notin> U)"
  shows "assertNeighbour hdr base m b seen = Some ()"
proof -
  note D = poolD [OF P]
  have bC: "b \<in> dom C" using b by auto
  note F = foot_facts [OF D(1) bC]
  have t: "tagBytes (tags m b) = t" "tagBytes (tags m (b + t - 4)) = t" "tagFree (tags m b) = (b \<notin> U)"
    "tagFree (tags m (b + t - 4)) = (b \<notin> U)" using D(4) b by (auto simp: tagsOk_def)
  have b4: "4 dvd b" by (rule chunk_facts(1) [OF D(1) bC])
  have g: "getFooter m b = b + t - 4" using F(7) t(1) b by simp
  have f4: "4 dvd b + t - 4" using F(1) b by simp
  have "getSize m b = readSize seen" "getSize m b = readSize (readTag m (getFooter m b))"
    using t seen(1) b4 f4 unfolding g
    by (simp_all add: word_unat_eq_iff getSize_tags tagBytes_def readTag_tags)
  moreover have "tagFree seen \<or> checkBitmap hdr base (getPayload b) m"
    using seen(2) pool_bitmap [OF P bC] by (simp add: getPayload_def)
  ultimately show ?thesis
    using t seen b4 f4 by (simp add: assertNeighbour_def readTag_tags g)
qed

lemma assertChunk_ok:
  assumes P: "pool hdr base high m C U L H" and a: "a \<in> dom C"
  shows "assertChunk hdr base high a m = Some ()"
proof -
  note D = poolD [OF P]
  obtain s where s: "C a = Some s" using a by auto
  note A = layoutD [OF D(1) s] and a4 = chunk_facts(1) [OF D(1) a]
  have size: "unat (getSize m a) = s" using pool_size(1) [OF P a] s by simp
  have pred: "assertNeighbour hdr base m (getPred m a) (getTagPred m a) = Some ()" if ne: "base \<noteq> a"
  proof -
    obtain b t where b: "C b = Some t" "b + t = a" using A(7) ne by auto
    have "4 dvd a - 4" using a4 by simp
    moreover have "a - 4 = b + t - 4" using b by simp
    ultimately have seen: "getTagPred m a = tags m (b + t - 4)" by (simp add: getTagPred_def readTag_tags)
    have t: "tagBytes (tags m (b + t - 4)) = t" "tagFree (tags m (b + t - 4)) = (b \<notin> U)"
      using D(4) b(1) by (auto simp: tagsOk_def)
    have "getPred m a = b" using b(2) t(1) by (simp add: getPred_def seen tagBytes_def [symmetric])
    then show ?thesis using neighbour_ok [OF P b(1)] t seen by simp
  qed
  have succ: "assertNeighbour hdr base m (getSucc m a) (getTagSucc m a) = Some ()" if "a + s \<noteq> high"
  proof -
    have n: "a + s \<in> dom C" using A(6) that by simp
    then obtain t where t: "C (a + s) = Some t" by auto
    have "tagBytes (tags m (a + s)) = t" "tagFree (tags m (a + s)) = (a + s \<notin> U)"
      using D(4) t by (auto simp: tagsOk_def)
    moreover have "getSucc m a = a + s" by (simp add: getSucc_def size)
    moreover have "4 dvd a + s" by (rule chunk_facts(1) [OF D(1) n])
    ultimately show ?thesis using neighbour_ok [OF P t] by (simp add: getTagSucc_def readTag_tags)
  qed
  show ?thesis using pred succ by (auto simp: assertChunk_def size)
qed

lemma take_back:
  assumes P: "pool hdr base high m C U L {}" and a: "a \<in> U"
    and m1: "m1 = writePid a 0 m" and m2: "m2 = writeFree a True m1"
    and m3: "m3 = writePid (getFooter m2 a) 0 m2" and m4: "m4 = writeFree (getFooter m3 a) True m3"
    and m5: "m5 = storePtr (a + 8) 0 (storePtr (a + 4) 0 m4)" and m6: "m6 = clearBitmap hdr base (a + 4) m5"
  shows "pool hdr base high m6 C (U - {a}) L {a}" "sameOn (chunkBytes C (U - {a})) m m6"
proof -
  note D = poolD [OF P]
  have aC: "a \<in> dom C" using D(2) a by auto
  define s where "s = the (C a)"
  define f where "f = a + s - 4"
  have s: "C a = Some s" "16 \<le> s" using aC chunk_size(1) [OF D(1) aC] by (auto simp: s_def)
  note F = foot_facts [OF D(1) aC, folded s_def, folded f_def]
  note A = chunk_facts [OF D(1) aC]
  have tm: "tagBytes (tags m a) = s" "tagBytes (tags m f) = s" using D(4) s(1) by (auto simp: tagsOk_def f_def)
  have g2: "getFooter m2 a = f" by (rule F(7)) (simp add: m2 m1 A(1) tm)
  have m3': "m3 = writePid f 0 m2" by (simp add: m3 g2)
  have g3: "getFooter m3 a = f" by (rule F(7)) (use F(1,4) in \<open>simp add: m3' m2 m1 A(1) tm\<close>)
  have m4': "m4 = writeFree f True m3" by (simp add: m4 g3)
  have t5: "tagBytes (tags m5 a) = s" "tagBytes (tags m5 f) = s" "tagFree (tags m5 a)" "tagFree (tags m5 f)"
    using F(1,4,5,6) A(1) by (simp_all add: m5 tags_storePtr_other m4' m3' m2 m1 tm)
  have z5: "ptrs m5 (a + 4) = 0" "ptrs m5 (a + 8) = 0" using A(1) by (simp_all add: m5 ptrs_storePtr)
  have out5: "m5 x = m x" if "x \<notin> {a..<a + s}" for x
    using that F(2,3) s(2) unfolding m5 m4' m3' m2 m1 by (auto simp: not_le)
  define j where "j = (a + 4 - base) div 16"
  have pay: "base \<le> a + 4" "a + 4 < 2 ^ 32" using A by auto
  have j: "j < 8 * ALLOCATION_BITMAP_SIZE" unfolding j_def by (rule slot_bound [OF D(1) aC])
  have jb: "hdr + 1028 \<le> bitmapAt hdr (j div 8)" "bitmapAt hdr (j div 8) < base"
    using j heap_above by (auto simp: bitmapAt_def sizeofAllocHeader_def)
  have m6x: "m6 x = m5 x" if "x \<noteq> bitmapAt hdr (j div 8)" for x
    using that by (simp add: m6 clearBitmap_def Let_def store8_def getAddrByte_def getAddrBitmapOffset_eq [OF pay] j_def)
  have out6: "m6 x = m x" if "x \<notin> {a..<a + s}" "x \<noteq> bitmapAt hdr (j div 8)" for x
    using that by (simp add: m6x out5)
  have w: "ramWords m6 p = ramWords m5 p" if "a \<le> p" for p
    using that A(5) jb by (intro ramWords_cong m6x) auto
  show "pool hdr base high m6 C (U - {a}) L {a}"
  proof (rule pool_change_chunk [OF P aC])
    show "\<forall>x. hdr + 4 \<le> x \<and> x < hdr + 1028 \<longrightarrow> m6 x = m x"
      using jb A(5) base_high by (intro allI impI out6) auto
    show "\<forall>x. base \<le> x \<and> x \<notin> {a..<a + the (C a)} \<longrightarrow> m6 x = m x"
      using jb by (intro allI impI out6) (auto simp: s_def)
    have "tags m6 a = tags m5 a" "tags m6 f = tags m5 f" "ptrs m6 (a + 4) = ptrs m5 (a + 4)" "ptrs m6 (a + 8) = ptrs m5 (a + 8)"
      using w F(2) by (auto simp: tags_def ptrs_def)
    then show "tagBytes (tags m6 a) = the (C a)" "tagBytes (tags m6 (a + the (C a) - 4)) = the (C a)"
      "tagFree (tags m6 a) = (a \<notin> U - {a})" "tagFree (tags m6 (a + the (C a) - 4)) = (a \<notin> U - {a})"
      "\<And>x. x \<in> {a} \<Longrightarrow> ptrs m6 (x + 4) = 0 \<and> ptrs m6 (x + 8) = 0"
      using t5 z5 by (simp_all add: s_def [symmetric] f_def [symmetric])
    have "bitmapBit hdr m6 i = (bitmapBit hdr m i \<and> i \<noteq> j)" if i: "i < 8 * ALLOCATION_BITMAP_SIZE" for i
    proof -
      have "bitmapAt hdr (i div 8) < base" using i heap_above by (auto simp: bitmapAt_def sizeofAllocHeader_def)
      then have "bitmapBit hdr m5 i = bitmapBit hdr m i" using A(5) by (simp add: bitmapBit_def out5)
      then show ?thesis by (simp add: m6 clearBitmap_bit [OF pay] j_def)
    qed
    moreover have "(b + 4 - base) div 16 \<noteq> j" if "b \<in> U - {a}" for b
      using slots_differ [OF D(1), of b a] that D(2) aC by (auto simp: j_def)
    moreover have "(a + 4 - base) div 16 = j" by (simp add: j_def)
    ultimately have "bitmapBit hdr m6 i = (\<exists>b\<in>U - {a}. (b + 4 - base) div 16 = i)"
      if i: "i < 8 * ALLOCATION_BITMAP_SIZE" for i
      using D(5) i unfolding bitmapOk_def by blast
    then show "bitmapOk hdr base m6 (U - {a})" by (simp add: bitmapOk_def)
  qed (use a in auto)
  show "sameOn (chunkBytes C (U - {a})) m m6"
    unfolding sameOn_def
  proof
    fix x assume "x \<in> chunkBytes C (U - {a})"
    then obtain b where b: "b \<in> U - {a}" "x \<in> {b..<b + the (C b)}" by (auto simp: chunkBytes_def)
    then have "b \<in> dom C" "b \<noteq> a" using D(2) by auto
    then obtain t where t: "C b = Some t" "b \<noteq> a" by auto
    then show "m6 x = m x"
      using b(2) layout_apart [OF D(1) s(1) t(1)] layoutD(1) [OF D(1) t(1)] jb
      by (intro out6) auto
  qed
qed

end

end
