(* ===== verification/KHeapProps.thy ===== *)
theory KHeapProps
  imports KAlloc
begin

text \<open>
  The contract of the kernel allocator on the K70's memory map: \<open>heapOk\<close> is the invariant,
  \<open>kmalloc\<close> hands out aligned zeroed blocks that no other block overlaps, \<open>kfree\<close> takes them
  back, no call trips one of the allocator's own assertions, and what the code does at the
  sizes its arithmetic cannot represent.
\<close>

subsection \<open>The K70's memory map\<close>

definition HEAP_START :: nat where
  "HEAP_START = SDRAM_START + unat (WORD_PAD (of_nat sizeofAllocHeader))"

lemma k70_map: "SDRAM_START = 2148005888" "SDRAM_END = 2281701372" "HEAP_START = 2149043308"
  "sizeofAllocHeader = 1037420"
proof -
  show s: "SDRAM_START = 2148005888" "sizeofAllocHeader = 1037420"
    by (simp_all add: SDRAM_START_def sizeofAllocHeader_def ALLOCATION_BITMAP_SIZE_def)
  show "SDRAM_END = 2281701372" by (simp add: SDRAM_END_def s SDRAM_SIZE_def)
  show "HEAP_START = 2149043308" by (simp add: HEAP_START_def s WORD_PAD_def)
qed

interpretation k70: arena SDRAM_START HEAP_START SDRAM_END
  by unfold_locales (simp_all add: k70_map ALLOCATION_BITMAP_SIZE_def)

definition heapOk :: "Kheap \<Rightarrow> (nat \<rightharpoonup> nat) \<Rightarrow> nat set \<Rightarrow> bool" where
  "heapOk h C U =
     (ram0 h = SDRAM_START \<and> header h = SDRAM_START \<and> heap h = HEAP_START \<and> ramHighAddress h = SDRAM_END
      \<and> allocInUse h = of_nat (\<Sum>a\<in>U. the (C a))
      \<and> (\<exists>L. pool SDRAM_START HEAP_START SDRAM_END (ram h) C U L {} \<and> oneClean SDRAM_START L))"

subsection \<open>Sizes\<close>

lemma DWORD_PAD_unat:
  assumes "unat n + 7 < 2 ^ 32"
  shows "unat (DWORD_PAD n) = 8 * ((unat n + 7) div 8)"
proof -
  have "n + 8 - 1 = n + (7 :: u32)" by simp
  then have u: "unat (n + 8 - 1) = unat n + 7" using assms by (simp add: unat_word_ariths)
  have m: "NOT (8 - 1) = NOT (mask 3 :: u32)" by (simp add: mask_eq_exp_minus_1)
  have "w AND NOT (mask 3) = push_bit 3 (drop_bit 3 w)" for w :: u32
    by (rule bit_word_eqI) (auto simp: bit_and_iff bit_not_iff bit_mask_iff bit_push_bit_iff bit_drop_bit_eq)
  then have "DWORD_PAD n = push_bit 3 (drop_bit 3 (n + 8 - 1))"
    unfolding DWORD_PAD_def m .
  also have "\<dots> = drop_bit 3 (n + 8 - 1) * 8" by (simp add: push_bit_eq_mult)
  finally have p: "DWORD_PAD n = drop_bit 3 (n + 8 - 1) * 8" .
  have d: "unat (drop_bit 3 (n + 8 - 1)) = (unat n + 7) div 8"
    by (simp only: unat_drop_bit_eq u) (simp add: drop_bit_eq_div)
  have "(unat n + 7) div 8 * 8 \<le> unat n + 7" by (rule div_times_less_eq_dividend)
  then have "unat (DWORD_PAD n) = unat (drop_bit 3 (n + 8 - 1)) * unat (8 :: u32)"
    unfolding p using assms d by (intro unat_mult_small) simp
  then show ?thesis using d by simp
qed

lemma chunkSizeFor_ok:
  assumes "unat sz + 15 < 2 ^ 32"
  shows "8 dvd unat (chunkSizeFor sz)" "16 \<le> unat (chunkSizeFor sz)" "unat sz + 8 \<le> unat (chunkSizeFor sz)"
    "unat (chunkSizeFor sz) = 8 * ((max 16 (unat sz + 8) + 7) div 8)"
proof -
  define n where "n = (if sz + 8 < MIN_ALLOC_BYTES then sz + 8 + (MIN_ALLOC_BYTES - (sz + 8)) else sz + 8)"
  have u: "unat (sz + 8) = unat sz + 8" using assms by (simp add: unat_word_ariths)
  have n: "unat n = max 16 (unat sz + 8)"
  proof (cases "sz + 8 < 16")
    case True
    then have "unat sz + 8 < 16" using u by (simp add: word_less_nat_alt)
    then show ?thesis using True by (simp add: n_def)
  next
    case False
    then have "16 \<le> unat sz + 8" using u by (simp add: word_less_nat_alt)
    then show ?thesis using False u by (simp add: n_def)
  qed
  have c: "chunkSizeFor sz = DWORD_PAD n" by (simp add: chunkSizeFor_def n_def Let_def)
  have "unat n + 7 < 2 ^ 32" using n assms by (simp add: max_def)
  then have e: "unat (chunkSizeFor sz) = 8 * ((unat n + 7) div 8)" unfolding c by (rule DWORD_PAD_unat)
  then show "unat (chunkSizeFor sz) = 8 * ((max 16 (unat sz + 8) + 7) div 8)" by (simp add: n)
  show "8 dvd unat (chunkSizeFor sz)" by (simp add: e)
  have "unat n \<le> unat (chunkSizeFor sz)" unfolding e by presburger
  then show "16 \<le> unat (chunkSizeFor sz)" "unat sz + 8 \<le> unat (chunkSizeFor sz)" using n by auto
qed

subsection \<open>kmalloc\<close>

text \<open>The remainder of the last split and, before the first, the chunk \<open>initRam\<close> made: both too
  small for the request.\<close>

definition noReserve :: "u32 \<Rightarrow> Kheap \<Rightarrow> (nat \<rightharpoonup> nat) \<Rightarrow> bool" where
  "noReserve sz h C =
     (\<forall>x \<in> {loadPtr (ram h) (REMAINDER_CHUNK_BIN (header h)), loadPtr (ram h) (cleanBin (header h) (MAX_BINS - 1))}.
        x = 0 \<or> the (C x) < unat (chunkSizeFor sz))"

text \<open>The outcome of a call for \<open>sz\<close> bytes on a good heap.\<close>

definition kmallocSpec :: "u32 \<Rightarrow> Kheap \<Rightarrow> (nat \<rightharpoonup> nat) \<Rightarrow> nat set \<Rightarrow> errno + nat \<Rightarrow> Kheap \<Rightarrow> bool" where
  "kmallocSpec sz h C U r h' =
     (sameOn (chunkBytes C U) (ram h) (ram h') \<and>
      (case r of
         Inl e \<Rightarrow> e = ENOMEM \<and> heapOk h' C U \<and> noReserve sz h C
       | Inr p \<Rightarrow> p mod 8 = 0 \<and> p - 4 \<notin> U \<and> (\<forall>x\<in>{p..<p + unat sz}. ram h' x = 0)
          \<and> (\<exists>C'. heapOk h' C' (insert (p - 4) U) \<and> (\<forall>a\<in>U. C' a = C a)
                \<and> unat sz + 8 \<le> the (C' (p - 4)) \<and> the (C' (p - 4)) \<le> unat (chunkSizeFor sz) + 16)))"

lemma heapOk_finite:
  assumes "pool SDRAM_START HEAP_START SDRAM_END m C U L H"
  shows "finite (dom C)" "finite U"
proof -
  note D = k70.poolD [OF assms]
  have "dom C \<subseteq> {..SDRAM_END}" using layout_below [OF D(1)] by fastforce
  then show "finite (dom C)" by (rule finite_subset) simp
  then show "finite U" using D(2) by (rule rev_finite_subset)
qed

lemma kmallocPid_spec:
  assumes ok: "heapOk h C U" and sz: "unat sz + 15 < 2 ^ 32"
  shows "\<exists>r h'. kmallocPid sz pid h = Some (r, h') \<and> kmallocSpec sz h C U r h'"
proof -
  obtain L where P: "pool SDRAM_START HEAP_START SDRAM_END (ram h) C U L {}" "oneClean SDRAM_START L"
    using ok by (auto simp: heapOk_def)
  have h: "ram0 h \<noteq> 0" "header h = SDRAM_START" "heap h = HEAP_START" "ramHighAddress h = SDRAM_END"
    using ok by (auto simp: heapOk_def k70_map)
  note S = chunkSizeFor_ok [OF sz]
  obtain a m where a: "allocateChunk SDRAM_START SDRAM_END (chunkSizeFor sz) (ram h) = Some (a, m)"
    "allocOutcome SDRAM_START HEAP_START SDRAM_END (chunkSizeFor sz) (ram h) C U L a m"
    using k70.pool_allocate [OF P S(1,2)] by blast
  show ?thesis
  proof (cases "a = 0")
    case True
    then obtain L' where L': "pool SDRAM_START HEAP_START SDRAM_END m C U L' {}" "oneClean SDRAM_START L'"
      "quiet SDRAM_START C U (ram h) m" using a(2) by (auto simp: allocOutcome_def)
    have "noReserve sz h C"
    proof -
      have z: "loadPtr (ram h) c = 0 \<or> loadPtr (ram h) c \<in> set (L c)" if "c \<in> cells SDRAM_START" for c
        using k70.chain_first_nonempty(1) [OF P(1) that] by (auto split: list.splits)
      show ?thesis
        using a(2) True h z [of "REMAINDER_CHUNK_BIN SDRAM_START"] z [of "cleanBin SDRAM_START (MAX_BINS - 1)"]
        by (auto simp: noReserve_def allocOutcome_def)
    qed
    note reserve = this
    have "kmallocPid sz pid h = Some (Inl ENOMEM, h\<lparr>ram := m\<rparr>)"
      using h a(1) True by (simp add: kmallocPid_def initRam_def Let_def)
    moreover have "kmallocSpec sz h C U (Inl ENOMEM) (h\<lparr>ram := m\<rparr>)"
      using L' ok reserve by (auto simp: kmallocSpec_def heapOk_def quiet_def)
    ultimately show ?thesis by blast
  next
    case False
    then obtain C' L' where T: "pool SDRAM_START HEAP_START SDRAM_END m C' U L' {a}" "oneClean SDRAM_START L'"
      "\<forall>b\<in>U. C' b = C b" "unat (chunkSizeFor sz) \<le> the (C' a)" "the (C' a) \<le> unat (chunkSizeFor sz) + 16"
      "quiet SDRAM_START C U (ram h) m" using a(2) by (auto simp: allocOutcome_def taken_def)
    have aC: "a \<in> dom C'" "a \<notin> U" using k70.poolD(3) [OF T(1)] by auto
    have fit: "unat sz + 8 \<le> the (C' a)" using T(4) S(3) by simp
    define m1 where "m1 = store32 SDRAM_START (getSize m a) m"
    define m2 where "m2 = writePid a pid m1"
    define m3 where "m3 = writePid (getFooter m2 a) pid m2"
    define m4 where "m4 = writeFree a False m3"
    define m5 where "m5 = writeFree (getFooter m4 a) False m4"
    define m6 where "m6 = setBitmap SDRAM_START HEAP_START (a + 4) m5"
    define m7 where "m7 = kmemset (a + 4) 0 (unat sz) m6"
    note O = k70.hand_out [OF T(1) fit m1_def m2_def m3_def m4_def m5_def m6_def m7_def]
    define inUse where "inUse = allocInUse h + getSize m6 a"
    define h' where "h' = h\<lparr>allocInUse := inUse, allocFree := allocFree h - getSize m6 a,
        allocPM := allocPM h + 1, allocCount := allocCount h + 1,
        allocHWM := (if allocHWM h < inUse then inUse else allocHWM h), ram := m7\<rparr>"
    have "kmallocPid sz pid h = Some (Inr (a + 4), h')"
      using h a(1) False O(1,2)
      by (simp add: kmallocPid_def initRam_def Let_def getPayload_def
          m1_def [symmetric] m2_def [symmetric] m3_def [symmetric] m4_def [symmetric] m5_def [symmetric]
          m6_def [symmetric] m7_def [symmetric] h'_def inUse_def split del: if_split cong del: if_weak_cong)
    moreover have "kmallocSpec sz h C U (Inr (a + 4)) h'"
    proof -
      obtain t where t: "C' a = Some t" using aC(1) by auto
      have "a mod 8 = 4" by (rule layoutD(2) [OF k70.poolD(1) [OF T(1)] t])
      then have "(a + 4) mod 8 = 0" by presburger
      moreover have "sameOn (chunkBytes C U) (ram h) (ram h')"
      proof -
        have "chunkBytes C' U = chunkBytes C U" using T(3) by (simp add: chunkBytes_def)
        then show ?thesis using O(6) T(6) by (auto simp: h'_def quiet_def intro: sameOn_trans)
      qed
      moreover have "heapOk h' C' (insert a U)"
      proof -
        have "getSize m6 a = of_nat (the (C' a))" using O(3) k70.pool_size(2) [OF T(1) aC(1)] by simp
        moreover have "(\<Sum>b\<in>insert a U. the (C' b)) = the (C' a) + (\<Sum>b\<in>U. the (C b))"
          using aC(2) heapOk_finite(2) [OF P(1)] T(3) by (simp cong: sum.cong)
        ultimately have "allocInUse h' = of_nat (\<Sum>b\<in>insert a U. the (C' b))"
          using ok by (simp add: h'_def inUse_def heapOk_def)
        then show ?thesis using h ok O(4) T(2) by (auto simp: heapOk_def h'_def)
      qed
      moreover have "\<forall>x\<in>{a + 4..<a + 4 + unat sz}. ram h' x = 0" using O(5) by (simp add: h'_def)
      ultimately show ?thesis
        using aC(2) fit T(3,5) by (simp add: kmallocSpec_def) blast
    qed
    ultimately show ?thesis by blast
  qed
qed

subsection \<open>kfree\<close>

lemma kfreePtr_spec:
  assumes ok: "heapOk h C U" and a: "a \<in> U"
  shows "\<exists>h'. kfreePtr (a + 4) h = Some h' \<and> heapOk h' C (U - {a})
    \<and> sameOn (chunkBytes C (U - {a})) (ram h) (ram h')"
proof -
  obtain L where P: "pool SDRAM_START HEAP_START SDRAM_END (ram h) C U L {}" "oneClean SDRAM_START L"
    using ok by (auto simp: heapOk_def)
  have h: "header h = SDRAM_START" "heap h = HEAP_START" "ramHighAddress h = SDRAM_END"
    using ok by (auto simp: heapOk_def)
  note D = k70.poolD [OF P(1)]
  have aC: "a \<in> dom C" using D(2) a by auto
  then obtain s where s: "C a = Some s" by auto
  have "a mod 8 = 4" by (rule layoutD(2) [OF D(1) s])
  then have p8: "(a + 4) mod 8 = 0" by presburger
  note A = k70.chunk_facts [OF D(1) aC]
  define m where "m = ram h"
  define m1 where "m1 = writePid a 0 m"
  define m2 where "m2 = writeFree a True m1"
  define m3 where "m3 = writePid (getFooter m2 a) 0 m2"
  define m4 where "m4 = writeFree (getFooter m3 a) True m3"
  define m5 where "m5 = storePtr (a + 8) 0 (storePtr (a + 4) 0 m4)"
  define m6 where "m6 = clearBitmap SDRAM_START HEAP_START (a + 4) m5"
  note T = k70.take_back [OF P(1) a m1_def [unfolded m_def] m2_def m3_def m4_def m5_def m6_def]
  let ?c = "RECENT_CHUNK_BIN SDRAM_START"
  obtain m7 where m7: "binChunk SDRAM_START a BinRecent m6 = Some m7"
    "pool SDRAM_START HEAP_START SDRAM_END m7 C (U - {a}) (L(?c := a # L ?c)) ({a} - {a})"
    "onlyLinks ?c (insert a (set (L ?c))) m6 m7"
    using k70.pool_bin_recent [OF T(1), of a] by blast
  define h1 where "h1 = h\<lparr>allocInUse := allocInUse h - getSize m a, allocFree := allocFree h + getSize m a,
      freeCount := freeCount h + 1, allocPM := allocPM h - 1\<rparr>"
  have "kfreePtr (a + 4) h = Some (h1\<lparr>ram := m7\<rparr>)"
    using h p8 A(5,6) m7(1) k70.pool_bitmap [OF P(1) aC] a k70.assertChunk_ok [OF P(1) aC]
    by (simp add: kfreePtr_def Let_def m_def [symmetric] m1_def [symmetric] m2_def [symmetric] m3_def [symmetric]
        m4_def [symmetric] m5_def [symmetric] m6_def [symmetric] h1_def)
  moreover have "heapOk (h1\<lparr>ram := m7\<rparr>) C (U - {a})"
  proof -
    have "(\<Sum>b\<in>U. the (C b)) = the (C a) + (\<Sum>b\<in>U - {a}. the (C b))"
      using a heapOk_finite(2) [OF P(1)] by (rule sum.remove [rotated])
    moreover have "getSize m a = of_nat (the (C a))" unfolding m_def by (rule k70.pool_size(2) [OF P(1) aC])
    ultimately have "allocInUse h1 = of_nat (\<Sum>b\<in>U - {a}. the (C b))"
      using ok by (simp add: h1_def heapOk_def)
    moreover have "oneClean SDRAM_START (L(?c := a # L ?c))" using P(2) by (rule oneClean_cong) simp
    ultimately show ?thesis using ok m7(2) by (auto simp: heapOk_def h1_def)
  qed
  moreover have "sameOn (chunkBytes C (U - {a})) m m7"
  proof -
    have "insert a (set (L ?c)) \<subseteq> dom C - (U - {a})" using D(8) [of ?c] aC by auto
    then have "quiet SDRAM_START C (U - {a}) m6 m7"
      using D(1,2) m7(3) by (intro k70.quiet_links [of C ?c]) auto
    then show ?thesis using T(2) by (auto simp: quiet_def m_def intro: sameOn_trans)
  qed
  ultimately show ?thesis unfolding m_def by auto
qed

text \<open>Freeing what is not handed out trips the assertion.\<close>

lemma kfreePtr_not_allocated:
  assumes ok: "heapOk h C U" and a: "a \<in> dom C - U"
  shows "kfreePtr (a + 4) h = None"
proof -
  obtain L where P: "pool SDRAM_START HEAP_START SDRAM_END (ram h) C U L {}"
    using ok by (auto simp: heapOk_def)
  have aC: "a \<in> dom C" "a \<notin> U" using a by auto
  then obtain s where s: "C a = Some s" by auto
  have "a mod 8 = 4" by (rule layoutD(2) [OF k70.poolD(1) [OF P] s])
  then have "(a + 4) mod 8 = 0" by presburger
  then show ?thesis
    using k70.pool_bitmap [OF P aC(1)] aC(2) ok by (simp add: kfreePtr_def heapOk_def)
qed

subsection \<open>The first call\<close>

lemma clearBins_other:
  "x < hdr + 4 \<or> hdr + 4 + 8 * n \<le> x \<Longrightarrow> clearBins hdr n m x = m x"
  by (induction n) (auto simp: cleanBin_def dirtyBin_def)

lemma clearBins_ptrs:
  assumes "4 dvd hdr" "c \<in> cleanBin hdr ` {..<n} \<union> dirtyBin hdr ` {..<n}"
  shows "ptrs (clearBins hdr n m) c = 0"
  using assms(2)
proof (induction n)
  case (Suc n)
  have al: "4 dvd cleanBin hdr n" "4 dvd dirtyBin hdr n" using assms(1) by (auto simp: cleanBin_def dirtyBin_def)
  have "ptrs (clearBins hdr (Suc n) m) = (ptrs (clearBins hdr n m))(dirtyBin hdr n := 0, cleanBin hdr n := 0)"
    using al by (simp add: ptrs_storePtr)
  then show ?case using Suc by (auto simp: less_Suc_eq)
qed simp

definition bootChunks :: "nat \<rightharpoonup> nat" where
  "bootChunks = [HEAP_START \<mapsto> SDRAM_END - HEAP_START]"

lemma initRam_spec:
  assumes h: "ram0 h = 0" "allocInUse h = 0"
  shows "\<exists>h'. initRam h = Some h' \<and> heapOk h' bootChunks {}
    \<and> loadPtr (ram h') (cleanBin (header h') (MAX_BINS - 1)) = HEAP_START"
proof -
  define total :: u32 where "total = of_nat (SDRAM_END - HEAP_START)"
  have total: "unat total = 132658064" by (simp add: total_def k70_map)
  define m1 where "m1 = clearBins SDRAM_START MAX_BINS (kmemset SDRAM_START 0 sizeofAllocHeader (ram h))"
  define m2 where "m2 = kmemset HEAP_START 0xfa (unat total) m1"
  obtain m3 where m3: "initChunk SDRAM_END HEAP_START total m2 = Some (HEAP_START, m3)"
    "freshChunk m3 HEAP_START (unat total)"
    "\<forall>x. x \<notin> {HEAP_START..<HEAP_START + unat total} \<longrightarrow> m3 x = m2 x"
    using initChunk_fresh [of HEAP_START total SDRAM_END m2] by (auto simp: total k70_map)
  have base: "SDRAM_START + unat (WORD_PAD (of_nat sizeofAllocHeader)) = HEAP_START" by (simp add: HEAP_START_def)
  define c where "c = cleanBin SDRAM_START 127"
  define m4 where "m4 = storePtr (prevOf HEAP_START) c (storePtr c HEAP_START m3)"
  have low: "m3 x = m1 x" if "x < HEAP_START" for x
    using that m3(3) by (simp add: m2_def kmemset_fill fillSet_def)
  have zero: "ptrs m3 d = 0" if d: "d \<in> cells SDRAM_START" for d
  proof -
    have "ptrs m1 d = 0" unfolding m1_def
      using d by (intro clearBins_ptrs) (auto simp: cells_def k70_map)
    moreover have "ramWords m3 d = ramWords m1 d"
      using k70.cell_facts(3) [OF d] k70.base_high by (intro ramWords_cong low) auto
    ultimately show ?thesis by (simp add: ptrs_def)
  qed
  have bits: "\<not> bitmapBit SDRAM_START m3 i" if i: "i < 8 * ALLOCATION_BITMAP_SIZE" for i
  proof -
    let ?p = "bitmapAt SDRAM_START (i div 8)"
    have p: "?p < HEAP_START" "SDRAM_START + 1028 \<le> ?p" "?p < SDRAM_START + sizeofAllocHeader"
      using i by (auto simp: bitmapAt_def k70_map ALLOCATION_BITMAP_SIZE_def)
    have "m3 ?p = 0" using p
      by (simp add: low m1_def clearBins_other kmemset_fill fillSet_def)
    then show ?thesis by (simp add: bitmapBit_def)
  qed
  have hands: "pool SDRAM_START HEAP_START SDRAM_END m3 bootChunks {} (\<lambda>_. []) {HEAP_START}"
  proof -
    have t: "SDRAM_END - HEAP_START = unat total" by (simp add: total k70_map)
    have "layout HEAP_START SDRAM_END bootChunks"
      by (simp add: layout_def bootChunks_def k70_map)
    moreover have "tagsOk m3 bootChunks {}"
      using m3(2) by (simp add: tagsOk_def bootChunks_def freshChunk_def t)
    moreover have "listsOk SDRAM_START m3 (\<lambda>_. []) {} {HEAP_START}"
      using zero m3(2) by (simp add: listsOk_def freshChunk_def)
    moreover have "dom bootChunks = {HEAP_START}" by (simp add: bootChunks_def)
    ultimately show ?thesis using bits by (simp add: pool_def bitmapOk_def)
  qed
  have cc: "c \<in> cells SDRAM_START" by (simp add: c_def)
  have m4: "m4 = binFirst c HEAP_START m3" by (simp add: m4_def binFirst_def)
  have P: "pool SDRAM_START HEAP_START SDRAM_END m4 bootChunks {} ((\<lambda>_. [])(c := [HEAP_START])) {}"
    using k70.pool_binFirst(1) [OF hands cc] by (simp add: m4)
  have one: "oneClean SDRAM_START ((\<lambda>_. [])(c := [HEAP_START]))"
    by (auto simp: oneClean_def c_def)
  have top: "loadPtr m4 c = HEAP_START" using k70.chain_first_nonempty(1) [OF P cc] by simp
  define h' where "h' = h\<lparr>ram := m4, ram0 := SDRAM_START, ramHighAddress := SDRAM_END, header := SDRAM_START,
      heap := HEAP_START, totalRAM := total, numChunkOffsets := unat (total div MIN_ALLOC_BYTES),
      allocFree := getSize m4 HEAP_START\<rparr>"
  have "initRam h = Some h'"
    using h(1) m3(1)
    by (simp add: initRam_def Let_def base total_def [symmetric] m1_def [symmetric] m2_def [symmetric]
        c_def [symmetric] m4_def [symmetric] h'_def)
  moreover have "heapOk h' bootChunks {}"
    using P one h(2) by (auto simp: heapOk_def h'_def)
  ultimately show ?thesis using top by (auto simp: h'_def c_def)
qed

text \<open>A call on a heap not set up yet is a call on the heap \<open>initRam\<close> makes of it.\<close>

lemma kmallocPid_boot:
  assumes "initRam h = Some h1" "ram0 h1 \<noteq> 0"
  shows "kmallocPid sz pid h = kmallocPid sz pid h1"
proof -
  have "initRam h1 = Some h1" using assms(2) by (simp add: initRam_def)
  with assms(1) show ?thesis by (simp add: kmallocPid_def)
qed

lemma kmallocPid_first:
  assumes "ram0 h = 0" "allocInUse h = 0"
  shows "\<exists>h1. heapOk h1 bootChunks {} \<and> kmallocPid sz pid h = kmallocPid sz pid h1
    \<and> loadPtr (ram h1) (cleanBin (header h1) (MAX_BINS - 1)) = HEAP_START"
proof -
  obtain h1 where h1: "initRam h = Some h1" "heapOk h1 bootChunks {}"
    "loadPtr (ram h1) (cleanBin (header h1) (MAX_BINS - 1)) = HEAP_START"
    using initRam_spec [OF assms] by blast
  have "ram0 h1 \<noteq> 0" using h1(2) by (simp add: heapOk_def k70_map)
  from kmallocPid_boot [OF h1(1) this] h1(2,3) show ?thesis by blast
qed

subsection \<open>Any sequence of calls\<close>

text \<open>The heaps a program reaches from the arbitrary memory at power-up, with the pointers it holds.\<close>

inductive heapRun :: "Kheap \<Rightarrow> nat set \<Rightarrow> bool" where
  boot: "heapRun (bootHeap m) {}"
| alloc: "heapRun h A \<Longrightarrow> unat sz + 15 < 2 ^ 32 \<Longrightarrow> kmallocPid sz pid h = Some (Inr p, h')
    \<Longrightarrow> heapRun h' (insert p A)"
| nomem: "heapRun h A \<Longrightarrow> unat sz + 15 < 2 ^ 32 \<Longrightarrow> kmallocPid sz pid h = Some (Inl e, h') \<Longrightarrow> heapRun h' A"
| release: "heapRun h A \<Longrightarrow> p \<in> A \<Longrightarrow> kfreePtr p h = Some h' \<Longrightarrow> heapRun h' (A - {p})"

definition goodHeap :: "Kheap \<Rightarrow> nat set \<Rightarrow> bool" where
  "goodHeap h A =
     (ram0 h = 0 \<and> allocInUse h = 0 \<and> A = {} \<or> (\<exists>C U. heapOk h C U \<and> A = (\<lambda>a. a + 4) ` U))"

lemma goodHeap_kmalloc:
  assumes "goodHeap h A" "unat sz + 15 < 2 ^ 32"
  shows "\<exists>C U r h'. A = (\<lambda>a. a + 4) ` U \<and> kmallocPid sz pid h = Some (r, h')
    \<and> (case r of Inl e \<Rightarrow> e = ENOMEM \<and> goodHeap h' A | Inr p \<Rightarrow> p \<notin> A \<and> p mod 8 = 0 \<and> goodHeap h' (insert p A))"
proof -
  obtain C U h1 where h1: "heapOk h1 C U" "A = (\<lambda>a. a + 4) ` U" "kmallocPid sz pid h = kmallocPid sz pid h1"
  proof (cases "ram0 h = 0 \<and> allocInUse h = 0 \<and> A = {}")
    case True
    then show thesis using kmallocPid_first [of h sz pid] that [of _ bootChunks "{}"] by auto
  next
    case False
    then show thesis using assms(1) that by (auto simp: goodHeap_def)
  qed
  obtain r h' where r: "kmallocPid sz pid h1 = Some (r, h')" "kmallocSpec sz h1 C U r h'"
    using kmallocPid_spec [OF h1(1) assms(2)] by blast
  have "case r of Inl e \<Rightarrow> e = ENOMEM \<and> goodHeap h' A | Inr p \<Rightarrow> p \<notin> A \<and> p mod 8 = 0 \<and> goodHeap h' (insert p A)"
  proof (cases r)
    case (Inl e)
    then show ?thesis using r(2) h1(2) by (auto simp: kmallocSpec_def goodHeap_def)
  next
    case (Inr p)
    then obtain C' where p: "p mod 8 = 0" "p - 4 \<notin> U" "heapOk h' C' (insert (p - 4) U)"
      using r(2) by (auto simp: kmallocSpec_def)
    obtain L where P: "pool SDRAM_START HEAP_START SDRAM_END (ram h') C' (insert (p - 4) U) L {}"
      using p(3) by (auto simp: heapOk_def)
    have "p - 4 \<in> dom C'" using k70.poolD(2) [OF P] by auto
    then have "p - 4 \<noteq> 0" using k70.chunk_facts(4) [OF k70.poolD(1) [OF P]] by blast
    then have "insert p A = (\<lambda>a. a + 4) ` insert (p - 4) U" "p \<notin> A" using h1(2) p(2) by auto
    then show ?thesis using p Inr by (auto simp: goodHeap_def)
  qed
  with r(1) h1(2,3) show ?thesis by auto
qed

lemma goodHeap_kfree:
  assumes "goodHeap h A" "p \<in> A"
  shows "\<exists>h'. kfreePtr p h = Some h' \<and> goodHeap h' (A - {p})"
proof -
  obtain C U a where a: "heapOk h C U" "A = (\<lambda>a. a + 4) ` U" "a \<in> U" "p = a + 4"
    using assms by (auto simp: goodHeap_def)
  moreover have "A - {p} = (\<lambda>a. a + 4) ` (U - {a})" using a by auto
  ultimately show ?thesis using kfreePtr_spec [OF a(1,3)] by (auto simp: goodHeap_def)
qed

lemma heapRun_good: "heapRun h A \<Longrightarrow> goodHeap h A"
proof (induction rule: heapRun.induct)
  case (boot m)
  then show ?case by (simp add: goodHeap_def bootHeap_def)
next
  case (alloc h A sz pid p h')
  then show ?case using goodHeap_kmalloc [of h A sz pid] by auto
next
  case (nomem h A sz pid e h')
  then show ?case using goodHeap_kmalloc [of h A sz pid] by auto
next
  case (release h A p h')
  then show ?case using goodHeap_kfree [of h A p] by auto
qed

subsection \<open>Requests too big to pad\<close>

text \<open>From \<open>2 ^ 32 - 8\<close> on, adding the two tags wraps: a 16-byte chunk is handed out and then
  \<open>size\<close> bytes are zeroed.\<close>

lemma chunkSizeFor_wraps:
  assumes "2 ^ 32 - 8 \<le> unat sz"
  shows "chunkSizeFor sz = 16"
proof -
  have "4294967296 \<le> unat sz + 8" using assms by simp
  then obtain e where e: "unat sz + 8 = 4294967296 + e" by (rule le_Suc_ex [THEN exE])
  have "unat sz < 4294967296" by simp
  then have "e < 8" using e by linarith
  moreover have "unat (sz + 8) = (unat sz + 8) mod 4294967296" by (simp add: unat_word_ariths)
  ultimately have "unat (sz + 8) < 16" unfolding e by simp
  then have "sz + 8 < 16" by (simp add: word_less_nat_alt)
  then show ?thesis by (simp add: chunkSizeFor_def Let_def DWORD_PAD_def)
qed

lemma kmallocPid_wraps:
  assumes ok: "heapOk h C U" and sz: "2 ^ 32 - 8 \<le> unat sz"
  shows "\<exists>r h'. kmallocPid sz pid h = Some (r, h')
    \<and> (case r of Inl e \<Rightarrow> noReserve sz h C | Inr p \<Rightarrow> \<forall>x\<in>{p..<p + unat sz}. ram h' x = 0)"
proof -
  obtain L where P: "pool SDRAM_START HEAP_START SDRAM_END (ram h) C U L {}" "oneClean SDRAM_START L"
    using ok by (auto simp: heapOk_def)
  have h: "ram0 h \<noteq> 0" "header h = SDRAM_START" "heap h = HEAP_START" "ramHighAddress h = SDRAM_END"
    using ok by (auto simp: heapOk_def k70_map)
  note S = chunkSizeFor_wraps [OF sz]
  obtain a m where a: "allocateChunk SDRAM_START SDRAM_END 16 (ram h) = Some (a, m)"
    "allocOutcome SDRAM_START HEAP_START SDRAM_END 16 (ram h) C U L a m"
    using k70.pool_allocate [OF P, of 16] by auto
  show ?thesis
  proof (cases "a = 0")
    case True
    have z: "loadPtr (ram h) c = 0 \<or> loadPtr (ram h) c \<in> set (L c)" if "c \<in> cells SDRAM_START" for c
      using k70.chain_first_nonempty(1) [OF P(1) that] by (auto split: list.splits)
    have "noReserve sz h C"
      using a(2) True h S z [of "REMAINDER_CHUNK_BIN SDRAM_START"] z [of "cleanBin SDRAM_START (MAX_BINS - 1)"]
      by (auto simp: noReserve_def allocOutcome_def)
    moreover have "kmallocPid sz pid h = Some (Inl ENOMEM, h\<lparr>ram := m\<rparr>)"
      using h a(1) True S by (simp add: kmallocPid_def initRam_def Let_def)
    ultimately show ?thesis by auto
  next
    case False
    then obtain C' L' where T: "pool SDRAM_START HEAP_START SDRAM_END m C' U L' {a}" "16 \<le> the (C' a)"
      using a(2) by (auto simp: allocOutcome_def taken_def)
    have aC: "a \<in> dom C'" using k70.poolD(3) [OF T(1)] by auto
    define m1 where "m1 = store32 SDRAM_START (getSize m a) m"
    define m2 where "m2 = writePid a pid m1"
    define m3 where "m3 = writePid (getFooter m2 a) pid m2"
    define m4 where "m4 = writeFree a False m3"
    define m5 where "m5 = writeFree (getFooter m4 a) False m4"
    define m6 where "m6 = setBitmap SDRAM_START HEAP_START (a + 4) m5"
    have "0 + 8 \<le> the (C' a)" using T(2) by simp
    note O = k70.hand_out [OF T(1) this m1_def m2_def m3_def m4_def m5_def m6_def refl]
    have "a + 4 < 4294967296" using k70.chunk_facts(3) [OF k70.poolD(1) [OF T(1)] aC] by simp
    have stop: "(a + 4 + unat sz) mod 2 ^ 32 \<le> a + 4"
    proof -
      have "2 ^ 32 \<le> a + 4 + unat sz" using sz k70.chunk_facts(2) [OF k70.poolD(1) [OF T(1)] aC] by simp
      then obtain e where e: "a + 4 + unat sz = 2 ^ 32 + e" by (rule le_Suc_ex [THEN exE])
      have "unat sz < 2 ^ 32" by simp
      then have "e \<le> a + 4" using e by linarith
      moreover have "e mod 2 ^ 32 \<le> e" by (rule mod_less_eq_dividend)
      ultimately show ?thesis unfolding e by simp
    qed
    then have region: "regionClear SDRAM_START HEAP_START (a + 4) ((a + 4 + unat sz) mod 2 ^ 32) m5"
      by (subst regionClear.simps) simp
    define inUse where "inUse = allocInUse h + getSize m6 a"
    define h' where "h' = h\<lparr>allocInUse := inUse, allocFree := allocFree h - getSize m6 a,
        allocPM := allocPM h + 1, allocCount := allocCount h + 1,
        allocHWM := (if allocHWM h < inUse then inUse else allocHWM h), ram := kmemset (a + 4) 0 (unat sz) m6\<rparr>"
    have "kmallocPid sz pid h = Some (Inr (a + 4), h')"
      using h a(1) False O(1) region S
      by (simp add: kmallocPid_def initRam_def Let_def getPayload_def
          m1_def [symmetric] m2_def [symmetric] m3_def [symmetric] m4_def [symmetric] m5_def [symmetric]
          m6_def [symmetric] h'_def inUse_def split del: if_split cong del: if_weak_cong)
    moreover have "\<forall>x\<in>{a + 4..<a + 4 + unat sz}. ram h' x = 0"
      by (simp add: h'_def kmemset_fill fillSet_def)
    ultimately show ?thesis by auto
  qed
qed

subsection \<open>The debug check of the bitmap\<close>

text \<open>Addresses 16 bytes apart have bits of their own.\<close>

lemma integrityLoop_empty:
  assumes "base \<le> addr" "stop \<le> 2 ^ 32"
    and "\<And>i. (addr - base) div 16 \<le> i \<Longrightarrow> \<not> bit (bm (i div 8)) (7 - i mod 8)"
  shows "integrityLoop base addr stop bm = []"
  using assms
proof (induction base addr stop bm rule: integrityLoop.induct)
  case (1 base addr stop bm)
  show ?case
  proof (cases "addr < stop")
    case True
    define i where "i = (addr - base) div 16"
    have off: "getAddrBitmapOffset base addr = i"
      unfolding i_def using True 1(2,3) by (intro getAddrBitmapOffset_eq) auto
    define b where "b = (bm(i div 8 := bm (i div 8) OR push_bit (7 - i mod 8) 1) :: Ram)"
    have clear: "\<not> (bm (i div 8) AND push_bit (7 - i mod 8) 1 \<noteq> 0)"
      unfolding word_bit_test using 1(4) [of i] by (simp add: i_def)
    have nxt: "(addr + 16 - base) div 16 = i + 1" using 1(2) by (simp add: i_def)
    have "integrityLoop base (addr + 16) stop b = []"
    proof (rule 1(1) [OF True refl refl refl, unfolded getAddrByte_def getAddrBit_def off, folded b_def])
      show "\<not> bit (b (k div 8)) (7 - k mod 8)" if "(addr + 16 - base) div 16 \<le> k" for k
      proof -
        have k: "i < k" using that nxt by simp
        then have "\<not> (k div 8 = i div 8 \<and> 7 - k mod 8 = 7 - i mod 8)" using slot_inj [of k i] by auto
        moreover have "\<not> bit (bm (k div 8)) (7 - k mod 8)" using 1(4) [of k] k by (simp add: i_def)
        ultimately show ?thesis by (auto simp: b_def bit_simps)
      qed
    qed (use 1(2,3) in auto)
    from this [unfolded b_def] show ?thesis
      using True clear
      by (subst integrityLoop.simps) (simp add: getAddrByte_def getAddrBit_def off Let_def)
  qed (subst integrityLoop.simps, simp)
qed

subsection \<open>Properties\<close>

lemma kmallocPid_reserve:
  assumes ok: "heapOk h C U" and sz: "unat sz + 15 < 2 ^ 32"
    and x: "x \<in> {loadPtr (ram h) (REMAINDER_CHUNK_BIN (header h)), loadPtr (ram h) (cleanBin (header h) (MAX_BINS - 1))}"
      "x \<noteq> 0" "unat (chunkSizeFor sz) \<le> the (C x)"
  shows "\<exists>p h'. kmallocPid sz pid h = Some (Inr p, h')"
proof -
  obtain r h' where r: "kmallocPid sz pid h = Some (r, h')" "kmallocSpec sz h C U r h'"
    using kmallocPid_spec [OF ok sz] by blast
  have "\<not> noReserve sz h C" using x unfolding noReserve_def by (metis not_le)
  then show ?thesis using r by (cases r) (auto simp: kmallocSpec_def)
qed

lemma block_apart:
  assumes "heapOk h C (insert a U)" "a \<notin> U" "\<forall>b\<in>U. C b = C0 b"
  shows "{a..<a + the (C a)} \<inter> chunkBytes C0 U = {}"
proof -
  obtain L where P: "pool SDRAM_START HEAP_START SDRAM_END (ram h) C (insert a U) L {}"
    using assms(1) by (auto simp: heapOk_def)
  note lay = k70.poolD(1) [OF P]
  have dom: "insert a U \<subseteq> dom C" by (rule k70.poolD(2) [OF P])
  then obtain s where s: "C a = Some s" by auto
  have "{a..<a + s} \<inter> {b..<b + the (C0 b)} = {}" if "b \<in> U" for b
  proof -
    have "b \<in> dom C" using dom that by auto
    then obtain t where t: "C b = Some t" by auto
    then have "the (C0 b) = t" using assms(3) that by (metis option.sel)
    moreover have "a \<noteq> b" using that assms(2) by auto
    ultimately show ?thesis using layout_apart [OF lay s t] by auto
  qed
  then show ?thesis unfolding chunkBytes_def s option.sel by blast
qed

text \<open>
  C3: On a good heap \<open>kmalloc\<close> returns, whatever the size it can represent: with \<open>ENOMEM\<close> and
  the blocks as they were, or with a pointer that is aligned to eight bytes, to zeroed bytes that
  lie in no block handed out before; the other blocks keep their bytes and their sizes, and the
  heap is good again with the new block in it.
\<close>
theorem kmalloc_fresh_block:
  assumes "heapOk h C U" "unat sz + 15 < 2 ^ 32"
  shows "\<exists>r h'. kmalloc sz pid h = Some (r, h') \<and> sameOn (chunkBytes C U) (ram h) (ram h') \<and>
    (case r of
       Inl e \<Rightarrow> e = ENOMEM \<and> heapOk h' C U
     | Inr p \<Rightarrow> p mod 8 = 0 \<and> (\<forall>x\<in>{p..<p + unat sz}. ram h' x = 0)
        \<and> {p..<p + unat sz} \<inter> chunkBytes C U = {}
        \<and> (\<exists>C'. heapOk h' C' (insert (p - 4) U) \<and> p - 4 \<notin> U \<and> (\<forall>a\<in>U. C' a = C a)))"
proof -
  obtain r h' where r: "kmallocPid sz pid h = Some (r, h')" "kmallocSpec sz h C U r h'"
    using kmallocPid_spec [OF assms] by blast
  show ?thesis
  proof (cases r)
    case (Inl e)
    with r show ?thesis by (auto simp: kmalloc_def kmallocSpec_def)
  next
    case (Inr p)
    with r(2) obtain C' where p: "p mod 8 = 0" "p - 4 \<notin> U" "\<forall>x\<in>{p..<p + unat sz}. ram h' x = 0"
      "heapOk h' C' (insert (p - 4) U)" "\<forall>a\<in>U. C' a = C a" "unat sz + 8 \<le> the (C' (p - 4))"
      and same: "sameOn (chunkBytes C U) (ram h) (ram h')"
      by (auto simp: kmallocSpec_def)
    have "{p..<p + unat sz} \<subseteq> {p - 4..<p - 4 + the (C' (p - 4))}" using p(6) by auto
    then have "{p..<p + unat sz} \<inter> chunkBytes C U = {}"
      using block_apart [OF p(4,2,5)] by blast
    then show ?thesis using r(1) Inr p same
      by (intro exI [of _ r] exI [of _ h']) (auto simp: kmalloc_def)
  qed
qed

theorem kmalloc_fresh_block_witness:
  "\<exists>h r h'. initRam (bootHeap (\<lambda>_. 0)) = Some h \<and> kmalloc 100 7 h = Some (r, h')
    \<and> (case r of Inl e \<Rightarrow> e = ENOMEM | Inr p \<Rightarrow> p mod 8 = 0 \<and> (\<forall>x\<in>{p..<p + 100}. ram h' x = 0))"
proof -
  obtain h where h: "initRam (bootHeap (\<lambda>_. 0)) = Some h" "heapOk h bootChunks {}"
    using initRam_spec [of "bootHeap (\<lambda>_. 0)"] by (auto simp: bootHeap_def)
  have "unat (100 :: u32) + 15 < 2 ^ 32" by simp
  then obtain r h' where "kmalloc 100 7 h = Some (r, h')"
    "case r of Inl e \<Rightarrow> e = ENOMEM \<and> heapOk h' bootChunks {}
     | Inr p \<Rightarrow> p mod 8 = 0 \<and> (\<forall>x\<in>{p..<p + unat (100 :: u32)}. ram h' x = 0)
        \<and> {p..<p + unat (100 :: u32)} \<inter> chunkBytes bootChunks {} = {}
        \<and> (\<exists>C'. heapOk h' C' (insert (p - 4) {}) \<and> p - 4 \<notin> {} \<and> (\<forall>a\<in>{}. C' a = bootChunks a))"
    using kmalloc_fresh_block [OF h(2), of 100 7] by blast
  with h(1) show ?thesis by (cases r) auto
qed

text \<open>
  C13: \<open>kfree\<close> of a block returns, takes it out of the blocks and leaves every other block's bytes
  alone; the chunks stay cut as they are (nothing is coalesced), and freeing the same pointer again
  trips the allocator's assertion.
\<close>
theorem kfree_returns_block:
  assumes "heapOk h C U" "a \<in> U"
  shows "\<exists>h'. kfree (a + 4) h = Some h' \<and> heapOk h' C (U - {a})
    \<and> sameOn (chunkBytes C (U - {a})) (ram h) (ram h') \<and> kfree (a + 4) h' = None"
proof -
  obtain h' where h': "kfreePtr (a + 4) h = Some h'" "heapOk h' C (U - {a})"
    "sameOn (chunkBytes C (U - {a})) (ram h) (ram h')"
    using kfreePtr_spec [OF assms] by blast
  have "a \<in> dom C" using assms k70.poolD(2) by (fastforce simp: heapOk_def)
  then have "a \<in> dom C - (U - {a})" by simp
  from kfreePtr_not_allocated [OF h'(2) this] h' show ?thesis by (auto simp: kfree_def)
qed

theorem kfree_returns_block_witness:
  "\<exists>h h' p. (\<exists>h0. kmalloc 100 7 (bootHeap (\<lambda>_. 0)) = Some (Inr p, h0) \<and> h0 = h)
    \<and> kfree p h = Some h' \<and> kfree p h' = None"
proof -
  obtain h1 where h1: "heapOk h1 bootChunks {}" "kmallocPid 100 7 (bootHeap (\<lambda>_. 0)) = kmallocPid 100 7 h1"
    "loadPtr (ram h1) (cleanBin (header h1) (MAX_BINS - 1)) = HEAP_START"
    using kmallocPid_first [of "bootHeap (\<lambda>_. 0)" 100 7] by (auto simp: bootHeap_def)
  have sz: "unat (100 :: u32) + 15 < 2 ^ 32" by simp
  have "unat (chunkSizeFor 100) \<le> the (bootChunks HEAP_START)"
    using chunkSizeFor_ok(4) [OF sz] by (simp add: bootChunks_def k70_map)
  then obtain p h where p: "kmallocPid 100 7 h1 = Some (Inr p, h)"
    using kmallocPid_reserve [OF h1(1) sz, of HEAP_START 7] h1(3) by (auto simp: k70_map)
  moreover obtain r h' where "kmallocPid 100 7 h1 = Some (r, h')" "kmallocSpec 100 h1 bootChunks {} r h'"
    using kmallocPid_spec [OF h1(1) sz, of 7] by blast
  ultimately obtain C' where C': "heapOk h C' {p - 4}" "p mod 8 = 0" by (auto simp: kmallocSpec_def)
  obtain L where P: "pool SDRAM_START HEAP_START SDRAM_END (ram h) C' {p - 4} L {}"
    using C'(1) by (auto simp: heapOk_def)
  have "p - 4 \<in> dom C'" using k70.poolD(2) [OF P] by auto
  then have "p - 4 \<noteq> 0" using k70.chunk_facts(4) [OF k70.poolD(1) [OF P]] by blast
  then have "p - 4 + 4 = p" by simp
  then show ?thesis
    using kfree_returns_block [OF C'(1), of "p - 4"] p h1(2) by (auto simp: kmalloc_def)
qed



text \<open>
  C26: While the remainder of the last split, or the one chunk there is at power-up, is big enough
  for the padded request, \<open>kmalloc\<close> does not fail.
\<close>
theorem kmalloc_succeeds_from_reserve:
  assumes "heapOk h C U" "unat sz + 15 < 2 ^ 32"
    and "x \<in> {loadPtr (ram h) (REMAINDER_CHUNK_BIN (header h)), loadPtr (ram h) (cleanBin (header h) (MAX_BINS - 1))}"
    and "x \<noteq> 0" "unat (chunkSizeFor sz) \<le> the (C x)"
  shows "\<exists>p h'. kmalloc sz pid h = Some (Inr p, h')"
  unfolding kmalloc_def using assms by (rule kmallocPid_reserve)

theorem kmalloc_succeeds_from_reserve_witness:
  "\<exists>p h'. kmalloc 100000 1 (bootHeap (\<lambda>_. 0xff)) = Some (Inr p, h')"
proof -
  obtain h1 where h1: "heapOk h1 bootChunks {}" "kmallocPid 100000 1 (bootHeap (\<lambda>_. 0xff)) = kmallocPid 100000 1 h1"
    "loadPtr (ram h1) (cleanBin (header h1) (MAX_BINS - 1)) = HEAP_START"
    using kmallocPid_first [of "bootHeap (\<lambda>_. 0xff)" 100000 1] by (auto simp: bootHeap_def)
  have sz: "unat (100000 :: u32) + 15 < 2 ^ 32" by simp
  have "unat (chunkSizeFor 100000) \<le> the (bootChunks HEAP_START)"
    using chunkSizeFor_ok(4) [OF sz] by (simp add: bootChunks_def k70_map)
  then show ?thesis
    using kmalloc_succeeds_from_reserve [OF h1(1) sz, of HEAP_START 1] h1(2,3) by (simp add: kmalloc_def k70_map)
qed

text \<open>
  C30: The vectorised \<open>kmemset\<close> (head and tail bytes, words, then 32 bytes a turn) writes what a
  byte loop would: \<open>n\<close> bytes from \<open>dest\<close> on become the low byte of \<open>c\<close>, no other byte changes.
\<close>
theorem kmemset_equals_byte_loop:
  "kmemset dest c n m = (\<lambda>x. if dest \<le> x \<and> x < dest + n then ucast c else m x)"
  by (simp add: kmemset_fill fillSet_def)



text \<open>
  The debug routine that walks the heap in steps of 16 bytes and marks a bit for each address
  finds no two addresses on one bit, on any heap below \<open>2 ^ 32\<close>.
\<close>
theorem bitmap_check_finds_nothing:
  assumes "heap h + unat (totalRAM h) \<le> 2 ^ 32"
  shows "kmallocBitmapFunctionIntegrityCheck h = []"
  unfolding kmallocBitmapFunctionIntegrityCheck_def
  using assms by (intro integrityLoop_empty) simp_all

theorem bitmap_check_finds_nothing_witness:
  "kmallocBitmapFunctionIntegrityCheck ((bootHeap (\<lambda>_. 0))\<lparr>heap := HEAP_START, totalRAM := 132658064\<rparr>) = []"
  by (rule bitmap_check_finds_nothing) (simp add: k70_map)

end
