(* ===== verification/HwRegs.thy ===== *)
theory HwRegs
  imports ManosPrelude
begin

text \<open>
  Memory-mapped registers, by name, and the updates the drivers make on them, with the interrupt
  controller (\<open>src/src/dev/arch/k70/nvic.c\<close>). A register reads back what was written to it;
  registers that the hardware changes are modelled in the driver that reads them.
\<close>

type_synonym regs = "string \<Rightarrow> u32"

definition setReg :: "string \<Rightarrow> u32 \<Rightarrow> regs \<Rightarrow> regs" where
  "setReg r v h = h(r := v)"

definition orReg :: "string \<Rightarrow> u32 \<Rightarrow> regs \<Rightarrow> regs" where
  "orReg r v h = h(r := h r OR v)"

definition clearReg :: "string \<Rightarrow> u32 \<Rightarrow> regs \<Rightarrow> regs" where
  "clearReg r v h = h(r := h r AND NOT v)"

text \<open>A field of a register: the value shifted to its place and cut to its mask.\<close>

definition field :: "nat \<Rightarrow> u32 \<Rightarrow> u32 \<Rightarrow> u32" where
  "field shift msk x = push_bit shift x AND msk"

subsection \<open>The interrupt controller\<close>

record Nvic =
  iser :: "nat \<Rightarrow> u32"
  ip :: "nat \<Rightarrow> u8"

abbreviation "NVIC_IRQ_MAX \<equiv> (105 :: u32)"
abbreviation "NVIC_IPR_MAX_PRIORITY \<equiv> (15 :: u8)"
abbreviation "NVIC_IRQ_UART2_STAT \<equiv> (49 :: u32)"
abbreviation "NVIC_IRQ_FTM0 \<equiv> (62 :: u32)"
abbreviation "NVIC_IRQ_PDB \<equiv> (72 :: u32)"
abbreviation "MANOS_ARCH_K70_TIMER_PRIORITY \<equiv> (13 :: u8)"
abbreviation "MANOS_ARCH_K70_UART2_PRIORITY \<equiv> (13 :: u8)"

text \<open>Writing a set-enable register enables the interrupts of its set bits and leaves the others.\<close>

definition enableNvicIrq :: "u32 \<Rightarrow> u8 \<Rightarrow> Nvic \<Rightarrow> Nvic" where
  "enableNvicIrq irq priority n =
     (if NVIC_IRQ_MAX < irq \<or> NVIC_IPR_MAX_PRIORITY < priority then n
      else n\<lparr>iser := (iser n)(unat (irq div 32) := iser n (unat (irq div 32)) OR push_bit (unat (irq mod 32)) 1),
             ip := (ip n)(unat irq := push_bit 4 (priority AND 0xf))\<rparr>)"

text \<open>Whether an interrupt is enabled, and its priority.\<close>

definition irqEnabled :: "nat \<Rightarrow> Nvic \<Rightarrow> bool" where
  "irqEnabled i n \<longleftrightarrow> bit (iser n (i div 32)) (i mod 32)"

definition irqPriority :: "nat \<Rightarrow> Nvic \<Rightarrow> nat" where
  "irqPriority i n = unat (drop_bit 4 (ip n i))"

lemma enableNvicIrq_enables:
  assumes "irq \<le> NVIC_IRQ_MAX" "priority \<le> NVIC_IPR_MAX_PRIORITY"
  shows "irqEnabled i (enableNvicIrq irq priority n) \<longleftrightarrow> i = unat irq \<or> irqEnabled i n"
    "irqPriority i (enableNvicIrq irq priority n) = (if i = unat irq then unat priority else irqPriority i n)"
proof -
  have ok: "\<not> (NVIC_IRQ_MAX < irq \<or> NVIC_IPR_MAX_PRIORITY < priority)" using assms by (simp add: not_less)
  have dm: "unat (irq div 32) = unat irq div 32" "unat (irq mod 32) = unat irq mod 32"
    by (simp_all add: unat_div unat_mod)
  have same: "i div 32 = unat irq div 32 \<and> i mod 32 = unat irq mod 32 \<longleftrightarrow> i = unat irq"
    by (metis div_mult_mod_eq)
  show "irqEnabled i (enableNvicIrq irq priority n) \<longleftrightarrow> i = unat irq \<or> irqEnabled i n"
    using ok same by (auto simp: enableNvicIrq_def irqEnabled_def dm bit_simps)
  have p: "unat priority \<le> 15" using assms(2) by (simp add: word_le_nat_alt)
  have "unat (take_bit 4 priority) = unat priority" using p by (simp add: unat_mod take_bit_eq_mod)
  then have "priority AND mask 4 = priority" by (simp add: take_bit_eq_mask word_unat_eq_iff)
  then have "priority AND 0xf = priority" by (simp add: mask_eq_exp_minus_1)
  moreover have "drop_bit 4 (push_bit 4 priority) = priority"
    using p by (simp add: word_unat_eq_iff push_bit_eq_mult drop_bit_eq_div unat_div unat_word_ariths)
  ultimately show "irqPriority i (enableNvicIrq irq priority n) = (if i = unat irq then unat priority else irqPriority i n)"
    using ok by (simp add: enableNvicIrq_def irqPriority_def)
qed

end
