(* ===== verification/LcdHw.thy ===== *)
theory LcdHw
  imports HwRegs
begin

text \<open>
  The screen driver (\<open>src/src/dev/arch/k70/lcd.c\<close>): a frame buffer of 480 by 272 words at the start
  of memory and a text cursor on its last row. The font is a parameter: whether a pixel of a
  character is set. An access outside the frame buffer has no result.
\<close>

subsection \<open>State\<close>

record Lcd =
  fbSize :: u32
  colorDepth :: u32
  lbg :: u32
  lfg :: u32
  consX :: u32
  consY :: u32
  fb :: "u32 list"
  lregs :: regs

abbreviation "LCD_XSIZE \<equiv> (480 :: u32)"
abbreviation "LCD_YSIZE \<equiv> (272 :: u32)"
abbreviation "LCD_BPP \<equiv> (4 :: u32)"
abbreviation "consFontH \<equiv> (12 :: u32)"
abbreviation "consFontW \<equiv> (6 :: u32)"
abbreviation "consTabSpc \<equiv> (8 :: u32)"

type_synonym font = "nat \<Rightarrow> nat \<Rightarrow> nat \<Rightarrow> bool"

text \<open>The colours of a pixel.\<close>

definition pixelR :: "u32 \<Rightarrow> u8" where
  "pixelR p = ucast (drop_bit 16 (p AND 0x00ff0000))"

definition pixelG :: "u32 \<Rightarrow> u8" where
  "pixelG p = ucast (drop_bit 8 (p AND 0x0000ff00))"

definition pixelB :: "u32 \<Rightarrow> u8" where
  "pixelB p = ucast (p AND 0x000000ff)"

definition monochrome :: "u32 \<Rightarrow> bool" where
  "monochrome p \<longleftrightarrow> pixelR p = pixelG p \<and> pixelR p = pixelB p"

subsection \<open>Writing the frame buffer\<close>

definition pokeFb :: "nat \<Rightarrow> u32 \<Rightarrow> u32 list \<Rightarrow> u32 list option" where
  "pokeFb i v f = (if i < length f then Some (f[i := v]) else None)"

fun pokesFb :: "(nat \<times> u32) list \<Rightarrow> u32 list \<Rightarrow> u32 list option" where
  "pokesFb [] f = Some f"
| "pokesFb ((i, v) # ps) f = do { f' \<leftarrow> pokeFb i v f; pokesFb ps f' }"

text \<open>The loop over the pixels from one index up to, and not with, another.\<close>

definition fillFb :: "nat \<Rightarrow> nat \<Rightarrow> u32 \<Rightarrow> u32 list \<Rightarrow> u32 list option" where
  "fillFb a b v f = pokesFb (map (\<lambda>i. (i, v)) [a..<b]) f"

text \<open>\<open>kmemset\<close> on the frame buffer: whole words, and the low bytes of the next one.\<close>

definition fillWord :: "u8 \<Rightarrow> u32" where
  "fillWord b = ucast b * 0x01010101"

definition memsetFb :: "nat \<Rightarrow> u8 \<Rightarrow> u32 \<Rightarrow> u32 list \<Rightarrow> u32 list option" where
  "memsetFb a b bytes f =
     (let n = unat bytes div 4; k = unat bytes mod 4 in
      if 4 * a + unat bytes \<le> 4 * length f then
        (let g = take a f @ replicate n (fillWord b) @ drop (a + n) f
         in Some (if k = 0 then g
                  else g[a + n := (g ! (a + n) AND NOT (2 ^ (8 * k) - 1)) OR (fillWord b AND (2 ^ (8 * k) - 1))]))
      else None)"

definition memmoveFb :: "nat \<Rightarrow> nat \<Rightarrow> u32 \<Rightarrow> u32 list \<Rightarrow> u32 list option" where
  "memmoveFb dst src bytes f =
     (let n = unat bytes div 4 in
      if unat bytes mod 4 = 0 \<and> dst + n \<le> length f \<and> src + n \<le> length f
      then Some (take dst f @ take n (drop src f) @ drop (dst + n) f)
      else None)"

subsection \<open>Operations\<close>

definition k70LcdClear :: "Lcd \<Rightarrow> Lcd option" where
  "k70LcdClear l =
     do {
       f \<leftarrow> (if monochrome (lbg l) then memsetFb 0 (pixelR (lbg l)) (fbSize l) (fb l)
             else fillFb 0 (unat (LCD_XSIZE * LCD_YSIZE)) (lbg l) (fb l));
       Some (l\<lparr>fb := f, consX := 0, consY := LCD_YSIZE - consFontH\<rparr>)
     }"

definition byteVal :: "char \<Rightarrow> u32" where
  "byteVal c = of_nat (of_char c)"

fun wordsOf :: "nat \<Rightarrow> string \<Rightarrow> u32 list option" where
  "wordsOf 0 bs = Some []"
| "wordsOf (Suc n) (a # b # c # d # bs) =
     do { ws \<leftarrow> wordsOf n bs;
          Some ((byteVal a + push_bit 8 (byteVal b) + push_bit 16 (byteVal c) + push_bit 24 (byteVal d)) # ws) }"
| "wordsOf (Suc n) bs = None"

definition k70LcdBlit :: "string \<Rightarrow> Lcd \<Rightarrow> Lcd option" where
  "k70LcdBlit bits l =
     do { ws \<leftarrow> wordsOf (unat (LCD_XSIZE * LCD_YSIZE)) bits;
          f \<leftarrow> pokesFb (enumerate 0 ws) (fb l);
          Some (l\<lparr>fb := f\<rparr>) }"

definition k70LcdScroll :: "Lcd \<Rightarrow> Lcd option" where
  "k70LcdScroll l =
     do {
       f \<leftarrow> memmoveFb 0 (unat (consFontH * LCD_XSIZE)) (LCD_BPP * consY l * LCD_XSIZE) (fb l);
       f' \<leftarrow> (if monochrome (lbg l) then
                memsetFb (unat (consY l * LCD_XSIZE)) (pixelR (lbg l)) (LCD_BPP * (LCD_YSIZE - consY l) * LCD_XSIZE) f
              else fillFb (unat (consY l + LCD_XSIZE)) (unat (LCD_YSIZE * LCD_XSIZE)) (lbg l) f);
       Some (l\<lparr>fb := f'\<rparr>)
     }"

definition glyph :: "font \<Rightarrow> nat \<Rightarrow> Lcd \<Rightarrow> (nat \<times> u32) list" where
  "glyph font c l =
     map (\<lambda>(y, x). (unat ((of_nat y + consY l) * LCD_XSIZE + (of_nat x + consX l)), if font c y x then lfg l else lbg l))
       (List.product [0..<12] [0..<6])"

definition k70LcdPutc :: "font \<Rightarrow> nat \<Rightarrow> Lcd \<Rightarrow> Lcd option" where
  "k70LcdPutc font c l =
     do {
       l1 \<leftarrow> (if c = 0x0D then Some (l\<lparr>consX := 0\<rparr>)
              else if c = 0x0A then k70LcdScroll l
              else if c = 0x09 then
                Some (l\<lparr>consX := ((consX l + consTabSpc * consFontW) div (consTabSpc * consFontW)) * (consTabSpc * consFontW)\<rparr>)
              else if c = 0x08 then Some (if consFontW \<le> consX l then l\<lparr>consX := consX l - consFontW\<rparr> else l)
              else if c = 0x0C then k70LcdClear l
              else if c < 256 then
                do { f \<leftarrow> pokesFb (glyph font c l) (fb l); Some (l\<lparr>fb := f, consX := consX l + consFontW\<rparr>) }
              else None);
       if LCD_XSIZE - consFontW < consX l1
       then do { l2 \<leftarrow> k70LcdScroll l1; Some (l2\<lparr>consX := 0\<rparr>) }
       else Some l1
     }"

text \<open>Characters in a row, as \<open>writeLcd\<close> and the console write them.\<close>

fun putsLcd :: "font \<Rightarrow> nat list \<Rightarrow> Lcd \<Rightarrow> Lcd option" where
  "putsLcd font [] l = Some l"
| "putsLcd font (c # cs) l = do { l' \<leftarrow> k70LcdPutc font c l; putsLcd font cs l' }"

subsection \<open>Starting the screen\<close>

text \<open>The pin control register of a pin of port F.\<close>

definition portF :: "nat \<Rightarrow> string" where
  "portF i = ''PORTF_PCR'' @ [char_of (0x30 + i div 10), char_of (0x30 + i mod 10)]"

definition enablePin :: "nat \<Rightarrow> regs \<Rightarrow> regs" where
  "enablePin i = setReg (portF i) (field 8 0x700 (if i \<in> {16, 17, 18, 19, 20} then 5 else 7) OR 0x40)"

definition k70LcdEnable :: "Lcd \<Rightarrow> Lcd option" where
  "k70LcdEnable l =
     (let h1 = clearReg ''MPU_CESR'' 0x1 (orReg ''SIM_SCGC3'' 0x400000 (orReg ''SIM_SCGC5'' (0x2000 OR 0x4000) (lregs l)));
          h2 = fold enablePin [0..<28] h1;
          h3 = setReg ''LCDC_LSR'' (field 20 0x7F00000 (LCD_XSIZE div 16) OR field 0 0x3FF LCD_YSIZE)
                 (setReg ''LCDC_LSSAR'' 0x80000000 h2);
          h4 = setReg ''LCDC_LCWHB'' 0 (setReg ''LCDC_LCPR'' 0 (setReg ''LCDC_LVPWR'' (field 0 0x7FF LCD_XSIZE) h3));
          h5 = setReg ''LCDC_LPCR'' (0x80000000 OR 0x40000000 OR field 25 0xE000000 7 OR 0x800000 OR 0x400000 OR 0x40000
                 OR 0x80000 OR 0x80 OR field 0 0x3F 11) h4;
          h6 = orReg ''LCDC_LPCR'' 0x200000 h5;
          h7 = setReg ''LCDC_LHCR'' (field 26 0xFC000000 41 OR field 8 0xFF00 1 OR field 0 0xFF 0) h6;
          h8 = setReg ''LCDC_LVCR'' (field 26 0xFC000000 2 OR field 8 0xFF00 1 OR field 0 0xFF 1) h7;
          h9 = setReg ''LCDC_LIER'' 0 (setReg ''LCDC_LICR'' 0 (setReg ''LCDC_LPOR'' 0 h8));
          h10 = clearReg ''LCDC_LGWDCR'' 0x80000000 (clearReg ''LCDC_LDCR'' 0x80000000 (clearReg ''LCDC_LGWCR'' 0x400000 h9));
          h11 = orReg ''SIM_MCR'' 0x10000 h10
      in k70LcdClear (l\<lparr>lregs := h11, fbSize := LCD_XSIZE * LCD_YSIZE * LCD_BPP, colorDepth := LCD_BPP,
                        lbg := 0x00ffffff, lfg := 0\<rparr>))"

definition k70LcdDisable :: "Lcd \<Rightarrow> Lcd" where
  "k70LcdDisable l = l"


subsection \<open>Frame buffer lemmas\<close>

lemma pokesFb_ok:
  "\<forall>(i, v) \<in> set ps. i < length f \<Longrightarrow>
   \<exists>f'. pokesFb ps f = Some f' \<and> length f' = length f \<and> (\<forall>i. i \<notin> fst ` set ps \<longrightarrow> f' ! i = f ! i)"
proof (induction ps arbitrary: f)
  case (Cons p ps)
  obtain i v where p: "p = (i, v)" by (cases p)
  have "\<forall>(i, v) \<in> set ps. i < length (f[i := v])" using Cons.prems by auto
  from Cons.IH [of "f[i := v]"] this Cons.prems p show ?case by (auto simp: pokeFb_def)
qed simp

lemma pokesFb_at:
  "\<forall>(i, v) \<in> set ps. i < length f \<Longrightarrow> distinct (map fst ps) \<Longrightarrow> pokesFb ps f = Some f' \<Longrightarrow> (i, v) \<in> set ps \<Longrightarrow> f' ! i = v"
proof (induction ps arbitrary: f)
  case (Cons p ps)
  obtain j w where p: "p = (j, w)" by (cases p)
  have ok: "\<forall>(i, v) \<in> set ps. i < length (f[j := w])" using Cons.prems(1) by auto
  have run: "pokesFb ps (f[j := w]) = Some f'" and j: "j < length f" using Cons.prems(1,3) p by (auto simp: pokeFb_def)
  show ?case
  proof (cases "(i, v) \<in> set ps")
    case True
    then show ?thesis using Cons.IH [OF ok _ run] Cons.prems(2) by simp
  next
    case False
    then have iv: "i = j" "v = w" using Cons.prems(4) p by auto
    have "j \<notin> fst ` set ps" using Cons.prems(2) p by simp
    then show ?thesis using pokesFb_ok [OF ok] run iv j by auto
  qed
qed simp

lemma fillFb_ok:
  assumes "b \<le> length f"
  shows "\<exists>f'. fillFb a b v f = Some f' \<and> length f' = length f \<and>
           (\<forall>i < length f. f' ! i = (if a \<le> i \<and> i < b then v else f ! i))"
proof -
  let ?ps = "map (\<lambda>i. (i, v)) [a..<b]"
  have ok: "\<forall>(i, v) \<in> set ?ps. i < length f" using assms by auto
  obtain f' where f': "pokesFb ?ps f = Some f'" "length f' = length f" "\<forall>i. i \<notin> fst ` set ?ps \<longrightarrow> f' ! i = f ! i"
    using pokesFb_ok [OF ok] by blast
  have "f' ! i = v" if "a \<le> i" "i < b" for i
    by (rule pokesFb_at [OF ok _ f'(1)]) (use that in \<open>auto simp: comp_def\<close>)
  moreover have "f' ! i = f ! i" if "\<not> (a \<le> i \<and> i < b)" for i
    using f'(3) that by force
  ultimately show ?thesis using f'(1,2) by (auto simp: fillFb_def)
qed

lemma memsetFb_words:
  assumes "unat bytes = 4 * n" "a + n \<le> length f"
  shows "\<exists>f'. memsetFb a b bytes f = Some f' \<and> length f' = length f \<and>
           (\<forall>i < length f. f' ! i = (if a \<le> i \<and> i < a + n then fillWord b else f ! i))"
proof -
  have "memsetFb a b bytes f = Some (take a f @ replicate n (fillWord b) @ drop (a + n) f)"
    using assms by (simp add: memsetFb_def)
  then show ?thesis using assms(2) by (auto simp: nth_append)
qed

lemma memmoveFb_words:
  assumes "unat bytes = 4 * n" "dst + n \<le> length f" "src + n \<le> length f"
  shows "\<exists>f'. memmoveFb dst src bytes f = Some f' \<and> length f' = length f \<and>
           (\<forall>i < length f. f' ! i = (if dst \<le> i \<and> i < dst + n then f ! (i - dst + src) else f ! i))"
proof -
  have "memmoveFb dst src bytes f = Some (take dst f @ take n (drop src f) @ drop (dst + n) f)"
    using assms by (simp add: memmoveFb_def)
  moreover have "take n (drop src f) ! j = f ! (j + src)" if "j < n" for j
    using assms(3) that by (simp add: add.commute)
  ultimately show ?thesis using assms by (auto simp: nth_append add.commute)
qed

subsection \<open>The invariant\<close>

text \<open>The cursor leaves room for a character, and the frame buffer is the screen.\<close>

definition lcd_inv :: "Lcd \<Rightarrow> bool" where
  "lcd_inv l \<longleftrightarrow> length (fb l) = 130560 \<and> fbSize l = 522240 \<and> consX l \<le> 474 \<and> consY l \<le> 260"

lemma lcd_invD:
  assumes "lcd_inv l"
  shows "length (fb l) = 130560" "unat (fbSize l) = 522240" "unat (consX l) \<le> 474" "unat (consY l) \<le> 260"
  using assms by (auto simp: lcd_inv_def word_le_nat_alt)

lemma k70LcdClear_ok:
  assumes "length (fb l) = 130560" "fbSize l = 522240"
  shows "\<exists>f. k70LcdClear l = Some (l\<lparr>fb := f, consX := 0, consY := 260\<rparr>) \<and> length f = 130560 \<and>
           (\<forall>i < 130560. f ! i = (if monochrome (lbg l) then fillWord (pixelR (lbg l)) else lbg l))"
proof (cases "monochrome (lbg l)")
  case True
  have "unat (fbSize l) = 4 * 130560" "0 + 130560 \<le> length (fb l)" using assms by simp_all
  from memsetFb_words [OF this, of "pixelR (lbg l)"] show ?thesis using True assms by (auto simp: k70LcdClear_def)
next
  case False
  have "130560 \<le> length (fb l)" using assms by simp
  from fillFb_ok [OF this, of 0 "lbg l"] show ?thesis using False assms by (auto simp: k70LcdClear_def)
qed

lemma scroll_sizes:
  assumes "unat y \<le> 260"
  shows "unat (LCD_BPP * y * LCD_XSIZE) = 4 * (unat y * 480)" "unat (y * LCD_XSIZE) = unat y * 480"
    "unat (LCD_BPP * (LCD_YSIZE - y) * LCD_XSIZE) = 4 * ((272 - unat y) * 480)" "unat (y + LCD_XSIZE) = unat y + 480"
proof -
  have sub: "unat (LCD_YSIZE - y) = 272 - unat y" using assms by (simp add: unat_minus_small)
  have rows: "unat (LCD_BPP * (LCD_YSIZE - y)) = 4 * (272 - unat y)" using sub by (subst unat_mult_small) simp_all
  show "unat (LCD_BPP * y * LCD_XSIZE) = 4 * (unat y * 480)" "unat (y * LCD_XSIZE) = unat y * 480"
    "unat (y + LCD_XSIZE) = unat y + 480"
    using assms by (simp_all add: unat_word_ariths)
  show "unat (LCD_BPP * (LCD_YSIZE - y) * LCD_XSIZE) = 4 * ((272 - unat y) * 480)"
    using rows by (subst unat_mult_small) simp_all
qed

text \<open>What a scroll leaves: the rows moved up, and the part it clears.\<close>

lemma k70LcdScroll_ok:
  assumes "lcd_inv l"
  shows "\<exists>f. k70LcdScroll l = Some (l\<lparr>fb := f\<rparr>) \<and> length f = 130560 \<and>
    (\<forall>i < 130560. f ! i =
       (if (if monochrome (lbg l) then unat (consY l) * 480 \<le> i else unat (consY l) + 480 \<le> i)
        then (if monochrome (lbg l) then fillWord (pixelR (lbg l)) else lbg l)
        else if i < unat (consY l) * 480 then fb l ! (i + 5760) else fb l ! i))"
proof -
  note inv = lcd_invD [OF assms]
  note sizes = scroll_sizes [OF inv(4)]
  have move: "0 + unat (consY l) * 480 \<le> length (fb l)" "5760 + unat (consY l) * 480 \<le> length (fb l)"
    using inv by simp_all
  obtain f where f: "memmoveFb 0 5760 (LCD_BPP * consY l * LCD_XSIZE) (fb l) = Some f" "length f = 130560"
    "\<forall>i < 130560. f ! i = (if i < unat (consY l) * 480 then fb l ! (i + 5760) else fb l ! i)"
    using memmoveFb_words [OF sizes(1) move] inv(1) by auto
  have start: "unat (consFontH * LCD_XSIZE) = 5760" by simp
  show ?thesis
  proof (cases "monochrome (lbg l)")
    case True
    have room: "unat (consY l * LCD_XSIZE) + (272 - unat (consY l)) * 480 \<le> length f"
      using inv f(2) sizes(2) by (simp add: diff_mult_distrib)
    obtain f' where "memsetFb (unat (consY l * LCD_XSIZE)) (pixelR (lbg l)) (LCD_BPP * (LCD_YSIZE - consY l) * LCD_XSIZE) f = Some f'"
      "length f' = 130560" "\<forall>i < 130560. f' ! i = (if unat (consY l) * 480 \<le> i \<and> i < unat (consY l) * 480 + (272 - unat (consY l)) * 480
         then fillWord (pixelR (lbg l)) else f ! i)"
      using memsetFb_words [OF sizes(3) room, of "pixelR (lbg l)"] f(2) sizes(2) by auto
    moreover have "unat (consY l) * 480 + (272 - unat (consY l)) * 480 = 130560" using inv(4) by simp
    ultimately show ?thesis using True f(1,3) start by (auto simp: k70LcdScroll_def)
  next
    case False
    have "unat (LCD_YSIZE * LCD_XSIZE) \<le> length f" using f(2) by simp
    then obtain f' where "fillFb (unat (consY l + LCD_XSIZE)) (unat (LCD_YSIZE * LCD_XSIZE)) (lbg l) f = Some f'"
      "length f' = 130560" "\<forall>i < 130560. f' ! i = (if unat (consY l) + 480 \<le> i \<and> i < 130560 then lbg l else f ! i)"
      using fillFb_ok [of "unat (LCD_YSIZE * LCD_XSIZE)" f "unat (consY l + LCD_XSIZE)" "lbg l"] f(2) sizes(4) by auto
    then show ?thesis using False f(1,3) start by (auto simp: k70LcdScroll_def)
  qed
qed

lemma k70LcdScroll_inv: "lcd_inv l \<Longrightarrow> \<exists>f. k70LcdScroll l = Some (l\<lparr>fb := f\<rparr>) \<and> lcd_inv (l\<lparr>fb := f\<rparr>)"
  using k70LcdScroll_ok [of l] by (auto simp: lcd_inv_def)

subsection \<open>Drawing a character\<close>

text \<open>The index of a pixel of the character at the cursor.\<close>

definition cell :: "Lcd \<Rightarrow> nat \<Rightarrow> nat \<Rightarrow> nat" where
  "cell l y x = (y + unat (consY l)) * 480 + (x + unat (consX l))"

lemma cell_index:
  assumes "lcd_inv l" "y < 12" "x < 6"
  shows "unat ((of_nat y + consY l) * LCD_XSIZE + (of_nat x + consX l)) = cell l y x" "cell l y x < 130560"
proof -
  note inv = lcd_invD [OF assms(1)]
  have n: "unat (of_nat y :: u32) = y" "unat (of_nat x :: u32) = x" using assms(2,3) by (simp_all add: unat_of_nat_small)
  have row: "unat (of_nat y + consY l) = y + unat (consY l)" and col: "unat (of_nat x + consX l) = x + unat (consX l)"
    using assms(2,3) inv n by (subst unat_add_small; simp)+
  have scaled: "unat ((of_nat y + consY l) * LCD_XSIZE) = (y + unat (consY l)) * 480"
    using assms(2) inv row by (subst unat_mult_small) simp_all
  have bound: "(y + unat (consY l)) * 480 + (x + unat (consX l)) < 130560" using assms(2,3) inv by simp
  show "unat ((of_nat y + consY l) * LCD_XSIZE + (of_nat x + consX l)) = cell l y x"
    unfolding cell_def using bound by (subst unat_add_small) (simp_all only: scaled col, simp)
  show "cell l y x < 130560" using bound by (simp add: cell_def)
qed

lemma cell_inj:
  assumes "lcd_inv l" "x < 6" "x' < 6" "cell l y x = cell l y' x'"
  shows "y = y' \<and> x = x'"
proof -
  have b: "x + unat (consX l) < 480" "x' + unat (consX l) < 480" using assms(2,3) lcd_invD(3) [OF assms(1)] by simp_all
  have "cell l y x div 480 = y + unat (consY l)" "cell l y x mod 480 = x + unat (consX l)"
    "cell l y' x' div 480 = y' + unat (consY l)" "cell l y' x' mod 480 = x' + unat (consX l)"
    unfolding cell_def by (rule row_column, rule b)+
  then show ?thesis using assms(4) by simp
qed

lemma glyph_cells:
  assumes "lcd_inv l"
  shows "glyph font c l = map (\<lambda>(y, x). (cell l y x, if font c y x then lfg l else lbg l)) (List.product [0..<12] [0..<6])"
proof -
  have "(case p of (y, x) \<Rightarrow> (unat ((of_nat y + consY l) * LCD_XSIZE + (of_nat x + consX l)), if font c y x then lfg l else lbg l)) =
      (case p of (y, x) \<Rightarrow> (cell l y x, if font c y x then lfg l else lbg l))"
    if "p \<in> set (List.product [0..<12] [0..<6])" for p
    using that cell_index(1) [OF assms, of "fst p" "snd p"] by (simp only: split_beta set_product) auto
  then show ?thesis unfolding glyph_def by (rule map_cong [OF refl])
qed

text \<open>The pixels of a character cell, row by row.\<close>

definition cells :: "(nat \<times> nat) list" where
  "cells = List.product [0..<12] [0..<6]"

lemma cells_distinct: "distinct cells"
  unfolding cells_def by (intro distinct_product distinct_upt)

lemma in_cells: "(y, x) \<in> set cells \<longleftrightarrow> y < 12 \<and> x < 6"
  unfolding cells_def set_product mem_Sigma_iff set_upt atLeastLessThan_iff by blast

lemma glyph_index:
  assumes inv: "lcd_inv l"
  shows "map fst (glyph font c l) = map (\<lambda>(y, x). cell l y x) cells" "distinct (map fst (glyph font c l))"
    "\<forall>(i, v) \<in> set (glyph font c l). i < length (fb l)"
proof -
  have g: "glyph font c l = map (\<lambda>p. (cell l (fst p) (snd p), if font c (fst p) (snd p) then lfg l else lbg l)) cells"
    using glyph_cells [OF inv, of font c] unfolding cells_def split_beta .
  show fst: "map fst (glyph font c l) = map (\<lambda>(y, x). cell l y x) cells"
    unfolding g map_map comp_def fst_conv split_beta ..
  have "inj_on (\<lambda>(y, x). cell l y x) (set cells)"
  proof (rule inj_onI)
    fix p q assume p: "p \<in> set cells" and q: "q \<in> set cells"
      and eq: "(case p of (y, x) \<Rightarrow> cell l y x) = (case q of (y, x) \<Rightarrow> cell l y x)"
    have "cell l (fst p) (snd p) = cell l (fst q) (snd q)" using eq by (simp add: split_beta)
    then show "p = q"
      using cell_inj [OF inv, of "snd p" "snd q" "fst p" "fst q"] p q in_cells [of "fst p" "snd p"] in_cells [of "fst q" "snd q"]
      by (simp add: prod_eq_iff)
  qed
  then show "distinct (map fst (glyph font c l))" unfolding fst distinct_map using cells_distinct by blast
  have "fst e < length (fb l)" if "e \<in> set (glyph font c l)" for e
  proof -
    have "e \<in> (\<lambda>p. (cell l (fst p) (snd p), if font c (fst p) (snd p) then lfg l else lbg l)) ` set cells"
      using that unfolding g set_map .
    then obtain p where p: "p \<in> set cells" "e = (cell l (fst p) (snd p), if font c (fst p) (snd p) then lfg l else lbg l)"
      by blast
    have "fst p < 12" "snd p < 6" using p(1) in_cells [of "fst p" "snd p"] by simp_all
    then show ?thesis using cell_index(2) [OF inv, of "fst p" "snd p"] p(2) lcd_invD(1) [OF inv] by simp
  qed
  then show "\<forall>(i, v) \<in> set (glyph font c l). i < length (fb l)" by fastforce
qed

lemma glyph_drawn:
  assumes inv: "lcd_inv l"
  shows "\<exists>f. pokesFb (glyph font c l) (fb l) = Some f \<and> length f = 130560 \<and>
           (\<forall>y < 12. \<forall>x < 6. f ! cell l y x = (if font c y x then lfg l else lbg l)) \<and>
           (\<forall>i. (\<forall>y < 12. \<forall>x < 6. i \<noteq> cell l y x) \<longrightarrow> f ! i = fb l ! i)"
proof -
  define g where "g = glyph font c l"
  note index = glyph_index [OF inv, of font c, folded g_def]
  have idx: "(cell l y x, if font c y x then lfg l else lbg l) \<in> set g" if "y < 12" "x < 6" for y x
  proof -
    have "(y, x) \<in> set cells" using that in_cells by simp
    then have "(case (y, x) of (y, x) \<Rightarrow> (cell l y x, if font c y x then lfg l else lbg l)) \<in> set g"
      unfolding g_def glyph_cells [OF inv, of font c] cells_def set_map by (rule imageI)
    then show ?thesis by simp
  qed
  have keys: "fst ` set g = (\<lambda>(y, x). cell l y x) ` set cells" unfolding set_map [symmetric] index(1) ..
  obtain f where f: "pokesFb g (fb l) = Some f" "length f = length (fb l)" "\<forall>i. i \<notin> fst ` set g \<longrightarrow> f ! i = fb l ! i"
    using pokesFb_ok [OF index(3)] by blast
  have "f ! cell l y x = (if font c y x then lfg l else lbg l)" if "y < 12" "x < 6" for y x
    by (rule pokesFb_at [OF index(3) index(2) f(1) idx [OF that]])
  moreover have "f ! i = fb l ! i" if "\<forall>y < 12. \<forall>x < 6. i \<noteq> cell l y x" for i
  proof -
    have "i \<notin> fst ` set g"
    proof
      assume "i \<in> fst ` set g"
      then obtain p where p: "p \<in> set cells" "i = (case p of (y, x) \<Rightarrow> cell l y x)" unfolding keys by blast
      have "fst p < 12 \<and> snd p < 6" using p(1) in_cells [of "fst p" "snd p"] by simp
      then show False using that p(2) unfolding split_beta by blast
    qed
    then show ?thesis using f(3) by blast
  qed
  ultimately show ?thesis using f(1,2) lcd_invD(1) [OF inv] unfolding g_def by auto
qed


text \<open>Every character leaves the screen and the cursor in bounds.\<close>

lemma putc_wrap:
  assumes "length (fb l) = 130560" "fbSize l = 522240" "consY l \<le> 260" "consX l \<le> 480"
  shows "\<exists>l'. (if LCD_XSIZE - consFontW < consX l
         then do { l2 \<leftarrow> k70LcdScroll l; Some (l2\<lparr>consX := 0\<rparr>) } else Some l) = Some l' \<and> lcd_inv l'"
proof (cases "LCD_XSIZE - consFontW < consX l")
  case True
  have mid: "lcd_inv (l\<lparr>consX := 0\<rparr>)" using assms by (simp add: lcd_inv_def)
  have swap: "k70LcdScroll l = map_option (\<lambda>m. m\<lparr>consX := consX l\<rparr>) (k70LcdScroll (l\<lparr>consX := 0\<rparr>))"
    by (simp add: k70LcdScroll_def split: option.splits Option.bind_splits)
  obtain f where "k70LcdScroll (l\<lparr>consX := 0\<rparr>) = Some (l\<lparr>consX := 0, fb := f\<rparr>)" "lcd_inv (l\<lparr>consX := 0, fb := f\<rparr>)"
    using k70LcdScroll_inv [OF mid] by auto
  then show ?thesis using swap True by (simp add: lcd_inv_def)
qed (use assms in \<open>simp add: lcd_inv_def\<close>)


lemma putc_wrapI:
  assumes "k70LcdPutc font c l = do {
       l1 \<leftarrow> Some m;
       if LCD_XSIZE - consFontW < consX l1 then do { l2 \<leftarrow> k70LcdScroll l1; Some (l2\<lparr>consX := 0\<rparr>) } else Some l1 }"
    and "length (fb m) = 130560" "fbSize m = 522240" "consY m \<le> 260" "consX m \<le> 480"
  shows "\<exists>l'. k70LcdPutc font c l = Some l' \<and> lcd_inv l'"
  using putc_wrap [OF assms(2-5)] unfolding assms(1) bind.bind_lunit .

lemma tab_column:
  assumes "x \<le> (474 :: u32)"
  shows "((x + consTabSpc * consFontW) div (consTabSpc * consFontW)) * (consTabSpc * consFontW) \<le> 480"
proof -
  have x: "unat x \<le> 474" using assms by (simp add: word_le_nat_alt)
  have sum: "unat (x + 48) = unat x + 48" using x by (subst unat_add_small) simp_all
  have q: "(unat x + 48) div 48 \<le> 10" using x by simp
  have "unat (((x + 48) div 48) * 48) = (unat x + 48) div 48 * 48"
    using q by (subst unat_mult_small) (simp_all add: unat_div sum)
  then show ?thesis using q by (simp add: word_le_nat_alt)
qed

lemma k70LcdPutc_ok:
  assumes inv: "lcd_inv l" and c: "c < 256"
  shows "\<exists>l'. k70LcdPutc font c l = Some l' \<and> lcd_inv l'"
proof -
  have i: "length (fb l) = 130560" "fbSize l = 522240" "consY l \<le> 260" "consX l \<le> 480" "consX l \<le> 474"
    using inv by (auto simp: lcd_inv_def intro: order_trans)
  have step: "unat (consX l + consFontW) = unat (consX l) + 6" using lcd_invD(3) [OF inv] by (subst unat_add_small) simp_all
  have less: "consFontW \<le> consX l \<Longrightarrow> unat (consX l - consFontW) = unat (consX l) - 6"
    by (subst unat_minus_small) (simp_all add: word_le_nat_alt)
  consider "c = 0x0D" | "c = 0x0A" | "c = 0x09" | "c = 0x08" | "c = 0x0C" | "c \<notin> {0x0D, 0x0A, 0x09, 0x08, 0x0C}" by blast
  then show ?thesis
  proof cases
    case 1
    then show ?thesis using i by (intro putc_wrapI [where m = "l\<lparr>consX := 0\<rparr>"]) (simp_all add: k70LcdPutc_def)
  next
    case 2
    obtain f where "k70LcdScroll l = Some (l\<lparr>fb := f\<rparr>)" "lcd_inv (l\<lparr>fb := f\<rparr>)" using k70LcdScroll_inv [OF inv] by blast
    then show ?thesis using 2 i
      by (intro putc_wrapI [where m = "l\<lparr>fb := f\<rparr>"]) (simp_all add: k70LcdPutc_def lcd_inv_def)
  next
    case 3
    show ?thesis
      by (rule putc_wrapI [where m = "l\<lparr>consX := ((consX l + consTabSpc * consFontW) div (consTabSpc * consFontW)) * (consTabSpc * consFontW)\<rparr>"])
        (use 3 i tab_column [OF i(5)] in \<open>simp_all add: k70LcdPutc_def\<close>)
  next
    case 4
    have "consX (if consFontW \<le> consX l then l\<lparr>consX := consX l - consFontW\<rparr> else l) \<le> 480"
      using i(4) less by (auto simp: word_le_nat_alt)
    then show ?thesis using 4 i
      by (intro putc_wrapI [where m = "if consFontW \<le> consX l then l\<lparr>consX := consX l - consFontW\<rparr> else l"])
        (simp_all add: k70LcdPutc_def)
  next
    case 5
    obtain f where "k70LcdClear l = Some (l\<lparr>fb := f, consX := 0, consY := 260\<rparr>)" "length f = 130560"
      using k70LcdClear_ok [OF i(1,2)] by blast
    then show ?thesis using 5 i
      by (intro putc_wrapI [where m = "l\<lparr>fb := f, consX := 0, consY := 260\<rparr>"]) (simp_all add: k70LcdPutc_def)
  next
    case 6
    obtain f where "pokesFb (glyph font c l) (fb l) = Some f" "length f = 130560"
      using glyph_drawn [OF inv, of font c] by blast
    then show ?thesis using 6 i c step lcd_invD(3) [OF inv]
      by (intro putc_wrapI [where m = "l\<lparr>fb := f, consX := consX l + consFontW\<rparr>"])
        (simp_all add: k70LcdPutc_def word_le_nat_alt)
  qed
qed

lemma putsLcd_ok: "lcd_inv l \<Longrightarrow> \<forall>c \<in> set cs. c < 256 \<Longrightarrow> \<exists>l'. putsLcd font cs l = Some l' \<and> lcd_inv l'"
proof (induction cs arbitrary: l)
  case (Cons c cs)
  have "c < 256" using Cons.prems(2) by simp
  then obtain l1 where "k70LcdPutc font c l = Some l1" "lcd_inv l1" using k70LcdPutc_ok [OF Cons.prems(1), of c font] by blast
  then show ?case using Cons.IH [of l1] Cons.prems(2) by simp
qed simp

text \<open>A printable character that leaves room for the next one is drawn and nothing else changes.\<close>

lemma k70LcdPutc_draws:
  assumes inv: "lcd_inv l" and c: "c < 256" "c \<notin> {0x0D, 0x0A, 0x09, 0x08, 0x0C}" and room: "unat (consX l) < 469"
  shows "\<exists>f. k70LcdPutc font c l = Some (l\<lparr>fb := f, consX := consX l + consFontW\<rparr>) \<and>
           (\<forall>y < 12. \<forall>x < 6. f ! cell l y x = (if font c y x then lfg l else lbg l)) \<and>
           (\<forall>i. (\<forall>y < 12. \<forall>x < 6. i \<noteq> cell l y x) \<longrightarrow> f ! i = fb l ! i)"
proof -
  have step: "unat (consX l + consFontW) = unat (consX l) + 6" using lcd_invD(3) [OF inv] by (subst unat_add_small) simp_all
  obtain f where f: "pokesFb (glyph font c l) (fb l) = Some f"
    "\<forall>y < 12. \<forall>x < 6. f ! cell l y x = (if font c y x then lfg l else lbg l)"
    "\<forall>i. (\<forall>y < 12. \<forall>x < 6. i \<noteq> cell l y x) \<longrightarrow> f ! i = fb l ! i"
    using glyph_drawn [OF inv, of font c] by blast
  have "k70LcdPutc font c l = Some (l\<lparr>fb := f, consX := consX l + consFontW\<rparr>)"
    using c f(1) room step by (simp add: k70LcdPutc_def word_less_nat_alt)
  then show ?thesis using f(2,3) by blast
qed

text \<open>For a grey background the memory fill writes what the loop over the pixels does, up to the unused top byte.\<close>

definition rgb :: "u32 \<Rightarrow> u8 \<times> u8 \<times> u8" where
  "rgb p = (pixelR p, pixelG p, pixelB p)"

lemma unat_pixel:
  "unat (pixelR p) = unat p div 65536 mod 256" "unat (pixelG p) = unat p div 256 mod 256" "unat (pixelB p) = unat p mod 256"
proof -
  have masks: "0x00ff0000 = push_bit 16 (mask 8 :: u32)" "0x0000ff00 = push_bit 8 (mask 8 :: u32)" "0x000000ff = (mask 8 :: u32)"
    by (simp_all add: mask_eq_exp_minus_1 push_bit_eq_mult)
  have "pixelR p = ucast (drop_bit 16 p)" "pixelG p = ucast (drop_bit 8 p)" "pixelB p = ucast p"
    unfolding pixelR_def pixelG_def pixelB_def masks by (rule bit_word_eqI, auto simp: bit_simps)+
  then show "unat (pixelR p) = unat p div 65536 mod 256" "unat (pixelG p) = unat p div 256 mod 256" "unat (pixelB p) = unat p mod 256"
    by (simp_all add: unsigned_ucast_eq take_bit_eq_mod drop_bit_eq_div unat_div)
qed

lemma rgb_fillWord: "rgb (fillWord b) = (b, b, b)"
proof -
  have b: "unat (ucast b :: u32) = unat b" "unat b < 256" using unsigned_less [of b, where 'a = nat] by (simp_all add: unsigned_ucast_eq take_bit_eq_mod)
  have w: "unat (fillWord b) = unat b * 16843009" unfolding fillWord_def using b by (subst unat_mult_small) simp_all
  have split: "unat b * 16843009 = (unat b * 257) * 65536 + unat b * 257" "unat b * 16843009 = (unat b * 65793) * 256 + unat b"
    "unat b * 257 = unat b * 256 + unat b"
    by simp_all
  have "unat b * 16843009 div 65536 = unat b * 257"
    unfolding split(1) using b(2) by (subst div_mult_self3) simp_all
  moreover have "unat b * 16843009 div 256 = unat b * 65793" unfolding split(2) using b(2) by (subst div_mult_self3) simp_all
  moreover have "unat b * 257 mod 256 = unat b" "unat b * 65793 mod 256 = unat b" "unat b * 16843009 mod 256 = unat b"
    using b(2) mod_mult_self3 [of "unat b" 256 "unat b"] mod_mult_self3 [of "unat b * 257" 256 "unat b"]
      mod_mult_self3 [of "unat b * 65793" 256 "unat b"]
    by (simp_all add: mult.commute)
  ultimately have "unat b * 16843009 div 65536 mod 256 = unat b" "unat b * 16843009 div 256 mod 256 = unat b"
    "unat b * 16843009 mod 256 = unat b"
    by simp_all
  then have "unat (pixelR (fillWord b)) = unat b" "unat (pixelG (fillWord b)) = unat b" "unat (pixelB (fillWord b)) = unat b"
    unfolding unat_pixel w by simp_all
  then show ?thesis unfolding rgb_def by (simp add: unsigned_word_eqI)
qed

lemma monochrome_rgb:
  assumes "monochrome p"
  shows "rgb (fillWord (pixelR p)) = rgb p"
proof -
  have "pixelR p = pixelG p" "pixelR p = pixelB p" using assms by (auto simp: monochrome_def)
  then show ?thesis unfolding rgb_fillWord by (metis rgb_def)
qed

lemma k70LcdClear_shows:
  assumes "length (fb l) = 130560" "fbSize l = 522240"
  shows "map_option (\<lambda>l'. map rgb (fb l')) (k70LcdClear l) =
         map_option (map rgb) (fillFb 0 (unat (LCD_XSIZE * LCD_YSIZE)) (lbg l) (fb l))"
proof -
  obtain f where f: "k70LcdClear l = Some (l\<lparr>fb := f, consX := 0, consY := 260\<rparr>)" "length f = 130560"
    "\<forall>i < 130560. f ! i = (if monochrome (lbg l) then fillWord (pixelR (lbg l)) else lbg l)"
    using k70LcdClear_ok [OF assms] by blast
  have "unat (LCD_XSIZE * LCD_YSIZE) \<le> length (fb l)" using assms by simp
  then obtain g where g: "fillFb 0 (unat (LCD_XSIZE * LCD_YSIZE)) (lbg l) (fb l) = Some g" "length g = 130560"
    "\<forall>i < 130560. g ! i = lbg l"
    using fillFb_ok [of "unat (LCD_XSIZE * LCD_YSIZE)" "fb l" 0 "lbg l"] assms(1) by auto
  have "map rgb f = map rgb g"
    by (rule nth_equalityI) (use f(2,3) g(2,3) monochrome_rgb [of "lbg l"] in \<open>auto split: if_splits\<close>)
  then show ?thesis unfolding f(1) g(1) by simp
qed

text \<open>With a grey background a scroll moves the text up one row and shows the background on the row below.\<close>

lemma k70LcdScroll_grey:
  assumes inv: "lcd_inv l" and grey: "monochrome (lbg l)" and row: "consY l = 260"
  shows "\<exists>f. k70LcdScroll l = Some (l\<lparr>fb := f\<rparr>) \<and> (\<forall>i < 124800. f ! i = fb l ! (i + 5760)) \<and>
           (\<forall>i. 124800 \<le> i \<longrightarrow> i < 130560 \<longrightarrow> rgb (f ! i) = rgb (lbg l))"
  using k70LcdScroll_ok [OF inv] grey row monochrome_rgb [OF grey] by fastforce

text \<open>With any other background the loop starts at the wrong word, and all rows but the top ones are wiped.\<close>

lemma k70LcdScroll_colour:
  assumes inv: "lcd_inv l" and colour: "\<not> monochrome (lbg l)" and row: "consY l = 260"
  shows "\<exists>f. k70LcdScroll l = Some (l\<lparr>fb := f\<rparr>) \<and> (\<forall>i < 130560. 740 \<le> i \<longrightarrow> f ! i = lbg l)"
  using k70LcdScroll_ok [OF inv] colour row by fastforce


subsection \<open>Properties\<close>

definition exLcd :: Lcd where
  "exLcd = \<lparr>fbSize = 522240, colorDepth = 4, lbg = 0x00ffffff, lfg = 0, consX = 0, consY = 260,
     fb = replicate 130560 0xffffffff, lregs = \<lambda>_. 0\<rparr>"

lemma exLcd_facts: "lcd_inv exLcd" "monochrome (lbg exLcd)" "\<not> monochrome (lbg (exLcd\<lparr>lbg := 0xff\<rparr>))"
proof -
  show "lcd_inv exLcd" by (simp add: lcd_inv_def exLcd_def)
  have "unat (lbg exLcd) = 0x00ffffff" "unat (lbg (exLcd\<lparr>lbg := 0xff\<rparr>)) = 0xff" by (simp_all add: exLcd_def)
  then show "monochrome (lbg exLcd)" "\<not> monochrome (lbg (exLcd\<lparr>lbg := 0xff\<rparr>))"
    by (simp_all add: monochrome_def word_unat_eq_iff unat_pixel)
qed

text \<open>
  C21: writing any text to the screen succeeds and keeps the frame buffer and the cursor in bounds: whatever
  the characters, controls included, no access leaves the frame buffer and the cursor has room for a character.
\<close>

theorem putsLcd_stays_on_screen:
  assumes "lcd_inv l" "\<forall>c \<in> set cs. c < 256"
  shows "\<exists>l'. putsLcd font cs l = Some l' \<and> lcd_inv l'"
  by (rule putsLcd_ok [OF assms])

theorem putsLcd_stays_on_screen_witness:
  "\<exists>l'. putsLcd (\<lambda>c y x. x = y) [0x41, 0x09, 0x0A, 0x08, 0xFF] exLcd = Some l' \<and> lcd_inv l'"
  by (rule putsLcd_stays_on_screen [OF exLcd_facts(1)]) simp

text \<open>
  A printable character that leaves room for another is drawn at the cursor, pixel by pixel from the
  font in the two colours; every other pixel is as before and the cursor moves on by the width of a character.
\<close>

theorem k70LcdPutc_draws_character:
  assumes "lcd_inv l" "c < 256" "c \<notin> {0x0D, 0x0A, 0x09, 0x08, 0x0C}" "unat (consX l) < 469"
  shows "\<exists>f. k70LcdPutc font c l = Some (l\<lparr>fb := f, consX := consX l + consFontW\<rparr>) \<and>
           (\<forall>y < 12. \<forall>x < 6. f ! cell l y x = (if font c y x then lfg l else lbg l)) \<and>
           (\<forall>i. (\<forall>y < 12. \<forall>x < 6. i \<noteq> cell l y x) \<longrightarrow> f ! i = fb l ! i)"
  by (rule k70LcdPutc_draws [OF assms])

theorem k70LcdPutc_draws_character_witness:
  "\<exists>f. k70LcdPutc (\<lambda>c y x. x = y) 0x41 exLcd = Some (exLcd\<lparr>fb := f, consX := consX exLcd + 6\<rparr>) \<and>
     f ! 124800 = 0 \<and> f ! 124801 = 0x00ffffff \<and> f ! 0 = 0xffffffff"
proof -
  have room: "unat (consX exLcd) < 469" "(0x41 :: nat) < 256" "(0x41 :: nat) \<notin> {0x0D, 0x0A, 0x09, 0x08, 0x0C}"
    by (simp_all add: exLcd_def)
  have cells: "cell exLcd 0 0 = 124800" "cell exLcd 0 1 = 124801" "\<And>y x. 124800 \<le> cell exLcd y x"
    "lfg exLcd = 0" "lbg exLcd = 0x00ffffff" "fb exLcd ! 0 = 0xffffffff"
    by (simp_all add: cell_def exLcd_def)
  obtain f where f: "k70LcdPutc (\<lambda>c y x. x = y) 0x41 exLcd = Some (exLcd\<lparr>fb := f, consX := consX exLcd + consFontW\<rparr>)"
    and draw: "\<forall>y < 12. \<forall>x < 6. f ! cell exLcd y x = (if x = y then lfg exLcd else lbg exLcd)"
    and rest: "\<forall>i. (\<forall>y < 12. \<forall>x < 6. i \<noteq> cell exLcd y x) \<longrightarrow> f ! i = fb exLcd ! i"
    using k70LcdPutc_draws_character [OF exLcd_facts(1) room(2,3,1), of "\<lambda>c y x. x = y"] by blast
  have "f ! 124800 = 0" using draw [rule_format, of 0 0] cells by simp
  moreover have "f ! 124801 = 0x00ffffff" using draw [rule_format, of 0 1] cells by simp
  moreover have "f ! 0 = 0xffffffff" using rest [rule_format, of 0] cells(3,6) by (metis not_numeral_le_zero)
  ultimately show ?thesis using f by blast
qed

text \<open>
  C36: clearing the screen shows what the loop over all pixels would: where the background is grey the code
  fills the memory with one byte instead, and every pixel still has the three channels of the background.
\<close>

theorem k70LcdClear_equals_pixel_loop:
  assumes "length (fb l) = 130560" "fbSize l = 522240"
  shows "map_option (\<lambda>l'. map rgb (fb l')) (k70LcdClear l) =
         map_option (map rgb) (fillFb 0 (unat (LCD_XSIZE * LCD_YSIZE)) (lbg l) (fb l))"
  by (rule k70LcdClear_shows [OF assms])

theorem k70LcdClear_equals_pixel_loop_witness:
  "map_option (\<lambda>l'. map rgb (fb l')) (k70LcdClear exLcd) =
   map_option (map rgb) (fillFb 0 (unat (LCD_XSIZE * LCD_YSIZE)) 0x00ffffff (fb exLcd)) \<and> monochrome 0x00ffffff"
  using k70LcdClear_equals_pixel_loop [of exLcd] exLcd_facts(1,2)
  by (simp add: lcd_inv_def exLcd_def del: length_replicate)

text \<open>
  With a background that is not grey the scroll clears from the wrong word on, the cursor's row added to
  the width where they are to be multiplied: but for the first 740 pixels the whole screen is wiped.
\<close>

theorem k70LcdScroll_wipes_coloured:
  assumes "lcd_inv l" "\<not> monochrome (lbg l)" "consY l = 260"
  shows "\<exists>f. k70LcdScroll l = Some (l\<lparr>fb := f\<rparr>) \<and> (\<forall>i < 130560. 740 \<le> i \<longrightarrow> f ! i = lbg l)"
  by (rule k70LcdScroll_colour [OF assms])

theorem k70LcdScroll_wipes_coloured_witness:
  "\<exists>f. k70LcdScroll (exLcd\<lparr>lbg := 0xff\<rparr>) = Some (exLcd\<lparr>lbg := 0xff, fb := f\<rparr>) \<and> f ! 1000 = 0xff"
proof -
  have "lcd_inv (exLcd\<lparr>lbg := 0xff\<rparr>)" "consY (exLcd\<lparr>lbg := 0xff\<rparr>) = 260" by (simp_all add: lcd_inv_def exLcd_def)
  from k70LcdScroll_wipes_coloured [OF this(1) exLcd_facts(3) this(2)]
  obtain f where "k70LcdScroll (exLcd\<lparr>lbg := 0xff\<rparr>) = Some (exLcd\<lparr>lbg := 0xff, fb := f\<rparr>)"
    "\<forall>i < 130560. 740 \<le> i \<longrightarrow> f ! i = lbg (exLcd\<lparr>lbg := 0xff\<rparr>)"
    by blast
  then show ?thesis by (auto simp del: Lcd.update_convs)
qed

end
