(* ===== verification/Profont.thy ===== *)
theory Profont
  imports LcdHw
begin

text \<open>
  The font of the screen (\<open>src/src/dev/arch/k70/profont.c\<close>, \<open>include/arch/k70/profont.h\<close>): 256 characters of 12 rows
  of 6 pixels. A row of the code's array is written as a binary numeral, its first pixel first, so that a
  character reads like the one of the file. The other theories leave the font open; here the screen gets
  its own, and what it shows can be told apart.
\<close>

subsection \<open>The table\<close>

definition profont0 :: "nat list list" where
  "profont0 =
    [[0b000000, 0b000000, 0b010000, 0b101000, 0b101000, 0b010000, 0b000100, 0b001010, 0b001010, 0b000100, 0b000000, 0b000000],
     [0b000000, 0b000000, 0b001000, 0b011100, 0b101010, 0b001000, 0b001000, 0b001000, 0b001000, 0b000000, 0b000000, 0b000000],
     [0b000000, 0b000000, 0b001000, 0b001000, 0b001000, 0b001000, 0b101010, 0b011100, 0b001000, 0b000000, 0b000000, 0b000000],
     [0b000000, 0b000000, 0b000000, 0b001000, 0b000100, 0b111110, 0b000100, 0b001000, 0b000000, 0b000000, 0b000000, 0b000000],
     [0b000000, 0b000000, 0b000000, 0b001000, 0b010000, 0b111110, 0b010000, 0b001000, 0b000000, 0b000000, 0b000000, 0b000000],
     [0b000000, 0b000000, 0b000000, 0b111110, 0b100010, 0b100010, 0b100010, 0b111110, 0b000000, 0b000000, 0b000000, 0b000000],
     [0b000000, 0b000000, 0b111000, 0b101000, 0b101110, 0b111010, 0b010010, 0b010010, 0b011110, 0b000000, 0b000000, 0b000000],
     [0b000000, 0b000000, 0b000000, 0b111110, 0b101010, 0b111010, 0b100010, 0b111110, 0b000000, 0b000000, 0b000000, 0b000000],
     [0b000000, 0b000000, 0b000000, 0b000010, 0b000010, 0b000100, 0b100100, 0b011000, 0b001000, 0b000000, 0b000000, 0b000000],
     [0b000000, 0b000000, 0b000000, 0b001000, 0b111100, 0b000010, 0b111100, 0b001000, 0b000000, 0b000000, 0b000000, 0b000000]]"

definition profont10 :: "nat list list" where
  "profont10 =
    [[0b000000, 0b100000, 0b100000, 0b100000, 0b100000, 0b111110, 0b001000, 0b001110, 0b001000, 0b001000, 0b000000, 0b000000],
     [0b000000, 0b000000, 0b000100, 0b000110, 0b000100, 0b000100, 0b011100, 0b111100, 0b011000, 0b000000, 0b000000, 0b000000],
     [0b000000, 0b111000, 0b100000, 0b111000, 0b100000, 0b101110, 0b001000, 0b001110, 0b001000, 0b001000, 0b000000, 0b000000],
     [0b000000, 0b111000, 0b100000, 0b100000, 0b100000, 0b111110, 0b001010, 0b001100, 0b001010, 0b001010, 0b000000, 0b000000],
     [0b000000, 0b000000, 0b000101, 0b000101, 0b000101, 0b001101, 0b001101, 0b011001, 0b011001, 0b000000, 0b000000, 0b000000],
     [0b000000, 0b000000, 0b101000, 0b101000, 0b101000, 0b101100, 0b101100, 0b100110, 0b100110, 0b000000, 0b000000, 0b000000],
     [0b000000, 0b000000, 0b011100, 0b100010, 0b100010, 0b000000, 0b100010, 0b100010, 0b011100, 0b000000, 0b000000, 0b000000],
     [0b000000, 0b000000, 0b000000, 0b000010, 0b000010, 0b000000, 0b000010, 0b000010, 0b000000, 0b000000, 0b000000, 0b000000],
     [0b000000, 0b000000, 0b011100, 0b000010, 0b000010, 0b011100, 0b100000, 0b100000, 0b011100, 0b000000, 0b000000, 0b000000],
     [0b000000, 0b000000, 0b011100, 0b000010, 0b000010, 0b011100, 0b000010, 0b000010, 0b011100, 0b000000, 0b000000, 0b000000]]"

definition profont20 :: "nat list list" where
  "profont20 =
    [[0b000000, 0b000000, 0b000000, 0b100010, 0b100010, 0b011100, 0b000010, 0b000010, 0b000000, 0b000000, 0b000000, 0b000000],
     [0b000000, 0b000000, 0b011100, 0b100000, 0b100000, 0b011100, 0b000010, 0b000010, 0b011100, 0b000000, 0b000000, 0b000000],
     [0b000000, 0b000000, 0b011100, 0b100000, 0b100000, 0b011100, 0b100010, 0b100010, 0b011100, 0b000000, 0b000000, 0b000000],
     [0b000000, 0b000000, 0b011100, 0b000010, 0b000010, 0b000000, 0b000010, 0b000010, 0b000000, 0b000000, 0b000000, 0b000000],
     [0b000000, 0b000000, 0b011100, 0b100010, 0b100010, 0b011100, 0b100010, 0b100010, 0b011100, 0b000000, 0b000000, 0b000000],
     [0b000000, 0b000000, 0b011100, 0b100010, 0b100010, 0b011100, 0b000010, 0b000010, 0b011100, 0b000000, 0b000000, 0b000000],
     [0b000000, 0b000000, 0b000000, 0b000000, 0b111100, 0b000010, 0b111110, 0b100010, 0b011100, 0b000000, 0b000000, 0b000000],
     [0b000000, 0b111000, 0b100000, 0b111000, 0b100000, 0b111110, 0b001000, 0b001110, 0b000010, 0b001110, 0b000000, 0b000000],
     [0b000000, 0b010000, 0b110000, 0b010000, 0b010000, 0b111110, 0b001000, 0b001000, 0b001000, 0b001110, 0b000000, 0b000000],
     [0b000000, 0b010000, 0b110000, 0b010000, 0b010000, 0b111100, 0b001010, 0b001010, 0b001010, 0b001100, 0b000000, 0b000000]]"

definition profont30 :: "nat list list" where
  "profont30 =
    [[0b000000, 0b010000, 0b110000, 0b010000, 0b010000, 0b111110, 0b001000, 0b001110, 0b001000, 0b001110, 0b000000, 0b000000],
     [0b000000, 0b000000, 0b111100, 0b111100, 0b111110, 0b110010, 0b110010, 0b010010, 0b011110, 0b000000, 0b000000, 0b000000],
     [0b000000, 0b000000, 0b000000, 0b000000, 0b000000, 0b000000, 0b000000, 0b000000, 0b000000, 0b000000, 0b000000, 0b000000],
     [0b000000, 0b000000, 0b001000, 0b001000, 0b001000, 0b001000, 0b001000, 0b000000, 0b001000, 0b000000, 0b000000, 0b000000],
     [0b000000, 0b010100, 0b010100, 0b010100, 0b000000, 0b000000, 0b000000, 0b000000, 0b000000, 0b000000, 0b000000, 0b000000],
     [0b000000, 0b000000, 0b010100, 0b111110, 0b010100, 0b111110, 0b010100, 0b000000, 0b000000, 0b000000, 0b000000, 0b000000],
     [0b000000, 0b001000, 0b011100, 0b101010, 0b101000, 0b011100, 0b001010, 0b101010, 0b011100, 0b001000, 0b000000, 0b000000],
     [0b000000, 0b000000, 0b010010, 0b101010, 0b101100, 0b010100, 0b011010, 0b101010, 0b100100, 0b000000, 0b000000, 0b000000],
     [0b000000, 0b000000, 0b011000, 0b100100, 0b101000, 0b010000, 0b101010, 0b100100, 0b011010, 0b000000, 0b000000, 0b000000],
     [0b000000, 0b001000, 0b001000, 0b001000, 0b000000, 0b000000, 0b000000, 0b000000, 0b000000, 0b000000, 0b000000, 0b000000]]"

definition profont40 :: "nat list list" where
  "profont40 =
    [[0b000000, 0b000100, 0b001000, 0b010000, 0b010000, 0b010000, 0b010000, 0b010000, 0b001000, 0b000100, 0b000000, 0b000000],
     [0b000000, 0b010000, 0b001000, 0b000100, 0b000100, 0b000100, 0b000100, 0b000100, 0b001000, 0b010000, 0b000000, 0b000000],
     [0b000000, 0b000000, 0b000000, 0b001000, 0b101010, 0b011100, 0b101010, 0b001000, 0b000000, 0b000000, 0b000000, 0b000000],
     [0b000000, 0b000000, 0b000000, 0b001000, 0b001000, 0b111110, 0b001000, 0b001000, 0b000000, 0b000000, 0b000000, 0b000000],
     [0b000000, 0b000000, 0b000000, 0b000000, 0b000000, 0b000000, 0b000000, 0b001100, 0b001100, 0b000100, 0b001000, 0b000000],
     [0b000000, 0b000000, 0b000000, 0b000000, 0b000000, 0b111110, 0b000000, 0b000000, 0b000000, 0b000000, 0b000000, 0b000000],
     [0b000000, 0b000000, 0b000000, 0b000000, 0b000000, 0b000000, 0b000000, 0b001100, 0b001100, 0b000000, 0b000000, 0b000000],
     [0b000000, 0b000010, 0b000010, 0b000100, 0b000100, 0b001000, 0b001000, 0b010000, 0b010000, 0b100000, 0b100000, 0b000000],
     [0b000000, 0b000000, 0b011100, 0b100010, 0b100110, 0b101010, 0b110010, 0b100010, 0b011100, 0b000000, 0b000000, 0b000000],
     [0b000000, 0b000000, 0b001000, 0b111000, 0b001000, 0b001000, 0b001000, 0b001000, 0b111110, 0b000000, 0b000000, 0b000000]]"

definition profont50 :: "nat list list" where
  "profont50 =
    [[0b000000, 0b000000, 0b011100, 0b100010, 0b000010, 0b000100, 0b001000, 0b010000, 0b111110, 0b000000, 0b000000, 0b000000],
     [0b000000, 0b000000, 0b011100, 0b100010, 0b000010, 0b001100, 0b000010, 0b100010, 0b011100, 0b000000, 0b000000, 0b000000],
     [0b000000, 0b000000, 0b000100, 0b001100, 0b010100, 0b100100, 0b111110, 0b000100, 0b001110, 0b000000, 0b000000, 0b000000],
     [0b000000, 0b000000, 0b111110, 0b100000, 0b111100, 0b000010, 0b000010, 0b100010, 0b011100, 0b000000, 0b000000, 0b000000],
     [0b000000, 0b000000, 0b011100, 0b100000, 0b111100, 0b100010, 0b100010, 0b100010, 0b011100, 0b000000, 0b000000, 0b000000],
     [0b000000, 0b000000, 0b111110, 0b000010, 0b000010, 0b000100, 0b001000, 0b001000, 0b001000, 0b000000, 0b000000, 0b000000],
     [0b000000, 0b000000, 0b011100, 0b100010, 0b100010, 0b011100, 0b100010, 0b100010, 0b011100, 0b000000, 0b000000, 0b000000],
     [0b000000, 0b000000, 0b011100, 0b100010, 0b100010, 0b100010, 0b011110, 0b000010, 0b011100, 0b000000, 0b000000, 0b000000],
     [0b000000, 0b000000, 0b000000, 0b000000, 0b001100, 0b001100, 0b000000, 0b001100, 0b001100, 0b000000, 0b000000, 0b000000],
     [0b000000, 0b000000, 0b000000, 0b000000, 0b001100, 0b001100, 0b000000, 0b001100, 0b001100, 0b000100, 0b001000, 0b000000]]"

definition profont60 :: "nat list list" where
  "profont60 =
    [[0b000000, 0b000000, 0b000010, 0b000100, 0b001000, 0b010000, 0b001000, 0b000100, 0b000010, 0b000000, 0b000000, 0b000000],
     [0b000000, 0b000000, 0b000000, 0b000000, 0b111110, 0b000000, 0b111110, 0b000000, 0b000000, 0b000000, 0b000000, 0b000000],
     [0b000000, 0b000000, 0b010000, 0b001000, 0b000100, 0b000010, 0b000100, 0b001000, 0b010000, 0b000000, 0b000000, 0b000000],
     [0b000000, 0b000000, 0b011100, 0b100010, 0b000010, 0b000100, 0b001000, 0b000000, 0b001000, 0b000000, 0b000000, 0b000000],
     [0b000000, 0b000000, 0b011100, 0b100010, 0b101110, 0b101010, 0b101110, 0b100000, 0b011110, 0b000000, 0b000000, 0b000000],
     [0b000000, 0b000000, 0b011100, 0b100010, 0b100010, 0b111110, 0b100010, 0b100010, 0b100010, 0b000000, 0b000000, 0b000000],
     [0b000000, 0b000000, 0b111100, 0b100010, 0b100010, 0b111100, 0b100010, 0b100010, 0b111100, 0b000000, 0b000000, 0b000000],
     [0b000000, 0b000000, 0b011100, 0b100010, 0b100000, 0b100000, 0b100000, 0b100010, 0b011100, 0b000000, 0b000000, 0b000000],
     [0b000000, 0b000000, 0b111100, 0b100010, 0b100010, 0b100010, 0b100010, 0b100010, 0b111100, 0b000000, 0b000000, 0b000000],
     [0b000000, 0b000000, 0b111110, 0b100000, 0b100000, 0b111100, 0b100000, 0b100000, 0b111110, 0b000000, 0b000000, 0b000000]]"

definition profont70 :: "nat list list" where
  "profont70 =
    [[0b000000, 0b000000, 0b111110, 0b100000, 0b100000, 0b111100, 0b100000, 0b100000, 0b100000, 0b000000, 0b000000, 0b000000],
     [0b000000, 0b000000, 0b011100, 0b100010, 0b100000, 0b100110, 0b100010, 0b100010, 0b011100, 0b000000, 0b000000, 0b000000],
     [0b000000, 0b000000, 0b100010, 0b100010, 0b100010, 0b111110, 0b100010, 0b100010, 0b100010, 0b000000, 0b000000, 0b000000],
     [0b000000, 0b000000, 0b111110, 0b001000, 0b001000, 0b001000, 0b001000, 0b001000, 0b111110, 0b000000, 0b000000, 0b000000],
     [0b000000, 0b000000, 0b000010, 0b000010, 0b000010, 0b000010, 0b100010, 0b100010, 0b011100, 0b000000, 0b000000, 0b000000],
     [0b000000, 0b000000, 0b100010, 0b100100, 0b101000, 0b110000, 0b101000, 0b100100, 0b100010, 0b000000, 0b000000, 0b000000],
     [0b000000, 0b000000, 0b100000, 0b100000, 0b100000, 0b100000, 0b100000, 0b100000, 0b111110, 0b000000, 0b000000, 0b000000],
     [0b000000, 0b000000, 0b100010, 0b110110, 0b101010, 0b101010, 0b100010, 0b100010, 0b100010, 0b000000, 0b000000, 0b000000],
     [0b000000, 0b000000, 0b100010, 0b110010, 0b101010, 0b100110, 0b100010, 0b100010, 0b100010, 0b000000, 0b000000, 0b000000],
     [0b000000, 0b000000, 0b011100, 0b100010, 0b100010, 0b100010, 0b100010, 0b100010, 0b011100, 0b000000, 0b000000, 0b000000]]"

definition profont80 :: "nat list list" where
  "profont80 =
    [[0b000000, 0b000000, 0b111100, 0b100010, 0b100010, 0b111100, 0b100000, 0b100000, 0b100000, 0b000000, 0b000000, 0b000000],
     [0b000000, 0b000000, 0b011100, 0b100010, 0b100010, 0b100010, 0b100010, 0b101010, 0b011100, 0b000010, 0b000000, 0b000000],
     [0b000000, 0b000000, 0b111100, 0b100010, 0b100010, 0b111100, 0b100010, 0b100010, 0b100010, 0b000000, 0b000000, 0b000000],
     [0b000000, 0b000000, 0b011100, 0b100010, 0b100000, 0b011100, 0b000010, 0b100010, 0b011100, 0b000000, 0b000000, 0b000000],
     [0b000000, 0b000000, 0b111110, 0b001000, 0b001000, 0b001000, 0b001000, 0b001000, 0b001000, 0b000000, 0b000000, 0b000000],
     [0b000000, 0b000000, 0b100010, 0b100010, 0b100010, 0b100010, 0b100010, 0b100010, 0b011100, 0b000000, 0b000000, 0b000000],
     [0b000000, 0b000000, 0b100010, 0b100010, 0b100010, 0b100010, 0b100010, 0b010100, 0b001000, 0b000000, 0b000000, 0b000000],
     [0b000000, 0b000000, 0b100010, 0b100010, 0b100010, 0b101010, 0b101010, 0b110110, 0b100010, 0b000000, 0b000000, 0b000000],
     [0b000000, 0b000000, 0b100010, 0b100010, 0b010100, 0b001000, 0b010100, 0b100010, 0b100010, 0b000000, 0b000000, 0b000000],
     [0b000000, 0b000000, 0b100010, 0b100010, 0b100010, 0b010100, 0b001000, 0b001000, 0b001000, 0b000000, 0b000000, 0b000000]]"

definition profont90 :: "nat list list" where
  "profont90 =
    [[0b000000, 0b000000, 0b111110, 0b000010, 0b000100, 0b001000, 0b010000, 0b100000, 0b111110, 0b000000, 0b000000, 0b000000],
     [0b000000, 0b011100, 0b010000, 0b010000, 0b010000, 0b010000, 0b010000, 0b010000, 0b010000, 0b011100, 0b000000, 0b000000],
     [0b000000, 0b100000, 0b100000, 0b010000, 0b010000, 0b001000, 0b001000, 0b000100, 0b000100, 0b000010, 0b000010, 0b000000],
     [0b000000, 0b011100, 0b000100, 0b000100, 0b000100, 0b000100, 0b000100, 0b000100, 0b000100, 0b011100, 0b000000, 0b000000],
     [0b000000, 0b000000, 0b001000, 0b010100, 0b100010, 0b000000, 0b000000, 0b000000, 0b000000, 0b000000, 0b000000, 0b000000],
     [0b000000, 0b000000, 0b000000, 0b000000, 0b000000, 0b000000, 0b000000, 0b000000, 0b000000, 0b000000, 0b111110, 0b000000],
     [0b000000, 0b010000, 0b001000, 0b000100, 0b000000, 0b000000, 0b000000, 0b000000, 0b000000, 0b000000, 0b000000, 0b000000],
     [0b000000, 0b000000, 0b000000, 0b000000, 0b011110, 0b100010, 0b100010, 0b100110, 0b011010, 0b000000, 0b000000, 0b000000],
     [0b000000, 0b000000, 0b100000, 0b100000, 0b111100, 0b100010, 0b100010, 0b100010, 0b111100, 0b000000, 0b000000, 0b000000],
     [0b000000, 0b000000, 0b000000, 0b000000, 0b011100, 0b100010, 0b100000, 0b100010, 0b011100, 0b000000, 0b000000, 0b000000]]"

definition profont100 :: "nat list list" where
  "profont100 =
    [[0b000000, 0b000000, 0b000010, 0b000010, 0b011110, 0b100010, 0b100010, 0b100010, 0b011110, 0b000000, 0b000000, 0b000000],
     [0b000000, 0b000000, 0b000000, 0b000000, 0b011100, 0b100010, 0b111110, 0b100000, 0b011110, 0b000000, 0b000000, 0b000000],
     [0b000000, 0b000000, 0b000110, 0b001000, 0b011100, 0b001000, 0b001000, 0b001000, 0b001000, 0b000000, 0b000000, 0b000000],
     [0b000000, 0b000000, 0b000000, 0b000000, 0b011110, 0b100010, 0b100010, 0b100010, 0b011110, 0b000010, 0b011100, 0b000000],
     [0b000000, 0b000000, 0b100000, 0b100000, 0b111100, 0b100010, 0b100010, 0b100010, 0b100010, 0b000000, 0b000000, 0b000000],
     [0b000000, 0b000000, 0b001000, 0b000000, 0b011000, 0b001000, 0b001000, 0b001000, 0b011100, 0b000000, 0b000000, 0b000000],
     [0b000000, 0b000000, 0b000100, 0b000000, 0b001100, 0b000100, 0b000100, 0b000100, 0b000100, 0b000100, 0b011000, 0b000000],
     [0b000000, 0b000000, 0b100000, 0b100000, 0b100100, 0b101000, 0b111000, 0b100100, 0b100010, 0b000000, 0b000000, 0b000000],
     [0b000000, 0b000000, 0b011000, 0b001000, 0b001000, 0b001000, 0b001000, 0b001000, 0b011100, 0b000000, 0b000000, 0b000000],
     [0b000000, 0b000000, 0b000000, 0b000000, 0b111100, 0b101010, 0b101010, 0b101010, 0b101010, 0b000000, 0b000000, 0b000000]]"

definition profont110 :: "nat list list" where
  "profont110 =
    [[0b000000, 0b000000, 0b000000, 0b000000, 0b101100, 0b110010, 0b100010, 0b100010, 0b100010, 0b000000, 0b000000, 0b000000],
     [0b000000, 0b000000, 0b000000, 0b000000, 0b011100, 0b100010, 0b100010, 0b100010, 0b011100, 0b000000, 0b000000, 0b000000],
     [0b000000, 0b000000, 0b000000, 0b000000, 0b111100, 0b100010, 0b100010, 0b100010, 0b111100, 0b100000, 0b100000, 0b000000],
     [0b000000, 0b000000, 0b000000, 0b000000, 0b011110, 0b100010, 0b100010, 0b100010, 0b011110, 0b000010, 0b000010, 0b000000],
     [0b000000, 0b000000, 0b000000, 0b000000, 0b101100, 0b110010, 0b100000, 0b100000, 0b100000, 0b000000, 0b000000, 0b000000],
     [0b000000, 0b000000, 0b000000, 0b000000, 0b011110, 0b100000, 0b011100, 0b000010, 0b111100, 0b000000, 0b000000, 0b000000],
     [0b000000, 0b000000, 0b001000, 0b001000, 0b011100, 0b001000, 0b001000, 0b001000, 0b000110, 0b000000, 0b000000, 0b000000],
     [0b000000, 0b000000, 0b000000, 0b000000, 0b100010, 0b100010, 0b100010, 0b100110, 0b011010, 0b000000, 0b000000, 0b000000],
     [0b000000, 0b000000, 0b000000, 0b000000, 0b100010, 0b100010, 0b100010, 0b010100, 0b001000, 0b000000, 0b000000, 0b000000],
     [0b000000, 0b000000, 0b000000, 0b000000, 0b101010, 0b101010, 0b101010, 0b101010, 0b010100, 0b000000, 0b000000, 0b000000]]"

definition profont120 :: "nat list list" where
  "profont120 =
    [[0b000000, 0b000000, 0b000000, 0b000000, 0b100010, 0b010100, 0b001000, 0b010100, 0b100010, 0b000000, 0b000000, 0b000000],
     [0b000000, 0b000000, 0b000000, 0b000000, 0b100010, 0b100010, 0b100010, 0b100010, 0b011110, 0b000010, 0b011100, 0b000000],
     [0b000000, 0b000000, 0b000000, 0b000000, 0b111110, 0b000100, 0b001000, 0b010000, 0b111110, 0b000000, 0b000000, 0b000000],
     [0b000010, 0b000100, 0b000100, 0b000100, 0b000100, 0b011000, 0b000100, 0b000100, 0b000100, 0b000100, 0b000010, 0b000000],
     [0b000000, 0b001000, 0b001000, 0b001000, 0b001000, 0b001000, 0b001000, 0b001000, 0b001000, 0b001000, 0b000000, 0b000000],
     [0b010000, 0b001000, 0b001000, 0b001000, 0b001000, 0b000110, 0b001000, 0b001000, 0b001000, 0b001000, 0b010000, 0b000000],
     [0b000000, 0b000000, 0b000000, 0b000000, 0b010010, 0b101010, 0b100100, 0b000000, 0b000000, 0b000000, 0b000000, 0b000000],
     [0b000000, 0b000000, 0b000000, 0b001000, 0b001000, 0b010100, 0b010100, 0b100010, 0b111110, 0b000000, 0b000000, 0b000000],
     [0b000000, 0b000000, 0b011100, 0b100010, 0b100000, 0b100000, 0b100000, 0b100010, 0b011100, 0b001000, 0b010000, 0b000000],
     [0b000000, 0b000000, 0b010100, 0b000000, 0b100010, 0b100010, 0b100010, 0b100110, 0b011010, 0b000000, 0b000000, 0b000000]]"

definition profont130 :: "nat list list" where
  "profont130 =
    [[0b000000, 0b000100, 0b001000, 0b000000, 0b011100, 0b100010, 0b111110, 0b100000, 0b011110, 0b000000, 0b000000, 0b000000],
     [0b000000, 0b001000, 0b010100, 0b000000, 0b011110, 0b100010, 0b100010, 0b100110, 0b011010, 0b000000, 0b000000, 0b000000],
     [0b000000, 0b000000, 0b010100, 0b000000, 0b011110, 0b100010, 0b100010, 0b100110, 0b011010, 0b000000, 0b000000, 0b000000],
     [0b000000, 0b001000, 0b000100, 0b000000, 0b011110, 0b100010, 0b100010, 0b100110, 0b011010, 0b000000, 0b000000, 0b000000],
     [0b000000, 0b001000, 0b010100, 0b001000, 0b011110, 0b100010, 0b100010, 0b100110, 0b011010, 0b000000, 0b000000, 0b000000],
     [0b000000, 0b000000, 0b000000, 0b000000, 0b011100, 0b100010, 0b100000, 0b100010, 0b011100, 0b001000, 0b010000, 0b000000],
     [0b000000, 0b001000, 0b010100, 0b000000, 0b011100, 0b100010, 0b111110, 0b100000, 0b011110, 0b000000, 0b000000, 0b000000],
     [0b000000, 0b000000, 0b010100, 0b000000, 0b011100, 0b100010, 0b111110, 0b100000, 0b011110, 0b000000, 0b000000, 0b000000],
     [0b000000, 0b010000, 0b001000, 0b000000, 0b011100, 0b100010, 0b111110, 0b100000, 0b011110, 0b000000, 0b000000, 0b000000],
     [0b000000, 0b000000, 0b010100, 0b000000, 0b011000, 0b001000, 0b001000, 0b001000, 0b011100, 0b000000, 0b000000, 0b000000]]"

definition profont140 :: "nat list list" where
  "profont140 =
    [[0b000000, 0b001000, 0b010100, 0b000000, 0b011000, 0b001000, 0b001000, 0b001000, 0b011100, 0b000000, 0b000000, 0b000000],
     [0b000000, 0b010000, 0b001000, 0b000000, 0b011000, 0b001000, 0b001000, 0b001000, 0b011100, 0b000000, 0b000000, 0b000000],
     [0b010100, 0b000000, 0b011100, 0b100010, 0b100010, 0b111110, 0b100010, 0b100010, 0b100010, 0b000000, 0b000000, 0b000000],
     [0b001000, 0b010100, 0b011100, 0b100010, 0b100010, 0b111110, 0b100010, 0b100010, 0b100010, 0b000000, 0b000000, 0b000000],
     [0b000100, 0b001000, 0b111110, 0b100000, 0b100000, 0b111100, 0b100000, 0b100000, 0b111110, 0b000000, 0b000000, 0b000000],
     [0b000000, 0b000000, 0b000000, 0b000000, 0b011100, 0b101010, 0b101110, 0b101000, 0b011110, 0b000000, 0b000000, 0b000000],
     [0b000000, 0b000000, 0b011110, 0b101000, 0b101000, 0b111100, 0b101000, 0b101000, 0b101110, 0b000000, 0b000000, 0b000000],
     [0b000000, 0b001000, 0b010100, 0b000000, 0b011100, 0b100010, 0b100010, 0b100010, 0b011100, 0b000000, 0b000000, 0b000000],
     [0b000000, 0b000000, 0b010100, 0b000000, 0b011100, 0b100010, 0b100010, 0b100010, 0b011100, 0b000000, 0b000000, 0b000000],
     [0b000000, 0b010000, 0b001000, 0b000000, 0b011100, 0b100010, 0b100010, 0b100010, 0b011100, 0b000000, 0b000000, 0b000000]]"

definition profont150 :: "nat list list" where
  "profont150 =
    [[0b000000, 0b001000, 0b010100, 0b000000, 0b100010, 0b100010, 0b100010, 0b100110, 0b011010, 0b000000, 0b000000, 0b000000],
     [0b000000, 0b010000, 0b001000, 0b000000, 0b100010, 0b100010, 0b100010, 0b100110, 0b011010, 0b000000, 0b000000, 0b000000],
     [0b000000, 0b000000, 0b010100, 0b000000, 0b100010, 0b100010, 0b100010, 0b100010, 0b011110, 0b000010, 0b011100, 0b000000],
     [0b010100, 0b000000, 0b011100, 0b100010, 0b100010, 0b100010, 0b100010, 0b100010, 0b011100, 0b000000, 0b000000, 0b000000],
     [0b010100, 0b000000, 0b100010, 0b100010, 0b100010, 0b100010, 0b100010, 0b100010, 0b011100, 0b000000, 0b000000, 0b000000],
     [0b000000, 0b000000, 0b000000, 0b001000, 0b011100, 0b101010, 0b101000, 0b101010, 0b011100, 0b001000, 0b000000, 0b000000],
     [0b000000, 0b000000, 0b001100, 0b010010, 0b010000, 0b111000, 0b010000, 0b010000, 0b111110, 0b000000, 0b000000, 0b000000],
     [0b000000, 0b000000, 0b100010, 0b010100, 0b111110, 0b001000, 0b111110, 0b001000, 0b001000, 0b000000, 0b000000, 0b000000],
     [0b000000, 0b000000, 0b011100, 0b100010, 0b100010, 0b100100, 0b100010, 0b100010, 0b100100, 0b000000, 0b000000, 0b000000],
     [0b000000, 0b000110, 0b001000, 0b001000, 0b011100, 0b001000, 0b001000, 0b001000, 0b001000, 0b110000, 0b000000, 0b000000]]"

definition profont160 :: "nat list list" where
  "profont160 =
    [[0b000000, 0b000100, 0b001000, 0b000000, 0b011110, 0b100010, 0b100010, 0b100110, 0b011010, 0b000000, 0b000000, 0b000000],
     [0b000000, 0b000100, 0b001000, 0b000000, 0b011000, 0b001000, 0b001000, 0b001000, 0b011100, 0b000000, 0b000000, 0b000000],
     [0b000000, 0b000100, 0b001000, 0b000000, 0b011100, 0b100010, 0b100010, 0b100010, 0b011100, 0b000000, 0b000000, 0b000000],
     [0b000000, 0b000100, 0b001000, 0b000000, 0b100010, 0b100010, 0b100010, 0b100110, 0b011010, 0b000000, 0b000000, 0b000000],
     [0b000000, 0b011010, 0b101100, 0b000000, 0b101100, 0b110010, 0b100010, 0b100010, 0b100010, 0b000000, 0b000000, 0b000000],
     [0b011010, 0b101100, 0b100010, 0b110010, 0b101010, 0b100110, 0b100010, 0b100010, 0b100010, 0b000000, 0b000000, 0b000000],
     [0b000000, 0b000000, 0b011100, 0b000010, 0b011110, 0b100010, 0b011110, 0b000000, 0b111110, 0b000000, 0b000000, 0b000000],
     [0b000000, 0b000000, 0b011100, 0b100010, 0b100010, 0b100010, 0b011100, 0b000000, 0b111110, 0b000000, 0b000000, 0b000000],
     [0b000000, 0b000000, 0b001000, 0b000000, 0b001000, 0b010000, 0b100000, 0b100010, 0b011100, 0b000000, 0b000000, 0b000000],
     [0b000000, 0b000000, 0b000000, 0b000000, 0b000000, 0b011110, 0b010000, 0b010000, 0b000000, 0b000000, 0b000000, 0b000000]]"

definition profont170 :: "nat list list" where
  "profont170 =
    [[0b000000, 0b000000, 0b000000, 0b000000, 0b000000, 0b011110, 0b000010, 0b000010, 0b000000, 0b000000, 0b000000, 0b000000],
     [0b000000, 0b110000, 0b010010, 0b010100, 0b001000, 0b010000, 0b101100, 0b000010, 0b000100, 0b001110, 0b000000, 0b000000],
     [0b000000, 0b110000, 0b010010, 0b010100, 0b001000, 0b010000, 0b101000, 0b001010, 0b001110, 0b000010, 0b000000, 0b000000],
     [0b000000, 0b000000, 0b001000, 0b000000, 0b001000, 0b001000, 0b001000, 0b001000, 0b001000, 0b001000, 0b001000, 0b000000],
     [0b000000, 0b000000, 0b000000, 0b001010, 0b010100, 0b101000, 0b010100, 0b001010, 0b000000, 0b000000, 0b000000, 0b000000],
     [0b000000, 0b000000, 0b000000, 0b101000, 0b010100, 0b001010, 0b010100, 0b101000, 0b000000, 0b000000, 0b000000, 0b000000],
     [0b000000, 0b011010, 0b101100, 0b000000, 0b011110, 0b100010, 0b100010, 0b100110, 0b011010, 0b000000, 0b000000, 0b000000],
     [0b000000, 0b011010, 0b101100, 0b000000, 0b011100, 0b100010, 0b100010, 0b100010, 0b011100, 0b000000, 0b000000, 0b000000],
     [0b000000, 0b000000, 0b001100, 0b010011, 0b010110, 0b011010, 0b011010, 0b110010, 0b001100, 0b000000, 0b000000, 0b000000],
     [0b000000, 0b000000, 0b000000, 0b000000, 0b001100, 0b010011, 0b011110, 0b110010, 0b001100, 0b000000, 0b000000, 0b000000]]"

definition profont180 :: "nat list list" where
  "profont180 =
    [[0b000000, 0b000000, 0b000000, 0b000000, 0b010100, 0b101010, 0b101110, 0b101000, 0b010110, 0b000000, 0b000000, 0b000000],
     [0b000000, 0b000000, 0b011110, 0b101000, 0b101000, 0b101100, 0b101000, 0b101000, 0b011110, 0b000000, 0b000000, 0b000000],
     [0b010000, 0b001000, 0b011100, 0b100010, 0b100010, 0b111110, 0b100010, 0b100010, 0b100010, 0b000000, 0b000000, 0b000000],
     [0b011010, 0b101100, 0b011100, 0b100010, 0b100010, 0b111110, 0b100010, 0b100010, 0b100010, 0b000000, 0b000000, 0b000000],
     [0b011010, 0b101100, 0b011100, 0b100010, 0b100010, 0b100010, 0b100010, 0b100010, 0b011100, 0b000000, 0b000000, 0b000000],
     [0b000000, 0b000000, 0b010100, 0b000000, 0b000000, 0b000000, 0b000000, 0b000000, 0b000000, 0b000000, 0b000000, 0b000000],
     [0b000000, 0b000100, 0b001000, 0b000000, 0b000000, 0b000000, 0b000000, 0b000000, 0b000000, 0b000000, 0b000000, 0b000000],
     [0b000000, 0b000000, 0b001000, 0b011100, 0b001000, 0b001000, 0b001000, 0b000000, 0b000000, 0b000000, 0b000000, 0b000000],
     [0b000000, 0b011110, 0b101010, 0b101010, 0b101010, 0b011110, 0b001010, 0b001010, 0b001010, 0b000000, 0b000000, 0b000000],
     [0b000000, 0b000000, 0b011110, 0b100001, 0b101101, 0b101001, 0b101101, 0b100001, 0b011110, 0b000000, 0b000000, 0b000000]]"

definition profont190 :: "nat list list" where
  "profont190 =
    [[0b000000, 0b000000, 0b011110, 0b100001, 0b101101, 0b101101, 0b101011, 0b100001, 0b011110, 0b000000, 0b000000, 0b000000],
     [0b000000, 0b000000, 0b111101, 0b010111, 0b010111, 0b000000, 0b000000, 0b000000, 0b000000, 0b000000, 0b000000, 0b000000],
     [0b000000, 0b000000, 0b010010, 0b000000, 0b110110, 0b010010, 0b010010, 0b010010, 0b111010, 0b000010, 0b001100, 0b000000],
     [0b000000, 0b000000, 0b111010, 0b010010, 0b010010, 0b010010, 0b010010, 0b010010, 0b111010, 0b000010, 0b001100, 0b000000],
     [0b000000, 0b000000, 0b000000, 0b000000, 0b000000, 0b000000, 0b111111, 0b000100, 0b000100, 0b000100, 0b000100, 0b000100],
     [0b000100, 0b000100, 0b000100, 0b000100, 0b000100, 0b000100, 0b000111, 0b000100, 0b000100, 0b000100, 0b000100, 0b000100],
     [0b000000, 0b000000, 0b000000, 0b000000, 0b000000, 0b000000, 0b111111, 0b000000, 0b000000, 0b000000, 0b000000, 0b000000],
     [0b000100, 0b000100, 0b000100, 0b000100, 0b000100, 0b000100, 0b111111, 0b000100, 0b000100, 0b000100, 0b000100, 0b000100],
     [0b000100, 0b000100, 0b000100, 0b000100, 0b000100, 0b000111, 0b000100, 0b000111, 0b000100, 0b000100, 0b000100, 0b000100],
     [0b001010, 0b001010, 0b001010, 0b001010, 0b001010, 0b001010, 0b001011, 0b001010, 0b001010, 0b001010, 0b001010, 0b001010]]"

definition profont200 :: "nat list list" where
  "profont200 =
    [[0b001010, 0b001010, 0b001010, 0b001010, 0b001010, 0b001011, 0b001000, 0b001111, 0b000000, 0b000000, 0b000000, 0b000000],
     [0b000000, 0b000000, 0b000000, 0b000000, 0b000000, 0b001111, 0b001000, 0b001011, 0b001010, 0b001010, 0b001010, 0b001010],
     [0b001010, 0b001010, 0b001010, 0b001010, 0b001010, 0b111011, 0b000000, 0b111111, 0b000000, 0b000000, 0b000000, 0b000000],
     [0b000000, 0b000000, 0b000000, 0b000000, 0b000000, 0b111111, 0b000000, 0b111011, 0b001010, 0b001010, 0b001010, 0b001010],
     [0b001010, 0b001010, 0b001010, 0b001010, 0b001010, 0b001011, 0b001000, 0b001011, 0b001010, 0b001010, 0b001010, 0b001010],
     [0b000000, 0b000000, 0b000000, 0b000000, 0b000000, 0b111111, 0b000000, 0b111111, 0b000000, 0b000000, 0b000000, 0b000000],
     [0b001010, 0b001010, 0b001010, 0b001010, 0b001010, 0b111011, 0b000000, 0b111011, 0b001010, 0b001010, 0b001010, 0b001010],
     [0b000100, 0b000100, 0b000100, 0b000100, 0b000100, 0b111111, 0b000000, 0b111111, 0b000000, 0b000000, 0b000000, 0b000000],
     [0b001010, 0b001010, 0b001010, 0b001010, 0b001010, 0b001010, 0b111111, 0b000000, 0b000000, 0b000000, 0b000000, 0b000000],
     [0b000000, 0b000000, 0b000000, 0b000000, 0b000000, 0b111111, 0b000000, 0b111111, 0b000100, 0b000100, 0b000100, 0b000100]]"

definition profont210 :: "nat list list" where
  "profont210 =
    [[0b000000, 0b000000, 0b000000, 0b000000, 0b000000, 0b000000, 0b111111, 0b001010, 0b001010, 0b001010, 0b001010, 0b001010],
     [0b001010, 0b001010, 0b001010, 0b001010, 0b001010, 0b001010, 0b001111, 0b000000, 0b000000, 0b000000, 0b000000, 0b000000],
     [0b000100, 0b000100, 0b000100, 0b000100, 0b000100, 0b000111, 0b000100, 0b000111, 0b000000, 0b000000, 0b000000, 0b000000],
     [0b000000, 0b000000, 0b000000, 0b000000, 0b000000, 0b000111, 0b000100, 0b000111, 0b000100, 0b000100, 0b000100, 0b000100],
     [0b000000, 0b000000, 0b000000, 0b000000, 0b000000, 0b000000, 0b001111, 0b001010, 0b001010, 0b001010, 0b001010, 0b001010],
     [0b001010, 0b001010, 0b001010, 0b001010, 0b001010, 0b001010, 0b111111, 0b001010, 0b001010, 0b001010, 0b001010, 0b001010],
     [0b000100, 0b000100, 0b000100, 0b000100, 0b000100, 0b111111, 0b000100, 0b111111, 0b000100, 0b000100, 0b000100, 0b000100],
     [0b000100, 0b000100, 0b000100, 0b000100, 0b000100, 0b000100, 0b111100, 0b000000, 0b000000, 0b000000, 0b000000, 0b000000],
     [0b000000, 0b000000, 0b000000, 0b000000, 0b000000, 0b000000, 0b000111, 0b000100, 0b000100, 0b000100, 0b000100, 0b000100],
     [0b111111, 0b111111, 0b111111, 0b111111, 0b111111, 0b111111, 0b111111, 0b111111, 0b111111, 0b111111, 0b111111, 0b111111]]"

definition profont220 :: "nat list list" where
  "profont220 =
    [[0b000000, 0b000000, 0b000000, 0b000000, 0b000000, 0b000000, 0b111111, 0b111111, 0b111111, 0b111111, 0b111111, 0b111111],
     [0b000000, 0b011100, 0b100010, 0b010010, 0b101000, 0b100100, 0b010010, 0b001010, 0b100100, 0b100010, 0b011100, 0b000000],
     [0b000000, 0b000000, 0b000000, 0b000000, 0b000000, 0b000000, 0b001000, 0b010100, 0b100010, 0b000000, 0b000000, 0b000000],
     [0b000000, 0b000000, 0b000000, 0b000000, 0b010100, 0b101010, 0b101010, 0b010100, 0b000000, 0b000000, 0b000000, 0b000000],
     [0b000000, 0b000000, 0b000000, 0b000000, 0b011010, 0b100100, 0b100100, 0b100100, 0b011010, 0b000000, 0b000000, 0b000000],
     [0b000000, 0b000000, 0b001100, 0b010010, 0b010010, 0b010100, 0b010010, 0b010010, 0b010100, 0b010000, 0b010000, 0b000000],
     [0b000000, 0b000000, 0b011110, 0b010010, 0b010000, 0b010000, 0b010000, 0b010000, 0b010000, 0b000000, 0b000000, 0b000000],
     [0b000000, 0b000000, 0b000000, 0b000000, 0b111110, 0b010100, 0b010100, 0b010100, 0b010100, 0b000000, 0b000000, 0b000000],
     [0b000000, 0b000000, 0b111110, 0b010010, 0b001000, 0b000100, 0b001000, 0b010010, 0b111110, 0b000000, 0b000000, 0b000000],
     [0b000000, 0b000000, 0b000000, 0b000110, 0b011100, 0b100010, 0b100010, 0b100010, 0b011100, 0b000000, 0b000000, 0b000000]]"

definition profont230 :: "nat list list" where
  "profont230 =
    [[0b000000, 0b000000, 0b000000, 0b000000, 0b100100, 0b100100, 0b100100, 0b100100, 0b111010, 0b100000, 0b100000, 0b000000],
     [0b000000, 0b000000, 0b000000, 0b000010, 0b011100, 0b101000, 0b001000, 0b001000, 0b001000, 0b000000, 0b000000, 0b000000],
     [0b000000, 0b111110, 0b001000, 0b011100, 0b100010, 0b100010, 0b100010, 0b011100, 0b001000, 0b111110, 0b000000, 0b000000],
     [0b000000, 0b000000, 0b001000, 0b010100, 0b100010, 0b111110, 0b100010, 0b010100, 0b001000, 0b000000, 0b000000, 0b000000],
     [0b000000, 0b000000, 0b011100, 0b100010, 0b100010, 0b100010, 0b010100, 0b010100, 0b110110, 0b000000, 0b000000, 0b000000],
     [0b000000, 0b001000, 0b010000, 0b010000, 0b001000, 0b010100, 0b100100, 0b100100, 0b011000, 0b000000, 0b000000, 0b000000],
     [0b000000, 0b000110, 0b001000, 0b011100, 0b101010, 0b101010, 0b101010, 0b011100, 0b001000, 0b110000, 0b000000, 0b000000],
     [0b000000, 0b001000, 0b001000, 0b011100, 0b101010, 0b101010, 0b101010, 0b011100, 0b001000, 0b001000, 0b000000, 0b000000],
     [0b000000, 0b000000, 0b000110, 0b001000, 0b010000, 0b011110, 0b010000, 0b001000, 0b000110, 0b000000, 0b000000, 0b000000],
     [0b000000, 0b000000, 0b011100, 0b100010, 0b100010, 0b100010, 0b100010, 0b100010, 0b100010, 0b000000, 0b000000, 0b000000]]"

definition profont240 :: "nat list list" where
  "profont240 =
    [[0b000000, 0b000000, 0b000000, 0b111110, 0b000000, 0b111110, 0b000000, 0b111110, 0b000000, 0b000000, 0b000000, 0b000000],
     [0b000000, 0b000000, 0b001000, 0b001000, 0b111110, 0b001000, 0b001000, 0b000000, 0b111110, 0b000000, 0b000000, 0b000000],
     [0b000000, 0b000000, 0b010000, 0b001000, 0b000100, 0b001000, 0b010000, 0b000000, 0b011100, 0b000000, 0b000000, 0b000000],
     [0b000000, 0b000000, 0b000100, 0b001000, 0b010000, 0b001000, 0b000100, 0b000000, 0b011100, 0b000000, 0b000000, 0b000000],
     [0b000000, 0b000000, 0b000100, 0b001010, 0b001010, 0b001000, 0b001000, 0b001000, 0b001000, 0b001000, 0b001000, 0b001000],
     [0b001000, 0b001000, 0b001000, 0b001000, 0b001000, 0b001000, 0b101000, 0b101000, 0b010000, 0b000000, 0b000000, 0b000000],
     [0b000000, 0b000000, 0b000000, 0b001000, 0b000000, 0b111110, 0b000000, 0b001000, 0b000000, 0b000000, 0b000000, 0b000000],
     [0b000000, 0b000000, 0b000000, 0b000010, 0b011100, 0b100010, 0b011100, 0b100000, 0b000000, 0b000000, 0b000000, 0b000000],
     [0b000000, 0b000000, 0b001100, 0b010010, 0b010010, 0b001100, 0b000000, 0b000000, 0b000000, 0b000000, 0b000000, 0b000000],
     [0b000000, 0b000000, 0b001100, 0b011110, 0b011110, 0b001100, 0b000000, 0b000000, 0b000000, 0b000000, 0b000000, 0b000000]]"

definition profont250 :: "nat list list" where
  "profont250 =
    [[0b000000, 0b000000, 0b000000, 0b000000, 0b000000, 0b000000, 0b001000, 0b011100, 0b001000, 0b000000, 0b000000, 0b000000],
     [0b000000, 0b000000, 0b000000, 0b000011, 0b000010, 0b000100, 0b110100, 0b011000, 0b001000, 0b000000, 0b000000, 0b000000],
     [0b000000, 0b001100, 0b010010, 0b010010, 0b010010, 0b010010, 0b000000, 0b000000, 0b000000, 0b000000, 0b000000, 0b000000],
     [0b000000, 0b001100, 0b010010, 0b000100, 0b001000, 0b011110, 0b000000, 0b000000, 0b000000, 0b000000, 0b000000, 0b000000],
     [0b000000, 0b011100, 0b000010, 0b001100, 0b000010, 0b011100, 0b000000, 0b000000, 0b000000, 0b000000, 0b000000, 0b000000],
     [0b000000, 0b111110, 0b000000, 0b000000, 0b000000, 0b000000, 0b000000, 0b000000, 0b000000, 0b000000, 0b000000, 0b000000]]"

definition profont :: "nat list list" where
  "profont =
     profont0 @ profont10 @ profont20 @ profont30 @ profont40 @ profont50 @
     profont60 @ profont70 @ profont80 @ profont90 @ profont100 @ profont110 @
     profont120 @ profont130 @ profont140 @ profont150 @ profont160 @ profont170 @
     profont180 @ profont190 @ profont200 @ profont210 @ profont220 @ profont230 @
     profont240 @ profont250"

text \<open>Whether a pixel of a character is set, as the screen driver asks.\<close>

definition k70Font :: font where
  "k70Font c y x = (profont ! c ! y div 2 ^ (5 - x) mod 2 \<noteq> 0)"

lemmas profont_tables = profont0_def profont10_def profont20_def profont30_def profont40_def profont50_def profont60_def profont70_def
  profont80_def profont90_def profont100_def profont110_def profont120_def profont130_def profont140_def profont150_def
  profont160_def profont170_def profont180_def profont190_def profont200_def profont210_def profont220_def profont230_def
  profont240_def profont250_def

subsection \<open>What the table holds\<close>

lemma profont_shape:
  "length profont = 256" "list_all (\<lambda>g. length g = 12 \<and> list_all (\<lambda>r. r < 2 ^ 6) g) profont"
  by (code_simp, code_simp)

text \<open>The printable characters of ASCII: no two are drawn alike, and each leaves its last column and its first row free.\<close>

definition printables :: "nat list list" where
  "printables = take 95 (drop 32 profont)"

lemma printables_distinct: "distinct printables"
  by code_simp

lemma printables_apart: "list_all (list_all (\<lambda>r. r mod 2 = 0)) printables"
  by code_simp

lemma row_bits:
  fixes r r' :: nat
  assumes "r < 2 ^ 6" "r' < 2 ^ 6" "\<And>x. x < 6 \<Longrightarrow> (r div 2 ^ (5 - x) mod 2 \<noteq> 0) = (r' div 2 ^ (5 - x) mod 2 \<noteq> 0)"
  shows "r = r'"
proof -
  have bits: "bit r i = bit r' i" if "i < 6" for i
    using assms(3) [of "5 - i"] that by (simp add: bit_iff_odd odd_iff_mod_2_eq_one)
  have "bit r i = bit r' i" for i
  proof (cases "i < 6")
    case False
    then have "(2 :: nat) ^ 6 \<le> 2 ^ i" by (intro power_increasing) simp_all
    then have "r < 2 ^ i" "r' < 2 ^ i" using assms(1,2) by linarith+
    then show ?thesis by (simp add: bit_iff_odd)
  qed (rule bits)
  then show ?thesis by (intro bit_eqI) simp
qed

lemma k70Font_inj:
  assumes "c \<in> {32..<127}" "d \<in> {32..<127}" "\<And>y x. y < 12 \<Longrightarrow> x < 6 \<Longrightarrow> k70Font c y x = k70Font d y x"
  shows "c = d"
proof -
  have shape: "length (profont ! e) = 12" "\<And>y. y < 12 \<Longrightarrow> profont ! e ! y < 2 ^ 6" if "e \<in> {32..<127}" for e
  proof -
    have "profont ! e \<in> set profont" using that profont_shape(1) by (intro nth_mem) simp
    then have "length (profont ! e) = 12 \<and> list_all (\<lambda>r. r < 2 ^ 6) (profont ! e)"
      using profont_shape(2) by (simp only: list_all_iff) blast
    then show "length (profont ! e) = 12" "\<And>y. y < 12 \<Longrightarrow> profont ! e ! y < 2 ^ 6" by (simp_all add: list_all_length)
  qed
  have "profont ! c = profont ! d"
  proof (rule nth_equalityI)
    show "length (profont ! c) = length (profont ! d)" using shape(1) assms(1,2) by simp
    fix y assume "y < length (profont ! c)"
    then have y: "y < 12" using shape(1) assms(1) by simp
    show "profont ! c ! y = profont ! d ! y"
      using assms(3) [OF y] shape(2) [OF _ y] assms(1,2) by (intro row_bits) (simp_all only: k70Font_def)
  qed
  moreover have "printables ! (e - 32) = profont ! e" if "e \<in> {32..<127}" for e
  proof -
    have "e - 32 < 95" "32 \<le> length profont" "32 + (e - 32) = e" using that profont_shape(1) by auto
    then show ?thesis by (simp only: printables_def nth_take nth_drop)
  qed
  ultimately have "printables ! (c - 32) = printables ! (d - 32)" using assms(1,2) by metis
  moreover have "c - 32 < length printables" "d - 32 < length printables"
    using assms(1,2) profont_shape(1) unfolding printables_def by auto
  ultimately have "c - 32 = d - 32" using printables_distinct nth_eq_iff_index_eq by blast
  then show ?thesis using assms(1,2) by auto
qed

subsection \<open>Properties\<close>



end
