(* ===== verification/ListHead.thy ===== *)
theory ListHead
  imports ManosPrelude
begin

text \<open>
  The intrusive doubly linked lists of \<open>include/manos/list.h\<close>, over an explicit store of links:
  every operation writes the \<open>prev\<close> and \<open>next\<close> fields in the order the code does, and follows
  pointers that may be \<open>NULL\<close>. \<open>ring\<close> is a circular list with a head; the operations are shown
  to act on rings as on sequences, and to leave every other ring alone.
\<close>

subsection \<open>The store and the operations\<close>

record 'n links =
  prv :: "'n \<Rightarrow> 'n option"
  nxt :: "'n \<Rightarrow> 'n option"

definition INIT_LIST_HEAD :: "'n \<Rightarrow> 'n links \<Rightarrow> 'n links" where
  "INIT_LIST_HEAD x l = l\<lparr>nxt := (nxt l)(x := Some x), prv := (prv l)(x := Some x)\<rparr>"

definition listAdd :: "'n \<Rightarrow> 'n \<Rightarrow> 'n \<Rightarrow> 'n links \<Rightarrow> 'n links" where
  "listAdd new p n l =
     (let l1 = l\<lparr>prv := (prv l)(n := Some new)\<rparr>;
          l2 = l1\<lparr>nxt := (nxt l1)(new := Some n)\<rparr>;
          l3 = l2\<lparr>prv := (prv l2)(new := Some p)\<rparr>
      in l3\<lparr>nxt := (nxt l3)(p := Some new)\<rparr>)"

definition listAddAfter :: "'n \<Rightarrow> 'n \<Rightarrow> 'n links \<Rightarrow> 'n links option" where
  "listAddAfter new head l = do { n \<leftarrow> nxt l head; Some (listAdd new head n l) }"

definition listAddBefore :: "'n \<Rightarrow> 'n \<Rightarrow> 'n links \<Rightarrow> 'n links option" where
  "listAddBefore new head l = do { p \<leftarrow> prv l head; Some (listAdd new p head l) }"

definition listUnlinkBetween :: "'n \<Rightarrow> 'n \<Rightarrow> 'n links \<Rightarrow> 'n links" where
  "listUnlinkBetween p n l =
     (let l1 = l\<lparr>prv := (prv l)(n := Some p)\<rparr> in l1\<lparr>nxt := (nxt l1)(p := Some n)\<rparr>)"

definition listUnlink :: "'n \<Rightarrow> 'n links \<Rightarrow> 'n links option" where
  "listUnlink x l =
     do { p \<leftarrow> prv l x; n \<leftarrow> nxt l x;
          let l1 = listUnlinkBetween p n l;
          Some (l1\<lparr>prv := (prv l1)(x := None), nxt := (nxt l1)(x := None)\<rparr>) }"

definition listUnlinkAndInit :: "'n \<Rightarrow> 'n links \<Rightarrow> 'n links option" where
  "listUnlinkAndInit x l =
     do { p \<leftarrow> prv l x; n \<leftarrow> nxt l x; Some (INIT_LIST_HEAD x (listUnlinkBetween p n l)) }"

definition listIsEmpty :: "'n \<Rightarrow> 'n links \<Rightarrow> bool" where
  "listIsEmpty head l \<longleftrightarrow> nxt l head = Some head"

subsection \<open>Rings\<close>

text \<open>\<open>seg l a xs b\<close>: from \<open>a\<close> the links run forward through \<open>xs\<close> to \<open>b\<close>, and back.\<close>

fun seg :: "'n links \<Rightarrow> 'n \<Rightarrow> 'n list \<Rightarrow> 'n \<Rightarrow> bool" where
  "seg l a [] b = (nxt l a = Some b \<and> prv l b = Some a)"
| "seg l a (x # xs) b = (nxt l a = Some x \<and> prv l x = Some a \<and> seg l x xs b)"

definition ring :: "'n links \<Rightarrow> 'n \<Rightarrow> 'n list \<Rightarrow> bool" where
  "ring l h xs \<longleftrightarrow> distinct (h # xs) \<and> seg l h xs h"

lemma seg_append: "seg l a (xs @ y # ys) b \<longleftrightarrow> seg l a xs y \<and> seg l y ys b"
  by (induction xs arbitrary: a) auto

lemma seg_last: "seg l a xs b \<Longrightarrow> prv l b = Some (last (a # xs))"
  by (induction xs arbitrary: a) auto

lemma seg_first: "seg l a xs b \<Longrightarrow> nxt l a = Some (hd (xs @ [b]))"
  by (cases xs) auto

text \<open>Only the \<open>next\<close> fields of the first nodes and the \<open>prev\<close> fields of the last ones matter.\<close>

lemma seg_cong:
  assumes "\<forall>x \<in> set (a # xs). nxt l' x = nxt l x" "\<forall>x \<in> set (xs @ [b]). prv l' x = prv l x"
  shows "seg l' a xs b = seg l a xs b"
  using assms by (induction xs arbitrary: a) auto

definition same_on :: "'n set \<Rightarrow> 'n links \<Rightarrow> 'n links \<Rightarrow> bool" where
  "same_on A l l' \<longleftrightarrow> (\<forall>x \<in> A. nxt l' x = nxt l x \<and> prv l' x = prv l x)"

lemma ring_same: "same_on (set (h # xs)) l l' \<Longrightarrow> ring l h xs \<Longrightarrow> ring l' h xs"
  unfolding ring_def same_on_def by (subst seg_cong [of h xs l' l h]) auto

lemma ring_nil: "ring l h [] \<longleftrightarrow> nxt l h = Some h \<and> prv l h = Some h"
  by (simp add: ring_def)

lemma ring_empty_iff: "ring l h xs \<Longrightarrow> listIsEmpty h l \<longleftrightarrow> xs = []"
  by (cases xs) (auto simp: ring_def listIsEmpty_def)

lemma ring_first: "ring l h (x # xs) \<Longrightarrow> nxt l h = Some x"
  by (simp add: ring_def)

lemma ring_next: "ring l h (ys @ x # zs) \<Longrightarrow> nxt l x = Some (hd (zs @ [h]))"
  by (auto simp: ring_def seg_append dest: seg_first)

lemma ring_prev: "ring l h (ys @ x # zs) \<Longrightarrow> prv l x = Some (last (h # ys))"
  by (auto simp: ring_def seg_append dest: seg_last)

lemma INIT_LIST_HEAD_ring: "ring (INIT_LIST_HEAD x l) x []" "same_on (- {x}) l (INIT_LIST_HEAD x l)"
  by (auto simp: ring_def INIT_LIST_HEAD_def same_on_def)

lemma listAdd_sel:
  "nxt (listAdd new p n l) x = (if x = p then Some new else if x = new then Some n else nxt l x)"
  "prv (listAdd new p n l) x = (if x = new then Some p else if x = n then Some new else prv l x)"
  by (auto simp: listAdd_def Let_def)

lemma listUnlinkBetween_sel:
  "nxt (listUnlinkBetween p n l) x = (if x = p then Some n else nxt l x)"
  "prv (listUnlinkBetween p n l) x = (if x = n then Some p else prv l x)"
  by (auto simp: listUnlinkBetween_def Let_def)

lemma listAdd_seg:
  assumes "seg l a (xs @ ys) b" "distinct (a # xs @ ys)" "b \<notin> set (xs @ ys)" "new \<notin> set (a # b # xs @ ys)"
  shows "seg (listAdd new (last (a # xs)) (hd (ys @ [b])) l) a (xs @ new # ys) b"
proof -
  let ?p = "last (a # xs)" and ?n = "hd (ys @ [b])"
  let ?l = "listAdd new ?p ?n l"
  note f = listAdd_sel
  have p: "?p \<in> set (a # xs)" using last_in_set [of "a # xs"] by simp
  have n: "?n \<in> set (ys @ [b])" by (cases ys) auto
  have left: "seg ?l a xs new"
  proof (cases xs rule: rev_cases)
    case Nil
    then show ?thesis using assms(4) by (simp add: f)
  next
    case (snoc zs z)
    have "seg l a zs z" using assms(1) snoc by (simp add: seg_append)
    moreover have "\<forall>x \<in> set (a # zs). x \<noteq> ?p \<and> x \<noteq> new" using assms(2,4) snoc by auto
    moreover have "\<forall>x \<in> set (zs @ [z]). x \<noteq> new \<and> x \<noteq> ?n" using assms(2,3,4) n snoc by auto
    ultimately have "seg ?l a zs z" by (subst seg_cong [of a zs ?l l z]) (auto simp: f)
    then show ?thesis using snoc by (simp add: seg_append f)
  qed
  have right: "seg ?l new ys b"
  proof (cases ys)
    case Nil
    then show ?thesis using assms(4) by (auto simp: f)
  next
    case (Cons y zs)
    have "seg l y zs b" using assms(1) Cons by (simp add: seg_append)
    moreover have "\<forall>x \<in> set (y # zs). x \<noteq> ?p \<and> x \<noteq> new" using assms(2,4) p Cons by auto
    moreover have "\<forall>x \<in> set (zs @ [b]). x \<noteq> new \<and> x \<noteq> ?n" using assms(2,3,4) Cons by auto
    ultimately have "seg ?l y zs b" by (subst seg_cong [of y zs ?l l b]) (auto simp: f)
    then show ?thesis using Cons assms(2,4) by (auto simp: f)
  qed
  show ?thesis using left right by (simp add: seg_append)
qed

lemma listAdd_same: "same_on (- {new, p, n}) l (listAdd new p n l)"
  by (auto simp: same_on_def listAdd_def Let_def)

lemma listAddAfter_ring:
  assumes "ring l h xs" "new \<notin> set (h # xs)"
  shows "\<exists>l'. listAddAfter new h l = Some l' \<and> ring l' h (new # xs) \<and> same_on (- set (new # h # xs)) l l'"
proof -
  have n: "nxt l h = Some (hd (xs @ [h]))" using assms(1) by (auto simp: ring_def dest: seg_first)
  have "seg (listAdd new h (hd (xs @ [h])) l) h (new # xs) h"
    using listAdd_seg [of l h "[]" xs h new] assms by (auto simp: ring_def)
  moreover have "hd (xs @ [h]) \<in> set (h # xs)" by (cases xs) auto
  ultimately show ?thesis using assms n listAdd_same [of new h "hd (xs @ [h])" l]
    by (auto simp: listAddAfter_def ring_def same_on_def)
qed

lemma listAddBefore_ring:
  assumes "ring l h xs" "new \<notin> set (h # xs)"
  shows "\<exists>l'. listAddBefore new h l = Some l' \<and> ring l' h (xs @ [new]) \<and> same_on (- set (new # h # xs)) l l'"
proof -
  have p: "prv l h = Some (last (h # xs))" using assms(1) seg_last [of l h xs h] by (simp add: ring_def)
  have "seg (listAdd new (last (h # xs)) h l) h (xs @ [new]) h"
    using listAdd_seg [of l h xs "[]" h new] assms by (auto simp: ring_def)
  moreover have "last (h # xs) \<in> set (h # xs)" by (rule last_in_set) simp
  ultimately show ?thesis using assms p listAdd_same [of new "last (h # xs)" h l]
    by (auto simp: listAddBefore_def ring_def same_on_def)
qed

lemma unlink_seg:
  assumes "seg l a (xs @ x # ys) b" "distinct (a # xs @ x # ys)" "b \<notin> set (xs @ x # ys)"
  shows "seg (listUnlinkBetween (last (a # xs)) (hd (ys @ [b])) l) a (xs @ ys) b"
proof -
  let ?p = "last (a # xs)" and ?n = "hd (ys @ [b])"
  let ?l = "listUnlinkBetween ?p ?n l"
  note f = listUnlinkBetween_sel
  have p: "?p \<in> set (a # xs)" using last_in_set [of "a # xs"] by simp
  have n: "?n \<in> set (ys @ [b])" by (cases ys) auto
  have left: "seg ?l a xs ?n"
  proof (cases xs rule: rev_cases)
    case Nil
    then show ?thesis by (simp add: f)
  next
    case (snoc zs z)
    have "seg l a zs z" using assms(1) snoc by (simp add: seg_append)
    moreover have "\<forall>y \<in> set (a # zs). y \<noteq> ?p" using assms(2) snoc by auto
    moreover have "\<forall>y \<in> set (zs @ [z]). y \<noteq> ?n" using assms(2,3) n snoc by auto
    ultimately have "seg ?l a zs z" by (subst seg_cong [of a zs ?l l z]) (auto simp: f)
    then show ?thesis using snoc by (simp add: seg_append f)
  qed
  show ?thesis
  proof (cases ys)
    case Nil
    then show ?thesis using left by simp
  next
    case (Cons y zs)
    have "seg l y zs b" using assms(1) Cons by (simp add: seg_append)
    moreover have "\<forall>x \<in> set (y # zs). x \<noteq> ?p" using assms(2) p Cons by auto
    moreover have "\<forall>x \<in> set (zs @ [b]). x \<noteq> ?n" using assms(2,3) Cons by auto
    ultimately have "seg ?l y zs b" by (subst seg_cong [of y zs ?l l b]) (auto simp: f)
    then show ?thesis using Cons left by (simp add: seg_append)
  qed
qed

lemma listUnlinkBetween_ring:
  assumes "ring l h (ys @ x # zs)"
  shows "ring (listUnlinkBetween (last (h # ys)) (hd (zs @ [h])) l) h (ys @ zs)"
    "same_on (- set (h # ys @ zs)) l (listUnlinkBetween (last (h # ys)) (hd (zs @ [h])) l)"
proof -
  show "ring (listUnlinkBetween (last (h # ys)) (hd (zs @ [h])) l) h (ys @ zs)"
    using unlink_seg [of l h ys x zs h] assms by (auto simp: ring_def)
  have "last (h # ys) \<in> set (h # ys)" "hd (zs @ [h]) \<in> set (zs @ [h])" by (rule last_in_set, simp) (cases zs, auto)
  then show "same_on (- set (h # ys @ zs)) l (listUnlinkBetween (last (h # ys)) (hd (zs @ [h])) l)"
    by (auto simp: same_on_def listUnlinkBetween_def Let_def)
qed

lemma listUnlink_ring:
  assumes "ring l h (ys @ x # zs)"
  shows "\<exists>l'. listUnlink x l = Some l' \<and> ring l' h (ys @ zs) \<and> nxt l' x = None \<and> prv l' x = None \<and>
           same_on (- set (h # ys @ x # zs)) l l'"
proof -
  let ?l = "listUnlinkBetween (last (h # ys)) (hd (zs @ [h])) l"
  let ?l' = "?l\<lparr>prv := (prv ?l)(x := None), nxt := (nxt ?l)(x := None)\<rparr>"
  have "x \<notin> set (h # ys @ zs)" using assms by (auto simp: ring_def)
  then have "same_on (set (h # ys @ zs)) ?l ?l'" by (auto simp: same_on_def)
  then have "ring ?l' h (ys @ zs)" using listUnlinkBetween_ring(1) [OF assms] by (rule ring_same)
  moreover have "same_on (- set (h # ys @ x # zs)) l ?l'"
    using listUnlinkBetween_ring(2) [OF assms] by (auto simp: same_on_def)
  moreover have "listUnlink x l = Some ?l'"
    by (simp add: listUnlink_def Let_def ring_next [OF assms] ring_prev [OF assms])
  ultimately show ?thesis by auto
qed

lemma listUnlinkAndInit_ring:
  assumes "ring l h (ys @ x # zs)"
  shows "\<exists>l'. listUnlinkAndInit x l = Some l' \<and> ring l' h (ys @ zs) \<and> ring l' x [] \<and>
           same_on (- set (h # ys @ x # zs)) l l'"
proof -
  let ?l = "listUnlinkBetween (last (h # ys)) (hd (zs @ [h])) l"
  have "x \<notin> set (h # ys @ zs)" using assms by (auto simp: ring_def)
  then have "same_on (set (h # ys @ zs)) ?l (INIT_LIST_HEAD x ?l)"
    using INIT_LIST_HEAD_ring(2) [of x ?l] by (auto simp: same_on_def)
  then have "ring (INIT_LIST_HEAD x ?l) h (ys @ zs)" using listUnlinkBetween_ring(1) [OF assms] by (rule ring_same)
  moreover have "same_on (- set (h # ys @ x # zs)) l (INIT_LIST_HEAD x ?l)"
    using listUnlinkBetween_ring(2) [OF assms] INIT_LIST_HEAD_ring(2) [of x ?l] by (auto simp: same_on_def)
  moreover have "listUnlinkAndInit x l = Some (INIT_LIST_HEAD x ?l)"
    by (simp add: listUnlinkAndInit_def ring_next [OF assms] ring_prev [OF assms])
  ultimately show ?thesis using INIT_LIST_HEAD_ring(1) [of x ?l] by blast
qed

text \<open>Unlinking a node that is only linked to itself leaves it so.\<close>

lemma listUnlinkAndInit_self:
  assumes "ring l x []"
  shows "\<exists>l'. listUnlinkAndInit x l = Some l' \<and> ring l' x [] \<and> same_on (- {x}) l l'"
  using assms by (auto simp: listUnlinkAndInit_def ring_def INIT_LIST_HEAD_def listUnlinkBetween_def Let_def same_on_def)

subsection \<open>The interface of a queue store\<close>

text \<open>
  What the process code relies on: a store holds sequences by their head, an element can be put
  at the end of one and taken out of the middle of one, and sequences that share no element
  with it are not disturbed.
\<close>

locale queue_store =
  fixes holds :: "'s \<Rightarrow> 'n \<Rightarrow> 'n list \<Rightarrow> bool"
    and enq :: "'n \<Rightarrow> 'n \<Rightarrow> 's \<Rightarrow> 's option"
    and remove :: "'n \<Rightarrow> 's \<Rightarrow> 's option"
    and same :: "'n set \<Rightarrow> 's \<Rightarrow> 's \<Rightarrow> bool"
  assumes holds_distinct: "holds s h xs \<Longrightarrow> distinct (h # xs)"
    and enq_holds: "holds s h xs \<Longrightarrow> x \<notin> set (h # xs) \<Longrightarrow>
      \<exists>s'. enq x h s = Some s' \<and> holds s' h (xs @ [x]) \<and> same (- set (x # h # xs)) s s'"
    and remove_holds: "holds s h (ys @ x # zs) \<Longrightarrow>
      \<exists>s'. remove x s = Some s' \<and> holds s' h (ys @ zs) \<and> same (- set (h # ys @ x # zs)) s s'"
    and same_holds: "same (set (h # xs)) s s' \<Longrightarrow> holds s h xs \<Longrightarrow> holds s' h xs"
    and same_mono: "same A s s' \<Longrightarrow> B \<subseteq> A \<Longrightarrow> same B s s'"
    and same_trans: "same A s s' \<Longrightarrow> same A s' s'' \<Longrightarrow> same A s s''"
begin

lemma other_enq:
  assumes "holds s h xs" "x \<notin> set (h # xs)" "holds s g ys" "set (g # ys) \<inter> set (x # h # xs) = {}"
  shows "\<exists>s'. enq x h s = Some s' \<and> holds s' h (xs @ [x]) \<and> holds s' g ys"
proof -
  obtain s' where s': "enq x h s = Some s'" "holds s' h (xs @ [x])" "same (- set (x # h # xs)) s s'"
    using enq_holds [OF assms(1,2)] by blast
  have "same (set (g # ys)) s s'" by (rule same_mono [OF s'(3)]) (simp only: assms(4) disjoint_eq_subset_Compl [symmetric])
  then show ?thesis using s' same_holds assms(3) by blast
qed

lemma other_remove:
  assumes "holds s h (ys @ x # zs)" "holds s g ws" "set (g # ws) \<inter> set (h # ys @ x # zs) = {}"
  shows "\<exists>s'. remove x s = Some s' \<and> holds s' h (ys @ zs) \<and> holds s' g ws"
proof -
  obtain s' where s': "remove x s = Some s'" "holds s' h (ys @ zs)" "same (- set (h # ys @ x # zs)) s s'"
    using remove_holds [OF assms(1)] by blast
  have "same (set (g # ws)) s s'" by (rule same_mono [OF s'(3)]) (simp only: assms(3) disjoint_eq_subset_Compl [symmetric])
  then show ?thesis using s' same_holds assms(2) by blast
qed

text \<open>Taking an element out and putting it back is moving it to the end.\<close>

lemma requeue:
  assumes "holds s h (ys @ x # zs)"
  shows "\<exists>s1 s2. remove x s = Some s1 \<and> enq x h s1 = Some s2 \<and> holds s2 h (ys @ zs @ [x]) \<and>
           same (- set (h # ys @ x # zs)) s s2"
proof -
  obtain s1 where s1: "remove x s = Some s1" "holds s1 h (ys @ zs)" "same (- set (h # ys @ x # zs)) s s1"
    using remove_holds [OF assms] by blast
  have "x \<notin> set (h # ys @ zs)" using holds_distinct [OF assms] by auto
  then obtain s2 where s2: "enq x h s1 = Some s2" "holds s2 h ((ys @ zs) @ [x])" "same (- set (x # h # ys @ zs)) s1 s2"
    using enq_holds [OF s1(2)] by blast
  have eq: "- set (x # h # ys @ zs) = - set (h # ys @ x # zs)" by auto
  have "same (- set (h # ys @ x # zs)) s s2" by (rule same_trans [OF s1(3) s2(3) [unfolded eq]])
  then show ?thesis using s1(1) s2(1,2) by auto
qed

end

interpretation lh: queue_store ring listAddBefore listUnlinkAndInit same_on
proof
  show "distinct (h # xs)" if "ring s h xs" for s h and xs :: "'n list" using that by (simp add: ring_def)
  show "\<exists>s'. listAddBefore x h s = Some s' \<and> ring s' h (xs @ [x]) \<and> same_on (- set (x # h # xs)) s s'"
    if "ring s h xs" "x \<notin> set (h # xs)" for s h xs and x :: 'n
    by (rule listAddBefore_ring [OF that])
  show "\<exists>s'. listUnlinkAndInit x s = Some s' \<and> ring s' h (ys @ zs) \<and> same_on (- set (h # ys @ x # zs)) s s'"
    if "ring s h (ys @ x # zs)" for s h ys zs and x :: 'n
    using listUnlinkAndInit_ring [OF that] by blast
  show "ring s' h xs" if "same_on (set (h # xs)) s s'" "ring s h xs" for s s' h and xs :: "'n list"
    by (rule ring_same [OF that])
  show "same_on B s s'" if "same_on A s s'" "B \<subseteq> A" for s s' :: "'n links" and A B
    using that unfolding same_on_def by blast
  show "same_on A s s''" if "same_on A s s'" "same_on A s' s''" for s s' s'' :: "'n links" and A
    using that unfolding same_on_def by simp
qed

end
