(* ===== verification/LockRef.thy ===== *)
theory LockRef
  imports ManosPrelude
begin

text \<open>
  Locks and reference counts (\<open>src/src/ipc\<close>). The running process \<open>rp\<close> is \<open>None\<close> while the
  kernel boots; its identifier is -1 while the scheduler looks for a process. Inside a critical
  region interrupts are off, so each region is one step; \<open>lock_step\<close> interleaves the regions of
  several processes. The wait queue of a lock is not used by the code.
\<close>

subsection \<open>The operations\<close>

record Lock =
  locked :: u32
  lpid :: int
  lcount :: int

definition initLock :: Lock where
  "initLock = \<lparr>locked = 0, lpid = -1, lcount = 0\<rparr>"

text \<open>Whether the caller is not a process yet, so that locking is skipped.\<close>

definition unscheduled :: "int option \<Rightarrow> bool" where
  "unscheduled rp \<longleftrightarrow> (case rp of None \<Rightarrow> True | Some pid \<Rightarrow> pid = -1)"

definition systrylock :: "int option \<Rightarrow> Lock \<Rightarrow> bool \<times> Lock" where
  "systrylock rp l =
     (if unscheduled rp then (True, l)
      else if locked l = 0 then (True, l\<lparr>locked := 1, lcount := lcount l + 1, lpid := the rp\<rparr>)
      else (False, l))"

text \<open>One test of the loop of \<open>syslock\<close>: \<open>Inl\<close> when it yields and tests again.\<close>

definition syslockTest :: "int option \<Rightarrow> Lock \<Rightarrow> unit + Lock" where
  "syslockTest rp l =
     (if unscheduled rp then Inr l
      else if locked l \<noteq> 0 then Inl ()
      else Inr (l\<lparr>lcount := lcount l + 1, locked := 1, lpid := the rp\<rparr>))"

text \<open>
  \<open>syslock\<close> of a caller that is not interleaved with others: \<open>dead\<close> is whether the process is
  dead, which the assertion excludes; a lock that is held is waited for without end.
\<close>

definition syslock :: "int option \<Rightarrow> bool \<Rightarrow> Lock \<Rightarrow> Lock option" where
  "syslock rp dead l =
     (if \<not> unscheduled rp \<and> dead then None
      else case syslockTest rp l of Inl _ \<Rightarrow> None | Inr l' \<Rightarrow> Some l')"

definition sysunlock :: "int option \<Rightarrow> Lock \<Rightarrow> Lock" where
  "sysunlock rp l =
     (if unscheduled rp then l else l\<lparr>locked := 0, lpid := -1, lcount := lcount l - 1\<rparr>)"

record Ref =
  rcount :: int
  rlock :: Lock

definition initRef :: Ref where
  "initRef = \<lparr>rcount = 0, rlock = initLock\<rparr>"

definition getReg :: "int option \<Rightarrow> bool \<Rightarrow> Ref \<Rightarrow> (int \<times> Ref) option" where
  "getReg rp dead ref =
     do { l \<leftarrow> syslock rp dead (rlock ref); Some (rcount ref, ref\<lparr>rlock := sysunlock rp l\<rparr>) }"

definition incRef :: "int option \<Rightarrow> bool \<Rightarrow> Ref \<Rightarrow> (int \<times> Ref) option" where
  "incRef rp dead ref =
     do { l \<leftarrow> syslock rp dead (rlock ref);
          x \<leftarrow> cint (rcount ref + 1);
          Some (x, ref\<lparr>rcount := x, rlock := sysunlock rp l\<rparr>) }"

definition decRef :: "int option \<Rightarrow> bool \<Rightarrow> Ref \<Rightarrow> (int \<times> Ref) option" where
  "decRef rp dead ref =
     do { l \<leftarrow> syslock rp dead (rlock ref);
          x \<leftarrow> cint (rcount ref - 1);
          Some (x, ref\<lparr>rcount := x, rlock := sysunlock rp l\<rparr>) }"

subsection \<open>Interleaved processes\<close>

text \<open>
  A process is outside, waiting in \<open>syslock\<close>, or inside its section. \<open>disciplined\<close> steps unlock
  only from inside; the code does not check this, so \<open>Unlock\<close> may be taken by any process.
\<close>

datatype phase = Outside | Waiting | Inside

datatype lock_event = Lock int | Retry int | TryLock int | Unlock int

inductive lock_step :: "Lock \<times> (int \<Rightarrow> phase) \<Rightarrow> lock_event \<Rightarrow> Lock \<times> (int \<Rightarrow> phase) \<Rightarrow> bool" where
  acquire: "0 \<le> p \<Longrightarrow> ph p = Outside \<Longrightarrow> syslockTest (Some p) l = Inr l' \<Longrightarrow>
    lock_step (l, ph) (Lock p) (l', ph(p := Inside))"
| wait: "0 \<le> p \<Longrightarrow> ph p = Outside \<Longrightarrow> syslockTest (Some p) l = Inl u \<Longrightarrow>
    lock_step (l, ph) (Lock p) (l, ph(p := Waiting))"
| retry: "0 \<le> p \<Longrightarrow> ph p = Waiting \<Longrightarrow> syslockTest (Some p) l = Inr l' \<Longrightarrow>
    lock_step (l, ph) (Retry p) (l', ph(p := Inside))"
| trylock: "0 \<le> p \<Longrightarrow> ph p = Outside \<Longrightarrow> systrylock (Some p) l = (got, l') \<Longrightarrow>
    lock_step (l, ph) (TryLock p) (l', ph(p := if got then Inside else Outside))"
| unlock: "0 \<le> p \<Longrightarrow> ph p \<noteq> Waiting \<Longrightarrow>
    lock_step (l, ph) (Unlock p) (sysunlock (Some p) l, ph(p := Outside))"

definition disciplined :: "Lock \<times> (int \<Rightarrow> phase) \<Rightarrow> lock_event \<Rightarrow> bool" where
  "disciplined s e \<longleftrightarrow> (\<forall>p. e = Unlock p \<longrightarrow> snd s p = Inside)"

inductive lock_reach :: "Lock \<times> (int \<Rightarrow> phase) \<Rightarrow> bool" where
  start: "lock_reach (initLock, \<lambda>_. Outside)"
| step: "lock_reach s \<Longrightarrow> disciplined s e \<Longrightarrow> lock_step s e s' \<Longrightarrow> lock_reach s'"

inductive_cases lock_stepE: "lock_step s e s'"

definition holder_inv :: "Lock \<times> (int \<Rightarrow> phase) \<Rightarrow> bool" where
  "holder_inv s \<longleftrightarrow>
     (if locked (fst s) = 0 then lcount (fst s) = 0 \<and> lpid (fst s) = -1 \<and> (\<forall>p. snd s p \<noteq> Inside)
      else lcount (fst s) = 1 \<and> snd s (lpid (fst s)) = Inside \<and> (\<forall>p. snd s p = Inside \<longrightarrow> p = lpid (fst s)))"

text \<open>What a region does to the lock, and that the invariant survives taking and releasing it.\<close>

lemma lock_taken:
  "0 \<le> p \<Longrightarrow> syslockTest (Some p) l = Inr l' \<longleftrightarrow> locked l = 0 \<and> l' = l\<lparr>lcount := lcount l + 1, locked := 1, lpid := p\<rparr>"
  "0 \<le> p \<Longrightarrow> systrylock (Some p) l = (got, l') \<longleftrightarrow>
     (if locked l = 0 then got \<and> l' = l\<lparr>lcount := lcount l + 1, locked := 1, lpid := p\<rparr> else \<not> got \<and> l' = l)"
  by (auto simp: syslockTest_def systrylock_def unscheduled_def)

lemma holder_inv_take:
  "holder_inv (l, ph) \<Longrightarrow> locked l = 0 \<Longrightarrow>
   holder_inv (l\<lparr>lcount := lcount l + 1, locked := 1, lpid := p\<rparr>, ph(p := Inside))"
  by (auto simp: holder_inv_def)

lemma holder_inv_idle:
  "holder_inv (l, ph) \<Longrightarrow> ph p \<noteq> Inside \<Longrightarrow> x \<noteq> Inside \<Longrightarrow> holder_inv (l, ph(p := x))"
  by (auto simp: holder_inv_def split: if_splits)

lemma holder_inv_release:
  assumes "holder_inv (l, ph)" "ph p = Inside" "0 \<le> p"
  shows "holder_inv (sysunlock (Some p) l, ph(p := Outside))"
  using assms by (auto simp: holder_inv_def sysunlock_def unscheduled_def split: if_splits)

lemma holder_inv_step:
  assumes "lock_step s e s'" "holder_inv s" "disciplined s e"
  shows "holder_inv s'"
  using assms(1)
proof (cases rule: lock_step.cases)
  case (acquire p ph l l')
  then show ?thesis using assms(2) by (simp add: lock_taken holder_inv_take)
next
  case (wait p ph l u)
  then show ?thesis using assms(2) by (simp add: holder_inv_idle)
next
  case (retry p ph l l')
  then show ?thesis using assms(2) by (simp add: lock_taken holder_inv_take)
next
  case (trylock p ph l got l')
  then show ?thesis using assms(2)
    by (cases "locked l = 0") (simp_all add: lock_taken holder_inv_take holder_inv_idle)
next
  case (unlock p ph l)
  then show ?thesis using assms(2,3) by (simp add: disciplined_def holder_inv_release)
qed

lemma lock_reach_inv: "lock_reach s \<Longrightarrow> holder_inv s"
proof (induction rule: lock_reach.induct)
  case start
  show ?case by (simp add: holder_inv_def initLock_def)
next
  case (step s e s')
  then show ?case by (blast intro: holder_inv_step)
qed

subsection \<open>Properties\<close>

text \<open>
  C18: mutual exclusion: in every state reachable by interleaving the critical regions of
  processes that unlock only what they hold, at most one process is inside its locked section,
  and when one is, the lock is marked, names that process and counts one.
\<close>

theorem lock_mutual_exclusion:
  assumes "lock_reach (l, ph)" and "ph p = Inside"
  shows "locked l \<noteq> 0 \<and> lpid l = p \<and> lcount l = 1 \<and> (\<forall>q. ph q = Inside \<longrightarrow> q = p)"
  using lock_reach_inv [OF assms(1)] assms(2) by (auto simp: holder_inv_def split: if_splits)

lemma reach_one: "lock_reach (initLock\<lparr>lcount := 1, locked := 1, lpid := 3\<rparr>, (\<lambda>_. Outside)(3 := Inside))"
proof (rule lock_reach.step [OF lock_reach.start])
  show "lock_step (initLock, \<lambda>_. Outside) (Lock 3)
      (initLock\<lparr>lcount := 1, locked := 1, lpid := 3\<rparr>, (\<lambda>_. Outside)(3 := Inside))"
    by (rule lock_step.acquire) (simp_all add: syslockTest_def unscheduled_def initLock_def)
qed (simp add: disciplined_def)

theorem lock_mutual_exclusion_witness:
  "lpid (initLock\<lparr>lcount := 1, locked := 1, lpid := 3\<rparr>) = 3 \<and>
   lock_reach (initLock\<lparr>lcount := 1, locked := 1, lpid := 3\<rparr>, (\<lambda>_. Outside)(3 := Inside))"
  using lock_mutual_exclusion [OF reach_one, of 3] reach_one by simp

text \<open>
  The discipline is not enforced: \<open>sysunlock\<close> by a process that does not hold the lock
  releases it, so that, while the holder is still inside, the next \<open>syslock\<close> or \<open>systrylock\<close> of
  another process succeeds.
\<close>

theorem sysunlock_ignores_owner:
  assumes "p \<noteq> -1" and "q \<noteq> -1" and "locked l \<noteq> 0" and "lpid l = h"
  shows "fst (systrylock (Some p) l) = False \<and> fst (systrylock (Some p) (sysunlock (Some q) l)) = True \<and>
         syslock (Some p) False (sysunlock (Some q) l) = Some (l\<lparr>locked := 1, lpid := p\<rparr>)"
  using assms by (simp add: systrylock_def sysunlock_def syslock_def syslockTest_def unscheduled_def)

theorem sysunlock_ignores_owner_witness:
  "fst (systrylock (Some 2) (sysunlock (Some 5) (initLock\<lparr>lcount := 1, locked := 1, lpid := 3\<rparr>))) = True"
  using sysunlock_ignores_owner [of 2 5 "initLock\<lparr>lcount := 1, locked := 1, lpid := 3\<rparr>" 3] by simp

end
