(* ===== verification/ProcSched.thy ===== *)
theory ProcSched
  imports ListHead LockRef Fmt
begin

text \<open>
  Processes and the scheduler (\<open>src/src/process\<close>, \<open>src/src/sys/schedule.c\<close>,
  \<open>src/src/sys/postsignal.c\<close>). The processes are the slots of the array \<open>main\<close> allocates; slot
  127 is \<open>badProc\<close>. The list heads inside a process, and the two global heads, are the nodes of
  the link store of \<open>ListHead\<close>.
\<close>

subsection \<open>State\<close>

datatype node = RunHead | FreeHead | WaitQ nat | NextWaitQ nat | NextRunQ nat | NextFree nat

datatype ProcState = ProcDead | ProcSpawning | ProcReady | ProcRunning | ProcWaiting | ProcStopped

abbreviation "SigAbort \<equiv> (0x00000001 :: u32)"
abbreviation "SigContinue \<equiv> (0x00000002 :: u32)"
abbreviation "SigStop \<equiv> (0x00000004 :: u32)"
abbreviation "SigAlarm \<equiv> (0x00000008 :: u32)"

abbreviation "MANOS_MAXPROC \<equiv> (127 :: nat)"
abbreviation "MANOS_MAXFD \<equiv> (1024 :: nat)"
abbreviation "MANOS_ARCH_K70_STACK_SIZE \<equiv> (0x8000 :: u32)"

text \<open>\<open>fds\<close> is the descriptor table, and \<open>pslash\<close> and \<open>pdot\<close> the fields \<open>slash\<close> and \<open>dot\<close>, of portals by their address; \<open>stack\<close> is \<open>None\<close> for \<open>NULL\<close>; \<open>pargv\<close> is the field \<open>argv\<close>.\<close>

record Proc =
  pid :: int
  ppid :: int
  tty :: int
  state :: ProcState
  fds :: "nat \<Rightarrow> nat option"
  pslash :: "nat option"
  pdot :: "nat option"
  pgrp :: "nat option"
  canary1 :: u64
  canary2 :: u64
  stack :: "u32 option"
  sp :: u32
  sigPending :: u32
  sigMask :: u32
  pargv :: u32

record ProcGroup =
  memberCount :: Ref
  pgid :: int

text \<open>
  The kernel: \<open>freed\<close> lists the portals given back to the allocator, \<open>console\<close> the messages
  written for processes, with the portal they are written to.
\<close>

record Kern =
  links :: "node links"
  procs :: "nat \<Rightarrow> Proc"
  procTable :: "nat \<Rightarrow> nat option"
  rp :: "nat option"
  nextPid :: Ref
  freelistLock :: Lock
  runQLock :: Lock
  pgrps :: "nat \<Rightarrow> ProcGroup option"
  freed :: "nat list"
  console :: "(nat \<times> string) list"

abbreviation "badProc \<equiv> MANOS_MAXPROC"

definition upd :: "nat \<Rightarrow> (Proc \<Rightarrow> Proc) \<Rightarrow> Kern \<Rightarrow> Kern" where
  "upd s f k = k\<lparr>procs := (procs k)(s := f (procs k s))\<rparr>"

definition getpid :: "Kern \<Rightarrow> int" where
  "getpid k = (case rp k of None \<Rightarrow> 0 | Some r \<Rightarrow> pid (procs k r))"

text \<open>What the locks look at: the identifier of the running process, and whether it is dead.\<close>

definition rpid :: "Kern \<Rightarrow> int option" where
  "rpid k = map_option (\<lambda>r. pid (procs k r)) (rp k)"

definition rpdead :: "Kern \<Rightarrow> bool" where
  "rpdead k = (case rp k of None \<Rightarrow> False | Some r \<Rightarrow> state (procs k r) = ProcDead)"

text \<open>\<open>procTable[pid]\<close>: the identifier is not checked, and the table has 127 entries.\<close>

definition tableAt :: "Kern \<Rightarrow> int \<Rightarrow> nat option option" where
  "tableAt k p = (if 0 \<le> p \<and> p < int MANOS_MAXPROC then Some (procTable k (nat p)) else None)"

subsection \<open>Iterating over a list\<close>

text \<open>
  \<open>LIST_FOR_EACH_ENTRY_SAFE\<close> over the nodes of the member: the cursor and the saved next node,
  \<open>None\<close> for \<open>NULL\<close>. The body tells whether to leave the loop. Following a \<open>NULL\<close> link yields a
  pointer into nowhere, which the model has no value for.
\<close>

partial_function (option) eachSafe ::
  "node \<Rightarrow> (node \<Rightarrow> Kern \<Rightarrow> (bool \<times> Kern) option) \<Rightarrow> node option \<Rightarrow> node option \<Rightarrow> Kern \<Rightarrow> (node option \<times> Kern) option" where
  "eachSafe head body pos x k =
     (case pos of
        None \<Rightarrow> Some (None, k)
      | Some n \<Rightarrow>
          if n = head then Some (None, k)
          else do {
            (brk, k') \<leftarrow> body n k;
            if brk then Some (Some n, k')
            else do {
              m \<leftarrow> x;
              x' \<leftarrow> (if m = head then Some None else do { y \<leftarrow> nxt (links k') m; Some (Some y) });
              eachSafe head body (Some m) x' k'
            }
          })"

definition forEachSafe ::
  "node \<Rightarrow> (node \<Rightarrow> Kern \<Rightarrow> (bool \<times> Kern) option) \<Rightarrow> Kern \<Rightarrow> (node option \<times> Kern) option" where
  "forEachSafe head body k =
     (if listIsEmpty head (links k) then eachSafe head body None None k
      else do {
        n \<leftarrow> nxt (links k) head;
        m \<leftarrow> nxt (links k) n;
        eachSafe head body (Some n) (Some m) k
      })"

subsection \<open>Waiting\<close>

definition setLinks :: "node links \<Rightarrow> Kern \<Rightarrow> Kern" where
  "setLinks l k = k\<lparr>links := l\<rparr>"

definition wakeWaiting :: "nat \<Rightarrow> Kern \<Rightarrow> Kern option" where
  "wakeWaiting p k =
     do {
       (_, k') \<leftarrow> forEachSafe (WaitQ p)
         (\<lambda>n k. case n of
            NextWaitQ w \<Rightarrow>
              do { l \<leftarrow> listUnlinkAndInit n (links k);
                   Some (False, upd w (\<lambda>q. q\<lparr>state := ProcReady\<rparr>) (setLinks l k)) }
          | _ \<Rightarrow> None) k;
       Some k'
     }"

definition syswaitpid :: "int \<Rightarrow> Kern \<Rightarrow> Kern option" where
  "syswaitpid p k =
     (if p < 0 \<or> int MANOS_MAXPROC < p then Some k
      else do {
        slot \<leftarrow> tableAt k p;
        r \<leftarrow> rp k;
        if \<not> listIsEmpty (NextWaitQ r) (links k) then None
        else do {
          s \<leftarrow> slot;
          l \<leftarrow> listAddAfter (NextWaitQ r) (WaitQ s) (links k);
          Some (upd r (\<lambda>q. q\<lparr>state := ProcWaiting\<rparr>) (setLinks l k))
        }
      })"

subsection \<open>Process groups\<close>

text \<open>The block for a new group is the allocator's, an unused number, or \<open>None\<close>.\<close>

definition newProcGroup :: "nat option \<Rightarrow> int \<Rightarrow> Kern \<Rightarrow> (nat \<times> Kern) option" where
  "newProcGroup blk g k =
     do {
       b \<leftarrow> blk;
       (_, ref) \<leftarrow> incRef (rpid k) (rpdead k) initRef;
       Some (b, k\<lparr>pgrps := (pgrps k)(b \<mapsto> \<lparr>memberCount = ref, pgid = g\<rparr>)\<rparr>)
     }"

definition leaveProcGroup :: "nat option \<Rightarrow> Kern \<Rightarrow> Kern option" where
  "leaveProcGroup g k =
     do {
       b \<leftarrow> g;
       grp \<leftarrow> pgrps k b;
       (n, ref) \<leftarrow> decRef (rpid k) (rpdead k) (memberCount grp);
       Some (k\<lparr>pgrps := (if n = 0 then (pgrps k)(b := None)
                         else (pgrps k)(b \<mapsto> grp\<lparr>memberCount := ref\<rparr>))\<rparr>)
     }"

definition joinProcGroup :: "nat \<Rightarrow> nat \<Rightarrow> Kern \<Rightarrow> Kern option" where
  "joinProcGroup g s k =
     do {
       k1 \<leftarrow> leaveProcGroup (pgrp (procs k s)) k;
       grp \<leftarrow> pgrps k1 g;
       (_, ref) \<leftarrow> incRef (rpid k1) (rpdead k1) (memberCount grp);
       Some (upd s (\<lambda>q. q\<lparr>pgrp := Some g\<rparr>) (k1\<lparr>pgrps := (pgrps k1)(g \<mapsto> grp\<lparr>memberCount := ref\<rparr>)\<rparr>))
     }"

subsection \<open>Ending and starting a process\<close>

definition openPortals :: "Proc \<Rightarrow> nat list" where
  "openPortals p = List.map_filter (fds p) [0 ..< MANOS_MAXFD]"

definition abortProc :: "nat \<Rightarrow> Kern \<Rightarrow> Kern option" where
  "abortProc s k =
     do {
       k1 \<leftarrow> wakeWaiting s k;
       l \<leftarrow> listUnlinkAndInit (NextWaitQ s) (links k1);
       Some ((setLinks l k1)\<lparr>freed := freed k1 @ openPortals (procs k1 s)\<rparr>)
     }"

definition recycleProc :: "nat \<Rightarrow> Kern \<Rightarrow> Kern option" where
  "recycleProc s k =
     (let k1 = upd s (\<lambda>q. q\<lparr>state := ProcDead, fds := \<lambda>_. None\<rparr>) k;
          l = INIT_LIST_HEAD (NextFree s) (INIT_LIST_HEAD (NextRunQ s)
                (INIT_LIST_HEAD (NextWaitQ s) (INIT_LIST_HEAD (WaitQ s) (links k1))));
          k2 = upd s (\<lambda>q. q\<lparr>sigPending := 0, sigMask := 0\<rparr>) (setLinks l k1)
      in do {
        k3 \<leftarrow> leaveProcGroup (pgrp (procs k2 s)) k2;
        let k4 = upd s (\<lambda>q. q\<lparr>pgrp := None, ppid := 0, sp := 0\<rparr>) k3;
        lk \<leftarrow> syslock (rpid k4) (rpdead k4) (freelistLock k4);
        l' \<leftarrow> listAddBefore (NextFree s) FreeHead (links k4);
        _ \<leftarrow> tableAt k4 (pid (procs k4 s));
        Some ((setLinks l' k4)\<lparr>procTable := (procTable k4)(nat (pid (procs k4 s)) := None),
                               freelistLock := sysunlock (rpid k4) lk\<rparr>)
      })"

abbreviation "canary \<equiv> (0xdecade0fc0ffecab :: u64)"

text \<open>
  The arguments are the blocks the allocator returns for a stack and for the group. An empty
  free list is waited on without end; the assertions abort.
\<close>

definition newProc :: "u32 option \<Rightarrow> nat option \<Rightarrow> Kern \<Rightarrow> (nat \<times> Kern) option" where
  "newProc stk grp k =
     do {
       lk \<leftarrow> syslock (rpid k) (rpdead k) (freelistLock k);
       if listIsEmpty FreeHead (links k) then None
       else do {
         n \<leftarrow> nxt (links k) FreeHead;
         s \<leftarrow> (case n of NextFree s \<Rightarrow> Some s | _ \<Rightarrow> None);
         l \<leftarrow> listUnlink n (links k);
         let k1 = (setLinks l k)\<lparr>freelistLock := sysunlock (rpid k) lk\<rparr>;
         let l1 = INIT_LIST_HEAD (NextFree s) (INIT_LIST_HEAD (NextRunQ s)
                    (INIT_LIST_HEAD (NextWaitQ s) (INIT_LIST_HEAD (WaitQ s) (links k1))));
         let k2 = upd s (\<lambda>q. q\<lparr>state := ProcSpawning\<rparr>) (setLinks l1 k1);
         k3 \<leftarrow> (if pid (procs k2 s) = 0
                then do { (i, ref) \<leftarrow> incRef (rpid k2) (rpdead k2) (nextPid k2);
                          Some (upd s (\<lambda>q. q\<lparr>pid := i\<rparr>) (k2\<lparr>nextPid := ref\<rparr>)) }
                else Some k2);
         if pid (procs k3 s) = 0 then None
         else do {
           k4 \<leftarrow> (if stack (procs k3 s) = None
                  then do { b \<leftarrow> stk;
                            Some (upd s (\<lambda>q. q\<lparr>canary1 := canary, canary2 := canary, stack := Some (b + 8)\<rparr>) k3) }
                  else Some k3);
           (g, k5) \<leftarrow> newProcGroup grp (pid (procs k4 s)) k4;
           let k6 = upd s (\<lambda>q. q\<lparr>pgrp := Some g, ppid := getpid k5, sigPending := 0, sigMask := 0\<rparr>) k5;
           old \<leftarrow> tableAt k6 (pid (procs k6 s));
           if old \<noteq> None then None
           else Some (s, k6\<lparr>procTable := (procTable k6)(nat (pid (procs k6 s)) \<mapsto> s)\<rparr>)
         }
       }
     }"

subsection \<open>Signals\<close>

text \<open>The masks return the old mask; the running process must exist.\<close>

definition setSignalMask :: "u32 \<Rightarrow> Kern \<Rightarrow> (u32 \<times> Kern) option" where
  "setSignalMask m k =
     do { r \<leftarrow> rp k; Some (sigMask (procs k r), upd r (\<lambda>q. q\<lparr>sigMask := m\<rparr>) k) }"

definition setSignalBlock :: "u32 \<Rightarrow> Kern \<Rightarrow> (u32 \<times> Kern) option" where
  "setSignalBlock m k =
     do { r \<leftarrow> rp k; Some (sigMask (procs k r), upd r (\<lambda>q. q\<lparr>sigMask := sigMask q OR m\<rparr>) k) }"

definition setSignalUnblock :: "u32 \<Rightarrow> Kern \<Rightarrow> (u32 \<times> Kern) option" where
  "setSignalUnblock m k =
     do { r \<leftarrow> rp k;
          Some (sigMask (procs k r), upd r (\<lambda>q. q\<lparr>sigMask := sigMask q OR (sigMask q AND NOT m)\<rparr>) k) }"

definition syspostsignal :: "int \<Rightarrow> u32 \<Rightarrow> Kern \<Rightarrow> Kern option" where
  "syspostsignal p signal k =
     (if p < 0 \<or> int MANOS_MAXPROC < p then Some k
      else do {
        slot \<leftarrow> tableAt k p;
        s \<leftarrow> slot;
        Some (upd s (\<lambda>q. q\<lparr>sigPending := sigPending q OR (signal AND NOT (sigMask q))\<rparr>) k)
      })"

text \<open>
  A message to the terminal of the running process; without an open descriptor the write
  fails and its result is not looked at.
\<close>

definition ttyMessage :: "string \<Rightarrow> int \<Rightarrow> Kern \<Rightarrow> Kern option" where
  "ttyMessage fmt p k =
     do {
       r \<leftarrow> rp k;
       (len, buf) \<leftarrow> fmtSnprintf (replicate 32 NUL) 32 fmt [UIntArg (of_int p)];
       let t = tty (procs k r);
       if t < 0 \<or> int MANOS_MAXFD \<le> t then None
       else (case fds (procs k r) (nat t) of
               None \<Rightarrow> Some k
             | Some portal \<Rightarrow> Some (k\<lparr>console := console k @ [(portal, take len buf)]\<rparr>))
     }"

definition processSignals :: "nat \<Rightarrow> Kern \<Rightarrow> Kern option" where
  "processSignals s k =
     (let pending = sigPending (procs k s) in
      do {
        k1 \<leftarrow> (if pending AND SigAbort \<noteq> 0 then
                 do {
                   k1 \<leftarrow> ttyMessage ([CHR 0x0A] @ ''Killed [%d]'' @ [CHR 0x0A]) (pid (procs k s)) k;
                   k2 \<leftarrow> wakeWaiting s k1;
                   Some (upd s (\<lambda>q. q\<lparr>state := ProcDead\<rparr>) (k2\<lparr>freed := freed k2 @ openPortals (procs k2 s)\<rparr>))
                 }
               else if pending AND SigStop \<noteq> 0 then
                 do {
                   k1 \<leftarrow> ttyMessage ([CHR 0x0A] @ ''Stopped [%d]'' @ [CHR 0x0A]) (pid (procs k s)) k;
                   k2 \<leftarrow> wakeWaiting s k1;
                   Some (upd s (\<lambda>q. q\<lparr>state := ProcStopped\<rparr>) (setLinks (INIT_LIST_HEAD (WaitQ s) (links k2)) k2))
                 }
               else if pending AND SigContinue \<noteq> 0 then
                 do {
                   let k1 = upd s (\<lambda>q. q\<lparr>state := ProcReady\<rparr>) k;
                   slot \<leftarrow> tableAt k1 (ppid (procs k1 s));
                   q \<leftarrow> slot;
                   l \<leftarrow> listAddAfter (NextWaitQ q) (WaitQ s) (links k1);
                   Some (upd q (\<lambda>x. x\<lparr>state := ProcWaiting\<rparr>) (setLinks l k1))
                 }
               else if pending AND SigAlarm \<noteq> 0 then Some (upd s (\<lambda>q. q\<lparr>state := ProcReady\<rparr>) k)
               else Some k);
        Some (upd s (\<lambda>q. q\<lparr>sigPending := 0\<rparr>) k1)
      })"

subsection \<open>The scheduler\<close>

definition nextRunnableBody :: "node \<Rightarrow> Kern \<Rightarrow> (bool \<times> Kern) option" where
  "nextRunnableBody n k =
     (case n of
        NextRunQ s \<Rightarrow>
          if state (procs k s) = ProcDead then
            do { l \<leftarrow> listUnlink n (links k); k' \<leftarrow> recycleProc s (setLinks l k); Some (False, k') }
          else
            do {
              k1 \<leftarrow> processSignals s k;
              if state (procs k1 s) = ProcReady
              then do { l \<leftarrow> listUnlinkAndInit n (links k1); Some (True, setLinks l k1) }
              else Some (False, k1)
            }
      | _ \<Rightarrow> None)"

definition nextRunnableProc :: "Kern \<Rightarrow> (nat \<times> Kern) option" where
  "nextRunnableProc k =
     do {
       lk \<leftarrow> syslock (rpid k) (rpdead k) (runQLock k);
       (found, k1) \<leftarrow> forEachSafe RunHead nextRunnableBody (k\<lparr>runQLock := lk\<rparr>);
       let k2 = k1\<lparr>runQLock := sysunlock (rpid k1) (runQLock k1)\<rparr>;
       Some (case found of Some (NextRunQ s) \<Rightarrow> s | _ \<Rightarrow> badProc, k2)
     }"

text \<open>The loop that waits for a process to run, entered with \<open>rp\<close> the bad process.\<close>

partial_function (option) findRunnable :: "Kern \<Rightarrow> (nat \<times> Kern) option" where
  "findRunnable k =
     do {
       (s, k') \<leftarrow> nextRunnableProc k;
       if s = badProc then findRunnable k' else Some (s, k')
     }"

text \<open>The second canary is above the stack: its address is compared with the stack pointer.\<close>

definition canary2At :: "Proc \<Rightarrow> u32 option" where
  "canary2At p = do { b \<leftarrow> stack p; Some (b + MANOS_ARCH_K70_STACK_SIZE) }"

definition stackOk :: "u32 \<Rightarrow> Proc \<Rightarrow> bool" where
  "stackOk x p \<longleftrightarrow> canary1 p = canary2 p \<and> (case canary2At p of None \<Rightarrow> False | Some a \<Rightarrow> x < a)"

definition scheduleProc :: "u32 \<Rightarrow> Kern \<Rightarrow> (u32 \<times> Kern) option" where
  "scheduleProc x k =
     do {
       k1 \<leftarrow> (case rp k of
                None \<Rightarrow> Some k
              | Some r \<Rightarrow>
                  if \<not> stackOk x (procs k r) then None
                  else do {
                    let k1 = (if state (procs k r) = ProcRunning
                              then upd r (\<lambda>q. q\<lparr>state := ProcReady\<rparr>) k else k);
                    k2 \<leftarrow> processSignals r k1;
                    l \<leftarrow> listAddBefore (NextRunQ r) RunHead (links k2);
                    Some (upd r (\<lambda>q. q\<lparr>sp := x\<rparr>) (setLinks l k2))
                  });
       (s, k2) \<leftarrow> findRunnable (k1\<lparr>rp := Some badProc\<rparr>);
       if \<not> stackOk (sp (procs k2 s)) (procs k2 s) then None
       else Some (sp (procs k2 s), upd s (\<lambda>q. q\<lparr>state := ProcRunning\<rparr>) (k2\<lparr>rp := Some s\<rparr>))
     }"

subsection \<open>Quiet queues\<close>

definition members :: "Kern \<Rightarrow> nat \<Rightarrow> nat set" where
  "members k b = {t \<in> {..badProc}. pgrp (procs k t) = Some b}"

definition groups_ok :: "Kern \<Rightarrow> bool" where
  "groups_ok k \<longleftrightarrow>
     (\<forall>s \<le> badProc. \<forall>b. pgrp (procs k s) = Some b \<longrightarrow>
        (\<exists>grp. pgrps k b = Some grp \<and> rcount (memberCount grp) = int (card (members k b))))"

text \<open>A process in the run queue \<open>q\<close>, with no signal pending.\<close>

definition queued_ok :: "Kern \<Rightarrow> nat \<Rightarrow> bool" where
  "queued_ok k s \<longleftrightarrow>
     s < badProc \<and> 0 \<le> pid (procs k s) \<and> pid (procs k s) < int MANOS_MAXPROC \<and>
     sigPending (procs k s) = 0 \<and> pgrp (procs k s) \<noteq> None"

definition run_inv :: "Kern \<Rightarrow> nat list \<Rightarrow> nat list \<Rightarrow> bool" where
  "run_inv k q f \<longleftrightarrow>
     ring (links k) RunHead (map NextRunQ q) \<and> ring (links k) FreeHead (map NextFree f) \<and>
     set q \<inter> set f = {} \<and> (\<forall>s \<in> set q. queued_ok k s) \<and> groups_ok k"

definition scheduling :: "Kern \<Rightarrow> bool" where
  "scheduling k \<longleftrightarrow> rp k = Some badProc \<and> pid (procs k badProc) = -1"

lemma run_inv_distinct: "run_inv k q f \<Longrightarrow> distinct q \<and> distinct f"
  by (auto simp: run_inv_def ring_def distinct_map)

text \<open>What a scan of the queue does: the process found, those kept, those reaped.\<close>

fun scan :: "(nat \<Rightarrow> ProcState) \<Rightarrow> nat list \<Rightarrow> nat option \<times> nat list \<times> nat list" where
  "scan st [] = (None, [], [])"
| "scan st (s # q) =
     (if st s = ProcDead then (let (r, kept, dead) = scan st q in (r, kept, s # dead))
      else if st s = ProcReady then (Some s, q, [])
      else (let (r, kept, dead) = scan st q in (r, s # kept, dead)))"

definition reaped :: "Kern \<Rightarrow> Kern \<Rightarrow> nat list \<Rightarrow> bool" where
  "reaped k k' dead \<longleftrightarrow>
     (\<forall>s. s \<notin> set dead \<longrightarrow> procs k' s = procs k s) \<and>
     (\<forall>s \<in> set dead. state (procs k' s) = ProcDead \<and> pid (procs k' s) = pid (procs k s)) \<and>
     (\<forall>i. procTable k' i = (if \<exists>s \<in> set dead. i = nat (pid (procs k s)) then None else procTable k i)) \<and>
     rp k' = rp k \<and> runQLock k' = runQLock k"

lemma reaped_refl [simp]: "reaped k k []"
  by (simp add: reaped_def)

lemma reaped_trans: "reaped k k1 a \<Longrightarrow> reaped k1 k2 b \<Longrightarrow> set a \<inter> set b = {} \<Longrightarrow> reaped k k2 (a @ b)"
proof -
  assume a: "reaped k k1 a" and b: "reaped k1 k2 b" and disj: "set a \<inter> set b = {}"
  have eq: "procs k1 s = procs k s" if "s \<in> set b" for s using a disj that by (auto simp: reaped_def)
  have "procTable k2 i = (if \<exists>s \<in> set (a @ b). i = nat (pid (procs k s)) then None else procTable k i)" for i
    using a b eq by (auto simp: reaped_def)
  moreover have "state (procs k2 s) = ProcDead \<and> pid (procs k2 s) = pid (procs k s)" if "s \<in> set (a @ b)" for s
  proof (cases "s \<in> set b")
    case True
    then show ?thesis using b eq by (simp add: reaped_def)
  next
    case False
    then show ?thesis using a b that by (simp add: reaped_def)
  qed
  ultimately show ?thesis using a b by (simp add: reaped_def)
qed

lemma reaped_scheduling: "reaped k k' dead \<Longrightarrow> badProc \<notin> set dead \<Longrightarrow> scheduling k \<Longrightarrow> scheduling k'"
  by (simp add: reaped_def scheduling_def)

lemma unlocked_scheduling:
  "scheduling k \<Longrightarrow> syslock (rpid k) d l = Some l" "scheduling k \<Longrightarrow> sysunlock (rpid k) l = l"
  by (simp_all add: scheduling_def rpid_def syslock_def sysunlock_def unscheduled_def syslockTest_def)

lemma upd_same: "f (procs k s) = procs k s \<Longrightarrow> upd s f k = k"
  by (simp add: upd_def)

lemma processSignals_none:
  assumes "sigPending (procs k s) = 0"
  shows "processSignals s k = Some k"
proof -
  have "(procs k s)\<lparr>sigPending := 0\<rparr> = procs k s" using assms by (cases "procs k s") simp
  then have "upd s (\<lambda>q. q\<lparr>sigPending := 0\<rparr>) k = k" by (rule upd_same)
  then show ?thesis using assms by (simp add: processSignals_def)
qed

text \<open>A dead process gives up its place in its group.\<close>

lemma leaveProcGroup_ok:
  assumes "groups_ok k" "scheduling k" "s < badProc" "pgrp (procs k s) = Some b"
  shows "\<exists>g. leaveProcGroup (Some b) k = Some (k\<lparr>pgrps := g\<rparr>) \<and>
           groups_ok (upd s (\<lambda>q. q\<lparr>pgrp := None, ppid := 0, sp := 0\<rparr>) (k\<lparr>pgrps := g\<rparr>))"
proof -
  obtain grp where grp: "pgrps k b = Some grp" "rcount (memberCount grp) = int (card (members k b))"
    using assms unfolding groups_ok_def by (meson less_imp_le_nat)
  let ?n = "int (card (members k b)) - 1"
  have fin: "finite (members k c)" for c by (simp add: members_def)
  have mem: "s \<in> members k b" using assms by (simp add: members_def)
  have le: "card (members k b) \<le> 128"
    using card_mono [of "{..badProc}" "members k b"] by (auto simp: members_def)
  let ?r = "(memberCount grp)\<lparr>rcount := ?n\<rparr>"
  have dec: "decRef (rpid k) (rpdead k) (memberCount grp) = Some (?n, ?r)"
    using grp(2) le unlocked_scheduling [OF assms(2)] by (simp add: decRef_def cint_def)
  let ?g = "if ?n = 0 then (pgrps k)(b := None) else (pgrps k)(b \<mapsto> grp\<lparr>memberCount := ?r\<rparr>)"
  let ?k = "upd s (\<lambda>q. q\<lparr>pgrp := None, ppid := 0, sp := 0\<rparr>) (k\<lparr>pgrps := ?g\<rparr>)"
  have leave: "leaveProcGroup (Some b) k = Some (k\<lparr>pgrps := ?g\<rparr>)"
    using grp dec by (auto simp: leaveProcGroup_def)
  have mem': "members ?k c = members k c - (if c = b then {s} else {})" for c
    using assms(3,4) by (auto simp: members_def upd_def)
  have mb: "members ?k b = members k b - {s}" using mem' [of b] by (simp only: refl if_True)
  have "0 < card (members k b)" using mem fin [of b] card_gt_0_iff by blast
  then have card_b: "int (card (members ?k b)) = ?n"
    unfolding mb using mem fin [of b] by (simp add: of_nat_diff Suc_leI)
  have "\<exists>grp'. pgrps ?k c = Some grp' \<and> rcount (memberCount grp') = int (card (members ?k c))"
    if t: "t \<le> badProc" "pgrp (procs ?k t) = Some c" for t c
  proof -
    have ts: "t \<noteq> s" "pgrp (procs k t) = Some c" using t by (auto simp: upd_def split: if_splits)
    show ?thesis
    proof (cases "c = b")
      case True
      then have "t \<in> members ?k b" unfolding mb using ts t(1) by (simp add: members_def)
      then have "card (members ?k b) \<noteq> 0" unfolding mb using fin [of b] by auto
      then have "?n \<noteq> 0" using card_b by simp
      then have "pgrps ?k c = Some (grp\<lparr>memberCount := ?r\<rparr>)" using True by (simp add: upd_def)
      then show ?thesis using True card_b by simp
    next
      case False
      then have "members ?k c = members k c" "pgrps ?k c = pgrps k c" using mem' [of c] by (simp_all add: upd_def)
      then show ?thesis using assms(1) ts t(1) unfolding groups_ok_def by auto
    qed
  qed
  then have "groups_ok ?k" unfolding groups_ok_def by blast
  then show ?thesis using leave by blast
qed

lemma sel_upd [simp]:
  "links (upd s g k) = links k" "procTable (upd s g k) = procTable k" "rp (upd s g k) = rp k"
  "pgrps (upd s g k) = pgrps k" "runQLock (upd s g k) = runQLock k" "freelistLock (upd s g k) = freelistLock k"
  "nextPid (upd s g k) = nextPid k" "freed (upd s g k) = freed k" "console (upd s g k) = console k"
  "procs (upd s g k) t = (if t = s then g (procs k s) else procs k t)"
  by (simp_all add: upd_def)

lemma sel_setLinks [simp]:
  "links (setLinks l k) = l" "procTable (setLinks l k) = procTable k" "rp (setLinks l k) = rp k"
  "pgrps (setLinks l k) = pgrps k" "runQLock (setLinks l k) = runQLock k" "procs (setLinks l k) = procs k"
  "freelistLock (setLinks l k) = freelistLock k" "nextPid (setLinks l k) = nextPid k"
  "freed (setLinks l k) = freed k" "console (setLinks l k) = console k"
  by (simp_all add: setLinks_def)

lemma rpid_cong: "rp k' = rp k \<Longrightarrow> (\<forall>r. rp k = Some r \<longrightarrow> pid (procs k' r) = pid (procs k r)) \<Longrightarrow> rpid k' = rpid k"
  by (cases "rp k") (auto simp: rpid_def)

lemma groups_ok_cong:
  "groups_ok k \<Longrightarrow> pgrps k' = pgrps k \<Longrightarrow> (\<And>t. pgrp (procs k' t) = pgrp (procs k t)) \<Longrightarrow> groups_ok k'"
  by (simp add: groups_ok_def members_def)

text \<open>The four list heads of a recycled process are made empty; other rings are not touched.\<close>

definition initAll :: "nat \<Rightarrow> node links \<Rightarrow> node links" where
  "initAll s l = INIT_LIST_HEAD (NextFree s) (INIT_LIST_HEAD (NextRunQ s)
                   (INIT_LIST_HEAD (NextWaitQ s) (INIT_LIST_HEAD (WaitQ s) l)))"

lemma initAll_same: "same_on (- {NextFree s, NextRunQ s, NextWaitQ s, WaitQ s}) l (initAll s l)"
  by (auto simp: initAll_def INIT_LIST_HEAD_def same_on_def)

lemma run_nodes: "NextRunQ s \<notin> set (RunHead # map NextRunQ q) \<longleftrightarrow> s \<notin> set q"
  "{NextFree s, NextWaitQ s, WaitQ s} \<inter> set (RunHead # map NextRunQ q) = {}"
  "NextFree s \<notin> set (FreeHead # map NextFree f) \<longleftrightarrow> s \<notin> set f"
  "{NextRunQ s, NextWaitQ s, WaitQ s} \<inter> set (FreeHead # map NextFree f) = {}"
  "set (RunHead # map NextRunQ q) \<inter> set (FreeHead # map NextFree f) = {}"
  by auto

lemma recycle_links:
  assumes run: "ring l RunHead (map NextRunQ (qs @ s # q))" and free: "ring l FreeHead (map NextFree f)"
    and s: "s \<notin> set f"
  shows "\<exists>l1 l2. listUnlink (NextRunQ s) l = Some l1 \<and>
           listAddBefore (NextFree s) FreeHead (initAll s l1) = Some l2 \<and>
           ring l2 RunHead (map NextRunQ (qs @ q)) \<and> ring l2 FreeHead (map NextFree (f @ [s]))"
proof -
  have run': "ring l RunHead (map NextRunQ qs @ NextRunQ s # map NextRunQ q)" using run by simp
  have dist: "s \<notin> set (qs @ q)" using run by (auto simp: ring_def distinct_map)
  obtain l1 where l1: "listUnlink (NextRunQ s) l = Some l1" "ring l1 RunHead (map NextRunQ qs @ map NextRunQ q)"
    "same_on (- set (RunHead # map NextRunQ qs @ NextRunQ s # map NextRunQ q)) l l1"
    using listUnlink_ring [OF run'] by blast
  have "same_on (set (FreeHead # map NextFree f)) l l1"
    using l1(3) by (rule lh.same_mono) auto
  then have free1: "ring l1 FreeHead (map NextFree f)" using free by (rule ring_same)
  have "same_on (set (FreeHead # map NextFree f)) l1 (initAll s l1)"
    "same_on (set (RunHead # map NextRunQ (qs @ q))) l1 (initAll s l1)"
    using s dist by (auto intro!: lh.same_mono [OF initAll_same])
  then have rings: "ring (initAll s l1) FreeHead (map NextFree f)" "ring (initAll s l1) RunHead (map NextRunQ (qs @ q))"
    using free1 l1(2) ring_same by (metis, metis map_append)
  have "\<exists>l2. listAddBefore (NextFree s) FreeHead (initAll s l1) = Some l2 \<and>
      ring l2 FreeHead (map NextFree f @ [NextFree s]) \<and> ring l2 RunHead (map NextRunQ (qs @ q))"
    using s by (intro lh.other_enq [OF rings(1) _ rings(2)]) auto
  then show ?thesis using l1(1) by auto
qed

lemma reap_step:
  assumes inv: "run_inv k (qs @ s # q) f" and sch: "scheduling k" and dead: "state (procs k s) = ProcDead"
  shows "\<exists>k'. nextRunnableBody (NextRunQ s) k = Some (False, k') \<and> run_inv k' (qs @ q) (f @ [s]) \<and> reaped k k' [s]"
proof -
  have s: "queued_ok k s" "s \<notin> set f" "s \<notin> set (qs @ q)" "s < badProc"
    using inv run_inv_distinct [OF inv] by (auto simp: run_inv_def queued_ok_def)
  have rings: "ring (links k) RunHead (map NextRunQ (qs @ s # q))" "ring (links k) FreeHead (map NextFree f)"
    using inv by (simp_all add: run_inv_def)
  obtain l1 l2 where l: "listUnlink (NextRunQ s) (links k) = Some l1"
    "listAddBefore (NextFree s) FreeHead (initAll s l1) = Some l2"
    "ring l2 RunHead (map NextRunQ (qs @ q))" "ring l2 FreeHead (map NextFree (f @ [s]))"
    using recycle_links [OF rings s(2)] by blast
  obtain b where b: "pgrp (procs k s) = Some b" using s(1) by (auto simp: queued_ok_def)
  define k1 where "k1 = upd s (\<lambda>q. q\<lparr>state := ProcDead, fds := \<lambda>_. None\<rparr>) (setLinks l1 k)"
  define k2 where "k2 = upd s (\<lambda>q. q\<lparr>sigPending := 0, sigMask := 0\<rparr>) (setLinks (initAll s l1) k1)"
  have sch2: "scheduling k2" using sch s(4) by (simp add: scheduling_def k1_def k2_def)
  have gk: "groups_ok k" using inv by (simp add: run_inv_def)
  have ok2: "groups_ok k2" using gk by (rule groups_ok_cong) (simp_all add: k1_def k2_def)
  have b2: "pgrp (procs k2 s) = Some b" using b by (simp add: k1_def k2_def)
  obtain g where g: "leaveProcGroup (Some b) k2 = Some (k2\<lparr>pgrps := g\<rparr>)"
    "groups_ok (upd s (\<lambda>q. q\<lparr>pgrp := None, ppid := 0, sp := 0\<rparr>) (k2\<lparr>pgrps := g\<rparr>))"
    using leaveProcGroup_ok [OF ok2 sch2 s(4) b2] by blast
  define k4 where "k4 = upd s (\<lambda>q. q\<lparr>pgrp := None, ppid := 0, sp := 0\<rparr>) (k2\<lparr>pgrps := g\<rparr>)"
  have sch4: "scheduling k4" using sch2 s(4) by (simp add: scheduling_def k4_def)
  have pid4: "pid (procs k4 s) = pid (procs k s)" by (simp add: k4_def k2_def k1_def)
  have tab: "tableAt k4 (pid (procs k4 s)) = Some (procTable k4 (nat (pid (procs k4 s))))"
    using s(1) by (simp add: tableAt_def pid4 queued_ok_def)
  have links4: "links k4 = initAll s l1" by (simp add: k4_def k2_def)
  define k' where "k' = (setLinks l2 k4)\<lparr>procTable := (procTable k4)(nat (pid (procs k4 s)) := None),
                               freelistLock := freelistLock k4\<rparr>"
  have links1: "links k1 = l1" by (simp add: k1_def)
  have rec: "recycleProc s (setLinks l1 k) = Some k'"
    unfolding recycleProc_def Let_def k1_def [symmetric] links1 initAll_def [symmetric] k2_def [symmetric] b2 g(1)
      bind.bind_lunit k4_def [symmetric] unlocked_scheduling [OF sch4] links4 l(2) tab k'_def [symmetric]
    by (rule refl)
  have "reaped k k' [s]" using dead by (auto simp: reaped_def k'_def k4_def k2_def k1_def)
  moreover have "run_inv k' (qs @ q) (f @ [s])"
  proof -
    have "groups_ok k'" using g(2) by (rule groups_ok_cong) (simp_all add: k'_def k4_def)
    moreover have "\<forall>t \<in> set (qs @ q). queued_ok k' t"
      using inv s(3) by (auto simp: run_inv_def queued_ok_def k'_def k4_def k2_def k1_def)
    ultimately show ?thesis using l(3,4) inv s(3) by (auto simp: run_inv_def k'_def)
  qed
  ultimately show ?thesis using dead l(1) rec by (simp add: nextRunnableBody_def)
qed

lemma ready_step:
  assumes inv: "run_inv k (qs @ s # q) f" and st: "state (procs k s) = ProcReady"
  shows "\<exists>k'. nextRunnableBody (NextRunQ s) k = Some (True, k') \<and> run_inv k' (qs @ q) f \<and> reaped k k' []"
proof -
  have s: "queued_ok k s" using inv by (auto simp: run_inv_def)
  have run: "ring (links k) RunHead (map NextRunQ qs @ NextRunQ s # map NextRunQ q)"
    and free: "ring (links k) FreeHead (map NextFree f)" using inv by (auto simp: run_inv_def)
  obtain l where l: "listUnlinkAndInit (NextRunQ s) (links k) = Some l"
    "ring l RunHead (map NextRunQ qs @ map NextRunQ q)" "ring l FreeHead (map NextFree f)"
    using lh.other_remove [OF run free] by auto
  have "run_inv (setLinks l k) (qs @ q) f"
    using inv l(2,3) by (auto simp: run_inv_def queued_ok_def groups_ok_def members_def)
  moreover have "processSignals s k = Some k" using s by (intro processSignals_none) (simp add: queued_ok_def)
  ultimately show ?thesis using st l(1) by (auto simp: nextRunnableBody_def reaped_def)
qed

lemma other_step:
  assumes "run_inv k (qs @ s # q) f" "state (procs k s) \<noteq> ProcReady" "state (procs k s) \<noteq> ProcDead"
  shows "nextRunnableBody (NextRunQ s) k = Some (False, k)"
proof -
  have "processSignals s k = Some k"
    using assms(1) by (intro processSignals_none) (simp add: run_inv_def queued_ok_def)
  then show ?thesis using assms(2,3) by (simp add: nextRunnableBody_def)
qed

lemma scan_cong: "(\<And>s. s \<in> set q \<Longrightarrow> st s = st' s) \<Longrightarrow> scan st q = scan st' q"
  by (induction q) auto

lemma scan_sets: "scan st q = (r, kept, dead) \<Longrightarrow> set kept \<subseteq> set q \<and> set dead \<subseteq> set q"
  by (induction q arbitrary: r kept dead) (auto split: if_splits prod.splits)

lemma eachSafe_scan:
  assumes "run_inv k (qs @ s # q) f" "scheduling k" "scan (\<lambda>s. state (procs k s)) (s # q) = (r, kept, dead)"
  shows "\<exists>k'. eachSafe RunHead nextRunnableBody (Some (NextRunQ s)) (Some (hd (map NextRunQ q @ [RunHead]))) k =
      Some (map_option NextRunQ r, k') \<and> run_inv k' (qs @ kept) (f @ dead) \<and> reaped k k' dead"
  using assms
proof (induction q arbitrary: k qs s f r kept dead)
  case Nil
  show ?case
  proof (cases "state (procs k s) = ProcDead")
    case True
    obtain k' where "nextRunnableBody (NextRunQ s) k = Some (False, k')" "run_inv k' (qs @ []) (f @ [s])" "reaped k k' [s]"
      using reap_step [OF Nil.prems(1,2) True] by blast
    then show ?thesis using Nil.prems(3) True by (subst eachSafe.simps) (simp, subst eachSafe.simps, simp)
  next
    case nd: False
    show ?thesis
    proof (cases "state (procs k s) = ProcReady")
      case True
      obtain k' where "nextRunnableBody (NextRunQ s) k = Some (True, k')" "run_inv k' (qs @ []) f" "reaped k k' []"
        using ready_step [OF Nil.prems(1) True] by blast
      then show ?thesis using Nil.prems(3) True by (subst eachSafe.simps) auto
    next
      case False
      then show ?thesis using other_step [OF Nil.prems(1) False nd] Nil.prems nd
        by (subst eachSafe.simps) (simp, subst eachSafe.simps, simp)
    qed
  qed
next
  case (Cons t q)
  let ?x = "hd (map NextRunQ (t # q) @ [RunHead])"
  have go: "eachSafe RunHead nextRunnableBody (Some (NextRunQ s)) (Some ?x) k =
      eachSafe RunHead nextRunnableBody (Some (NextRunQ t)) (Some (hd (map NextRunQ q @ [RunHead]))) k'"
    if "nextRunnableBody (NextRunQ s) k = Some (False, k')" "run_inv k' (qs' @ t # q) f'" for k' qs' f'
  proof -
    have "ring (links k') RunHead (map NextRunQ qs' @ NextRunQ t # map NextRunQ q)"
      using that(2) by (simp add: run_inv_def)
    from ring_next [OF this] that(1) show ?thesis by (subst eachSafe.simps) simp
  qed
  show ?case
  proof (cases "state (procs k s) = ProcDead")
    case True
    obtain k1 where k1: "nextRunnableBody (NextRunQ s) k = Some (False, k1)" "run_inv k1 (qs @ t # q) (f @ [s])" "reaped k k1 [s]"
      using reap_step [OF Cons.prems(1,2) True] by blast
    have ns: "s \<notin> set (t # q)" "s < badProc"
      using run_inv_distinct [OF Cons.prems(1)] Cons.prems(1) by (auto simp: run_inv_def queued_ok_def)
    obtain d where d: "scan (\<lambda>s. state (procs k s)) (t # q) = (r, kept, d)" "dead = s # d"
      using Cons.prems(3) True by (auto simp del: scan.simps(2) simp: scan.simps(2) [of _ s] Let_def split_beta prod_eq_iff)
    have "scan (\<lambda>s. state (procs k1 s)) (t # q) = (r, kept, d)"
      unfolding d(1) [symmetric] using k1(3) ns by (intro scan_cong) (auto simp: reaped_def)
    moreover have "scheduling k1" using reaped_scheduling [OF k1(3)] ns(2) Cons.prems(2) by simp
    ultimately obtain k' where k': "eachSafe RunHead nextRunnableBody (Some (NextRunQ t)) (Some (hd (map NextRunQ q @ [RunHead]))) k1 =
        Some (map_option NextRunQ r, k')" "run_inv k' (qs @ kept) ((f @ [s]) @ d)" "reaped k1 k' d"
      using Cons.IH [OF k1(2)] by blast
    have "set [s] \<inter> set d = {}" using scan_sets [OF d(1)] ns by auto
    then have "reaped k k' ([s] @ d)" using reaped_trans [OF k1(3) k'(3)] by blast
    then show ?thesis using go [OF k1(1,2)] k'(1,2) d(2) by auto
  next
    case nd: False
    show ?thesis
    proof (cases "state (procs k s) = ProcReady")
      case True
      obtain k' where "nextRunnableBody (NextRunQ s) k = Some (True, k')" "run_inv k' (qs @ t # q) f" "reaped k k' []"
        using ready_step [OF Cons.prems(1) True] by blast
      then show ?thesis using Cons.prems(3) True by (subst eachSafe.simps) auto
    next
      case False
      note body = other_step [OF Cons.prems(1) False nd]
      obtain kp where d: "scan (\<lambda>s. state (procs k s)) (t # q) = (r, kp, dead)" "kept = s # kp"
        using Cons.prems(3) False nd
        by (auto simp del: scan.simps(2) simp: scan.simps(2) [of _ s] Let_def split_beta prod_eq_iff)
      have inv: "run_inv k ((qs @ [s]) @ t # q) f" using Cons.prems(1) by simp
      show ?thesis using Cons.IH [OF inv Cons.prems(2) d(1)] go [OF body inv] d(2) by auto
    qed
  qed
qed

lemma nextRunnableProc_scan:
  assumes inv: "run_inv k q f" and sch: "scheduling k" and sc: "scan (\<lambda>s. state (procs k s)) q = (r, kept, dead)"
  shows "\<exists>k'. nextRunnableProc k = Some (case r of Some s \<Rightarrow> s | None \<Rightarrow> badProc, k') \<and>
           run_inv k' kept (f @ dead) \<and> reaped k k' dead \<and> scheduling k'"
proof -
  have dead: "badProc \<notin> set dead" using scan_sets [OF sc] inv by (auto simp: run_inv_def queued_ok_def)
  have lock: "k\<lparr>runQLock := runQLock k\<rparr> = k" by simp
  have each: "\<exists>k'. forEachSafe RunHead nextRunnableBody k = Some (map_option NextRunQ r, k') \<and>
      run_inv k' kept (f @ dead) \<and> reaped k k' dead"
  proof (cases q)
    case Nil
    then have "listIsEmpty RunHead (links k)" using inv by (simp add: run_inv_def ring_nil listIsEmpty_def)
    then show ?thesis using Nil inv sc by (simp add: forEachSafe_def) (subst eachSafe.simps, simp)
  next
    case (Cons s q')
    then have ring: "ring (links k) RunHead (NextRunQ s # map NextRunQ q')" using inv by (simp add: run_inv_def)
    have "ring (links k) RunHead ([] @ NextRunQ s # map NextRunQ q')" using ring by simp
    from ring_next [OF this] ring_first [OF ring] ring_empty_iff [OF ring]
    have "forEachSafe RunHead nextRunnableBody k =
        eachSafe RunHead nextRunnableBody (Some (NextRunQ s)) (Some (hd (map NextRunQ q' @ [RunHead]))) k"
      by (simp add: forEachSafe_def)
    then show ?thesis using eachSafe_scan [of k "[]" s q' f r kept dead] inv sch sc Cons by simp
  qed
  then obtain k1 where k1: "forEachSafe RunHead nextRunnableBody k = Some (map_option NextRunQ r, k1)"
    "run_inv k1 kept (f @ dead)" "reaped k k1 dead" by blast
  have sch1: "scheduling k1" using reaped_scheduling [OF k1(3) dead sch] .
  have "nextRunnableProc k = Some (case r of Some s \<Rightarrow> s | None \<Rightarrow> badProc, k1)"
    using k1(1) unlocked_scheduling [OF sch] unlocked_scheduling [OF sch1]
    by (cases r) (simp_all add: nextRunnableProc_def)
  then show ?thesis using k1 sch1 by blast
qed

lemma findRunnable_scan:
  assumes inv: "run_inv k q f" and sch: "scheduling k" and sc: "scan (\<lambda>s. state (procs k s)) q = (Some s, kept, dead)"
    and s: "s \<noteq> badProc"
  shows "\<exists>k'. findRunnable k = Some (s, k') \<and> run_inv k' kept (f @ dead) \<and> reaped k k' dead"
  using nextRunnableProc_scan [OF inv sch sc] s by (subst findRunnable.simps) auto

lemma scan_found: "scan st q = (Some s, kept, dead) \<Longrightarrow> s \<in> set q \<and> st s = ProcReady"
  by (induction q arbitrary: kept dead) (auto split: if_splits prod.splits)

lemma scan_split: "scan st q = (Some s, kept, dead) \<Longrightarrow> distinct q \<Longrightarrow> s \<notin> set kept \<and> s \<notin> set dead \<and> set kept \<inter> set dead = {}"
proof (induction q arbitrary: kept dead)
  case (Cons t q)
  have sub: "scan st q = (Some s, k, d) \<Longrightarrow> set k \<subseteq> set q \<and> set d \<subseteq> set q \<and> s \<in> set q \<and> s \<notin> set k \<and> s \<notin> set d \<and>
      set k \<inter> set d = {}" for k d
    using scan_sets [of st q "Some s" k d] scan_found [of st q s k d] Cons.IH [of k d] Cons.prems(2) by auto
  show ?case using Cons.prems sub by (fastforce split: if_splits prod.splits)
qed simp

text \<open>The state while a process runs: the queue without it, its stack pointers in range.\<close>

definition running_inv :: "Kern \<Rightarrow> nat list \<Rightarrow> nat list \<Rightarrow> nat \<Rightarrow> bool" where
  "running_inv k q f r \<longleftrightarrow>
     run_inv k q f \<and> rp k = Some r \<and> queued_ok k r \<and> r \<notin> set q \<and> r \<notin> set f \<and>
     pid (procs k badProc) = -1 \<and> (\<forall>s \<in> set q. stackOk (sp (procs k s)) (procs k s))"

definition preempted :: "Kern \<Rightarrow> nat \<Rightarrow> nat \<Rightarrow> ProcState" where
  "preempted k r s = (if s = r \<and> state (procs k s) = ProcRunning then ProcReady else state (procs k s))"

lemma stackOk_upd [simp]:
  "stackOk x (p\<lparr>sp := y\<rparr>) = stackOk x p" "stackOk x (p\<lparr>state := t\<rparr>) = stackOk x p"
  by (simp_all add: stackOk_def canary2At_def)

lemma schedule_found:
  assumes inv: "running_inv k q f r" and x: "stackOk x (procs k r)"
    and sc: "scan (preempted k r) (q @ [r]) = (Some s, kept, dead)"
  shows "\<exists>k'. scheduleProc x k = Some (if s = r then x else sp (procs k s), k') \<and>
           running_inv k' kept (f @ dead) s \<and> state (procs k' s) = ProcRunning \<and>
           (\<forall>t. t \<notin> set dead \<longrightarrow> state (procs k' t) = (if t = s then ProcRunning else preempted k r t) \<and>
                 canary1 (procs k' t) = canary1 (procs k t) \<and> canary2 (procs k' t) = canary2 (procs k t) \<and>
                 stack (procs k' t) = stack (procs k t))"
proof -
  define k1 where "k1 = (if state (procs k r) = ProcRunning then upd r (\<lambda>q. q\<lparr>state := ProcReady\<rparr>) k else k)"
  have r: "queued_ok k r" "r \<notin> set q" "r \<notin> set f" "rp k = Some r" "r < badProc"
    using inv by (auto simp: running_inv_def queued_ok_def)
  have sig: "processSignals r k1 = Some k1"
    using r(1) by (intro processSignals_none) (simp add: queued_ok_def k1_def)
  have run: "ring (links k) RunHead (map NextRunQ q)" and free: "ring (links k) FreeHead (map NextFree f)"
    using inv by (auto simp: running_inv_def run_inv_def)
  obtain l where l: "listAddBefore (NextRunQ r) RunHead (links k) = Some l"
    "ring l RunHead (map NextRunQ q @ [NextRunQ r])" "ring l FreeHead (map NextFree f)"
    using lh.other_enq [OF run _ free, of "NextRunQ r"] r(2) by auto
  have links1: "links k1 = links k" by (simp add: k1_def)
  define k2 where "k2 = (upd r (\<lambda>q. q\<lparr>sp := x\<rparr>) (setLinks l k1))\<lparr>rp := Some badProc\<rparr>"
  have st2: "state (procs k2 t) = preempted k r t" for t by (simp add: k2_def k1_def preempted_def)
  have keep2: "pid (procs k2 t) = pid (procs k t)" "sigPending (procs k2 t) = sigPending (procs k t)"
    "pgrp (procs k2 t) = pgrp (procs k t)" "sp (procs k2 t) = (if t = r then x else sp (procs k t))"
    "canary1 (procs k2 t) = canary1 (procs k t)" "canary2 (procs k2 t) = canary2 (procs k t)"
    "stack (procs k2 t) = stack (procs k t)" for t
    by (simp_all add: k2_def k1_def)
  have groups: "groups_ok k" using inv by (simp add: running_inv_def run_inv_def)
  have "groups_ok k2" using groups by (rule groups_ok_cong) (simp_all add: keep2 k2_def k1_def)
  moreover have "\<forall>t \<in> set (q @ [r]). queued_ok k2 t"
    using inv r(1) by (auto simp: running_inv_def run_inv_def queued_ok_def keep2)
  ultimately have inv2: "run_inv k2 (q @ [r]) f"
    using inv l(2,3) r(3) by (auto simp: running_inv_def run_inv_def k2_def k1_def)
  have sch2: "scheduling k2" using inv by (simp add: scheduling_def running_inv_def keep2) (simp add: k2_def k1_def)
  have sc2: "scan (\<lambda>s. state (procs k2 s)) (q @ [r]) = (Some s, kept, dead)" using sc by (simp add: st2)
  note found = scan_found [OF sc] and sets = scan_sets [OF sc]
  have s_ok: "s < badProc" using inv2 found by (auto simp: run_inv_def queued_ok_def)
  obtain k3 where k3: "findRunnable k2 = Some (s, k3)" "run_inv k3 kept (f @ dead)" "reaped k2 k3 dead"
    using findRunnable_scan [OF inv2 sch2 sc2] s_ok by auto
  have dist: "s \<notin> set kept" "s \<notin> set dead" "set kept \<inter> set dead = {}"
    using scan_split [OF sc] run_inv_distinct [OF inv2] by auto
  have same3: "t \<notin> set dead \<Longrightarrow> procs k3 t = procs k2 t" for t using k3(3) by (simp add: reaped_def)
  have stack2: "t \<in> set (q @ [r]) \<Longrightarrow> stackOk (sp (procs k2 t)) (procs k2 t)" for t
    using inv x r(2) by (auto simp: running_inv_def k2_def k1_def)
  let ?k4 = "upd s (\<lambda>q. q\<lparr>state := ProcRunning\<rparr>) (k3\<lparr>rp := Some s\<rparr>)"
  have stack_s: "stackOk (sp (procs k3 s)) (procs k3 s)" "sp (procs k3 s) = (if s = r then x else sp (procs k s))"
    using stack2 found same3 dist(2) by (auto simp: keep2)
  have "scheduleProc x k = Some (sp (procs k3 s), ?k4)"
    using x r(4) sig l(1) k3(1) stack_s(1) links1
    by (simp add: scheduleProc_def Let_def k1_def [symmetric] k2_def [symmetric])
  moreover have "running_inv ?k4 kept (f @ dead) s"
  proof -
    have "groups_ok k3" "\<forall>t \<in> set kept. queued_ok k3 t" using k3(2) by (simp_all add: run_inv_def)
    then have "groups_ok ?k4" "\<forall>t \<in> set kept. queued_ok ?k4 t"
      by (auto intro: groups_ok_cong simp: queued_ok_def)
    moreover have "queued_ok ?k4 s"
      using inv2 found same3 dist(2) by (auto simp: run_inv_def queued_ok_def)
    moreover have "\<forall>t \<in> set kept. stackOk (sp (procs ?k4 t)) (procs ?k4 t)"
      using stack2 sets same3 dist by (auto simp: subset_iff disjoint_iff)
    moreover have "s \<notin> set f" using inv2 found by (auto simp: run_inv_def)
    moreover have "badProc \<notin> set dead"
      using sets r(5) inv by (auto simp: running_inv_def run_inv_def queued_ok_def)
    then have "pid (procs ?k4 badProc) = -1"
      using inv same3 [of badProc] s_ok by (simp add: running_inv_def keep2)
    ultimately show ?thesis using k3(2) dist(1,2) by (simp add: running_inv_def run_inv_def)
  qed
  moreover have "\<forall>t. t \<notin> set dead \<longrightarrow> state (procs ?k4 t) = (if t = s then ProcRunning else preempted k r t) \<and>
      canary1 (procs ?k4 t) = canary1 (procs k t) \<and> canary2 (procs ?k4 t) = canary2 (procs k t) \<and>
      stack (procs ?k4 t) = stack (procs k t)"
    by (simp add: same3 st2 keep2)
  ultimately show ?thesis using stack_s(2) by (intro exI [of _ ?k4]) simp
qed

subsection \<open>Time slices\<close>

text \<open>A run of time slices, each ending with the interrupted process's stack pointer.\<close>

fun quanta :: "u32 list \<Rightarrow> Kern \<Rightarrow> Kern option" where
  "quanta [] k = Some k"
| "quanta (x # xs) k = do { (_, k') \<leftarrow> scheduleProc x k; quanta xs k' }"

lemma scan_all_ready: "\<forall>s \<in> set q. st s = ProcReady \<Longrightarrow> q \<noteq> [] \<Longrightarrow> scan st q = (Some (hd q), tl q, [])"
  by (cases q) auto

lemma quanta_rotate:
  assumes "running_inv k q f r" "state (procs k r) = ProcRunning" "\<forall>s \<in> set q. state (procs k s) = ProcReady"
    "\<forall>x \<in> set xs. \<forall>s \<in> set (r # q). stackOk x (procs k s)"
  shows "\<exists>k'. quanta xs k = Some k' \<and> running_inv k' (tl (rotate (length xs) (r # q))) f (hd (rotate (length xs) (r # q)))"
  using assms
proof (induction xs arbitrary: k q r)
  case (Cons x xs)
  have ready: "\<forall>s \<in> set (q @ [r]). preempted k r s = ProcReady" using Cons.prems by (auto simp: preempted_def)
  have sc: "scan (preempted k r) (q @ [r]) = (Some (hd (q @ [r])), tl (q @ [r]), [])"
    using scan_all_ready [OF ready] by simp
  let ?s = "hd (q @ [r])" and ?q = "tl (q @ [r])"
  have list: "?s # ?q = q @ [r]" by (cases q) auto
  have x: "stackOk x (procs k r)" using Cons.prems(4) by simp
  obtain k' where k': "scheduleProc x k = Some (if ?s = r then x else sp (procs k ?s), k')"
    "running_inv k' ?q (f @ []) ?s" "state (procs k' ?s) = ProcRunning"
    "\<forall>t. t \<notin> set [] \<longrightarrow> state (procs k' t) = (if t = ?s then ProcRunning else preempted k r t) \<and>
                 canary1 (procs k' t) = canary1 (procs k t) \<and> canary2 (procs k' t) = canary2 (procs k t) \<and>
                 stack (procs k' t) = stack (procs k t)"
    using schedule_found [OF Cons.prems(1) x sc] by blast
  have same: "stackOk y (procs k' t) = stackOk y (procs k t)" for y t
    using k'(4) by (simp add: stackOk_def canary2At_def)
  have dist: "?s \<notin> set ?q" using k'(2) by (simp add: running_inv_def)
  have sub: "set ?q \<subseteq> set (q @ [r])" "set (?s # ?q) = set (q @ [r])"
    using list by (metis set_subset_Cons, metis)
  have "\<forall>s \<in> set ?q. state (procs k' s) = ProcReady" using k'(4) ready dist sub(1) by auto
  moreover have "\<forall>y \<in> set xs. \<forall>s \<in> set (?s # ?q). stackOk y (procs k' s)"
    unfolding sub(2) using Cons.prems(4) by (auto simp: same)
  ultimately obtain k'' where "quanta xs k' = Some k''"
    "running_inv k'' (tl (rotate (length xs) (?s # ?q))) f (hd (rotate (length xs) (?s # ?q)))"
    using Cons.IH [of k' ?q ?s] k'(2,3) by auto
  moreover have "rotate (length (x # xs)) (r # q) = rotate (length xs) (?s # ?q)"
    using list by (simp add: rotate1_rotate_swap)
  ultimately show ?case using k'(1) by simp
qed simp

end
