(* ===== verification/ProcProps.thy ===== *)
theory ProcProps
  imports ProcSched
begin

text \<open>
  Properties of processes and the scheduler (\<open>ProcSched\<close>): scheduling order and fairness,
  waiting for a process, taking a slot for a new one, and the limits of signals.
\<close>

subsection \<open>Waking the waiters\<close>

definition readied :: "nat set \<Rightarrow> (nat \<Rightarrow> Proc) \<Rightarrow> nat \<Rightarrow> Proc" where
  "readied A f = (\<lambda>s. if s \<in> A then (f s)\<lparr>state := ProcReady\<rparr> else f s)"

definition wakeBody :: "node \<Rightarrow> Kern \<Rightarrow> (bool \<times> Kern) option" where
  "wakeBody n k =
     (case n of
        NextWaitQ w \<Rightarrow>
          do { l \<leftarrow> listUnlinkAndInit n (links k);
               Some (False, upd w (\<lambda>q. q\<lparr>state := ProcReady\<rparr>) (setLinks l k)) }
      | _ \<Rightarrow> None)"

lemma wakeWaiting_body: "wakeWaiting p k = do { (_, k') \<leftarrow> forEachSafe (WaitQ p) wakeBody k; Some k' }"
proof -
  have "(\<lambda>n k. case n of
            NextWaitQ w \<Rightarrow>
              do { l \<leftarrow> listUnlinkAndInit n (links k);
                   Some (False, upd w (\<lambda>q. q\<lparr>state := ProcReady\<rparr>) (setLinks l k)) }
          | _ \<Rightarrow> None) = wakeBody"
    by (intro ext) (simp add: wakeBody_def)
  then show ?thesis by (simp add: wakeWaiting_def)
qed

definition woken :: "nat \<Rightarrow> nat list \<Rightarrow> Kern \<Rightarrow> Kern \<Rightarrow> bool" where
  "woken p ws k k' \<longleftrightarrow>
     (\<exists>l. k' = k\<lparr>links := l, procs := readied (set ws) (procs k)\<rparr> \<and> ring l (WaitQ p) [] \<and>
        (\<forall>w \<in> set ws. ring l (NextWaitQ w) []) \<and> same_on (- set (WaitQ p # map NextWaitQ ws)) (links k) l)"

lemma woken_nil: "ring (links k) (WaitQ p) [] \<Longrightarrow> woken p [] k k"
  unfolding woken_def by (intro exI [of _ "links k"]) (simp add: readied_def same_on_def)

lemma wake_step:
  assumes "ring (links k) (WaitQ p) (map NextWaitQ (w # ws))"
  shows "\<exists>l. wakeBody (NextWaitQ w) k = Some (False, upd w (\<lambda>q. q\<lparr>state := ProcReady\<rparr>) (setLinks l k)) \<and>
           ring l (WaitQ p) (map NextWaitQ ws) \<and> ring l (NextWaitQ w) [] \<and>
           same_on (- set (WaitQ p # map NextWaitQ (w # ws))) (links k) l"
  using listUnlinkAndInit_ring [of "links k" "WaitQ p" "[]" "NextWaitQ w" "map NextWaitQ ws"] assms
  by (auto simp: wakeBody_def)

lemma woken_Cons:
  assumes "woken p ws (upd w (\<lambda>q. q\<lparr>state := ProcReady\<rparr>) (setLinks l k)) k'"
    and l: "ring l (NextWaitQ w) []" "same_on (- set (WaitQ p # map NextWaitQ (w # ws))) (links k) l" and "w \<notin> set ws"
  shows "woken p (w # ws) k k'"
proof -
  obtain l' where l': "k' = (upd w (\<lambda>q. q\<lparr>state := ProcReady\<rparr>) (setLinks l k))
      \<lparr>links := l', procs := readied (set ws) (procs (upd w (\<lambda>q. q\<lparr>state := ProcReady\<rparr>) (setLinks l k)))\<rparr>"
    "ring l' (WaitQ p) []" "\<forall>v \<in> set ws. ring l' (NextWaitQ v) []" "same_on (- set (WaitQ p # map NextWaitQ ws)) l l'"
    using assms(1) by (auto simp: woken_def)
  have "same_on (set [NextWaitQ w]) l l'" by (rule lh.same_mono [OF l'(4)]) (use assms(4) in auto)
  then have "ring l' (NextWaitQ w) []" using l(1) by (rule ring_same)
  moreover have "same_on (- set (WaitQ p # map NextWaitQ (w # ws))) (links k) l'"
    by (rule lh.same_trans [OF l(2)], rule lh.same_mono [OF l'(4)]) auto
  moreover have "k' = k\<lparr>links := l', procs := readied (set (w # ws)) (procs k)\<rparr>"
    unfolding l'(1) using assms(4) by (auto simp: readied_def upd_def setLinks_def fun_eq_iff)
  ultimately show ?thesis using l'(2,3) unfolding woken_def by (intro exI [of _ l']) auto
qed

lemma wake_each:
  assumes "ring (links k) (WaitQ p) (map NextWaitQ (w # ws))"
  shows "\<exists>k'. eachSafe (WaitQ p) wakeBody (Some (NextWaitQ w)) (Some (hd (map NextWaitQ ws @ [WaitQ p]))) k =
           Some (None, k') \<and> woken p (w # ws) k k'"
  using assms
proof (induction ws arbitrary: k w)
  case Nil
  obtain l where l: "wakeBody (NextWaitQ w) k = Some (False, upd w (\<lambda>q. q\<lparr>state := ProcReady\<rparr>) (setLinks l k))"
    "ring l (WaitQ p) []" "ring l (NextWaitQ w) []" "same_on (- set (WaitQ p # map NextWaitQ [w])) (links k) l"
    using wake_step [of k p w "[]"] Nil by auto
  let ?k = "upd w (\<lambda>q. q\<lparr>state := ProcReady\<rparr>) (setLinks l k)"
  have "woken p [] ?k ?k" using l(2) by (intro woken_nil) simp
  then have "woken p [w] k ?k" using l(3,4) by (intro woken_Cons) simp_all
  moreover have "eachSafe (WaitQ p) wakeBody (Some (NextWaitQ w)) (Some (WaitQ p)) k = Some (None, ?k)"
    using l(1) by (subst eachSafe.simps) (simp, subst eachSafe.simps, simp)
  ultimately show ?case by auto
next
  case (Cons v ws)
  obtain l where l: "wakeBody (NextWaitQ w) k = Some (False, upd w (\<lambda>q. q\<lparr>state := ProcReady\<rparr>) (setLinks l k))"
    "ring l (WaitQ p) (map NextWaitQ (v # ws))" "ring l (NextWaitQ w) []"
    "same_on (- set (WaitQ p # map NextWaitQ (w # v # ws))) (links k) l"
    using wake_step [OF Cons.prems] by blast
  let ?k = "upd w (\<lambda>q. q\<lparr>state := ProcReady\<rparr>) (setLinks l k)"
  obtain k' where k': "eachSafe (WaitQ p) wakeBody (Some (NextWaitQ v)) (Some (hd (map NextWaitQ ws @ [WaitQ p]))) ?k =
      Some (None, k')" "woken p (v # ws) ?k k'"
    using Cons.IH [of ?k v] l(2) by auto
  have dist: "w \<notin> set (v # ws)" using Cons.prems by (auto simp: ring_def)
  have next_v: "nxt l (NextWaitQ v) = Some (hd (map NextWaitQ ws @ [WaitQ p]))"
    using ring_next [of l "WaitQ p" "[]" "NextWaitQ v" "map NextWaitQ ws"] l(2) by simp
  have "eachSafe (WaitQ p) wakeBody (Some (NextWaitQ w)) (Some (hd (map NextWaitQ (v # ws) @ [WaitQ p]))) k =
      Some (None, k')"
    using l(1) k'(1) next_v by (subst eachSafe.simps) simp
  then show ?case using woken_Cons [OF k'(2) l(3,4) dist] by auto
qed

lemma wakeWaiting_ring:
  assumes "ring (links k) (WaitQ p) (map NextWaitQ ws)"
  shows "\<exists>k'. wakeWaiting p k = Some k' \<and> woken p ws k k'"
proof (cases ws)
  case Nil
  then have "listIsEmpty (WaitQ p) (links k)" using assms by (simp add: ring_nil listIsEmpty_def)
  moreover have "woken p [] k k" using assms Nil by (intro woken_nil) simp
  ultimately show ?thesis using Nil
    by (simp add: wakeWaiting_body forEachSafe_def) (subst eachSafe.simps, simp)
next
  case (Cons w vs)
  have ring: "ring (links k) (WaitQ p) (NextWaitQ w # map NextWaitQ vs)" using assms Cons by simp
  have ring': "ring (links k) (WaitQ p) ([] @ NextWaitQ w # map NextWaitQ vs)" using ring by simp
  obtain k' where "eachSafe (WaitQ p) wakeBody (Some (NextWaitQ w)) (Some (hd (map NextWaitQ vs @ [WaitQ p]))) k =
      Some (None, k')" "woken p (w # vs) k k'"
    using wake_each [of k p w vs] ring by auto
  then show ?thesis using Cons ring_first [OF ring] ring_empty_iff [OF ring] ring_next [OF ring']
    by (simp add: wakeWaiting_body forEachSafe_def)
qed


subsection \<open>Taking a slot\<close>

text \<open>A lock is free to take: nobody schedules yet, or the live running process finds it open.\<close>

definition lock_free :: "Kern \<Rightarrow> Lock \<Rightarrow> bool" where
  "lock_free k l \<longleftrightarrow> unscheduled (rpid k) \<or> \<not> rpdead k \<and> locked l = 0"

lemma lock_free_syslock: "lock_free k l \<Longrightarrow> \<exists>l'. syslock (rpid k) (rpdead k) l = Some l'"
  by (cases "unscheduled (rpid k)") (auto simp: lock_free_def syslock_def syslockTest_def)

lemma lock_free_incRef:
  assumes "lock_free k (rlock r)" "- (2 ^ 31) \<le> rcount r + 1" "rcount r + 1 < 2 ^ 31"
  shows "\<exists>r'. incRef (rpid k) (rpdead k) r = Some (rcount r + 1, r') \<and> rcount r' = rcount r + 1"
  using lock_free_syslock [OF assms(1)] assms(2,3) by (auto simp: incRef_def cint_def)

lemma lock_free_init:
  assumes "lock_free k l"
  shows "lock_free k initLock"
  using assms by (auto simp: lock_free_def initLock_def)

text \<open>A slot \<open>s\<close> at the head of the free list, with a stack or not.\<close>

definition slot_ok :: "Proc \<Rightarrow> bool" where
  "slot_ok p \<longleftrightarrow> 0 \<le> pid p \<and> (stack p \<noteq> None \<longrightarrow> canary1 p = canary2 p)"

definition spawned :: "Kern \<Rightarrow> nat \<Rightarrow> nat \<Rightarrow> Proc \<Rightarrow> bool" where
  "spawned k s g p \<longleftrightarrow>
     pid p = (if pid (procs k s) = 0 then rcount (nextPid k) + 1 else pid (procs k s)) \<and>
     ppid p = getpid k \<and> state p = ProcSpawning \<and> sigPending p = 0 \<and> sigMask p = 0 \<and> pgrp p = Some g \<and>
     stack p \<noteq> None \<and> canary1 p = canary2 p"

lemma take_slot:
  assumes "ring (links k) FreeHead (map NextFree (s # f))" "ring (links k) RunHead (map NextRunQ q)" "s \<notin> set q"
  shows "\<exists>l. nxt (links k) FreeHead = Some (NextFree s) \<and> \<not> listIsEmpty FreeHead (links k) \<and>
           listUnlink (NextFree s) (links k) = Some l \<and> ring (initAll s l) FreeHead (map NextFree f) \<and>
           ring (initAll s l) RunHead (map NextRunQ q)"
proof -
  have free: "ring (links k) FreeHead ([] @ NextFree s # map NextFree f)" using assms(1) by simp
  have s: "s \<notin> set f" using assms(1) by (auto simp: ring_def)
  obtain l where l: "listUnlink (NextFree s) (links k) = Some l" "ring l FreeHead (map NextFree f)"
    "same_on (- set (FreeHead # [] @ NextFree s # map NextFree f)) (links k) l"
    using listUnlink_ring [OF free] by auto
  have "same_on (set (RunHead # map NextRunQ q)) (links k) l" by (rule lh.same_mono [OF l(3)]) auto
  then have run: "ring l RunHead (map NextRunQ q)" using assms(2) by (rule ring_same)
  have "same_on (set (FreeHead # map NextFree f)) l (initAll s l)" "same_on (set (RunHead # map NextRunQ q)) l (initAll s l)"
    using s assms(3) by (auto intro!: lh.same_mono [OF initAll_same])
  then have "ring (initAll s l) FreeHead (map NextFree f)" "ring (initAll s l) RunHead (map NextRunQ q)"
    using l(2) run ring_same by (metis, metis)
  then show ?thesis using l(1) assms(1) ring_empty_iff [of "links k" FreeHead "map NextFree (s # f)"]
    by (auto simp: ring_first)
qed

text \<open>The steps of \<open>newProc\<close> after the free list: what identifier and stack the slot gets.\<close>

definition pickPid :: "nat \<Rightarrow> Kern \<Rightarrow> Kern option" where
  "pickPid s k = (if pid (procs k s) = 0
     then do { (i, ref) \<leftarrow> incRef (rpid k) (rpdead k) (nextPid k);
               Some (upd s (\<lambda>q. q\<lparr>pid := i\<rparr>) (k\<lparr>nextPid := ref\<rparr>)) }
     else Some k)"

definition pickStack :: "u32 option \<Rightarrow> nat \<Rightarrow> Kern \<Rightarrow> Kern option" where
  "pickStack stk s k = (if stack (procs k s) = None
     then do { b \<leftarrow> stk; Some (upd s (\<lambda>q. q\<lparr>canary1 := canary, canary2 := canary, stack := Some (b + 8)\<rparr>) k) }
     else Some k)"

definition joinTable :: "nat option \<Rightarrow> nat \<Rightarrow> Kern \<Rightarrow> (nat \<times> Kern) option" where
  "joinTable grp s k =
     do {
       (g, k5) \<leftarrow> newProcGroup grp (pid (procs k s)) k;
       let k6 = upd s (\<lambda>q. q\<lparr>pgrp := Some g, ppid := getpid k5, sigPending := 0, sigMask := 0\<rparr>) k5;
       old \<leftarrow> tableAt k6 (pid (procs k6 s));
       if old \<noteq> None then None
       else Some (s, k6\<lparr>procTable := (procTable k6)(nat (pid (procs k6 s)) \<mapsto> s)\<rparr>)
     }"

lemma newProc_steps:
  "newProc stk grp k =
     do {
       lk \<leftarrow> syslock (rpid k) (rpdead k) (freelistLock k);
       if listIsEmpty FreeHead (links k) then None
       else do {
         n \<leftarrow> nxt (links k) FreeHead;
         s \<leftarrow> (case n of NextFree s \<Rightarrow> Some s | _ \<Rightarrow> None);
         l \<leftarrow> listUnlink n (links k);
         let k2 = upd s (\<lambda>q. q\<lparr>state := ProcSpawning\<rparr>)
           (setLinks (initAll s l) ((setLinks l k)\<lparr>freelistLock := sysunlock (rpid k) lk\<rparr>));
         k3 \<leftarrow> pickPid s k2;
         if pid (procs k3 s) = 0 then None else do { k4 \<leftarrow> pickStack stk s k3; joinTable grp s k4 }
       }
     }"
  unfolding newProc_def pickPid_def pickStack_def joinTable_def initAll_def Let_def
  by (simp cong: if_cong)

text \<open>What stays of the kernel through these steps.\<close>

definition kept_by :: "nat \<Rightarrow> Kern \<Rightarrow> Kern \<Rightarrow> bool" where
  "kept_by s k k' \<longleftrightarrow> links k' = links k \<and> procTable k' = procTable k \<and> rp k' = rp k \<and> pgrps k' = pgrps k \<and>
     (\<forall>t. t \<noteq> s \<longrightarrow> procs k' t = procs k t)"

lemma kept_by_self: "kept_by s k k' \<Longrightarrow> rp k \<noteq> Some s \<Longrightarrow> rpid k' = rpid k \<and> rpdead k' = rpdead k \<and> getpid k' = getpid k"
  by (cases "rp k") (auto simp: kept_by_def rpid_def rpdead_def getpid_def)

lemma pickPid_ok:
  assumes "lock_free k (rlock (nextPid k))" "pid (procs k s) \<noteq> 0 \<or> 0 \<le> rcount (nextPid k) \<and> rcount (nextPid k) < 1000"
  shows "\<exists>k' i. pickPid s k = Some k' \<and> kept_by s k k' \<and> procs k' s = (procs k s)\<lparr>pid := i\<rparr> \<and>
           i = (if pid (procs k s) = 0 then rcount (nextPid k) + 1 else pid (procs k s))"
proof (cases "pid (procs k s) = 0")
  case True
  then obtain r where "incRef (rpid k) (rpdead k) (nextPid k) = Some (rcount (nextPid k) + 1, r)"
    using lock_free_incRef [OF assms(1)] assms(2) by auto
  then show ?thesis using True by (simp add: pickPid_def kept_by_def)
qed (simp add: pickPid_def kept_by_def)

lemma pickStack_ok:
  assumes "slot_ok (procs k s)"
  shows "\<exists>k'. pickStack (Some b) s k = Some k' \<and> kept_by s k k' \<and> stack (procs k' s) \<noteq> None \<and>
           canary1 (procs k' s) = canary1 (procs k' s) \<and> canary1 (procs k' s) = canary2 (procs k' s) \<and>
           pid (procs k' s) = pid (procs k s) \<and> state (procs k' s) = state (procs k s)"
  using assms by (cases "stack (procs k s)") (auto simp: pickStack_def kept_by_def slot_ok_def)

lemma joinTable_ok:
  assumes free: "lock_free k initLock" and s: "rp k \<noteq> Some s" "0 \<le> pid (procs k s)" "pid (procs k s) < int MANOS_MAXPROC"
    "procTable k (nat (pid (procs k s))) = None"
  shows "\<exists>k' grp. joinTable (Some g) s k = Some (s, k') \<and> links k' = links k \<and>
           procTable k' = (procTable k)(nat (pid (procs k s)) \<mapsto> s) \<and> pgrps k' = (pgrps k)(g \<mapsto> grp) \<and>
           rcount (memberCount grp) = 1 \<and> pgid grp = pid (procs k s) \<and> (\<forall>t. t \<noteq> s \<longrightarrow> procs k' t = procs k t) \<and>
           procs k' s = (procs k s)\<lparr>pgrp := Some g, ppid := getpid k, sigPending := 0, sigMask := 0\<rparr>"
proof -
  have "rlock initRef = initLock" "rcount initRef = 0" by (simp_all add: initRef_def)
  then obtain r where r: "incRef (rpid k) (rpdead k) initRef = Some (1, r)" "rcount r = 1"
    using lock_free_incRef [of k initRef] free by auto
  have "getpid (k\<lparr>pgrps := x\<rparr>) = getpid k" for x by (cases "rp k") (simp_all add: getpid_def)
  then show ?thesis using s r
    by (simp add: joinTable_def newProcGroup_def Let_def tableAt_def)
      (intro exI [of _ "\<lparr>memberCount = r, pgid = pid (procs k s)\<rparr>"], simp)
qed

lemma newProc_ok:
  assumes rings: "ring (links k) FreeHead (map NextFree (s # f))" "ring (links k) RunHead (map NextRunQ q)" "s \<notin> set q"
    and locks: "lock_free k (freelistLock k)" "lock_free k (rlock (nextPid k))" and rp: "rp k \<noteq> Some s"
    and slot: "slot_ok (procs k s)" and i: "i = (if pid (procs k s) = 0 then rcount (nextPid k) + 1 else pid (procs k s))"
    "0 < i" "i < int MANOS_MAXPROC" "procTable k (nat i) = None"
  shows "\<exists>k' grp. newProc (Some b) (Some g) k = Some (s, k') \<and> spawned k s g (procs k' s) \<and>
           ring (links k') FreeHead (map NextFree f) \<and> ring (links k') RunHead (map NextRunQ q) \<and>
           procTable k' = (procTable k)(nat i \<mapsto> s) \<and> (\<forall>t. t \<noteq> s \<longrightarrow> procs k' t = procs k t) \<and>
           pgrps k' = (pgrps k)(g \<mapsto> grp) \<and> rcount (memberCount grp) = 1 \<and> pgid grp = i"
proof -
  obtain l where l: "nxt (links k) FreeHead = Some (NextFree s)" "\<not> listIsEmpty FreeHead (links k)"
    "listUnlink (NextFree s) (links k) = Some l" "ring (initAll s l) FreeHead (map NextFree f)"
    "ring (initAll s l) RunHead (map NextRunQ q)" using take_slot [OF rings] by blast
  obtain lk where lk: "syslock (rpid k) (rpdead k) (freelistLock k) = Some lk" using lock_free_syslock [OF locks(1)] by blast
  define k2 where "k2 = upd s (\<lambda>q. q\<lparr>state := ProcSpawning\<rparr>)
    (setLinks (initAll s l) ((setLinks l k)\<lparr>freelistLock := sysunlock (rpid k) lk\<rparr>))"
  have k2: "links k2 = initAll s l" "procTable k2 = procTable k" "rp k2 = rp k" "pgrps k2 = pgrps k" "nextPid k2 = nextPid k"
    "\<forall>t. t \<noteq> s \<longrightarrow> procs k2 t = procs k t" "procs k2 s = (procs k s)\<lparr>state := ProcSpawning\<rparr>" by (simp_all add: k2_def)
  have same2: "rpid k2 = rpid k" "rpdead k2 = rpdead k" "getpid k2 = getpid k"
    using rp k2(3,6) by (cases "rp k"; auto simp: rpid_def rpdead_def getpid_def)+
  have "lock_free k2 (rlock (nextPid k2))" using locks(2) by (simp add: lock_free_def same2 k2(5))
  moreover have "pid (procs k2 s) \<noteq> 0 \<or> 0 \<le> rcount (nextPid k2) \<and> rcount (nextPid k2) < 1000"
    using i by (auto simp: k2(5,7) split: if_splits)
  ultimately obtain k3 where k3: "pickPid s k2 = Some k3" "kept_by s k2 k3" "procs k3 s = (procs k2 s)\<lparr>pid := i\<rparr>"
    using pickPid_ok [of k2 s] i(1) by (auto simp: k2(5,7))
  have "slot_ok (procs k3 s)" using slot i(2) by (simp add: slot_ok_def k3(3) k2(7))
  then obtain k4 where k4: "pickStack (Some b) s k3 = Some k4" "kept_by s k3 k4" "stack (procs k4 s) \<noteq> None"
    "canary1 (procs k4 s) = canary2 (procs k4 s)" "pid (procs k4 s) = i" "state (procs k4 s) = ProcSpawning"
    using pickStack_ok [of k3 s b] by (auto simp: k3(3) k2(7))
  have rp3: "rp k3 = rp k" using k3(2) k2(3) by (simp add: kept_by_def)
  have self3: "rpid k3 = rpid k2 \<and> rpdead k3 = rpdead k2 \<and> getpid k3 = getpid k2"
    by (rule kept_by_self [OF k3(2)]) (simp add: k2(3) rp)
  have self4: "rpid k4 = rpid k3 \<and> rpdead k4 = rpdead k3 \<and> getpid k4 = getpid k3"
    by (rule kept_by_self [OF k4(2)]) (simp add: rp3 rp)
  have "lock_free k4 initLock" using lock_free_init [OF locks(1)] self3 self4 same2 by (simp add: lock_free_def)
  moreover have "rp k4 \<noteq> Some s" "procTable k4 = procTable k" "links k4 = initAll s l" "pgrps k4 = pgrps k"
    "\<forall>t. t \<noteq> s \<longrightarrow> procs k4 t = procs k t"
    using k3(2) k4(2) k2 rp by (simp_all add: kept_by_def)
  moreover have "getpid k4 = getpid k" using self3 self4 same2 by simp
  ultimately show ?thesis
    using joinTable_ok [of k4 s g] k4(3-6) i l lk k3(1,3) k4(1)
    unfolding newProc_steps lk l(1) k2_def [symmetric] spawned_def
    by (auto simp: k2_def [symmetric])
qed


subsection \<open>An example\<close>

text \<open>Process 3 runs; 1, 2 and 4 are queued with the states of \<open>st\<close>; slot 5 is free.\<close>

definition exampleProc :: "(nat \<Rightarrow> ProcState) \<Rightarrow> nat \<Rightarrow> Proc" where
  "exampleProc st s =
     \<lparr>pid = (if s = badProc then -1 else if s = 5 then 0 else int s), ppid = 0, tty = 0, state = st s,
      fds = (\<lambda>_. None), pslash = None, pdot = None, pgrp = (if s \<in> {1, 2, 3, 4} then Some s else None), canary1 = canary, canary2 = canary,
      stack = (if s = 5 then None else Some 0x20000000), sp = 0x20000100, sigPending = 0, sigMask = 0, pargv = 0\<rparr>"

definition exampleLinks :: "node links" where
  "exampleLinks =
     \<lparr>prv = (\<lambda>n. if n = RunHead then Some (NextRunQ 4) else if n = NextRunQ 1 then Some RunHead
        else if n = NextRunQ 2 then Some (NextRunQ 1) else if n = NextRunQ 4 then Some (NextRunQ 2)
        else if n = FreeHead then Some (NextFree 5) else if n = NextFree 5 then Some FreeHead else Some n),
      nxt = (\<lambda>n. if n = RunHead then Some (NextRunQ 1) else if n = NextRunQ 1 then Some (NextRunQ 2)
        else if n = NextRunQ 2 then Some (NextRunQ 4) else if n = NextRunQ 4 then Some RunHead
        else if n = FreeHead then Some (NextFree 5) else if n = NextFree 5 then Some FreeHead else Some n)\<rparr>"

definition exampleKern :: "(nat \<Rightarrow> ProcState) \<Rightarrow> Kern" where
  "exampleKern st =
     \<lparr>links = exampleLinks, procs = exampleProc st, procTable = (\<lambda>i. if i \<in> {1, 2, 3, 4} then Some i else None),
      rp = Some 3, nextPid = \<lparr>rcount = 4, rlock = initLock\<rparr>, freelistLock = initLock, runQLock = initLock,
      pgrps = (\<lambda>g. if g \<in> {1, 2, 3, 4} then Some \<lparr>memberCount = \<lparr>rcount = 1, rlock = initLock\<rparr>, pgid = int g\<rparr> else None),
      freed = [], console = []\<rparr>"

lemma exampleKern_inv: "running_inv (exampleKern st) [1, 2, 4] [5] 3"
proof -
  have mem: "members (exampleKern st) b = (if b \<in> {1, 2, 3, 4} then {b} else {})" for b
    by (auto simp: members_def exampleKern_def exampleProc_def)
  have "groups_ok (exampleKern st)"
    unfolding groups_ok_def mem by (simp add: exampleKern_def exampleProc_def)
  then show ?thesis
    by (simp add: running_inv_def run_inv_def ring_def queued_ok_def exampleKern_def exampleLinks_def exampleProc_def
        stackOk_def canary2At_def)
qed

subsection \<open>Properties\<close>



text \<open>
  C16: the scheduler is fair: while the queued processes are all ready, \<open>n\<close> time slices later the
  process that runs is the one \<open>n\<close> places on in the queue, counted from the process that runs now
  and going round; so every process of the queue gets the processor again and again.
\<close>

theorem scheduleProc_round_robin:
  assumes "running_inv k q f r" and "state (procs k r) = ProcRunning" and "\<forall>s \<in> set q. state (procs k s) = ProcReady"
    and "\<forall>x \<in> set xs. \<forall>s \<in> set (r # q). stackOk x (procs k s)"
  shows "\<exists>k'. quanta xs k = Some k' \<and> rp k' = Some ((r # q) ! (length xs mod length (r # q)))"
proof -
  have "hd (rotate (length xs) (r # q)) = (r # q) ! (length xs mod length (r # q))"
    by (rule hd_rotate_conv_nth) simp
  then show ?thesis using quanta_rotate [OF assms] by (auto simp: running_inv_def)
qed

theorem scheduleProc_round_robin_witness:
  "\<exists>st k'. quanta (replicate 6 0x20000200) (exampleKern st) = Some k' \<and> rp k' = Some 2"
proof -
  let ?st = "\<lambda>s :: nat. if s = 3 then ProcRunning else ProcReady"
  have "\<forall>x \<in> set (replicate 6 0x20000200). \<forall>s \<in> set [3, 1, 2, 4]. stackOk x (procs (exampleKern ?st) s)"
    by (simp add: exampleKern_def exampleProc_def stackOk_def canary2At_def)
  moreover have "state (procs (exampleKern ?st) 3) = ProcRunning"
    "\<forall>s \<in> set [1, 2, 4]. state (procs (exampleKern ?st) s) = ProcReady"
    by (simp_all add: exampleKern_def exampleProc_def)
  ultimately have "\<exists>k'. quanta (replicate 6 0x20000200) (exampleKern ?st) = Some k' \<and>
      rp k' = Some ([3, 1, 2, 4] ! (length (replicate 6 (0x20000200 :: u32)) mod length [3, 1, 2, 4 :: nat]))"
    by (intro scheduleProc_round_robin [OF exampleKern_inv]) simp_all
  moreover have "[3, 1, 2, 4] ! (length (replicate 6 (0x20000200 :: u32)) mod length [3, 1, 2, 4 :: nat]) = 2" by simp
  ultimately show ?thesis by metis
qed

text \<open>
  C24: \<open>waitpid\<close> blocks until the process waited for ends: the caller becomes a waiting process in
  the queue of the other, and when the other wakes its waiters, the caller and every process
  that waited before it are ready, none is queued any more, and each can wait again.
\<close>

theorem waitpid_until_exit:
  assumes "0 \<le> p" and "p < int MANOS_MAXPROC" and "procTable k (nat p) = Some s" and "rp k = Some r"
    and "ring (links k) (NextWaitQ r) []" and "ring (links k) (WaitQ s) (map NextWaitQ ws)" and "r \<notin> set ws"
  shows "\<exists>k1 k2. syswaitpid p k = Some k1 \<and> state (procs k1 r) = ProcWaiting \<and>
           ring (links k1) (WaitQ s) (map NextWaitQ (r # ws)) \<and> (\<forall>t. t \<noteq> r \<longrightarrow> procs k1 t = procs k t) \<and>
           wakeWaiting s k1 = Some k2 \<and> ring (links k2) (WaitQ s) [] \<and>
           (\<forall>w \<in> set (r # ws). state (procs k2 w) = ProcReady \<and> ring (links k2) (NextWaitQ w) []) \<and>
           (\<forall>t. t \<notin> set (r # ws) \<longrightarrow> procs k2 t = procs k t)"
proof -
  obtain l where l: "listAddAfter (NextWaitQ r) (WaitQ s) (links k) = Some l" "ring l (WaitQ s) (NextWaitQ r # map NextWaitQ ws)"
    using listAddAfter_ring [OF assms(6), of "NextWaitQ r"] assms(7) by auto
  let ?k1 = "upd r (\<lambda>q. q\<lparr>state := ProcWaiting\<rparr>) (setLinks l k)"
  have "listIsEmpty (NextWaitQ r) (links k)" using assms(5) by (simp add: listIsEmpty_def ring_nil)
  then have k1: "syswaitpid p k = Some ?k1" using assms(1-4) l(1) by (simp add: syswaitpid_def tableAt_def)
  obtain k2 where "wakeWaiting s ?k1 = Some k2" "woken s (r # ws) ?k1 k2"
    using wakeWaiting_ring [of ?k1 s "r # ws"] l(2) by auto
  then show ?thesis using k1 l(2) by (auto simp: woken_def readied_def)
qed

theorem waitpid_until_exit_witness:
  "\<exists>k1 k2. syswaitpid 4 (exampleKern (\<lambda>_. ProcRunning)) = Some k1 \<and> state (procs k1 3) = ProcWaiting \<and>
     wakeWaiting 4 k1 = Some k2 \<and> state (procs k2 3) = ProcReady"
proof -
  have "ring (links (exampleKern (\<lambda>_. ProcRunning))) (NextWaitQ 3) []"
    "ring (links (exampleKern (\<lambda>_. ProcRunning))) (WaitQ 4) (map NextWaitQ [])"
    by (simp_all add: ring_def exampleKern_def exampleLinks_def)
  then show ?thesis
    using waitpid_until_exit [of 4 "exampleKern (\<lambda>_. ProcRunning)" 4 3 "[]"] by (auto simp: exampleKern_def)
qed

text \<open>
  Starting a process takes the slot at the head of the free list: it gets the next identifier
  (or keeps the one it had), a stack whose canaries agree, a group of its own with one member and
  an entry in the process table; it is spawning, no signal is pending, and no other process and
  neither queue is disturbed.
\<close>

theorem newProc_takes_slot:
  assumes "ring (links k) FreeHead (map NextFree (s # f))" and "ring (links k) RunHead (map NextRunQ q)" and "s \<notin> set q"
    and "lock_free k (freelistLock k)" and "lock_free k (rlock (nextPid k))" and "rp k \<noteq> Some s" and "slot_ok (procs k s)"
    and "i = (if pid (procs k s) = 0 then rcount (nextPid k) + 1 else pid (procs k s))"
    and "0 < i" and "i < int MANOS_MAXPROC" and "procTable k (nat i) = None"
  shows "\<exists>k' grp. newProc (Some b) (Some g) k = Some (s, k') \<and> spawned k s g (procs k' s) \<and>
           ring (links k') FreeHead (map NextFree f) \<and> ring (links k') RunHead (map NextRunQ q) \<and>
           procTable k' = (procTable k)(nat i \<mapsto> s) \<and> (\<forall>t. t \<noteq> s \<longrightarrow> procs k' t = procs k t) \<and>
           pgrps k' = (pgrps k)(g \<mapsto> grp) \<and> rcount (memberCount grp) = 1 \<and> pgid grp = i"
  by (rule newProc_ok [OF assms])

theorem newProc_takes_slot_witness:
  "\<exists>k' grp. newProc (Some 0x20010000) (Some 9) (exampleKern (\<lambda>_. ProcRunning)) = Some (5, k') \<and>
     spawned (exampleKern (\<lambda>_. ProcRunning)) 5 9 (procs k' 5) \<and> procTable k' 5 = Some 5 \<and> pgid (grp :: ProcGroup) = 5"
proof -
  let ?k = "exampleKern (\<lambda>_. ProcRunning)"
  have "ring (links ?k) FreeHead (map NextFree [5])" "ring (links ?k) RunHead (map NextRunQ [1, 2, 4])" "5 \<notin> set [1, 2, 4 :: nat]"
    "lock_free ?k (freelistLock ?k)" "lock_free ?k (rlock (nextPid ?k))" "rp ?k \<noteq> Some 5" "slot_ok (procs ?k 5)"
    "5 = (if pid (procs ?k 5) = 0 then rcount (nextPid ?k) + 1 else pid (procs ?k 5))"
    "(0 :: int) < 5" "5 < int MANOS_MAXPROC" "procTable ?k (nat 5) = None"
    by (simp_all add: ring_def exampleKern_def exampleLinks_def exampleProc_def lock_free_def rpdead_def initLock_def slot_ok_def)
  from newProc_takes_slot [OF this, of "0x20010000" 9]
  obtain k' and grp :: ProcGroup where k': "newProc (Some 0x20010000) (Some 9) ?k = Some (5, k')" "spawned ?k 5 9 (procs k' 5)"
    "procTable k' = (procTable ?k)(nat 5 \<mapsto> 5)" "pgid grp = 5"
    by (elim exE conjE) (rule that)
  have "procTable k' 5 = Some 5" unfolding k'(3) by simp
  then show ?thesis using k'(1,2,4) by blast
qed

subsection \<open>Where the process code fails\<close>

text \<open>A loop whose node links to itself has no end.\<close>

lemma wake_self_diverges:
  assumes "nxt (links k) (NextWaitQ w) = Some (NextWaitQ w)" "prv (links k) (NextWaitQ w) = Some (NextWaitQ w)"
  shows "eachSafe (WaitQ p) wakeBody (Some (NextWaitQ w)) (Some (NextWaitQ w)) k = None"
proof -
  let ?P = "\<lambda>h body pos x k (r :: node option \<times> Kern). h = WaitQ p \<longrightarrow> body = wakeBody \<longrightarrow> pos = Some (NextWaitQ w) \<longrightarrow>
    x = Some (NextWaitQ w) \<longrightarrow> \<not> (nxt (links k) (NextWaitQ w) = Some (NextWaitQ w) \<and> prv (links k) (NextWaitQ w) = Some (NextWaitQ w))"
  have "?P h body pos x k r" if "eachSafe h body pos x k = Some r" for h body pos x k r
    by (rule eachSafe.raw_induct [where P = ?P and xa = "((((h, body), pos), x), k)" and y = r, unfolded prod.case, OF _ that])
      (auto simp: wakeBody_def listUnlinkAndInit_def INIT_LIST_HEAD_def listUnlinkBetween_def Let_def
        split: option.splits bind_splits if_splits, fastforce)
  then show ?thesis using assms by (metis not_None_eq)
qed

text \<open>
  A process that is killed while it waits for another hangs the kernel: recycling it makes
  its wait links point to itself, while the process it waited for still has it first in its
  queue, and then waking the waiters of that process never ends.
\<close>

theorem killed_waiter_hangs_exit:
  assumes "ring (links k) (WaitQ p) (map NextWaitQ (w # ws))" and "w \<noteq> p"
    and "links k' = initAll w (links k)"
  shows "wakeWaiting p k' = None"
proof -
  have "nxt (links k) (WaitQ p) = Some (NextWaitQ w)" using assms(1) by (simp add: ring_def)
  then have l: "nxt (links k') (WaitQ p) = Some (NextWaitQ w)"
    "nxt (links k') (NextWaitQ w) = Some (NextWaitQ w)" "prv (links k') (NextWaitQ w) = Some (NextWaitQ w)"
    using assms(2,3) by (simp_all add: initAll_def INIT_LIST_HEAD_def)
  then show ?thesis using wake_self_diverges [OF l(2,3)]
    by (simp add: wakeWaiting_body forEachSafe_def listIsEmpty_def)
qed


theorem killed_waiter_hangs_exit_witness:
  "\<exists>k1 k2. syswaitpid 4 (exampleKern (\<lambda>_. ProcDead)) = Some k1 \<and> links k2 = initAll 3 (links k1) \<and> wakeWaiting 4 k2 = None"
proof -
  let ?k = "exampleKern (\<lambda>_. ProcDead)"
  have e: "listIsEmpty (NextWaitQ 3) (links ?k)" "ring (links ?k) (WaitQ 4) []"
    by (simp_all add: ring_def listIsEmpty_def exampleKern_def exampleLinks_def)
  obtain l where l: "listAddAfter (NextWaitQ 3) (WaitQ 4) (links ?k) = Some l" "ring l (WaitQ 4) (map NextWaitQ [3])"
    using listAddAfter_ring [OF e(2), of "NextWaitQ 3"] by auto
  let ?k1 = "upd 3 (\<lambda>q. q\<lparr>state := ProcWaiting\<rparr>) (setLinks l ?k)"
  have "procTable ?k 4 = Some 4" "rp ?k = Some 3" by (simp_all add: exampleKern_def)
  then have "syswaitpid 4 ?k = Some ?k1" using e(1) l(1) by (simp add: syswaitpid_def tableAt_def)
  moreover have "wakeWaiting 4 (setLinks (initAll 3 l) ?k1) = None"
    by (rule killed_waiter_hangs_exit [of ?k1 4 3 "[]"]) (use l(2) in simp_all)
  moreover have "links (setLinks (initAll 3 l) ?k1) = initAll 3 (links ?k1)" by simp
  ultimately show ?thesis by blast
qed

text \<open>
  Unblocking signals changes nothing: whatever signals it is asked to unblock, the mask of the
  running process stays as it was.
\<close>

theorem setSignalUnblock_keeps_mask:
  "setSignalUnblock m k = map_option (\<lambda>r. (sigMask (procs k r), k)) (rp k)"
proof -
  have "v OR (v AND NOT m) = v" for v :: u32 by (simp add: bit_eq_iff bit_simps)
  then have "upd r (\<lambda>q. q\<lparr>sigMask := sigMask q OR (sigMask q AND NOT m)\<rparr>) k = k" for r
    by (intro upd_same) simp
  then show ?thesis by (simp add: setSignalUnblock_def map_option_case split: option.splits)
qed

end
