(* ===== verification/Crumbs.thy ===== *)
theory Crumbs
  imports ManosPrelude
begin

text \<open>
  The namespace vocabulary of \<open>include/manos/types.h\<close> and its small operations: crumbs and
  walk trails (\<open>src/src/crumb\<close>, \<open>src/src/walk/emptyWalkTrail.c\<close>), portals
  (\<open>src/src/portal\<close>), node information (\<open>src/src/nodeinfo\<close>) and the static namespace
  macros of \<open>include/manos/api.h\<close>.
\<close>

subsection \<open>Crumbs, portals and node information\<close>

record Crumb =
  cflags :: u8
  fid :: u32

abbreviation "CRUMB_ISDIR \<equiv> (0x80 :: u8)"
abbreviation "CRUMB_ISMOUNT \<equiv> (0x10 :: u8)"
abbreviation "CRUMB_ISSTATIC \<equiv> (0x02 :: u8)"
abbreviation "CRUMB_ISFILE \<equiv> (0x01 :: u8)"

definition mkCrumb :: "Crumb \<Rightarrow> u32 \<Rightarrow> u8 \<Rightarrow> Crumb" where
  "mkCrumb c f fl = c\<lparr>fid := f, cflags := fl\<rparr>"

record WalkTrail =
  wmax :: u32
  wtop :: u32
  crumbs :: "Crumb list"

record Portal =
  pdevice :: int
  pflags :: u32
  pcrumb :: Crumb
  pcaps :: u32
  poffset :: u32

abbreviation "PORTAL_ISOPEN \<equiv> (0x01 :: u32)"

definition mkPortal :: "Portal \<Rightarrow> int \<Rightarrow> Portal" where
  "mkPortal p device =
     p\<lparr>pdevice := device, pflags := 0, pcrumb := \<lparr>cflags = 0, fid = 0\<rparr>, pcaps := 0, poffset := 0\<rparr>"

text \<open>Only the device and the crumb are copied: the other fields of \<open>px\<close> keep their values.\<close>

definition clonePortal :: "Portal \<Rightarrow> Portal \<Rightarrow> Portal" where
  "clonePortal p px = px\<lparr>pdevice := pdevice p, pcrumb := pcrumb p\<rparr>"

definition closePortal :: "Portal \<Rightarrow> Portal" where
  "closePortal p = p"

definition PORTAL_ISDIR :: "Portal \<Rightarrow> bool" where
  "PORTAL_ISDIR p \<longleftrightarrow> cflags (pcrumb p) AND CRUMB_ISDIR \<noteq> 0"

definition PORTAL_ISSTATICNS :: "Portal \<Rightarrow> bool" where
  "PORTAL_ISSTATICNS p \<longleftrightarrow> cflags (pcrumb p) AND CRUMB_ISSTATIC \<noteq> 0"

text \<open>
  The \<open>contents\<close> pointer of a node: \<open>NULL\<close>, a string constant, or a link to a hardware
  object (the devices that build their namespace at reset store one there), by its number.
\<close>

datatype contents = NoContents | StrContents string | HwContents nat

record NodeInfo =
  ni_name :: string
  ni_crumb :: Crumb
  ni_device :: int
  ni_mode :: u32
  ni_atime :: u32
  ni_mtime :: u32
  ni_length :: u32
  ni_contents :: contents

definition mkNodeInfo :: "Portal \<Rightarrow> Crumb \<Rightarrow> string \<Rightarrow> u32 \<Rightarrow> u32 \<Rightarrow> NodeInfo \<Rightarrow> NodeInfo" where
  "mkNodeInfo p c name len mode ni =
     ni\<lparr>ni_name := name, ni_crumb := c, ni_device := pdevice p, ni_mode := mode,
        ni_atime := 0, ni_mtime := 0, ni_length := len\<rparr>"

datatype WalkDirection = WalkUp | WalkDown | WalkPrev | WalkNext | WalkSelf

subsection \<open>Walk trails\<close>

text \<open>
  The allocator returns zeroed memory, or \<open>NULL\<close> where \<open>avail\<close> is false for the size asked
  for; \<open>emptyWalkTrail\<close> relies on the zeroes for \<open>top\<close>.
\<close>

definition zeroTrail :: "u32 \<Rightarrow> WalkTrail" where
  "zeroTrail n = \<lparr>wmax = 0, wtop = 0, crumbs = replicate (unat n) \<lparr>cflags = 0, fid = 0\<rparr>\<rparr>"

definition emptyWalkTrail :: "(u32 \<Rightarrow> bool) \<Rightarrow> u32 \<Rightarrow> errno + WalkTrail" where
  "emptyWalkTrail avail n =
     (if avail (8 + 8 * n) then Inr ((zeroTrail n)\<lparr>wmax := n\<rparr>) else Inl ENOMEM)"

definition pushCrumb :: "WalkTrail \<Rightarrow> Crumb \<Rightarrow> (errno + WalkTrail) option" where
  "pushCrumb t c =
     (if wmax t \<le> wtop t then Some (Inl ENOBUFS)
      else if unat (wtop t) < length (crumbs t)
      then Some (Inr (t\<lparr>crumbs := (crumbs t)[unat (wtop t) := c], wtop := wtop t + 1\<rparr>))
      else None)"

definition popCrumb :: "WalkTrail \<Rightarrow> (errno + Crumb \<times> WalkTrail) option" where
  "popCrumb t =
     (if wtop t = 0 then Some (Inl ENODATA)
      else if unat (wtop t) < length (crumbs t)
      then Some (Inr (crumbs t ! unat (wtop t), t\<lparr>wtop := wtop t - 1\<rparr>))
      else None)"

definition topCrumb :: "WalkTrail \<Rightarrow> (errno + Crumb) option" where
  "topCrumb t =
     (if wtop t = 0 then Some (Inl ENODATA)
      else if unat (wtop t) - 1 < length (crumbs t)
      then Some (Inr (crumbs t ! (unat (wtop t) - 1)))
      else None)"

definition trail_inv :: "WalkTrail \<Rightarrow> bool" where
  "trail_inv t \<longleftrightarrow> wtop t \<le> wmax t \<and> length (crumbs t) = unat (wmax t)"

definition trail :: "WalkTrail \<Rightarrow> Crumb list" where
  "trail t = take (unat (wtop t)) (crumbs t)"

lemma emptyWalkTrail_inv:
  "emptyWalkTrail avail n = Inr t \<Longrightarrow> trail_inv t \<and> trail t = [] \<and> wmax t = n"
  by (auto simp: emptyWalkTrail_def zeroTrail_def trail_inv_def trail_def split: if_splits)

lemma length_trail [simp]: "trail_inv t \<Longrightarrow> length (trail t) = unat (wtop t)"
  by (simp add: trail_def trail_inv_def word_le_nat_alt)

lemma pushCrumb_room:
  assumes inv: "trail_inv t" and room: "length (trail t) < unat (wmax t)"
  shows "\<exists>t'. pushCrumb t c = Some (Inr t') \<and> trail_inv t' \<and> trail t' = trail t @ [c] \<and> wmax t' = wmax t"
proof -
  have lt: "wtop t < wmax t" using room inv by (simp add: word_less_nat_alt)
  have n: "unat (wtop t) < length (crumbs t)" using lt inv by (simp add: trail_inv_def word_less_nat_alt)
  have u: "unat (wtop t + 1) = Suc (unat (wtop t))" by (rule unat_inc_lt [OF lt])
  have "trail (t\<lparr>crumbs := (crumbs t)[unat (wtop t) := c], wtop := wtop t + 1\<rparr>) = trail t @ [c]"
    using n u by (simp add: trail_def take_Suc_conv_app_nth)
  moreover have "trail_inv (t\<lparr>crumbs := (crumbs t)[unat (wtop t) := c], wtop := wtop t + 1\<rparr>)"
    using inv u n by (simp add: trail_inv_def word_le_nat_alt)
  ultimately show ?thesis using lt n by (simp add: pushCrumb_def not_le [symmetric])
qed

lemma topCrumb_last:
  assumes "trail_inv t"
  shows "topCrumb t = Some (if trail t = [] then Inl ENODATA else Inr (last (trail t)))"
proof (cases "wtop t = 0")
  case True
  then show ?thesis by (simp add: topCrumb_def trail_def)
next
  case False
  then have pos: "0 < unat (wtop t)" by (simp add: unat_gt_0)
  have n: "unat (wtop t) \<le> length (crumbs t)"
    using assms by (simp add: trail_inv_def word_le_nat_alt)
  then have ne: "trail t \<noteq> []" using pos by (auto simp: trail_def)
  then have "last (trail t) = crumbs t ! (unat (wtop t) - 1)"
    using pos n by (simp add: trail_def last_conv_nth min_absorb2)
  then show ?thesis using False ne pos n by (auto simp: topCrumb_def)
qed

subsection \<open>Static namespaces\<close>

record StaticNS =
  sname :: string
  scrumb :: Crumb
  slength :: u32
  smode :: u32
  scontents :: contents

abbreviation "STATICNS_SENTINEL \<equiv> (0xffff :: u32)"

definition MKSTATICNS_FID :: "u32 \<Rightarrow> u32 \<Rightarrow> u32" where
  "MKSTATICNS_FID p s = push_bit 16 (p AND 0xfff) OR (s AND 0xffff)"

definition MKSTATICNS_CRUMB :: "u32 \<Rightarrow> u32 \<Rightarrow> u8 \<Rightarrow> Crumb" where
  "MKSTATICNS_CRUMB p s f = \<lparr>cflags = f OR CRUMB_ISSTATIC, fid = MKSTATICNS_FID p s\<rparr>"

definition MKSTATICNS_SENTINEL_CRUMB :: Crumb where
  "MKSTATICNS_SENTINEL_CRUMB = MKSTATICNS_CRUMB STATICNS_SENTINEL STATICNS_SENTINEL 0"

definition STATICNS_CRUMB_ISSENTINEL :: "Crumb \<Rightarrow> bool" where
  "STATICNS_CRUMB_ISSENTINEL c \<longleftrightarrow>
     cflags c AND CRUMB_ISSTATIC \<noteq> 0 \<and> fid c = STATICNS_SENTINEL"

definition STATICNS_CRUMB_PARENT_IDX :: "Crumb \<Rightarrow> u16" where
  "STATICNS_CRUMB_PARENT_IDX c = ucast (drop_bit 16 (fid c) AND 0xffff)"

definition STATICNS_CRUMB_SELF_IDX :: "Crumb \<Rightarrow> u16" where
  "STATICNS_CRUMB_SELF_IDX c = ucast (fid c AND 0xffff)"

lemma fid_indices:
  "STATICNS_CRUMB_SELF_IDX (MKSTATICNS_CRUMB p s f) = ucast s"
  "STATICNS_CRUMB_PARENT_IDX (MKSTATICNS_CRUMB p s f) = ucast (p AND 0xfff)"
proof -
  have m: "(0xffff :: u32) = mask 16" "(0xfff :: u32) = mask 12"
    by (simp_all add: mask_eq_exp_minus_1)
  show "STATICNS_CRUMB_SELF_IDX (MKSTATICNS_CRUMB p s f) = ucast s"
    "STATICNS_CRUMB_PARENT_IDX (MKSTATICNS_CRUMB p s f) = ucast (p AND 0xfff)"
    unfolding STATICNS_CRUMB_SELF_IDX_def STATICNS_CRUMB_PARENT_IDX_def MKSTATICNS_CRUMB_def
      MKSTATICNS_FID_def m
    by (auto intro!: bit_word_eqI simp: bit_simps)
qed

lemma sentinel_not_recognised:
  "\<not> STATICNS_CRUMB_ISSENTINEL MKSTATICNS_SENTINEL_CRUMB"
  by (simp add: STATICNS_CRUMB_ISSENTINEL_def MKSTATICNS_SENTINEL_CRUMB_def MKSTATICNS_CRUMB_def
      MKSTATICNS_FID_def)

subsection \<open>Properties\<close>

text \<open>
  A walk trail is a bounded stack for \<open>pushCrumb\<close> and \<open>topCrumb\<close>: with room, a push is
  memory safe and keeps the trail well formed, appends the crumb and makes it the top one;
  without room it fails with \<open>ENOBUFS\<close>.
\<close>

theorem pushCrumb_topCrumb:
  assumes "trail_inv t"
  shows "(case pushCrumb t c of
            None \<Rightarrow> False
          | Some (Inl e) \<Rightarrow> e = ENOBUFS \<and> length (trail t) = unat (wmax t)
          | Some (Inr t') \<Rightarrow> trail_inv t' \<and> trail t' = trail t @ [c] \<and> topCrumb t' = Some (Inr c))"
proof (cases "length (trail t) < unat (wmax t)")
  case True
  then obtain t' where "pushCrumb t c = Some (Inr t')" "trail_inv t'" "trail t' = trail t @ [c]"
    using pushCrumb_room [OF assms True, of c] by auto
  then show ?thesis using topCrumb_last [of t'] by simp
next
  case False
  then have "wmax t \<le> wtop t" "unat (wtop t) = unat (wmax t)"
    using assms by (auto simp: trail_inv_def word_le_nat_alt trail_def)
  then show ?thesis using assms by (simp add: pushCrumb_def)
qed

theorem pushCrumb_topCrumb_witness:
  "trail_inv (zeroTrail 1 \<lparr>wmax := 1\<rparr>) \<and>
   (\<exists>t'. pushCrumb (zeroTrail 1 \<lparr>wmax := 1\<rparr>) \<lparr>cflags = 2, fid = 5\<rparr> = Some (Inr t') \<and>
         topCrumb t' = Some (Inr \<lparr>cflags = 2, fid = 5\<rparr>))"
proof -
  have inv: "trail_inv (zeroTrail 1 \<lparr>wmax := 1\<rparr>)" by (simp add: trail_inv_def zeroTrail_def)
  show ?thesis
    using pushCrumb_topCrumb [OF inv, of "\<lparr>cflags = 2, fid = 5\<rparr>"] inv
    by (auto simp: zeroTrail_def trail_def pushCrumb_def split: option.splits sum.splits)
qed

text \<open>
  \<open>popCrumb\<close> is not the inverse of \<open>pushCrumb\<close>. It indexes with \<open>top\<close> before it
  decrements, so after a push it delivers the slot above the pushed crumb, and when the push
  filled the trail it reads outside the array.
\<close>

theorem popCrumb_off_by_one:
  assumes "trail_inv t" and "length (trail t) < unat (wmax t)"
  shows "\<exists>t'. pushCrumb t c = Some (Inr t') \<and>
           popCrumb t' = (if Suc (length (trail t)) = unat (wmax t) then None
                          else Some (Inr (crumbs t ! Suc (length (trail t)), t'\<lparr>wtop := wtop t\<rparr>)))"
proof -
  have lt: "wtop t < wmax t" using assms by (simp add: word_less_nat_alt)
  have n: "length (crumbs t) = unat (wmax t)" using assms(1) by (simp add: trail_inv_def)
  have u: "unat (wtop t + 1) = Suc (unat (wtop t))" by (rule unat_inc_lt [OF lt])
  have "wtop t + 1 \<noteq> 0" using u by (metis unat_0 nat.distinct(1))
  then show ?thesis
    using assms lt n u by (auto simp: pushCrumb_def popCrumb_def not_le [symmetric])
qed

theorem popCrumb_off_by_one_witness:
  "trail_inv (zeroTrail 1 \<lparr>wmax := 1\<rparr>) \<and>
   (\<exists>t'. pushCrumb (zeroTrail 1 \<lparr>wmax := 1\<rparr>) \<lparr>cflags = 2, fid = 5\<rparr> = Some (Inr t') \<and> popCrumb t' = None)"
proof -
  have inv: "trail_inv (zeroTrail 1 \<lparr>wmax := 1\<rparr>)" by (simp add: trail_inv_def zeroTrail_def)
  have len: "length (trail (zeroTrail 1 \<lparr>wmax := 1\<rparr>)) = 0" by (simp add: trail_def zeroTrail_def)
  show ?thesis
    using popCrumb_off_by_one [OF inv, of "\<lparr>cflags = 2, fid = 5\<rparr>"] inv len by simp
qed

end
