(* ===== verification/StaticNamespace.thy ===== *)
theory StaticNamespace
  imports Crumbs
begin

text \<open>
  Static namespaces (\<open>src/src/walk\<close>): the node lookup \<open>getNodeInfoStaticNS\<close>, the walk
  \<open>genericWalk\<close> every device delegates to, and \<open>readStaticNS\<close>, over a table of nodes that
  name their parent by its index. \<open>sns_wf\<close> is the layout the comments ask of a table; on it
  the walk is shown to follow the tree the table encodes, and a directory read to list the
  children in order.
\<close>

subsection \<open>Looking up a node\<close>

definition nsAt :: "StaticNS list \<Rightarrow> nat \<Rightarrow> StaticNS option" where
  "nsAt ns i = (if i < length ns then Some (ns ! i) else None)"

text \<open>The \<open>WalkDown\<close> loop, on the part of the table from the node itself on.\<close>

fun scanDown :: "StaticNS list \<Rightarrow> u16 \<Rightarrow> (errno + StaticNS) option" where
  "scanDown [] selfIdx = None"
| "scanDown (e # es) selfIdx =
     (if STATICNS_CRUMB_PARENT_IDX (scrumb e) = selfIdx then Some (Inr e)
      else if STATICNS_CRUMB_ISSENTINEL (scrumb e) then Some (Inl ENOENT)
      else scanDown es selfIdx)"

definition fillNodeInfo :: "Portal \<Rightarrow> NodeInfo \<Rightarrow> StaticNS \<Rightarrow> NodeInfo" where
  "fillNodeInfo p ni sns =
     mkNodeInfo p (scrumb sns) (sname sns) (slength sns) (smode sns) (ni\<lparr>ni_contents := scontents sns\<rparr>)"

text \<open>
  The namespace pointer is \<open>None\<close> when it is \<open>NULL\<close>. A failed \<open>ASSERT\<close> aborts, so it has no
  result, as an index outside the table has none.
\<close>

definition getNodeInfoStaticNS ::
  "Portal \<Rightarrow> StaticNS list option \<Rightarrow> WalkDirection \<Rightarrow> NodeInfo \<Rightarrow> (errno + NodeInfo) option" where
  "getNodeInfoStaticNS p nsp d ni =
     (case nsp of
        None \<Rightarrow> Some (Inl EINVAL)
      | Some ns \<Rightarrow>
          if \<not> PORTAL_ISSTATICNS p then None
          else
            (let parentIdx = STATICNS_CRUMB_PARENT_IDX (pcrumb p);
                 selfIdx = STATICNS_CRUMB_SELF_IDX (pcrumb p);
                 found = (\<lambda>r. do { sns \<leftarrow> r; Some (Inr (fillNodeInfo p ni sns)) });
                 sibling = (\<lambda>r. do { sns \<leftarrow> r;
                   if parentIdx \<noteq> STATICNS_CRUMB_PARENT_IDX (scrumb sns) then Some (Inl ENOENT)
                   else Some (Inr (fillNodeInfo p ni sns)) })
             in case d of
                  WalkUp \<Rightarrow> found (nsAt ns (if selfIdx \<noteq> 0 then unat parentIdx else unat selfIdx))
                | WalkDown \<Rightarrow>
                    if \<not> PORTAL_ISDIR p then Some (Inl ENOTDIR)
                    else do {
                      r \<leftarrow> scanDown (drop (unat selfIdx) ns) selfIdx;
                      case r of Inl e \<Rightarrow> Some (Inl e) | Inr sns \<Rightarrow> Some (Inr (fillNodeInfo p ni sns))
                    }
                | WalkPrev \<Rightarrow> sibling (if selfIdx = 0 then None else nsAt ns (unat selfIdx - 1))
                | WalkNext \<Rightarrow> sibling (nsAt ns (unat selfIdx + 1))
                | WalkSelf \<Rightarrow> found (nsAt ns (unat selfIdx))))"

subsection \<open>Walking a path\<close>

type_synonym GetNodeInfoFn = "Portal \<Rightarrow> WalkDirection \<Rightarrow> NodeInfo \<Rightarrow> (errno + NodeInfo) option"

text \<open>\<open>genericWalk\<close> ignores what \<open>pushCrumb\<close> returns; a failed push leaves the trail.\<close>

definition pushed :: "WalkTrail \<Rightarrow> Crumb \<Rightarrow> errno \<Rightarrow> (WalkTrail \<times> errno) option" where
  "pushed t c e =
     do { r \<leftarrow> pushCrumb t c; Some (case r of Inl e' \<Rightarrow> (t, e') | Inr t' \<Rightarrow> (t', e)) }"

text \<open>
  The inner \<open>while (nix)\<close> loop, entered with a node in \<open>ni\<close>. The first component of the
  result tells whether the loop was left by its \<open>break\<close>, with \<open>nix\<close> not \<open>NULL\<close>.
\<close>

partial_function (option) scanSiblings ::
  "GetNodeInfoFn \<Rightarrow> string \<Rightarrow> Portal \<Rightarrow> NodeInfo \<Rightarrow> WalkTrail \<Rightarrow> errno \<Rightarrow>
   (bool \<times> Portal \<times> NodeInfo \<times> WalkTrail \<times> errno) option" where
  "scanSiblings fn name px0 ni t e =
     (let px = px0\<lparr>pcrumb := ni_crumb ni\<rparr> in
      if name = ni_name ni
      then do { (t', e') \<leftarrow> pushed t (pcrumb px) e; Some (True, px, ni, t', e') }
      else do {
        r \<leftarrow> fn px WalkNext ni;
        case r of Inl e' \<Rightarrow> Some (False, px, ni, t, e')
        | Inr ni' \<Rightarrow> scanSiblings fn name px ni' t e
      })"

text \<open>
  The \<open>for\<close> loop over the path. For \<open>.\<close> and \<open>..\<close> the result of \<open>fn\<close> is not looked at:
  when it fails, \<open>ni\<close> keeps what it held.
\<close>

definition stepDot ::
  "GetNodeInfoFn \<Rightarrow> WalkDirection \<Rightarrow> Portal \<Rightarrow> NodeInfo \<Rightarrow> WalkTrail \<Rightarrow> errno \<Rightarrow>
   (Portal \<times> NodeInfo \<times> WalkTrail \<times> errno) option" where
  "stepDot fn d px ni t e =
     do {
       r \<leftarrow> fn px d ni;
       let (ni', e') = (case r of Inl er \<Rightarrow> (ni, er) | Inr n \<Rightarrow> (n, e));
       let px' = px\<lparr>pcrumb := ni_crumb ni'\<rparr>;
       (t', e'') \<leftarrow> pushed t (pcrumb px') e';
       Some (px', ni', t', e'')
     }"

fun walkPath ::
  "GetNodeInfoFn \<Rightarrow> string list \<Rightarrow> Portal \<Rightarrow> NodeInfo \<Rightarrow> WalkTrail \<Rightarrow> errno \<Rightarrow>
   (WalkTrail \<times> errno) option" where
  "walkPath fn [] px ni t e = Some (t, e)"
| "walkPath fn (name # path) px ni t e =
     (if \<not> PORTAL_ISDIR px then Some (t, ENOTDIR)
      else if name = ''.'' then
        do { (px', ni', t', e') \<leftarrow> stepDot fn WalkSelf px ni t e; walkPath fn path px' ni' t' e' }
      else if name = ''..'' then
        do { (px', ni', t', e') \<leftarrow> stepDot fn WalkUp px ni t e; walkPath fn path px' ni' t' e' }
      else do {
        r \<leftarrow> fn px WalkDown ni;
        case r of
          Inl e' \<Rightarrow> Some (t, e')
        | Inr ni' \<Rightarrow>
            do {
              (nix, px', ni'', t', e') \<leftarrow> scanSiblings fn name px ni' t e;
              if nix then walkPath fn path px' ni'' t' e' else Some (t', e')
            }
      })"

text \<open>
  \<open>stk\<close> is what the two uninitialised locals hold. The result pairs the trail with the final
  \<open>errno\<close>: a walk that stops early still returns the trail of the elements it passed.
\<close>

definition genericWalk ::
  "(u32 \<Rightarrow> bool) \<Rightarrow> Portal \<times> NodeInfo \<Rightarrow> Portal \<Rightarrow> string list \<Rightarrow> GetNodeInfoFn \<Rightarrow>
   (errno + WalkTrail \<times> errno) option" where
  "genericWalk avail stk p path fn =
     (if path = [] then Some (Inl EINVAL)
      else if \<not> PORTAL_ISDIR p then Some (Inl ENOTDIR)
      else
        (let px = clonePortal p (fst stk) in
         case emptyWalkTrail avail (of_nat (length path)) of
           Inl e \<Rightarrow> Some (Inl e)
         | Inr t \<Rightarrow> do { (t', e) \<leftarrow> walkPath fn path px (snd stk) t EOK; Some (Inr (t', e)) }))"

subsection \<open>Reading\<close>

partial_function (option) readDirLoop ::
  "StaticNS list \<Rightarrow> Portal \<Rightarrow> NodeInfo option \<Rightarrow> NodeInfo \<Rightarrow> u32 \<Rightarrow> u32 \<Rightarrow> u32 \<Rightarrow> string \<Rightarrow>
   (u32 \<times> string) option" where
  "readDirLoop ns px nix ni bytes skip entries out =
     (if nix \<noteq> None \<and> bytes \<noteq> 0 \<and> of_nat (length (ni_name ni) + 1) \<le> bytes then
        (let px' = px\<lparr>pcrumb := ni_crumb ni\<rparr>;
             n = of_nat (length (ni_name ni) + 1);
             (skip', out', bytes', entries') =
               (if skip \<noteq> 0 then (skip - 1, out, bytes, entries)
                else (skip, out @ ni_name ni @ [CHR 0x00], bytes - n, entries + 1))
         in do {
              r \<leftarrow> getNodeInfoStaticNS px' (Some ns) WalkNext ni;
              readDirLoop ns px' (case r of Inl _ \<Rightarrow> None | Inr ni' \<Rightarrow> Some ni')
                (case r of Inl _ \<Rightarrow> ni | Inr ni' \<Rightarrow> ni') bytes' skip' entries' out'
            })
      else Some (entries, out))"

text \<open>The result is the return value, the bytes stored in \<open>buf\<close> and the portal.\<close>

definition readStaticNS ::
  "Portal \<times> NodeInfo \<Rightarrow> Portal \<Rightarrow> StaticNS list \<Rightarrow> u32 \<Rightarrow> u32 \<Rightarrow> (u32 \<times> string \<times> Portal) option" where
  "readStaticNS stk p ns sz offset =
     (if sz = 0 then Some (0, [], p)
      else do {
        ent \<leftarrow> nsAt ns (unat (STATICNS_CRUMB_SELF_IDX (pcrumb p)));
        if cflags (scrumb ent) AND CRUMB_ISDIR \<noteq> 0 then
          do {
            let px = clonePortal p (fst stk);
            r \<leftarrow> getNodeInfoStaticNS px (Some ns) WalkDown (snd stk);
            (entries, out) \<leftarrow> readDirLoop ns px (case r of Inl _ \<Rightarrow> None | Inr ni \<Rightarrow> Some ni)
              (case r of Inl _ \<Rightarrow> snd stk | Inr ni \<Rightarrow> ni) sz offset 0 [];
            Some (entries, out, p\<lparr>poffset := poffset p + entries\<rparr>)
          }
        else if slength ent = 0 then Some (0, [], p)
        else
          (let bytes = (if slength ent < sz then slength ent else sz) in
           case scontents ent of
             StrContents s \<Rightarrow>
               if unat bytes \<le> length s + 1
               then Some (bytes, take (unat bytes) (s @ [CHR 0x00]), p\<lparr>poffset := poffset p + bytes\<rparr>)
               else None
           | _ \<Rightarrow> None)
      })"

subsection \<open>The tree a table encodes\<close>

definition par :: "StaticNS list \<Rightarrow> nat \<Rightarrow> nat" where
  "par ns i = unat (STATICNS_CRUMB_PARENT_IDX (scrumb (ns ! i)))"

definition isdir :: "StaticNS list \<Rightarrow> nat \<Rightarrow> bool" where
  "isdir ns i \<longleftrightarrow> cflags (scrumb (ns ! i)) AND CRUMB_ISDIR \<noteq> 0"

text \<open>
  The nodes of a table, its closing sentinel apart. The comments of \<open>getNodeInfoStaticNS\<close> ask
  that siblings be contiguous and that the table end with a sentinel; the code further relies
  on every directory having a child.
\<close>

definition nodes :: "StaticNS list \<Rightarrow> nat" where
  "nodes ns = length ns - 1"

definition sns_wf :: "StaticNS list \<Rightarrow> bool" where
  "sns_wf ns \<longleftrightarrow>
     2 \<le> length ns \<and> length ns \<le> 0xfff \<and> scrumb (last ns) = MKSTATICNS_SENTINEL_CRUMB \<and>
     par ns 0 = 0xfff \<and>
     (\<forall>i < nodes ns. unat (STATICNS_CRUMB_SELF_IDX (scrumb (ns ! i))) = i \<and>
                     cflags (scrumb (ns ! i)) AND CRUMB_ISSTATIC \<noteq> 0 \<and>
                     (0 < i \<longrightarrow> par ns i < i \<and> isdir ns (par ns i)) \<and>
                     (isdir ns i \<longrightarrow> (\<exists>j < nodes ns. 0 < j \<and> par ns j = i)) \<and>
                     (\<forall>j < i. 0 < j \<longrightarrow> par ns j \<le> par ns i))"

definition kidsFrom :: "StaticNS list \<Rightarrow> nat \<Rightarrow> nat \<Rightarrow> nat list" where
  "kidsFrom ns d i = filter (\<lambda>j. par ns j = d) [i ..< nodes ns]"

definition kids :: "StaticNS list \<Rightarrow> nat \<Rightarrow> nat list" where
  "kids ns d = kidsFrom ns d 1"

definition find_child :: "StaticNS list \<Rightarrow> nat \<Rightarrow> string \<Rightarrow> nat option" where
  "find_child ns d name = find (\<lambda>i. name = sname (ns ! i)) (kids ns d)"

fun walk_spec :: "StaticNS list \<Rightarrow> nat \<Rightarrow> string list \<Rightarrow> nat list \<times> errno" where
  "walk_spec ns d [] = ([], EOK)"
| "walk_spec ns d (name # path) =
     (let go = (\<lambda>k. let (t, e) = walk_spec ns k path in (k # t, e))
      in if \<not> isdir ns d then ([], ENOTDIR)
         else if name = ''.'' then go d
         else if name = ''..'' then go (if d = 0 then 0 else par ns d)
         else case find_child ns d name of None \<Rightarrow> ([], ENOENT) | Some k \<Rightarrow> go k)"

definition nodeInfo :: "Portal \<Rightarrow> StaticNS \<Rightarrow> NodeInfo" where
  "nodeInfo p s = \<lparr>ni_name = sname s, ni_crumb = scrumb s, ni_device = pdevice p, ni_mode = smode s,
     ni_atime = 0, ni_mtime = 0, ni_length = slength s, ni_contents = scontents s\<rparr>"

lemma fillNodeInfo_eq [simp]: "fillNodeInfo p ni s = nodeInfo p s"
  by (simp add: fillNodeInfo_def mkNodeInfo_def nodeInfo_def)

lemma nodeInfo_sel [simp]: "ni_name (nodeInfo p s) = sname s" "ni_crumb (nodeInfo p s) = scrumb s"
  by (simp_all add: nodeInfo_def)

lemma nodeInfo_px [simp]: "nodeInfo (p\<lparr>pcrumb := c\<rparr>) s = nodeInfo p s"
  by (simp add: nodeInfo_def)

lemma sns_wfD:
  assumes "sns_wf ns"
  shows "length ns = Suc (nodes ns)" "0 < nodes ns" "nodes ns < 0xfff" "par ns 0 = 0xfff"
    "par ns (nodes ns) = 0xfff"
proof -
  have ns: "ns \<noteq> []" using assms by (auto simp: sns_wf_def)
  show "length ns = Suc (nodes ns)" "0 < nodes ns" "nodes ns < 0xfff" "par ns 0 = 0xfff"
    using assms by (auto simp: sns_wf_def nodes_def)
  have "ns ! nodes ns = last ns" using ns by (simp add: nodes_def last_conv_nth)
  then show "par ns (nodes ns) = 0xfff"
    using assms by (simp add: sns_wf_def par_def MKSTATICNS_SENTINEL_CRUMB_def fid_indices)
qed

lemma sns_wf_node:
  assumes "sns_wf ns" "i < nodes ns"
  shows "unat (STATICNS_CRUMB_SELF_IDX (scrumb (ns ! i))) = i"
    "cflags (scrumb (ns ! i)) AND CRUMB_ISSTATIC \<noteq> 0"
    "0 < i \<Longrightarrow> par ns i < i" "0 < i \<Longrightarrow> isdir ns (par ns i)"
    "isdir ns i \<Longrightarrow> \<exists>j < nodes ns. 0 < j \<and> par ns j = i"
    "j < i \<Longrightarrow> 0 < j \<Longrightarrow> par ns j \<le> par ns i"
  using assms by (auto simp: sns_wf_def)

lemma par_eq_iff:
  "STATICNS_CRUMB_PARENT_IDX (scrumb (ns ! i)) = w \<longleftrightarrow> par ns i = unat w"
  by (simp add: par_def word_unat_eq_iff)

lemma not_sentinel:
  assumes "sns_wf ns" "i < nodes ns"
  shows "\<not> STATICNS_CRUMB_ISSENTINEL (scrumb (ns ! i))"
proof
  assume "STATICNS_CRUMB_ISSENTINEL (scrumb (ns ! i))"
  then have "STATICNS_CRUMB_SELF_IDX (scrumb (ns ! i)) = 0xffff"
    by (simp add: STATICNS_CRUMB_ISSENTINEL_def STATICNS_CRUMB_SELF_IDX_def)
  then have "i = 0xffff" using sns_wf_node(1) [OF assms] by simp
  then show False using assms(2) sns_wfD(3) [OF assms(1)] by simp
qed

text \<open>How the children of a directory lie in the table.\<close>

lemma par_node:
  assumes "sns_wf ns" "i < nodes ns"
  shows "par ns i < i \<or> i = 0 \<and> par ns i = 0xfff"
  using sns_wf_node(3) [OF assms] sns_wfD(4) [OF assms(1)] by (cases "i = 0") auto

lemma kidsFrom_step:
  assumes "i < nodes ns"
  shows "kidsFrom ns d i = (if par ns i = d then i # kidsFrom ns d (Suc i) else kidsFrom ns d (Suc i))"
  using assms by (simp add: kidsFrom_def upt_conv_Cons)

lemma kidsFrom_end:
  assumes "sns_wf ns" "0 < i" "i < nodes ns" "par ns i = d" "par ns (Suc i) \<noteq> d"
  shows "kidsFrom ns d (Suc i) = []"
proof -
  { fix j assume j: "Suc i \<le> j" "j < nodes ns"
    then have "Suc i < nodes ns" by simp
    then have "d \<le> par ns (Suc i)" using sns_wf_node(6) [of ns "Suc i" i] assms by auto
    moreover have "par ns (Suc i) \<le> par ns j"
      using sns_wf_node(6) [of ns j "Suc i"] assms(1) j by (cases "Suc i = j") auto
    ultimately have "par ns j \<noteq> d" using assms(5) by simp }
  then show ?thesis by (auto simp: kidsFrom_def filter_empty_conv)
qed

lemma kids_from_dir:
  assumes "sns_wf ns" "d < nodes ns" "0 < i" "i \<le> Suc d"
  shows "kids ns d = kidsFrom ns d i"
proof -
  { fix j assume "1 \<le> j" "j < i"
    then have "par ns j \<noteq> d" using assms par_node [OF assms(1), of j] by auto }
  then have "filter (\<lambda>j. par ns j = d) [1..<i] = []" by (auto simp: filter_empty_conv)
  moreover have "[1..<nodes ns] = [1..<i] @ [i..<nodes ns]"
    using assms upt_add_eq_append [of 1 i "nodes ns - i"] by auto
  ultimately show ?thesis by (simp add: kids_def kidsFrom_def)
qed

lemma kids_nonempty:
  assumes "sns_wf ns" "d < nodes ns" "isdir ns d"
  shows "kids ns d \<noteq> []"
  using sns_wf_node(5) [OF assms] by (force simp: kids_def kidsFrom_def filter_empty_conv)

lemma kidsFrom_hd:
  "kidsFrom ns d i = k # ks \<Longrightarrow>
   i \<le> k \<and> k < nodes ns \<and> par ns k = d \<and> (\<forall>j. i \<le> j \<longrightarrow> j < k \<longrightarrow> par ns j \<noteq> d) \<and> ks = kidsFrom ns d (Suc k)"
proof (induction "nodes ns - i" arbitrary: i)
  case 0
  then show ?case by (simp add: kidsFrom_def)
next
  case (Suc m)
  then have lt: "i < nodes ns" by simp
  show ?case
  proof (cases "par ns i = d")
    case True
    then show ?thesis using Suc.prems kidsFrom_step [OF lt, of d] lt by auto
  next
    case False
    then have "kidsFrom ns d (Suc i) = k # ks" using Suc.prems kidsFrom_step [OF lt, of d] by simp
    then have "Suc i \<le> k \<and> k < nodes ns \<and> par ns k = d \<and> (\<forall>j. Suc i \<le> j \<longrightarrow> j < k \<longrightarrow> par ns j \<noteq> d) \<and>
        ks = kidsFrom ns d (Suc k)"
      using Suc.hyps(1) [of "Suc i"] Suc.hyps(2) by simp
    then show ?thesis using False by (metis Suc_leD Suc_leI le_neq_implies_less)
  qed
qed

subsection \<open>One step on a well-formed table\<close>

lemma portal_static:
  assumes "sns_wf ns" "i < nodes ns" "pcrumb p = scrumb (ns ! i)"
  shows "PORTAL_ISSTATICNS p" "PORTAL_ISDIR p = isdir ns i"
  using sns_wf_node(2) [OF assms(1,2)] assms(3)
  by (simp_all add: PORTAL_ISSTATICNS_def PORTAL_ISDIR_def isdir_def)

lemma self_zero_iff:
  assumes "sns_wf ns" "i < nodes ns"
  shows "STATICNS_CRUMB_SELF_IDX (scrumb (ns ! i)) = 0 \<longleftrightarrow> i = 0"
  using sns_wf_node(1) [OF assms] by (auto simp: word_unat_eq_iff)

lemma nsAt_node [simp]: "sns_wf ns \<Longrightarrow> i < nodes ns \<Longrightarrow> nsAt ns i = Some (ns ! i)"
  using sns_wfD(1) [of ns] by (simp add: nsAt_def)

lemma walkSelf_node:
  assumes "sns_wf ns" "i < nodes ns" "pcrumb p = scrumb (ns ! i)"
  shows "getNodeInfoStaticNS p (Some ns) WalkSelf ni = Some (Inr (nodeInfo p (ns ! i)))"
  using assms portal_static(1) [OF assms] sns_wf_node(1) [OF assms(1,2)]
  by (simp add: getNodeInfoStaticNS_def Let_def)

lemma walkUp_node:
  assumes "sns_wf ns" "i < nodes ns" "pcrumb p = scrumb (ns ! i)"
  shows "getNodeInfoStaticNS p (Some ns) WalkUp ni =
         Some (Inr (nodeInfo p (ns ! (if i = 0 then 0 else par ns i))))"
proof (cases "i = 0")
  case True
  then show ?thesis using assms portal_static(1) [OF assms] self_zero_iff [OF assms(1,2)]
    by (simp add: getNodeInfoStaticNS_def Let_def)
next
  case False
  then have "par ns i < nodes ns" using sns_wf_node(3) [OF assms(1,2)] assms(2) by simp
  then show ?thesis using assms False portal_static(1) [OF assms] self_zero_iff [OF assms(1,2)]
    by (simp add: getNodeInfoStaticNS_def Let_def par_def [symmetric])
qed

lemma scanDown_first:
  assumes "k < length ns" "par ns k = unat w"
    and "\<forall>j. i \<le> j \<longrightarrow> j < k \<longrightarrow> par ns j \<noteq> unat w \<and> \<not> STATICNS_CRUMB_ISSENTINEL (scrumb (ns ! j))"
    and "i \<le> k"
  shows "scanDown (drop i ns) w = Some (Inr (ns ! k))"
  using assms
proof (induction "k - i" arbitrary: i)
  case 0
  then show ?case by (simp add: Cons_nth_drop_Suc [symmetric] par_eq_iff)
next
  case (Suc m)
  then have "i < k" by simp
  then show ?case using Suc.prems Suc.hyps(1) [of "Suc i"] Suc.hyps(2)
    by (simp add: Cons_nth_drop_Suc [symmetric] par_eq_iff)
qed

lemma walkDown_dir:
  assumes wf: "sns_wf ns" and d: "d < nodes ns" and p: "pcrumb p = scrumb (ns ! d)"
    and dir: "isdir ns d"
  shows "getNodeInfoStaticNS p (Some ns) WalkDown ni = Some (Inr (nodeInfo p (ns ! hd (kids ns d))))"
proof -
  let ?w = "STATICNS_CRUMB_SELF_IDX (scrumb (ns ! d))"
  have w: "unat ?w = d" by (rule sns_wf_node(1) [OF wf d])
  obtain k ks where ks: "kids ns d = k # ks" using kids_nonempty [OF wf d dir] by (cases "kids ns d") auto
  then have k: "Suc d \<le> k" "k < nodes ns" "par ns k = d" "\<forall>j. Suc d \<le> j \<longrightarrow> j < k \<longrightarrow> par ns j \<noteq> d"
    using kidsFrom_hd [of ns d "Suc d" k ks] kids_from_dir [OF wf d, of "Suc d"] by auto
  have "par ns d \<noteq> d" using par_node [OF wf d] d sns_wfD(3) [OF wf] by auto
  then have "\<forall>j. d \<le> j \<longrightarrow> j < k \<longrightarrow> par ns j \<noteq> d \<and> \<not> STATICNS_CRUMB_ISSENTINEL (scrumb (ns ! j))"
    using k not_sentinel [OF wf] by (metis Suc_leI le_neq_implies_less less_trans)
  then have "scanDown (drop d ns) ?w = Some (Inr (ns ! k))"
    using k sns_wfD(1) [OF wf] by (intro scanDown_first) (auto simp: w)
  then show ?thesis using p dir ks portal_static [OF wf d p] w
    by (simp add: getNodeInfoStaticNS_def Let_def)
qed

lemma walkNext_node:
  assumes wf: "sns_wf ns" and i: "i < nodes ns" and p: "pcrumb p = scrumb (ns ! i)"
  shows "getNodeInfoStaticNS p (Some ns) WalkNext ni =
         Some (if par ns (Suc i) = par ns i then Inr (nodeInfo p (ns ! Suc i)) else Inl ENOENT)"
proof -
  have "nsAt ns (Suc i) = Some (ns ! Suc i)" using sns_wfD(1) [OF wf] i by (simp add: nsAt_def)
  then show ?thesis using p portal_static(1) [OF assms] sns_wf_node(1) [OF wf i]
    by (auto simp: getNodeInfoStaticNS_def Let_def par_eq_iff par_def)
qed

lemma next_sibling:
  assumes wf: "sns_wf ns" and i: "0 < i" "i < nodes ns" and d: "par ns i = d"
  shows "kidsFrom ns d (Suc i) = [] \<longleftrightarrow> par ns (Suc i) \<noteq> d"
    "par ns (Suc i) = d \<Longrightarrow> Suc i < nodes ns"
proof -
  show lt: "Suc i < nodes ns" if "par ns (Suc i) = d"
  proof -
    have "d < 0xfff" using sns_wf_node(3) [OF wf i(2,1)] d i(2) sns_wfD(3) [OF wf] by simp
    then have "Suc i \<noteq> nodes ns" using sns_wfD(5) [OF wf] that by auto
    then show ?thesis using i by simp
  qed
  show "kidsFrom ns d (Suc i) = [] \<longleftrightarrow> par ns (Suc i) \<noteq> d"
    using kidsFrom_end [OF wf i d] kidsFrom_step [of "Suc i" ns d] lt by auto
qed

subsection \<open>The walk follows the tree\<close>

definition staticFn :: "StaticNS list \<Rightarrow> GetNodeInfoFn" where
  "staticFn ns = (\<lambda>p d ni. getNodeInfoStaticNS p (Some ns) d ni)"

lemma pushed_room:
  assumes "trail_inv t" "length (trail t) < unat (wmax t)"
  shows "\<exists>t'. pushed t c e = Some (t', e) \<and> trail_inv t' \<and> trail t' = trail t @ [c] \<and> wmax t' = wmax t"
  using pushCrumb_room [OF assms, of c] by (auto simp: pushed_def)

lemma scanSiblings_find:
  assumes wf: "sns_wf ns" and i: "0 < i" "i < nodes ns" and d: "par ns i = d"
  shows "scanSiblings (staticFn ns) name px (nodeInfo px (ns ! i)) t e =
    (case find (\<lambda>i. name = sname (ns ! i)) (kidsFrom ns d i) of
       None \<Rightarrow> (let k = last (kidsFrom ns d i)
                in Some (False, px\<lparr>pcrumb := scrumb (ns ! k)\<rparr>, nodeInfo px (ns ! k), t, ENOENT))
     | Some k \<Rightarrow> do { (t', e') \<leftarrow> pushed t (scrumb (ns ! k)) e;
                     Some (True, px\<lparr>pcrumb := scrumb (ns ! k)\<rparr>, nodeInfo px (ns ! k), t', e') })"
  using i d
proof (induction "nodes ns - i" arbitrary: i px)
  case 0
  then show ?case by simp
next
  case (Suc m)
  let ?px = "px\<lparr>pcrumb := scrumb (ns ! i)\<rparr>"
  have ks: "kidsFrom ns d i = i # kidsFrom ns d (Suc i)" using Suc.prems by (simp add: kidsFrom_step)
  have nx: "staticFn ns ?px WalkNext ni = Some (if par ns (Suc i) = d then Inr (nodeInfo px (ns ! Suc i)) else Inl ENOENT)" for ni
    using walkNext_node [OF wf Suc.prems(2), of ?px ni] Suc.prems(3) by (simp add: staticFn_def)
  show ?case
  proof (cases "name = sname (ns ! i)")
    case True
    then show ?thesis by (subst scanSiblings.simps) (simp add: ks Let_def)
  next
    case False
    note sib = next_sibling [OF wf Suc.prems]
    have IH: "par ns (Suc i) = d \<Longrightarrow>
      scanSiblings (staticFn ns) name ?px (nodeInfo ?px (ns ! Suc i)) t e =
       (case find (\<lambda>i. name = sname (ns ! i)) (kidsFrom ns d (Suc i)) of
         None \<Rightarrow> (let k = last (kidsFrom ns d (Suc i))
                  in Some (False, ?px\<lparr>pcrumb := scrumb (ns ! k)\<rparr>, nodeInfo ?px (ns ! k), t, ENOENT))
       | Some k \<Rightarrow> do { (t', e') \<leftarrow> pushed t (scrumb (ns ! k)) e;
                     Some (True, ?px\<lparr>pcrumb := scrumb (ns ! k)\<rparr>, nodeInfo ?px (ns ! k), t', e') })"
      using Suc.hyps(1) [of "Suc i" ?px] Suc.hyps(2) sib(2) by simp
    show ?thesis
      by (subst scanSiblings.simps) (use False IH sib(1) in \<open>auto simp: ks Let_def nx split: option.splits\<close>)
  qed
qed

lemma scanSiblings_kids:
  assumes wf: "sns_wf ns" and d: "d < nodes ns" and dir: "isdir ns d"
    and t: "trail_inv t" "length (trail t) < unat (wmax t)"
  shows "\<exists>px' ni' t'. scanSiblings (staticFn ns) name px (nodeInfo px (ns ! hd (kids ns d))) t e =
      Some (find_child ns d name \<noteq> None, px', ni', t', if find_child ns d name = None then ENOENT else e) \<and>
    pdevice px' = pdevice px \<and>
    (case find_child ns d name of
       None \<Rightarrow> t' = t
     | Some k \<Rightarrow> pcrumb px' = scrumb (ns ! k) \<and> ni' = nodeInfo px (ns ! k) \<and> trail_inv t' \<and>
                 trail t' = trail t @ [scrumb (ns ! k)] \<and> wmax t' = wmax t)"
proof -
  obtain k ks where ks: "kids ns d = k # ks"
    using kids_nonempty [OF wf d dir] by (cases "kids ns d") auto
  have k: "0 < k" "k < nodes ns" "par ns k = d" using kidsFrom_hd [of ns d 1 k ks] ks
    by (auto simp: kids_def)
  have eq: "kidsFrom ns d k = kids ns d"
    using ks kidsFrom_step [OF k(2), of d] k(3) kidsFrom_hd [of ns d 1 k ks] by (simp add: kids_def)
  have hd: "hd (kids ns d) = k" by (simp add: ks)
  note scan = scanSiblings_find [OF wf k, of name px t e, unfolded eq]
  show ?thesis
  proof (cases "find_child ns d name")
    case None
    then show ?thesis using scan by (simp add: hd find_child_def Let_def)
  next
    case (Some a)
    then show ?thesis
      using scan pushed_room [OF t, of "scrumb (ns ! a)" e] by (auto simp: hd find_child_def)
  qed
qed

lemma find_child_node:
  assumes "find_child ns d name = Some k"
  shows "k < nodes ns \<and> par ns k = d \<and> 0 < k \<and> sname (ns ! k) = name"
proof -
  have "k \<in> set (kids ns d) \<and> sname (ns ! k) = name"
    using assms by (auto simp: find_child_def find_Some_iff)
  then show ?thesis by (auto simp: kids_def kidsFrom_def)
qed

definition crumbAt :: "StaticNS list \<Rightarrow> nat \<Rightarrow> Crumb" where
  "crumbAt ns k = scrumb (ns ! k)"

text \<open>What one element of the path does, when it leads to node \<open>k\<close>.\<close>

lemma stepDot_to:
  assumes "staticFn ns px d ni = Some (Inr (nodeInfo px (ns ! k)))"
    and "trail_inv t" "length (trail t) < unat (wmax t)"
  shows "\<exists>t'. stepDot (staticFn ns) d px ni t EOK =
      Some (px\<lparr>pcrumb := crumbAt ns k\<rparr>, nodeInfo px (ns ! k), t', EOK) \<and>
    trail_inv t' \<and> trail t' = trail t @ [crumbAt ns k] \<and> wmax t' = wmax t"
  using pushed_room [OF assms(2,3), of "scrumb (ns ! k)" EOK] assms(1)
  by (auto simp: stepDot_def crumbAt_def)

definition walks ::
  "StaticNS list \<Rightarrow> nat \<Rightarrow> string list \<Rightarrow> Portal \<Rightarrow> NodeInfo \<Rightarrow> WalkTrail \<Rightarrow> bool" where
  "walks ns d path px ni t \<longleftrightarrow>
     (\<exists>t'. walkPath (staticFn ns) path px ni t EOK = Some (t', snd (walk_spec ns d path)) \<and> trail_inv t' \<and>
           trail t' = trail t @ map (crumbAt ns) (fst (walk_spec ns d path)))"

lemma walkPath_spec:
  assumes wf: "sns_wf ns"
  shows "d < nodes ns \<Longrightarrow> pcrumb px = scrumb (ns ! d) \<Longrightarrow> trail_inv t \<Longrightarrow>
    length (trail t) + length path \<le> unat (wmax t) \<Longrightarrow> walks ns d path px ni t"
proof (induction path arbitrary: d px ni t)
  case Nil
  then show ?case by (simp add: walks_def)
next
  case (Cons name path)
  note px = portal_static(2) [OF wf Cons.prems(1,2)]
  have room: "length (trail t) < unat (wmax t)" using Cons.prems by simp
  have next_ok: "walks ns k path px' ni' t'"
    if "k < nodes ns" "pcrumb px' = crumbAt ns k" "trail_inv t'" "trail t' = trail t @ [crumbAt ns k]"
      "wmax t' = wmax t" for k px' ni' t'
    using Cons.IH [of k px' t' ni'] Cons.prems that length_trail [OF that(3)] length_trail [OF Cons.prems(3)]
    by (simp add: crumbAt_def)
  have dot: ?case
    if w: "staticFn ns px w ni = Some (Inr (nodeInfo px (ns ! k)))" and k: "k < nodes ns"
      and dir: "isdir ns d" and nm: "name = ''.'' \<and> w = WalkSelf \<and> k = d \<or>
        name = ''..'' \<and> w = WalkUp \<and> k = (if d = 0 then 0 else par ns d)" for k w
  proof -
    obtain t' where t': "stepDot (staticFn ns) w px ni t EOK =
        Some (px\<lparr>pcrumb := crumbAt ns k\<rparr>, nodeInfo px (ns ! k), t', EOK)" "trail_inv t'"
      "trail t' = trail t @ [crumbAt ns k]" "wmax t' = wmax t"
      using stepDot_to [OF w Cons.prems(3) room] by blast
    have "walks ns k path (px\<lparr>pcrumb := crumbAt ns k\<rparr>) (nodeInfo px (ns ! k)) t'"
      using t' k by (intro next_ok) auto
    then show ?thesis using t' dir px nm by (auto simp: walks_def split_beta)
  qed
  show ?case
  proof (cases "isdir ns d")
    case False
    then show ?thesis using px Cons.prems by (simp add: walks_def)
  next
    case dir: True
    consider "name = ''.''" | "name = ''..''" | (child) "name \<noteq> ''.''" "name \<noteq> ''..''" by blast
    then show ?thesis
    proof cases
      case 1
      then show ?thesis using dot [of WalkSelf d] dir Cons.prems walkSelf_node [OF wf Cons.prems(1,2)]
        by (simp add: staticFn_def)
    next
      case 2
      have "par ns d < nodes ns" if "d \<noteq> 0" using sns_wf_node(3) [OF wf Cons.prems(1)] that Cons.prems(1) by simp
      then show ?thesis
        using 2 dot [of WalkUp "if d = 0 then 0 else par ns d"] dir Cons.prems walkUp_node [OF wf Cons.prems(1,2)]
        by (simp add: staticFn_def)
    next
      case child
      have down: "staticFn ns px WalkDown ni = Some (Inr (nodeInfo px (ns ! hd (kids ns d))))"
        using walkDown_dir [OF wf Cons.prems(1,2) dir] by (simp add: staticFn_def)
      obtain px' ni' t' where scan:
        "scanSiblings (staticFn ns) name px (nodeInfo px (ns ! hd (kids ns d))) t EOK =
         Some (find_child ns d name \<noteq> None, px', ni', t', if find_child ns d name = None then ENOENT else EOK)"
        "case find_child ns d name of None \<Rightarrow> t' = t
         | Some k \<Rightarrow> pcrumb px' = scrumb (ns ! k) \<and> ni' = nodeInfo px (ns ! k) \<and> trail_inv t' \<and>
                     trail t' = trail t @ [scrumb (ns ! k)] \<and> wmax t' = wmax t"
        using scanSiblings_kids [OF wf Cons.prems(1) dir Cons.prems(3) room, of name px EOK] by blast
      show ?thesis
      proof (cases "find_child ns d name")
        case None
        then show ?thesis using child dir px down scan Cons.prems by (simp add: walks_def)
      next
        case (Some k)
        then have "walks ns k path px' ni' t'"
          using scan find_child_node [OF Some] by (intro next_ok) (auto simp: crumbAt_def)
        then show ?thesis using Some child dir px down scan
          by (auto simp: walks_def split_beta crumbAt_def)
      qed
    qed
  qed
qed

subsection \<open>Listing a directory\<close>

fun listing :: "string list \<Rightarrow> nat \<Rightarrow> nat \<Rightarrow> string list" where
  "listing [] bytes skip = []"
| "listing (nm # nms) bytes skip =
     (if bytes < length nm + 1 then []
      else case skip of Suc s \<Rightarrow> listing nms bytes s
           | 0 \<Rightarrow> nm # listing nms (bytes - (length nm + 1)) 0)"

definition packed :: "string list \<Rightarrow> string" where
  "packed nms = concat (map (\<lambda>nm. nm @ [CHR 0x00]) nms)"

lemma packed_simps [simp]: "packed [] = []" "packed (nm # nms) = nm @ CHR 0x00 # packed nms"
  by (simp_all add: packed_def)

lemma listing_prefix: "\<exists>n. listing nms bytes skip = take n (drop skip nms)"
proof (induction nms bytes skip rule: listing.induct)
  case (2 nm nms bytes skip)
  show ?case
  proof (cases "bytes < length nm + 1")
    case False
    then show ?thesis
    proof (cases skip)
      case 0
      then obtain n where "listing nms (bytes - (length nm + 1)) 0 = take n nms"
        using 2(1) [OF False 0] by auto
      then have "listing (nm # nms) bytes skip = take (Suc n) (drop skip (nm # nms))" using 0 False by simp
      then show ?thesis by blast
    next
      case (Suc s)
      then show ?thesis using 2(2) [OF False Suc] False by auto
    qed
  qed (auto intro: exI [of _ 0])
qed simp

lemma listing_fits: "length (packed (listing nms bytes skip)) \<le> bytes"
  by (induction nms bytes skip rule: listing.induct) (auto split: nat.splits)

lemma listing_all: "length (packed nms) \<le> bytes \<Longrightarrow> listing nms bytes skip = drop skip nms"
  by (induction nms bytes skip rule: listing.induct) (auto split: nat.splits)

lemma length_listing: "length (listing nms bytes skip) \<le> length nms"
  using listing_prefix [of nms bytes skip] by auto

lemma readDirLoop_listing:
  assumes wf: "sns_wf ns" and nm: "\<forall>i < nodes ns. length (sname (ns ! i)) < 2 ^ 31"
    and i: "0 < i" "i < nodes ns" and d: "par ns i = d"
  shows "readDirLoop ns px (Some x) (nodeInfo px (ns ! i)) bytes skip entries out =
    (let l = listing (map (\<lambda>k. sname (ns ! k)) (kidsFrom ns d i)) (unat bytes) (unat skip)
     in Some (entries + of_nat (length l), out @ packed l))"
  using i d
proof (induction "nodes ns - i" arbitrary: i px x bytes skip entries out)
  case 0
  then show ?case by simp
next
  case (Suc m)
  let ?n = "of_nat (length (sname (ns ! i)) + 1) :: u32"
  let ?px = "px\<lparr>pcrumb := scrumb (ns ! i)\<rparr>"
  have un: "unat ?n = length (sname (ns ! i)) + 1" using nm Suc.prems(2)
    by (intro unat_of_nat_small) auto
  have ks: "kidsFrom ns d i = i # kidsFrom ns d (Suc i)" using Suc.prems by (simp add: kidsFrom_step)
  have nx: "getNodeInfoStaticNS ?px (Some ns) WalkNext ni =
      Some (if par ns (Suc i) = d then Inr (nodeInfo px (ns ! Suc i)) else Inl ENOENT)" for ni
    using walkNext_node [OF wf Suc.prems(2), of ?px ni] Suc.prems(3) by simp
  have stop: "readDirLoop ns px None ni b s e u = Some (e, u)" for px ni b s e u
    by (subst readDirLoop.simps) simp
  note sib = next_sibling [OF wf Suc.prems]
  have IH: "par ns (Suc i) = d \<Longrightarrow>
    readDirLoop ns ?px (Some y) (nodeInfo px (ns ! Suc i)) b s e u =
    (let l = listing (map (\<lambda>k. sname (ns ! k)) (kidsFrom ns d (Suc i))) (unat b) (unat s)
     in Some (e + of_nat (length l), u @ packed l))" for y b s e u
    using Suc.hyps(1) [of "Suc i" ?px y b s e u] Suc.hyps(2) sib(2) by simp
  have fit: "bytes \<noteq> 0 \<and> ?n \<le> bytes \<longleftrightarrow> \<not> unat bytes < length (sname (ns ! i)) + 1"
    using un by (auto simp: word_le_nat_alt word_unat_eq_iff)
  show ?case
  proof (cases "unat bytes < length (sname (ns ! i)) + 1")
    case True
    then show ?thesis using fit by (subst readDirLoop.simps) (auto simp: ks Let_def)
  next
    case False
    then have cond: "bytes \<noteq> 0 \<and> ?n \<le> bytes" using fit by simp
    show ?thesis
    proof (cases "skip = 0")
      case True
      have b: "unat (bytes - ?n) = unat bytes - (length (sname (ns ! i)) + 1)"
        using cond un by (simp add: unat_sub)
      show ?thesis
        by (subst readDirLoop.simps)
          (use cond b True IH sib(1) False in \<open>auto simp: ks Let_def nx stop algebra_simps\<close>)
    next
      case skip: False
      have s: "unat skip = Suc (unat (skip - 1))"
        using skip by (metis Suc_pred' unat_gt_0 unat_minus_one)
      show ?thesis
        by (subst readDirLoop.simps)
          (use cond s skip IH sib(1) False in \<open>auto simp: ks Let_def nx stop\<close>)
    qed
  qed
qed

lemma scanDown_none:
  assumes "\<forall>e \<in> set es. STATICNS_CRUMB_PARENT_IDX (scrumb e) \<noteq> w \<and> \<not> STATICNS_CRUMB_ISSENTINEL (scrumb e)"
  shows "scanDown es w = None"
  using assms by (induction es) auto

lemma not_root_sentinel: "\<not> STATICNS_CRUMB_ISSENTINEL (MKSTATICNS_CRUMB 0xffff 0 f)"
  by (simp add: STATICNS_CRUMB_ISSENTINEL_def MKSTATICNS_CRUMB_def MKSTATICNS_FID_def)

text \<open>A table with a directory, a file in it and a second file beside it, for the examples.\<close>

definition exNS :: "StaticNS list" where
  "exNS =
    [\<lparr>sname = ''dev'', scrumb = MKSTATICNS_CRUMB 0xffff 0 CRUMB_ISDIR, slength = 0, smode = 0, scontents = NoContents\<rparr>,
     \<lparr>sname = ''sub'', scrumb = MKSTATICNS_CRUMB 0 1 CRUMB_ISDIR, slength = 0, smode = 0, scontents = NoContents\<rparr>,
     \<lparr>sname = ''ab'', scrumb = MKSTATICNS_CRUMB 0 2 CRUMB_ISFILE, slength = 2, smode = 0, scontents = StrContents ''ok''\<rparr>,
     \<lparr>sname = ''x'', scrumb = MKSTATICNS_CRUMB 1 3 CRUMB_ISFILE, slength = 0, smode = 0, scontents = NoContents\<rparr>,
     \<lparr>sname = '''', scrumb = MKSTATICNS_SENTINEL_CRUMB, slength = 0, smode = 0, scontents = NoContents\<rparr>]"

lemma exNS_flags:
  "cflags (MKSTATICNS_CRUMB p s f) = f OR CRUMB_ISSTATIC"
  by (simp add: MKSTATICNS_CRUMB_def)

lemma all_less_4: "(\<forall>i < (4::nat). P i) \<longleftrightarrow> P 0 \<and> P 1 \<and> P 2 \<and> P 3"
  by (auto simp: less_Suc_eq numeral_eq_Suc)

lemma exNS_nodes: "nodes exNS = 4" by (simp add: nodes_def exNS_def)

lemma exNS_par: "par exNS 0 = 0xfff" "par exNS 1 = 0" "par exNS 2 = 0" "par exNS 3 = 1"
  "par exNS (Suc 0) = 0"
  by (simp_all add: par_def exNS_def fid_indices)

lemma exNS_isdir: "isdir exNS 0" "isdir exNS 1" "\<not> isdir exNS 2" "\<not> isdir exNS 3" "isdir exNS (Suc 0)"
  by (simp_all add: isdir_def exNS_def exNS_flags)

lemma exNS_wf: "sns_wf exNS"
proof -
  have nodes: "\<forall>i < 4. unat (STATICNS_CRUMB_SELF_IDX (scrumb (exNS ! i))) = i \<and>
      cflags (scrumb (exNS ! i)) AND CRUMB_ISSTATIC \<noteq> 0"
    unfolding all_less_4 by (simp add: exNS_def fid_indices exNS_flags)
  have up: "\<forall>i < 4. 0 < i \<longrightarrow> par exNS i < i \<and> isdir exNS (par exNS i)"
    unfolding all_less_4 by (simp add: exNS_par exNS_isdir)
  have mono: "\<forall>i < 4. \<forall>j < i. 0 < j \<longrightarrow> par exNS j \<le> par exNS i"
    by (auto simp: less_Suc_eq numeral_eq_Suc exNS_par [unfolded numeral_eq_Suc, simplified])
  have down: "\<forall>i < 4. isdir exNS i \<longrightarrow> (\<exists>j < 4. 0 < j \<and> par exNS j = i)"
    unfolding all_less_4
    using exNS_par exNS_isdir by (auto intro: exI [of _ 1] exI [of _ 3])
  show ?thesis
    unfolding sns_wf_def exNS_nodes using nodes up mono down exNS_par
    by (auto simp: exNS_def)
qed

lemma exNS_kids: "kids exNS 0 = [1, 2]" "kids exNS 1 = [3]" "kids exNS (Suc 0) = [3]"
proof -
  have "[1..<4] = [1, 2, 3::nat]" by (simp add: upt_rec)
  then show "kids exNS 0 = [1, 2]" "kids exNS 1 = [3]" "kids exNS (Suc 0) = [3]"
    by (simp_all add: kids_def kidsFrom_def exNS_nodes exNS_par)
qed

subsection \<open>Checking a table\<close>

text \<open>The conditions of \<open>sns_wf\<close> on the columns of a table, for concrete tables.\<close>

definition sns_columns :: "StaticNS list \<Rightarrow> nat list \<Rightarrow> bool list \<Rightarrow> bool" where
  "sns_columns ns ps ds \<longleftrightarrow>
     map (\<lambda>e. unat (STATICNS_CRUMB_PARENT_IDX (scrumb e))) (butlast ns) = ps \<and>
     map (\<lambda>e. cflags (scrumb e) AND CRUMB_ISDIR \<noteq> 0) (butlast ns) = ds \<and>
     map (\<lambda>e. unat (STATICNS_CRUMB_SELF_IDX (scrumb e))) (butlast ns) = [0..<length ps] \<and>
     (\<forall>e \<in> set (butlast ns). cflags (scrumb e) AND CRUMB_ISSTATIC \<noteq> 0) \<and>
     ns \<noteq> [] \<and> scrumb (last ns) = MKSTATICNS_SENTINEL_CRUMB"

definition columns_ok :: "nat list \<Rightarrow> bool list \<Rightarrow> bool" where
  "columns_ok ps ds \<longleftrightarrow>
     ps \<noteq> [] \<and> length ps < 0xfff \<and> hd ps = 0xfff \<and> sorted (tl ps) \<and>
     list_all (\<lambda>(i, p). p < i \<and> ds ! p) (zip [1..<length ps] (tl ps)) \<and>
     list_all (\<lambda>(i, d). d \<longrightarrow> i \<in> set (tl ps)) (zip [0..<length ps] ds)"

text \<open>What the columns tell of the tree.\<close>

lemma columns_facts:
  assumes c: "sns_columns ns ps dirs"
  shows "nodes ns = length ps" "i < length ps \<Longrightarrow> isdir ns i \<longleftrightarrow> dirs ! i" "kids ns d = filter (\<lambda>j. ps ! j = d) [1..<length ps]"
proof -
  have maps: "map (\<lambda>e. unat (STATICNS_CRUMB_PARENT_IDX (scrumb e))) (butlast ns) = ps"
    "map (\<lambda>e. cflags (scrumb e) AND CRUMB_ISDIR \<noteq> 0) (butlast ns) = dirs"
    using c unfolding sns_columns_def by blast+
  have "length (butlast ns) = length ps" using maps(1) by (metis length_map)
  then show n: "nodes ns = length ps" by (simp add: nodes_def)
  have p: "par ns i = ps ! i \<and> (isdir ns i \<longleftrightarrow> dirs ! i)" if "i < length ps" for i
    unfolding maps [symmetric] using that n by (simp add: nodes_def nth_butlast par_def isdir_def)
  then show "i < length ps \<Longrightarrow> isdir ns i \<longleftrightarrow> dirs ! i" by blast
  show "kids ns d = filter (\<lambda>j. ps ! j = d) [1..<length ps]"
    unfolding kids_def kidsFrom_def n by (rule filter_cong) (use p in auto)
qed

lemma sns_wf_columns:
  assumes col: "sns_columns ns ps ds" and ok: "columns_ok ps ds"
  shows "sns_wf ns"
proof -
  have ne: "ns \<noteq> []" using col by (simp add: sns_columns_def)
  have ps: "ps = map (\<lambda>e. unat (STATICNS_CRUMB_PARENT_IDX (scrumb e))) (butlast ns)"
    and ds: "ds = map (\<lambda>e. cflags (scrumb e) AND CRUMB_ISDIR \<noteq> 0) (butlast ns)"
    and ss: "map (\<lambda>e. unat (STATICNS_CRUMB_SELF_IDX (scrumb e))) (butlast ns) = [0..<length ps]"
    using col by (simp_all add: sns_columns_def)
  have n: "length ps = nodes ns" "length ds = nodes ns" by (simp_all add: ps ds nodes_def)
  have at: "butlast ns ! i = ns ! i" if "i < nodes ns" for i using that by (simp add: nodes_def nth_butlast)
  have par: "par ns i = ps ! i" and dir: "isdir ns i = ds ! i"
    and self: "unat (STATICNS_CRUMB_SELF_IDX (scrumb (ns ! i))) = i" if "i < nodes ns" for i
  proof -
    show "par ns i = ps ! i" "isdir ns i = ds ! i"
      using that n at [OF that] by (simp_all add: ps ds par_def isdir_def)
    have "map (\<lambda>e. unat (STATICNS_CRUMB_SELF_IDX (scrumb e))) (butlast ns) ! i = i"
      unfolding ss using that n by simp
    then show "unat (STATICNS_CRUMB_SELF_IDX (scrumb (ns ! i))) = i" using that at [OF that] by (simp add: nodes_def)
  qed
  have stat: "cflags (scrumb (ns ! i)) AND CRUMB_ISSTATIC \<noteq> 0" if "i < nodes ns" for i
  proof -
    have "ns ! i \<in> set (butlast ns)" using that at [OF that] nth_mem [of i "butlast ns"] by (simp add: nodes_def)
    then show ?thesis using col by (auto simp: sns_columns_def)
  qed
  have first: "0 < nodes ns" using ok n(1) [symmetric] by (simp add: columns_ok_def)
  have pos: "0 < nodes ns" "nodes ns < 0xfff" "par ns 0 = 0xfff"
    using first ok n par [OF first] by (auto simp: columns_ok_def hd_conv_nth)
  have tl: "tl ps ! (i - 1) = ps ! i" if "0 < i" "i < nodes ns" for i using that n by (cases i) (auto simp: nth_tl)
  have up: "par ns i < i \<and> isdir ns (par ns i)" if i: "0 < i" "i < nodes ns" for i
  proof -
    have "(i, ps ! i) \<in> set (zip [1..<length ps] (tl ps))"
      using i n tl [OF i] by (auto simp: in_set_zip intro!: exI [of _ "i - 1"])
    then have "ps ! i < i \<and> ds ! (ps ! i)" using ok by (auto simp: columns_ok_def list_all_iff)
    then show ?thesis using par [OF i(2)] dir [of "ps ! i"] i by auto
  qed
  have mono: "par ns j \<le> par ns i" if "0 < j" "j < i" "i < nodes ns" for i j
  proof -
    have "tl ps ! (j - 1) \<le> tl ps ! (i - 1)"
      using ok that n by (intro sorted_nth_mono) (auto simp: columns_ok_def)
    then show ?thesis using that tl par by simp
  qed
  have down: "\<exists>j < nodes ns. 0 < j \<and> par ns j = i" if i: "i < nodes ns" "isdir ns i" for i
  proof -
    have "(i, ds ! i) \<in> set (zip [0..<length ps] ds)" using i n by (auto simp: in_set_zip intro!: exI [of _ i])
    then have "i \<in> set (tl ps)" using ok i dir [OF i(1)] by (auto simp: columns_ok_def list_all_iff)
    then obtain j where j: "j < length (tl ps)" "tl ps ! j = i" by (auto simp: in_set_conv_nth)
    then have "Suc j < nodes ns" "par ns (Suc j) = i" using n par [of "Suc j"] by (auto simp: nth_tl)
    then show ?thesis by blast
  qed
  have len: "length ns = Suc (nodes ns)" using ne by (simp add: nodes_def)
  show ?thesis
    unfolding sns_wf_def using pos len col self stat up mono down by (auto simp: sns_columns_def)
qed

lemma genericWalk_tree:
  assumes "sns_wf ns" and "d < nodes ns" and "pcrumb p = crumbAt ns d"
    and "path \<noteq> []" and "length path < 2 ^ 28" and "avail (8 + 8 * of_nat (length path))"
  shows "(case genericWalk avail stk p path (\<lambda>p w ni. getNodeInfoStaticNS p (Some ns) w ni) of
            None \<Rightarrow> False
          | Some (Inl e) \<Rightarrow> \<not> isdir ns d \<and> e = ENOTDIR
          | Some (Inr (t, e)) \<Rightarrow>
              isdir ns d \<and> trail_inv t \<and> trail t = map (crumbAt ns) (fst (walk_spec ns d path)) \<and>
              e = snd (walk_spec ns d path))"
proof -
  have c: "pcrumb p = scrumb (ns ! d)" using assms(3) by (simp add: crumbAt_def)
  obtain t where t: "emptyWalkTrail avail (of_nat (length path)) = Inr t"
    using assms(6) by (simp add: emptyWalkTrail_def)
  have inv: "trail_inv t" "trail t = []" "unat (wmax t) = length path"
    using emptyWalkTrail_inv [OF t] assms(5) by (auto simp: unat_of_nat_small)
  have "walks ns d path (clonePortal p (fst stk)) (snd stk) t"
    using walkPath_spec [OF assms(1,2), of "clonePortal p (fst stk)" t path "snd stk"] c inv
    by (simp add: clonePortal_def)
  then show ?thesis
    using t inv assms(4) portal_static(2) [OF assms(1,2) c]
    by (auto simp: genericWalk_def walks_def staticFn_def [symmetric])
qed

lemma readStaticNS_dir:
  assumes "sns_wf ns" and "d < nodes ns" and "isdir ns d" and "pcrumb p = crumbAt ns d"
    and "\<forall>i < nodes ns. length (sname (ns ! i)) < 2 ^ 31" and "sz \<noteq> 0"
  shows "\<exists>n. n \<le> length (kids ns d) \<and>
     (let nms = map (\<lambda>k. sname (ns ! k)) (kids ns d); l = take n (drop (unat offset) nms)
      in readStaticNS stk p ns sz offset =
           Some (of_nat (length l), packed l, p\<lparr>poffset := poffset p + of_nat (length l)\<rparr>) \<and>
         length (packed l) \<le> unat sz \<and>
         (length (packed nms) \<le> unat sz \<longrightarrow> l = drop (unat offset) nms))"
proof -
  define px where "px = clonePortal p (fst stk)"
  define nms where "nms = map (\<lambda>k. sname (ns ! k)) (kids ns d)"
  define l where "l = listing nms (unat sz) (unat offset)"
  have c: "pcrumb px = scrumb (ns ! d)" "pcrumb p = scrumb (ns ! d)"
    using assms(4) by (simp_all add: crumbAt_def px_def clonePortal_def)
  obtain k ks where ks: "kids ns d = k # ks"
    using kids_nonempty [OF assms(1-3)] by (cases "kids ns d") auto
  have k: "0 < k" "k < nodes ns" "par ns k = d" "ks = kidsFrom ns d (Suc k)"
    using kidsFrom_hd [of ns d 1 k ks] ks by (auto simp: kids_def)
  have from_k: "kidsFrom ns d k = kids ns d" using k kidsFrom_step [of k ns d] ks by simp
  have down: "getNodeInfoStaticNS px (Some ns) WalkDown (snd stk) = Some (Inr (nodeInfo px (ns ! k)))"
    using walkDown_dir [OF assms(1,2) c(1) assms(3)] ks by simp
  have loop: "readDirLoop ns px (Some x) (nodeInfo px (ns ! k)) sz offset 0 [] =
      Some (of_nat (length l), packed l)" for x
    using readDirLoop_listing [OF assms(1,5) k(1-3)] by (simp add: from_k l_def nms_def Let_def)
  have ent: "nsAt ns (unat (STATICNS_CRUMB_SELF_IDX (pcrumb p))) = Some (ns ! d)"
    using sns_wf_node(1) [OF assms(1,2)] c assms by simp
  have dir: "cflags (scrumb (ns ! d)) AND CRUMB_ISDIR \<noteq> 0" using assms(3) by (simp add: isdir_def)
  have run: "readStaticNS stk p ns sz offset =
      Some (of_nat (length l), packed l, p\<lparr>poffset := poffset p + of_nat (length l)\<rparr>)"
    using assms(6) by (simp add: readStaticNS_def ent dir px_def [symmetric] down loop)
  obtain m where m: "l = take m (drop (unat offset) nms)" using listing_prefix l_def by blast
  define n where "n = min m (length nms)"
  have n: "n \<le> length (kids ns d)" by (simp add: n_def nms_def)
  have l: "take n (drop (unat offset) nms) = l" by (simp add: n_def m min_def)
  have "length (packed l) \<le> unat sz" "length (packed nms) \<le> unat sz \<longrightarrow> l = drop (unat offset) nms"
    using listing_fits listing_all by (simp_all add: l_def)
  then show ?thesis
    unfolding nms_def [symmetric] Let_def by (intro exI [of _ n]) (simp add: l n run)
qed

subsection \<open>Properties\<close>

text \<open>
  C12: on a well-formed static namespace, \<open>genericWalk\<close> over \<open>getNodeInfoStaticNS\<close> follows the
  tree the parent indices encode: from any directory and for any path the walk returns, no
  memory access leaves the table or the trail, the trail holds the crumbs of the nodes passed
  (\<open>.\<close> and \<open>..\<close> included, \<open>..\<close> of the root being the root), and \<open>errno\<close> is \<open>ENOTDIR\<close> or
  \<open>ENOENT\<close> exactly where the tree has no such step.
\<close>

theorem genericWalk_follows_tree:
  assumes "sns_wf ns" and "d < nodes ns" and "pcrumb p = crumbAt ns d"
    and "path \<noteq> []" and "length path < 2 ^ 28" and "avail (8 + 8 * of_nat (length path))"
  shows "(case genericWalk avail stk p path (\<lambda>p w ni. getNodeInfoStaticNS p (Some ns) w ni) of
            None \<Rightarrow> False
          | Some (Inl e) \<Rightarrow> \<not> isdir ns d \<and> e = ENOTDIR
          | Some (Inr (t, e)) \<Rightarrow>
              isdir ns d \<and> trail_inv t \<and> trail t = map (crumbAt ns) (fst (walk_spec ns d path)) \<and>
              e = snd (walk_spec ns d path))"
  using genericWalk_tree [OF assms(1-5), of avail] assms(6) by blast

theorem genericWalk_follows_tree_witness:
  "(\<exists>t. genericWalk (\<lambda>_. True) (undefined, undefined)
         \<lparr>pdevice = 3, pflags = 0, pcrumb = crumbAt exNS 0, pcaps = 0, poffset = 0\<rparr> [''sub'', ''x'']
         (\<lambda>p w ni. getNodeInfoStaticNS p (Some exNS) w ni) = Some (Inr (t, EOK)) \<and>
       trail t = [crumbAt exNS 1, crumbAt exNS 3])"
proof -
  let ?p = "\<lparr>pdevice = 3, pflags = 0, pcrumb = crumbAt exNS 0, pcaps = 0, poffset = 0\<rparr>"
  have "find_child exNS 0 ''sub'' = Some 1" "find_child exNS 1 ''x'' = Some 3"
    by (simp_all add: find_child_def exNS_kids, simp_all add: exNS_def)
  then have "walk_spec exNS 0 [''sub'', ''x''] = ([1, 3], EOK)" by (simp add: exNS_isdir)
  then show ?thesis
    using genericWalk_follows_tree [OF exNS_wf, of 0 ?p "[''sub'', ''x'']" "\<lambda>_. True" "(undefined, undefined)"]
    by (auto simp: exNS_nodes exNS_isdir split: option.splits sum.splits)
qed

text \<open>
  C29: reading a directory of a well-formed static namespace stores the \<open>NUL\<close>-terminated names
  of a run of its children, starting with the one the offset counts to, never more than the
  size of the buffer; the result and the advance of the portal's offset are the number of
  names, and every remaining child is listed when the names of all children fit the buffer.
\<close>

theorem readStaticNS_lists_children:
  assumes "sns_wf ns" and "d < nodes ns" and "isdir ns d" and "pcrumb p = crumbAt ns d"
    and "\<forall>i < nodes ns. length (sname (ns ! i)) < 2 ^ 31" and "sz \<noteq> 0"
  shows "\<exists>n. n \<le> length (kids ns d) \<and>
     (let nms = map (\<lambda>k. sname (ns ! k)) (kids ns d); l = take n (drop (unat offset) nms)
      in readStaticNS stk p ns sz offset =
           Some (of_nat (length l), packed l, p\<lparr>poffset := poffset p + of_nat (length l)\<rparr>) \<and>
         length (packed l) \<le> unat sz \<and>
         (length (packed nms) \<le> unat sz \<longrightarrow> l = drop (unat offset) nms))"
  by (rule readStaticNS_dir [OF assms])

theorem readStaticNS_lists_children_witness:
  "\<exists>q. readStaticNS (undefined, undefined)
        \<lparr>pdevice = 3, pflags = 0, pcrumb = crumbAt exNS 0, pcaps = 0, poffset = 7\<rparr> exNS 64 1 =
      Some (1, ''ab'' @ [CHR 0x00], q) \<and> poffset q = 8"
proof -
  let ?p = "\<lparr>pdevice = 3, pflags = 0, pcrumb = crumbAt exNS 0, pcaps = 0, poffset = 7\<rparr>"
  have nms: "map (\<lambda>k. sname (exNS ! k)) (kids exNS 0) = [''sub'', ''ab'']"
    by (simp add: exNS_kids, simp add: exNS_def)
  have len: "\<forall>i < nodes exNS. length (sname (exNS ! i)) < 2 ^ 31"
    unfolding exNS_nodes all_less_4 by (simp add: exNS_def)
  show ?thesis
    using readStaticNS_lists_children [OF exNS_wf, of 0 ?p 64 1 "(undefined, undefined)"] len
    by (auto simp: exNS_nodes exNS_isdir nms Let_def)
qed

text \<open>
  The sentinel never ends the search for a child. Its identifier is built with a parent
  index cut to twelve bits, so the test against \<open>STATICNS_SENTINEL\<close> fails on it: going down
  from a directory without children reads past the end of the table instead of returning
  \<open>ENOENT\<close>.
\<close>

theorem walkDown_childless_unsafe:
  assumes "pcrumb p = crumbAt ns d" and "d < length ns" and "unat (STATICNS_CRUMB_SELF_IDX (crumbAt ns d)) = d"
    and "PORTAL_ISSTATICNS p" and "PORTAL_ISDIR p" and "d \<noteq> 0xfff"
    and "\<forall>i. d \<le> i \<longrightarrow> Suc i < length ns \<longrightarrow> par ns i \<noteq> d \<and> \<not> STATICNS_CRUMB_ISSENTINEL (crumbAt ns i)"
    and "crumbAt ns (length ns - 1) = MKSTATICNS_SENTINEL_CRUMB"
  shows "getNodeInfoStaticNS p (Some ns) WalkDown ni = None"
proof -
  let ?w = "STATICNS_CRUMB_SELF_IDX (scrumb (ns ! d))"
  have last: "STATICNS_CRUMB_PARENT_IDX MKSTATICNS_SENTINEL_CRUMB = 0xfff"
    by (simp add: MKSTATICNS_SENTINEL_CRUMB_def fid_indices)
  have "STATICNS_CRUMB_PARENT_IDX (scrumb (ns ! i)) \<noteq> ?w \<and> \<not> STATICNS_CRUMB_ISSENTINEL (scrumb (ns ! i))"
    if "d \<le> i" "i < length ns" for i
  proof (cases "Suc i < length ns")
    case True
    then show ?thesis using that assms(3,7) by (auto simp: crumbAt_def par_eq_iff)
  next
    case False
    then have "scrumb (ns ! i) = MKSTATICNS_SENTINEL_CRUMB"
      using that(2) assms(8) by (metis Suc_lessI crumbAt_def diff_Suc_1)
    moreover have "?w \<noteq> 0xfff" using assms(3,6) by (auto simp: crumbAt_def)
    ultimately show ?thesis using last sentinel_not_recognised by simp
  qed
  then have "scanDown (drop d ns) ?w = None"
    by (intro scanDown_none) (auto simp: in_set_conv_nth)
  then show ?thesis using assms(1,3-5) by (simp add: getNodeInfoStaticNS_def Let_def crumbAt_def)
qed

theorem walkDown_childless_unsafe_witness:
  "let c = MKSTATICNS_CRUMB 0xffff 0 CRUMB_ISDIR;
       n = (\<lambda>c. \<lparr>sname = [], scrumb = c, slength = 0, smode = 0, scontents = NoContents\<rparr>)
   in getNodeInfoStaticNS \<lparr>pdevice = 3, pflags = 0, pcrumb = c, pcaps = 0, poffset = 0\<rparr>
        (Some [n c, n MKSTATICNS_SENTINEL_CRUMB]) WalkDown undefined = None"
proof -
  let ?c = "MKSTATICNS_CRUMB 0xffff 0 CRUMB_ISDIR"
  let ?n = "\<lambda>c. \<lparr>sname = [], scrumb = c, slength = 0, smode = 0, scontents = NoContents\<rparr>"
  show ?thesis
    using walkDown_childless_unsafe [of "\<lparr>pdevice = 3, pflags = 0, pcrumb = ?c, pcaps = 0, poffset = 0\<rparr>"
        "[?n ?c, ?n MKSTATICNS_SENTINEL_CRUMB]" 0 undefined]
    by (simp add: crumbAt_def fid_indices par_def PORTAL_ISSTATICNS_def PORTAL_ISDIR_def exNS_flags
        not_root_sentinel less_Suc_eq Let_def all_conj_distrib)
qed

end
