(* ===== verification/DevBase.thy ===== *)
theory DevBase
  imports StaticNamespace
begin

text \<open>
  The device interface (\<open>struct Dev\<close>), its default operations (\<open>src/src/dev/dev.c\<close>) and the
  device numbers (\<open>src/src/dev/fromDeviceId.c\<close>, \<open>src/src/boot/globals.c\<close>). A device is a record of
  operations over its own state; the locale \<open>static_device\<close> is the contract of a device whose
  files are a static namespace.
\<close>

subsection \<open>Devices\<close>

text \<open>
  What an operation finds around it: for which sizes the allocator has memory, and what the
  uninitialised locals hold.
\<close>

record mem =
  avail :: "u32 \<Rightarrow> bool"
  stk :: "Portal \<times> NodeInfo"

text \<open>
  The operations take what they find, their arguments and the state of the device. \<open>None\<close> is an
  operation that does not return; a result \<open>Inl\<close> is the failure the code reports through \<open>errno\<close>.
  The buffer of a write is the memory from its pointer on, the size a separate argument.
\<close>

type_synonym 'a reply = "errno + 'a"

record 'w Dev =
  dev_id :: int
  dev_name :: string
  dev_power :: "int \<Rightarrow> 'w \<Rightarrow> 'w option"
  dev_init :: "mem \<Rightarrow> 'w \<Rightarrow> 'w option"
  dev_reset :: "mem \<Rightarrow> 'w \<Rightarrow> 'w option"
  dev_shutdown :: "'w \<Rightarrow> 'w option"
  dev_attach :: "mem \<Rightarrow> string \<Rightarrow> 'w \<Rightarrow> (Portal \<times> 'w) option"
  dev_walk :: "mem \<Rightarrow> Portal \<Rightarrow> string list \<Rightarrow> 'w \<Rightarrow> (WalkTrail \<times> errno) reply option"
  dev_create :: "Portal \<Rightarrow> string \<Rightarrow> u32 \<Rightarrow> u32 \<Rightarrow> 'w \<Rightarrow> (int reply \<times> 'w) option"
  dev_open :: "Portal \<Rightarrow> u32 \<Rightarrow> 'w \<Rightarrow> (Portal reply \<times> 'w) option"
  dev_close :: "Portal \<Rightarrow> 'w \<Rightarrow> 'w option"
  dev_remove :: "Portal \<Rightarrow> 'w \<Rightarrow> (int reply \<times> 'w) option"
  dev_getInfo :: "mem \<Rightarrow> Portal \<Rightarrow> 'w \<Rightarrow> NodeInfo reply option"
  dev_setInfo :: "Portal \<Rightarrow> NodeInfo \<Rightarrow> 'w \<Rightarrow> (int reply \<times> 'w) option"
  dev_read :: "mem \<Rightarrow> Portal \<Rightarrow> u32 \<Rightarrow> u32 \<Rightarrow> 'w \<Rightarrow> ((u32 \<times> string) reply \<times> Portal \<times> 'w) option"
  dev_write :: "mem \<Rightarrow> Portal \<Rightarrow> string \<Rightarrow> u32 \<Rightarrow> u32 \<Rightarrow> 'w \<Rightarrow> (u32 reply \<times> Portal \<times> 'w) option"

abbreviation "DEV_DEVROOT \<equiv> (0x52 :: int)"
abbreviation "DEV_DEVLED \<equiv> (0x6C :: int)"
abbreviation "DEV_DEVSWPB \<equiv> (0x42 :: int)"
abbreviation "DEV_DEVUART \<equiv> (0x75 :: int)"
abbreviation "DEV_DEVLCD \<equiv> (0x44 :: int)"
abbreviation "DEV_DEVADC \<equiv> (0x41 :: int)"
abbreviation "DEV_DEVTIMER \<equiv> (0x54 :: int)"
abbreviation "DEV_DEVDEV \<equiv> (0x3D :: int)"

abbreviation "CAP_READ \<equiv> (0 :: u32)"
abbreviation "CAP_WRITE \<equiv> (1 :: u32)"
abbreviation "CAP_READWRITE \<equiv> (2 :: u32)"

text \<open>The identifiers of the devices of \<open>deviceTable\<close>, in its order.\<close>

definition deviceIds :: "int list" where
  "deviceIds = [DEV_DEVROOT, DEV_DEVLED, DEV_DEVSWPB, DEV_DEVUART, DEV_DEVLCD, DEV_DEVADC, DEV_DEVTIMER, DEV_DEVDEV]"

fun idIndex :: "int \<Rightarrow> int list \<Rightarrow> int \<Rightarrow> int" where
  "idIndex i [] did = -1"
| "idIndex i (x # xs) did = (if x = did then i else idIndex (i + 1) xs did)"

definition fromDeviceId :: "int \<Rightarrow> int" where
  "fromDeviceId did = idIndex 0 deviceIds did"

definition toDeviceId :: "int \<Rightarrow> int option" where
  "toDeviceId device =
     (if device < 0 \<or> int (length deviceIds) < device then Some (-1)
      else if nat device < length deviceIds then Some (deviceIds ! nat device) else None)"

subsection \<open>The default operations\<close>

definition powerDev :: "int \<Rightarrow> 'w \<Rightarrow> 'w option" where
  "powerDev onoff w = Some w"

definition initDev :: "mem \<Rightarrow> 'w \<Rightarrow> 'w option" where
  "initDev m w = Some w"

definition shutdownDev :: "'w \<Rightarrow> 'w option" where
  "shutdownDev w = Some w"

definition resetDev :: "mem \<Rightarrow> 'w \<Rightarrow> 'w option" where
  "resetDev m w = Some w"

text \<open>The block of a portal is zeroed; without memory the code writes through \<open>NULL\<close>.\<close>

definition zeroPortal :: Portal where
  "zeroPortal = \<lparr>pdevice = 0, pflags = 0, pcrumb = \<lparr>cflags = 0, fid = 0\<rparr>, pcaps = 0, poffset = 0\<rparr>"

definition attachDev :: "mem \<Rightarrow> int \<Rightarrow> string \<Rightarrow> Portal option" where
  "attachDev m device path =
     (if avail m 24 then
        (let p = mkPortal zeroPortal (fromDeviceId device)
         in Some (p\<lparr>pcrumb := \<lparr>cflags = CRUMB_ISDIR, fid = 0\<rparr>\<rparr>))
      else None)"

definition openDev :: "Portal \<Rightarrow> u32 \<Rightarrow> Portal" where
  "openDev p caps = p\<lparr>poffset := 0, pcaps := caps, pflags := pflags p OR PORTAL_ISOPEN\<rparr>"

definition createDev :: "Portal \<Rightarrow> string \<Rightarrow> u32 \<Rightarrow> u32 \<Rightarrow> 'w \<Rightarrow> (int reply \<times> 'w) option" where
  "createDev p name caps mode w = Some (Inl EPERM, w)"

definition removeDev :: "Portal \<Rightarrow> 'w \<Rightarrow> (int reply \<times> 'w) option" where
  "removeDev p w = Some (Inl EPERM, w)"

definition setInfoDev :: "Portal \<Rightarrow> NodeInfo \<Rightarrow> 'w \<Rightarrow> (int reply \<times> 'w) option" where
  "setInfoDev p info w = Some (Inl EPERM, w)"

text \<open>The shapes shared by the devices over a static namespace.\<close>

definition walkStatic :: "StaticNS list \<Rightarrow> mem \<Rightarrow> Portal \<Rightarrow> string list \<Rightarrow> (WalkTrail \<times> errno) reply option" where
  "walkStatic ns m p path = genericWalk (avail m) (stk m) p path (\<lambda>p d ni. getNodeInfoStaticNS p (Some ns) d ni)"

definition selfInfo :: "StaticNS list \<Rightarrow> mem \<Rightarrow> Portal \<Rightarrow> NodeInfo reply option" where
  "selfInfo ns m p = getNodeInfoStaticNS p (Some ns) WalkSelf (snd (stk m))"

definition attachStatic :: "int \<Rightarrow> StaticNS list \<Rightarrow> mem \<Rightarrow> string \<Rightarrow> 'w \<Rightarrow> (Portal \<times> 'w) option" where
  "attachStatic did ns m path w =
     do { p \<leftarrow> attachDev m did path; e \<leftarrow> nsAt ns 0; Some (p\<lparr>pcrumb := scrumb e\<rparr>, w) }"

definition readDirStatic :: "StaticNS list \<Rightarrow> mem \<Rightarrow> Portal \<Rightarrow> u32 \<Rightarrow> u32 \<Rightarrow> 'w \<Rightarrow> ((u32 \<times> string) reply \<times> Portal \<times> 'w) option" where
  "readDirStatic ns m p sz offset w =
     do { (n, out, p') \<leftarrow> readStaticNS (stk m) p ns sz offset; Some (Inr (n, out), p', w) }"

definition writeDenied :: "mem \<Rightarrow> Portal \<Rightarrow> string \<Rightarrow> u32 \<Rightarrow> u32 \<Rightarrow> 'w \<Rightarrow> (u32 reply \<times> Portal \<times> 'w) option" where
  "writeDenied m p buf sz offset w = Some (Inl EPERM, p, w)"

subsection \<open>The contract of a static device\<close>

text \<open>
  What the system calls rely on: in a state where the device is set up (\<open>ok\<close>), a well-formed
  table of nodes, that attaching gives a portal of the device at the entry of the table for the path, and that
  walking and asking for a node are those of the table.
\<close>

locale static_device =
  fixes d :: "'w Dev" and ok :: "'w \<Rightarrow> bool" and table :: "'w \<Rightarrow> StaticNS list" and entry :: "string \<Rightarrow> nat"
  assumes table_wf: "ok w \<Longrightarrow> sns_wf (table w)"
    and entry_node: "ok w \<Longrightarrow> entry path < nodes (table w)"
    and attach_entry: "ok w \<Longrightarrow> avail m 24 \<Longrightarrow> \<exists>p. dev_attach d m path w = Some (p, w) \<and>
      pdevice p = fromDeviceId (dev_id d) \<and> pcrumb p = scrumb (table w ! entry path)"
    and walk_table: "ok w \<Longrightarrow> dev_walk d m p names w = walkStatic (table w) m p names"
    and info_node: "ok w \<Longrightarrow> i < nodes (table w) \<Longrightarrow> \<not> isdir (table w) i \<Longrightarrow> pcrumb p = scrumb (table w ! i) \<Longrightarrow>
      dev_getInfo d m p w = Some (Inr (nodeInfo p (table w ! i)))"
    and open_keeps: "dev_open d p caps w = Some (Inr (openDev p caps), w)"
begin

text \<open>A walk from a node of the device follows the tree of its table.\<close>

lemma walk_from:
  assumes ok: "ok w" and "i < nodes (table w)" "pcrumb p = crumbAt (table w) i" "isdir (table w) i"
    and "names \<noteq> []" "length names < 2 ^ 28" "avail m (8 + 8 * of_nat (length names))"
  shows "\<exists>t. dev_walk d m p names w = Some (Inr (t, snd (walk_spec (table w) i names))) \<and> trail_inv t \<and>
           trail t = map (crumbAt (table w)) (fst (walk_spec (table w) i names))"
  using genericWalk_tree [OF table_wf [OF ok] assms(2,3,5,6), of "avail m" "stk m"] assms(4,7)
  by (auto simp: walk_table [OF ok] walkStatic_def split: option.splits sum.splits)

text \<open>A walk from a file gives no trail.\<close>

lemma walk_from_file:
  assumes ok: "ok w" and "i < nodes (table w)" "pcrumb p = crumbAt (table w) i" "\<not> isdir (table w) i" "names \<noteq> []"
  shows "dev_walk d m p names w = Some (Inl ENOTDIR)"
  using portal_static(2) [OF table_wf [OF ok] assms(2), of p] assms(3-5)
  by (simp add: walk_table [OF ok] walkStatic_def genericWalk_def crumbAt_def)

text \<open>Attaching and then walking starts at the entry.\<close>

lemma attach_walk:
  assumes ok: "ok w" and "avail m 24" "isdir (table w) (entry path)" "names \<noteq> []" "length names < 2 ^ 28"
    "avail m (8 + 8 * of_nat (length names))"
  shows "\<exists>p t. dev_attach d m path w = Some (p, w) \<and> pdevice p = fromDeviceId (dev_id d) \<and>
           dev_walk d m p names w = Some (Inr (t, snd (walk_spec (table w) (entry path) names))) \<and> trail_inv t \<and>
           trail t = map (crumbAt (table w)) (fst (walk_spec (table w) (entry path) names))"
proof -
  obtain p where p: "dev_attach d m path w = Some (p, w)" "pdevice p = fromDeviceId (dev_id d)"
    "pcrumb p = scrumb (table w ! entry path)"
    using attach_entry [OF ok assms(2)] by blast
  then show ?thesis using walk_from [OF ok entry_node [OF ok], of p path names m] assms by (auto simp: crumbAt_def)
qed

end

lemma selfInfo_node:
  "sns_wf ns \<Longrightarrow> i < nodes ns \<Longrightarrow> pcrumb p = scrumb (ns ! i) \<Longrightarrow> selfInfo ns m p = Some (Inr (nodeInfo p (ns ! i)))"
  by (simp add: selfInfo_def walkSelf_node)

lemma attachStatic_root:
  assumes "sns_wf ns" "avail m 24"
  shows "\<exists>p. attachStatic did ns m path w = Some (p, w) \<and> pdevice p = fromDeviceId did \<and> pcrumb p = scrumb (ns ! 0)"
  using assms sns_wfD(2) [OF assms(1)]
  by (simp add: attachStatic_def attachDev_def mkPortal_def)

lemma fromDeviceId_table:
  "fromDeviceId DEV_DEVROOT = 0" "fromDeviceId DEV_DEVLED = 1" "fromDeviceId DEV_DEVSWPB = 2"
  "fromDeviceId DEV_DEVUART = 3" "fromDeviceId DEV_DEVLCD = 4" "fromDeviceId DEV_DEVADC = 5"
  "fromDeviceId DEV_DEVTIMER = 6" "fromDeviceId DEV_DEVDEV = 7"
  by (simp_all add: fromDeviceId_def deviceIds_def)

text \<open>The number one past the table passes the range check and reads outside the table.\<close>

lemma toDeviceId_past_end: "toDeviceId (int (length deviceIds)) = None"
  by (simp add: toDeviceId_def)


text \<open>A row of a namespace table: name, parent and own index, flags, length, mode, contents.\<close>

definition nsRow :: "string \<Rightarrow> u32 \<Rightarrow> u32 \<Rightarrow> u8 \<Rightarrow> u32 \<Rightarrow> u32 \<Rightarrow> contents \<Rightarrow> StaticNS" where
  "nsRow nm p i fl len mode c = \<lparr>sname = nm, scrumb = MKSTATICNS_CRUMB p i fl, slength = len, smode = mode, scontents = c\<rparr>"

text \<open>The row that ends a table.\<close>

definition nsEnd :: StaticNS where
  "nsEnd = \<lparr>sname = '''', scrumb = MKSTATICNS_SENTINEL_CRUMB, slength = 0, smode = 0, scontents = NoContents\<rparr>"

lemma nsRow_sel [simp]:
  "sname (nsRow nm p i fl len mode c) = nm" "scrumb (nsRow nm p i fl len mode c) = MKSTATICNS_CRUMB p i fl"
  "slength (nsRow nm p i fl len mode c) = len" "smode (nsRow nm p i fl len mode c) = mode"
  "scontents (nsRow nm p i fl len mode c) = c"
  by (simp_all add: nsRow_def)

lemma nsEnd_crumb [simp]: "scrumb nsEnd = MKSTATICNS_SENTINEL_CRUMB"
  by (simp add: nsEnd_def)

lemma crumb_flags [simp]: "cflags (MKSTATICNS_CRUMB p i fl) = fl OR CRUMB_ISSTATIC"
  by (simp add: MKSTATICNS_CRUMB_def)

text \<open>Modes, in octal 0444, 0555, 0644, 0222 and 0666.\<close>

abbreviation "M0444 \<equiv> (0x124 :: u32)"
abbreviation "M0555 \<equiv> (0x16D :: u32)"
abbreviation "M0644 \<equiv> (0x1A4 :: u32)"
abbreviation "M0222 \<equiv> (0x92 :: u32)"
abbreviation "M0666 \<equiv> (0x1B6 :: u32)"

lemmas upt_from = upt_rec [of 0] upt_rec [of 1] upt_rec [of "Suc 0"]

text \<open>A table of files below one directory, as the devices that build theirs at reset lay it out.\<close>

definition flatNS :: "StaticNS list \<Rightarrow> StaticNS list" where
  "flatNS rows = nsRow ''.'' STATICNS_SENTINEL 0 CRUMB_ISDIR 0 M0555 NoContents # rows @ [nsEnd]"

lemma flatNS_wf:
  assumes rows: "\<forall>i < length rows. scrumb (rows ! i) = MKSTATICNS_CRUMB 0 (of_nat (i + 1)) CRUMB_ISFILE"
    and size: "rows \<noteq> []" "length rows < 0xffe"
  shows "sns_wf (flatNS rows)"
proof (rule sns_wf_columns)
  let ?n = "length rows"
  have node: "scrumb e = MKSTATICNS_CRUMB 0 (of_nat (i + 1)) CRUMB_ISFILE" if "e = rows ! i" "i < ?n" for e i
    using rows that by simp
  have parents: "map (\<lambda>e. unat (STATICNS_CRUMB_PARENT_IDX (scrumb e))) rows = replicate ?n 0"
    and dirs: "map (\<lambda>e. cflags (scrumb e) AND CRUMB_ISDIR \<noteq> 0) rows = replicate ?n False"
    by (rule nth_equalityI; simp add: rows fid_indices)+
  have selves: "map (\<lambda>e. unat (STATICNS_CRUMB_SELF_IDX (scrumb e))) rows = [1..<Suc ?n]"
  proof (rule nth_equalityI)
    fix i assume i: "i < length (map (\<lambda>e. unat (STATICNS_CRUMB_SELF_IDX (scrumb e))) rows)"
    have "unat (ucast (of_nat (i + 1) :: u32) :: u16) = i + 1"
      using i size(2) by (simp add: unsigned_ucast_eq take_bit_eq_mod unat_of_nat del: of_nat_Suc)
    then show "map (\<lambda>e. unat (STATICNS_CRUMB_SELF_IDX (scrumb e))) rows ! i = [1..<Suc ?n] ! i"
      using i by (simp add: rows fid_indices del: upt_Suc of_nat_Suc)
  qed (simp del: upt_Suc)
  have stat: "cflags (scrumb e) AND CRUMB_ISSTATIC \<noteq> 0" if "e \<in> set rows" for e
    using that node by (force simp: in_set_conv_nth)
  have butlast: "butlast (flatNS rows) = nsRow ''.'' STATICNS_SENTINEL 0 CRUMB_ISDIR 0 M0555 NoContents # rows"
    unfolding flatNS_def append_Cons [symmetric] butlast_snoc ..
  have idx: "[0..<Suc ?n] = 0 # [1..<Suc ?n]" by (simp add: upt_conv_Cons del: upt_Suc)
  have self: "map (\<lambda>e. unat (STATICNS_CRUMB_SELF_IDX (scrumb e))) (butlast (flatNS rows)) = [0..<length (0xfff # replicate ?n (0 :: nat))]"
    unfolding butlast list.map selves length_Cons length_replicate idx by (simp add: fid_indices)
  show "sns_columns (flatNS rows) (0xfff # replicate ?n 0) (True # replicate ?n False)"
    unfolding sns_columns_def self unfolding butlast list.map parents dirs
    using stat by (auto simp: fid_indices flatNS_def)
  have "list_all (\<lambda>(i, p). p < i \<and> (True # replicate ?n False) ! p) (zip [1..<length (0xfff # replicate ?n 0)] (tl (0xfff # replicate ?n (0 :: nat))))"
    by (auto simp: list_all_iff set_zip simp del: upt_Suc)
  moreover have "list_all (\<lambda>(i, d). d \<longrightarrow> i \<in> set (tl (0xfff # replicate ?n (0 :: nat)))) (zip [0..<length (0xfff # replicate ?n (0 :: nat))] (True # replicate ?n False))"
    using size(1) by (auto simp: list_all_iff set_zip nth_Cons' simp del: upt_Suc split: if_splits)
  ultimately show "columns_ok (0xfff # replicate ?n 0) (True # replicate ?n False)"
    using size unfolding columns_ok_def by simp
qed

subsection \<open>Drivers that report their hardware\<close>

abbreviation "sizeof_StaticNS \<equiv> (276 :: nat)"

text \<open>
  The chains the drivers report, one after the other, and their number; \<open>tied\<close> tells whether
  \<open>hpChain\<close> points to the end of the chain so far.
\<close>

fun plugChains :: "'h list list \<Rightarrow> bool \<Rightarrow> 'h list \<Rightarrow> ('h list \<times> nat) option" where
  "plugChains [] tied us = Some (us, 0)"
| "plugChains ([] # hs) tied us = plugChains hs tied us"
| "plugChains (h # hs) tied us =
     (if us \<noteq> [] \<and> \<not> tied then None
      else do { (us', n) \<leftarrow> plugChains hs True (us @ h); Some (us', length h + n) })"

lemma plugChains_count: "plugChains hs tied us = Some (us', n) \<Longrightarrow> us' = us @ concat hs \<and> n = length (concat hs)"
  by (induction hs tied us arbitrary: us' n rule: plugChains.induct) (auto simp: bind_eq_Some_conv split: if_splits)

end
