(* ===== verification/Syscalls.thy ===== *)
theory Syscalls
  imports ProcProps DevBase Paths
begin

text \<open>
  The system calls on files (\<open>src/src/sys/\<close>): walking across mount points, the descriptors of the
  running process, and the calls that go through them to the devices.
\<close>

subsection \<open>State\<close>

text \<open>
  The kernel's processes, the portals the descriptors point to by their address, the address of the next
  portal, what the kernel printed for itself, the words of memory (of the stacks), and the state of the devices. A table of devices works on
  the whole of it: the device of kernel services makes system calls.
\<close>

record 'd Sys =
  kern :: Kern
  portals :: "nat \<Rightarrow> Portal option"
  fresh :: nat
  klog :: "string list"
  words :: "u32 \<Rightarrow> u32"
  devst :: 'd

abbreviation "MANOS_MAXDEV \<equiv> (8 :: int)"

definition deviceAt :: "'w Dev list \<Rightarrow> int \<Rightarrow> 'w Dev option" where
  "deviceAt ds i = (if 0 \<le> i \<and> nat i < length ds then Some (ds ! nat i) else None)"

subsection \<open>Walking\<close>

text \<open>
  The loop of \<open>syswalk\<close>: \<open>e\<close> is \<open>errno\<close>. A device that gives no trail is dereferenced all the same, a
  mount whose letter no device has aborts, and a failed \<open>getInfo\<close> leaves what the local held. The
  contents of a mount are read as a string.
\<close>

definition mountPath :: "contents \<Rightarrow> string option" where
  "mountPath c = (case c of NoContents \<Rightarrow> Some '''' | StrContents s \<Rightarrow> Some s | HwContents _ \<Rightarrow> None)"

partial_function (option) walkLoop ::
  "'w Dev list \<Rightarrow> mem \<Rightarrow> Portal \<Rightarrow> string list \<Rightarrow> errno \<Rightarrow> 'w \<Rightarrow> (Portal reply \<times> 'w) option" where
  "walkLoop ds m px path e w =
     (if path = [] then Some (Inr px, w)
      else do {
        d \<leftarrow> deviceAt ds (pdevice px);
        r \<leftarrow> dev_walk d m px path w;
        (t, e1) \<leftarrow> (case r of Inl _ \<Rightarrow> None | Inr te \<Rightarrow> Some te);
        rest \<leftarrow> (if unat (wtop t) \<le> length path then Some (drop (unat (wtop t)) path) else None);
        top \<leftarrow> topCrumb t;
        let px1 = (case top of Inl _ \<Rightarrow> px | Inr c \<Rightarrow> px\<lparr>pcrumb := c\<rparr>);
        let e2 = (case top of Inl e' \<Rightarrow> e' | Inr _ \<Rightarrow> e1);
        if cflags (pcrumb px1) AND CRUMB_ISMOUNT \<noteq> 0 then do {
          info \<leftarrow> dev_getInfo d m px1 w;
          let ni = (case info of Inl _ \<Rightarrow> snd (stk m) | Inr ni \<Rightarrow> ni);
          let idx = fromDeviceId (uint (ni_length ni));
          if idx = -1 then None
          else do {
            d' \<leftarrow> deviceAt ds idx;
            c \<leftarrow> mountPath (ni_contents ni);
            (px2, w') \<leftarrow> dev_attach d' m c w;
            walkLoop ds m px2 rest e2 w'
          }
        }
        else Some (if rest = [] then Inr px1 else Inl e2, w)
      })"

definition syswalk :: "'w Dev list \<Rightarrow> mem \<Rightarrow> Portal \<Rightarrow> string list \<Rightarrow> 'w \<Rightarrow> (Portal reply \<times> 'w) option" where
  "syswalk ds m p path w =
     (if path \<noteq> [] \<and> \<not> PORTAL_ISDIR p then Some (Inl ENOTDIR, w)
      else if \<not> avail m 24 then Some (Inl ENOMEM, w)
      else walkLoop ds m (clonePortal p zeroPortal) path EOK w)"

subsection \<open>Opening\<close>

text \<open>The portal a process keeps under an address, and a portal kept under the next free one.\<close>

definition addPortal :: "Portal \<Rightarrow> 'd Sys \<Rightarrow> nat \<times> 'd Sys" where
  "addPortal p s = (fresh s, s\<lparr>portals := (portals s)(fresh s \<mapsto> p), fresh := fresh s + 1\<rparr>)"

definition setFd :: "nat \<Rightarrow> nat \<Rightarrow> nat option \<Rightarrow> 'd Sys \<Rightarrow> 'd Sys" where
  "setFd q fd a s = s\<lparr>kern := upd q (\<lambda>x. x\<lparr>fds := (fds x)(fd := a)\<rparr>) (kern s)\<rparr>"

text \<open>
  The first descriptor that is free. A device whose \<open>open\<close> fails leaves it free, and its number is
  given out all the same.
\<close>

definition openFor :: "'d Sys Dev list \<Rightarrow> mem \<Rightarrow> nat \<Rightarrow> string \<Rightarrow> u32 \<Rightarrow> 'd Sys \<Rightarrow> (nat reply \<times> 'd Sys) option" where
  "openFor ds m q path caps s =
     do {
       pth \<leftarrow> mkPath (avail m) (avail m) path;
       case pth of
         None \<Rightarrow> Some (Inl ENOMEM, s)
       | Some pt \<Rightarrow>
           do {
             a \<leftarrow> (if isAbsolute path then pslash (procs (kern s) q) else pdot (procs (kern s) q));
             p \<leftarrow> portals s a;
             (r, s1) \<leftarrow> syswalk ds m p (elems pt) s;
             case r of
               Inl e \<Rightarrow> Some (Inl e, s1)
             | Inr px \<Rightarrow>
                 (case find (\<lambda>fd. fds (procs (kern s1) q) fd = None) [0..<MANOS_MAXFD] of
                    None \<Rightarrow> Some (Inl EMFILE, s1)
                  | Some fd \<Rightarrow>
                      do {
                        d \<leftarrow> deviceAt ds (pdevice px);
                        (r', s2) \<leftarrow> dev_open d px caps s1;
                        Some (Inr fd, case r' of Inl _ \<Rightarrow> s2
                                      | Inr p' \<Rightarrow> (case addPortal p' s2 of (b, s3) \<Rightarrow> setFd q fd (Some b) s3))
                      })
           }
     }"

definition sysopen :: "'d Sys Dev list \<Rightarrow> mem \<Rightarrow> string \<Rightarrow> u32 \<Rightarrow> 'd Sys \<Rightarrow> (nat reply \<times> 'd Sys) option" where
  "sysopen ds m path caps s = do { q \<leftarrow> rp (kern s); openFor ds m q path caps s }"

subsection \<open>The calls on descriptors\<close>

text \<open>
  The descriptor table is read before the number is looked at: a number outside it reads other memory.
\<close>

definition descriptor :: "int \<Rightarrow> 'd Sys \<Rightarrow> (nat \<times> nat option) option" where
  "descriptor fd s =
     do { q \<leftarrow> rp (kern s);
          if 0 \<le> fd \<and> fd < int MANOS_MAXFD then Some (q, fds (procs (kern s) q) (nat fd)) else None }"

definition setPortal :: "nat \<Rightarrow> Portal \<Rightarrow> 'd Sys \<Rightarrow> 'd Sys" where
  "setPortal a p s = s\<lparr>portals := (portals s)(a \<mapsto> p)\<rparr>"

definition sysclose :: "'d Sys Dev list \<Rightarrow> int \<Rightarrow> 'd Sys \<Rightarrow> (unit reply \<times> 'd Sys) option" where
  "sysclose ds fd s =
     do {
       (q, h) \<leftarrow> descriptor fd s;
       case h of
         None \<Rightarrow> Some (Inl EBADF, s)
       | Some a \<Rightarrow>
           do {
             p \<leftarrow> portals s a;
             if MANOS_MAXDEV \<le> pdevice p then
               do { (n, b) \<leftarrow> fmtSnprintf (replicate 1024 NUL) 1024 ''sysclose() unknown device %d'' [UIntArg (of_int (pdevice p))];
                    Some (Inr (), s\<lparr>klog := klog s @ [take n b]\<rparr>) }
             else do {
               d \<leftarrow> deviceAt ds (pdevice p);
               s1 \<leftarrow> dev_close d p s;
               Some (Inr (), setFd q (nat fd) None (s1\<lparr>portals := (portals s1)(a := None)\<rparr>))
             }
           }
     }"

definition sysread :: "'d Sys Dev list \<Rightarrow> mem \<Rightarrow> int \<Rightarrow> u32 \<Rightarrow> 'd Sys \<Rightarrow> ((u32 \<times> string) reply \<times> 'd Sys) option" where
  "sysread ds m fd n s =
     do {
       (_, h) \<leftarrow> descriptor fd s;
       case h of
         None \<Rightarrow> Some (Inl EBADF, s)
       | Some a \<Rightarrow>
           do {
             p \<leftarrow> portals s a;
             if MANOS_MAXDEV \<le> pdevice p then Some (Inl ENODEV, s)
             else do {
               d \<leftarrow> deviceAt ds (pdevice p);
               (r, p', s1) \<leftarrow> dev_read d m p n (poffset p) s;
               Some (r, setPortal a p' s1)
             }
           }
     }"

text \<open>Writing does not check the number of the device.\<close>

definition syswrite :: "'d Sys Dev list \<Rightarrow> mem \<Rightarrow> int \<Rightarrow> string \<Rightarrow> u32 \<Rightarrow> 'd Sys \<Rightarrow> (u32 reply \<times> 'd Sys) option" where
  "syswrite ds m fd buf n s =
     do {
       (_, h) \<leftarrow> descriptor fd s;
       case h of
         None \<Rightarrow> Some (Inl EBADF, s)
       | Some a \<Rightarrow>
           do {
             p \<leftarrow> portals s a;
             d \<leftarrow> deviceAt ds (pdevice p);
             (r, p', s1) \<leftarrow> dev_write d m p buf n (poffset p) s;
             Some (r, setPortal a p' s1)
           }
     }"

definition sysgetInfoFd :: "'d Sys Dev list \<Rightarrow> mem \<Rightarrow> int \<Rightarrow> 'd Sys \<Rightarrow> NodeInfo reply option" where
  "sysgetInfoFd ds m fd s =
     do {
       (_, h) \<leftarrow> descriptor fd s;
       case h of
         None \<Rightarrow> Some (Inl EBADF)
       | Some a \<Rightarrow>
           do {
             p \<leftarrow> portals s a;
             if MANOS_MAXDEV \<le> pdevice p then Some (Inl ENODEV)
             else if cflags (pcrumb p) AND CRUMB_ISDIR \<noteq> 0 then Some (Inl EISDIR)
             else do { d \<leftarrow> deviceAt ds (pdevice p); dev_getInfo d m p s }
           }
     }"

definition setInfo :: "'w Dev list \<Rightarrow> Portal \<Rightarrow> NodeInfo \<Rightarrow> 'w \<Rightarrow> (int reply \<times> 'w) option" where
  "setInfo ds p ni w = do { d \<leftarrow> deviceAt ds (pdevice p); dev_setInfo d p ni w }"

text \<open>
  Reading a directory: the device's answer is taken as the number of names in the buffer. Each name becomes
  a node without length, mode or a crumb of its own. In the code the nodes' names still point into the
  buffer, which is on the stack of the call.
\<close>

abbreviation "DIRREAD_READBUF_MAX \<equiv> (4096 :: u32)"
abbreviation "sizeof_NodeInfo \<equiv> (36 :: u32)"

definition dirNode :: "Portal \<Rightarrow> string \<Rightarrow> NodeInfo" where
  "dirNode p name =
     mkNodeInfo p MKSTATICNS_SENTINEL_CRUMB name 0 0
       \<lparr>ni_name = '''', ni_crumb = \<lparr>cflags = 0, fid = 0\<rparr>, ni_device = 0, ni_mode = 0, ni_atime = 0, ni_mtime = 0,
        ni_length = 0, ni_contents = NoContents\<rparr>"

definition dirread :: "'d Sys Dev list \<Rightarrow> mem \<Rightarrow> int \<Rightarrow> 'd Sys \<Rightarrow> (NodeInfo list reply \<times> 'd Sys) option" where
  "dirread ds m fd s =
     do {
       (_, h) \<leftarrow> descriptor fd s;
       case h of
         None \<Rightarrow> Some (Inl EBADF, s)
       | Some a \<Rightarrow>
           do {
             p \<leftarrow> portals s a;
             if MANOS_MAXDEV \<le> pdevice p then Some (Inl ENODEV, s)
             else if cflags (pcrumb p) AND CRUMB_ISDIR = 0 then Some (Inl ENOTDIR, s)
             else do {
               d \<leftarrow> deviceAt ds (pdevice p);
               (r, p', s1) \<leftarrow> dev_read d m p DIRREAD_READBUF_MAX (poffset p) s;
               case r of
                 Inl e \<Rightarrow> Some (Inl e, setPortal a p' s1)
               | Inr (dirs, out) \<Rightarrow>
                   if dirs = 0 then Some (Inr [], setPortal a p' s1)
                   else if avail m (sizeof_NodeInfo * dirs) then
                     do { nms \<leftarrow> elemsFrom (unat dirs) out;
                          Some (Inr (map (dirNode p') nms), setPortal a p' s1) }
                   else None
             }
           }
     }"

text \<open>
  The name of the working directory, in a buffer of \<open>n\<close> bytes: its first bytes and a \<open>NUL\<close>, which for a
  name of exactly \<open>n\<close> characters, or an empty buffer, is written behind it.
\<close>

definition getcwd :: "'d Sys Dev list \<Rightarrow> mem \<Rightarrow> string \<Rightarrow> 'd Sys \<Rightarrow> (string \<times> 'd Sys) option" where
  "getcwd ds m buf s =
     do {
       q \<leftarrow> rp (kern s);
       a \<leftarrow> pdot (procs (kern s) q);
       dot \<leftarrow> portals s a;
       (r, s1) \<leftarrow> syswalk ds m dot [] s;
       p \<leftarrow> (case r of Inl _ \<Rightarrow> None | Inr p \<Rightarrow> Some p);
       d \<leftarrow> deviceAt ds (pdevice p);
       info \<leftarrow> dev_getInfo d m p s1;
       let ni = (case info of Inl _ \<Rightarrow> snd (stk m) | Inr ni \<Rightarrow> ni);
       let n = length buf;
       let len = length (ni_name ni);
       let x = (if n < len then (if n = 0 then 0xffffffff else n - 1) else len);
       if x < n then Some (take x (ni_name ni) @ NUL # drop (Suc x) buf, s1) else None
     }"

end
