(* ===== verification/Resolve.thy ===== *)
theory Resolve
  imports Syscalls
begin

text \<open>
  What a path means across the mounted devices: a specification over the tables the devices keep, and the
  proof that \<open>syswalk\<close> implements it.
\<close>

subsection \<open>The specification\<close>

text \<open>
  A path leads to a node of a device, or to nothing with an error, or the walk goes wrong: it continues
  below a file.
\<close>

datatype outcome = Found nat nat | Missing errno | Fault

definition isMount :: "StaticNS list \<Rightarrow> nat \<Rightarrow> bool" where
  "isMount ns k \<longleftrightarrow> cflags (scrumb (ns ! k)) AND CRUMB_ISMOUNT \<noteq> 0"

definition mountTarget :: "(nat \<Rightarrow> string \<Rightarrow> nat) \<Rightarrow> StaticNS list \<Rightarrow> nat \<Rightarrow> (nat \<times> nat) option" where
  "mountTarget ent ns k =
     (let idx = fromDeviceId (uint (slength (ns ! k))) in
      if idx < 0 then None
      else do { c \<leftarrow> mountPath (scontents (ns ! k)); Some (nat idx, ent (nat idx) c) })"

function resolve :: "(nat \<Rightarrow> StaticNS list) \<Rightarrow> (nat \<Rightarrow> string \<Rightarrow> nat) \<Rightarrow> nat \<Rightarrow> nat \<Rightarrow> string list \<Rightarrow> outcome" where
  "resolve tab ent d i path =
     (if path = [] then Found d i
      else if \<not> isdir (tab d) i then Fault
      else let (ks, e) = walk_spec (tab d) i path; rest = drop (length ks) path in
        if ks = [] then Missing ENODATA
        else if isMount (tab d) (last ks) then
          (case mountTarget ent (tab d) (last ks) of None \<Rightarrow> Fault | Some (d', i') \<Rightarrow> resolve tab ent d' i' rest)
        else if rest = [] then Found d (last ks) else Missing e)"
  by pat_completeness auto
termination by (relation "measure (\<lambda>(tab, ent, d, i, path). length path)") auto

declare resolve.simps [simp del]

lemma resolve_Nil [simp]: "resolve tab ent d i [] = Found d i"
  by (simp add: resolve.simps)

text \<open>A portal at a node of a device, and a result of a walk that agrees with an outcome.\<close>

definition portalAt :: "(nat \<Rightarrow> StaticNS list) \<Rightarrow> nat \<Rightarrow> nat \<Rightarrow> Portal \<Rightarrow> bool" where
  "portalAt tab i k p \<longleftrightarrow>
     i < length deviceIds \<and> k < nodes (tab i) \<and> pdevice p = int i \<and> pcrumb p = scrumb (tab i ! k)"

definition agrees :: "(nat \<Rightarrow> StaticNS list) \<Rightarrow> 'w \<Rightarrow> (Portal reply \<times> 'w) option \<Rightarrow> outcome \<Rightarrow> bool" where
  "agrees tab w r out \<longleftrightarrow>
     (case out of
        Fault \<Rightarrow> r = None
      | Missing e \<Rightarrow> r = Some (Inl e, w)
      | Found j k \<Rightarrow> \<exists>p. r = Some (Inr p, w) \<and> portalAt tab j k p)"

subsection \<open>Walks of one device\<close>

text \<open>One step of a walk either ends it or goes on from a node: the directory itself, its parent or a child.\<close>

lemma walk_spec_step:
  assumes "walk_spec ns d (name # path) = r"
  shows "fst r = [] \<or>
    (\<exists>k. fst r = k # fst (walk_spec ns k path) \<and> (k = d \<or> k = (if d = 0 then 0 else par ns d) \<or> find_child ns d name = Some k))"
  using assms by (auto simp: Let_def split: prod.splits option.splits if_splits)

lemma walk_spec_length: "length (fst (walk_spec ns d path)) \<le> length path"
proof (induction path arbitrary: d)
  case (Cons name path)
  then show ?case using walk_spec_step [OF refl, of ns d name path] by (metis Suc_le_mono le0 length_Cons list.size(3))
qed simp

lemma walk_spec_nodes:
  assumes "sns_wf ns"
  shows "d < nodes ns \<Longrightarrow> k \<in> set (fst (walk_spec ns d path)) \<Longrightarrow> k < nodes ns"
proof (induction path arbitrary: d k)
  case (Cons name path)
  have up: "(if d = 0 then 0 else par ns d) < nodes ns"
    using par_node [OF assms, of d] Cons.prems(1) sns_wfD(2) [OF assms] by auto
  obtain j where j: "fst (walk_spec ns d (name # path)) = j # fst (walk_spec ns j path)"
    "j = d \<or> j = (if d = 0 then 0 else par ns d) \<or> find_child ns d name = Some j"
    using walk_spec_step [OF refl, of ns d name path] Cons.prems(2) by (metis empty_iff list.set(1))
  have "j < nodes ns" using j(2) up Cons.prems(1) find_child_node [of ns d name j] by blast
  then show ?case using Cons.IH [of j k] Cons.prems(2) j(1) by auto
qed simp

subsection \<open>A table of devices\<close>

text \<open>
  What the walk relies on: every device of the table is static, has the identifier of its place, and a
  mount point in its nodes is no directory and names a device of the table.
\<close>

locale mounted =
  fixes ds :: "'w Dev list" and ok :: "'w \<Rightarrow> bool" and table :: "nat \<Rightarrow> 'w \<Rightarrow> StaticNS list" and entry :: "nat \<Rightarrow> string \<Rightarrow> nat"
  assumes count: "length ds = length deviceIds"
    and device: "i < length ds \<Longrightarrow> static_device (ds ! i) ok (table i) (entry i)"
    and ids: "i < length ds \<Longrightarrow> dev_id (ds ! i) = deviceIds ! i"
    and mounts: "ok w \<Longrightarrow> i < length ds \<Longrightarrow> k < nodes (table i w) \<Longrightarrow> isMount (table i w) k \<Longrightarrow>
      \<not> isdir (table i w) k \<and> mountTarget entry (table i w) k \<noteq> None"
begin

lemma deviceAt_table [simp]: "i < length ds \<Longrightarrow> deviceAt ds (int i) = Some (ds ! i)"
  by (simp add: deviceAt_def)

lemma idIndex_bound: "idIndex n xs v = -1 \<or> n \<le> idIndex n xs v \<and> idIndex n xs v < n + int (length xs)" if "0 \<le> n"
  using that by (induction n xs v rule: idIndex.induct) auto

lemma idIndex_nth: "i < length xs \<Longrightarrow> distinct xs \<Longrightarrow> idIndex n xs (xs ! i) = n + int i"
proof (induction xs arbitrary: n i)
  case (Cons x xs)
  then show ?case by (cases i) auto
qed simp

lemma fromDeviceId_nth: "i < length ds \<Longrightarrow> fromDeviceId (deviceIds ! i) = int i"
  using idIndex_nth [of i deviceIds 0] by (simp add: fromDeviceId_def count) (simp add: deviceIds_def)

text \<open>Attaching at the target of a mount gives a portal at its entry.\<close>

lemma attach_target:
  assumes "ok w" "avail m 24" "i < length ds" "isMount (table i w) k" "k < nodes (table i w)"
    and "mountTarget entry (table i w) k = Some (j, n)"
  shows "\<exists>c p. fromDeviceId (uint (slength (table i w ! k))) = int j \<and> mountPath (scontents (table i w ! k)) = Some c \<and>
     j < length ds \<and> dev_attach (ds ! j) m c w = Some (p, w) \<and> portalAt (\<lambda>j. table j w) j n p"
proof -
  have "fromDeviceId (uint (slength (table i w ! k))) = int j" and "\<exists>c. mountPath (scontents (table i w ! k)) = Some c \<and> n = entry j c"
    and "0 \<le> fromDeviceId (uint (slength (table i w ! k)))"
    using assms(6) by (auto simp: mountTarget_def Let_def bind_eq_Some_conv split: if_splits)
  then obtain c where c: "fromDeviceId (uint (slength (table i w ! k))) = int j" "mountPath (scontents (table i w ! k)) = Some c"
    "n = entry j c" by blast
  have j: "j < length ds"
    using idIndex_bound [of 0 deviceIds "uint (slength (table i w ! k))"] c(1) by (auto simp: fromDeviceId_def count)
  show ?thesis
    using static_device.attach_entry [OF device [OF j] assms(1,2), of c]
      static_device.entry_node [OF device [OF j] assms(1), of c] c j
    by (auto simp: portalAt_def ids fromDeviceId_nth count)
qed


text \<open>One round of the loop, from a directory.\<close>

lemma walkLoop_round:
  assumes "ok w" "portalAt (\<lambda>j. table j w) i n p" "isdir (table i w) n" "path \<noteq> []" "length path < 2 ^ 28"
    and "avail m (8 + 8 * of_nat (length path))" and ks: "walk_spec (table i w) n path = (ks, e1)"
  shows "walkLoop ds m p path e w =
    (if ks = [] then Some (Inl ENODATA, w)
     else let px = p\<lparr>pcrumb := scrumb (table i w ! last ks)\<rparr>; rest = drop (length ks) path in
       if isMount (table i w) (last ks) then do {
         let ni = nodeInfo px (table i w ! last ks);
         let idx = fromDeviceId (uint (ni_length ni));
         if idx = -1 then None
         else do {
           d' \<leftarrow> deviceAt ds idx; c \<leftarrow> mountPath (ni_contents ni); (px2, w') \<leftarrow> dev_attach d' m c w;
           walkLoop ds m px2 rest e1 w'
         }
       }
       else Some (if rest = [] then Inr px else Inl e1, w))"
proof -
  have at: "i < length ds" "n < nodes (table i w)" "pdevice p = int i" "pcrumb p = crumbAt (table i w) n"
    using assms(2) by (auto simp: portalAt_def crumbAt_def count)
  note dev = device [OF at(1)]
  have wf: "sns_wf (table i w)" by (rule static_device.table_wf [OF dev assms(1)])
  obtain t where t: "dev_walk (ds ! i) m p path w = Some (Inr (t, e1))" "trail_inv t" "trail t = map (crumbAt (table i w)) ks"
    using static_device.walk_from [OF dev assms(1) at(2,4) assms(3-6)] ks by auto
  have len: "unat (wtop t) = length ks" "length ks \<le> length path"
    using length_trail [OF t(2)] t(3) walk_spec_length [of "table i w" n path] ks by simp_all
  have top: "topCrumb t = Some (if ks = [] then Inl ENODATA else Inr (scrumb (table i w ! last ks)))"
    using topCrumb_last [OF t(2)] t(3) by (simp add: last_map crumbAt_def)
  have start: "cflags (pcrumb p) AND CRUMB_ISMOUNT = 0"
    using mounts [OF assms(1) at(1,2)] assms(3) at(4) by (auto simp: isMount_def crumbAt_def)
  show ?thesis
  proof (cases "ks = []")
    case True
    then show ?thesis
      using assms(4) t(1) len top start at(1,3) by (subst walkLoop.simps) (simp add: Let_def)
  next
    case False
    let ?k = "last ks"
    have k: "?k < nodes (table i w)" using walk_spec_nodes [OF wf at(2), of ?k path] ks False by simp
    have info: "dev_getInfo (ds ! i) m (p\<lparr>pcrumb := scrumb (table i w ! ?k)\<rparr>) w =
        Some (Inr (nodeInfo (p\<lparr>pcrumb := scrumb (table i w ! ?k)\<rparr>) (table i w ! ?k)))" if "isMount (table i w) ?k"
      by (rule static_device.info_node [OF dev assms(1) k]) (use mounts [OF assms(1) at(1) k that] in simp_all)
    show ?thesis
      using False assms(4) t(1) len top at(1,3) info by (subst walkLoop.simps) (simp add: Let_def isMount_def)
  qed
qed

lemma walkLoop_resolves:
  assumes "ok w" "avail m 24"
  shows "portalAt (\<lambda>j. table j w) i n p \<Longrightarrow> length path < 2 ^ 28 \<Longrightarrow> \<forall>l \<le> length path. avail m (8 + 8 * of_nat l) \<Longrightarrow>
    agrees (\<lambda>j. table j w) w (walkLoop ds m p path e w) (resolve (\<lambda>j. table j w) entry i n path)"
proof (induction path arbitrary: i n p e rule: length_induct)
  case (1 path)
  have at: "i < length ds" "n < nodes (table i w)" "pdevice p = int i" "pcrumb p = crumbAt (table i w) n"
    using "1.prems"(1) by (auto simp: portalAt_def crumbAt_def count)
  obtain ks e1 where ks: "walk_spec (table i w) n path = (ks, e1)" by fastforce
  consider "path = []" | "path \<noteq> []" "\<not> isdir (table i w) n" | "path \<noteq> []" "isdir (table i w) n" by blast
  then show ?case
  proof cases
    case 1
    then show ?thesis using "1.prems"(1) by (subst walkLoop.simps) (auto simp: agrees_def)
  next
    case 2
    have "dev_walk (ds ! i) m p path w = Some (Inl ENOTDIR)"
      by (rule static_device.walk_from_file [OF device [OF at(1)] assms(1) at(2,4) 2(2,1)])
    then show ?thesis
      using 2 at(1,3) by (subst walkLoop.simps, subst resolve.simps) (simp add: agrees_def)
  next
    case 3
    note round = walkLoop_round [OF assms(1) "1.prems"(1) 3(2,1) "1.prems"(2) _ ks, of m e]
    have mem: "avail m (8 + 8 * of_nat (length path))" using "1.prems"(3) by blast
    have k: "last ks < nodes (table i w)" if "ks \<noteq> []"
      using walk_spec_nodes [OF static_device.table_wf [OF device [OF at(1)] assms(1)] at(2), of "last ks" path] ks that by simp
    show ?thesis
    proof (cases "ks \<noteq> [] \<and> isMount (table i w) (last ks)")
      case False
      then show ?thesis
        using round [OF mem] 3 ks at(1,3) k by (subst resolve.simps) (auto simp: agrees_def portalAt_def Let_def count)
    next
      case True
      then obtain j n' where tgt: "mountTarget entry (table i w) (last ks) = Some (j, n')"
        using mounts [OF assms(1) at(1) k] by auto
      obtain c p' where att: "fromDeviceId (uint (slength (table i w ! last ks))) = int j"
        "mountPath (scontents (table i w ! last ks)) = Some c" "j < length ds" "dev_attach (ds ! j) m c w = Some (p', w)"
        "portalAt (\<lambda>j. table j w) j n' p'"
        using attach_target [OF assms at(1) _ k tgt] True by blast
      have "length (drop (length ks) path) < length path" using True 3(1) by (cases ks) auto
      then have "agrees (\<lambda>j. table j w) w (walkLoop ds m p' (drop (length ks) path) e1 w) (resolve (\<lambda>j. table j w) entry j n' (drop (length ks) path))"
        using "1.IH" att(5) "1.prems"(2,3) by auto
      then show ?thesis
        using round [OF mem] True tgt att 3 ks by (subst resolve.simps) (simp add: Let_def nodeInfo_def)
    qed
  qed
qed

lemma syswalk_resolves:
  assumes "ok w" "avail m 24" "portalAt (\<lambda>j. table j w) i n p" "length path < 2 ^ 28" "\<forall>l \<le> length path. avail m (8 + 8 * of_nat l)"
  shows "agrees (\<lambda>j. table j w) w (syswalk ds m p path w)
    (if path \<noteq> [] \<and> \<not> isdir (table i w) n then Missing ENOTDIR else resolve (\<lambda>j. table j w) entry i n path)"
proof -
  have dir: "PORTAL_ISDIR p \<longleftrightarrow> isdir (table i w) n"
    using assms(3) by (simp add: PORTAL_ISDIR_def isdir_def portalAt_def)
  have "portalAt (\<lambda>j. table j w) i n (clonePortal p zeroPortal)" using assms(3) by (simp add: portalAt_def clonePortal_def)
  then show ?thesis
    using walkLoop_resolves [OF assms(1,2) _ assms(4,5)] assms(2) by (auto simp: syswalk_def dir agrees_def)
qed

end

end
