(* ===== verification/Exec.thy ===== *)
theory Exec
  imports Syscalls
begin

text \<open>
  Programs (\<open>src/src/sys/execv.c\<close>, \<open>src/src/torgo/commands.c\<close>), sleeping (\<open>syssleep\<close> of
  \<open>src/src/sys/schedule.c\<close>) and printing to a descriptor (\<open>src/src/sys/print.c\<close>).
\<close>

subsection \<open>Starting a process\<close>

text \<open>The words a new stack begins with, from the top down; \<open>code\<close> gives the addresses of functions.\<close>

definition frameWords :: "(string \<Rightarrow> u32) \<Rightarrow> u32 \<Rightarrow> u32 \<Rightarrow> u32 \<Rightarrow> u32 list" where
  "frameWords code cmd argc argv =
     [0x1000000, cmd, code ''__manos_exit'', 0x0c0c0c0c, 0x03030303, 0x02020202, argv, argc, 0xfffffff9,
      0x0b0b0b0b, 0x0a0a0a0a, 0x09090909, 0x08080808, 0x07070707, 0x06060606, 0x05050505, 0x04040404, 0]"

fun pushWords :: "u32 list \<Rightarrow> u32 \<Rightarrow> (u32 \<Rightarrow> u32) \<Rightarrow> u32 \<times> (u32 \<Rightarrow> u32)" where
  "pushWords [] a w = (a, w)"
| "pushWords (x # xs) a w = pushWords xs (a - 4) (w(a - 4 := x))"

definition setupStack :: "(string \<Rightarrow> u32) \<Rightarrow> nat \<Rightarrow> u32 \<Rightarrow> u32 \<Rightarrow> u32 \<Rightarrow> 'd Sys \<Rightarrow> 'd Sys option" where
  "setupStack code q cmd argc argv s =
     do {
       b \<leftarrow> stack (procs (kern s) q);
       let (a, w) = pushWords (frameWords code cmd argc argv) (b + MANOS_ARCH_K70_STACK_SIZE) (words s);
       Some (s\<lparr>kern := upd q (\<lambda>x. x\<lparr>sp := a\<rparr>) (kern s), words := w\<rparr>)
     }"

text \<open>A portal at the root, kept by the process.\<close>

definition attachRootFor :: "'d Sys Dev list \<Rightarrow> mem \<Rightarrow> 'd Sys \<Rightarrow> (nat \<times> 'd Sys) option" where
  "attachRootFor ds m s =
     do { d \<leftarrow> deviceAt ds (fromDeviceId DEV_DEVROOT); (p, s1) \<leftarrow> dev_attach d m '''' s; Some (addPortal p s1) }"

text \<open>\<open>sb\<close> and \<open>gb\<close> are the blocks the allocator returns for a stack and a group.\<close>

definition schedProc ::
  "'d Sys Dev list \<Rightarrow> mem \<Rightarrow> (string \<Rightarrow> u32) \<Rightarrow> u32 option \<Rightarrow> nat option \<Rightarrow> u32 \<Rightarrow> u32 \<Rightarrow> u32 \<Rightarrow> 'd Sys \<Rightarrow> (nat \<times> 'd Sys) option" where
  "schedProc ds m code sb gb cmd argc argv s =
     do {
       lk \<leftarrow> syslock (rpid (kern s)) (rpdead (kern s)) (runQLock (kern s));
       (q, k1) \<leftarrow> newProc sb gb ((kern s)\<lparr>runQLock := lk\<rparr>);
       (a, s1) \<leftarrow> attachRootFor ds m (s\<lparr>kern := k1\<rparr>);
       (b, s2) \<leftarrow> attachRootFor ds m (s1\<lparr>kern := upd q (\<lambda>x. x\<lparr>pslash := Some a\<rparr>) (kern s1)\<rparr>);
       let s3 = s2\<lparr>kern := upd q (\<lambda>x. x\<lparr>pdot := Some b\<rparr>) (kern s2)\<rparr>;
       (r, s4) \<leftarrow> openFor ds m q ''/dev/uart/k70Uart'' CAP_READWRITE s3;
       let t = (case r of Inl _ \<Rightarrow> -1 | Inr fd \<Rightarrow> int fd);
       s5 \<leftarrow> setupStack code q cmd argc argv (s4\<lparr>kern := upd q (\<lambda>x. x\<lparr>tty := t\<rparr>) (kern s4)\<rparr>);
       let k5 = upd q (\<lambda>x. x\<lparr>pargv := argv\<rparr>) (kern s5);
       l \<leftarrow> listAddBefore (NextRunQ q) RunHead (links k5);
       let k6 = upd q (\<lambda>x. x\<lparr>state := ProcReady\<rparr>) (setLinks l k5);
       Some (q, s5\<lparr>kern := k6\<lparr>runQLock := sysunlock (rpid k6) (runQLock k6)\<rparr>\<rparr>)
     }"

definition builtinCmds :: "(string \<times> string) list" where
  "builtinCmds =
     [(''cat'', ''cmdCat__Main''), (''ls'', ''cmdLs__Main''), (''pwd'', ''cmdPwd__Main''), (''echo'', ''cmdEcho__Main''),
      (''date'', ''cmdDate__Main''), (''toast'', ''cmdToast__Main''), (''sh'', ''torgo_main''),
      (''lsmem'', ''cmdLsmem__Main''), (''ps'', ''cmdPs__Main''), (''fg'', ''cmdFg__Main''),
      (''fizzbuzz'', ''cmdFizzbuzz__Main'')]"

text \<open>The arguments are counted up to a null pointer, at most 256 of them.\<close>

fun argCount :: "nat \<Rightarrow> u32 list \<Rightarrow> nat option" where
  "argCount 0 ws = Some 0"
| "argCount (Suc n) [] = None"
| "argCount (Suc n) (a # ws) = (if a = 0 then Some 0 else do { k \<leftarrow> argCount n ws; Some (Suc k) })"

text \<open>
  The search for the program: by the path, and for a relative path again by its last element in \<open>/bin\<close>. The
  first result is \<open>None\<close> for a program that is not found.
\<close>

definition findProgram :: "'d Sys Dev list \<Rightarrow> mem \<Rightarrow> nat \<Rightarrow> string \<Rightarrow> string list \<Rightarrow> 'd Sys \<Rightarrow> (Portal option \<times> 'd Sys) option" where
  "findProgram ds m q path es s =
     do {
       a \<leftarrow> (if isAbsolute path then pslash (procs (kern s) q) else pdot (procs (kern s) q));
       p0 \<leftarrow> portals s a;
       (r, s1) \<leftarrow> syswalk ds m p0 es s;
       case r of
         Inr p \<Rightarrow> Some (Some p, s1)
       | Inl _ \<Rightarrow>
           if isAbsolute path then Some (None, s1)
           else do {
             b \<leftarrow> pslash (procs (kern s1) q);
             root \<leftarrow> portals s1 b;
             (rb, s2) \<leftarrow> syswalk ds m root [''bin''] s1;
             case rb of
               Inl _ \<Rightarrow> Some (None, s2)
             | Inr pbin \<Rightarrow>
                 if es = [] then None
                 else do { (r', s3) \<leftarrow> syswalk ds m pbin [last es] s2;
                           Some (case r' of Inl _ \<Rightarrow> None | Inr p \<Rightarrow> Some p, s3) }
           }
     }"

text \<open>The name of the built-in program a file names, from the zeroed buffer it was read into.\<close>

definition programName :: "u32 \<Rightarrow> string \<Rightarrow> string option" where
  "programName len out =
     (let buf = out @ replicate (unat len + 1 - length out) NUL in
      if length buf < 2 \<or> buf ! 0 \<noteq> CHR ''#'' \<or> buf ! 1 \<noteq> CHR ''!'' then None
      else Some (takeWhile (\<lambda>c. c \<noteq> NUL) (drop 2 buf)))"

text \<open>
  The result is what the call returns, the identifier of the process or -1; \<open>errno\<close> is left aside.
  \<open>argvWords\<close> is the memory from \<open>argv\<close> on.
\<close>

definition sysexecv ::
  "'d Sys Dev list \<Rightarrow> mem \<Rightarrow> (string \<Rightarrow> u32) \<Rightarrow> u32 option \<Rightarrow> nat option \<Rightarrow> string option \<Rightarrow> u32 \<Rightarrow> u32 list \<Rightarrow> 'd Sys
    \<Rightarrow> (int \<times> 'd Sys) option" where
  "sysexecv ds m code sb gb path argv argvWords s =
     (case path of
        None \<Rightarrow> Some (-1, s)
      | Some pth \<Rightarrow>
          do {
            argc \<leftarrow> argCount 256 argvWords;
            q \<leftarrow> rp (kern s);
            mp \<leftarrow> mkPath (avail m) (avail m) pth;
            case mp of
              None \<Rightarrow> Some (-1, s)
            | Some pt \<Rightarrow>
                do {
                  (found, s1) \<leftarrow> findProgram ds m q pth (elems pt) s;
                  case found of
                    None \<Rightarrow> Some (-1, s1)
                  | Some p \<Rightarrow>
                      if cflags (pcrumb p) AND CRUMB_ISFILE = 0 then Some (-1, s1)
                      else do {
                        d \<leftarrow> deviceAt ds (pdevice p);
                        info \<leftarrow> dev_getInfo d m p s1;
                        case info of
                          Inl _ \<Rightarrow> Some (-1, s1)
                        | Inr ni \<Rightarrow>
                            if ni_mode ni \<noteq> M0555 then Some (-1, s1)
                            else do {
                              (ro, s2) \<leftarrow> dev_open d p CAP_READ s1;
                              case ro of
                                Inl _ \<Rightarrow> Some (-1, s2)
                              | Inr p1 \<Rightarrow>
                                  if \<not> avail m (ni_length ni + 1) then None
                                  else do {
                                    (rr, p2, s3) \<leftarrow> dev_read d m p1 (ni_length ni) 0 s2;
                                    case rr of
                                      Inl _ \<Rightarrow> Some (-1, s3)
                                    | Inr (_, out) \<Rightarrow>
                                        do {
                                          s4 \<leftarrow> dev_close d p2 s3;
                                          case Option.bind (programName (ni_length ni) out) (map_of builtinCmds) of
                                            None \<Rightarrow> Some (-1, s4)
                                          | Some f \<Rightarrow>
                                              do { (q', s5) \<leftarrow> schedProc ds m code sb gb (code f) (of_nat argc) argv s4;
                                                   Some (pid (procs (kern s5) q'), s5) }
                                        }
                                  }
                            }
                      }
                }
          })"

subsection \<open>Sleeping\<close>

text \<open>The process waits once its alarm is set; the switch away from it happens when the call returns.\<close>

definition syssleep :: "'d Sys Dev list \<Rightarrow> mem \<Rightarrow> int \<Rightarrow> 'd Sys \<Rightarrow> (u32 reply \<times> 'd Sys) option" where
  "syssleep ds m millis s =
     do {
       (n, buf) \<leftarrow> fmtSnprintf (replicate 21 NUL) 21 ''%ld'' [UIntArg (of_int millis)];
       (r, s1) \<leftarrow> sysopen ds m ''/dev/timer/k70MilliTimer'' CAP_WRITE s;
       let fd = (case r of Inl _ \<Rightarrow> -1 | Inr fd \<Rightarrow> int fd);
       (status, s2) \<leftarrow> syswrite ds m fd buf (of_nat (length (takeWhile (\<lambda>c. c \<noteq> NUL) buf))) s1;
       (_, s3) \<leftarrow> sysclose ds fd s2;
       case status of
         Inl e \<Rightarrow> Some (Inl e, s3)
       | Inr n \<Rightarrow>
           if 0 <s n then do { q \<leftarrow> rp (kern s3); Some (Inr n, s3\<lparr>kern := upd q (\<lambda>x. x\<lparr>state := ProcWaiting\<rparr>) (kern s3)\<rparr>) }
           else Some (Inr n, s3)
     }"

subsection \<open>Printing to a descriptor\<close>

definition fputstrn :: "'d Sys Dev list \<Rightarrow> mem \<Rightarrow> int \<Rightarrow> string \<Rightarrow> u32 \<Rightarrow> 'd Sys \<Rightarrow> (u32 reply \<times> 'd Sys) option" where
  "fputstrn ds m fd txt n s = syswrite ds m fd txt n s"

definition fputchar :: "'d Sys Dev list \<Rightarrow> mem \<Rightarrow> int \<Rightarrow> char \<Rightarrow> 'd Sys \<Rightarrow> (u32 reply \<times> 'd Sys) option" where
  "fputchar ds m fd c s = syswrite ds m fd [c] 1 s"

definition fputstr :: "'d Sys Dev list \<Rightarrow> mem \<Rightarrow> int \<Rightarrow> string \<Rightarrow> 'd Sys \<Rightarrow> (u32 reply \<times> 'd Sys) option" where
  "fputstr ds m fd txt s = fputstrn ds m fd txt (of_nat (length txt)) s"

definition vfprint :: "'d Sys Dev list \<Rightarrow> mem \<Rightarrow> int \<Rightarrow> string \<Rightarrow> fmt_arg list \<Rightarrow> 'd Sys \<Rightarrow> (u32 reply \<times> 'd Sys) option" where
  "vfprint ds m fd fmt args s =
     do { (ret, buf) \<leftarrow> fmtVsnprintf (replicate 4096 NUL) 4096 fmt args; fputstrn ds m fd buf (of_nat ret) s }"

definition fprint :: "'d Sys Dev list \<Rightarrow> mem \<Rightarrow> int \<Rightarrow> string \<Rightarrow> fmt_arg list \<Rightarrow> 'd Sys \<Rightarrow> (u32 reply \<times> 'd Sys) option" where
  "fprint ds m fd fmt args s = vfprint ds m fd fmt args s"

text \<open>The sum of the two results, a failure counting as -1.\<close>

definition fprintln :: "'d Sys Dev list \<Rightarrow> mem \<Rightarrow> int \<Rightarrow> string \<Rightarrow> fmt_arg list \<Rightarrow> 'd Sys \<Rightarrow> (u32 \<times> 'd Sys) option" where
  "fprintln ds m fd fmt args s =
     do {
       (r, s1) \<leftarrow> vfprint ds m fd fmt args s;
       (r', s2) \<leftarrow> fputstrn ds m fd [CHR 0x0A] 1 s1;
       Some ((case r of Inl _ \<Rightarrow> -1 | Inr n \<Rightarrow> n) + (case r' of Inl _ \<Rightarrow> -1 | Inr n \<Rightarrow> n), s2)
     }"

end
