(* ===== verification/DevLcd.thy ===== *)
theory DevLcd
  imports LcdHw DevBase Fmt
begin

text \<open>
  The screen device (\<open>src/src/dev/devlcd.c\<close>): files that clear the screen, set its colours, copy
  a picture to it and write text on it.
\<close>

subsection \<open>State\<close>

text \<open>What the driver's hotplug finds, and the screen that was found.\<close>

record LcdDev =
  lcdHotplug :: "Lcd option"
  lcdScreen :: "Lcd option"

definition enableLcd :: "Lcd \<Rightarrow> Lcd option" where
  "enableLcd l = k70LcdEnable l"

text \<open>Disabling the screen that was not found dereferences \<open>NULL\<close>.\<close>

definition disableLcd :: "LcdDev \<Rightarrow> LcdDev option" where
  "disableLcd w = do { l \<leftarrow> lcdScreen w; Some (w\<lparr>lcdScreen := Some (k70LcdDisable l)\<rparr>) }"

definition lcdSNS :: "StaticNS list" where
  "lcdSNS =
    [nsRow ''.''     STATICNS_SENTINEL 0 CRUMB_ISDIR 0 M0555 NoContents,
     nsRow ''clear'' 0 1 CRUMB_ISFILE 0 M0644 NoContents,
     nsRow ''fg''    0 2 CRUMB_ISFILE 0 M0644 NoContents,
     nsRow ''bg''    0 3 CRUMB_ISFILE 0 M0644 NoContents,
     nsRow ''blit''  0 4 CRUMB_ISFILE 522240 M0222 NoContents,
     nsRow ''cons''  0 5 CRUMB_ISFILE 0 M0644 NoContents,
     nsEnd]"

definition resetLcd :: "mem \<Rightarrow> LcdDev \<Rightarrow> LcdDev option" where
  "resetLcd m w =
     (case lcdHotplug w of
        None \<Rightarrow> Some (w\<lparr>lcdScreen := None\<rparr>)
      | Some l \<Rightarrow> do { l' \<leftarrow> enableLcd l; Some (w\<lparr>lcdScreen := Some l'\<rparr>) })"

subsection \<open>Numbers\<close>

text \<open>
  \<open>strtol\<close> of the C library with base 0: the value, brought into the range of \<open>long\<close>, and the number of
  characters it used. The memory of the argument must not end within the number.
\<close>

definition hexVal :: "char \<Rightarrow> nat option" where
  "hexVal c =
     (let n = of_char c :: nat in
      if 0x30 \<le> n \<and> n \<le> 0x39 then Some (n - 0x30)
      else if 0x41 \<le> n \<and> n \<le> 0x46 then Some (n - 0x41 + 10)
      else if 0x61 \<le> n \<and> n \<le> 0x66 then Some (n - 0x61 + 10) else None)"

fun strtolDigits :: "nat \<Rightarrow> int \<Rightarrow> nat \<Rightarrow> string \<Rightarrow> (int \<times> nat) option" where
  "strtolDigits base acc n [] = None"
| "strtolDigits base acc n (c # s) =
     (case hexVal c of
        Some v \<Rightarrow> if v < base then strtolDigits base (acc * int base + int v) (Suc n) s else Some (acc, n)
      | None \<Rightarrow> Some (acc, n))"

definition clampLong :: "int \<Rightarrow> int" where
  "clampLong x = max (- (2 ^ 31)) (min (2 ^ 31 - 1) x)"

definition strtolNumber :: "string \<Rightarrow> (int \<times> nat) option" where
  "strtolNumber s =
     (case s of
        CHR ''0'' # CHR ''x'' # c # _ \<Rightarrow>
          if hexVal c \<noteq> None then do { (v, n) \<leftarrow> strtolDigits 16 0 0 (tl (tl s)); Some (v, n + 2) } else Some (0, 1)
      | CHR ''0'' # CHR ''X'' # c # _ \<Rightarrow>
          if hexVal c \<noteq> None then do { (v, n) \<leftarrow> strtolDigits 16 0 0 (tl (tl s)); Some (v, n + 2) } else Some (0, 1)
      | CHR ''0'' # _ \<Rightarrow> strtolDigits 8 0 0 s
      | _ \<Rightarrow> strtolDigits 10 0 0 s)"

fun strtol :: "string \<Rightarrow> (int \<times> nat) option" where
  "strtol [] = None"
| "strtol (c # s) =
     (if isSpace c then do { (v, n) \<leftarrow> strtol s; Some (v, if n = 0 then 0 else Suc n) }
      else if c = CHR ''-'' \<or> c = CHR ''+'' then
        do { (v, n) \<leftarrow> strtolNumber s;
             Some (if n = 0 then (0, 0) else (clampLong (if c = CHR ''-'' then - v else v), Suc n)) }
      else do { (v, n) \<leftarrow> strtolNumber (c # s); Some (clampLong v, n) })"

subsection \<open>Operations\<close>

definition attachLcd :: "mem \<Rightarrow> string \<Rightarrow> LcdDev \<Rightarrow> (Portal \<times> LcdDev) option" where
  "attachLcd m path w = attachStatic DEV_DEVLCD lcdSNS m path w"

definition walkLcd :: "mem \<Rightarrow> Portal \<Rightarrow> string list \<Rightarrow> LcdDev \<Rightarrow> (WalkTrail \<times> errno) reply option" where
  "walkLcd m p path w = walkStatic lcdSNS m p path"

definition openLcd :: "Portal \<Rightarrow> u32 \<Rightarrow> LcdDev \<Rightarrow> (Portal reply \<times> LcdDev) option" where
  "openLcd p caps w = Some (Inr (openDev p caps), w)"

definition closeLcd :: "Portal \<Rightarrow> LcdDev \<Rightarrow> LcdDev option" where
  "closeLcd p w = disableLcd w"

definition getInfoLcd :: "mem \<Rightarrow> Portal \<Rightarrow> LcdDev \<Rightarrow> NodeInfo reply option" where
  "getInfoLcd m p w = selfInfo lcdSNS m p"

definition readLcd :: "mem \<Rightarrow> Portal \<Rightarrow> u32 \<Rightarrow> u32 \<Rightarrow> LcdDev \<Rightarrow> ((u32 \<times> string) reply \<times> Portal \<times> LcdDev) option" where
  "readLcd m p sz offset w =
     (if sz = 0 then Some (Inr (0, []), p, w)
      else if cflags (pcrumb p) AND CRUMB_ISDIR \<noteq> 0 then readDirStatic lcdSNS m p sz offset w
      else Some (Inl EPERM, p, w))"

text \<open>The files by the index in their crumb: 1 clears, 2 and 3 set a colour, 4 is the picture, 5 the text.\<close>

definition writeColor :: "nat \<Rightarrow> string \<Rightarrow> u32 \<Rightarrow> Lcd \<Rightarrow> (u32 reply \<times> Lcd) option" where
  "writeColor f buf sz l =
     do {
       (color, n) \<leftarrow> strtol buf;
       let bytes = (of_nat n :: u32);
       Some (if bytes = 0 \<or> sz < bytes then (Inl EINVAL, l)
             else (Inr bytes, if f = 2 then l\<lparr>lfg := of_int color\<rparr> else l\<lparr>lbg := of_int color\<rparr>))
     }"

definition writeScreen :: "font \<Rightarrow> nat \<Rightarrow> string \<Rightarrow> u32 \<Rightarrow> Lcd \<Rightarrow> (u32 reply \<times> Lcd) option" where
  "writeScreen font f buf sz l =
     (if f = 2 \<or> f = 3 then writeColor f buf sz l
      else if f = 1 then
        (case buf of
           [] \<Rightarrow> None
         | c # _ \<Rightarrow> if c = CHR ''1'' then do { l' \<leftarrow> k70LcdClear l; Some (Inr 1, l') } else Some (Inr 0, l))
      else if f = 4 then do { l' \<leftarrow> k70LcdBlit buf l; Some (Inr (fbSize l'), l') }
      else if f = 5 then
        (if length buf < unat sz then None
         else do { l' \<leftarrow> putsLcd font (map of_char (take (unat sz) buf)) l; Some (Inr sz, l') })
      else Some (Inl ENODEV, l))"

definition writeLcd :: "font \<Rightarrow> mem \<Rightarrow> Portal \<Rightarrow> string \<Rightarrow> u32 \<Rightarrow> u32 \<Rightarrow> LcdDev \<Rightarrow> (u32 reply \<times> Portal \<times> LcdDev) option" where
  "writeLcd font m p buf sz offset w =
     (if sz = 0 then Some (Inr 0, p, w)
      else case lcdScreen w of
        None \<Rightarrow> Some (Inl EPERM, p, w)
      | Some l \<Rightarrow>
          if cflags (pcrumb p) AND CRUMB_ISDIR \<noteq> 0 then Some (Inl EPERM, p, w)
          else do {
            ni \<leftarrow> selfInfo lcdSNS m p;
            case ni of
              Inl e \<Rightarrow> Some (Inl ENODEV, p, w)
            | Inr _ \<Rightarrow>
                do { (r, l') \<leftarrow> writeScreen font (unat (STATICNS_CRUMB_SELF_IDX (pcrumb p))) buf sz l;
                     Some (r, p, w\<lparr>lcdScreen := Some l'\<rparr>) }
          })"

definition devLcd :: "font \<Rightarrow> LcdDev Dev" where
  "devLcd font =
     \<lparr>dev_id = DEV_DEVLCD, dev_name = ''lcd'', dev_power = powerDev, dev_init = initDev, dev_reset = resetLcd,
      dev_shutdown = shutdownDev, dev_attach = attachLcd, dev_walk = walkLcd, dev_create = createDev,
      dev_open = openLcd, dev_close = closeLcd, dev_remove = removeDev, dev_getInfo = getInfoLcd,
      dev_setInfo = setInfoDev, dev_read = readLcd, dev_write = writeLcd font\<rparr>"

lemma lcdSNS_wf: "sns_wf lcdSNS"
proof (rule sns_wf_columns)
  show "sns_columns lcdSNS [0xfff, 0, 0, 0, 0, 0] [True, False, False, False, False, False]"
    by (simp add: sns_columns_def lcdSNS_def fid_indices upt_from)
  show "columns_ok [0xfff, 0, 0, 0, 0, 0] [True, False, False, False, False, False]"
    by (simp add: columns_ok_def upt_from)
qed

interpretation lcd: static_device "devLcd font" "\<lambda>_. True" "\<lambda>_. lcdSNS" "\<lambda>_. 0"
proof
  show "sns_wf lcdSNS" by (rule lcdSNS_wf)
  show "(0 :: nat) < nodes lcdSNS" by (rule sns_wfD(2)) (rule lcdSNS_wf)
  show "\<exists>p. dev_attach (devLcd font) m path w = Some (p, w) \<and> pdevice p = fromDeviceId (dev_id (devLcd font)) \<and>
      pcrumb p = scrumb (lcdSNS ! 0)" if "avail m 24" for m path w
    using attachStatic_root [OF lcdSNS_wf that, of DEV_DEVLCD path w] by (simp add: devLcd_def attachLcd_def)
  show "dev_getInfo (devLcd font) m p w = Some (Inr (nodeInfo p (lcdSNS ! i)))"
    if "i < nodes lcdSNS" "pcrumb p = scrumb (lcdSNS ! i)" for i m p w
    using selfInfo_node [OF lcdSNS_wf that, of m] by (simp add: devLcd_def getInfoLcd_def)
qed (simp_all add: devLcd_def walkLcd_def openLcd_def)

end
