(* ===== verification/Console.thy ===== *)
theory Console
  imports DevLcd
begin

text \<open>
  The kernel's own console (\<open>src/src/sys/uartpollio.c\<close>), and
  its binding to the screen (\<open>src/src/dev/arch/k70/lcd.c\<close>).
\<close>

text \<open>The two operations of the console's port that are looked at; either may be missing.\<close>

record 'w ConsoleHw =
  cgetc :: "('w \<Rightarrow> (int \<times> 'w) option) option"
  cputc :: "(nat \<Rightarrow> 'w \<Rightarrow> 'w option) option"

definition consolePutc :: "'w ConsoleHw option \<Rightarrow> (nat \<Rightarrow> 'w \<Rightarrow> 'w option) option" where
  "consolePutc con = (case con of None \<Rightarrow> None | Some h \<Rightarrow> cputc h)"

definition sysgetchar :: "'w ConsoleHw option \<Rightarrow> 'w \<Rightarrow> (int reply \<times> 'w) option" where
  "sysgetchar con w =
     (case con of
        None \<Rightarrow> Some (Inl ENODEV, w)
      | Some h \<Rightarrow>
          (case cgetc h of
             None \<Rightarrow> Some (Inl ENODEV, w)
           | Some g \<Rightarrow> do { (c, w') \<leftarrow> g w; Some (Inr c, w') }))"

definition sysputchar :: "'w ConsoleHw option \<Rightarrow> nat \<Rightarrow> 'w \<Rightarrow> (unit reply \<times> 'w) option" where
  "sysputchar con c w =
     (case consolePutc con of None \<Rightarrow> Some (Inl ENODEV, w) | Some pc \<Rightarrow> do { w' \<leftarrow> pc c w; Some (Inr (), w') })"

text \<open>A line feed is preceded by a carriage return.\<close>

fun nputsLoop :: "(nat \<Rightarrow> 'w \<Rightarrow> 'w option) \<Rightarrow> string \<Rightarrow> 'w \<Rightarrow> 'w option" where
  "nputsLoop pc [] w = Some w"
| "nputsLoop pc (c # cs) w =
     do {
       w1 \<leftarrow> (if c = CHR 0x0A then pc 0x0D w else Some w);
       w2 \<leftarrow> pc (of_char c) w1;
       nputsLoop pc cs w2
     }"

definition sysnputs :: "'w ConsoleHw option \<Rightarrow> string \<Rightarrow> nat \<Rightarrow> 'w \<Rightarrow> (unit reply \<times> 'w) option" where
  "sysnputs con s n w =
     (case consolePutc con of
        None \<Rightarrow> Some (Inl ENODEV, w)
      | Some pc \<Rightarrow>
          if length s < n then None else do { w' \<leftarrow> nputsLoop pc (take n s) w; Some (Inr (), w') })"

definition sysputs :: "'w ConsoleHw option \<Rightarrow> string \<Rightarrow> 'w \<Rightarrow> (unit reply \<times> 'w) option" where
  "sysputs con s w = sysnputs con s (length s) w"

text \<open>The formatted text goes through a buffer of 1024 bytes, as far as its first \<open>NUL\<close>.\<close>

definition sysprint :: "'w ConsoleHw option \<Rightarrow> string \<Rightarrow> fmt_arg list \<Rightarrow> 'w \<Rightarrow> (nat \<times> 'w) option" where
  "sysprint con fmt args w =
     do {
       (ret, buf) \<leftarrow> fmtSnprintf (replicate 1024 NUL) 1024 fmt args;
       (_, w1) \<leftarrow> sysputs con (takeWhile (\<lambda>c. c \<noteq> NUL) buf) w;
       Some (ret, w1)
     }"

definition sysprintln :: "'w ConsoleHw option \<Rightarrow> string \<Rightarrow> fmt_arg list \<Rightarrow> 'w \<Rightarrow> (nat \<times> 'w) option" where
  "sysprintln con fmt args w =
     do {
       (ret, w1) \<leftarrow> sysprint con fmt args w;
       (_, w2) \<leftarrow> sysputs con [CHR 0x0A] w1;
       Some (ret + 1, w2)
     }"

subsection \<open>The screen as the console\<close>

text \<open>The console's port is bound to the driver's screen, which the device has under its own pointer once it is found.\<close>

definition k70LcdUartPutc :: "font \<Rightarrow> nat \<Rightarrow> LcdDev \<Rightarrow> LcdDev option" where
  "k70LcdUartPutc font c w =
     (case lcdScreen w of
        Some l \<Rightarrow> do { l' \<leftarrow> k70LcdPutc font c l; Some (w\<lparr>lcdScreen := Some l'\<rparr>) }
      | None \<Rightarrow> do { l \<leftarrow> lcdHotplug w; l' \<leftarrow> k70LcdPutc font c l; Some (w\<lparr>lcdHotplug := Some l'\<rparr>) })"

definition k70Console :: "font \<Rightarrow> LcdDev ConsoleHw option" where
  "k70Console font = Some \<lparr>cgetc = None, cputc = Some (k70LcdUartPutc font)\<rparr>"

text \<open>The codes a text becomes on the console.\<close>

definition consoleCodes :: "string \<Rightarrow> nat list" where
  "consoleCodes s = concat (map (\<lambda>c. if c = CHR 0x0A then [0x0D, 0x0A] else [of_char c]) s)"

lemma consoleCodes_Cons:
  "consoleCodes (c # s) = (if c = CHR 0x0A then [0x0D, 0x0A] else [of_char c]) @ consoleCodes s"
  by (simp add: consoleCodes_def)

lemma putc_screen:
  "lcdScreen w = Some l \<Longrightarrow>
   k70LcdUartPutc font c w = do { l' \<leftarrow> k70LcdPutc font c l; Some (w\<lparr>lcdScreen := Some l'\<rparr>) }"
  by (simp add: k70LcdUartPutc_def)

lemma nputsLoop_screen:
  "lcdScreen w = Some l \<Longrightarrow>
   nputsLoop (k70LcdUartPutc font) s w = do { l' \<leftarrow> putsLcd font (consoleCodes s) l; Some (w\<lparr>lcdScreen := Some l'\<rparr>) }"
proof (induction s arbitrary: w l)
  case Nil
  then show ?case by (simp add: consoleCodes_def)
next
  case (Cons c s)
  have put: "do { w2 \<leftarrow> k70LcdUartPutc font n w'; nputsLoop (k70LcdUartPutc font) s w2 } =
      do { l2 \<leftarrow> putsLcd font (n # consoleCodes s) l'; Some (w'\<lparr>lcdScreen := Some l2\<rparr>) }"
    if "lcdScreen w' = Some l'" for n w' l'
    using that Cons.IH [of "w'\<lparr>lcdScreen := Some x\<rparr>" x for x]
    by (cases "k70LcdPutc font n l'") (simp_all add: putc_screen)
  show ?case
  proof (cases "c = CHR 0x0A")
    case True
    have "k70LcdUartPutc font 13 w = do { l2 \<leftarrow> k70LcdPutc font 13 l; Some (w\<lparr>lcdScreen := Some l2\<rparr>) }"
      by (rule putc_screen [OF Cons.prems])
    then show ?thesis
      using True put [of "w\<lparr>lcdScreen := Some x\<rparr>" x 10 for x]
      by (cases "k70LcdPutc font 13 l") (simp_all add: consoleCodes_Cons)
  next
    case False
    then show ?thesis using put [OF Cons.prems, of "of_char c"] by (simp add: consoleCodes_Cons)
  qed
qed

end
