(* ===== verification/DevRoot.thy ===== *)
theory DevRoot
  imports DevBase
begin

text \<open>
  The root device (\<open>src/src/dev/devroot.c\<close>): the static namespace that binds the programs of
  \<open>/bin\<close> and the mount points of \<open>/dev\<close>, the latter by the device's letter in their length field.
\<close>

subsection \<open>The namespace\<close>

definition rootSNS :: "StaticNS list" where
  "rootSNS =
    [nsRow ''.''          STATICNS_SENTINEL 0 CRUMB_ISDIR 0 M0555 NoContents,
     nsRow ''bin''        0 1  CRUMB_ISDIR   0    M0555 NoContents,
     nsRow ''dev''        0 2  CRUMB_ISDIR   0    M0555 NoContents,
     nsRow ''pwd''        1 3  CRUMB_ISFILE  5    M0555 (StrContents ''#!pwd''),
     nsRow ''ls''         1 4  CRUMB_ISFILE  4    M0555 (StrContents ''#!ls''),
     nsRow ''cat''        1 5  CRUMB_ISFILE  5    M0555 (StrContents ''#!cat''),
     nsRow ''echo''       1 6  CRUMB_ISFILE  6    M0555 (StrContents ''#!echo''),
     nsRow ''date''       1 7  CRUMB_ISFILE  6    M0555 (StrContents ''#!date''),
     nsRow ''toast''      1 8  CRUMB_ISFILE  7    M0555 (StrContents ''#!toast''),
     nsRow ''lsmem''      1 9  CRUMB_ISFILE  7    M0555 (StrContents ''#!lsmem''),
     nsRow ''ps''         1 10 CRUMB_ISFILE  4    M0555 (StrContents ''#!ps''),
     nsRow ''fg''         1 11 CRUMB_ISFILE  4    M0555 (StrContents ''#!fg''),
     nsRow ''fizzbuzz''   1 12 CRUMB_ISFILE  10   M0555 (StrContents ''#!fizzbuzz''),
     nsRow ''swpb''       2 13 CRUMB_ISMOUNT 0x42 M0444 NoContents,
     nsRow ''led''        2 14 CRUMB_ISMOUNT 0x6C M0444 NoContents,
     nsRow ''uart''       2 15 CRUMB_ISMOUNT 0x75 M0444 NoContents,
     nsRow ''lcd''        2 16 CRUMB_ISMOUNT 0x44 M0444 NoContents,
     nsRow ''adc''        2 17 CRUMB_ISMOUNT 0x41 M0444 NoContents,
     nsRow ''timer''      2 18 CRUMB_ISMOUNT 0x54 M0444 NoContents,
     nsRow ''date''       2 19 CRUMB_ISMOUNT 0x3D M0644 (StrContents ''date''),
     nsRow ''kprint''     2 20 CRUMB_ISMOUNT 0x3D M0222 (StrContents ''kprint''),
     nsRow ''interrupts'' 2 21 CRUMB_ISMOUNT 0x3D M0444 (StrContents ''interrupts''),
     nsEnd]"

lemma rootSNS_columns:
  "sns_columns rootSNS [0xfff, 0, 0, 1, 1, 1, 1, 1, 1, 1, 1, 1, 1, 2, 2, 2, 2, 2, 2, 2, 2, 2]
     [True, True, True, False, False, False, False, False, False, False, False, False, False, False, False, False, False, False, False, False, False, False]"
  by (simp add: sns_columns_def rootSNS_def fid_indices upt_from)

lemma rootSNS_wf: "sns_wf rootSNS"
  by (rule sns_wf_columns [OF rootSNS_columns]) (simp add: columns_ok_def upt_from)


subsection \<open>Operations\<close>

definition attachRoot :: "mem \<Rightarrow> string \<Rightarrow> 'w \<Rightarrow> (Portal \<times> 'w) option" where
  "attachRoot m path w = attachStatic DEV_DEVROOT rootSNS m path w"

definition walkRoot :: "mem \<Rightarrow> Portal \<Rightarrow> string list \<Rightarrow> 'w \<Rightarrow> (WalkTrail \<times> errno) reply option" where
  "walkRoot m p path w = walkStatic rootSNS m p path"

definition openRoot :: "Portal \<Rightarrow> u32 \<Rightarrow> 'w \<Rightarrow> (Portal reply \<times> 'w) option" where
  "openRoot p caps w = Some (Inr (openDev p caps), w)"

text \<open>Closing reports \<open>EPERM\<close> through \<open>errno\<close> and does nothing.\<close>

definition closeRoot :: "Portal \<Rightarrow> 'w \<Rightarrow> 'w option" where
  "closeRoot p w = Some w"

text \<open>The length of a directory is added up over its children.\<close>

partial_function (option) rootLength :: "Portal \<Rightarrow> NodeInfo option \<Rightarrow> NodeInfo \<Rightarrow> u32 \<Rightarrow> u32 option" where
  "rootLength px nix nip len =
     (case nix of
        None \<Rightarrow> Some len
      | Some ni \<Rightarrow>
          do {
            let px' = px\<lparr>pcrumb := ni_crumb nip\<rparr>;
            r \<leftarrow> getNodeInfoStaticNS px' (Some rootSNS) WalkNext nip;
            rootLength px' (case r of Inl _ \<Rightarrow> None | Inr n \<Rightarrow> Some n) (case r of Inl _ \<Rightarrow> nip | Inr n \<Rightarrow> n)
              (len + of_nat (length (ni_name nip)) + 1)
          })"

definition getInfoRoot :: "mem \<Rightarrow> Portal \<Rightarrow> 'w \<Rightarrow> NodeInfo reply option" where
  "getInfoRoot m p w =
     do {
       r \<leftarrow> selfInfo rootSNS m p;
       case r of
         Inl e \<Rightarrow> Some (Inl e)
       | Inr ni \<Rightarrow>
           if cflags (ni_crumb ni) AND CRUMB_ISDIR = 0 then Some (Inr ni)
           else do {
             let px = clonePortal p (fst (stk m));
             nix \<leftarrow> getNodeInfoStaticNS px (Some rootSNS) WalkDown (snd (stk m));
             len \<leftarrow> rootLength px (case nix of Inl _ \<Rightarrow> None | Inr n \<Rightarrow> Some n)
                     (case nix of Inl _ \<Rightarrow> snd (stk m) | Inr n \<Rightarrow> n) 0;
             Some (Inr (ni\<lparr>ni_length := if len \<noteq> 0 then len + 1 else len\<rparr>))
           }
     }"

definition readRoot :: "mem \<Rightarrow> Portal \<Rightarrow> u32 \<Rightarrow> u32 \<Rightarrow> 'w \<Rightarrow> ((u32 \<times> string) reply \<times> Portal \<times> 'w) option" where
  "readRoot m p sz offset w = readDirStatic rootSNS m p sz offset w"

definition writeRoot :: "mem \<Rightarrow> Portal \<Rightarrow> string \<Rightarrow> u32 \<Rightarrow> u32 \<Rightarrow> 'w \<Rightarrow> (u32 reply \<times> Portal \<times> 'w) option" where
  "writeRoot m p buf sz offset w = writeDenied m p buf sz offset w"

definition devRoot :: "'w Dev" where
  "devRoot =
     \<lparr>dev_id = DEV_DEVROOT, dev_name = ''root'', dev_power = powerDev, dev_init = initDev, dev_reset = resetDev,
      dev_shutdown = shutdownDev, dev_attach = attachRoot, dev_walk = walkRoot, dev_create = createDev,
      dev_open = openRoot, dev_close = closeRoot, dev_remove = removeDev, dev_getInfo = getInfoRoot,
      dev_setInfo = setInfoDev, dev_read = readRoot, dev_write = writeRoot\<rparr>"

interpretation root: static_device devRoot "\<lambda>_. True" "\<lambda>_. rootSNS" "\<lambda>_. 0"
proof
  show "sns_wf rootSNS" by (rule rootSNS_wf)
  show "(0 :: nat) < nodes rootSNS" by (rule sns_wfD(2)) (rule rootSNS_wf)
  show "\<exists>p. dev_attach devRoot m path w = Some (p, w) \<and> pdevice p = fromDeviceId (dev_id devRoot) \<and>
      pcrumb p = scrumb (rootSNS ! 0)" if "avail m 24" for m path and w :: 'w
    using attachStatic_root [OF rootSNS_wf that, of DEV_DEVROOT path w] by (simp add: devRoot_def attachRoot_def)
  show "dev_getInfo devRoot m p w = Some (Inr (nodeInfo p (rootSNS ! i)))"
    if "i < nodes rootSNS" "\<not> isdir rootSNS i" "pcrumb p = scrumb (rootSNS ! i)" for i m p and w :: 'w
    using that selfInfo_node [OF rootSNS_wf that(1,3), of m]
    by (simp add: devRoot_def getInfoRoot_def isdir_def)
qed (simp_all add: devRoot_def walkRoot_def openRoot_def)

end
