(* ===== verification/DevGpio.thy ===== *)
theory DevGpio
  imports DevBase
begin

text \<open>
  The devices over port pins: the lights (\<open>src/src/dev/devled.c\<close>) and the push buttons
  (\<open>src/src/dev/devswpb.c\<close>), with the port registers they use. A write to \<open>PSOR\<close> sets, and a
  write to \<open>PCOR\<close> clears, the pins of its set bits in the output register.
\<close>

subsection \<open>Registers\<close>

record Pins =
  pcr :: "string \<Rightarrow> u32"
  pddr :: u32
  pdor :: u32
  scgc5 :: u32
  pdirD :: u32
  pdirE :: u32

definition writePSOR :: "u32 \<Rightarrow> Pins \<Rightarrow> Pins" where
  "writePSOR v g = g\<lparr>pdor := pdor g OR v\<rparr>"

definition writePCOR :: "u32 \<Rightarrow> Pins \<Rightarrow> Pins" where
  "writePCOR v g = g\<lparr>pdor := pdor g AND NOT v\<rparr>"

text \<open>The masks of the clock gates, and of a pin's control register, from the hardware's header.\<close>

abbreviation "SIM_SCGC5_PORTA_MASK \<equiv> (0x200 :: u32)"
abbreviation "SIM_SCGC5_PORTD_MASK \<equiv> (0x1000 :: u32)"
abbreviation "SIM_SCGC5_PORTE_MASK \<equiv> (0x2000 :: u32)"
abbreviation "PORT_PCR_PS_MASK \<equiv> (0x1 :: u32)"
abbreviation "PORT_PCR_PE_MASK \<equiv> (0x2 :: u32)"

definition PORT_PCR_MUX :: "u32 \<Rightarrow> u32" where
  "PORT_PCR_MUX x = push_bit 8 x AND 0x700"

subsection \<open>Lights\<close>

datatype LedState = LedOff | LedOn

datatype LedColor = LedOrange | LedYellow | LedGreen | LedBlue

fun ledColorBits :: "LedColor \<Rightarrow> u32" where
  "ledColorBits LedOrange = 0x800"
| "ledColorBits LedYellow = 0x10000000"
| "ledColorBits LedGreen = 0x20000000"
| "ledColorBits LedBlue = 0x400"

fun ledColorPCR :: "LedColor \<Rightarrow> string" where
  "ledColorPCR LedOrange = ''PORTA_PCR11''"
| "ledColorPCR LedYellow = ''PORTA_PCR28''"
| "ledColorPCR LedGreen = ''PORTA_PCR29''"
| "ledColorPCR LedBlue = ''PORTA_PCR10''"

definition makeGPIOOut :: "LedColor \<Rightarrow> Pins \<Rightarrow> Pins" where
  "makeGPIOOut c g =
     g\<lparr>pcr := (pcr g)(ledColorPCR c := PORT_PCR_MUX 1), pddr := pddr g OR ledColorBits c\<rparr>"

text \<open>A light is on when its pin is low.\<close>

definition setLed :: "LedColor \<Rightarrow> LedState \<Rightarrow> Pins \<Rightarrow> Pins" where
  "setLed c st g = (case st of LedOff \<Rightarrow> writePSOR (ledColorBits c) g | LedOn \<Rightarrow> writePCOR (ledColorBits c) g)"

text \<open>The bit of the register, in its place.\<close>

definition getLed :: "LedColor \<Rightarrow> Pins \<Rightarrow> u32" where
  "getLed c g = pdor g AND ledColorBits c"

definition initLed :: "mem \<Rightarrow> Pins \<Rightarrow> Pins option" where
  "initLed m g =
     Some (fold (\<lambda>c g. makeGPIOOut c (setLed c LedOff g)) [LedOrange, LedYellow, LedGreen, LedBlue]
             (g\<lparr>scgc5 := scgc5 g OR SIM_SCGC5_PORTA_MASK\<rparr>))"

definition ledSNS :: "StaticNS list" where
  "ledSNS =
    [nsRow ''.''      STATICNS_SENTINEL 0 CRUMB_ISDIR 0 M0555 NoContents,
     nsRow ''orange'' 0 1 CRUMB_ISFILE 0 M0644 NoContents,
     nsRow ''yellow'' 0 2 CRUMB_ISFILE 0 M0644 NoContents,
     nsRow ''green''  0 3 CRUMB_ISFILE 0 M0644 NoContents,
     nsRow ''blue''   0 4 CRUMB_ISFILE 0 M0644 NoContents,
     nsEnd]"

text \<open>The colour of a file; the other identifiers have none.\<close>

definition ledOf :: "Crumb \<Rightarrow> LedColor option" where
  "ledOf c =
     (let f = unat (STATICNS_CRUMB_SELF_IDX c) in
      if f = 1 then Some LedOrange else if f = 2 then Some LedYellow
      else if f = 3 then Some LedGreen else if f = 4 then Some LedBlue else None)"

definition attachLed :: "mem \<Rightarrow> string \<Rightarrow> Pins \<Rightarrow> (Portal \<times> Pins) option" where
  "attachLed m path g = attachStatic DEV_DEVLED ledSNS m path g"

definition walkLed :: "mem \<Rightarrow> Portal \<Rightarrow> string list \<Rightarrow> Pins \<Rightarrow> (WalkTrail \<times> errno) reply option" where
  "walkLed m p path g = walkStatic ledSNS m p path"

definition openLed :: "Portal \<Rightarrow> u32 \<Rightarrow> Pins \<Rightarrow> (Portal reply \<times> Pins) option" where
  "openLed p caps g = Some (Inr (openDev p caps), g)"

definition closeLed :: "Portal \<Rightarrow> Pins \<Rightarrow> Pins option" where
  "closeLed p g = Some g"

definition getInfoLed :: "mem \<Rightarrow> Portal \<Rightarrow> Pins \<Rightarrow> NodeInfo reply option" where
  "getInfoLed m p g = selfInfo ledSNS m p"

text \<open>A byte of the sum of the digit 0 and a word.\<close>

definition digitOf :: "u32 \<Rightarrow> char" where
  "digitOf v = char_of (0x30 + unat v)"

definition readLed :: "mem \<Rightarrow> Portal \<Rightarrow> u32 \<Rightarrow> u32 \<Rightarrow> Pins \<Rightarrow> ((u32 \<times> string) reply \<times> Portal \<times> Pins) option" where
  "readLed m p sz offset g =
     (if sz = 0 then Some (Inr (0, []), p, g)
      else if cflags (pcrumb p) AND CRUMB_ISDIR \<noteq> 0 then readDirStatic ledSNS m p sz offset g
      else if poffset p \<noteq> 0 then Some (Inr (0, []), p, g)
      else case ledOf (pcrumb p) of
             Some c \<Rightarrow> Some (Inr (1, [digitOf (getLed c g)]), p\<lparr>poffset := poffset p + 1\<rparr>, g)
           | None \<Rightarrow> Some (Inl ENODEV, p, g))"

definition writeLed :: "mem \<Rightarrow> Portal \<Rightarrow> string \<Rightarrow> u32 \<Rightarrow> u32 \<Rightarrow> Pins \<Rightarrow> (u32 reply \<times> Portal \<times> Pins) option" where
  "writeLed m p buf sz offset g =
     (if sz = 0 then Some (Inr 0, p, g)
      else case buf of
        [] \<Rightarrow> None
      | c # _ \<Rightarrow>
          if \<not> (c = CHR ''0'' \<or> c = CHR ''1'') then Some (Inr 0, p, g)
          else case ledOf (pcrumb p) of
                 Some led \<Rightarrow> Some (Inr 1, p, setLed led (if c = CHR ''0'' then LedOff else LedOn) g)
               | None \<Rightarrow> Some (Inr 0, p, g))"

definition devLed :: "Pins Dev" where
  "devLed =
     \<lparr>dev_id = DEV_DEVLED, dev_name = ''led'', dev_power = powerDev, dev_init = initLed, dev_reset = resetDev,
      dev_shutdown = shutdownDev, dev_attach = attachLed, dev_walk = walkLed, dev_create = createDev,
      dev_open = openLed, dev_close = closeLed, dev_remove = removeDev, dev_getInfo = getInfoLed,
      dev_setInfo = setInfoDev, dev_read = readLed, dev_write = writeLed\<rparr>"

lemma ledSNS_wf: "sns_wf ledSNS"
proof (rule sns_wf_columns)
  show "sns_columns ledSNS [0xfff, 0, 0, 0, 0] [True, False, False, False, False]"
    by (simp add: sns_columns_def ledSNS_def fid_indices upt_from)
  show "columns_ok [0xfff, 0, 0, 0, 0] [True, False, False, False, False]"
    by (simp add: columns_ok_def upt_from)
qed

interpretation led: static_device devLed "\<lambda>_. True" "\<lambda>_. ledSNS" "\<lambda>_. 0"
proof
  show "sns_wf ledSNS" by (rule ledSNS_wf)
  show "(0 :: nat) < nodes ledSNS" by (rule sns_wfD(2)) (rule ledSNS_wf)
  show "\<exists>p. dev_attach devLed m path g = Some (p, g) \<and> pdevice p = fromDeviceId (dev_id devLed) \<and>
      pcrumb p = scrumb (ledSNS ! 0)" if "avail m 24" for m path g
    using attachStatic_root [OF ledSNS_wf that, of DEV_DEVLED path g] by (simp add: devLed_def attachLed_def)
  show "dev_getInfo devLed m p g = Some (Inr (nodeInfo p (ledSNS ! i)))"
    if "i < nodes ledSNS" "pcrumb p = scrumb (ledSNS ! i)" for i m p g
    using selfInfo_node [OF ledSNS_wf that, of m] by (simp add: devLed_def getInfoLed_def)
qed (simp_all add: devLed_def walkLed_def openLed_def)

subsection \<open>Buttons\<close>

datatype Button = Button1 | Button2

datatype ButtonState = ButtonDown | ButtonUp

definition makeGPIOIn :: "Button \<Rightarrow> Pins \<Rightarrow> Pins" where
  "makeGPIOIn b g =
     g\<lparr>pcr := (pcr g)((case b of Button1 \<Rightarrow> ''PORTD_PCR0'' | Button2 \<Rightarrow> ''PORTE_PCR26'') :=
                       PORT_PCR_MUX 1 OR PORT_PCR_PE_MASK OR PORT_PCR_PS_MASK)\<rparr>"

definition initButtons :: "Pins \<Rightarrow> Pins" where
  "initButtons g =
     fold makeGPIOIn [Button1, Button2] (g\<lparr>scgc5 := scgc5 g OR (SIM_SCGC5_PORTD_MASK OR SIM_SCGC5_PORTE_MASK)\<rparr>)"

definition getState :: "Button \<Rightarrow> Pins \<Rightarrow> ButtonState" where
  "getState b g =
     (if (case b of Button1 \<Rightarrow> pdirD g AND 0x1 | Button2 \<Rightarrow> pdirE g AND 0x4000000) = 0
      then ButtonDown else ButtonUp)"

definition initSwpb :: "mem \<Rightarrow> Pins \<Rightarrow> Pins option" where
  "initSwpb m g = Some (initButtons g)"

definition swpbSNS :: "StaticNS list" where
  "swpbSNS =
    [nsRow ''.''    STATICNS_SENTINEL 0 CRUMB_ISDIR 0 M0555 NoContents,
     nsRow ''1''    0 1 CRUMB_ISFILE 0 M0444 NoContents,
     nsRow ''2''    0 2 CRUMB_ISFILE 0 M0444 NoContents,
     nsRow ''1raw'' 0 3 CRUMB_ISFILE 0 M0444 NoContents,
     nsRow ''2raw'' 0 4 CRUMB_ISFILE 0 M0444 NoContents,
     nsEnd]"

definition attachSwpb :: "mem \<Rightarrow> string \<Rightarrow> Pins \<Rightarrow> (Portal \<times> Pins) option" where
  "attachSwpb m path g = attachStatic DEV_DEVSWPB swpbSNS m path g"

definition walkSwpb :: "mem \<Rightarrow> Portal \<Rightarrow> string list \<Rightarrow> Pins \<Rightarrow> (WalkTrail \<times> errno) reply option" where
  "walkSwpb m p path g = walkStatic swpbSNS m p path"

definition openSwpb :: "Portal \<Rightarrow> u32 \<Rightarrow> Pins \<Rightarrow> (Portal reply \<times> Pins) option" where
  "openSwpb p caps g = Some (Inr (openDev p caps), g)"

definition closeSwpb :: "Portal \<Rightarrow> Pins \<Rightarrow> Pins option" where
  "closeSwpb p g = Some g"

definition getInfoSwpb :: "mem \<Rightarrow> Portal \<Rightarrow> Pins \<Rightarrow> NodeInfo reply option" where
  "getInfoSwpb m p g = selfInfo swpbSNS m p"

text \<open>The first two files wait a little and are then read as the raw ones.\<close>

definition readSwpb :: "mem \<Rightarrow> Portal \<Rightarrow> u32 \<Rightarrow> u32 \<Rightarrow> Pins \<Rightarrow> ((u32 \<times> string) reply \<times> Portal \<times> Pins) option" where
  "readSwpb m p sz offset g =
     (if sz = 0 then Some (Inr (0, []), p, g)
      else if cflags (pcrumb p) AND CRUMB_ISDIR \<noteq> 0 then readDirStatic swpbSNS m p sz offset g
      else
        (let f = unat (STATICNS_CRUMB_SELF_IDX (pcrumb p));
             f' = (if f = 1 \<or> f = 2 then f + 2 else f) in
         if f' = 3 \<or> f' = 4 then
           (let st = getState (if f' = 3 then Button1 else Button2) g
            in Some (Inr (1, [digitOf (case st of ButtonDown \<Rightarrow> 0 | ButtonUp \<Rightarrow> 1)]), p\<lparr>poffset := poffset p + 1\<rparr>, g))
         else Some (Inl ENODEV, p, g)))"

definition writeSwpb :: "mem \<Rightarrow> Portal \<Rightarrow> string \<Rightarrow> u32 \<Rightarrow> u32 \<Rightarrow> Pins \<Rightarrow> (u32 reply \<times> Portal \<times> Pins) option" where
  "writeSwpb m p buf sz offset g = writeDenied m p buf sz offset g"

definition devSwpb :: "Pins Dev" where
  "devSwpb =
     \<lparr>dev_id = DEV_DEVSWPB, dev_name = ''swpb'', dev_power = powerDev, dev_init = initSwpb, dev_reset = resetDev,
      dev_shutdown = shutdownDev, dev_attach = attachSwpb, dev_walk = walkSwpb, dev_create = createDev,
      dev_open = openSwpb, dev_close = closeSwpb, dev_remove = removeDev, dev_getInfo = getInfoSwpb,
      dev_setInfo = setInfoDev, dev_read = readSwpb, dev_write = writeSwpb\<rparr>"

lemma swpbSNS_wf: "sns_wf swpbSNS"
proof (rule sns_wf_columns)
  show "sns_columns swpbSNS [0xfff, 0, 0, 0, 0] [True, False, False, False, False]"
    by (simp add: sns_columns_def swpbSNS_def fid_indices upt_from)
  show "columns_ok [0xfff, 0, 0, 0, 0] [True, False, False, False, False]"
    by (simp add: columns_ok_def upt_from)
qed

interpretation swpb: static_device devSwpb "\<lambda>_. True" "\<lambda>_. swpbSNS" "\<lambda>_. 0"
proof
  show "sns_wf swpbSNS" by (rule swpbSNS_wf)
  show "(0 :: nat) < nodes swpbSNS" by (rule sns_wfD(2)) (rule swpbSNS_wf)
  show "\<exists>p. dev_attach devSwpb m path g = Some (p, g) \<and> pdevice p = fromDeviceId (dev_id devSwpb) \<and>
      pcrumb p = scrumb (swpbSNS ! 0)" if "avail m 24" for m path g
    using attachStatic_root [OF swpbSNS_wf that, of DEV_DEVSWPB path g] by (simp add: devSwpb_def attachSwpb_def)
  show "dev_getInfo devSwpb m p g = Some (Inr (nodeInfo p (swpbSNS ! i)))"
    if "i < nodes swpbSNS" "pcrumb p = scrumb (swpbSNS ! i)" for i m p g
    using selfInfo_node [OF swpbSNS_wf that, of m] by (simp add: devSwpb_def getInfoSwpb_def)
qed (simp_all add: devSwpb_def walkSwpb_def openSwpb_def)


subsection \<open>Properties\<close>

text \<open>A light is lit when its pin is low.\<close>

definition lit :: "LedColor \<Rightarrow> Pins \<Rightarrow> bool" where
  "lit c g \<longleftrightarrow> pdor g AND ledColorBits c = 0"

lemma ledColorBits_apart:
  "ledColorBits c AND ledColorBits c' = (if c = c' then ledColorBits c else 0)" "ledColorBits c \<noteq> 0"
  by (cases c; cases c'; simp)+

lemma lit_setLed: "lit c' (setLed c st g) \<longleftrightarrow> (if c' = c then st = LedOn else lit c' g)"
proof (cases st)
  case LedOff
  have "(pdor g OR ledColorBits c) AND ledColorBits c' = (pdor g AND ledColorBits c') OR (ledColorBits c AND ledColorBits c')"
    by (simp add: bit.conj_disj_distrib2)
  then show ?thesis using LedOff ledColorBits_apart(1) [of c c'] ledColorBits_apart(2) by (auto simp: lit_def setLed_def writePSOR_def)
next
  case LedOn
  have "(pdor g AND NOT (ledColorBits c)) AND ledColorBits c' = pdor g AND (ledColorBits c' AND NOT (ledColorBits c))"
    by (simp add: ac_simps)
  moreover have "ledColorBits c' AND NOT (ledColorBits c) = (if c' = c then 0 else ledColorBits c')"
    by (cases c; cases c'; simp)
  ultimately show ?thesis using LedOn by (simp add: lit_def setLed_def writePCOR_def)
qed

text \<open>
  Writing \<open>1\<close> to the file of a light lights it, writing \<open>0\<close> puts it out, one byte is consumed and
  the other lights stay as they are.
\<close>

theorem writeLed_switches:
  assumes "ledOf (pcrumb p) = Some led" "sz \<noteq> 0" "c = CHR ''0'' \<or> c = CHR ''1''"
  shows "\<exists>g'. writeLed m p (c # rest) sz offset g = Some (Inr 1, p, g') \<and>
           (\<forall>led'. lit led' g' \<longleftrightarrow> (if led' = led then c = CHR ''1'' else lit led' g))"
  using assms by (auto simp: writeLed_def lit_setLed)

definition exPins :: Pins where
  "exPins = \<lparr>pcr = \<lambda>_. 0, pddr = 0, pdor = 0xFFFFFFFF, scgc5 = 0, pdirD = 0, pdirE = 0\<rparr>"

definition exLed :: "nat \<Rightarrow> Portal" where
  "exLed i = \<lparr>pdevice = 1, pflags = 1, pcrumb = scrumb (ledSNS ! i), pcaps = 1, poffset = 0\<rparr>"

lemma exLed_blue: "ledOf (pcrumb (exLed 4)) = Some LedBlue"
  by (simp add: ledOf_def exLed_def ledSNS_def fid_indices)

theorem writeLed_switches_witness:
  "\<forall>m. \<exists>g'. writeLed m (exLed 4) ''1'' 1 0 exPins = Some (Inr 1, exLed 4, g') \<and> lit LedBlue g' \<and> \<not> lit LedGreen g'"
proof
  fix m
  have dark: "\<not> lit LedGreen exPins" by (simp add: lit_def exPins_def)
  obtain g' where g': "writeLed m (exLed 4) [CHR ''1''] 1 0 exPins = Some (Inr 1, exLed 4, g')"
    "\<forall>led'. lit led' g' \<longleftrightarrow> (if led' = LedBlue then CHR ''1'' = CHR ''1'' else lit led' exPins)"
    using writeLed_switches [OF exLed_blue, of 1 "CHR ''1''" m "[]" 0 exPins] by auto
  have "lit LedBlue g'" using g'(2) by simp
  moreover have "\<not> lit LedGreen g'" using g'(2) dark by simp
  ultimately show "\<exists>g'. writeLed m (exLed 4) ''1'' 1 0 exPins = Some (Inr 1, exLed 4, g') \<and> lit LedBlue g' \<and> \<not> lit LedGreen g'"
    using g'(1) by blast
qed

text \<open>
  Reading the file of a light always gives the character \<open>0\<close>: the bit of the register is added to it
  in its place, above the byte. The comment in \<open>getLed\<close> notes the symptom.
\<close>

theorem readLed_always_zero:
  assumes "ledOf (pcrumb p) = Some led" "sz \<noteq> 0" "poffset p = 0" "cflags (pcrumb p) AND CRUMB_ISDIR = 0"
  shows "readLed m p sz offset g = Some (Inr (1, ''0''), p\<lparr>poffset := 1\<rparr>, g)"
proof -
  have one: "v AND push_bit n 1 = (if bit v n then push_bit n 1 else 0)" for v :: u32 and n
    by (rule bit_word_eqI) (auto simp: bit_simps)
  have "ledColorBits led = push_bit (case led of LedOrange \<Rightarrow> 11 | LedYellow \<Rightarrow> 28 | LedGreen \<Rightarrow> 29 | LedBlue \<Rightarrow> 10) 1"
    by (cases led) (simp_all add: push_bit_eq_mult)
  then have "getLed led g = 0 \<or> getLed led g = ledColorBits led"
    unfolding getLed_def by (metis one)
  then have "digitOf (getLed led g) = CHR ''0''"
    by (cases led) (auto simp: digitOf_def char_of_eq_iff take_bit_eq_mod)
  then show ?thesis using assms by (simp add: readLed_def)
qed

theorem readLed_always_zero_witness:
  "\<forall>m. readLed m (exLed 4) 1 0 (setLed LedBlue LedOff exPins) = Some (Inr (1, ''0''), (exLed 4)\<lparr>poffset := 1\<rparr>, setLed LedBlue LedOff exPins) \<and>
   readLed m (exLed 4) 1 0 (setLed LedBlue LedOn exPins) = Some (Inr (1, ''0''), (exLed 4)\<lparr>poffset := 1\<rparr>, setLed LedBlue LedOn exPins)"
proof -
  have exfile: "poffset (exLed 4) = 0" "cflags (pcrumb (exLed 4)) AND CRUMB_ISDIR = 0" "(1 :: u32) \<noteq> 0"
    by (simp_all add: exLed_def ledSNS_def)
  show ?thesis
    using readLed_always_zero [OF exLed_blue exfile(3,1,2), of _ 0] by blast
qed

end
