(* ===== verification/UartHw.thy ===== *)
theory UartHw
  imports HwRegs FifoQueue "HOL-Library.Sublist"
begin

text \<open>
  The serial port driver (\<open>src/src/dev/arch/k70/uart.c\<close>): a queue of bytes in each direction, the
  registers of the port, its interrupt handler, and the two operations that wait for the handler.
  A wait takes the interrupts still to come; running out of them is waiting for ever.
\<close>

subsection \<open>State\<close>

text \<open>
  \<open>txd\<close> are the bytes written to the data register; the \<open>Control\<close> structure's registers outside
  the port are in \<open>uregs\<close> and \<open>unvic\<close>.
\<close>

record Uart =
  uhwname :: string
  uclock :: u32
  ubaud :: u32
  ubits :: int
  inQ :: "FifoQ option"
  outQ :: "FifoQ option"
  uenabled :: int
  uconsole :: int
  ubdh :: u8
  ubdl :: u8
  uc1 :: u8
  uc2 :: u8
  uc4 :: u8
  txd :: "u8 list"
  uregs :: regs
  unvic :: Nvic

abbreviation "UART_C2_TE_MASK \<equiv> (0x8 :: u8)"
abbreviation "UART_C2_RE_MASK \<equiv> (0x4 :: u8)"
abbreviation "UART_C2_RIE_MASK \<equiv> (0x20 :: u8)"
abbreviation "UART_C2_TIE_MASK \<equiv> (0x80 :: u8)"
abbreviation "UART_S1_RDRF_MASK \<equiv> (0x20 :: u32)"
abbreviation "UART_S1_TDRE_MASK \<equiv> (0x80 :: u32)"

text \<open>What an interrupt does to the rest of the kernel.\<close>

datatype UartEffect = PostToRunning u32 | WeirdStatus u32

text \<open>An interrupt: the status and the data register when it is taken; \<open>None\<close> when none comes.\<close>

type_synonym uart_irq = "(u32 \<times> u8) option"

subsection \<open>Operations\<close>

definition k70UartPower :: "(u32 \<Rightarrow> u8 list option) \<Rightarrow> int \<Rightarrow> Uart \<Rightarrow> Uart" where
  "k70UartPower syskmalloc onoff u =
     (let queue = (case newFifoQ syskmalloc 128 of Inl e \<Rightarrow> None | Inr q \<Rightarrow> Some q) in
      if onoff = 1 then
        u\<lparr>inQ := queue, outQ := queue,
          uregs := setReg ''PORTE_PCR17'' (field 8 0x700 3) (setReg ''PORTE_PCR16'' (field 8 0x700 3)
            (orReg ''SIM_SCGC4'' 0x1000 (orReg ''SIM_SCGC5'' 0x2000 (uregs u))))\<rparr>
      else u)"

definition k70UartEnable :: "Uart \<Rightarrow> Uart" where
  "k70UartEnable u =
     u\<lparr>uc2 := uc2 u OR (UART_C2_TE_MASK OR UART_C2_RE_MASK OR UART_C2_RIE_MASK),
       unvic := enableNvicIrq NVIC_IRQ_UART2_STAT MANOS_ARCH_K70_UART2_PRIORITY (unvic u)\<rparr>"

definition k70UartDisable :: "Uart \<Rightarrow> Uart" where
  "k70UartDisable u = u\<lparr>uc2 := uc2 u AND NOT (UART_C2_TE_MASK OR UART_C2_RE_MASK)\<rparr>"

definition k70UartBits :: "int \<Rightarrow> Uart \<Rightarrow> (errno + Uart)" where
  "k70UartBits bits u = (if bits = 8 then Inr (u\<lparr>uc1 := 0, ubits := bits\<rparr>) else Inl EINVAL)"

text \<open>The mask for the high bits of the divisor is written \<open>1000\<close>, in decimal.\<close>

definition k70UartBaud :: "u32 \<Rightarrow> Uart \<Rightarrow> (errno + Uart) option" where
  "k70UartBaud baud u =
     (if uclock u = 0 then Some (Inl EINVAL)
      else if baud = 0 \<or> baud * 16 = 0 then None
      else
        (let newSBR = (ucast (uclock u div baud div 16) :: u16);
             saveBDH = ubdh u AND NOT 0x1f;
             newBRFA = (ucast ((uclock u div 1000 * 32000) div (baud * 16) - ucast newSBR * 32) :: u16);
             saveC4 = uc4 u AND NOT 0x1f
         in Some (Inr (u\<lparr>ubdh := saveBDH OR (ucast (drop_bit 8 (newSBR AND 1000)) AND 0x1f),
                         ubdl := ucast (newSBR AND 0xff),
                         uc4 := saveC4 OR (ucast newBRFA AND 0x1f),
                         ubaud := baud\<rparr>))))"

text \<open>The interrupt handler; the first argument tells whether a process is running.\<close>

definition uartTransmit :: "u32 \<Rightarrow> Uart \<Rightarrow> Uart option" where
  "uartTransmit status u =
     (if uc2 u AND UART_C2_TIE_MASK \<noteq> 0 \<and> status AND UART_S1_TDRE_MASK \<noteq> 0 then
        do {
          (r, p) \<leftarrow> dequeueFifoQ (outQ u);
          q \<leftarrow> p;
          let u' = u\<lparr>outQ := Some q, txd := (case r of Some c \<Rightarrow> txd u @ [c] | None \<Rightarrow> txd u)\<rparr>;
          Some (if isEmpty q then u'\<lparr>uc2 := uc2 u AND NOT UART_C2_TIE_MASK\<rparr> else u')
        }
      else Some u)"

definition uartReceive :: "bool \<Rightarrow> u32 \<Rightarrow> u8 \<Rightarrow> Uart \<Rightarrow> (UartEffect list \<times> Uart) option" where
  "uartReceive running status c u =
     (if uc2 u AND UART_C2_RIE_MASK \<noteq> 0 \<and> status AND UART_S1_RDRF_MASK \<noteq> 0 then
        (if c = 0x03 then Some (if running then [PostToRunning 0x1] else [], u)
         else if c = 0x1a then Some (if running then [PostToRunning 0x4] else [], u)
         else do { (_, p) \<leftarrow> enqueueFifoQ (inQ u) (if c = 0x04 then 0 else c); Some ([], u\<lparr>inQ := p\<rparr>) })
      else Some ([], u))"

definition k70UartInterrupt :: "bool \<Rightarrow> u32 \<Rightarrow> u8 \<Rightarrow> Uart \<Rightarrow> (UartEffect list \<times> Uart) option" where
  "k70UartInterrupt running status c u =
     do {
       let e = (if status AND UART_S1_TDRE_MASK \<noteq> 0 \<or> status AND UART_S1_RDRF_MASK \<noteq> 0 then [] else [WeirdStatus status]);
       u1 \<leftarrow> uartTransmit status u;
       (e1, u2) \<leftarrow> uartReceive running status c u1;
       Some (e @ e1, u2)
     }"

definition uartIrq :: "bool \<Rightarrow> uart_irq \<Rightarrow> Uart \<Rightarrow> (UartEffect list \<times> Uart) option" where
  "uartIrq running i u = (case i of None \<Rightarrow> Some ([], u) | Some (s, c) \<Rightarrow> k70UartInterrupt running s c u)"

text \<open>
  The loop around a critical region: an attempt with interrupts held off, and between two attempts
  the next interrupt.
\<close>

fun waitUart ::
  "(Uart \<Rightarrow> ('a option \<times> Uart) option) \<Rightarrow> bool \<Rightarrow> uart_irq list \<Rightarrow> Uart \<Rightarrow> ('a \<times> UartEffect list \<times> uart_irq list \<times> Uart) option"
where
  "waitUart f running [] u =
     do { (r, u1) \<leftarrow> f u; x \<leftarrow> r; Some (x, [], [], u1) }"
| "waitUart f running (i # is) u =
     do {
       (r, u1) \<leftarrow> f u;
       case r of
         Some x \<Rightarrow> Some (x, [], i # is, u1)
       | None \<Rightarrow>
           do { (e, u2) \<leftarrow> uartIrq running i u1;
                (x, e', is', u3) \<leftarrow> waitUart f running is u2;
                Some (x, e @ e', is', u3) }
     }"

definition tryGetc :: "Uart \<Rightarrow> (u8 option \<times> Uart) option" where
  "tryGetc u = do { (r, p) \<leftarrow> dequeueFifoQ (inQ u); Some (r, u\<lparr>inQ := p\<rparr>) }"

definition tryPutc :: "u8 \<Rightarrow> Uart \<Rightarrow> (unit option \<times> Uart) option" where
  "tryPutc c u =
     do { (ok, p) \<leftarrow> enqueueFifoQ (outQ u) c;
          Some (if ok then (Some (), u\<lparr>outQ := p, uc2 := uc2 u OR UART_C2_TIE_MASK\<rparr>) else (None, u)) }"

definition k70UartGetc :: "bool \<Rightarrow> uart_irq list \<Rightarrow> Uart \<Rightarrow> (u8 \<times> UartEffect list \<times> uart_irq list \<times> Uart) option" where
  "k70UartGetc running is u = waitUart tryGetc running is u"

definition k70UartPutc :: "u8 \<Rightarrow> bool \<Rightarrow> uart_irq list \<Rightarrow> Uart \<Rightarrow> (unit \<times> UartEffect list \<times> uart_irq list \<times> Uart) option" where
  "k70UartPutc c running is u = waitUart (tryPutc c) running is u"

subsection \<open>The invariant of the driver\<close>

text \<open>Both queues are well formed, and while bytes wait to be sent the transmit interrupt is on.\<close>

definition uart_inv :: "Uart \<Rightarrow> bool" where
  "uart_inv u \<longleftrightarrow> fifoP_inv (inQ u) \<and> fifoP_inv (outQ u) \<and>
     (fifoP_items (outQ u) \<noteq> [] \<longrightarrow> uc2 u AND UART_C2_TIE_MASK \<noteq> 0)"

text \<open>The bytes sent and those that wait to be sent; the capacity of the queues.\<close>

definition outgoing :: "Uart \<Rightarrow> u8 list" where
  "outgoing u = txd u @ fifoP_items (outQ u)"

definition incoming :: "Uart \<Rightarrow> u8 list" where
  "incoming u = fifoP_items (inQ u)"

definition qcaps :: "Uart \<Rightarrow> nat \<times> nat" where
  "qcaps u = (fifoP_cap (inQ u), fifoP_cap (outQ u))"

lemma tie_bits [simp]:
  "(c OR UART_C2_TIE_MASK) AND UART_C2_TIE_MASK \<noteq> 0"
  "(c AND NOT UART_C2_TIE_MASK) AND UART_C2_TIE_MASK = 0"
  "(c AND NOT UART_C2_TIE_MASK) AND UART_C2_RIE_MASK = c AND UART_C2_RIE_MASK"
  "(c OR UART_C2_TIE_MASK) AND UART_C2_RIE_MASK = c AND UART_C2_RIE_MASK"
  "(c AND - 129) AND UART_C2_RIE_MASK = c AND UART_C2_RIE_MASK" "(c AND - 129) AND UART_C2_TIE_MASK = 0" for c :: u8
proof -
  have "(c OR 0x80) AND 0x80 = (0x80 :: u8)" by (simp add: bit.conj_disj_distrib2)
  then show "(c OR UART_C2_TIE_MASK) AND UART_C2_TIE_MASK \<noteq> 0" by simp
  show "(c AND NOT UART_C2_TIE_MASK) AND UART_C2_TIE_MASK = 0"
    "(c AND NOT UART_C2_TIE_MASK) AND UART_C2_RIE_MASK = c AND UART_C2_RIE_MASK"
    by (simp_all add: and.assoc)
  show "(c AND - 129) AND UART_C2_RIE_MASK = c AND UART_C2_RIE_MASK" "(c AND - 129) AND UART_C2_TIE_MASK = 0"
    by (simp_all add: and.assoc)
  show "(c OR UART_C2_TIE_MASK) AND UART_C2_RIE_MASK = c AND UART_C2_RIE_MASK"
    by (simp add: bit.conj_disj_distrib2)
qed

lemma fifoP_some: "fifoP_inv p \<Longrightarrow> \<exists>q. p = Some q \<and> fifo_inv q"
  by (cases p) (auto simp: fifoP_inv_def)

text \<open>One attempt to take a byte, to put one, and the two halves of the handler.\<close>

lemma uartTransmit_ok:
  assumes "uart_inv u"
  shows "\<exists>u'. uartTransmit s u = Some u' \<and> uart_inv u' \<and> outgoing u' = outgoing u \<and> qcaps u' = qcaps u \<and>
           inQ u' = inQ u \<and> uc2 u' AND UART_C2_RIE_MASK = uc2 u AND UART_C2_RIE_MASK \<and>
           fifoP_items (outQ u') = (if s AND UART_S1_TDRE_MASK \<noteq> 0 then tl (fifoP_items (outQ u)) else fifoP_items (outQ u))"
proof (cases "uc2 u AND UART_C2_TIE_MASK \<noteq> 0 \<and> s AND UART_S1_TDRE_MASK \<noteq> 0")
  case False
  then have "uartTransmit s u = Some u" by (auto simp: uartTransmit_def)
  with False assms show ?thesis by (auto simp: uart_inv_def)
next
  case True
  have inv: "fifoP_inv (outQ u)" using assms by (simp add: uart_inv_def)
  obtain r p where d: "dequeueFifoQ (outQ u) = Some (r, p)" "fifoP_inv p" "fifoP_cap p = fifoP_cap (outQ u)"
    "spec_op (fifoP_cap (outQ u)) (fifoP_items (outQ u)) Deq = (Dequeued r, fifoP_items p)"
    using byteq.deq_spec [OF inv] by blast
  obtain q where q: "p = Some q" "fifo_inv q" using fifoP_some [OF d(2)] by blast
  have e: "isEmpty q \<longleftrightarrow> fifoP_items p = []" using isEmpty_iff [OF q(2)] q(1) by (simp add: fifoP_items_def)
  have items: "fifoP_items (outQ u) = (case r of Some c \<Rightarrow> c # fifoP_items p | None \<Rightarrow> fifoP_items p)"
    "fifoP_items p = tl (fifoP_items (outQ u))"
    using d(4) by (cases "fifoP_items (outQ u)"; auto)+
  define u' where "u' = u\<lparr>outQ := p, txd := (case r of Some c \<Rightarrow> txd u @ [c] | None \<Rightarrow> txd u)\<rparr>"
  have run: "uartTransmit s u = Some (if isEmpty q then u'\<lparr>uc2 := uc2 u AND NOT UART_C2_TIE_MASK\<rparr> else u')"
    using True d(1) q(1) by (simp add: uartTransmit_def u'_def Let_def)
  have "outgoing u' = outgoing u" using items(1) by (simp add: outgoing_def u'_def split: option.splits)
  then show ?thesis
    using run assms True e d(2,3) items(2)
    by (cases "isEmpty q") (simp_all add: uart_inv_def u'_def qcaps_def outgoing_def)
qed

lemma uartReceive_ok:
  assumes "uart_inv u"
  shows "\<exists>e u'. uartReceive run s c u = Some (e, u') \<and> uart_inv u' \<and> outgoing u' = outgoing u \<and> qcaps u' = qcaps u \<and>
           outQ u' = outQ u \<and> uc2 u' = uc2 u \<and>
           (incoming u' = incoming u \<or> incoming u' = incoming u @ [if c = 0x04 then 0 else c])"
proof -
  obtain b p where "enqueueFifoQ (inQ u) (if c = 0x04 then 0 else c) = Some (b, p)" "fifoP_inv p" "fifoP_cap p = fifoP_cap (inQ u)"
    "spec_op (fifoP_cap (inQ u)) (fifoP_items (inQ u)) (Enq (if c = 0x04 then 0 else c)) = (Enqueued b, fifoP_items p)"
    using byteq.enq_spec [of "inQ u" "if c = 0x04 then 0 else c"] assms by (auto simp: uart_inv_def)
  then show ?thesis
    using assms by (auto simp: uartReceive_def uart_inv_def outgoing_def qcaps_def incoming_def split: if_splits)
qed

lemma k70UartInterrupt_ok:
  assumes "uart_inv u"
  shows "\<exists>e u'. k70UartInterrupt run s c u = Some (e, u') \<and> uart_inv u' \<and> outgoing u' = outgoing u \<and> qcaps u' = qcaps u \<and>
           (incoming u' = incoming u \<or> incoming u' = incoming u @ [if c = 0x04 then 0 else c]) \<and>
           fifoP_items (outQ u') = (if s AND UART_S1_TDRE_MASK \<noteq> 0 then tl (fifoP_items (outQ u)) else fifoP_items (outQ u))"
proof -
  obtain u1 where u1: "uartTransmit s u = Some u1" "uart_inv u1" "outgoing u1 = outgoing u" "qcaps u1 = qcaps u" "inQ u1 = inQ u"
    "fifoP_items (outQ u1) = (if s AND UART_S1_TDRE_MASK \<noteq> 0 then tl (fifoP_items (outQ u)) else fifoP_items (outQ u))"
    using uartTransmit_ok [OF assms] by blast
  obtain e u2 where "uartReceive run s c u1 = Some (e, u2)" "uart_inv u2" "outgoing u2 = outgoing u1" "qcaps u2 = qcaps u1"
    "outQ u2 = outQ u1" "incoming u2 = incoming u1 \<or> incoming u2 = incoming u1 @ [if c = 0x04 then 0 else c]"
    using uartReceive_ok [OF u1(2)] by metis
  then show ?thesis using u1 by (auto simp: k70UartInterrupt_def incoming_def)
qed


lemma tryGetc_ok:
  assumes "uart_inv u"
  shows "\<exists>r u'. tryGetc u = Some (r, u') \<and> uart_inv u' \<and> outgoing u' = outgoing u \<and> qcaps u' = qcaps u \<and>
           fifoP_items (outQ u') = fifoP_items (outQ u) \<and>
           (case r of Some c \<Rightarrow> incoming u = c # incoming u' | None \<Rightarrow> incoming u = [] \<and> u' = u)"
proof -
  obtain r p where d: "dequeueFifoQ (inQ u) = Some (r, p)" "fifoP_inv p" "fifoP_cap p = fifoP_cap (inQ u)"
    "spec_op (fifoP_cap (inQ u)) (fifoP_items (inQ u)) Deq = (Dequeued r, fifoP_items p)"
    using byteq.deq_spec [of "inQ u"] assms by (auto simp: uart_inv_def)
  have same: "p = inQ u" if "fifoP_items (inQ u) = []"
    using byteq.deq_empty [of "inQ u"] assms that d(1) by (simp add: uart_inv_def)
  show ?thesis
    using assms d same
    by (cases "fifoP_items (inQ u)") (auto simp: tryGetc_def uart_inv_def outgoing_def incoming_def qcaps_def)
qed

lemma tryPutc_ok:
  assumes "uart_inv u"
  shows "\<exists>r u'. tryPutc c u = Some (r, u') \<and> uart_inv u' \<and> incoming u' = incoming u \<and> qcaps u' = qcaps u \<and>
           (case r of Some _ \<Rightarrow> outgoing u' = outgoing u @ [c] | None \<Rightarrow> u' = u \<and> length (fifoP_items (outQ u)) = snd (qcaps u))"
proof -
  have inv: "fifoP_inv (outQ u)" using assms by (simp add: uart_inv_def)
  show ?thesis
  proof (cases "length (fifoP_items (outQ u)) < fifoP_cap (outQ u)")
    case True
    obtain p where "enqueueFifoQ (outQ u) c = Some (True, p)" "fifoP_inv p" "fifoP_items p = fifoP_items (outQ u) @ [c]"
      "fifoP_cap p = fifoP_cap (outQ u)"
      using byteq.enq_room [OF inv True] by blast
    then show ?thesis using assms by (simp add: tryPutc_def uart_inv_def incoming_def qcaps_def outgoing_def)
  next
    case False
    then have "length (fifoP_items (outQ u)) = fifoP_cap (outQ u)" using byteq.bounded [OF inv] by simp
    then show ?thesis using byteq.enq_full [OF inv] assms by (simp add: tryPutc_def qcaps_def)
  qed
qed

subsection \<open>Any interleaving\<close>

text \<open>
  What happens to the port: the handler is taken, a byte is put, a byte is taken. Every order of
  these steps is a run.
\<close>

datatype UartEvent = Irq bool u32 u8 | Put u8 | Got u8

inductive uart_exec :: "Uart \<Rightarrow> UartEvent list \<Rightarrow> Uart \<Rightarrow> bool" where
  stay: "uart_exec u [] u"
| irq: "uart_exec u es u1 \<Longrightarrow> k70UartInterrupt run s c u1 = Some (e, u2) \<Longrightarrow> uart_exec u (es @ [Irq run s c]) u2"
| put: "uart_exec u es u1 \<Longrightarrow> tryPutc c u1 = Some (Some (), u2) \<Longrightarrow> uart_exec u (es @ [Put c]) u2"
| got: "uart_exec u es u1 \<Longrightarrow> tryGetc u1 = Some (Some c, u2) \<Longrightarrow> uart_exec u (es @ [Got c]) u2"


definition puts :: "UartEvent list \<Rightarrow> u8 list" where
  "puts es = concat (map (\<lambda>e. case e of Put c \<Rightarrow> [c] | _ \<Rightarrow> []) es)"

definition gots :: "UartEvent list \<Rightarrow> u8 list" where
  "gots es = concat (map (\<lambda>e. case e of Got c \<Rightarrow> [c] | _ \<Rightarrow> []) es)"

definition arrived :: "UartEvent list \<Rightarrow> u8 list" where
  "arrived es = concat (map (\<lambda>e. case e of Irq _ _ c \<Rightarrow> [if c = 0x04 then 0 else c] | _ \<Rightarrow> []) es)"

lemma events_snoc [simp]:
  "puts (es @ [Irq run s c]) = puts es" "gots (es @ [Irq run s c]) = gots es"
  "arrived (es @ [Irq run s c]) = arrived es @ [if c = 0x04 then 0 else c]"
  "puts (es @ [Put c]) = puts es @ [c]" "gots (es @ [Put c]) = gots es" "arrived (es @ [Put c]) = arrived es"
  "puts (es @ [Got c]) = puts es" "gots (es @ [Got c]) = gots es @ [c]" "arrived (es @ [Got c]) = arrived es"
  "puts [] = []" "gots [] = []" "arrived [] = []"
  by (simp_all add: puts_def gots_def arrived_def)

lemma uart_exec_inv:
  assumes "uart_exec u es u'" "uart_inv u"
  shows "uart_inv u' \<and> qcaps u' = qcaps u \<and> outgoing u' = outgoing u @ puts es \<and>
    (\<exists>kept. subseq kept (arrived es) \<and> incoming u @ kept = gots es @ incoming u')"
  using assms
proof (induction rule: uart_exec.induct)
  case (stay u)
  then show ?case by (auto intro: exI [of _ "[]"])
next
  case (irq u es u1 run s c e u2)
  obtain kept where k: "subseq kept (arrived es)" "incoming u @ kept = gots es @ incoming u1" using irq by blast
  have step: "uart_inv u2" "outgoing u2 = outgoing u1" "qcaps u2 = qcaps u1"
    "incoming u2 = incoming u1 \<or> incoming u2 = incoming u1 @ [if c = 0x04 then 0 else c]"
    using k70UartInterrupt_ok [of u1 run s c] irq by auto
  define b where "b = (if c = 0x04 then 0 else c)"
  have "subseq kept (arrived es @ [b])" "subseq (kept @ [b]) (arrived es @ [b])" using k(1) by auto
  moreover have "incoming u @ kept = gots es @ incoming u2 \<or> incoming u @ kept @ [b] = gots es @ incoming u2"
    using k(2) step(4) unfolding b_def by (metis append_assoc)
  ultimately show ?case using irq step(1-3) unfolding events_snoc b_def [symmetric] by metis
next
  case (put u es u1 c u2)
  then show ?case using tryPutc_ok [of u1 c] by auto
next
  case (got u es u1 c u2)
  then show ?case using tryGetc_ok [of u1] by auto
qed


subsection \<open>Waiting\<close>

text \<open>A byte is put at once or after the next interrupt that finds the transmitter free.\<close>

definition sender_free :: "uart_irq \<Rightarrow> bool" where
  "sender_free i = (case i of None \<Rightarrow> False | Some (s, c) \<Rightarrow> s AND UART_S1_TDRE_MASK \<noteq> 0)"

lemma k70UartPutc_ok:
  assumes inv: "uart_inv u" and cap: "0 < snd (qcaps u)" and irqs: "is \<noteq> []" "\<forall>i \<in> set is. sender_free i"
  shows "\<exists>e is' u'. k70UartPutc c run is u = Some ((), e, is', u') \<and> uart_inv u' \<and> qcaps u' = qcaps u \<and>
           outgoing u' = outgoing u @ [c] \<and> (is' = is \<or> is' = tl is)"
proof -
  obtain i js where list: "is = i # js" using irqs(1) by (cases "is") auto
  obtain r u1 where t: "tryPutc c u = Some (r, u1)" "uart_inv u1" "qcaps u1 = qcaps u"
    "case r of Some _ \<Rightarrow> outgoing u1 = outgoing u @ [c] | None \<Rightarrow> u1 = u \<and> length (fifoP_items (outQ u)) = snd (qcaps u)"
    using tryPutc_ok [OF inv, of c] by blast
  show ?thesis
  proof (cases r)
    case Some
    then show ?thesis using t list by (simp add: k70UartPutc_def)
  next
    case None
    obtain s d where i: "i = Some (s, d)" "s AND UART_S1_TDRE_MASK \<noteq> 0"
      using irqs(2) list by (auto simp: sender_free_def split: option.splits)
    obtain e u2 where h: "k70UartInterrupt run s d u = Some (e, u2)" "uart_inv u2" "outgoing u2 = outgoing u" "qcaps u2 = qcaps u"
      "fifoP_items (outQ u2) = tl (fifoP_items (outQ u))"
      using k70UartInterrupt_ok [OF inv, of run s d] i(2) by auto
    have room: "length (fifoP_items (outQ u2)) < snd (qcaps u2)" using None t(4) h(4,5) cap by simp
    obtain r' u3 where t': "tryPutc c u2 = Some (r', u3)" "uart_inv u3" "qcaps u3 = qcaps u2"
      "case r' of Some _ \<Rightarrow> outgoing u3 = outgoing u2 @ [c] | None \<Rightarrow> u3 = u2 \<and> length (fifoP_items (outQ u2)) = snd (qcaps u2)"
      using tryPutc_ok [OF h(2), of c] by blast
    then have r': "r' = Some ()" using room by (cases r') auto
    have "waitUart (tryPutc c) run js u2 = Some ((), [], js, u3)" using t'(1) r' by (cases js) simp_all
    then show ?thesis using t t' h list i None r' by (simp add: k70UartPutc_def uartIrq_def)
  qed
qed

text \<open>A byte that has arrived is taken without waiting.\<close>

lemma k70UartGetc_ok:
  assumes inv: "uart_inv u" and c: "incoming u = c # cs"
  shows "\<exists>u'. k70UartGetc run is u = Some (c, [], is, u') \<and> uart_inv u' \<and> incoming u' = cs \<and> outgoing u' = outgoing u \<and>
           qcaps u' = qcaps u"
proof -
  obtain r u1 where t: "tryGetc u = Some (r, u1)" "uart_inv u1" "outgoing u1 = outgoing u" "qcaps u1 = qcaps u"
    "case r of Some c \<Rightarrow> incoming u = c # incoming u1 | None \<Rightarrow> incoming u = [] \<and> u1 = u"
    using tryGetc_ok [OF inv] by blast
  have "r = Some c" "incoming u1 = cs" using t(5) c by (cases r; simp)+
  then show ?thesis using t by (cases "is") (simp_all add: k70UartGetc_def)
qed

subsection \<open>The divisor\<close>

text \<open>The divisor in the registers.\<close>

definition sbr :: "Uart \<Rightarrow> nat" where
  "sbr u = unat (ubdh u AND 0x1f) * 256 + unat (ubdl u)"


text \<open>The masks, as remainders.\<close>

lemma and_mask_nat: "unat (w AND 0xff) = unat w mod 256" "unat (w AND 3) = unat w mod 4" for w :: u16
proof -
  have "w AND mask 8 = take_bit 8 w" "w AND mask 2 = take_bit 2 w" by (simp_all add: take_bit_eq_mask)
  then show "unat (w AND 0xff) = unat w mod 256" "unat (w AND 3) = unat w mod 4"
    by (simp_all add: mask_eq_exp_minus_1 take_bit_eq_mod unat_mod)
qed

lemma kept_high_bits: "unat (ucast (drop_bit 8 (w AND 1000)) AND 0x1f :: u8) = unat w div 256 mod 4" for w :: u16
proof -
  have "drop_bit 8 (1000 :: u16) = 3" by (simp add: drop_bit_eq_div)
  then have "drop_bit 8 (w AND 1000) = drop_bit 8 w AND 3" by (simp only: drop_bit_and)
  then have n: "unat (drop_bit 8 (w AND 1000)) = unat w div 256 mod 4"
    by (simp add: and_mask_nat drop_bit_eq_div unat_div)
  have u: "unat (ucast (drop_bit 8 (w AND 1000)) :: u8) = unat w div 256 mod 4"
    using n by (simp add: unsigned_ucast_eq take_bit_eq_mod mod_less)
  have "(ucast (drop_bit 8 (w AND 1000)) :: u8) AND 0x1f = take_bit 5 (ucast (drop_bit 8 (w AND 1000)))"
    by (simp add: take_bit_eq_mask mask_eq_exp_minus_1)
  then show ?thesis using u by (simp add: take_bit_eq_mod unat_mod)
qed

lemma k70UartBaud_ok:
  assumes "uclock u \<noteq> 0" "baud \<noteq> 0" "unat baud < 2 ^ 28"
  shows "\<exists>u'. k70UartBaud baud u = Some (Inr u') \<and> ubaud u' = baud \<and>
           sbr u' = unat (uclock u) div (16 * unat baud) mod 1024"
proof -
  have "unat (baud * 16) = unat baud * 16" using assms(3) by (subst unat_mult_small) simp_all
  then have nz: "baud * 16 \<noteq> 0" using assms(2) by (metis mult_is_0 unat_0 unat_eq_zero zero_neq_numeral)
  define w where "w = (ucast (uclock u div baud div 16) :: u16)"
  have w: "unat w = unat (uclock u) div (16 * unat baud) mod 65536"
    by (simp add: w_def unsigned_ucast_eq take_bit_eq_mod unat_div div_mult2_eq mult.commute)
  have low: "unat (ucast (w AND 0xff) :: u8) = unat w mod 256"
    by (simp add: unsigned_ucast_eq take_bit_eq_mod and_mask_nat)
  have high: "((ubdh u AND NOT 0x1f) OR (x AND 0x1f)) AND 0x1f = x AND 0x1f" for x :: u8
    by (simp add: bit.conj_disj_distrib2 and.assoc)
  have parts: "(n div 256 mod 4) * 256 + n mod 256 = n mod 1024" for n :: nat
    using mod_mult2_eq [of n 256 4] by (simp add: mult.commute)
  have "sbr u' = unat w mod 1024"
    if "ubdh u' = (ubdh u AND NOT 0x1f) OR (ucast (drop_bit 8 (w AND 1000)) AND 0x1f)" "ubdl u' = ucast (w AND 0xff)" for u'
    unfolding sbr_def that high low kept_high_bits by (rule parts)
  moreover have "n mod 65536 mod 1024 = n mod 1024" for n :: nat by (simp add: mod_mod_cancel)
  ultimately show ?thesis
    using assms nz unfolding k70UartBaud_def Let_def w_def [symmetric] by (simp add: w)
qed

end
