(* ===== verification/DevUart.thy ===== *)
theory DevUart
  imports UartHw DevBase Fmt
begin

text \<open>
  The serial port device (\<open>src/src/dev/devuart.c\<close>) and the commands that set a port up
  (\<open>src/src/sys/uartctl.c\<close>). Its namespace is built at reset, from the ports the drivers report.
\<close>

subsection \<open>Port commands\<close>

text \<open>The memory from a command on; the scan for the end of a command does not stop at the NUL.\<close>

fun skipWord :: "string \<Rightarrow> string option" where
  "skipWord [] = None"
| "skipWord (c # s) = (if c = CHR '' '' \<or> c = CHR 0x09 then Some (c # s) else skipWord s)"

lemma skipWord_length: "skipWord s = Some r \<Longrightarrow> length r \<le> length s"
  by (induction s) (auto split: if_splits)

fun parseCmds :: "nat \<Rightarrow> string \<Rightarrow> string list option" where
  "parseCmds 0 s = Some []"
| "parseCmds (Suc n) [] = None"
| "parseCmds (Suc n) (c # s) =
     (if c = CHR 0x00 \<or> c = CHR 0x0A then Some []
      else if c = CHR '' '' \<or> c = CHR 0x09 then parseCmds (Suc n) s
      else do { rest \<leftarrow> skipWord (c # s); cs \<leftarrow> parseCmds n rest; Some ((c # s) # cs) })"

text \<open>The commands in turn, until one fails; what they did before stays.\<close>

fun runCmds :: "string list \<Rightarrow> Uart \<Rightarrow> (errno option \<times> Uart) option" where
  "runCmds [] u = Some (None, u)"
| "runCmds (s # ss) u =
     do {
       arg \<leftarrow> atoi (tl s);
       r \<leftarrow> (if hd s = CHR ''B'' \<or> hd s = CHR ''b'' then k70UartBaud (of_int arg) u
             else if hd s = CHR ''L'' \<or> hd s = CHR ''l'' then Some (k70UartBits arg u)
             else Some (Inr u));
       case r of Inl e \<Rightarrow> Some (Some e, u) | Inr u' \<Rightarrow> runCmds ss u'
     }"

definition sysuartctl :: "string \<Rightarrow> Uart \<Rightarrow> (errno option \<times> Uart) option" where
  "sysuartctl s u = do { cs \<leftarrow> parseCmds 2 s; runCmds cs u }"

subsection \<open>State\<close>

text \<open>
  \<open>uplugged\<close> is what each driver of \<open>uartHardwareTable\<close> reports, \<open>umalloc\<close> the allocator, \<open>ulits\<close> the
  memory from a string literal on. \<open>uirqs\<close> are the interrupts to come while a process waits, and
  \<open>uposted\<close> what those taken so far did to the kernel.
\<close>

record UartDev =
  uplugged :: "Uart list list"
  uarts :: "Uart list"
  uartSNS :: "StaticNS list option"
  umalloc :: "u32 \<Rightarrow> u8 list option"
  ulits :: "string \<Rightarrow> string"
  urunning :: bool
  uirqs :: "uart_irq list"
  uposted :: "UartEffect list"

abbreviation "UartCtlFile \<equiv> (0 :: u32)"
abbreviation "UartStatusFile \<equiv> (1 :: u32)"
abbreviation "UartDataFile \<equiv> (2 :: u32)"

subsection \<open>Starting\<close>

definition enableUart :: "(string \<Rightarrow> string) \<Rightarrow> Uart \<Rightarrow> Uart option" where
  "enableUart lits u =
     do {
       let u1 = k70UartEnable u;
       u2 \<leftarrow> (if ubits u1 = 0 then do { (_, v) \<leftarrow> sysuartctl (lits ''l8'') u1; Some v } else Some u1);
       u3 \<leftarrow> (if ubaud u2 = 0 then do { (_, v) \<leftarrow> sysuartctl (lits ''b115200'') u2; Some v } else Some u2);
       Some (u3\<lparr>uenabled := 1\<rparr>)
     }"

definition disableUart :: "Uart \<Rightarrow> Uart" where
  "disableUart u = k70UartDisable u"

text \<open>A name formatted into a node of the new block, which holds what the block held.\<close>

definition formatName :: "u8 list \<Rightarrow> nat \<Rightarrow> string \<Rightarrow> string \<Rightarrow> string option" where
  "formatName bytes i fmt nm =
     (let buf = map chr8 (drop (sizeof_StaticNS * i) bytes) in
      if CHR 0x00 \<notin> set buf then None
      else do { (_, buf') \<leftarrow> fmtSprintf buf fmt [StrArg nm]; Some (cstr buf') })"

fun uartRows :: "u8 list \<Rightarrow> nat \<Rightarrow> Uart list \<Rightarrow> StaticNS list option" where
  "uartRows bytes i [] = Some []"
| "uartRows bytes i (u # us) =
     do {
       ctl \<leftarrow> formatName bytes (i * 3 + 2) ''%s_ctl'' (uhwname u);
       st \<leftarrow> formatName bytes (i * 3 + 3) ''%s_status'' (uhwname u);
       rest \<leftarrow> uartRows bytes (Suc i) us;
       Some (nsRow (uhwname u) 0 (of_nat (i * 3 + 1)) CRUMB_ISFILE UartDataFile M0666 (HwContents i) #
             nsRow ctl 0 (of_nat (i * 3 + 2)) CRUMB_ISFILE UartCtlFile M0666 (HwContents i) #
             nsRow st 0 (of_nat (i * 3 + 3)) CRUMB_ISFILE UartStatusFile M0444 (HwContents i) # rest)
     }"

definition resetUart :: "mem \<Rightarrow> UartDev \<Rightarrow> UartDev option" where
  "resetUart m w =
     do {
       (us, n) \<leftarrow> plugChains (uplugged w) False (uarts w);
       bytes \<leftarrow> umalloc w (of_nat ((2 + 3 * n) * sizeof_StaticNS));
       rows \<leftarrow> uartRows bytes 0 (take n us);
       Some (w\<lparr>uarts := us,
               uartSNS := Some (flatNS rows)\<rparr>)
     }"

definition powerUart :: "int \<Rightarrow> UartDev \<Rightarrow> UartDev option" where
  "powerUart onoff w = Some (w\<lparr>uarts := map (k70UartPower (umalloc w) onoff) (uarts w)\<rparr>)"

fun enableAll :: "(string \<Rightarrow> string) \<Rightarrow> Uart list \<Rightarrow> Uart list option" where
  "enableAll lits [] = Some []"
| "enableAll lits (u # us) =
     do { u' \<leftarrow> (if uconsole u \<noteq> 0 then enableUart lits u else Some u); us' \<leftarrow> enableAll lits us; Some (u' # us') }"

definition initUart :: "mem \<Rightarrow> UartDev \<Rightarrow> UartDev option" where
  "initUart m w = do { us \<leftarrow> enableAll (ulits w) (uarts w); Some (w\<lparr>uarts := us\<rparr>) }"

subsection \<open>Files\<close>

definition attachUart :: "mem \<Rightarrow> string \<Rightarrow> UartDev \<Rightarrow> (Portal \<times> UartDev) option" where
  "attachUart m path w =
     do { p \<leftarrow> attachDev m DEV_DEVUART path; ns \<leftarrow> uartSNS w; e \<leftarrow> nsAt ns 0; Some (p\<lparr>pcrumb := scrumb e\<rparr>, w) }"

definition walkUart :: "mem \<Rightarrow> Portal \<Rightarrow> string list \<Rightarrow> UartDev \<Rightarrow> (WalkTrail \<times> errno) reply option" where
  "walkUart m p path w = genericWalk (avail m) (stk m) p path (\<lambda>p d ni. getNodeInfoStaticNS p (uartSNS w) d ni)"

definition openUart :: "Portal \<Rightarrow> u32 \<Rightarrow> UartDev \<Rightarrow> (Portal reply \<times> UartDev) option" where
  "openUart p caps w = Some (Inr (openDev p caps), w)"

definition getInfoUart :: "mem \<Rightarrow> Portal \<Rightarrow> UartDev \<Rightarrow> NodeInfo reply option" where
  "getInfoUart m p w = getNodeInfoStaticNS p (uartSNS w) WalkSelf (snd (stk m))"

text \<open>The port a node links to; a link that is not to a port of the chain is a bad pointer.\<close>

definition portOf :: "UartDev \<Rightarrow> NodeInfo \<Rightarrow> (nat \<times> Uart) option" where
  "portOf w ni =
     (case ni_contents ni of HwContents i \<Rightarrow> if i < length (uarts w) then Some (i, uarts w ! i) else None | _ \<Rightarrow> None)"

text \<open>The local node of \<open>closeUart\<close>, which the lookup fills.\<close>

definition blankNode :: NodeInfo where
  "blankNode = \<lparr>ni_name = [], ni_crumb = \<lparr>cflags = 0, fid = 0\<rparr>, ni_device = 0, ni_mode = 0, ni_atime = 0, ni_mtime = 0,
     ni_length = 0, ni_contents = NoContents\<rparr>"

definition closeUart :: "Portal \<Rightarrow> UartDev \<Rightarrow> UartDev option" where
  "closeUart p w =
     (if cflags (pcrumb p) AND CRUMB_ISDIR \<noteq> 0 then Some w
      else do {
        r \<leftarrow> getNodeInfoStaticNS p (uartSNS w) WalkSelf blankNode;
        case r of
          Inl e \<Rightarrow> Some w
        | Inr ni \<Rightarrow>
            if ni_length ni = UartCtlFile \<or> ni_length ni = UartDataFile
            then do { (i, u) \<leftarrow> portOf w ni; Some (w\<lparr>uarts := (uarts w)[i := disableUart u]\<rparr>) }
            else Some w
      })"

text \<open>The loops over the bytes of a read and of a write.\<close>

fun getcs :: "nat \<Rightarrow> bool \<Rightarrow> uart_irq list \<Rightarrow> Uart \<Rightarrow> (string \<times> UartEffect list \<times> uart_irq list \<times> Uart) option" where
  "getcs 0 run is u = Some ([], [], is, u)"
| "getcs (Suc n) run is u =
     do {
       (c, e, is1, u1) \<leftarrow> k70UartGetc run is u;
       (cs, e', is2, u2) \<leftarrow> getcs n run is1 u1;
       Some (chr8 c # cs, e @ e', is2, u2)
     }"

fun putcs :: "u8 list \<Rightarrow> bool \<Rightarrow> uart_irq list \<Rightarrow> Uart \<Rightarrow> (UartEffect list \<times> uart_irq list \<times> Uart) option" where
  "putcs [] run is u = Some ([], is, u)"
| "putcs (c # cs) run is u =
     do {
       (_, e, is1, u1) \<leftarrow> (if uconsole u \<noteq> 0 \<and> c = 0x0A then k70UartPutc 0x0D run is u else Some ((), [], is, u));
       (_, e1, is2, u2) \<leftarrow> k70UartPutc c run is1 u1;
       (e2, is3, u3) \<leftarrow> putcs cs run is2 u2;
       Some (e @ e1 @ e2, is3, u3)
     }"

definition setPort :: "nat \<Rightarrow> Uart \<Rightarrow> UartEffect list \<Rightarrow> uart_irq list \<Rightarrow> UartDev \<Rightarrow> UartDev" where
  "setPort i u e is w = w\<lparr>uarts := (uarts w)[i := u], uirqs := is, uposted := uposted w @ e\<rparr>"

definition readUart :: "mem \<Rightarrow> Portal \<Rightarrow> u32 \<Rightarrow> u32 \<Rightarrow> UartDev \<Rightarrow> ((u32 \<times> string) reply \<times> Portal \<times> UartDev) option" where
  "readUart m p sz offset w =
     (if sz = 0 then Some (Inr (0, []), p, w)
      else if cflags (pcrumb p) AND CRUMB_ISDIR \<noteq> 0 then
        do { ns \<leftarrow> uartSNS w; readDirStatic ns m p sz offset w }
      else do {
        r \<leftarrow> getInfoUart m p w;
        case r of
          Inl e \<Rightarrow> Some (Inl ENODEV, p, w)
        | Inr ni \<Rightarrow>
            if ni_length ni = UartDataFile then
              do { (i, u) \<leftarrow> portOf w ni;
                   (cs, e, is, u') \<leftarrow> getcs (unat sz) (urunning w) (uirqs w) u;
                   Some (Inr (sz, cs), p, setPort i u' e is w) }
            else Some (Inl EINVAL, p, w)
      })"

definition writeUart :: "mem \<Rightarrow> Portal \<Rightarrow> string \<Rightarrow> u32 \<Rightarrow> u32 \<Rightarrow> UartDev \<Rightarrow> (u32 reply \<times> Portal \<times> UartDev) option" where
  "writeUart m p buf sz offset w =
     (if sz = 0 then Some (Inr 0, p, w)
      else if cflags (pcrumb p) AND CRUMB_ISDIR \<noteq> 0 then Some (Inl EPERM, p, w)
      else do {
        r \<leftarrow> getInfoUart m p w;
        case r of
          Inl e \<Rightarrow> Some (Inl ENODEV, p, w)
        | Inr ni \<Rightarrow>
            if ni_length ni = UartDataFile then
              do { (i, u) \<leftarrow> portOf w ni;
                   if length buf < unat sz then None
                   else do {
                     (e, is, u') \<leftarrow> putcs (map ord8 (take (unat sz) buf)) (urunning w) (uirqs w) u;
                     Some (Inr sz, p, setPort i u' e is w)
                   } }
            else Some (Inl EINVAL, p, w)
      })"

definition devUart :: "UartDev Dev" where
  "devUart =
     \<lparr>dev_id = DEV_DEVUART, dev_name = ''uart'', dev_power = powerUart, dev_init = initUart, dev_reset = resetUart,
      dev_shutdown = shutdownDev, dev_attach = attachUart, dev_walk = walkUart, dev_create = createDev,
      dev_open = openUart, dev_close = closeUart, dev_remove = removeDev, dev_getInfo = getInfoUart,
      dev_setInfo = setInfoDev, dev_read = readUart, dev_write = writeUart\<rparr>"


subsection \<open>The namespace after a reset\<close>

text \<open>A device whose namespace is in place.\<close>

definition uart_ok :: "UartDev \<Rightarrow> bool" where
  "uart_ok w = (case uartSNS w of None \<Rightarrow> False | Some ns \<Rightarrow> sns_wf ns)"

lemma uartRows_rows:
  "uartRows bytes i us = Some rows \<Longrightarrow> length rows = 3 * length us \<and>
     (\<forall>j < length rows. scrumb (rows ! j) = MKSTATICNS_CRUMB 0 (of_nat (i * 3 + j + 1)) CRUMB_ISFILE)"
proof (induction us arbitrary: i rows)
  case (Cons u us)
  obtain ctl st rest where r: "uartRows bytes (Suc i) us = Some rest"
    "rows = nsRow (uhwname u) 0 (of_nat (i * 3 + 1)) CRUMB_ISFILE UartDataFile M0666 (HwContents i) #
             nsRow ctl 0 (of_nat (i * 3 + 2)) CRUMB_ISFILE UartCtlFile M0666 (HwContents i) #
             nsRow st 0 (of_nat (i * 3 + 3)) CRUMB_ISFILE UartStatusFile M0444 (HwContents i) # rest"
    using Cons.prems by (auto simp: bind_eq_Some_conv)
  note ih = Cons.IH [OF r(1)]
  have "scrumb (rows ! j) = MKSTATICNS_CRUMB 0 (of_nat (i * 3 + j + 1)) CRUMB_ISFILE" if j: "j < length rows" for j
  proof -
    consider "j = 0" | "j = 1" | "j = 2" | k where "j = Suc (Suc (Suc k))"
      by (metis One_nat_def numeral_2_eq_2 old.nat.exhaust)
    then show ?thesis
    proof cases
      case (4 k)
      then show ?thesis using ih j r(2) by (simp add: algebra_simps)
    qed (simp_all add: r(2) algebra_simps)
  qed
  then show ?case using ih r(2) by simp
qed simp

lemma resetUart_ok:
  assumes "resetUart m w = Some w'" "concat (uplugged w) \<noteq> []" "3 * length (concat (uplugged w)) < 0xffe" "uarts w = []"
  shows "uart_ok w' \<and> uarts w' = concat (uplugged w)"
proof -
  define us where "us = concat (uplugged w)"
  obtain bytes rows where r: "uartRows bytes 0 us = Some rows" "w' = w\<lparr>uarts := us, uartSNS := Some (flatNS rows)\<rparr>"
    using assms(1,4) plugChains_count [of "uplugged w" False "[]"]
    by (auto simp: resetUart_def us_def bind_eq_Some_conv)
  have rows: "length rows = 3 * length us" "\<forall>j < length rows. scrumb (rows ! j) = MKSTATICNS_CRUMB 0 (of_nat (j + 1)) CRUMB_ISFILE"
    using uartRows_rows [OF r(1)] by simp_all
  have "sns_wf (flatNS rows)" by (rule flatNS_wf [OF rows(2)]) (use rows(1) assms(2,3) us_def in auto)
  then show ?thesis using r(2) by (simp add: uart_ok_def us_def)
qed

interpretation uart: static_device devUart uart_ok "\<lambda>w. the (uartSNS w)" "\<lambda>_. 0"
proof
  fix w assume ok: "uart_ok w"
  then obtain ns where ns: "uartSNS w = Some ns" "sns_wf ns" by (auto simp: uart_ok_def split: option.splits)
  show "sns_wf (the (uartSNS w))" using ns by simp
  show "(0 :: nat) < nodes (the (uartSNS w))" by (rule sns_wfD(2)) (use ns in simp)
  show "\<exists>p. dev_attach devUart m path w = Some (p, w) \<and> pdevice p = fromDeviceId (dev_id devUart) \<and>
      pcrumb p = scrumb (the (uartSNS w) ! 0)" if "avail m 24" for m path
    using ns that sns_wfD(2) [OF ns(2)] by (simp add: devUart_def attachUart_def attachDev_def mkPortal_def)
  show "dev_walk devUart m p names w = walkStatic (the (uartSNS w)) m p names" for m p names
    using ns by (simp add: devUart_def walkUart_def walkStatic_def)
  show "dev_getInfo devUart m p w = Some (Inr (nodeInfo p (the (uartSNS w) ! i)))"
    if "i < nodes (the (uartSNS w))" "pcrumb p = scrumb (the (uartSNS w) ! i)" for i m p
    using selfInfo_node [of ns i p m] ns that by (simp add: devUart_def getInfoUart_def selfInfo_def)
qed (simp add: devUart_def openUart_def)

subsection \<open>Reading and writing\<close>

lemma in_set_tl: "x \<in> set (tl xs) \<Longrightarrow> x \<in> set xs"
  by (cases xs) auto

lemma uartTransmit_console: "uartTransmit s u = Some u' \<Longrightarrow> uconsole u' = uconsole u"
  by (auto simp: uartTransmit_def bind_eq_Some_conv Let_def split: if_splits)

lemma k70UartInterrupt_console: "k70UartInterrupt run s c u = Some (e, u') \<Longrightarrow> uconsole u' = uconsole u"
  by (auto simp: k70UartInterrupt_def uartReceive_def bind_eq_Some_conv dest!: uartTransmit_console split: if_splits)

lemma waitUart_console:
  assumes "\<And>u r u'. f u = Some (r, u') \<Longrightarrow> uconsole u' = uconsole u"
  shows "waitUart f run is u = Some (x, e, is', u') \<Longrightarrow> uconsole u' = uconsole u"
proof (induction "is" arbitrary: u e)
  case (Cons i js)
  then show ?case
    using assms by (fastforce simp: bind_eq_Some_conv uartIrq_def dest!: k70UartInterrupt_console split: option.splits)
qed (use assms in \<open>auto simp: bind_eq_Some_conv\<close>)

lemma k70UartPutc_console: "k70UartPutc c run is u = Some (x, e, is', u') \<Longrightarrow> uconsole u' = uconsole u"
  unfolding k70UartPutc_def
  by (erule waitUart_console [rotated]) (auto simp: tryPutc_def bind_eq_Some_conv split: if_splits)

text \<open>What is written to the port: before a line feed of the console comes a carriage return.\<close>

definition onlcr :: "bool \<Rightarrow> u8 list \<Rightarrow> u8 list" where
  "onlcr con cs = concat (map (\<lambda>c. if con \<and> c = 0x0A then [0x0D, c] else [c]) cs)"

lemma putcs_ok:
  assumes "uart_inv u" "0 < snd (qcaps u)" "2 * length cs < length is" "\<forall>i \<in> set is. sender_free i"
  shows "\<exists>e is' u'. putcs cs run is u = Some (e, is', u') \<and> uart_inv u' \<and> qcaps u' = qcaps u \<and>
           outgoing u' = outgoing u @ onlcr (uconsole u \<noteq> 0) cs"
  using assms
proof (induction cs arbitrary: u "is")
  case (Cons c cs)
  have cr: "\<exists>e is1 u1. (if uconsole u \<noteq> 0 \<and> c = 0x0A then k70UartPutc 0x0D run is u else Some ((), [], is, u)) = Some ((), e, is1, u1) \<and>
      uart_inv u1 \<and> qcaps u1 = qcaps u \<and> uconsole u1 = uconsole u \<and> (is1 = is \<or> is1 = tl is) \<and>
      outgoing u1 = outgoing u @ (if uconsole u \<noteq> 0 \<and> c = 0x0A then [0x0D] else [])"
    using k70UartPutc_ok [OF Cons.prems(1,2), of "is" "0x0D" run] Cons.prems
    by (fastforce dest: k70UartPutc_console)
  obtain e is1 u1 where u1: "(if uconsole u \<noteq> 0 \<and> c = 0x0A then k70UartPutc 0x0D run is u else Some ((), [], is, u)) = Some ((), e, is1, u1)"
      "uart_inv u1" "qcaps u1 = qcaps u" "uconsole u1 = uconsole u" "is1 = is \<or> is1 = tl is"
      "outgoing u1 = outgoing u @ (if uconsole u \<noteq> 0 \<and> c = 0x0A then [0x0D] else [])"
    using cr by blast
  have l1: "length is \<le> length is1 + 1" "set is1 \<subseteq> set is" using u1(5) by (auto dest: in_set_tl)
  have i1: "is1 \<noteq> []" "\<forall>i \<in> set is1. sender_free i" using l1 Cons.prems(3,4) by auto
  obtain e1 is2 u2 where u2: "k70UartPutc c run is1 u1 = Some ((), e1, is2, u2)" "uart_inv u2" "qcaps u2 = qcaps u1"
    "outgoing u2 = outgoing u1 @ [c]" "is2 = is1 \<or> is2 = tl is1"
    using k70UartPutc_ok [OF u1(2) _ i1] u1(3) Cons.prems(2) by metis
  have l2: "length is1 \<le> length is2 + 1" "set is2 \<subseteq> set is1" using u2(5) by (auto dest: in_set_tl)
  have con: "uconsole u2 = uconsole u" using k70UartPutc_console [OF u2(1)] u1(4) by simp
  have next_cap: "0 < snd (qcaps u2)" using u2(3) u1(3) Cons.prems(2) by simp
  have next_irqs: "2 * length cs < length is2"
    using l1(1) l2(1) Cons.prems(3) by simp
  have next_free: "\<forall>i \<in> set is2. sender_free i" using l1(2) l2(2) Cons.prems(4) by blast
  obtain e2 is3 u3 where "putcs cs run is2 u2 = Some (e2, is3, u3)" "uart_inv u3" "qcaps u3 = qcaps u2"
    "outgoing u3 = outgoing u2 @ onlcr (uconsole u2 \<noteq> 0) cs"
    using Cons.IH [OF u2(2) next_cap next_irqs next_free] by blast
  then show ?case using u1(1,3,6) u2(1,3,4) con unfolding putcs.simps by (auto simp: onlcr_def)
qed (auto simp: onlcr_def)

lemma getcs_ok:
  "uart_inv u \<Longrightarrow> n \<le> length (incoming u) \<Longrightarrow>
   \<exists>u'. getcs n run is u = Some (map chr8 (take n (incoming u)), [], is, u') \<and> uart_inv u' \<and> incoming u' = drop n (incoming u)"
proof (induction n arbitrary: u)
  case (Suc n)
  then obtain c cs where c: "incoming u = c # cs" by (cases "incoming u") auto
  obtain u1 where "k70UartGetc run is u = Some (c, [], is, u1)" "uart_inv u1" "incoming u1 = cs"
    using k70UartGetc_ok [OF Suc.prems(1) c] by blast
  then show ?case using Suc.IH [of u1] Suc.prems(2) c by auto
qed simp


subsection \<open>Properties\<close>

text \<open>A port for the examples: queues of two bytes, with one byte on its way out.\<close>

definition exQ :: "u8 list \<Rightarrow> FifoQ" where
  "exQ cs = \<lparr>isEmpty = (cs = []), readOffset = 0, writeOffset = of_nat (length cs), qsize = 2, qbuf = cs @ replicate (2 - length cs) 0\<rparr>"

definition exUart :: Uart where
  "exUart = \<lparr>uhwname = ''k70Uart'', uclock = 60000000, ubaud = 115200, ubits = 8, inQ = Some (exQ []), outQ = Some (exQ [0x61]),
     uenabled = 1, uconsole = 1, ubdh = 0, ubdl = 32, uc1 = 0, uc2 = 0xAC, uc4 = 17, txd = [], uregs = \<lambda>_. 0,
     unvic = \<lparr>iser = \<lambda>_. 0, ip = \<lambda>_. 0\<rparr>\<rparr>"

lemma exUart_facts:
  "uart_inv exUart" "outgoing exUart = [0x61]" "incoming exUart = []" "qcaps exUart = (2, 2)" "uconsole exUart = 1" "txd exUart = []"
  by (simp_all add: uart_inv_def exUart_def exQ_def fifoP_defs fifo_inv_def contents_def used_def ring_def outgoing_def
      incoming_def qcaps_def)





text \<open>
  The divisor that setting the speed leaves in the registers has only its low ten bits: the mask for
  its high bits is \<open>1000\<close> in decimal. With a clock of 60 MHz a speed below 3663 is not what was asked for.
\<close>

theorem k70UartBaud_divisor:
  assumes "uclock u \<noteq> 0" "baud \<noteq> 0" "unat baud < 2 ^ 28"
  shows "\<exists>u'. k70UartBaud baud u = Some (Inr u') \<and> ubaud u' = baud \<and>
           sbr u' = unat (uclock u) div (16 * unat baud) mod 1024"
  by (rule k70UartBaud_ok [OF assms])

theorem k70UartBaud_divisor_witness:
  "\<exists>u'. k70UartBaud 1200 exUart = Some (Inr u') \<and> ubaud u' = 1200 \<and> sbr u' = 53 \<and> (60000000 :: nat) div (16 * 1200) = 3125"
proof -
  have "uclock exUart = 60000000" by (simp add: exUart_def)
  then show ?thesis using k70UartBaud_divisor [of exUart 1200] by auto
qed

text \<open>
  The commands of a port are read past the end of their string: what follows it in memory up to two
  words further on is executed as well. After \<open>l8\<close> the memory may hold another command.
\<close>

theorem sysuartctl_reads_past_end:
  assumes "CHR '' '' \<notin> set rest" "CHR 0x09 \<notin> set rest"
  shows "sysuartctl (''l8'' @ [CHR 0x00] @ rest @ '' '' @ cmd) u =
     do { cs \<leftarrow> parseCmds 1 ('' '' @ cmd); runCmds cs (u\<lparr>uc1 := 0, ubits := 8\<rparr>) }"
proof -
  have skip: "CHR '' '' \<notin> set s \<and> CHR 0x09 \<notin> set s \<Longrightarrow> skipWord (s @ '' '' @ cmd) = Some ('' '' @ cmd)" for s
    by (induction s) auto
  have "skipWord ((''l8'' @ [CHR 0x00] @ rest) @ '' '' @ cmd) = Some ('' '' @ cmd)" by (rule skip) (use assms in auto)
  then have "parseCmds 2 (''l8'' @ [CHR 0x00] @ rest @ '' '' @ cmd) =
      do { cs \<leftarrow> parseCmds 1 ('' '' @ cmd); Some ((''l8'' @ [CHR 0x00] @ rest @ '' '' @ cmd) # cs) }"
    by (simp add: numeral_2_eq_2)
  moreover have "atoi (''8'' @ [CHR 0x00] @ x) = Some 8" for x
    by (simp add: atoi_def isSpace_def isDigit_def digitsVal_def cint_def)
  ultimately show ?thesis by (simp add: sysuartctl_def k70UartBits_def)
qed

theorem sysuartctl_reads_past_end_witness:
  "\<exists>u'. sysuartctl (''l8'' @ [CHR 0x00] @ ''%s'' @ '' '' @ ''b300 '') exUart = Some (None, u') \<and> ubaud u' = 300"
proof -
  have "uclock (exUart\<lparr>uc1 := 0, ubits := 8\<rparr>) \<noteq> 0" by (simp add: exUart_def)
  then obtain u' where u': "k70UartBaud 300 (exUart\<lparr>uc1 := 0, ubits := 8\<rparr>) = Some (Inr u')" "ubaud u' = 300"
    using k70UartBaud_ok [of "exUart\<lparr>uc1 := 0, ubits := 8\<rparr>" 300] by auto
  have "parseCmds 1 ('' '' @ ''b300 '') = Some [''b300 '']" by (simp add: One_nat_def)
  moreover have "atoi ''300 '' = Some 300" by (simp add: atoi_def isSpace_def isDigit_def digitsVal_def cint_def)
  ultimately show ?thesis
    using sysuartctl_reads_past_end [of "''%s''" "''b300 ''" exUart] u' by simp
qed

end
