(* ===== verification/TimerHw.thy ===== *)
theory TimerHw
  imports HwRegs
begin

text \<open>
  The timer drivers (\<open>src/src/dev/arch/k70/timer.c\<close>): the flexible timer, which ticks the clock every
  millisecond, and the programmable delay block, which looks for alarms that are due. Both work on the
  shared registers, through the structure that names theirs.
\<close>

subsection \<open>State\<close>

record TimerControl =
  timerScgc :: string
  timerSc :: string
  timerCount :: string
  timerMod :: string
  timerMode :: "string option"
  timerIdr :: "string option"
  timerSim :: string
  timerScgcMask :: u32
  timerModeMask :: u32
  timerSimMask :: u32
  timerIRQ :: u32
  timerPriority :: u8

datatype TimerKind = FlexTimer | DelayBlock

record AlarmChain =
  wakeTime :: u64
  apid :: int

text \<open>
  \<open>thw\<close> tells which table of operations the timer has. The list of alarms is the chain behind its head,
  in order, and \<open>None\<close> while the head holds no links.
\<close>

record Timer =
  tcontrol :: TimerControl
  tname :: string
  thwname :: string
  tclock :: u32
  tpsd :: u32
  tmod :: u32
  talarms :: "AlarmChain list option"
  tmsecs :: u64
  thw :: TimerKind

definition k70Control :: "TimerKind \<Rightarrow> TimerControl" where
  "k70Control k =
     (case k of
        FlexTimer \<Rightarrow>
          \<lparr>timerScgc = ''SIM_SCGC6'', timerSc = ''FTM0_SC'', timerCount = ''FTM0_CNT'', timerMod = ''FTM0_MOD'',
           timerMode = Some ''FTM0_MODE'', timerIdr = None, timerSim = ''SIM_SOPT4'', timerScgcMask = 0x1000000,
           timerModeMask = 0x4, timerSimMask = 0x1000000, timerIRQ = NVIC_IRQ_FTM0,
           timerPriority = MANOS_ARCH_K70_TIMER_PRIORITY\<rparr>
      | DelayBlock \<Rightarrow>
          \<lparr>timerScgc = ''SIM_SCGC6'', timerSc = ''PDB0_SC'', timerCount = ''PDB0_CNT'', timerMod = ''PDB0_MOD'',
           timerMode = None, timerIdr = Some ''PDB0_IDLY'', timerSim = ''SIM_CLKDIV1'', timerScgcMask = 0x400000,
           timerModeMask = 0, timerSimMask = 0xF000000, timerIRQ = NVIC_IRQ_PDB,
           timerPriority = MANOS_ARCH_K70_TIMER_PRIORITY\<rparr>)"

definition k70Timer :: "Timer list" where
  "k70Timer =
     [\<lparr>tcontrol = k70Control FlexTimer, tname = ''k70FTM0'', thwname = ''k70Timer'', tclock = 1, tpsd = 5, tmod = 1875,
       talarms = None, tmsecs = 0, thw = FlexTimer\<rparr>,
      \<lparr>tcontrol = k70Control DelayBlock, tname = ''k70PDB0'', thwname = ''k70MilliTimer'', tclock = 0, tpsd = 6, tmod = 937,
       talarms = None, tmsecs = 0, thw = DelayBlock\<rparr>]"

abbreviation "PDB_SC_LDOK_MASK \<equiv> (0x1 :: u32)"
abbreviation "PDB_SC_CONT_MASK \<equiv> (0x2 :: u32)"
abbreviation "PDB_SC_PDBIE_MASK \<equiv> (0x20 :: u32)"
abbreviation "PDB_SC_PDBIF_MASK \<equiv> (0x40 :: u32)"
abbreviation "PDB_SC_PDBEN_MASK \<equiv> (0x80 :: u32)"
abbreviation "PDB_SC_SWTRIG_MASK \<equiv> (0x10000 :: u32)"
abbreviation "FTM_SC_TOIE_MASK \<equiv> (0x40 :: u32)"

subsection \<open>The delay block\<close>

definition k70PDBClear :: "Timer \<Rightarrow> regs \<Rightarrow> regs" where
  "k70PDBClear t = clearReg (timerSc (tcontrol t)) PDB_SC_PDBIF_MASK"

definition k70PDBStart :: "Timer \<Rightarrow> regs \<Rightarrow> regs" where
  "k70PDBStart t h =
     orReg (timerSc (tcontrol t)) PDB_SC_CONT_MASK
       (orReg (timerSc (tcontrol t)) PDB_SC_SWTRIG_MASK (orReg (timerSc (tcontrol t)) PDB_SC_PDBEN_MASK h))"

definition k70PDBStop :: "Timer \<Rightarrow> regs \<Rightarrow> regs" where
  "k70PDBStop t = clearReg (timerSc (tcontrol t)) PDB_SC_PDBEN_MASK"

definition k70PDBReset :: "Timer \<Rightarrow> regs \<Rightarrow> regs option" where
  "k70PDBReset t h =
     do { idr \<leftarrow> timerIdr (tcontrol t);
          Some (setReg idr (tmod t) (setReg (timerMod (tcontrol t)) (tmod t) (setReg (timerCount (tcontrol t)) 0 h))) }"

definition k70PDBDisable :: "Timer \<Rightarrow> regs \<Rightarrow> regs" where
  "k70PDBDisable t = setReg (timerSc (tcontrol t)) 0"

definition k70PDBPower :: "Timer \<Rightarrow> int \<Rightarrow> regs \<times> Nvic \<Rightarrow> (regs \<times> Nvic) option" where
  "k70PDBPower t onoff hn =
     (if onoff = 1 then
        (case hn of (h, n) \<Rightarrow>
           (let c = tcontrol t in
            do {
              h1 \<leftarrow> k70PDBReset t (k70PDBDisable t (orReg (timerScgc c) (timerScgcMask c) h));
              Some (setReg (timerSc c)
                      (field 12 0x7000 (tpsd t) OR field 8 0xF00 15 OR PDB_SC_PDBIE_MASK OR field 2 0xC 0
                         OR PDB_SC_LDOK_MASK OR PDB_SC_PDBEN_MASK) h1,
                    enableNvicIrq (timerIRQ c) (timerPriority c) n)
            }))
      else Some hn)"

subsection \<open>The flexible timer\<close>

definition k70TimerStart :: "Timer \<Rightarrow> regs \<Rightarrow> regs" where
  "k70TimerStart t = setReg (timerSc (tcontrol t)) (FTM_SC_TOIE_MASK OR field 3 0x18 (tclock t) OR field 0 0x7 (tpsd t))"

definition k70TimerStop :: "Timer \<Rightarrow> regs \<Rightarrow> regs" where
  "k70TimerStop t = setReg (timerSc (tcontrol t)) (FTM_SC_TOIE_MASK OR field 3 0x18 0 OR field 0 0x7 (tpsd t))"

definition k70TimerReset :: "Timer \<Rightarrow> regs \<Rightarrow> regs" where
  "k70TimerReset t h = setReg (timerMod (tcontrol t)) (tmod t) (setReg (timerCount (tcontrol t)) 0 h)"

text \<open>The status register is only read.\<close>

definition k70TimerDisable :: "Timer \<Rightarrow> regs \<Rightarrow> regs" where
  "k70TimerDisable t h = h"

definition k70TimerPower :: "Timer \<Rightarrow> int \<Rightarrow> regs \<times> Nvic \<Rightarrow> (regs \<times> Nvic) option" where
  "k70TimerPower t onoff hn =
     (if onoff = 1 then
        (case hn of (h, n) \<Rightarrow>
           (let c = tcontrol t;
                h1 = setReg (timerSc c) 0 (k70TimerDisable t (orReg (timerScgc c) (timerScgcMask c) h)) in
            do {
              mode \<leftarrow> timerMode c;
              let h2 = clearReg (timerSim c) (timerSimMask c) (setReg mode (timerModeMask c) h1);
              Some (k70TimerReset t (k70TimerStop t h2), enableNvicIrq (timerIRQ c) (timerPriority c) n)
            }))
      else Some hn)"

subsection \<open>The tables of operations\<close>

text \<open>The flexible timer has no \<open>clear\<close>: calling it follows a null pointer.\<close>

definition hwPower :: "Timer \<Rightarrow> int \<Rightarrow> regs \<times> Nvic \<Rightarrow> (regs \<times> Nvic) option" where
  "hwPower t onoff hn = (case thw t of FlexTimer \<Rightarrow> k70TimerPower t onoff hn | DelayBlock \<Rightarrow> k70PDBPower t onoff hn)"

definition hwStart :: "Timer \<Rightarrow> regs \<Rightarrow> regs" where
  "hwStart t = (case thw t of FlexTimer \<Rightarrow> k70TimerStart t | DelayBlock \<Rightarrow> k70PDBStart t)"

definition hwStop :: "Timer \<Rightarrow> regs \<Rightarrow> regs" where
  "hwStop t = (case thw t of FlexTimer \<Rightarrow> k70TimerStop t | DelayBlock \<Rightarrow> k70PDBStop t)"

definition hwDisable :: "Timer \<Rightarrow> regs \<Rightarrow> regs" where
  "hwDisable t = (case thw t of FlexTimer \<Rightarrow> k70TimerDisable t | DelayBlock \<Rightarrow> k70PDBDisable t)"

definition hwClear :: "Timer \<Rightarrow> regs \<Rightarrow> regs option" where
  "hwClear t h = (case thw t of FlexTimer \<Rightarrow> None | DelayBlock \<Rightarrow> Some (k70PDBClear t h))"

end
