(* ===== verification/DevTimer.thy ===== *)
theory DevTimer
  imports TimerHw DevBase ProcProps
begin

text \<open>
  The timer device (\<open>src/src/dev/devtimer.c\<close>): the clock's file, and the file that takes alarms; and
  the two interrupt handlers that serve them (\<open>src/src/boot/arch/k70/toieHandler.c\<close>,
  \<open>src/src/boot/arch/k70/pdbHandler.c\<close>).
\<close>

subsection \<open>State\<close>

text \<open>
  \<open>tplugged\<close> is what each driver of \<open>timerHardwareTable\<close> reports; \<open>tpid\<close> the identifier of the running
  process, 0 without one; \<open>tstack\<close> what the uninitialised local buffer of a write holds.
\<close>

record TimerDev =
  tplugged :: "Timer list list"
  timers :: "Timer list"
  timerSNS :: "StaticNS list option"
  tmem :: "u32 \<Rightarrow> bool"
  tregs :: regs
  tnvic :: Nvic
  systime :: u64
  tpid :: int
  tstack :: "u8 list"
  timerInterruptCount :: u64
  pdbInterruptCount :: u64

subsection \<open>Starting\<close>

fun timerRows :: "nat \<Rightarrow> Timer list \<Rightarrow> StaticNS list" where
  "timerRows i [] = []"
| "timerRows i (t # ts) =
     nsRow (thwname t) 0 (of_nat (i + 1)) CRUMB_ISFILE 8 M0666 (HwContents i) # timerRows (Suc i) ts"

definition resetTimer :: "mem \<Rightarrow> TimerDev \<Rightarrow> TimerDev option" where
  "resetTimer m w =
     do {
       (ts, n) \<leftarrow> plugChains (tplugged w) False (timers w);
       if tmem w (of_nat ((2 + 2 * n) * sizeof_StaticNS))
       then Some (w\<lparr>timers := ts, timerSNS := Some (flatNS (timerRows 0 (take n ts)))\<rparr>)
       else None
     }"

fun powerAll :: "int \<Rightarrow> Timer list \<Rightarrow> regs \<times> Nvic \<Rightarrow> (Timer list \<times> regs \<times> Nvic) option" where
  "powerAll onoff [] hn = Some ([], hn)"
| "powerAll onoff (t # ts) hn =
     do {
       let t' = t\<lparr>talarms := Some []\<rparr>;
       (h, n) \<leftarrow> hwPower t' onoff hn;
       (ts', hn') \<leftarrow> powerAll onoff ts (hwStart t' h, n);
       Some (t' # ts', hn')
     }"

definition powerTimer :: "int \<Rightarrow> TimerDev \<Rightarrow> TimerDev option" where
  "powerTimer onoff w =
     do { (ts, h, n) \<leftarrow> powerAll onoff (timers w) (tregs w, tnvic w);
          Some (w\<lparr>timers := ts, tregs := h, tnvic := n\<rparr>) }"

subsection \<open>Files\<close>

definition attachTimer :: "mem \<Rightarrow> string \<Rightarrow> TimerDev \<Rightarrow> (Portal \<times> TimerDev) option" where
  "attachTimer m path w =
     do { p \<leftarrow> attachDev m DEV_DEVTIMER path; ns \<leftarrow> timerSNS w; e \<leftarrow> nsAt ns 0; Some (p\<lparr>pcrumb := scrumb e\<rparr>, w) }"

definition walkTimer :: "mem \<Rightarrow> Portal \<Rightarrow> string list \<Rightarrow> TimerDev \<Rightarrow> (WalkTrail \<times> errno) reply option" where
  "walkTimer m p path w = genericWalk (avail m) (stk m) p path (\<lambda>p d ni. getNodeInfoStaticNS p (timerSNS w) d ni)"

definition openTimer :: "Portal \<Rightarrow> u32 \<Rightarrow> TimerDev \<Rightarrow> (Portal reply \<times> TimerDev) option" where
  "openTimer p caps w = Some (Inr (openDev p caps), w)"

definition closeTimer :: "Portal \<Rightarrow> TimerDev \<Rightarrow> TimerDev option" where
  "closeTimer p w = Some w"

definition getInfoTimer :: "mem \<Rightarrow> Portal \<Rightarrow> TimerDev \<Rightarrow> NodeInfo reply option" where
  "getInfoTimer m p w = getNodeInfoStaticNS p (timerSNS w) WalkSelf (snd (stk m))"

definition timerOf :: "TimerDev \<Rightarrow> NodeInfo \<Rightarrow> (nat \<times> Timer) option" where
  "timerOf w ni =
     (case ni_contents ni of HwContents i \<Rightarrow> if i < length (timers w) then Some (i, timers w ! i) else None | _ \<Rightarrow> None)"

text \<open>The bytes of the time, the lowest first; and the time of eight bytes.\<close>

definition msecBytes :: "u64 \<Rightarrow> u8 list" where
  "msecBytes v = map (\<lambda>i. ucast (drop_bit (8 * i) v)) [0..<8]"

definition bytesMsec :: "u8 list \<Rightarrow> u64" where
  "bytesMsec bs = foldr (\<lambda>b v. ucast b + v * 256) bs 0"

text \<open>The size of the read is not looked at: what is left of the eight bytes is copied.\<close>

definition readTimer :: "mem \<Rightarrow> Portal \<Rightarrow> u32 \<Rightarrow> u32 \<Rightarrow> TimerDev \<Rightarrow> ((u32 \<times> string) reply \<times> Portal \<times> TimerDev) option" where
  "readTimer m p sz offset w =
     (if sz = 0 then Some (Inr (0, []), p, w)
      else if cflags (pcrumb p) AND CRUMB_ISDIR \<noteq> 0 then
        do { ns \<leftarrow> timerSNS w; readDirStatic ns m p sz offset w }
      else do {
        r \<leftarrow> getInfoTimer m p w;
        case r of
          Inl e \<Rightarrow> Some (Inl ENODEV, p, w)
        | Inr ni \<Rightarrow>
            do {
              (i, t) \<leftarrow> timerOf w ni;
              if tname t = ''k70PDB0'' then Some (Inl EPERM, p, w)
              else if ni_length ni \<le> offset then Some (Inr (0, []), p, w)
              else (let bytes = ni_length ni - offset in
                    if unat offset + unat bytes \<le> 8
                    then Some (Inr (bytes, map chr8 (take (unat bytes) (drop (unat offset) (msecBytes (tmsecs t))))), p, w)
                    else None)
            }
      })"

definition setTimer :: "nat \<Rightarrow> Timer \<Rightarrow> TimerDev \<Rightarrow> TimerDev" where
  "setTimer i t w = w\<lparr>timers := (timers w)[i := t]\<rparr>"

text \<open>An alarm: its time is a number of milliseconds from now. More than eight bytes for the clock overrun the local buffer.\<close>

definition writeTimer :: "mem \<Rightarrow> Portal \<Rightarrow> string \<Rightarrow> u32 \<Rightarrow> u32 \<Rightarrow> TimerDev \<Rightarrow> (u32 reply \<times> Portal \<times> TimerDev) option" where
  "writeTimer m p buf sz offset w =
     (if sz = 0 then Some (Inr 0, p, w)
      else if cflags (pcrumb p) AND CRUMB_ISDIR \<noteq> 0 then Some (Inl EPERM, p, w)
      else do {
        r \<leftarrow> getInfoTimer m p w;
        case r of
          Inl e \<Rightarrow> Some (Inl ENODEV, p, w)
        | Inr ni \<Rightarrow>
            do {
              (i, t) \<leftarrow> timerOf w ni;
              if tname t = ''k70PDB0'' then
                (let n = (if 20 < sz then 20 else unat sz) in
                 if length buf < n \<or> \<not> tmem w 24 then None
                 else do {
                   alarms \<leftarrow> talarms t;
                   d \<leftarrow> atoi (cstr (take n buf));
                   Some (Inr 21, p, setTimer i (t\<lparr>talarms := Some (alarms @ [\<lparr>wakeTime = systime w + of_int d, apid = tpid w\<rparr>])\<rparr>) w)
                 })
              else
                (let bytes = (if 8 < sz then 8 else unat sz) in
                 if length buf < unat sz \<or> 8 < unat sz then None
                 else Some (Inr (of_nat bytes), p,
                            setTimer i (t\<lparr>tmsecs := bytesMsec (take (8 - bytes) (tstack w) @ map ord8 (take bytes buf))\<rparr>) w))
            }
      })"

definition devTimer :: "TimerDev Dev" where
  "devTimer =
     \<lparr>dev_id = DEV_DEVTIMER, dev_name = ''timer'', dev_power = powerTimer, dev_init = initDev, dev_reset = resetTimer,
      dev_shutdown = shutdownDev, dev_attach = attachTimer, dev_walk = walkTimer, dev_create = createDev,
      dev_open = openTimer, dev_close = closeTimer, dev_remove = removeDev, dev_getInfo = getInfoTimer,
      dev_setInfo = setInfoDev, dev_read = readTimer, dev_write = writeTimer\<rparr>"

subsection \<open>The interrupt handlers\<close>

definition toieHandler :: "TimerDev \<Rightarrow> TimerDev" where
  "toieHandler w =
     (let w1 = w\<lparr>timerInterruptCount := timerInterruptCount w + 1\<rparr> in
      case timers w1 of
        [] \<Rightarrow> w1
      | t # ts \<Rightarrow>
          w1\<lparr>tregs := hwStart t (hwDisable t (tregs w1)), timers := t\<lparr>tmsecs := tmsecs t + 1\<rparr> # ts,
             systime := systime w1 + 1\<rparr>)"

text \<open>The alarms that are due are signalled and taken out; the others stay, in order.\<close>

fun ringAlarms :: "u64 \<Rightarrow> AlarmChain list \<Rightarrow> Kern \<Rightarrow> (AlarmChain list \<times> Kern) option" where
  "ringAlarms now [] k = Some ([], k)"
| "ringAlarms now (a # as) k =
     (if wakeTime a \<le> now then do { k' \<leftarrow> syspostsignal (apid a) SigAlarm k; ringAlarms now as k' }
      else do { (as', k') \<leftarrow> ringAlarms now as k; Some (a # as', k') })"

definition pdbHandler :: "TimerDev \<Rightarrow> Kern \<Rightarrow> (TimerDev \<times> Kern) option" where
  "pdbHandler w k =
     (let w1 = w\<lparr>pdbInterruptCount := pdbInterruptCount w + 1\<rparr> in
      case timers w1 of
        [] \<Rightarrow> None
      | [_] \<Rightarrow> Some (w1, k)
      | _ # t # _ \<Rightarrow>
          do {
            h \<leftarrow> hwClear t (tregs w1);
            as \<leftarrow> talarms t;
            let w2 = w1\<lparr>tregs := h\<rparr>;
            if as = [] then Some (w2, k)
            else do {
              (as', k') \<leftarrow> ringAlarms (systime w2) as k;
              Some (setTimer 1 (t\<lparr>talarms := Some as'\<rparr>) (w2\<lparr>tregs := hwStart t (hwStop t h)\<rparr>), k')
            }
          })"

subsection \<open>The namespace after a reset\<close>

definition timer_ok :: "TimerDev \<Rightarrow> bool" where
  "timer_ok w = (case timerSNS w of None \<Rightarrow> False | Some ns \<Rightarrow> sns_wf ns)"

lemma timerRows_rows:
  "length (timerRows i ts) = length ts"
  "j < length ts \<Longrightarrow> timerRows i ts ! j = nsRow (thwname (ts ! j)) 0 (of_nat (i + j + 1)) CRUMB_ISFILE 8 M0666 (HwContents (i + j))"
proof (induction ts arbitrary: i j)
  case (Cons t ts)
  case 2
  then show ?case using Cons.IH(2) [of "j - 1" "Suc i"] by (cases j) (auto simp: add.commute)
qed simp_all

lemma resetTimer_ok:
  assumes "resetTimer m w = Some w'" "concat (tplugged w) \<noteq> []" "length (concat (tplugged w)) < 0xffe" "timers w = []"
  shows "timer_ok w' \<and> timers w' = concat (tplugged w)"
proof -
  define ts where "ts = concat (tplugged w)"
  have w': "w' = w\<lparr>timers := ts, timerSNS := Some (flatNS (timerRows 0 ts))\<rparr>"
    using assms(1,4) plugChains_count [of "tplugged w" False "[]"]
    by (auto simp: resetTimer_def ts_def bind_eq_Some_conv split: if_splits)
  have rows: "\<forall>i < length (timerRows 0 ts). scrumb (timerRows 0 ts ! i) = MKSTATICNS_CRUMB 0 (of_nat (i + 1)) CRUMB_ISFILE"
    by (simp add: timerRows_rows)
  have "timerRows 0 ts \<noteq> []" using assms(2) by (cases ts) (simp_all add: ts_def)
  moreover have "length (timerRows 0 ts) < 0xffe" using assms(3) by (simp add: timerRows_rows ts_def)
  ultimately have "sns_wf (flatNS (timerRows 0 ts))" by (rule flatNS_wf [OF rows])
  then show ?thesis using w' by (simp add: timer_ok_def ts_def)
qed

interpretation timer: static_device devTimer timer_ok "\<lambda>w. the (timerSNS w)" "\<lambda>_. 0"
proof
  fix w assume ok: "timer_ok w"
  then obtain ns where ns: "timerSNS w = Some ns" "sns_wf ns" by (auto simp: timer_ok_def split: option.splits)
  show "sns_wf (the (timerSNS w))" using ns by simp
  show "(0 :: nat) < nodes (the (timerSNS w))" by (rule sns_wfD(2)) (use ns in simp)
  show "\<exists>p. dev_attach devTimer m path w = Some (p, w) \<and> pdevice p = fromDeviceId (dev_id devTimer) \<and>
      pcrumb p = scrumb (the (timerSNS w) ! 0)" if "avail m 24" for m path
    using ns that sns_wfD(2) [OF ns(2)] by (simp add: devTimer_def attachTimer_def attachDev_def mkPortal_def)
  show "dev_walk devTimer m p names w = walkStatic (the (timerSNS w)) m p names" for m p names
    using ns by (simp add: devTimer_def walkTimer_def walkStatic_def)
  show "dev_getInfo devTimer m p w = Some (Inr (nodeInfo p (the (timerSNS w) ! i)))"
    if "i < nodes (the (timerSNS w))" "pcrumb p = scrumb (the (timerSNS w) ! i)" for i m p
    using selfInfo_node [of ns i p m] ns that by (simp add: devTimer_def getInfoTimer_def selfInfo_def)
qed (simp add: devTimer_def openTimer_def)

subsection \<open>Alarms\<close>

text \<open>The clock after some ticks.\<close>

lemma toieHandler_tick:
  assumes "timers w = t # ts"
  shows "timers (toieHandler w) = t\<lparr>tmsecs := tmsecs t + 1\<rparr> # ts" "systime (toieHandler w) = systime w + 1"
  using assms by (simp_all add: toieHandler_def Let_def)

lemma ticks:
  assumes "timers w = t # ts"
  shows "\<exists>t'. timers ((toieHandler ^^ n) w) = t' # ts \<and> systime ((toieHandler ^^ n) w) = systime w + of_nat n \<and>
           tmsecs t' = tmsecs t + of_nat n"
proof (induction n)
  case (Suc n)
  then obtain t' where "timers ((toieHandler ^^ n) w) = t' # ts" "systime ((toieHandler ^^ n) w) = systime w + of_nat n"
    "tmsecs t' = tmsecs t + of_nat n" by blast
  then show ?case using toieHandler_tick [of "(toieHandler ^^ n) w"] by simp
qed (use assms in simp)

text \<open>A process that an alarm names exists.\<close>

definition reachable :: "Kern \<Rightarrow> int \<Rightarrow> bool" where
  "reachable k p \<longleftrightarrow> p < 0 \<or> int MANOS_MAXPROC < p \<or> p < int MANOS_MAXPROC \<and> procTable k (nat p) \<noteq> None"

definition posted :: "int \<Rightarrow> Kern \<Rightarrow> Kern" where
  "posted p k =
     (if p < 0 \<or> int MANOS_MAXPROC < p then k
      else upd (the (procTable k (nat p))) (\<lambda>q. q\<lparr>sigPending := sigPending q OR (SigAlarm AND NOT (sigMask q))\<rparr>) k)"

lemma syspostsignal_posted: "syspostsignal p SigAlarm k = (if reachable k p then Some (posted p k) else None)"
  by (auto simp: syspostsignal_def posted_def reachable_def tableAt_def bind_eq_Some_conv split: option.splits)

lemma posted_table [simp]: "procTable (posted p k) = procTable k" "reachable (posted p k) q = reachable k q"
  by (simp_all add: posted_def upd_def reachable_def)

lemma ringAlarms_due:
  "\<forall>a \<in> set as. wakeTime a \<le> now \<longrightarrow> reachable k (apid a) \<Longrightarrow>
   ringAlarms now as k =
     Some (filter (\<lambda>a. \<not> wakeTime a \<le> now) as, fold posted (map apid (filter (\<lambda>a. wakeTime a \<le> now) as)) k)"
  by (induction as arbitrary: k) (auto simp: syspostsignal_posted)

lemma ringAlarms_gone:
  "\<exists>a \<in> set as. wakeTime a \<le> now \<and> \<not> reachable k (apid a) \<Longrightarrow> ringAlarms now as k = None"
proof (induction as arbitrary: k)
  case (Cons a as)
  show ?case
  proof (cases "wakeTime a \<le> now \<and> \<not> reachable k (apid a)")
    case False
    then have "\<exists>b \<in> set as. wakeTime b \<le> now \<and> \<not> reachable k (apid b)" using Cons.prems by auto
    then show ?thesis using Cons.IH [of k] Cons.IH [of "posted (apid a) k"] by (auto simp: syspostsignal_posted)
  qed (simp add: syspostsignal_posted)
qed simp

text \<open>What the handler of the delay block does, with its timer in place.\<close>

lemma pdbHandler_rings:
  assumes "timers w = t0 # t # ts" "thw t = DelayBlock" "talarms t = Some as"
    and "\<forall>a \<in> set as. wakeTime a \<le> systime w \<longrightarrow> reachable k (apid a)"
  shows "\<exists>w'. pdbHandler w k = Some (w', fold posted (map apid (filter (\<lambda>a. wakeTime a \<le> systime w) as)) k) \<and>
           timers w' = t0 # t\<lparr>talarms := Some (filter (\<lambda>a. \<not> wakeTime a \<le> systime w) as)\<rparr> # ts"
proof (cases "as = []")
  case True
  then show ?thesis using assms by (simp add: pdbHandler_def hwClear_def Let_def)
next
  case False
  then show ?thesis using assms ringAlarms_due [OF assms(4)] by (simp add: pdbHandler_def hwClear_def Let_def setTimer_def)
qed

lemma pdbHandler_gone:
  assumes "timers w = t0 # t # ts" "thw t = DelayBlock" "talarms t = Some as"
    and "\<exists>a \<in> set as. wakeTime a \<le> systime w \<and> \<not> reachable k (apid a)"
  shows "pdbHandler w k = None"
  using assms ringAlarms_gone [OF assms(4)] by (auto simp: pdbHandler_def hwClear_def Let_def)


text \<open>A write that reports the size of the alarm's buffer has added an alarm.\<close>

lemma writeTimer_alarm:
  assumes run: "writeTimer m p buf sz offset w = Some (Inr 21, p', w')"
  shows "\<exists>i t as d. i < length (timers w) \<and> t = timers w ! i \<and> tname t = ''k70PDB0'' \<and> talarms t = Some as \<and>
           atoi (cstr (take (if 20 < sz then 20 else unat sz) buf)) = Some d \<and>
           w' = setTimer i (t\<lparr>talarms := Some (as @ [\<lparr>wakeTime = systime w + of_int d, apid = tpid w\<rparr>])\<rparr>) w"
proof -
  have fits: "sz \<noteq> 0" "cflags (pcrumb p) AND CRUMB_ISDIR = 0" using run by (auto simp: writeTimer_def split: if_splits)
  obtain r where r: "getInfoTimer m p w = Some r" using run fits by (auto simp: writeTimer_def bind_eq_Some_conv)
  obtain ni where ni: "r = Inr ni" using run fits r by (cases r) (auto simp: writeTimer_def)
  obtain i t where t: "timerOf w ni = Some (i, t)" using run fits r ni by (auto simp: writeTimer_def bind_eq_Some_conv)
  have at: "i < length (timers w)" "t = timers w ! i" using t by (auto simp: timerOf_def split: contents.splits if_splits)
  have pdb: "tname t = ''k70PDB0''"
  proof (rule ccontr)
    assume "tname t \<noteq> ''k70PDB0''"
    then have "(21 :: u32) = of_nat (if 8 < sz then 8 else unat sz)" "unat sz \<le> 8"
      using run fits r ni t by (auto simp: writeTimer_def Let_def split: if_splits)
    then show False by (auto simp: word_less_nat_alt split: if_splits)
  qed
  show ?thesis
    using run fits r ni t at pdb by (auto simp: writeTimer_def Let_def bind_eq_Some_conv split: if_splits)
qed

subsection \<open>Properties\<close>

text \<open>The timers of the board after they are switched on, and a portal at one of their files.\<close>

definition exTimers :: TimerDev where
  "exTimers = \<lparr>tplugged = [k70Timer, []], timers = map (\<lambda>t. t\<lparr>talarms := Some []\<rparr>) k70Timer,
     timerSNS = Some (flatNS (timerRows 0 k70Timer)), tmem = (\<lambda>_. True), tregs = (\<lambda>_. 0),
     tnvic = \<lparr>iser = \<lambda>_. 0, ip = \<lambda>_. 0\<rparr>, systime = 1000, tpid = 3, tstack = replicate 8 0,
     timerInterruptCount = 0, pdbInterruptCount = 0\<rparr>"

definition exTimerPortal :: "nat \<Rightarrow> Portal" where
  "exTimerPortal i = \<lparr>pdevice = 6, pflags = 1, pcrumb = scrumb (flatNS (timerRows 0 k70Timer) ! i), pcaps = 1, poffset = 0\<rparr>"

lemma exTimers_ok: "timer_ok exTimers"
  using resetTimer_ok [of undefined "exTimers\<lparr>timers := [], timerSNS := None\<rparr>"
      "exTimers\<lparr>timers := k70Timer, timerSNS := Some (flatNS (timerRows 0 k70Timer))\<rparr>"]
  by (simp add: resetTimer_def exTimers_def timer_ok_def k70Timer_def)

lemma exTimer_node:
  assumes "i \<in> {1, 2}"
  shows "getInfoTimer m (exTimerPortal i) exTimers = Some (Inr (nodeInfo (exTimerPortal i) (flatNS (timerRows 0 k70Timer) ! i)))"
    "cflags (pcrumb (exTimerPortal i)) AND CRUMB_ISDIR = 0"
    "timerOf exTimers (nodeInfo (exTimerPortal i) (flatNS (timerRows 0 k70Timer) ! i)) = Some (i - 1, timers exTimers ! (i - 1))"
    "ni_length (nodeInfo (exTimerPortal i) (flatNS (timerRows 0 k70Timer) ! i)) = 8"
proof -
  have sns: "timerSNS exTimers = Some (flatNS (timerRows 0 k70Timer))" by (simp add: exTimers_def)
  have wf: "sns_wf (flatNS (timerRows 0 k70Timer))" using exTimers_ok by (simp add: timer_ok_def sns)
  have i: "i < nodes (flatNS (timerRows 0 k70Timer))" using assms by (auto simp: nodes_def flatNS_def k70Timer_def)
  show "getInfoTimer m (exTimerPortal i) exTimers = Some (Inr (nodeInfo (exTimerPortal i) (flatNS (timerRows 0 k70Timer) ! i)))"
    using selfInfo_node [OF wf i, of "exTimerPortal i" m] by (simp add: exTimerPortal_def getInfoTimer_def selfInfo_def sns)
  show "cflags (pcrumb (exTimerPortal i)) AND CRUMB_ISDIR = 0"
    "timerOf exTimers (nodeInfo (exTimerPortal i) (flatNS (timerRows 0 k70Timer) ! i)) = Some (i - 1, timers exTimers ! (i - 1))"
    "ni_length (nodeInfo (exTimerPortal i) (flatNS (timerRows 0 k70Timer) ! i)) = 8"
    using assms by (auto simp: exTimerPortal_def flatNS_def k70Timer_def timerOf_def nodeInfo_def exTimers_def)
qed


text \<open>What the allocator and the stack hold in the examples, and the process that runs.\<close>

definition exMem :: mem where
  "exMem = \<lparr>avail = \<lambda>_. True, stk = (zeroPortal, nodeInfo zeroPortal nsEnd)\<rparr>"

abbreviation "exKern \<equiv> exampleKern (\<lambda>_. ProcWaiting)"

lemma exTimers_facts:
  "timers exTimers = [(hd k70Timer)\<lparr>talarms := Some []\<rparr>, (k70Timer ! 1)\<lparr>talarms := Some []\<rparr>]"
  "tname (hd k70Timer) = ''k70FTM0''" "tname (k70Timer ! 1) = ''k70PDB0''"
  "tname (k70Timer ! Suc 0) = ''k70PDB0''" "thw (k70Timer ! 1) = DelayBlock" "thw (k70Timer ! Suc 0) = DelayBlock"
  "tmsecs (hd k70Timer) = 0" "tmem exTimers s" "systime exTimers = 1000" "tpid exTimers = 3" "reachable exKern 3"
  by (simp_all add: exTimers_def k70Timer_def reachable_def exampleKern_def)

lemma write_alarm_example:
  "writeTimer exMem (exTimerPortal 2) ''250'' 3 0 exTimers =
     Some (Inr 21, exTimerPortal 2,
           setTimer 1 ((k70Timer ! 1)\<lparr>talarms := Some [\<lparr>wakeTime = 1250, apid = 3\<rparr>]\<rparr>) exTimers)"
proof -
  have "atoi (cstr (take 3 ''250'')) = Some 250"
    by (simp add: cstr_def atoi_def isSpace_def isDigit_def digitsVal_def cint_def)
  then show ?thesis
    using exTimer_node(1) [of 2 exMem] exTimer_node(2,3) [of 2] by (simp add: writeTimer_def exTimers_facts)
qed


text \<open>
  An alarm is not taken back when its process ends: when it is due and the identifier has no process,
  the handler dereferences the table's null entry.
\<close>

theorem pdbHandler_faults_on_dead_process:
  assumes "timers w = t0 # t # ts" "thw t = DelayBlock" "talarms t = Some as"
    and "\<exists>a \<in> set as. wakeTime a \<le> systime w \<and> \<not> reachable k (apid a)"
  shows "pdbHandler w k = None"
  by (rule pdbHandler_gone [OF assms])

theorem pdbHandler_faults_on_dead_process_witness:
  "pdbHandler (setTimer 1 ((k70Timer ! 1)\<lparr>talarms := Some [\<lparr>wakeTime = 900, apid = 9\<rparr>]\<rparr>) exTimers) exKern = None"
proof (rule pdbHandler_faults_on_dead_process)
  show "timers (setTimer 1 ((k70Timer ! 1)\<lparr>talarms := Some [\<lparr>wakeTime = 900, apid = 9\<rparr>]\<rparr>) exTimers) =
      (hd k70Timer)\<lparr>talarms := Some []\<rparr> # (k70Timer ! 1)\<lparr>talarms := Some [\<lparr>wakeTime = 900, apid = 9\<rparr>]\<rparr> # []"
    by (simp add: setTimer_def exTimers_facts)
  show "\<exists>a \<in> set [\<lparr>wakeTime = 900, apid = 9\<rparr>].
      wakeTime a \<le> systime (setTimer 1 ((k70Timer ! 1)\<lparr>talarms := Some [\<lparr>wakeTime = 900, apid = 9\<rparr>]\<rparr>) exTimers) \<and>
      \<not> reachable exKern (apid a)"
    by (rule bexI [of _ "\<lparr>wakeTime = 900, apid = 9\<rparr>"]) (simp_all add: exTimers_facts setTimer_def reachable_def exampleKern_def)
qed (simp_all add: exTimers_facts)

text \<open>
  Reading the clock copies what is left of its eight bytes whatever the size asked for: a read of one
  byte at the start overruns its buffer by seven.
\<close>

theorem readTimer_overruns:
  assumes "getInfoTimer m p w = Some (Inr ni)" "cflags (pcrumb p) AND CRUMB_ISDIR = 0" "timerOf w ni = Some (i, t)"
    and "tname t \<noteq> ''k70PDB0''" "ni_length ni = 8" "sz \<noteq> 0"
  shows "readTimer m p sz 0 w = Some (Inr (8, map chr8 (msecBytes (tmsecs t))), p, w)"
  using assms by (simp add: readTimer_def msecBytes_def)

theorem readTimer_overruns_witness:
  "readTimer exMem (exTimerPortal 1) 1 0 exTimers = Some (Inr (8, replicate 8 (CHR 0x00)), exTimerPortal 1, exTimers)"
proof -
  have "map chr8 (msecBytes 0) = replicate 8 (CHR 0x00)"
    by (simp add: msecBytes_def chr8_def map_replicate_const char_of_eq_iff)
  then show ?thesis
    using readTimer_overruns [OF exTimer_node(1) [of 1 exMem] exTimer_node(2) [of 1] exTimer_node(3) [of 1], of 1]
      exTimer_node(4) [of 1] by (simp add: exTimers_facts)
qed

end
