(* ===== verification/DevAdc.thy ===== *)
theory DevAdc
  imports HwRegs DevBase
begin

text \<open>
  The converter device (\<open>src/src/dev/devadc.c\<close>): raw readings of the potentiometer and of the
  temperature sensor. \<open>adcSample\<close> is what a conversion of a channel yields, \<open>None\<close> when the complete
  flag never comes and the driver waits for ever.
\<close>

record AdcDev =
  adcRegs :: regs
  adcSample :: "u32 \<Rightarrow> u32 option"

abbreviation "AdcPot \<equiv> (0x14 :: u32)"
abbreviation "AdcTemp \<equiv> (0x1a :: u32)"

definition initAdcHw :: "AdcDev \<Rightarrow> AdcDev" where
  "initAdcHw w =
     w\<lparr>adcRegs := setReg ''ADC1_SC3'' (0x4 OR field 0 0x3 0x3)
                    (setReg ''ADC1_CFG1'' (field 2 0xC 0x1) (orReg ''SIM_SCGC3'' 0x8000000 (adcRegs w)))\<rparr>"

definition readAdcHw :: "u32 \<Rightarrow> AdcDev \<Rightarrow> (u32 \<times> AdcDev) option" where
  "readAdcHw chan w =
     do { v \<leftarrow> adcSample w chan; Some (v, w\<lparr>adcRegs := setReg ''ADC1_SC1A'' chan (adcRegs w)\<rparr>) }"

definition readPotAdc :: "AdcDev \<Rightarrow> (u32 \<times> AdcDev) option" where
  "readPotAdc w = readAdcHw AdcPot w"

definition readTempAdc :: "AdcDev \<Rightarrow> (u32 \<times> AdcDev) option" where
  "readTempAdc w = readAdcHw AdcTemp w"

definition adcSNS :: "StaticNS list" where
  "adcSNS =
    [nsRow ''.''    STATICNS_SENTINEL 0 CRUMB_ISDIR 0 M0555 NoContents,
     nsRow ''pot''  0 1 CRUMB_ISFILE 0 M0444 NoContents,
     nsRow ''temp'' 0 2 CRUMB_ISFILE 0 M0444 NoContents,
     nsEnd]"

definition initAdc :: "mem \<Rightarrow> AdcDev \<Rightarrow> AdcDev option" where
  "initAdc m w = Some (initAdcHw w)"

definition attachAdc :: "mem \<Rightarrow> string \<Rightarrow> AdcDev \<Rightarrow> (Portal \<times> AdcDev) option" where
  "attachAdc m path w = attachStatic DEV_DEVADC adcSNS m path w"

definition walkAdc :: "mem \<Rightarrow> Portal \<Rightarrow> string list \<Rightarrow> AdcDev \<Rightarrow> (WalkTrail \<times> errno) reply option" where
  "walkAdc m p path w = walkStatic adcSNS m p path"

definition openAdc :: "Portal \<Rightarrow> u32 \<Rightarrow> AdcDev \<Rightarrow> (Portal reply \<times> AdcDev) option" where
  "openAdc p caps w = Some (Inr (openDev p caps), w)"

definition closeAdc :: "Portal \<Rightarrow> AdcDev \<Rightarrow> AdcDev option" where
  "closeAdc p w = Some w"

definition getInfoAdc :: "mem \<Rightarrow> Portal \<Rightarrow> AdcDev \<Rightarrow> NodeInfo reply option" where
  "getInfoAdc m p w = selfInfo adcSNS m p"

text \<open>The bytes of a word, the lowest first.\<close>

definition wordBytes :: "u32 \<Rightarrow> string" where
  "wordBytes v = map (\<lambda>i. chr8 (ucast (drop_bit (8 * i) v))) [0..<4]"

definition readAdc :: "mem \<Rightarrow> Portal \<Rightarrow> u32 \<Rightarrow> u32 \<Rightarrow> AdcDev \<Rightarrow> ((u32 \<times> string) reply \<times> Portal \<times> AdcDev) option" where
  "readAdc m p sz offset w =
     (if sz < 4 then Some (Inr (0, []), p, w)
      else if cflags (pcrumb p) AND CRUMB_ISDIR \<noteq> 0 then readDirStatic adcSNS m p sz offset w
      else
        (let f = unat (STATICNS_CRUMB_SELF_IDX (pcrumb p)) in
         if f = 1 \<or> f = 2 then
           do { (v, w') \<leftarrow> (if f = 1 then readPotAdc w else readTempAdc w);
                Some (Inr (4, wordBytes v), p\<lparr>poffset := poffset p + 4\<rparr>, w') }
         else Some (Inl ENODEV, p, w)))"

definition writeAdc :: "mem \<Rightarrow> Portal \<Rightarrow> string \<Rightarrow> u32 \<Rightarrow> u32 \<Rightarrow> AdcDev \<Rightarrow> (u32 reply \<times> Portal \<times> AdcDev) option" where
  "writeAdc m p buf sz offset w = writeDenied m p buf sz offset w"

definition devAdc :: "AdcDev Dev" where
  "devAdc =
     \<lparr>dev_id = DEV_DEVADC, dev_name = ''adc'', dev_power = powerDev, dev_init = initAdc, dev_reset = resetDev,
      dev_shutdown = shutdownDev, dev_attach = attachAdc, dev_walk = walkAdc, dev_create = createDev,
      dev_open = openAdc, dev_close = closeAdc, dev_remove = removeDev, dev_getInfo = getInfoAdc,
      dev_setInfo = setInfoDev, dev_read = readAdc, dev_write = writeAdc\<rparr>"

lemma adcSNS_wf: "sns_wf adcSNS"
proof (rule sns_wf_columns)
  show "sns_columns adcSNS [0xfff, 0, 0] [True, False, False]"
    by (simp add: sns_columns_def adcSNS_def fid_indices upt_from)
  show "columns_ok [0xfff, 0, 0] [True, False, False]"
    by (simp add: columns_ok_def upt_from)
qed

interpretation adc: static_device devAdc "\<lambda>_. True" "\<lambda>_. adcSNS" "\<lambda>_. 0"
proof
  show "sns_wf adcSNS" by (rule adcSNS_wf)
  show "(0 :: nat) < nodes adcSNS" by (rule sns_wfD(2)) (rule adcSNS_wf)
  show "\<exists>p. dev_attach devAdc m path w = Some (p, w) \<and> pdevice p = fromDeviceId (dev_id devAdc) \<and>
      pcrumb p = scrumb (adcSNS ! 0)" if "avail m 24" for m path w
    using attachStatic_root [OF adcSNS_wf that, of DEV_DEVADC path w] by (simp add: devAdc_def attachAdc_def)
  show "dev_getInfo devAdc m p w = Some (Inr (nodeInfo p (adcSNS ! i)))"
    if "i < nodes adcSNS" "pcrumb p = scrumb (adcSNS ! i)" for i m p w
    using selfInfo_node [OF adcSNS_wf that, of m] by (simp add: devAdc_def getInfoAdc_def)
qed (simp_all add: devAdc_def walkAdc_def openAdc_def)

end
