(* ===== verification/DevDev.thy ===== *)
theory DevDev
  imports DevLcd DateTime
begin

text \<open>
  The device of kernel services (\<open>src/src/dev/devdev.c\<close>): the date, messages to the console, and the
  counts of interrupts. It calls the rest of the kernel, the clock's file through the system calls
  among it; those calls are the fields of \<open>services\<close>, which \<open>Syscalls\<close> fills in.
\<close>

subsection \<open>State\<close>

text \<open>
  \<open>readClock\<close> opens the clock, reads its eight bytes and closes it again, giving the milliseconds;
  \<open>writeClock\<close> sets them and gives the result of the write; \<open>consolePuts\<close> is \<open>sysnputs\<close>; \<open>counts\<close> are
  the five counters in the order of \<open>intMap\<close>.
\<close>

record 'w services =
  readClock :: "'w \<Rightarrow> (u64 \<times> 'w) option"
  writeClock :: "u64 \<Rightarrow> 'w \<Rightarrow> (u32 reply \<times> 'w) option"
  consolePuts :: "string \<Rightarrow> 'w \<Rightarrow> 'w option"
  counts :: "'w \<Rightarrow> u64 list"

definition devdevSNS :: "StaticNS list" where
  "devdevSNS =
    [nsRow ''.''          STATICNS_SENTINEL 0 CRUMB_ISDIR 0 M0555 NoContents,
     nsRow ''date''       0 1 CRUMB_ISFILE 0 M0644 NoContents,
     nsRow ''kprint''     0 2 CRUMB_ISFILE 0 M0222 NoContents,
     nsRow ''interrupts'' 0 3 CRUMB_ISFILE 0 M0444 NoContents,
     nsEnd]"

subsection \<open>Operations\<close>

definition attachDevDev :: "mem \<Rightarrow> string \<Rightarrow> 'w \<Rightarrow> (Portal \<times> 'w) option" where
  "attachDevDev m path w =
     do {
       p \<leftarrow> attachDev m DEV_DEVDEV path;
       let i = (if path = ''date'' then 1 else if path = ''kprint'' then 2 else if path = ''interrupts'' then 3 else 0);
       e \<leftarrow> nsAt devdevSNS i;
       Some (p\<lparr>pcrumb := scrumb e\<rparr>, w)
     }"

definition walkDevDev :: "mem \<Rightarrow> Portal \<Rightarrow> string list \<Rightarrow> 'w \<Rightarrow> (WalkTrail \<times> errno) reply option" where
  "walkDevDev m p path w = walkStatic devdevSNS m p path"

definition openDevDev :: "Portal \<Rightarrow> u32 \<Rightarrow> 'w \<Rightarrow> (Portal reply \<times> 'w) option" where
  "openDevDev p caps w = Some (Inr (openDev p caps), w)"

definition closeDevDev :: "Portal \<Rightarrow> 'w \<Rightarrow> 'w option" where
  "closeDevDev p w = Some w"

definition getInfoDevDev :: "mem \<Rightarrow> Portal \<Rightarrow> 'w \<Rightarrow> NodeInfo reply option" where
  "getInfoDevDev m p w = selfInfo devdevSNS m p"

text \<open>The date's fields as the six words of the structure, in its order.\<close>

definition intBytes :: "int \<Rightarrow> string" where
  "intBytes x = map (\<lambda>i. chr8 (ucast (drop_bit (8 * i) (of_int x :: u32)))) [0..<4]"

definition dateBytes :: "Date \<Rightarrow> string" where
  "dateBytes d = concat (map intBytes [seconds d, minutes d, hours d, day d, month d, year d])"

definition readDate :: "'w services \<Rightarrow> 'w \<Rightarrow> (string \<times> 'w) option" where
  "readDate sv w = do { (msecs, w') \<leftarrow> readClock sv w; d \<leftarrow> secondsToDate (msecs div 1000); Some (dateBytes d, w') }"

abbreviation "sizeof_Date \<equiv> (24 :: u32)"
abbreviation "INT_MAP_SIZE \<equiv> (110 :: u32)"

definition intMapNames :: "string list" where
  "intMapNames = [''SVC'', ''TIMER'', ''PDB'', ''SYSTICK'', ''PENDSV'']"

definition intMapFmt :: string where
  "intMapFmt = ''%s:'' @ [CHR 0x09, CHR 0x09, CHR 0x09] @ ''%lld'' @ [CHR 0x0A]"

text \<open>The loop of \<open>readInterrupts\<close> over the counters: the buffer, the place in it and the bytes so far.\<close>

fun intLoop :: "(string \<times> u64) list \<Rightarrow> string \<Rightarrow> nat \<Rightarrow> (nat \<times> string) option" where
  "intLoop [] buf bytes = Some (bytes, buf)"
| "intLoop ((nm, n) # es) buf bytes =
     do {
       (k, buf') \<leftarrow> fmtSnprintf (drop bytes buf) (INT_MAP_SIZE - of_nat bytes) intMapFmt [StrArg nm, UIntArg (ucast n)];
       let buf'' = take bytes buf @ buf';
       if 0 < k then intLoop es buf'' (bytes + k) else Some (bytes, buf'')
     }"

text \<open>The local buffer has one byte more than the size; what it holds before is not read.\<close>

definition readInterrupts :: "u64 list \<Rightarrow> (nat \<times> string) option" where
  "readInterrupts ns =
     do {
       (bytes, buf) \<leftarrow> intLoop (zip intMapNames ns) (replicate 111 NUL) 0;
       if bytes < length buf then Some (bytes, buf[bytes := NUL]) else None
     }"

definition readDevDev :: "'w services \<Rightarrow> mem \<Rightarrow> Portal \<Rightarrow> u32 \<Rightarrow> u32 \<Rightarrow> 'w \<Rightarrow> ((u32 \<times> string) reply \<times> Portal \<times> 'w) option" where
  "readDevDev sv m p sz offset w =
     (if sz = 0 then Some (Inr (0, []), p, w)
      else if cflags (pcrumb p) AND CRUMB_ISDIR \<noteq> 0 then readDirStatic devdevSNS m p sz offset w
      else
        (let f = unat (STATICNS_CRUMB_SELF_IDX (pcrumb p)) in
         if f = 1 then
           (if sizeof_Date \<le> sz then do { (bs, w') \<leftarrow> readDate sv w; Some (Inr (sizeof_Date, bs), p, w') }
            else Some (Inr (0, []), p, w))
         else if f = 3 then
           do {
             (n, buf) \<leftarrow> readInterrupts (counts sv w);
             if unat offset < n then
               (let new = (if unat sz < n - unat offset then unat sz else n - unat offset)
                in Some (Inr (of_nat new, take new (drop (unat offset) buf)), p\<lparr>poffset := poffset p + of_nat new\<rparr>, w))
             else Some (Inr (0, []), p, w)
           }
         else Some (Inl EPERM, p, w)))"

text \<open>\<open>strtol\<close> of the C library with base 10, and the six numbers of a date: the rest of the text after them.\<close>

fun strtol10 :: "string \<Rightarrow> (int \<times> nat) option" where
  "strtol10 [] = None"
| "strtol10 (c # s) =
     (if isSpace c then do { (v, n) \<leftarrow> strtol10 s; Some (v, if n = 0 then 0 else Suc n) }
      else if c = CHR ''-'' \<or> c = CHR ''+'' then
        do { (v, n) \<leftarrow> strtolDigits 10 0 0 s;
             Some (if n = 0 then (0, 0) else (clampLong (if c = CHR ''-'' then - v else v), Suc n)) }
      else do { (v, n) \<leftarrow> strtolDigits 10 0 0 (c # s); Some (clampLong v, n) })"

text \<open>A number that is not there ends the loop; its field is 0.\<close>

fun dateParts :: "nat \<Rightarrow> string \<Rightarrow> nat \<Rightarrow> (int list \<times> nat) option" where
  "dateParts 0 s used = Some ([], used)"
| "dateParts (Suc k) s used =
     do {
       (v, n) \<leftarrow> strtol10 s;
       if n = 0 then Some (replicate (Suc k) 0, used)
       else do { (vs, u) \<leftarrow> dateParts k (drop n s) (used + n); Some (v # vs, u) }
     }"

definition writeDate :: "'w services \<Rightarrow> string \<Rightarrow> u32 \<Rightarrow> 'w \<Rightarrow> (u32 reply \<times> 'w) option" where
  "writeDate sv buf sz w =
     do {
       (vs, used) \<leftarrow> dateParts 6 buf 0;
       if unat sz < used then Some (Inr 0, w)
       else do {
         mo \<leftarrow> (if vs ! 1 \<noteq> 0 then cint (vs ! 1 - 1) else Some 0);
         dd \<leftarrow> (if vs ! 2 \<noteq> 0 then cint (vs ! 2 - 1) else Some 0);
         s \<leftarrow> dateToSeconds
           \<lparr>seconds = vs ! 5, minutes = vs ! 4, hours = vs ! 3, day = dd, month = mo, year = vs ! 0\<rparr>;
         writeClock sv (s * 1000) w
       }
     }"

definition writeDevDev :: "'w services \<Rightarrow> mem \<Rightarrow> Portal \<Rightarrow> string \<Rightarrow> u32 \<Rightarrow> u32 \<Rightarrow> 'w \<Rightarrow> (u32 reply \<times> Portal \<times> 'w) option" where
  "writeDevDev sv m p buf sz offset w =
     (if sz = 0 then Some (Inr 0, p, w)
      else if cflags (pcrumb p) AND CRUMB_ISDIR \<noteq> 0 then Some (Inl EPERM, p, w)
      else
        (let f = unat (STATICNS_CRUMB_SELF_IDX (pcrumb p)) in
         if f = 1 then do { (r, w') \<leftarrow> writeDate sv buf sz w; Some (r, p, w') }
         else if f = 2 then
           (if length buf < unat sz then None
            else do { w' \<leftarrow> consolePuts sv (take (unat sz) buf) w; Some (Inr sz, p, w') })
         else Some (Inl EPERM, p, w)))"

definition devDev :: "'w services \<Rightarrow> 'w Dev" where
  "devDev sv =
     \<lparr>dev_id = DEV_DEVDEV, dev_name = ''dev'', dev_power = powerDev, dev_init = initDev, dev_reset = resetDev,
      dev_shutdown = shutdownDev, dev_attach = attachDevDev, dev_walk = walkDevDev, dev_create = createDev,
      dev_open = openDevDev, dev_close = closeDevDev, dev_remove = removeDev, dev_getInfo = getInfoDevDev,
      dev_setInfo = setInfoDev, dev_read = readDevDev sv, dev_write = writeDevDev sv\<rparr>"

lemma devdevSNS_wf: "sns_wf devdevSNS"
proof (rule sns_wf_columns)
  show "sns_columns devdevSNS [0xfff, 0, 0, 0] [True, False, False, False]"
    by (simp add: sns_columns_def devdevSNS_def fid_indices upt_from)
  show "columns_ok [0xfff, 0, 0, 0] [True, False, False, False]"
    by (simp add: columns_ok_def upt_from)
qed

definition devdevEntry :: "string \<Rightarrow> nat" where
  "devdevEntry path =
     (if path = ''date'' then 1 else if path = ''kprint'' then 2 else if path = ''interrupts'' then 3 else 0)"

interpretation devdev: static_device "devDev sv" "\<lambda>_. True" "\<lambda>_. devdevSNS" devdevEntry
proof
  have rows: "nodes devdevSNS = 4" by (simp add: nodes_def devdevSNS_def)
  show "sns_wf devdevSNS" by (rule devdevSNS_wf)
  show "devdevEntry path < nodes devdevSNS" for path by (simp add: rows devdevEntry_def)
  show "\<exists>p. dev_attach (devDev sv) m path w = Some (p, w) \<and> pdevice p = fromDeviceId (dev_id (devDev sv)) \<and>
      pcrumb p = scrumb (devdevSNS ! devdevEntry path)" if "avail m 24" for m path w
    using that by (simp add: devDev_def attachDevDev_def attachDev_def mkPortal_def nsAt_def devdevSNS_def devdevEntry_def)
  show "dev_getInfo (devDev sv) m p w = Some (Inr (nodeInfo p (devdevSNS ! i)))"
    if "i < nodes devdevSNS" "pcrumb p = scrumb (devdevSNS ! i)" for i m p w
    using selfInfo_node [OF devdevSNS_wf that, of m] by (simp add: devDev_def getInfoDevDev_def)
qed (simp_all add: devDev_def walkDevDev_def openDevDev_def)

end
