(* ===== verification/World.thy ===== *)
theory World
  imports Resolve Exec Console DevRoot DevGpio DevUart DevTimer DevAdc DevDev
begin

text \<open>
  The whole kernel: the devices with their states and the table of devices (\<open>src/src/boot/globals.c\<close>).
\<close>

subsection \<open>The devices over one state\<close>

record Devices =
  ledPins :: Pins
  swpbPins :: Pins
  uartDev :: UartDev
  lcdDev :: LcdDev
  adcDev :: AdcDev
  timerDev :: TimerDev
  svcInterruptCount :: u64
  systickInterruptCount :: u64
  pendsvInterruptCount :: u64

type_synonym Manos = "Devices Sys"

text \<open>A device that keeps its state in a part of a larger one.\<close>

definition liftDev :: "('s \<Rightarrow> 'w) \<Rightarrow> ('w \<Rightarrow> 's \<Rightarrow> 's) \<Rightarrow> 'w Dev \<Rightarrow> 's Dev" where
  "liftDev get put d =
     \<lparr>dev_id = dev_id d, dev_name = dev_name d,
      dev_power = (\<lambda>onoff s. do { w \<leftarrow> dev_power d onoff (get s); Some (put w s) }),
      dev_init = (\<lambda>m s. do { w \<leftarrow> dev_init d m (get s); Some (put w s) }),
      dev_reset = (\<lambda>m s. do { w \<leftarrow> dev_reset d m (get s); Some (put w s) }),
      dev_shutdown = (\<lambda>s. do { w \<leftarrow> dev_shutdown d (get s); Some (put w s) }),
      dev_attach = (\<lambda>m path s. do { (p, w) \<leftarrow> dev_attach d m path (get s); Some (p, put w s) }),
      dev_walk = (\<lambda>m p path s. dev_walk d m p path (get s)),
      dev_create = (\<lambda>p name caps mode s. do { (r, w) \<leftarrow> dev_create d p name caps mode (get s); Some (r, put w s) }),
      dev_open = (\<lambda>p caps s. do { (r, w) \<leftarrow> dev_open d p caps (get s); Some (r, put w s) }),
      dev_close = (\<lambda>p s. do { w \<leftarrow> dev_close d p (get s); Some (put w s) }),
      dev_remove = (\<lambda>p s. do { (r, w) \<leftarrow> dev_remove d p (get s); Some (r, put w s) }),
      dev_getInfo = (\<lambda>m p s. dev_getInfo d m p (get s)),
      dev_setInfo = (\<lambda>p ni s. do { (r, w) \<leftarrow> dev_setInfo d p ni (get s); Some (r, put w s) }),
      dev_read = (\<lambda>m p sz offset s. do { (r, p', w) \<leftarrow> dev_read d m p sz offset (get s); Some (r, p', put w s) }),
      dev_write = (\<lambda>m p buf sz offset s. do { (r, p', w) \<leftarrow> dev_write d m p buf sz offset (get s); Some (r, p', put w s) })\<rparr>"

lemma liftDev_static:
  assumes dev: "static_device d ok table entry" and ok: "\<And>s. good s \<Longrightarrow> ok (get s)" and same: "\<And>s. put (get s) s = s"
  shows "static_device (liftDev get put d) good (\<lambda>s. table (get s)) entry"
proof
  fix s assume s: "good s"
  show "sns_wf (table (get s))" by (rule static_device.table_wf [OF dev ok [OF s]])
  show "entry path < nodes (table (get s))" for path by (rule static_device.entry_node [OF dev ok [OF s]])
  show "\<exists>p. dev_attach (liftDev get put d) m path s = Some (p, s) \<and> pdevice p = fromDeviceId (dev_id (liftDev get put d)) \<and>
      pcrumb p = scrumb (table (get s) ! entry path)" if "avail m 24" for m path
    using static_device.attach_entry [OF dev ok [OF s] that, of path] by (auto simp: liftDev_def same)
  show "dev_walk (liftDev get put d) m p names s = walkStatic (table (get s)) m p names" for m p names
    using static_device.walk_table [OF dev ok [OF s]] by (simp add: liftDev_def)
  show "dev_getInfo (liftDev get put d) m p s = Some (Inr (nodeInfo p (table (get s) ! i)))"
    if "i < nodes (table (get s))" "\<not> isdir (table (get s)) i" "pcrumb p = scrumb (table (get s) ! i)" for i m p
    using static_device.info_node [OF dev ok [OF s] that] by (simp add: liftDev_def)
next
  show "dev_open (liftDev get put d) p caps s = Some (Inr (openDev p caps), s)" for p caps s
    using static_device.open_keeps [OF dev] by (simp add: liftDev_def same)
qed

definition liftPart :: "(Devices \<Rightarrow> 'w) \<Rightarrow> (('w \<Rightarrow> 'w) \<Rightarrow> Devices \<Rightarrow> Devices) \<Rightarrow> 'w Dev \<Rightarrow> Manos Dev" where
  "liftPart get update d = liftDev (\<lambda>s. get (devst s)) (\<lambda>w s. s\<lparr>devst := update (\<lambda>_. w) (devst s)\<rparr>) d"

text \<open>The timer device looks at the identifier of the running process.\<close>

definition timerPart :: "Manos \<Rightarrow> TimerDev" where
  "timerPart s = (timerDev (devst s))\<lparr>tpid := getpid (kern s)\<rparr>"

definition setTimerPart :: "TimerDev \<Rightarrow> Manos \<Rightarrow> Manos" where
  "setTimerPart w s = s\<lparr>devst := (devst s)\<lparr>timerDev := w\<lparr>tpid := tpid (timerDev (devst s))\<rparr>\<rparr>\<rparr>"

subsection \<open>The table of devices\<close>

text \<open>
  The device of kernel services makes system calls, which use the table. The only files it opens are the
  clock's, so one level of the recursion is enough: at level 0 its services are missing.
\<close>

definition devicesWith :: "font \<Rightarrow> Manos services \<Rightarrow> Manos Dev list" where
  "devicesWith font sv =
     [devRoot, liftPart ledPins ledPins_update devLed, liftPart swpbPins swpbPins_update devSwpb,
      liftPart uartDev uartDev_update devUart, liftPart lcdDev lcdDev_update (devLcd font),
      liftPart adcDev adcDev_update devAdc, liftDev timerPart setTimerPart devTimer, devDev sv]"

definition openClock :: "Manos Dev list \<Rightarrow> mem \<Rightarrow> u32 \<Rightarrow> Manos \<Rightarrow> (int \<times> Manos) option" where
  "openClock ds m caps s =
     do { (r, s1) \<leftarrow> sysopen ds m ''/dev/timer/k70Timer'' caps s;
          Some (case r of Inl _ \<Rightarrow> -1 | Inr fd \<Rightarrow> int fd, s1) }"

definition kernelServices :: "font \<Rightarrow> Manos Dev list \<Rightarrow> mem \<Rightarrow> Manos services" where
  "kernelServices font ds m =
     \<lparr>readClock = (\<lambda>s.
        do {
          (fd, s1) \<leftarrow> openClock ds m CAP_READ s;
          (r, s2) \<leftarrow> sysread ds m fd 8 s1;
          (_, s3) \<leftarrow> sysclose ds fd s2;
          (case r of Inr (n, out) \<Rightarrow> if length out = 8 then Some (bytesMsec (map ord8 out), s3) else None | Inl _ \<Rightarrow> None)
        }),
      writeClock = (\<lambda>msecs s.
        do {
          (fd, s1) \<leftarrow> openClock ds m CAP_WRITE s;
          (r, s2) \<leftarrow> syswrite ds m fd (map chr8 (msecBytes msecs)) 8 s1;
          (_, s3) \<leftarrow> sysclose ds fd s2;
          Some (r, s3)
        }),
      consolePuts = (\<lambda>txt s.
        do { (_, w) \<leftarrow> sysnputs (k70Console font) txt (length txt) (lcdDev (devst s));
             Some (s\<lparr>devst := (devst s)\<lparr>lcdDev := w\<rparr>\<rparr>) }),
      counts = (\<lambda>s.
        let d = devst s in
        [svcInterruptCount d, timerInterruptCount (timerDev d), pdbInterruptCount (timerDev d), systickInterruptCount d,
         pendsvInterruptCount d])\<rparr>"

definition noServices :: "Manos services" where
  "noServices = \<lparr>readClock = \<lambda>_. None, writeClock = \<lambda>_ _. None, consolePuts = \<lambda>_ _. None, counts = \<lambda>_. []\<rparr>"

definition deviceTable :: "font \<Rightarrow> mem \<Rightarrow> Manos Dev list" where
  "deviceTable font m = devicesWith font (kernelServices font (devicesWith font noServices) m)"

subsection \<open>The tables are mounted\<close>

definition plainNS :: "StaticNS list \<Rightarrow> bool" where
  "plainNS ns \<longleftrightarrow> list_all (\<lambda>e. cflags (scrumb e) AND CRUMB_ISMOUNT = 0) ns"

text \<open>The state after the devices are reset: the two namespaces that are built then are there.\<close>

definition world_ok :: "Manos \<Rightarrow> bool" where
  "world_ok s \<longleftrightarrow>
     uart_ok (uartDev (devst s)) \<and> timer_ok (timerDev (devst s)) \<and>
     plainNS (the (uartSNS (uartDev (devst s)))) \<and> plainNS (the (timerSNS (timerDev (devst s))))"

definition tableOf :: "nat \<Rightarrow> Manos \<Rightarrow> StaticNS list" where
  "tableOf i s =
     [rootSNS, ledSNS, swpbSNS, the (uartSNS (uartDev (devst s))), lcdSNS, adcSNS, the (timerSNS (timerDev (devst s))),
      devdevSNS] ! i"

definition entryOf :: "nat \<Rightarrow> string \<Rightarrow> nat" where
  "entryOf i = (if i = 7 then devdevEntry else (\<lambda>_. 0))"

lemma less_8: "(i :: nat) < 8 \<longleftrightarrow> i = 0 \<or> i = 1 \<or> i = 2 \<or> i = 3 \<or> i = 4 \<or> i = 5 \<or> i = 6 \<or> i = 7"
  by auto

lemma plainNS_mount: "plainNS ns \<Longrightarrow> k < nodes ns \<Longrightarrow> \<not> isMount ns k"
  by (simp add: plainNS_def isMount_def nodes_def list_all_length)

lemma static_tables_plain: "plainNS ledSNS" "plainNS swpbSNS" "plainNS lcdSNS" "plainNS adcSNS" "plainNS devdevSNS"
  by (simp_all add: plainNS_def ledSNS_def swpbSNS_def lcdSNS_def adcSNS_def devdevSNS_def nsEnd_crumb MKSTATICNS_SENTINEL_CRUMB_def)

lemma rootSNS_mounts:
  "list_all (\<lambda>e. cflags (scrumb e) AND CRUMB_ISMOUNT \<noteq> 0 \<longrightarrow> cflags (scrumb e) AND CRUMB_ISDIR = 0 \<and>
     0 \<le> fromDeviceId (uint (slength e)) \<and> mountPath (scontents e) \<noteq> None) rootSNS"
  by (simp add: rootSNS_def fromDeviceId_def deviceIds_def mountPath_def nsEnd_def MKSTATICNS_SENTINEL_CRUMB_def)

lemma root_mount:
  assumes "k < nodes rootSNS" "isMount rootSNS k"
  shows "\<not> isdir rootSNS k \<and> mountTarget ent rootSNS k \<noteq> None"
proof -
  have "k < length rootSNS" using assms(1) by (simp add: nodes_def)
  then have "cflags (scrumb (rootSNS ! k)) AND CRUMB_ISDIR = 0 \<and> 0 \<le> fromDeviceId (uint (slength (rootSNS ! k))) \<and>
      mountPath (scontents (rootSNS ! k)) \<noteq> None"
    using rootSNS_mounts assms(2) unfolding list_all_length isMount_def by blast
  then show ?thesis by (auto simp: isdir_def mountTarget_def Let_def)
qed

lemma static_device_weaken:
  assumes dev: "static_device d ok table entry" and "\<And>s. good s \<Longrightarrow> ok s"
  shows "static_device d good table entry"
  using assms(2) static_device.table_wf [OF dev] static_device.entry_node [OF dev] static_device.attach_entry [OF dev]
    static_device.walk_table [OF dev] static_device.info_node [OF dev] static_device.open_keeps [OF dev]
  by unfold_locales blast+

lemma liftPart_static:
  assumes "static_device d ok table entry" "\<And>s. good s \<Longrightarrow> ok (get (devst s))" "\<And>x. update (\<lambda>_. get x) x = x"
  shows "static_device (liftPart get update d) good (\<lambda>s. table (get (devst s))) entry"
  unfolding liftPart_def by (rule liftDev_static [OF assms(1)]) (use assms(2,3) in simp_all)

lemma devices_static:
  assumes "i < 8"
  shows "static_device (devicesWith font sv ! i) world_ok (tableOf i) (entryOf i)"
proof -
  have t: "tableOf 0 = (\<lambda>s. rootSNS)" "tableOf 1 = (\<lambda>s. ledSNS)" "tableOf 2 = (\<lambda>s. swpbSNS)"
    "tableOf 3 = (\<lambda>s. the (uartSNS (uartDev (devst s))))" "tableOf 4 = (\<lambda>s. lcdSNS)" "tableOf 5 = (\<lambda>s. adcSNS)"
    "tableOf 6 = (\<lambda>s. the (timerSNS (timerPart s)))" "tableOf 7 = (\<lambda>s. devdevSNS)"
    by (rule ext, simp add: tableOf_def timerPart_def)+
  have e: "entryOf 0 = (\<lambda>_. 0)" "entryOf 1 = (\<lambda>_. 0)" "entryOf 2 = (\<lambda>_. 0)" "entryOf 3 = (\<lambda>_. 0)" "entryOf 4 = (\<lambda>_. 0)"
    "entryOf 5 = (\<lambda>_. 0)" "entryOf 6 = (\<lambda>_. 0)" "entryOf 7 = devdevEntry"
    by (simp_all add: entryOf_def)
  have "static_device (devicesWith font sv ! 0) world_ok (tableOf 0) (entryOf 0)"
    unfolding t e devicesWith_def nth_Cons_0 by (rule static_device_weaken [OF root.static_device_axioms]) simp
  moreover have "static_device (liftPart ledPins ledPins_update devLed) world_ok (tableOf 1) (entryOf 1)"
    unfolding t e by (rule liftPart_static [OF led.static_device_axioms]) simp_all
  moreover have "static_device (liftPart swpbPins swpbPins_update devSwpb) world_ok (tableOf 2) (entryOf 2)"
    unfolding t e by (rule liftPart_static [OF swpb.static_device_axioms]) simp_all
  moreover have "static_device (liftPart uartDev uartDev_update devUart) world_ok (tableOf 3) (entryOf 3)"
    unfolding t e by (rule liftPart_static [OF uart.static_device_axioms]) (simp_all add: world_ok_def)
  moreover have "static_device (liftPart lcdDev lcdDev_update (devLcd font)) world_ok (tableOf 4) (entryOf 4)"
    unfolding t e by (rule liftPart_static [OF lcd.static_device_axioms]) simp_all
  moreover have "static_device (liftPart adcDev adcDev_update devAdc) world_ok (tableOf 5) (entryOf 5)"
    unfolding t e by (rule liftPart_static [OF adc.static_device_axioms]) simp_all
  moreover have "static_device (liftDev timerPart setTimerPart devTimer) world_ok (tableOf 6) (entryOf 6)"
    unfolding t e
    by (rule liftDev_static [OF timer.static_device_axioms]) (simp_all add: world_ok_def timer_ok_def timerPart_def setTimerPart_def)
  moreover have "static_device (devDev sv) world_ok (tableOf 7) (entryOf 7)"
    unfolding t e by (rule static_device_weaken [OF devdev.static_device_axioms]) simp
  ultimately show ?thesis using assms unfolding less_8 by (auto simp: devicesWith_def)
qed

lemma length_devices [simp]: "length (devicesWith font sv) = 8"
  by (simp add: devicesWith_def)

interpretation world: mounted "devicesWith font sv" world_ok tableOf entryOf
proof (rule mounted.intro)
  show "length (devicesWith font sv) = length deviceIds" by (simp add: deviceIds_def)
  show "static_device (devicesWith font sv ! i) world_ok (tableOf i) (entryOf i)" if "i < length (devicesWith font sv)" for i
    by (rule devices_static) (use that in simp)
  show "dev_id (devicesWith font sv ! i) = deviceIds ! i" if "i < length (devicesWith font sv)" for i
    using that unfolding length_devices less_8
    by (auto simp: devicesWith_def deviceIds_def liftPart_def liftDev_def devRoot_def devLed_def devSwpb_def devUart_def
        devLcd_def devAdc_def devTimer_def devDev_def)
  show "\<not> isdir (tableOf i s) k \<and> mountTarget entryOf (tableOf i s) k \<noteq> None"
    if "world_ok s" "i < length (devicesWith font sv)" "k < nodes (tableOf i s)" "isMount (tableOf i s) k" for s i k
    using that root_mount [of k entryOf] plainNS_mount [OF _ that(3)] static_tables_plain
    unfolding length_devices less_8 by (auto simp: tableOf_def world_ok_def)
qed

end
