(* ===== verification/Descriptors.thy ===== *)
theory Descriptors
  imports Syscalls
begin

text \<open>
  The ownership of portals: every descriptor has a portal of its own, which no other descriptor and no
  process's root or working directory shares. The calls on files keep it, over any devices that do.
\<close>

subsection \<open>The invariant\<close>

text \<open>An address that a process refers to, by a descriptor or as one of its two directories.\<close>

datatype holder = Fd nat nat | Slash nat | Dot nat

fun held :: "'d Sys \<Rightarrow> holder \<Rightarrow> nat option" where
  "held s (Fd q fd) = fds (procs (kern s) q) fd"
| "held s (Slash q) = pslash (procs (kern s) q)"
| "held s (Dot q) = pdot (procs (kern s) q)"

definition tidy :: "'d Sys \<Rightarrow> bool" where
  "tidy s \<longleftrightarrow>
     (\<forall>h a. held s h = Some a \<longrightarrow> portals s a \<noteq> None) \<and>
     (\<forall>h h' a. held s h = Some a \<longrightarrow> held s h' = Some a \<longrightarrow> h = h') \<and>
     (\<forall>a. portals s a \<noteq> None \<longrightarrow> a < fresh s)"

text \<open>What a call leads to from a tidy state.\<close>

definition later :: "'d Sys \<Rightarrow> 'd Sys \<Rightarrow> bool" where
  "later s s' \<longleftrightarrow> tidy s' \<and> fresh s \<le> fresh s'"

lemma later_refl: "tidy s \<Longrightarrow> later s s"
  by (simp add: later_def)

lemma later_trans: "later s s' \<Longrightarrow> later s' s'' \<Longrightarrow> later s s''"
  by (simp add: later_def)

lemma later_tidy: "later s s' \<Longrightarrow> tidy s'"
  by (simp add: later_def)

text \<open>States that agree but for what the devices and the kernel's own log hold.\<close>

lemma later_same:
  "tidy s \<Longrightarrow> kern s' = kern s \<Longrightarrow> portals s' = portals s \<Longrightarrow> fresh s' = fresh s \<Longrightarrow> later s s'"
proof -
  assume t: "tidy s" and e: "kern s' = kern s" "portals s' = portals s" "fresh s' = fresh s"
  have "held s' h = held s h" for h by (cases h) (simp_all add: e)
  then show ?thesis using t e by (simp add: later_def tidy_def)
qed

text \<open>A new portal under a free descriptor, a portal that changes, and a descriptor that is closed.\<close>

lemma held_setFd: "held (setFd q fd a s) h = (if h = Fd q fd then a else held s h)"
  by (cases h) (auto simp: setFd_def upd_def)

lemma setFd_sel [simp]: "portals (setFd q fd a s) = portals s" "fresh (setFd q fd a s) = fresh s"
  by (simp_all add: setFd_def)

lemma held_portals [simp]: "held (s\<lparr>portals := x, fresh := n\<rparr>) h = held s h" "held (s\<lparr>portals := x\<rparr>) h = held s h"
  by (cases h; simp)+

lemma tidyD:
  assumes "tidy s"
  shows "held s h = Some a \<Longrightarrow> portals s a \<noteq> None" "held s h = Some a \<Longrightarrow> held s h' = Some a \<Longrightarrow> h = h'"
    "portals s a \<noteq> None \<Longrightarrow> a < fresh s"
  using assms unfolding tidy_def by blast+

lemma later_new:
  assumes "tidy s" "fds (procs (kern s) q) fd = None"
  shows "later s (case addPortal p s of (b, s') \<Rightarrow> setFd q fd (Some b) s')"
proof -
  have "held s h \<noteq> Some (fresh s)" for h
    using tidyD(1) [OF assms(1), of h "fresh s"] tidyD(3) [OF assms(1), of "fresh s"] by blast
  then show ?thesis
    using tidyD [OF assms(1)] assms(2)
    by (auto simp: later_def tidy_def addPortal_def held_setFd less_SucI split: if_splits)
qed

lemma later_setPortal:
  assumes "later s0 s" "portals s0 a \<noteq> None" "tidy s0"
  shows "later s0 (setPortal a p s)"
  using assms tidyD(3) [OF assms(3,2)] by (auto simp: later_def tidy_def setPortal_def)

lemma later_close:
  assumes "tidy s" "fds (procs (kern s) q) fd = Some a"
  shows "later s (setFd q fd None (s\<lparr>portals := (portals s)(a := None)\<rparr>))"
proof -
  have own: "h = Fd q fd" if "held s h = Some a" for h
    using tidyD(2) [OF assms(1) that, of "Fd q fd"] assms(2) by simp
  show ?thesis
    using tidyD [OF assms(1)] own by (auto simp: later_def tidy_def held_setFd split: if_splits)
qed

subsection \<open>The calls\<close>

text \<open>
  What the calls ask of the devices: from a tidy state their operations lead to a tidy one. Closing must
  leave the descriptors of the processes alone, since the call clears the one it looked up before.
\<close>

locale tidy_devices =
  fixes ds :: "'d Sys Dev list"
  assumes attach_later: "d \<in> set ds \<Longrightarrow> tidy s \<Longrightarrow> dev_attach d m path s = Some (p, s') \<Longrightarrow> later s s' \<and> kern s' = kern s"
    and open_later: "d \<in> set ds \<Longrightarrow> tidy s \<Longrightarrow> dev_open d px caps s = Some (ro, s') \<Longrightarrow> later s s' \<and> kern s' = kern s"
    and close_later: "d \<in> set ds \<Longrightarrow> tidy s \<Longrightarrow> dev_close d px s = Some s' \<Longrightarrow> later s s' \<and> kern s' = kern s"
    and read_later: "d \<in> set ds \<Longrightarrow> tidy s \<Longrightarrow> dev_read d m px sz offset s = Some (rr, p', s') \<Longrightarrow> later s s'"
    and write_later: "d \<in> set ds \<Longrightarrow> tidy s \<Longrightarrow> dev_write d m px buf sz offset s = Some (rw, p', s') \<Longrightarrow> later s s'"
begin

lemma deviceAt_set: "deviceAt ds i = Some d \<Longrightarrow> d \<in> set ds"
  by (auto simp: deviceAt_def split: if_splits)

lemma walkLoop_later:
  assumes "walkLoop ds' m px path e s = Some r"
  shows "ds' = ds \<Longrightarrow> tidy s \<Longrightarrow> later s (snd r) \<and> kern (snd r) = kern s"
  using assms
proof (induction ds' m px path e s r rule: walkLoop.raw_induct [rotated, consumes 1])
  case (1 walk ds' m px path e s r)
  show ?case
  proof (cases "path = []")
    case True
    then show ?thesis using 1(2-4) by (auto intro: later_refl)
  next
    case False
    obtain d rr where d: "deviceAt ds (pdevice px) = Some d" "dev_walk d m px path s = Some rr"
      using 1(2,3) False by (auto simp: bind_eq_Some_conv)
    obtain t e1 where t: "rr = Inr (t, e1)"
      using 1(2,3) False d by (cases rr) auto
    define rest where "rest = drop (unat (wtop t)) path"
    obtain top where top: "topCrumb t = Some top"
      using 1(2,3) False d t by (auto simp: bind_eq_Some_conv split: if_splits)
    define px1 where "px1 = (case top of Inl _ \<Rightarrow> px | Inr c \<Rightarrow> px\<lparr>pcrumb := c\<rparr>)"
    define e2 where "e2 = (case top of Inl e' \<Rightarrow> e' | Inr _ \<Rightarrow> e1)"
    have body: "unat (wtop t) \<le> length path"
      "(if cflags (pcrumb px1) AND CRUMB_ISMOUNT \<noteq> 0 then do {
          info \<leftarrow> dev_getInfo d m px1 s;
          let ni = (case info of Inl _ \<Rightarrow> snd (stk m) | Inr ni \<Rightarrow> ni);
          let idx = fromDeviceId (uint (ni_length ni));
          if idx = -1 then None
          else do {
            d' \<leftarrow> deviceAt ds idx;
            c \<leftarrow> mountPath (ni_contents ni);
            (px2, w') \<leftarrow> dev_attach d' m c s;
            walk ds m px2 rest e2 w'
          }
        }
        else Some (if rest = [] then Inr px1 else Inl e2, s)) = Some r"
      using 1(2,3) False d t top unfolding px1_def e2_def rest_def by (auto simp: Let_def split: if_splits)
    show ?thesis
    proof (cases "cflags (pcrumb px1) AND CRUMB_ISMOUNT = 0")
      case True
      then show ?thesis using body(2) 1(4) by (auto intro: later_refl)
    next
      case False
      then obtain d' i c px2 s1 where next_dev: "deviceAt ds i = Some d'" "dev_attach d' m c s = Some (px2, s1)" "walk ds m px2 rest e2 s1 = Some r"
        using body(2) by (auto simp: bind_eq_Some_conv Let_def split: if_splits)
      have s1: "later s s1 \<and> kern s1 = kern s" by (rule attach_later [OF deviceAt_set [OF next_dev(1)] 1(4) next_dev(2)])
      then have "later s1 (snd r) \<and> kern (snd r) = kern s1"
        using 1(1) [OF next_dev(3) refl] later_tidy s1 by blast
      then show ?thesis using s1 later_trans by auto
    qed
  qed
qed

lemma syswalk_later:
  "syswalk ds m p path s = Some (r, s') \<Longrightarrow> tidy s \<Longrightarrow> later s s' \<and> kern s' = kern s"
  by (auto simp: syswalk_def later_refl dest: walkLoop_later split: if_splits)

lemma openFor_later:
  assumes run: "openFor ds m q path caps s = Some (r, s')" and "tidy s"
  shows "later s s'"
proof -
  obtain mp where mp: "mkPath (avail m) (avail m) path = Some mp" using run by (auto simp: openFor_def bind_eq_Some_conv)
  show ?thesis
  proof (cases mp)
    case None
    then show ?thesis using run mp assms(2) by (auto simp: openFor_def later_refl)
  next
    case (Some pt)
    obtain p r1 s1 where walk: "syswalk ds m p (elems pt) s = Some (r1, s1)"
      and rest: "(case r1 of
               Inl e \<Rightarrow> Some (Inl e, s1)
             | Inr px \<Rightarrow>
                 (case find (\<lambda>fd. fds (procs (kern s1) q) fd = None) [0..<MANOS_MAXFD] of
                    None \<Rightarrow> Some (Inl EMFILE, s1)
                  | Some fd \<Rightarrow>
                      do {
                        d \<leftarrow> deviceAt ds (pdevice px);
                        (r', s2) \<leftarrow> dev_open d px caps s1;
                        Some (Inr fd, case r' of Inl _ \<Rightarrow> s2
                                      | Inr p' \<Rightarrow> (case addPortal p' s2 of (b, s3) \<Rightarrow> setFd q fd (Some b) s3))
                      })) = Some (r, s')"
      using run mp Some by (auto simp: openFor_def bind_eq_Some_conv simp del: upt_rec_numeral)
    have s1: "later s s1" using syswalk_later [OF walk assms(2)] by blast
    consider "s' = s1" | px fd d i r' s2 where "find (\<lambda>fd. fds (procs (kern s1) q) fd = None) [0..<MANOS_MAXFD] = Some fd"
      "deviceAt ds i = Some d" "dev_open d px caps s1 = Some (r', s2)"
      "s' = (case r' of Inl _ \<Rightarrow> s2 | Inr p' \<Rightarrow> (case addPortal p' s2 of (b, s3) \<Rightarrow> setFd q fd (Some b) s3))"
      using rest
      by (cases r1; cases "find (\<lambda>fd. fds (procs (kern s1) q) fd = None) [0..<MANOS_MAXFD]")
        (auto simp: bind_eq_Some_conv simp del: upt_rec_numeral)
    then show ?thesis
    proof cases
      case 1
      then show ?thesis using s1 by simp
    next
      case 2
      have s2: "later s1 s2" "kern s2 = kern s1" using open_later [OF deviceAt_set [OF 2(2)] later_tidy [OF s1] 2(3)] by simp_all
      have free: "fds (procs (kern s2) q) fd = None" using 2(1) s2(2) by (auto simp: find_Some_iff)
      have "later s2 s'"
        using 2(4) later_new [OF later_tidy [OF s2(1)] free] later_refl [OF later_tidy [OF s2(1)]] by (auto split: sum.splits)
      then show ?thesis using later_trans [OF later_trans [OF s1 s2(1)]] by blast
    qed
  qed
qed

lemma sysopen_later: "sysopen ds m path caps s = Some (r, s') \<Longrightarrow> tidy s \<Longrightarrow> later s s'"
  by (auto simp: sysopen_def bind_eq_Some_conv intro: openFor_later)

lemma descriptor_held: "descriptor fd s = Some (q, h) \<Longrightarrow> 0 \<le> fd \<and> h = fds (procs (kern s) q) (nat fd)"
  by (auto simp: descriptor_def bind_eq_Some_conv split: if_splits)

lemma sysclose_later:
  assumes run: "sysclose ds fd s = Some (r, s')" and "tidy s"
  shows "later s s'"
proof -
  obtain q h where h: "descriptor fd s = Some (q, h)" using run by (auto simp: sysclose_def bind_eq_Some_conv)
  consider "kern s' = kern s" "portals s' = portals s" "fresh s' = fresh s"
    | a p d s1 where "h = Some a" "deviceAt ds (pdevice p) = Some d" "dev_close d p s = Some s1" "s' = setFd q (nat fd) None (s1\<lparr>portals := (portals s1)(a := None)\<rparr>)"
    using run h
    by (cases h) (auto simp: sysclose_def bind_eq_Some_conv split: if_splits prod.splits)
  then show ?thesis
  proof cases
    case 1
    then show ?thesis by (rule later_same [OF assms(2)])
  next
    case 2
    have s1: "later s s1" "kern s1 = kern s" using close_later [OF deviceAt_set [OF 2(2)] assms(2) 2(3)] by simp_all
    have "fds (procs (kern s1) q) (nat fd) = Some a" using descriptor_held [OF h] 2(1) s1(2) by simp
    then show ?thesis using later_trans [OF s1(1) later_close [OF later_tidy [OF s1(1)]]] 2(4) by blast
  qed
qed

text \<open>The calls that put the portal back after an operation of its device.\<close>

lemma putBack_later:
  assumes "descriptor fd s = Some (q, Some a)" "tidy s" "later s s1"
  shows "later s (setPortal a p' s1)"
proof -
  have "held s (Fd q (nat fd)) = Some a" using descriptor_held [OF assms(1)] by simp
  then have "portals s a \<noteq> None" by (rule tidyD(1) [OF assms(2)])
  then show ?thesis by (rule later_setPortal [OF assms(3) _ assms(2)])
qed

lemma sysread_later: "sysread ds m fd n s = Some (r, s') \<Longrightarrow> tidy s \<Longrightarrow> later s s'"
  by (auto simp: sysread_def bind_eq_Some_conv later_refl intro!: putBack_later intro: read_later [OF deviceAt_set]
      split: option.splits if_splits)

lemma syswrite_later: "syswrite ds m fd buf n s = Some (r, s') \<Longrightarrow> tidy s \<Longrightarrow> later s s'"
  by (auto simp: syswrite_def bind_eq_Some_conv later_refl intro!: putBack_later intro: write_later [OF deviceAt_set]
      split: option.splits if_splits)

lemma dirread_later:
  assumes run: "dirread ds m fd s = Some (r, s')" and "tidy s"
  shows "later s s'"
proof -
  obtain q h where h: "descriptor fd s = Some (q, h)" using run by (auto simp: dirread_def bind_eq_Some_conv)
  consider "s' = s" | a i d p n out p' s1 where "h = Some a" "deviceAt ds i = Some d"
      "dev_read d m p DIRREAD_READBUF_MAX n s = Some (out, p', s1)" "s' = setPortal a p' s1"
  proof (cases h)
    case None
    then show ?thesis using run h that(1) by (simp add: dirread_def)
  next
    case (Some a)
    obtain p where p: "portals s a = Some p" using run h Some by (auto simp: dirread_def bind_eq_Some_conv)
    show ?thesis
    proof (cases "MANOS_MAXDEV \<le> pdevice p \<or> cflags (pcrumb p) AND CRUMB_ISDIR = 0")
      case True
      then show ?thesis using run h Some p that(1) by (auto simp: dirread_def split: if_splits)
    next
      case False
      obtain d out p' s1 where d: "deviceAt ds (pdevice p) = Some d"
        "dev_read d m p DIRREAD_READBUF_MAX (poffset p) s = Some (out, p', s1)"
        using run h Some p False by (auto simp: dirread_def bind_eq_Some_conv)
      have "s' = setPortal a p' s1"
        using run h Some p False d
        by (cases out) (auto simp: dirread_def bind_eq_Some_conv split: if_splits prod.splits)
      then show ?thesis using that(2) [OF Some d] by blast
    qed
  qed
  then show ?thesis
  proof cases
    case 2
    show ?thesis
      unfolding 2(4) by (rule putBack_later [OF _ assms(2) read_later [OF deviceAt_set [OF 2(2)] assms(2) 2(3)]]) (use h 2(1) in simp)
  qed (simp add: later_refl [OF assms(2)])
qed

end

subsection \<open>Sequences of calls\<close>

text \<open>A call on files by the process that runs, or a change of the process that runs.\<close>

inductive file_call :: "'d Sys Dev list \<Rightarrow> mem \<Rightarrow> 'd Sys \<Rightarrow> 'd Sys \<Rightarrow> bool" for ds :: "'d Sys Dev list" and m :: mem where
  call_open: "sysopen ds m path caps s = Some (r, s') \<Longrightarrow> file_call ds m s s'"
| call_close: "sysclose ds fd s = Some (r, s') \<Longrightarrow> file_call ds m s s'"
| call_read: "sysread ds m fd n s = Some (r, s') \<Longrightarrow> file_call ds m s s'"
| call_write: "syswrite ds m fd buf n s = Some (r, s') \<Longrightarrow> file_call ds m s s'"
| call_dirread: "dirread ds m fd s = Some (r, s') \<Longrightarrow> file_call ds m s s'"
| call_switch: "file_call ds m s (s\<lparr>kern := (kern s)\<lparr>rp := q\<rparr>\<rparr>)"

inductive_cases file_callE: "file_call ds m s s'"

lemma later_switch: "tidy s \<Longrightarrow> later s (s\<lparr>kern := (kern s)\<lparr>rp := q\<rparr>\<rparr>)"
proof -
  assume t: "tidy s"
  have "held (s\<lparr>kern := (kern s)\<lparr>rp := q\<rparr>\<rparr>) h = held s h" for h by (cases h) simp_all
  then show ?thesis using t by (simp add: later_def tidy_def)
qed

context tidy_devices
begin

lemma file_call_later: "file_call ds m s s' \<Longrightarrow> tidy s \<Longrightarrow> later s s'"
  by (erule file_callE)
    (auto intro: sysopen_later sysclose_later sysread_later syswrite_later dirread_later later_switch)

lemma file_calls_later: "(file_call ds m)\<^sup>*\<^sup>* s s' \<Longrightarrow> tidy s \<Longrightarrow> later s s'"
  by (induction rule: rtranclp_induct) (auto intro: later_refl later_trans file_call_later dest: later_tidy)

end

end
