(* ===== verification/Files.thy ===== *)
theory Files
  imports World Descriptors
begin

text \<open>
  What the calls on files do over the table of devices: opening by an absolute path, the descriptors that
  stay private, and the calls of the kernel's own device.
\<close>

subsection \<open>Opening a file\<close>

definition roomy :: "mem \<Rightarrow> bool" where
  "roomy m \<longleftrightarrow> (\<forall>n. avail m n)"

text \<open>What an absolute path names, and a process whose root is the root of the root device.\<close>

definition lookup :: "Manos \<Rightarrow> string list \<Rightarrow> outcome" where
  "lookup s es = resolve (\<lambda>i. tableOf i s) entryOf 0 0 es"

definition rooted :: "nat \<Rightarrow> Manos \<Rightarrow> bool" where
  "rooted q s \<longleftrightarrow>
     (case pslash (procs (kern s) q) of
        None \<Rightarrow> False
      | Some a \<Rightarrow> (case portals s a of None \<Rightarrow> False | Some p \<Rightarrow> portalAt (\<lambda>i. tableOf i s) 0 0 p))"

definition freeFd :: "nat \<Rightarrow> 'd Sys \<Rightarrow> nat option" where
  "freeFd q s = find (\<lambda>fd. fds (procs (kern s) q) fd = None) [0..<MANOS_MAXFD]"

text \<open>The state with a portal under a new descriptor.\<close>

definition opened :: "nat \<Rightarrow> nat \<Rightarrow> Portal \<Rightarrow> 'd Sys \<Rightarrow> 'd Sys" where
  "opened q fd p s = setFd q fd (Some (fresh s)) (s\<lparr>portals := (portals s)(fresh s \<mapsto> p), fresh := fresh s + 1\<rparr>)"

definition names_ok :: "string list \<Rightarrow> bool" where
  "names_ok es \<longleftrightarrow> es \<noteq> [] \<and> (\<forall>s \<in> set es. plain s) \<and> length es < 2 ^ 28"

text \<open>The result of opening the path \<open>es\<close> agrees with what the path names.\<close>

definition opens :: "nat \<Rightarrow> string list \<Rightarrow> u32 \<Rightarrow> Manos \<Rightarrow> (nat reply \<times> Manos) option \<Rightarrow> bool" where
  "opens q es caps s r \<longleftrightarrow>
     (case lookup s es of
        Fault \<Rightarrow> r = None
      | Missing e \<Rightarrow> r = Some (Inl e, s)
      | Found j k \<Rightarrow>
          (case freeFd q s of
             None \<Rightarrow> r = Some (Inl EMFILE, s)
           | Some fd \<Rightarrow> \<exists>p. portalAt (\<lambda>i. tableOf i s) j k p \<and> poffset p = 0 \<and> pcaps p = caps \<and>
                           r = Some (Inr fd, opened q fd p s)))"

lemma isdir_root: "isdir (tableOf 0 s) 0"
  by (simp add: isdir_def tableOf_def rootSNS_def)

lemma openFor_opens:
  assumes "world_ok s" "roomy m" "rooted q s" "names_ok es"
  shows "opens q es caps s (openFor (devicesWith font sv) m q (slash # join es) caps s)"
proof -
  let ?ds = "devicesWith font sv" and ?tab = "\<lambda>i. tableOf i s"
  have mem: "avail m n" for n using assms(2) by (simp add: roomy_def)
  obtain a p where a: "pslash (procs (kern s) q) = Some a" "portals s a = Some p" "portalAt ?tab 0 0 p"
    using assms(3) by (auto simp: rooted_def split: option.splits)
  obtain pt where pt: "mkPath (avail m) (avail m) (slash # join es) = Some (Some pt)" "elems pt = es"
    using mkPath_absolute [of es "avail m" "avail m"] assms(4) mem by (auto simp: names_ok_def)
  have walk: "agrees ?tab s (syswalk ?ds m p es s) (lookup s es)"
    using world.syswalk_resolves [OF assms(1) _ a(3), of m es font sv] assms(4) mem isdir_root by (simp add: names_ok_def lookup_def)
  have run: "openFor ?ds m q (slash # join es) caps s =
      do { (r, s1) \<leftarrow> syswalk ?ds m p es s;
           case r of
             Inl e \<Rightarrow> Some (Inl e, s1)
           | Inr px \<Rightarrow> (case freeFd q s1 of
               None \<Rightarrow> Some (Inl EMFILE, s1)
             | Some fd \<Rightarrow> do { d \<leftarrow> deviceAt ?ds (pdevice px); (r', s2) \<leftarrow> dev_open d px caps s1;
                 Some (Inr fd, case r' of Inl _ \<Rightarrow> s2 | Inr p' \<Rightarrow> opened q fd p' s2) }) }"
    using a pt unfolding openFor_def freeFd_def opened_def addPortal_def prod.case by (simp add: isAbsolute_def)
  show ?thesis
  proof (cases "lookup s es")
    case (Found j k)
    then obtain px where px: "syswalk ?ds m p es s = Some (Inr px, s)" "portalAt ?tab j k px"
      using walk by (auto simp: agrees_def)
    have j: "j < 8" "pdevice px = int j" using px(2) by (simp_all add: portalAt_def deviceIds_def)
    have "dev_open (?ds ! j) px caps s = Some (Inr (openDev px caps), s)"
      using static_device.open_keeps [OF devices_static [OF j(1)]] by blast
    then have "openFor ?ds m q (slash # join es) caps s =
        (case freeFd q s of None \<Rightarrow> Some (Inl EMFILE, s) | Some fd \<Rightarrow> Some (Inr fd, opened q fd (openDev px caps) s))"
      using run px(1) j by (auto simp: deviceAt_def split: option.splits)
    moreover have "portalAt ?tab j k (openDev px caps)" using px(2) by (simp add: portalAt_def openDev_def)
    ultimately show ?thesis using Found by (auto simp: opens_def openDev_def split: option.splits)
  next
    case (Missing e)
    then show ?thesis using walk run by (simp add: agrees_def opens_def)
  next
    case Fault
    then show ?thesis using walk run by (simp add: agrees_def opens_def)
  qed
qed

subsection \<open>Descriptors stay private\<close>

text \<open>Devices that change only their own state.\<close>

definition calm :: "'d Sys \<Rightarrow> 'd Sys \<Rightarrow> bool" where
  "calm s s' \<longleftrightarrow> kern s' = kern s \<and> portals s' = portals s \<and> fresh s' = fresh s"

lemma calm_later: "tidy s \<Longrightarrow> calm s s' \<Longrightarrow> later s s' \<and> kern s' = kern s"
  by (simp add: calm_def later_same)

definition calm_device :: "'d Sys Dev \<Rightarrow> bool" where
  "calm_device d \<longleftrightarrow>
     (\<forall>m path s p s'. dev_attach d m path s = Some (p, s') \<longrightarrow> calm s s') \<and>
     (\<forall>p caps s r s'. dev_open d p caps s = Some (r, s') \<longrightarrow> calm s s') \<and>
     (\<forall>p s s'. dev_close d p s = Some s' \<longrightarrow> calm s s') \<and>
     (\<forall>m p sz offset s r p' s'. dev_read d m p sz offset s = Some (r, p', s') \<longrightarrow> calm s s') \<and>
     (\<forall>m p buf sz offset s r p' s'. dev_write d m p buf sz offset s = Some (r, p', s') \<longrightarrow> calm s s')"

lemma calm_lift:
  assumes "\<And>w s. calm s (put w s)"
  shows "calm_device (liftDev get put d)"
  using assms by (auto simp: calm_device_def liftDev_def bind_eq_Some_conv)

lemma calm_part: "calm_device (liftPart get update d)"
  unfolding liftPart_def by (rule calm_lift) (simp add: calm_def)

lemma calm_timer: "calm_device (liftDev timerPart setTimerPart devTimer)"
  by (rule calm_lift) (simp add: calm_def setTimerPart_def)

lemma calm_root: "calm_device devRoot"
  by (auto simp: calm_device_def calm_def devRoot_def attachRoot_def attachStatic_def openRoot_def closeRoot_def readRoot_def
      readDirStatic_def writeRoot_def writeDenied_def bind_eq_Some_conv)

text \<open>The device of kernel services does what the services do.\<close>

definition tidy_services :: "'d Sys services \<Rightarrow> bool" where
  "tidy_services sv \<longleftrightarrow>
     (\<forall>s v s'. tidy s \<longrightarrow> readClock sv s = Some (v, s') \<longrightarrow> later s s') \<and>
     (\<forall>s v r s'. tidy s \<longrightarrow> writeClock sv v s = Some (r, s') \<longrightarrow> later s s') \<and>
     (\<forall>s txt s'. tidy s \<longrightarrow> consolePuts sv txt s = Some s' \<longrightarrow> later s s')"

lemma readDevDev_later:
  assumes "tidy_services sv" "tidy s" "readDevDev sv m p sz offset s = Some (r, p', s')"
  shows "later s s'"
  using assms
  by (auto simp: readDevDev_def readDate_def readDirStatic_def tidy_services_def bind_eq_Some_conv Let_def later_refl
      split: if_splits prod.splits)

lemma writeDevDev_later:
  assumes "tidy_services sv" "tidy s" "writeDevDev sv m p buf sz offset s = Some (r, p', s')"
  shows "later s s'"
  using assms
  by (auto simp: writeDevDev_def writeDate_def tidy_services_def bind_eq_Some_conv Let_def later_refl
      split: if_splits prod.splits)

lemma devices_tidy:
  assumes "tidy_services sv"
  shows "tidy_devices (devicesWith font sv)"
proof -
  have calm: "calm_device d \<or> d = devDev sv" if "d \<in> set (devicesWith font sv)" for d
    using that by (auto simp: devicesWith_def calm_part calm_timer calm_root)
  have dev: "attachDevDev m path s = Some (p, s') \<Longrightarrow> s' = s" "openDevDev p caps s = Some (ro, s') \<Longrightarrow> s' = s"
    "closeDevDev p s = Some s' \<Longrightarrow> s' = s" for m path p ro caps and s s' :: Manos
    by (auto simp: attachDevDev_def openDevDev_def closeDevDev_def bind_eq_Some_conv Let_def split: if_splits)
  show ?thesis
  proof
    fix d and s s' :: Manos
    assume d: "d \<in> set (devicesWith font sv)" and t: "tidy s"
    show "later s s' \<and> kern s' = kern s" if "dev_attach d m path s = Some (p, s')" for m path p
      using calm [OF d] that calm_later [OF t, of s'] dev(1) [of m path s p s'] later_refl [OF t]
      by (auto simp: calm_device_def devDev_def)
    show "later s s' \<and> kern s' = kern s" if "dev_open d px caps s = Some (ro, s')" for px caps ro
      using calm [OF d] that calm_later [OF t, of s'] dev(2) [of px caps s ro s'] later_refl [OF t]
      by (auto simp: calm_device_def devDev_def)
    show "later s s' \<and> kern s' = kern s" if "dev_close d px s = Some s'" for px
      using calm [OF d] that calm_later [OF t, of s'] dev(3) [of px s s'] later_refl [OF t]
      by (auto simp: calm_device_def devDev_def)
    show "later s s'" if "dev_read d m px sz offset s = Some (rr, p', s')" for m px sz offset rr p'
      using calm [OF d] that calm_later [OF t, of s'] readDevDev_later [OF assms t, of m px sz offset rr p' s']
      by (auto simp: calm_device_def devDev_def)
    show "later s s'" if "dev_write d m px buf sz offset s = Some (rw, p', s')" for m px buf sz offset rw p'
      using calm [OF d] that calm_later [OF t, of s'] writeDevDev_later [OF assms t, of m px buf sz offset rw p' s']
      by (auto simp: calm_device_def devDev_def)
  qed
qed

lemma noServices_tidy: "tidy_services noServices"
  by (simp add: tidy_services_def noServices_def)

interpretation inner: tidy_devices "devicesWith font noServices"
  by (rule devices_tidy [OF noServices_tidy])

lemma openClock_later: "openClock (devicesWith font noServices) m caps s = Some (fd, s') \<Longrightarrow> tidy s \<Longrightarrow> later s s'"
  by (auto simp: openClock_def bind_eq_Some_conv intro: inner.sysopen_later)

lemma kernelServices_tidy: "tidy_services (kernelServices font (devicesWith font noServices) m)"
  unfolding tidy_services_def
proof (intro conjI allI impI)
  fix s s' :: Manos assume t: "tidy s"
  show "later s s'" if run: "readClock (kernelServices font (devicesWith font noServices) m) s = Some (v, s')" for v
  proof -
    obtain fd s1 r s2 u s3 where c: "openClock (devicesWith font noServices) m CAP_READ s = Some (fd, s1)"
      "sysread (devicesWith font noServices) m fd 8 s1 = Some (r, s2)" "sysclose (devicesWith font noServices) fd s2 = Some (u, s3)"
      "(case r of Inr (n, out) \<Rightarrow> if length out = 8 then Some (bytesMsec (map ord8 out), s3) else None | Inl _ \<Rightarrow> None) = Some (v, s')"
      using run by (auto simp: kernelServices_def bind_eq_Some_conv)
    have s3: "s3 = s'" using c(4) by (cases r) (auto split: if_splits)
    note o = openClock_later [OF c(1) t]
    note r = inner.sysread_later [OF c(2) later_tidy [OF o]]
    show ?thesis by (rule later_trans [OF later_trans [OF o r] inner.sysclose_later [OF c(3) [unfolded s3] later_tidy [OF r]]])
  qed
  show "later s s'" if run: "writeClock (kernelServices font (devicesWith font noServices) m) v s = Some (r, s')" for v r
  proof -
    obtain fd s1 s2 u where c: "openClock (devicesWith font noServices) m CAP_WRITE s = Some (fd, s1)"
      "syswrite (devicesWith font noServices) m fd (map chr8 (msecBytes v)) 8 s1 = Some (r, s2)"
      "sysclose (devicesWith font noServices) fd s2 = Some (u, s')"
      using run by (auto simp: kernelServices_def bind_eq_Some_conv)
    note o = openClock_later [OF c(1) t]
    note w = inner.syswrite_later [OF c(2) later_tidy [OF o]]
    show ?thesis by (rule later_trans [OF later_trans [OF o w] inner.sysclose_later [OF c(3) later_tidy [OF w]]])
  qed
  show "later s s'" if "consolePuts (kernelServices font (devicesWith font noServices) m) ss s = Some s'" for ss
  proof -
    have "calm s s'" using that by (auto simp: kernelServices_def bind_eq_Some_conv calm_def)
    then show ?thesis using calm_later [OF t] by blast
  qed
qed

interpretation files: tidy_devices "deviceTable font m"
  unfolding deviceTable_def by (rule devices_tidy [OF kernelServices_tidy])

subsection \<open>Names of files\<close>

lemma rootSNS_tree:
  "kids rootSNS 0 = [1, 2]" "kids rootSNS 1 = [3, 4, 5, 6, 7, 8, 9, 10, 11, 12]" "kids rootSNS 2 = [13, 14, 15, 16, 17, 18, 19, 20, 21]"
  "isdir rootSNS 0" "isdir rootSNS 1" "isdir rootSNS 2" "nodes rootSNS = 22"
  unfolding columns_facts [OF rootSNS_columns]
  by (simp_all add: columns_facts(2) [OF rootSNS_columns] upt_from)

lemma rootSNS_names:
  "sname (rootSNS ! 0) = ''.''" "sname (rootSNS ! Suc 0) = ''bin''" "sname (rootSNS ! 2) = ''dev''"
  "sname (rootSNS ! 3) = ''pwd''" "sname (rootSNS ! 4) = ''ls''" "sname (rootSNS ! 5) = ''cat''"
  "sname (rootSNS ! 6) = ''echo''" "sname (rootSNS ! 7) = ''date''" "sname (rootSNS ! 8) = ''toast''"
  "sname (rootSNS ! 9) = ''lsmem''" "sname (rootSNS ! 10) = ''ps''" "sname (rootSNS ! 11) = ''fg''"
  "sname (rootSNS ! 12) = ''fizzbuzz''" "sname (rootSNS ! 13) = ''swpb''" "sname (rootSNS ! 14) = ''led''"
  "sname (rootSNS ! 15) = ''uart''" "sname (rootSNS ! 16) = ''lcd''" "sname (rootSNS ! 17) = ''adc''"
  "sname (rootSNS ! 18) = ''timer''" "sname (rootSNS ! 19) = ''date''" "sname (rootSNS ! 20) = ''kprint''"
  "sname (rootSNS ! 21) = ''interrupts''"
  by (simp_all add: rootSNS_def)

lemma not_dir: "3 \<le> i \<Longrightarrow> i < 22 \<Longrightarrow> \<not> isdir rootSNS i"
proof -
  assume "3 \<le> i" "i < 22"
  then show ?thesis using columns_facts(2) [OF rootSNS_columns, of i] by (auto simp: nth_Cons' split: if_splits)
qed

text \<open>The mount points of \<open>/dev\<close> that the properties use: their nodes and where they lead.\<close>

lemma root_mounts:
  "isMount rootSNS 14" "mountTarget entryOf rootSNS 14 = Some (1, 0)"
  "isMount rootSNS 18" "mountTarget entryOf rootSNS 18 = Some (6, 0)"
  "isMount rootSNS 19" "mountTarget entryOf rootSNS 19 = Some (7, 1)"
  by (simp_all add: isMount_def mountTarget_def mountPath_def fromDeviceId_def deviceIds_def rootSNS_def entryOf_def Let_def
      devdevEntry_def)

text \<open>A path below a mount point goes on in the device mounted there.\<close>

lemma lookup_mount:
  assumes "find_child rootSNS 2 mnt = Some k" "mnt \<noteq> ''.''" "mnt \<noteq> ''..''" "3 \<le> k" "k < 22" "isMount rootSNS k"
    "mountTarget entryOf rootSNS k = Some (j, n)"
  shows "lookup s (''dev'' # mnt # es) = resolve (\<lambda>i. tableOf i s) entryOf j n es"
proof -
  have "find_child rootSNS 0 ''dev'' = Some 2" by (simp add: find_child_def rootSNS_tree rootSNS_names)
  then have "fst (walk_spec rootSNS 0 (''dev'' # mnt # es)) = [2, k]"
    using assms not_dir [of k] by (cases es) (simp_all add: rootSNS_tree)
  then obtain e1 where "walk_spec rootSNS 0 (''dev'' # mnt # es) = ([2, k], e1)" by (metis prod.collapse)
  moreover have "tableOf 0 s = rootSNS" by (simp add: tableOf_def)
  ultimately show ?thesis
    unfolding lookup_def
    using assms(6,7) by (subst resolve.simps) (simp add: rootSNS_tree del: walk_spec.simps)
qed

definition ledFiles :: "(string \<times> LedColor) list" where
  "ledFiles = [(''orange'', LedOrange), (''yellow'', LedYellow), (''green'', LedGreen), (''blue'', LedBlue)]"

lemma lookup_led:
  assumes "(nm, c) \<in> set ledFiles"
  shows "\<exists>k. lookup s [''dev'', ''led'', nm] = Found 1 k \<and> k < nodes ledSNS \<and> ledOf (scrumb (ledSNS ! k)) = Some c"
proof -
  have tree: "kids ledSNS 0 = [1, 2, 3, 4]" "isdir ledSNS 0" "nodes ledSNS = 5"
    by (simp_all add: kids_def kidsFrom_def isdir_def par_def nodes_def ledSNS_def fid_indices upt_from)
  have plain: "\<not> isMount ledSNS k" if "k < 5" for k using plainNS_mount [OF static_tables_plain(1)] that tree(3) by simp
  have "find_child rootSNS 2 ''led'' = Some 14" by (simp add: find_child_def rootSNS_tree rootSNS_names)
  then have go: "lookup s [''dev'', ''led'', nm] = resolve (\<lambda>i. tableOf i s) entryOf 1 0 [nm]"
    by (rule lookup_mount) (simp_all add: root_mounts)
  have names: "sname (ledSNS ! Suc 0) = ''orange''" "sname (ledSNS ! 2) = ''yellow''" "sname (ledSNS ! 3) = ''green''"
    "sname (ledSNS ! 4) = ''blue''" "ledOf (scrumb (ledSNS ! Suc 0)) = Some LedOrange" "ledOf (scrumb (ledSNS ! 2)) = Some LedYellow"
    "ledOf (scrumb (ledSNS ! 3)) = Some LedGreen" "ledOf (scrumb (ledSNS ! 4)) = Some LedBlue"
    by (simp_all add: ledSNS_def ledOf_def fid_indices)
  obtain k where k: "k < 5" "find_child ledSNS 0 nm = Some k" "ledOf (scrumb (ledSNS ! k)) = Some c" "nm \<noteq> ''.''" "nm \<noteq> ''..''"
    using assms by (auto simp: ledFiles_def find_child_def tree names)
  have "resolve (\<lambda>i. tableOf i s) entryOf 1 0 [nm] = Found 1 k"
    using k tree plain [OF k(1)] by (subst resolve.simps) (simp add: tableOf_def)
  then show ?thesis using go k tree(3) by auto
qed

subsection \<open>A file from opening to closing\<close>

lemma sysopen_opens:
  assumes "world_ok s" "roomy m" "rp (kern s) = Some q" "rooted q s" "names_ok es"
  shows "opens q es caps s (sysopen (devicesWith font sv) m (slash # join es) caps s)"
  using openFor_opens [OF assms(1,2,4,5)] assms(3) by (simp add: sysopen_def)

text \<open>Writing through a descriptor just opened, at a device that keeps its state apart, and closing it.\<close>

lemma opened_sel:
  "kern (opened q fd p s) = upd q (\<lambda>x. x\<lparr>fds := (fds x)(fd \<mapsto> fresh s)\<rparr>) (kern s)"
  "portals (opened q fd p s) = (portals s)(fresh s \<mapsto> p)" "devst (opened q fd p s) = devst s"
  by (simp_all add: opened_def setFd_def)

lemma freeFd_free: "freeFd q s = Some fd \<Longrightarrow> fd < MANOS_MAXFD \<and> fds (procs (kern s) q) fd = None \<and> (\<forall>n < fd. fds (procs (kern s) q) n \<noteq> None)"
  by (auto simp: freeFd_def find_Some_iff)

lemma opened_descriptor:
  "rp (kern s) = Some q \<Longrightarrow> fd < MANOS_MAXFD \<Longrightarrow> descriptor (int fd) (opened q fd p s) = Some (q, Some (fresh s))"
  by (simp add: descriptor_def opened_sel upd_def)

text \<open>Closing gives the descriptor back: the processes are as before.\<close>

lemma reopened_kern:
  "fds (procs k q) fd = None \<Longrightarrow>
   upd q (\<lambda>x. x\<lparr>fds := (fds x)(fd := None)\<rparr>) (upd q (\<lambda>x. x\<lparr>fds := (fds x)(fd \<mapsto> a)\<rparr>) k) = k"
proof -
  assume free: "fds (procs k q) fd = None"
  then have "(fds (procs k q))(fd := None) = fds (procs k q)" by (rule fun_upd_idem)
  then show ?thesis by (simp add: upd_def fun_upd_idem)
qed

lemma write_opened:
  assumes "rp (kern s) = Some q" "fd < MANOS_MAXFD" "deviceAt ds (pdevice p) = Some d"
    and "dev_write d m p buf n (poffset p) (opened q fd p s) = Some (r, p', s1)"
  shows "syswrite ds m (int fd) buf n (opened q fd p s) = Some (r, setPortal (fresh s) p' s1)"
  using assms by (simp add: syswrite_def opened_descriptor opened_sel)

lemma close_opened:
  assumes "rp (kern s) = Some q" "fd < MANOS_MAXFD" "fds (procs (kern s) q) fd = None" "kern s1 = kern (opened q fd p s)"
    and "portals s1 (fresh s) = Some p1" "0 \<le> pdevice p1" "pdevice p1 < MANOS_MAXDEV" "deviceAt ds (pdevice p1) = Some d"
    and "dev_close d p1 s1 = Some s2" "kern s2 = kern s1"
  shows "\<exists>s3. sysclose ds (int fd) s1 = Some (Inr (), s3) \<and> kern s3 = kern s \<and> devst s3 = devst s2"
proof -
  have d: "descriptor (int fd) s1 = Some (q, Some (fresh s))"
    using assms(1,2,4) by (simp add: descriptor_def opened_sel upd_def)
  have "sysclose ds (int fd) s1 = Some (Inr (), setFd q fd None (s2\<lparr>portals := (portals s2)(fresh s := None)\<rparr>))"
    using assms(5-9) by (simp add: sysclose_def d)
  moreover have "kern (setFd q fd None (s2\<lparr>portals := (portals s2)(fresh s := None)\<rparr>)) = kern s"
    using assms(4,10) reopened_kern [OF assms(3)] by (simp add: setFd_def opened_sel)
  ultimately show ?thesis by (auto simp: setFd_def)
qed

text \<open>The lights.\<close>

lemma write_led_file:
  assumes "ledOf (pcrumb p) = Some c"
  shows "\<exists>g. dev_write (liftPart ledPins ledPins_update devLed) m p ''1'' 1 off s =
      Some (Inr 1, p, s\<lparr>devst := (devst s)\<lparr>ledPins := g\<rparr>\<rparr>) \<and> (\<forall>c'. lit c' g \<longleftrightarrow> c' = c \<or> lit c' (ledPins (devst s)))"
  using assms
  by (intro exI [of _ "setLed c LedOn (ledPins (devst s))"]) (simp add: liftPart_def liftDev_def devLed_def writeLed_def lit_setLed)

lemma close_led_file: "dev_close (liftPart ledPins ledPins_update devLed) p s = Some s"
  by (simp add: liftPart_def liftDev_def devLed_def closeLed_def)

lemma led_file:
  assumes "world_ok s" "roomy m" "rp (kern s) = Some q" "rooted q s" "freeFd q s = Some fd" "(nm, c) \<in> set ledFiles"
  shows "\<exists>s1 s2 s3.
    sysopen (devicesWith font sv) m (slash # join [''dev'', ''led'', nm]) CAP_WRITE s = Some (Inr fd, s1) \<and>
    syswrite (devicesWith font sv) m (int fd) ''1'' 1 s1 = Some (Inr 1, s2) \<and>
    sysclose (devicesWith font sv) (int fd) s2 = Some (Inr (), s3) \<and> kern s3 = kern s \<and>
    (\<forall>c'. lit c' (ledPins (devst s3)) \<longleftrightarrow> c' = c \<or> lit c' (ledPins (devst s)))"
proof -
  let ?ds = "devicesWith font sv"
  obtain k where k: "lookup s [''dev'', ''led'', nm] = Found 1 k" "k < nodes ledSNS" "ledOf (scrumb (ledSNS ! k)) = Some c"
    using lookup_led [OF assms(6)] by blast
  have "names_ok [''dev'', ''led'', nm]" using assms(6) by (auto simp: names_ok_def plain_def ledFiles_def)
  from sysopen_opens [OF assms(1-4) this, of CAP_WRITE font sv] obtain p where p: "portalAt (\<lambda>i. tableOf i s) 1 k p"
    "sysopen ?ds m (slash # join [''dev'', ''led'', nm]) CAP_WRITE s = Some (Inr fd, opened q fd p s)"
    by (auto simp: opens_def k(1) assms(5))
  have dev: "pdevice p = 1" "ledOf (pcrumb p) = Some c" using p(1) k(3) by (simp_all add: portalAt_def tableOf_def)
  have at: "deviceAt ?ds 1 = Some (liftPart ledPins ledPins_update devLed)" by (simp add: deviceAt_def devicesWith_def)
  note fd = freeFd_free [OF assms(5)]
  obtain g where g: "dev_write (liftPart ledPins ledPins_update devLed) m p ''1'' 1 (poffset p) (opened q fd p s) =
      Some (Inr 1, p, (opened q fd p s)\<lparr>devst := (devst s)\<lparr>ledPins := g\<rparr>\<rparr>)"
    "\<forall>c'. lit c' g \<longleftrightarrow> c' = c \<or> lit c' (ledPins (devst s))"
    using write_led_file [OF dev(2), of m "poffset p" "opened q fd p s"] by (auto simp: opened_sel)
  define s2 where "s2 = setPortal (fresh s) p ((opened q fd p s)\<lparr>devst := (devst s)\<lparr>ledPins := g\<rparr>\<rparr>)"
  have w: "syswrite ?ds m (int fd) ''1'' 1 (opened q fd p s) = Some (Inr 1, s2)"
    unfolding s2_def using write_opened [OF assms(3) _ _ g(1)] fd dev(1) at by simp
  have "kern s2 = kern (opened q fd p s)" "portals s2 (fresh s) = Some p" by (simp_all add: s2_def setPortal_def)
  with close_opened [OF assms(3) _ _ this _ _ _ close_led_file refl] obtain s3 where "sysclose ?ds (int fd) s2 = Some (Inr (), s3)" "kern s3 = kern s" "devst s3 = devst s2"
    using fd dev(1) at by auto
  then show ?thesis using p(2) w g(2) by (auto simp: s2_def setPortal_def)
qed

text \<open>Below a mount point that leads to a file.\<close>

lemma lookup_below_date: "lookup s (''dev'' # ''date'' # nm # es) = Fault"
proof -
  have "find_child rootSNS 2 ''date'' = Some 19" by (simp add: find_child_def rootSNS_tree rootSNS_names)
  then have "lookup s (''dev'' # ''date'' # nm # es) = resolve (\<lambda>i. tableOf i s) entryOf 7 1 (nm # es)"
    by (rule lookup_mount) (simp_all add: root_mounts)
  moreover have "\<not> isdir (tableOf 7 s) 1" by (simp add: isdir_def tableOf_def devdevSNS_def)
  ultimately show ?thesis by (subst (asm) resolve.simps) simp
qed

subsection \<open>An example\<close>

text \<open>The devices after their reset, with one port, and process 3 running at the root.\<close>

definition exUartNS :: "StaticNS list" where
  "exUartNS = flatNS [nsRow ''k70Uart'' 0 1 CRUMB_ISFILE UartDataFile M0666 (HwContents 0)]"

definition exDevices :: Devices where
  "exDevices =
     \<lparr>ledPins = exPins, swpbPins = exPins,
      uartDev = \<lparr>uplugged = [], uarts = [exUart], uartSNS = Some exUartNS, umalloc = (\<lambda>_. None), ulits = (\<lambda>s. s), urunning = True,
        uirqs = [], uposted = []\<rparr>,
      lcdDev = \<lparr>lcdHotplug = None, lcdScreen = None\<rparr>, adcDev = \<lparr>adcRegs = \<lambda>_. 0, adcSample = \<lambda>_. None\<rparr>, timerDev = exTimers,
      svcInterruptCount = 0, systickInterruptCount = 0, pendsvInterruptCount = 0\<rparr>"

definition exRootPortal :: Portal where
  "exRootPortal = \<lparr>pdevice = 0, pflags = 0, pcrumb = scrumb (rootSNS ! 0), pcaps = 0, poffset = 0\<rparr>"

definition exWorld :: Manos where
  "exWorld =
     \<lparr>kern = upd 3 (\<lambda>x. x\<lparr>pslash := Some 0, pdot := Some 1\<rparr>) exKern, portals = [0 \<mapsto> exRootPortal, 1 \<mapsto> exRootPortal], fresh = 2,
      klog = [], words = (\<lambda>_. 0), devst = exDevices\<rparr>"

lemma exWorld_ok: "world_ok exWorld"
proof -
  have "sns_wf exUartNS" unfolding exUartNS_def by (rule flatNS_wf) simp_all
  moreover have "plainNS exUartNS" "plainNS (flatNS (timerRows 0 k70Timer))"
    by (simp_all add: plainNS_def exUartNS_def flatNS_def k70Timer_def nsEnd_def MKSTATICNS_SENTINEL_CRUMB_def)
  moreover have "timerSNS exTimers = Some (flatNS (timerRows 0 k70Timer))" by (simp add: exTimers_def)
  ultimately show ?thesis using exTimers_ok by (simp add: world_ok_def exWorld_def exDevices_def uart_ok_def)
qed

lemma exWorld_kern:
  "rp (kern exWorld) = Some 3" "fds (procs (kern exWorld) q) fd = None" "pslash (procs (kern exWorld) 3) = Some 0"
  "pdot (procs (kern exWorld) 3) = Some 1" "q \<noteq> 3 \<Longrightarrow> pslash (procs (kern exWorld) q) = None" "q \<noteq> 3 \<Longrightarrow> pdot (procs (kern exWorld) q) = None"
  by (simp_all add: exWorld_def upd_def exampleKern_def exampleProc_def)

lemma exWorld_portal: "portalAt (\<lambda>i. tableOf i exWorld) 0 0 exRootPortal"
  by (simp add: portalAt_def deviceIds_def tableOf_def exRootPortal_def rootSNS_tree)

lemma exWorld_rooted: "rooted 3 exWorld"
  using exWorld_portal by (simp add: rooted_def exWorld_kern) (simp add: exWorld_def)

lemma exWorld_tidy: "tidy exWorld"
proof -
  have held: "held exWorld h = (if h = Slash 3 then Some 0 else if h = Dot 3 then Some 1 else None)" for h
    using exWorld_kern by (cases h) auto
  have "portals exWorld = [0 \<mapsto> exRootPortal, 1 \<mapsto> exRootPortal]" "fresh exWorld = 2" by (simp_all add: exWorld_def)
  then show ?thesis unfolding tidy_def held by (auto split: if_splits)
qed

lemma exMem_roomy: "roomy exMem"
  by (simp add: roomy_def exMem_def)

lemma exWorld_freeFd: "freeFd 3 exWorld = Some 0"
  unfolding freeFd_def using exWorld_kern(2) [of 3 0] by (subst upt_rec) simp

subsection \<open>Properties\<close>

text \<open>
  C4: walking a path follows the tables of the devices across their mount points: from a portal at any
  node, \<open>syswalk\<close> ends where the specification says, with its error where it finds nothing, and fails to
  return exactly where the path goes on below a file that a mount point leads to.
\<close>

theorem syswalk_follows_mounts:
  assumes "world_ok s" "roomy m" "portalAt (\<lambda>i. tableOf i s) i n p" "length path < 2 ^ 28"
  shows "agrees (\<lambda>i. tableOf i s) s (syswalk (deviceTable font m') m p path s)
    (if path \<noteq> [] \<and> \<not> isdir (tableOf i s) n then Missing ENOTDIR else resolve (\<lambda>i. tableOf i s) entryOf i n path)"
  unfolding deviceTable_def by (rule world.syswalk_resolves [OF assms(1) _ assms(3,4)]) (use assms(2) in \<open>simp_all add: roomy_def\<close>)

theorem syswalk_follows_mounts_witness:
  "\<forall>font. \<exists>p k. syswalk (deviceTable font exMem) exMem exRootPortal [''dev'', ''led'', ''blue''] exWorld = Some (Inr p, exWorld) \<and>
     pdevice p = 1 \<and> pcrumb p = scrumb (ledSNS ! k) \<and> ledOf (pcrumb p) = Some LedBlue"
proof
  fix font
  obtain k where k: "lookup exWorld [''dev'', ''led'', ''blue''] = Found 1 k" "ledOf (scrumb (ledSNS ! k)) = Some LedBlue"
    using lookup_led [of "''blue''" LedBlue exWorld] by (auto simp: ledFiles_def)
  have "agrees (\<lambda>i. tableOf i exWorld) exWorld
      (syswalk (deviceTable font exMem) exMem exRootPortal [''dev'', ''led'', ''blue''] exWorld) (Found 1 k)"
    using syswalk_follows_mounts [OF exWorld_ok exMem_roomy exWorld_portal, of "[''dev'', ''led'', ''blue'']" font exMem] k(1)
    by (simp add: lookup_def isdir_root)
  then show "\<exists>p k. syswalk (deviceTable font exMem) exMem exRootPortal [''dev'', ''led'', ''blue''] exWorld = Some (Inr p, exWorld) \<and>
     pdevice p = 1 \<and> pcrumb p = scrumb (ledSNS ! k) \<and> ledOf (pcrumb p) = Some LedBlue"
    using k(2) by (auto simp: agrees_def portalAt_def tableOf_def)
qed

text \<open>
  C11: opening an absolute path gives the lowest free descriptor of the process a new portal at the node
  the path names, at offset 0 and with the capabilities asked for, and changes nothing else; it fails with
  the error of the walk where the path names nothing, and with \<open>EMFILE\<close> when no descriptor is free.
\<close>

theorem sysopen_lowest_descriptor:
  assumes "world_ok s" "roomy m" "rp (kern s) = Some q" "rooted q s" "names_ok es"
  shows "case lookup s es of
      Fault \<Rightarrow> sysopen (deviceTable font m') m (slash # join es) caps s = None
    | Missing e \<Rightarrow> sysopen (deviceTable font m') m (slash # join es) caps s = Some (Inl e, s)
    | Found j k \<Rightarrow>
        (if \<forall>fd < MANOS_MAXFD. fds (procs (kern s) q) fd \<noteq> None
         then sysopen (deviceTable font m') m (slash # join es) caps s = Some (Inl EMFILE, s)
         else \<exists>fd p. fd < MANOS_MAXFD \<and> fds (procs (kern s) q) fd = None \<and> (\<forall>n < fd. fds (procs (kern s) q) n \<noteq> None) \<and>
               portalAt (\<lambda>i. tableOf i s) j k p \<and> poffset p = 0 \<and> pcaps p = caps \<and>
               sysopen (deviceTable font m') m (slash # join es) caps s = Some (Inr fd, opened q fd p s))"
proof -
  have free: "freeFd q s = None \<longleftrightarrow> (\<forall>fd < MANOS_MAXFD. fds (procs (kern s) q) fd \<noteq> None)"
    by (auto simp: freeFd_def find_None_iff)
  show ?thesis
  proof (cases "lookup s es")
    case (Found j k)
    show ?thesis
    proof (cases "freeFd q s")
      case None
      then show ?thesis
        using sysopen_opens [OF assms, of caps font "kernelServices font (devicesWith font noServices) m'"] Found free
        by (simp add: opens_def deviceTable_def)
    next
      case (Some fd)
      then have "\<not> (\<forall>fd < MANOS_MAXFD. fds (procs (kern s) q) fd \<noteq> None)" using free by simp
      then show ?thesis
        using sysopen_opens [OF assms, of caps font "kernelServices font (devicesWith font noServices) m'"] Found freeFd_free [OF Some] Some
        by (auto simp: opens_def deviceTable_def)
    qed
  qed (use sysopen_opens [OF assms, of caps font "kernelServices font (devicesWith font noServices) m'"] in
      \<open>simp_all add: opens_def deviceTable_def\<close>)
qed

theorem sysopen_lowest_descriptor_witness:
  "\<forall>font. \<exists>fd p s'. sysopen (deviceTable font exMem) exMem ''/dev/led/green'' CAP_WRITE exWorld = Some (Inr fd, s') \<and>
     s' = opened 3 fd p exWorld \<and> pdevice p = 1 \<and> ledOf (pcrumb p) = Some LedGreen \<and> pcaps p = CAP_WRITE"
proof
  fix font
  obtain k where k: "lookup exWorld [''dev'', ''led'', ''green''] = Found 1 k" "ledOf (scrumb (ledSNS ! k)) = Some LedGreen"
    using lookup_led [of "''green''" LedGreen exWorld] by (auto simp: ledFiles_def)
  have names: "names_ok [''dev'', ''led'', ''green'']" by (simp add: names_ok_def plain_def)
  have some: "\<not> (\<forall>fd < MANOS_MAXFD. fds (procs (kern exWorld) 3) fd \<noteq> None)"
    using exWorld_kern(2) [of 3 0] by (metis zero_less_numeral)
  obtain fd p where "portalAt (\<lambda>i. tableOf i exWorld) 1 k p" "pcaps p = CAP_WRITE"
    "sysopen (deviceTable font exMem) exMem (slash # join [''dev'', ''led'', ''green'']) CAP_WRITE exWorld = Some (Inr fd, opened 3 fd p exWorld)"
    using sysopen_lowest_descriptor [OF exWorld_ok exMem_roomy exWorld_kern(1) exWorld_rooted names, of font exMem CAP_WRITE]
    unfolding k(1) outcome.case if_not_P [OF some] by blast
  then show "\<exists>fd p s'. sysopen (deviceTable font exMem) exMem ''/dev/led/green'' CAP_WRITE exWorld = Some (Inr fd, s') \<and>
     s' = opened 3 fd p exWorld \<and> pdevice p = 1 \<and> ledOf (pcrumb p) = Some LedGreen \<and> pcaps p = CAP_WRITE"
    using k(2) by (auto simp: portalAt_def tableOf_def)
qed

text \<open>
  C6: no sequence of calls on files, by processes that take turns, lets two descriptors share a portal, a
  descriptor refer to a portal that was freed, or a descriptor share the portal of a process's root or
  working directory; this includes the calls the kernel makes for itself in \<open>/dev/date\<close>.
\<close>

theorem descriptors_stay_private:
  assumes "(file_call (deviceTable font m) m)\<^sup>*\<^sup>* s s'" "tidy s"
  shows "tidy s'"
  using files.file_calls_later [OF assms] by (rule later_tidy)

theorem descriptors_stay_private_witness:
  "\<forall>font. \<exists>fd s'. sysopen (deviceTable font exMem) exMem ''/dev/led/green'' CAP_WRITE exWorld = Some (Inr fd, s') \<and> tidy s'"
proof
  fix font
  obtain fd s1 s2 s3 where f: "sysopen (deviceTable font exMem) exMem (slash # join [''dev'', ''led'', ''green'']) CAP_WRITE exWorld = Some (Inr fd, s1)"
    using led_file [OF exWorld_ok exMem_roomy exWorld_kern(1) exWorld_rooted exWorld_freeFd, of "''green''" LedGreen]
    unfolding deviceTable_def by (fastforce simp: ledFiles_def)
  have "(file_call (deviceTable font exMem) exMem)\<^sup>*\<^sup>* exWorld s1" by (rule r_into_rtranclp) (rule call_open [OF f])
  then have "tidy s1" by (rule descriptors_stay_private [OF _ exWorld_tidy])
  then show "\<exists>fd s'. sysopen (deviceTable font exMem) exMem ''/dev/led/green'' CAP_WRITE exWorld = Some (Inr fd, s') \<and> tidy s'"
    using f by auto
qed

text \<open>
  Writing \<open>1\<close> to a light's file lights that light and no other: a process opens the file by its path,
  writes to the descriptor and closes it, and is left with the descriptors it had.
\<close>

theorem led_file_lights:
  assumes "world_ok s" "roomy m" "rp (kern s) = Some q" "rooted q s" "freeFd q s = Some fd" "(nm, c) \<in> set ledFiles"
  shows "\<exists>s1 s2 s3.
    sysopen (deviceTable font m') m (slash # join [''dev'', ''led'', nm]) CAP_WRITE s = Some (Inr fd, s1) \<and>
    syswrite (deviceTable font m') m (int fd) ''1'' 1 s1 = Some (Inr 1, s2) \<and>
    sysclose (deviceTable font m') (int fd) s2 = Some (Inr (), s3) \<and> kern s3 = kern s \<and>
    (\<forall>c'. lit c' (ledPins (devst s3)) \<longleftrightarrow> c' = c \<or> lit c' (ledPins (devst s)))"
  unfolding deviceTable_def by (rule led_file [OF assms])

theorem led_file_lights_witness:
  "\<forall>font. \<exists>s1 s2. sysopen (deviceTable font exMem) exMem ''/dev/led/blue'' CAP_WRITE exWorld = Some (Inr 0, s1) \<and>
     syswrite (deviceTable font exMem) exMem 0 ''1'' 1 s1 = Some (Inr 1, s2)"
proof
  fix font
  have "(''blue'', LedBlue) \<in> set ledFiles" by (simp add: ledFiles_def)
  from led_file_lights [OF exWorld_ok exMem_roomy exWorld_kern(1) exWorld_rooted exWorld_freeFd this, of font exMem]
  show "\<exists>s1 s2. sysopen (deviceTable font exMem) exMem ''/dev/led/blue'' CAP_WRITE exWorld = Some (Inr 0, s1) \<and>
     syswrite (deviceTable font exMem) exMem 0 ''1'' 1 s1 = Some (Inr 1, s2)" by auto
qed

text \<open>
  C39: A path that goes on below \<open>/dev/date\<close>, which is a file, makes the kernel follow a null pointer: the
  mounted device gives no trail, and the walk does not look.
\<close>

theorem path_below_file_faults:
  assumes "world_ok s" "roomy m" "rp (kern s) = Some q" "rooted q s" "names_ok (''dev'' # ''date'' # nm # es)"
  shows "sysopen (deviceTable font m') m (slash # join (''dev'' # ''date'' # nm # es)) caps s = None"
  using sysopen_opens [OF assms, of caps font "kernelServices font (devicesWith font noServices) m'"] lookup_below_date
  by (simp add: opens_def deviceTable_def)

theorem path_below_file_faults_witness:
  "\<forall>font. sysopen (deviceTable font exMem) exMem ''/dev/date/year'' CAP_READ exWorld = None"
proof
  fix font
  have "names_ok (''dev'' # ''date'' # ''year'' # [])" by (simp add: names_ok_def plain_def)
  from path_below_file_faults [OF exWorld_ok exMem_roomy exWorld_kern(1) exWorld_rooted this]
  show "sysopen (deviceTable font exMem) exMem ''/dev/date/year'' CAP_READ exWorld = None" by simp
qed

end
