(* ===== verification/Typed.thy ===== *)
theory Typed
  imports Files
begin

text \<open>
  The typing of portals: every portal the kernel keeps stands at a node of the table of its device, and no call
  on files changes that. What the calls ask of the devices is the locale \<open>typed_devices\<close>.
\<close>

subsection \<open>Typed states\<close>

definition atNode :: "Manos \<Rightarrow> Portal \<Rightarrow> bool" where
  "atNode s p \<longleftrightarrow> (\<exists>i n. portalAt (\<lambda>i. tableOf i s) i n p)"

definition typed :: "Manos \<Rightarrow> bool" where
  "typed s \<longleftrightarrow> world_ok s \<and> (\<forall>a p. portals s a = Some p \<longrightarrow> atNode s p)"

text \<open>The two namespaces that are made at the start stay as they are.\<close>

definition sameNS :: "Manos \<Rightarrow> Manos \<Rightarrow> bool" where
  "sameNS s s' \<longleftrightarrow> uartSNS (uartDev (devst s')) = uartSNS (uartDev (devst s)) \<and>
     timerSNS (timerDev (devst s')) = timerSNS (timerDev (devst s))"

definition stays :: "Manos \<Rightarrow> Manos \<Rightarrow> bool" where
  "stays s s' \<longleftrightarrow> typed s' \<and> sameNS s s'"

lemma sameNS_refl [simp]: "sameNS s s"
  by (simp add: sameNS_def)

lemma sameNS_tables:
  assumes "sameNS s s'"
  shows "world_ok s' = world_ok s" "atNode s' = atNode s"
proof -
  have "tableOf i s' = tableOf i s" for i using assms by (simp add: tableOf_def sameNS_def)
  then show "atNode s' = atNode s" by (simp add: atNode_def fun_eq_iff)
  show "world_ok s' = world_ok s" using assms by (simp add: world_ok_def uart_ok_def timer_ok_def sameNS_def)
qed

lemma stays_refl: "typed s \<Longrightarrow> stays s s"
  by (simp add: stays_def)

lemma stays_trans: "stays s s' \<Longrightarrow> stays s' s'' \<Longrightarrow> stays s s''"
  by (simp add: stays_def sameNS_def)

lemma stays_typed: "stays s s' \<Longrightarrow> typed s'"
  by (simp add: stays_def)

lemma stays_portals:
  assumes "typed s" "sameNS s s'" "\<And>a p. portals s' a = Some p \<Longrightarrow> portals s a = Some p \<or> atNode s p"
  shows "stays s s'"
  using assms sameNS_tables [OF assms(2)] by (auto simp: stays_def typed_def)

text \<open>A portal that only moves in its file.\<close>

definition sameNode :: "Portal \<Rightarrow> Portal \<Rightarrow> bool" where
  "sameNode p p' \<longleftrightarrow> pdevice p' = pdevice p \<and> pcrumb p' = pcrumb p"

lemma sameNode_refl [simp]: "sameNode p p" "sameNode p (p\<lparr>poffset := x\<rparr>)"
  by (simp_all add: sameNode_def)

lemma sameNode_at: "sameNode p p' \<Longrightarrow> atNode s p' = atNode s p"
  by (simp add: atNode_def portalAt_def sameNode_def)

subsection \<open>The devices\<close>

lemma readStaticNS_node: "readStaticNS sk p ns sz offset = Some (n, out, p') \<Longrightarrow> sameNode p p'"
  by (auto simp: readStaticNS_def Let_def bind_eq_Some_conv split: if_splits contents.splits)

lemma readDirStatic_node: "readDirStatic ns m p sz offset w = Some (r, p', w') \<Longrightarrow> sameNode p p' \<and> w' = w"
  by (auto simp: readDirStatic_def bind_eq_Some_conv dest: readStaticNS_node)

text \<open>A device whose reads and writes leave the portal at its node, and whose calls keep a part of its state.\<close>

definition node_device :: "('w \<Rightarrow> 'x) \<Rightarrow> 'w Dev \<Rightarrow> bool" where
  "node_device f d \<longleftrightarrow>
     (\<forall>p w w'. dev_close d p w = Some w' \<longrightarrow> f w' = f w) \<and>
     (\<forall>m p sz offset w r p' w'. dev_read d m p sz offset w = Some (r, p', w') \<longrightarrow> sameNode p p' \<and> f w' = f w) \<and>
     (\<forall>m p buf sz offset w r p' w'. dev_write d m p buf sz offset w = Some (r, p', w') \<longrightarrow> sameNode p p' \<and> f w' = f w)"

lemma node_led: "node_device (\<lambda>_. ()) devLed"
  by (auto simp: node_device_def devLed_def readLed_def writeLed_def dest: readDirStatic_node split: if_split_asm option.split_asm list.split_asm)

lemma node_swpb: "node_device (\<lambda>_. ()) devSwpb"
  by (auto simp: node_device_def devSwpb_def readSwpb_def writeSwpb_def writeDenied_def Let_def dest: readDirStatic_node split: if_split_asm)

lemma node_lcd: "node_device (\<lambda>_. ()) (devLcd font)"
  by (auto simp: node_device_def devLcd_def readLcd_def writeLcd_def bind_eq_Some_conv dest: readDirStatic_node
      split: if_split_asm option.split_asm sum.split_asm) (metis obj_sumE)

lemma node_adc: "node_device (\<lambda>_. ()) devAdc"
  by (auto simp: node_device_def devAdc_def readAdc_def writeAdc_def writeDenied_def Let_def bind_eq_Some_conv
      dest: readDirStatic_node split: if_split_asm)

lemma node_root: "node_device (\<lambda>s. s) (devRoot :: 'w Dev)"
  by (auto simp: node_device_def devRoot_def closeRoot_def readRoot_def writeRoot_def writeDenied_def dest: readDirStatic_node)

lemma node_uart: "node_device uartSNS devUart"
  by (auto simp: node_device_def devUart_def closeUart_def readUart_def writeUart_def setPort_def bind_eq_Some_conv
      dest: readDirStatic_node split: if_split_asm sum.split_asm)

lemma node_timer: "node_device timerSNS devTimer"
  by (auto simp: node_device_def devTimer_def closeTimer_def readTimer_def writeTimer_def setTimer_def Let_def bind_eq_Some_conv
      dest: readDirStatic_node split: if_split_asm sum.split_asm)


text \<open>A device over a part of the state keeps the namespaces and the portals.\<close>

definition typed_device :: "Manos Dev \<Rightarrow> bool" where
  "typed_device d \<longleftrightarrow>
     (\<forall>p s s'. typed s \<longrightarrow> dev_close d p s = Some s' \<longrightarrow> stays s s') \<and>
     (\<forall>m p sz offset s r p' s'. typed s \<longrightarrow> dev_read d m p sz offset s = Some (r, p', s') \<longrightarrow> sameNode p p' \<and> stays s s') \<and>
     (\<forall>m p buf sz offset s r p' s'. typed s \<longrightarrow> dev_write d m p buf sz offset s = Some (r, p', s') \<longrightarrow> sameNode p p' \<and> stays s s')"

lemma typed_deviceD:
  assumes "typed_device d" "typed s"
  shows "dev_close d p s = Some s' \<Longrightarrow> stays s s'"
    "dev_read d m p sz offset s = Some (r, p', s') \<Longrightarrow> sameNode p p' \<and> stays s s'"
    "dev_write d m p buf sz offset s = Some (w, p', s') \<Longrightarrow> sameNode p p' \<and> stays s s'"
  using assms unfolding typed_device_def by blast+

lemma typed_lift:
  assumes "node_device f d" "\<And>s w. f w = f (get s) \<Longrightarrow> sameNS s (put w s)" "\<And>s w. portals (put w s) = portals s"
  shows "typed_device (liftDev get put d)"
proof -
  have "typed s \<Longrightarrow> f w = f (get s) \<Longrightarrow> stays s (put w s)" for s w
    by (rule stays_portals) (use assms(2,3) in auto)
  then show ?thesis using assms(1) unfolding typed_device_def node_device_def
    by (auto simp: liftDev_def bind_eq_Some_conv)
qed

lemma typed_parts:
  "typed_device (liftPart ledPins ledPins_update devLed)" "typed_device (liftPart swpbPins swpbPins_update devSwpb)"
  "typed_device (liftPart uartDev uartDev_update devUart)" "typed_device (liftPart lcdDev lcdDev_update (devLcd font))"
  "typed_device (liftPart adcDev adcDev_update devAdc)" "typed_device (liftDev timerPart setTimerPart devTimer)" "typed_device devRoot"
proof -
  show "typed_device (liftPart ledPins ledPins_update devLed)" "typed_device (liftPart swpbPins swpbPins_update devSwpb)"
    "typed_device (liftPart lcdDev lcdDev_update (devLcd font))" "typed_device (liftPart adcDev adcDev_update devAdc)"
    unfolding liftPart_def
    by (rule typed_lift [OF node_led] typed_lift [OF node_swpb] typed_lift [OF node_lcd] typed_lift [OF node_adc];
        simp add: sameNS_def)+
  show "typed_device (liftPart uartDev uartDev_update devUart)"
    unfolding liftPart_def by (rule typed_lift [OF node_uart]) (simp_all add: sameNS_def)
  show "typed_device (liftDev timerPart setTimerPart devTimer)"
    by (rule typed_lift [OF node_timer]) (simp_all add: sameNS_def setTimerPart_def timerPart_def)
  show "typed_device devRoot" using node_root [where 'w = Manos] unfolding typed_device_def node_device_def by (metis stays_refl)
qed


subsection \<open>The calls\<close>

lemma elemsFrom_length: "elemsFrom n b = Some es \<Longrightarrow> length es = n"
  by (induction n b arbitrary: es rule: elemsFrom.induct) (auto simp: Let_def bind_eq_Some_conv split: if_splits)

lemma mkPath_length: "mkPath av1 av2 path = Some (Some pt) \<Longrightarrow> length (elems pt) \<le> length path"
  using length_filter_le [of "\<lambda>ch. ch = slash" path]
  by (cases path) (auto simp: mkPath_def pathCount_def Let_def bind_eq_Some_conv dest!: elemsFrom_length split: if_split_asm)

locale typed_devices =
  fixes ds :: "Manos Dev list" and m :: mem
  assumes walk_typed: "typed s \<Longrightarrow> atNode s p \<Longrightarrow> length path < 2 ^ 28 \<Longrightarrow> syswalk ds m p path s = Some (r, s') \<Longrightarrow>
      s' = s \<and> (case r of Inl e \<Rightarrow> True | Inr px \<Rightarrow> atNode s px)"
    and open_typed: "d \<in> set ds \<Longrightarrow> dev_open d px caps s = Some (ro, s') \<Longrightarrow> s' = s \<and> (case ro of Inl e \<Rightarrow> True | Inr p' \<Rightarrow> sameNode px p')"
    and device_typed: "d \<in> set ds \<Longrightarrow> typed_device d"
begin

lemma deviceAt_typed: "deviceAt ds i = Some d \<Longrightarrow> typed_device d"
  by (rule device_typed) (auto simp: deviceAt_def split: if_splits)

lemma openFor_typed:
  assumes run: "openFor ds m q path caps s = Some (r, s')" and "typed s" "length path < 2 ^ 28"
  shows "stays s s'"
proof -
  obtain mp where mp: "mkPath (avail m) (avail m) path = Some mp" using run by (auto simp: openFor_def bind_eq_Some_conv)
  show ?thesis
  proof (cases mp)
    case None
    then show ?thesis using run mp assms(2) by (auto simp: openFor_def stays_refl)
  next
    case (Some pt)
    obtain a p r1 s1 where p: "portals s a = Some p" and walk: "syswalk ds m p (elems pt) s = Some (r1, s1)"
      and rest: "(case r1 of
               Inl e \<Rightarrow> Some (Inl e, s1)
             | Inr px \<Rightarrow>
                 (case find (\<lambda>fd. fds (procs (kern s1) q) fd = None) [0..<MANOS_MAXFD] of
                    None \<Rightarrow> Some (Inl EMFILE, s1)
                  | Some fd \<Rightarrow>
                      do {
                        d \<leftarrow> deviceAt ds (pdevice px);
                        (r', s2) \<leftarrow> dev_open d px caps s1;
                        Some (Inr fd, case r' of Inl _ \<Rightarrow> s2
                                      | Inr p' \<Rightarrow> (case addPortal p' s2 of (b, s3) \<Rightarrow> setFd q fd (Some b) s3))
                      })) = Some (r, s')"
      using run mp Some by (auto simp: openFor_def bind_eq_Some_conv simp del: upt_rec_numeral)
    have at: "atNode s p" using assms(2) p by (simp add: typed_def)
    have "length (elems pt) < 2 ^ 28" using mkPath_length [OF mp [unfolded Some]] assms(3) by simp
    note w = walk_typed [OF assms(2) at this walk]
    consider "s' = s1" | px fd d i r' s2 where "r1 = Inr px" "deviceAt ds i = Some d" "dev_open d px caps s1 = Some (r', s2)"
      "s' = (case r' of Inl _ \<Rightarrow> s2 | Inr p' \<Rightarrow> (case addPortal p' s2 of (b, s3) \<Rightarrow> setFd q fd (Some b) s3))"
      using rest
      by (cases r1; cases "find (\<lambda>fd. fds (procs (kern s1) q) fd = None) [0..<MANOS_MAXFD]")
        (auto simp: bind_eq_Some_conv simp del: upt_rec_numeral)
    then show ?thesis
    proof cases
      case 1
      then show ?thesis using w assms(2) stays_refl by simp
    next
      case 2
      have "d \<in> set ds" using 2(2) by (auto simp: deviceAt_def split: if_splits)
      note o = open_typed [OF this 2(3)]
      show ?thesis
      proof (cases r')
        case (Inl e)
        then show ?thesis using 2(4) o w assms(2) stays_refl by simp
      next
        case (Inr p')
        then have "atNode s p'" using o w 2(1) sameNode_at by auto
        then show ?thesis using Inr 2(4) o w
          by (intro stays_portals [OF assms(2)]) (auto simp: addPortal_def setFd_def sameNS_def split: if_splits)
      qed
    qed
  qed
qed

lemma sysopen_typed: "sysopen ds m path caps s = Some (r, s') \<Longrightarrow> typed s \<Longrightarrow> length path < 2 ^ 28 \<Longrightarrow> stays s s'"
  by (auto simp: sysopen_def bind_eq_Some_conv intro: openFor_typed)

lemma sysclose_typed:
  assumes run: "sysclose ds fd s = Some (r, s')" and "typed s"
  shows "stays s s'"
proof -
  obtain q h where h: "descriptor fd s = Some (q, h)" using run by (auto simp: sysclose_def bind_eq_Some_conv)
  consider "devst s' = devst s" "portals s' = portals s"
    | a i p d s1 where "deviceAt ds i = Some d" "dev_close d p s = Some s1" "s' = setFd q (nat fd) None (s1\<lparr>portals := (portals s1)(a := None)\<rparr>)"
    using run h by (cases h) (auto simp: sysclose_def bind_eq_Some_conv split: if_splits prod.splits)
  then show ?thesis
  proof cases
    case 1
    then show ?thesis by (intro stays_portals [OF assms(2)]) (simp_all add: sameNS_def)
  next
    case 2
    have s1: "stays s s1" using deviceAt_typed [OF 2(1)] assms(2) 2(2) by (simp add: typed_device_def)
    have "stays s1 s'" unfolding 2(3)
      by (rule stays_portals [OF stays_typed [OF s1]]) (auto simp: setFd_def sameNS_def split: if_splits)
    then show ?thesis using stays_trans [OF s1] by blast
  qed
qed

lemma putBack_typed:
  assumes "typed s" "portals s a = Some p" "sameNode p p'" "stays s s1"
  shows "stays s (setPortal a p' s1)"
proof -
  have "atNode s p'" using assms(1-3) sameNode_at by (simp add: typed_def)
  then have "atNode s1 p'" using sameNS_tables(2) [of s s1] assms(4) by (simp add: stays_def)
  then have "stays s1 (setPortal a p' s1)"
    by (intro stays_portals [OF stays_typed [OF assms(4)]]) (auto simp: setPortal_def sameNS_def split: if_splits)
  then show ?thesis using stays_trans [OF assms(4)] by blast
qed

lemma read_typed:
  "typed s \<Longrightarrow> portals s a = Some p \<Longrightarrow> deviceAt ds i = Some d \<Longrightarrow> dev_read d m' p sz offset s = Some (r, p', s1) \<Longrightarrow>
   stays s (setPortal a p' s1)"
  by (rule putBack_typed) (auto dest: typed_deviceD(2) [OF deviceAt_typed])

lemma write_typed:
  "typed s \<Longrightarrow> portals s a = Some p \<Longrightarrow> deviceAt ds i = Some d \<Longrightarrow> dev_write d m' p buf sz offset s = Some (r, p', s1) \<Longrightarrow>
   stays s (setPortal a p' s1)"
  by (rule putBack_typed) (auto dest: typed_deviceD(3) [OF deviceAt_typed])

lemma sysread_typed: "sysread ds m fd n s = Some (r, s') \<Longrightarrow> typed s \<Longrightarrow> stays s s'"
  by (auto simp: sysread_def bind_eq_Some_conv stays_refl intro: read_typed split: option.split_asm if_split_asm)

lemma syswrite_typed: "syswrite ds m fd buf n s = Some (r, s') \<Longrightarrow> typed s \<Longrightarrow> stays s s'"
  by (auto simp: syswrite_def bind_eq_Some_conv stays_refl intro: write_typed split: option.split_asm if_split_asm)

lemma dirread_typed:
  assumes run: "dirread ds m fd s = Some (r, s')" and "typed s"
  shows "stays s s'"
proof -
  obtain q h where h: "descriptor fd s = Some (q, h)" using run by (auto simp: dirread_def bind_eq_Some_conv)
  consider "s' = s" | a p where "h = Some a" "portals s a = Some p" "\<not> (MANOS_MAXDEV \<le> pdevice p \<or> cflags (pcrumb p) AND CRUMB_ISDIR = 0)"
    using run h by (cases h) (auto simp: dirread_def bind_eq_Some_conv split: if_splits)
  then show ?thesis
  proof cases
    case 2
    obtain d out p' s1 where d: "deviceAt ds (pdevice p) = Some d"
      "dev_read d m p DIRREAD_READBUF_MAX (poffset p) s = Some (out, p', s1)"
      using run h 2 by (auto simp: dirread_def bind_eq_Some_conv)
    have "s' = setPortal a p' s1"
      using run h 2 d by (cases out) (auto simp: dirread_def bind_eq_Some_conv split: if_splits prod.splits)
    then show ?thesis using read_typed [OF assms(2) 2(2) d] by simp
  qed (use assms(2) stays_refl in simp)
qed

end

subsection \<open>The kernel's services\<close>

text \<open>The device of kernel services keeps what its services keep.\<close>

definition typed_services :: "Manos services \<Rightarrow> bool" where
  "typed_services sv \<longleftrightarrow>
     (\<forall>s v s'. typed s \<longrightarrow> readClock sv s = Some (v, s') \<longrightarrow> stays s s') \<and>
     (\<forall>s v r s'. typed s \<longrightarrow> writeClock sv v s = Some (r, s') \<longrightarrow> stays s s') \<and>
     (\<forall>s txt s'. typed s \<longrightarrow> consolePuts sv txt s = Some s' \<longrightarrow> stays s s')"

lemma typed_devDev:
  assumes "typed_services sv"
  shows "typed_device (devDev sv)"
proof -
  have r: "sameNode p p' \<and> stays s s'" if "typed s" "readDevDev sv m p sz offset s = Some (r, p', s')" for m p sz offset s r p' s'
    using that assms
    by (auto simp: readDevDev_def readDate_def typed_services_def bind_eq_Some_conv Let_def stays_refl dest: readDirStatic_node
        split: if_split_asm)
  have w: "sameNode p p' \<and> stays s s'" if "typed s" "writeDevDev sv m p buf sz offset s = Some (r, p', s')" for m p buf sz offset s r p' s'
    using that assms
    by (auto simp: writeDevDev_def writeDate_def typed_services_def bind_eq_Some_conv Let_def stays_refl split: if_split_asm prod.split_asm)
  show ?thesis using r w by (auto simp: typed_device_def devDev_def closeDevDev_def stays_refl)
qed

lemma devices_typed:
  assumes "typed_services sv" "roomy m"
  shows "typed_devices (devicesWith font sv) m"
proof
  have mem: "avail m n" for n using assms(2) by (simp add: roomy_def)
  show "s' = s \<and> (case r of Inl e \<Rightarrow> True | Inr px \<Rightarrow> atNode s px)"
    if t: "typed s" "atNode s p" "length path < 2 ^ 28" "syswalk (devicesWith font sv) m p path s = Some (r, s')" for s p path r s'
  proof -
    obtain i n where at: "portalAt (\<lambda>i. tableOf i s) i n p" using t(2) by (auto simp: atNode_def)
    have "world_ok s" using t(1) by (simp add: typed_def)
    define out where "out = (if path \<noteq> [] \<and> \<not> isdir (tableOf i s) n then Missing ENOTDIR else resolve (\<lambda>j. tableOf j s) entryOf i n path)"
    have "agrees (\<lambda>j. tableOf j s) s (Some (r, s')) out"
      using world.syswalk_resolves [OF \<open>world_ok s\<close> mem at t(3), of font sv] mem unfolding t(4) out_def by blast
    then show ?thesis by (cases out) (auto simp: agrees_def, auto simp: atNode_def intro!: exI)
  qed
  show "s' = s \<and> (case ro of Inl e \<Rightarrow> True | Inr p' \<Rightarrow> sameNode px p')"
    if "d \<in> set (devicesWith font sv)" "dev_open d px caps s = Some (ro, s')" for d px caps s ro and s' :: Manos
  proof -
    have opens: "dev_open (devicesWith font sv ! i) px caps s = Some (Inr (openDev px caps), s)" if "i < 8" for i
      using static_device.open_keeps [OF devices_static [OF that]] by blast
    have "dev_open d px caps s = Some (Inr (openDev px caps), s)"
      using that(1) opens unfolding in_set_conv_nth length_devices by blast
    then show ?thesis using that(2) by (auto simp: openDev_def sameNode_def)
  qed
  show "typed_device d" if "d \<in> set (devicesWith font sv)" for d
    using that typed_parts typed_devDev [OF assms(1)] by (auto simp: devicesWith_def)
qed

lemma noServices_typed: "typed_services noServices"
  by (simp add: typed_services_def noServices_def)

text \<open>An allocator that always has memory.\<close>

definition endless :: "mem \<Rightarrow> mem" where
  "endless m = m\<lparr>avail := \<lambda>_. True\<rparr>"

lemma endless_roomy: "roomy (endless m)" "roomy m \<Longrightarrow> endless m = m"
proof -
  show "roomy (endless m)" by (simp add: roomy_def endless_def)
  assume "roomy m"
  then have "avail m = (\<lambda>_. True)" by (simp add: roomy_def fun_eq_iff)
  then show "endless m = m" by (cases m) (simp add: endless_def)
qed

interpretation typed_inner: typed_devices "devicesWith font noServices" "endless m"
  by (rule devices_typed [OF noServices_typed endless_roomy(1)])

lemma openClock_typed:
  "openClock (devicesWith font noServices) (endless m) caps s = Some (fd, s') \<Longrightarrow> typed s \<Longrightarrow> stays s s'"
  by (auto simp: openClock_def bind_eq_Some_conv intro: typed_inner.sysopen_typed)

lemma kernelServices_typed: "typed_services (kernelServices font (devicesWith font noServices) (endless m))"
  unfolding typed_services_def
proof (intro conjI allI impI)
  let ?ds = "devicesWith font noServices" and ?m = "endless m"
  fix s s' :: Manos assume t: "typed s"
  show "stays s s'" if run: "readClock (kernelServices font ?ds ?m) s = Some (v, s')" for v
  proof -
    obtain fd s1 r s2 u s3 where c: "openClock ?ds ?m CAP_READ s = Some (fd, s1)"
      "sysread ?ds ?m fd 8 s1 = Some (r, s2)" "sysclose ?ds fd s2 = Some (u, s3)"
      "(case r of Inr (n, out) \<Rightarrow> if length out = 8 then Some (bytesMsec (map ord8 out), s3) else None | Inl _ \<Rightarrow> None) = Some (v, s')"
      using run by (auto simp: kernelServices_def bind_eq_Some_conv)
    have s3: "s3 = s'" using c(4) by (cases r) (auto split: if_splits)
    note o = openClock_typed [OF c(1) t]
    note r = typed_inner.sysread_typed [OF c(2) stays_typed [OF o]]
    show ?thesis by (rule stays_trans [OF stays_trans [OF o r] typed_inner.sysclose_typed [OF c(3) [unfolded s3] stays_typed [OF r]]])
  qed
  show "stays s s'" if run: "writeClock (kernelServices font ?ds ?m) v s = Some (r, s')" for v r
  proof -
    obtain fd s1 s2 u where c: "openClock ?ds ?m CAP_WRITE s = Some (fd, s1)"
      "syswrite ?ds ?m fd (map chr8 (msecBytes v)) 8 s1 = Some (r, s2)" "sysclose ?ds fd s2 = Some (u, s')"
      using run by (auto simp: kernelServices_def bind_eq_Some_conv)
    note o = openClock_typed [OF c(1) t]
    note w = typed_inner.syswrite_typed [OF c(2) stays_typed [OF o]]
    show ?thesis by (rule stays_trans [OF stays_trans [OF o w] typed_inner.sysclose_typed [OF c(3) stays_typed [OF w]]])
  qed
  show "stays s s'" if "consolePuts (kernelServices font ?ds ?m) ss s = Some s'" for ss
    using that by (intro stays_portals [OF t]) (auto simp: kernelServices_def bind_eq_Some_conv sameNS_def)
qed

interpretation typed_files: typed_devices "deviceTable font (endless m)" "endless m"
  unfolding deviceTable_def by (rule devices_typed [OF kernelServices_typed endless_roomy(1)])

subsection \<open>Sequences of calls\<close>

text \<open>The calls, with paths of fewer than \<open>2 ^ 28\<close> characters: the memory of the machine is smaller.\<close>

inductive short_call :: "Manos Dev list \<Rightarrow> mem \<Rightarrow> Manos \<Rightarrow> Manos \<Rightarrow> bool" for ds :: "Manos Dev list" and m :: mem where
  short_open: "sysopen ds m path caps s = Some (r, s') \<Longrightarrow> length path < 2 ^ 28 \<Longrightarrow> short_call ds m s s'"
| short_close: "sysclose ds fd s = Some (r, s') \<Longrightarrow> short_call ds m s s'"
| short_read: "sysread ds m fd n s = Some (r, s') \<Longrightarrow> short_call ds m s s'"
| short_write: "syswrite ds m fd buf n s = Some (r, s') \<Longrightarrow> short_call ds m s s'"
| short_dirread: "dirread ds m fd s = Some (r, s') \<Longrightarrow> short_call ds m s s'"
| short_switch: "short_call ds m s (s\<lparr>kern := k\<rparr>)"

inductive_cases short_callE: "short_call ds m s s'"

lemma stays_switch: "typed s \<Longrightarrow> stays s (s\<lparr>kern := k\<rparr>)"
  by (rule stays_portals) (simp_all add: sameNS_def)

lemma short_call_stays: "short_call (deviceTable font (endless m)) (endless m) s s' \<Longrightarrow> typed s \<Longrightarrow> stays s s'"
  by (erule short_callE)
    (auto intro: typed_files.sysopen_typed typed_files.sysclose_typed typed_files.sysread_typed typed_files.syswrite_typed
      typed_files.dirread_typed stays_switch)

lemma short_calls_stay:
  "(short_call (deviceTable font (endless m)) (endless m))\<^sup>*\<^sup>* s s' \<Longrightarrow> typed s \<Longrightarrow> typed s'"
  by (induction rule: rtranclp_induct) (auto dest: short_call_stays stays_typed)

text \<open>A portal at a node reaches its device, and the device finds the node.\<close>

lemma atNode_device:
  assumes "world_ok s" "atNode s p" "cflags (pcrumb p) AND CRUMB_ISDIR = 0"
  shows "\<exists>d ni. deviceAt (devicesWith font sv) (pdevice p) = Some d \<and> dev_getInfo d m p s = Some (Inr ni)"
proof -
  obtain i n where at: "portalAt (\<lambda>i. tableOf i s) i n p" using assms(2) by (auto simp: atNode_def)
  then have i: "i < 8" "pdevice p = int i" "n < nodes (tableOf i s)" "pcrumb p = scrumb (tableOf i s ! n)"
    by (simp_all add: portalAt_def deviceIds_def)
  have "\<not> isdir (tableOf i s) n" using assms(3) i(4) by (simp add: isdir_def)
  from static_device.info_node [OF devices_static [OF i(1)] assms(1) i(3) this i(4)] show ?thesis
    using i(1,2) by (auto simp: deviceAt_def)
qed

subsection \<open>Properties\<close>

text \<open>
  C7: portals are well typed: whatever files are opened by paths, closed, read and written, and however
  directories are listed and processes switched, every portal the kernel keeps has a device of the table and
  the crumb of a node of that device's namespace; so a call on any descriptor finds its device, and the device
  finds the file.
\<close>

theorem portals_stay_typed:
  assumes "(short_call (deviceTable font m) m)\<^sup>*\<^sup>* s s'" and "typed s" and "roomy m"
  shows "typed s' \<and> (\<forall>a p. portals s' a = Some p \<and> cflags (pcrumb p) AND CRUMB_ISDIR = 0 \<longrightarrow>
    (\<exists>d ni. deviceAt (deviceTable font m) (pdevice p) = Some d \<and> dev_getInfo d m p s' = Some (Inr ni)))"
  using short_calls_stay [of font m s s'] assms atNode_device unfolding endless_roomy(2) [OF assms(3)]
  by (auto simp: typed_def deviceTable_def)

theorem portals_stay_typed_witness:
  "\<forall>font. \<exists>s'. sysopen (deviceTable font exMem) exMem ''/dev/led/blue'' CAP_WRITE exWorld = Some (Inr 0, s') \<and> typed s'"
proof
  fix font
  let ?sv = "kernelServices font (devicesWith font noServices) exMem"
  have path: "slash # join [''dev'', ''led'', ''blue''] = ''/dev/led/blue''" by simp
  have names: "names_ok [''dev'', ''led'', ''blue'']" by (simp add: names_ok_def plain_def)
  have "(''blue'', LedBlue) \<in> set ledFiles" by (simp add: ledFiles_def)
  then obtain k where k: "lookup exWorld [''dev'', ''led'', ''blue''] = Found 1 k" using lookup_led by blast
  obtain p where p: "sysopen (deviceTable font exMem) exMem ''/dev/led/blue'' CAP_WRITE exWorld = Some (Inr 0, opened 3 0 p exWorld)"
    using sysopen_opens [OF exWorld_ok exMem_roomy exWorld_kern(1) exWorld_rooted names, of CAP_WRITE font ?sv]
    unfolding path deviceTable_def opens_def k exWorld_freeFd by auto
  have t: "typed exWorld"
    using exWorld_ok exWorld_portal by (auto simp: typed_def atNode_def) (auto simp: exWorld_def split: if_split_asm)
  have "(short_call (deviceTable font exMem) exMem)\<^sup>*\<^sup>* exWorld (opened 3 0 p exWorld)"
    by (rule r_into_rtranclp, rule short_open [OF p]) simp
  from portals_stay_typed [OF this t exMem_roomy] show
    "\<exists>s'. sysopen (deviceTable font exMem) exMem ''/dev/led/blue'' CAP_WRITE exWorld = Some (Inr 0, s') \<and> typed s'"
    using p by blast
qed

end
