(* ===== verification/RegFields.thy ===== *)
theory RegFields
  imports HwRegs
begin

text \<open>
  The bit fields of the memory controller's and the clock generator's registers
  (\<open>src/include/arch/k70/MK70F12.h\<close>): for every register its fields, each with the values of its \<open>_MASK\<close> and
  \<open>_SHIFT\<close> macros.
\<close>

type_synonym regFields = "string \<times> (string \<times> u32 \<times> nat) list"

definition ddrFields1 :: "regFields list" where
  "ddrFields1 =
    [(''CR00'', [(''START'', 0x1, 0), (''DDRCLS'', 0xf00, 8), (''VERSION'', 0xffff0000, 16)]),
     (''CR01'', [(''MAXROW'', 0x1f, 0), (''MAXCOL'', 0xf00, 8), (''CSMAX'', 0x30000, 16)]),
     (''CR02'', [(''TINIT'', 0xffffff, 0), (''INITAREF'', 0xf000000, 24)]),
     (''CR03'', [(''LATLIN'', 0xf, 0), (''LATGATE'', 0xf00, 8), (''WRLAT'', 0xf0000, 16), (''TCCD'', 0x1f000000, 24)]),
     (''CR04'', [(''TBINT'', 0x7, 0), (''TRRD'', 0x700, 8), (''TRC'', 0x3f0000, 16), (''TRASMIN'', 0xff000000, 24)]),
     (''CR05'', [(''TWTR'', 0xf, 0), (''TRP'', 0xf00, 8), (''TRTP'', 0x70000, 16), (''TMRD'', 0x1f000000, 24)]),
     (''CR06'', [(''TMOD'', 0xff, 0), (''TRASMAX'', 0xffff00, 8), (''INTWBR'', 0x1000000, 24)]),
     (''CR07'', [(''CLKPW'', 0x7, 0), (''TCKESR'', 0x1f00, 8), (''AP'', 0x10000, 16), (''CCAPEN'', 0x1000000, 24)]),
     (''CR08'', [(''TRAS'', 0x1, 0), (''TRASDI'', 0xff00, 8), (''TWR'', 0x1f0000, 16), (''TDAL'', 0x1f000000, 24)]),
     (''CR09'', [(''TDLL'', 0xffff, 0), (''NOCMD'', 0x10000, 16), (''BSTLEN'', 0x7000000, 24)]),
     (''CR10'', [(''TFAW'', 0x3f, 0), (''TCPD'', 0xffff00, 8), (''TRPAB'', 0xf000000, 24)]),
     (''CR11'', [(''REGDIMM'', 0x1, 0), (''AREF'', 0x100, 8), (''AREFMODE'', 0x10000, 16),
        (''TREFEN'', 0x1000000, 24)]),
     (''CR12'', [(''TRFC'', 0x3ff, 0), (''TREF'', 0x3fff0000, 16)]),
     (''CR13'', [(''TREFINT'', 0x3fff, 0), (''PD'', 0x10000, 16)]),
     (''CR14'', [(''TPDEX'', 0xffff, 0), (''TXSR'', 0xffff0000, 16)])]"

definition ddrFields2 :: "regFields list" where
  "ddrFields2 =
    [(''CR15'', [(''TXSNR'', 0xffff, 0), (''SREF'', 0x10000, 16), (''PUREF'', 0x1000000, 24)]),
     (''CR16'', [(''QKREF'', 0x1, 0), (''CLKDLY'', 0x700, 8), (''LPCTRL'', 0x1f0000, 16)]),
     (''CR17'', [(''LPPDCNT'', 0xffff, 0), (''LPRFCNT'', 0xffff0000, 16)]),
     (''CR18'', [(''LPEXTCNT'', 0xffff, 0), (''LPAUTO'', 0x1f0000, 16)]),
     (''CR19'', [(''LPINTCNT'', 0xffff, 0), (''LPRFHOLD'', 0xffff0000, 16)]),
     (''CR20'', [(''LPRE'', 0x3, 0), (''CKSRE'', 0xf00, 8), (''CKSRX'', 0xf0000, 16), (''WRMD'', 0x1000000, 24)]),
     (''CR21'', [(''MR0DAT0'', 0xffff, 0), (''MR1DAT0'', 0xffff0000, 16)]),
     (''CR22'', [(''MR2DATA0'', 0xffff, 0), (''MR3DAT0'', 0xffff0000, 16)]),
     (''CR23'', [(''Not_Used'', 0xffff, 0), (''NOT_USED'', 0xffff0000, 16)]),
     (''CR25'', [(''BNK8'', 0x1, 0), (''ADDPINS'', 0x700, 8), (''COLSIZ'', 0x70000, 16), (''APREBIT'', 0xf000000, 24)]),
     (''CR26'', [(''AGECNT'', 0xff, 0), (''CMDAGE'', 0xff00, 8), (''ADDCOL'', 0x10000, 16),
        (''BNKSPT'', 0x1000000, 24)]),
     (''CR27'', [(''PLEN'', 0x1, 0), (''PRIEN'', 0x100, 8), (''RWEN'', 0x10000, 16), (''SWPEN'', 0x1000000, 24)]),
     (''CR28'', [(''CSMAP'', 0x1, 0), (''REDUC'', 0x100, 8), (''BIGEND'', 0x10000, 16), (''CMDLATR'', 0x1000000, 24)]),
     (''CR29'', [(''WRLATR'', 0x1, 0), (''FSTWR'', 0x100, 8), (''QFULL'', 0x30000, 16), (''RESYNC'', 0x1000000, 24)]),
     (''CR30'', [(''RSYNCRF'', 0x1, 0), (''INTSTAT'', 0x1ff00, 8), (''INTACK'', 0xff000000, 24)]),
     (''CR31'', [(''INTMASK'', 0x1ff, 0)]),
     (''CR32'', [(''OORAD'', 0xffffffff, 0)])]"

definition ddrFields3 :: "regFields list" where
  "ddrFields3 =
    [(''CR33'', [(''OORLEN'', 0x3ff, 0), (''OORTYP'', 0x3f0000, 16), (''OORID'', 0x3000000, 24)]),
     (''CR34'', [(''ODTRDC'', 0x1, 0), (''ODTWRCS'', 0x100, 8)]),
     (''CR35'', [(''R2WSMCS'', 0xf, 0), (''W2RSMCS'', 0xf00, 8)]),
     (''CR36'', [(''Not_Used'', 0xffff, 0), (''NOT_USED'', 0xffff0000, 16)]),
     (''CR37'', [(''R2RSAME'', 0x7, 0), (''R2WSAME'', 0x700, 8), (''W2RSAME'', 0x70000, 16),
        (''W2WSAME'', 0x7000000, 24)]),
     (''CR38'', [(''PDNCS'', 0x1f, 0), (''PUPCS'', 0x1f00, 8), (''PWRCNT'', 0x7ff0000, 16)]),
     (''CR39'', [(''P0RDCNT'', 0x7ff, 0), (''RP0'', 0x30000, 16), (''WP0'', 0x3000000, 24)]),
     (''CR40'', [(''P0TYP'', 0x3, 0), (''P1WRCNT'', 0x7ff00, 8)]),
     (''CR41'', [(''P1RDCNT'', 0x7ff, 0), (''RP1'', 0x30000, 16), (''WP1'', 0x3000000, 24)]),
     (''CR42'', [(''P1TYP'', 0x3, 0), (''P2WRCNT'', 0x7ff00, 8)]),
     (''CR43'', [(''P2RDCNT'', 0x7ff, 0), (''RP2'', 0x30000, 16), (''WP2'', 0x3000000, 24)]),
     (''CR44'', [(''P2TYP'', 0x3, 0), (''WRRLAT'', 0x100, 8), (''WRRSHARE'', 0x10000, 16),
        (''WRRERR'', 0xf000000, 24)]),
     (''CR45'', [(''P0PRI0'', 0xf, 0), (''P0PRI1'', 0xf00, 8), (''P0PRI2'', 0xf0000, 16), (''P0PRI3'', 0xf000000, 24)]),
     (''CR46'', [(''P0ORD'', 0x3, 0), (''P0PRIRLX'', 0x3ff00, 8), (''P1PRI0'', 0xf000000, 24)]),
     (''CR47'', [(''P1PRI1'', 0xf, 0), (''P1PRI2'', 0xf00, 8), (''P1PRI3'', 0xf0000, 16), (''P1ORD'', 0x3000000, 24)])]"

definition ddrFields4 :: "regFields list" where
  "ddrFields4 =
    [(''CR48'', [(''P1PRIRLX'', 0x3ff, 0), (''P2PRI0'', 0xf0000, 16), (''P2PRI1'', 0xf000000, 24)]),
     (''CR49'', [(''P2PRI2'', 0xf, 0), (''P2PRI3'', 0xf00, 8), (''P2ORD'', 0x30000, 16)]),
     (''CR50'', [(''P2PRIRLX'', 0x3ff, 0), (''CLKSTATUS'', 0x10000, 16)]),
     (''CR51'', [(''DLLRSTDLY'', 0xffff, 0), (''DLLRADLY'', 0xff0000, 16), (''PHYWRLAT'', 0xf000000, 24)]),
     (''CR52'', [(''PYWRLTBS'', 0xf, 0), (''PHYRDLAT'', 0xf00, 8), (''RDDATAEN'', 0xf0000, 16),
        (''RDDTENBAS'', 0xf000000, 24)]),
     (''CR53'', [(''CLKDISCS'', 0x1, 0), (''CRTLUPDMN'', 0xf00, 8), (''CTRLUPDMX'', 0x3fff0000, 16)]),
     (''CR54'', [(''PHYUPDTY0'', 0x3fff, 0), (''PHYUPDTY1'', 0x3fff0000, 16)]),
     (''CR55'', [(''PHYUPDTY2'', 0x3fff, 0), (''PHYUPDTY3'', 0x3fff0000, 16)]),
     (''CR56'', [(''PHYUPDRESP'', 0x3fff, 0), (''RDLATADJ'', 0xf0000, 16), (''WRLATADJ'', 0xf000000, 24)]),
     (''CR57'', [(''CMDDLY'', 0xf, 0), (''CLKDISDLY'', 0x700, 8), (''CLKENDLY'', 0xf0000, 16),
        (''ODTALTEN'', 0x1000000, 24)]),
     (''CR58'', [(''Not_Used'', 0xffff, 0), (''NOT_USED'', 0xffff0000, 16)]),
     (''CR59'', [(''Not_Used'', 0xffff, 0), (''NOT_USED'', 0xffff0000, 16)]),
     (''CR60'', [(''Not_Used'', 0xffff, 0), (''NOT_USED'', 0xffff0000, 16)]),
     (''CR61'', [(''Not_Used'', 0xffff, 0), (''NOT_USED'', 0xffff0000, 16)]),
     (''CR62'', [(''Not_Used'', 0xffff, 0), (''NOT_USED'', 0xffff0000, 16)]),
     (''CR63'', [(''Not_Used'', 0xffff, 0), (''NOT_USED'', 0xffff0000, 16)]),
     (''RCR'', [(''RST'', 0x40000000, 30)]),
     (''PAD_CTRL'', [(''SPARE_DLY_CTRL'', 0xf, 0), (''PAD_ODT_CS0'', 0x3000000, 24)])]"

definition ddrFields :: "regFields list" where
  "ddrFields = ddrFields1 @ ddrFields2 @ ddrFields3 @ ddrFields4"

definition mcgFields :: "regFields list" where
  "mcgFields =
    [(''C1'', [(''IREFSTEN'', 0x1, 0), (''IRCLKEN'', 0x2, 1), (''IREFS'', 0x4, 2), (''FRDIV'', 0x38, 3),
        (''CLKS'', 0xc0, 6)]),
     (''C2'', [(''IRCS'', 0x1, 0), (''LP'', 0x2, 1), (''EREFS0'', 0x4, 2), (''HGO0'', 0x8, 3), (''RANGE0'', 0x30, 4),
        (''LOCRE0'', 0x80, 7)]),
     (''C3'', [(''SCTRIM'', 0xff, 0)]),
     (''C4'', [(''SCFTRIM'', 0x1, 0), (''FCTRIM'', 0x1e, 1), (''DRST_DRS'', 0x60, 5), (''DMX32'', 0x80, 7)]),
     (''C5'', [(''PRDIV0'', 0x7, 0), (''PLLSTEN0'', 0x20, 5), (''PLLCLKEN0'', 0x40, 6), (''PLLREFSEL0'', 0x80, 7)]),
     (''C6'', [(''VDIV0'', 0x1f, 0), (''CME0'', 0x20, 5), (''PLLS'', 0x40, 6), (''LOLIE0'', 0x80, 7)]),
     (''S'', [(''IRCST'', 0x1, 0), (''OSCINIT0'', 0x2, 1), (''CLKST'', 0xc, 2), (''IREFST'', 0x10, 4),
        (''PLLST'', 0x20, 5), (''LOCK0'', 0x40, 6), (''LOLS0'', 0x80, 7)]),
     (''SC'', [(''LOCS0'', 0x1, 0), (''FCRDIV'', 0xe, 1), (''FLTPRSRV'', 0x10, 4), (''ATMF'', 0x20, 5),
        (''ATMS'', 0x40, 6), (''ATME'', 0x80, 7)]),
     (''ATCVH'', [(''ATCVH'', 0xff, 0)]),
     (''ATCVL'', [(''ATCVL'', 0xff, 0)]),
     (''C7'', [(''OSCSEL'', 0x1, 0)]),
     (''C8'', [(''LOCS1'', 0x1, 0), (''CME1'', 0x20, 5), (''LOCRE1'', 0x80, 7)]),
     (''C10'', [(''EREFS1'', 0x4, 2), (''HGO1'', 0x8, 3), (''RANGE1'', 0x30, 4), (''LOCRE2'', 0x80, 7)]),
     (''C11'', [(''PRDIV1'', 0x7, 0), (''PLLCS'', 0x10, 4), (''PLLSTEN1'', 0x20, 5), (''PLLCLKEN1'', 0x40, 6),
        (''PLLREFSEL1'', 0x80, 7)]),
     (''C12'', [(''VDIV1'', 0x1f, 0), (''CME2'', 0x20, 5), (''LOLIE1'', 0x80, 7)]),
     (''S2'', [(''LOCS2'', 0x1, 0), (''OSCINIT1'', 0x2, 1), (''PLLCST'', 0x10, 4), (''LOCK1'', 0x40, 6),
        (''LOLS1'', 0x80, 7)])]"

text \<open>
  The macros of a field: its mask, and a value shifted to its place and cut to the mask. A field that is not
  in the table, which the compiler would not know, has no value.
\<close>

definition fieldAt :: "regFields list \<Rightarrow> string \<Rightarrow> string \<Rightarrow> (u32 \<times> nat) option" where
  "fieldAt tab r f = Option.bind (map_of tab r) (\<lambda>fs. map_of fs f)"

definition fieldMask :: "regFields list \<Rightarrow> string \<Rightarrow> string \<Rightarrow> u32 option" where
  "fieldMask tab r f = map_option fst (fieldAt tab r f)"

definition fieldValue :: "regFields list \<Rightarrow> string \<Rightarrow> string \<Rightarrow> u32 \<Rightarrow> u32 option" where
  "fieldValue tab r f x = map_option (\<lambda>(m, s). field s m x) (fieldAt tab r f)"

text \<open>An expression of such macros and constants, combined by \<open>|\<close>.\<close>

datatype regTerm = RMask string | RField string u32 | RConst u32

fun termValue :: "regFields list \<Rightarrow> string \<Rightarrow> regTerm \<Rightarrow> u32 option" where
  "termValue tab r (RMask f) = fieldMask tab r f"
| "termValue tab r (RField f x) = fieldValue tab r f x"
| "termValue tab r (RConst c) = Some c"

fun orTerms :: "regFields list \<Rightarrow> string \<Rightarrow> regTerm list \<Rightarrow> u32 option" where
  "orTerms tab r [] = Some 0"
| "orTerms tab r [t] = termValue tab r t"
| "orTerms tab r (t # ts) = do { a \<leftarrow> termValue tab r t; b \<leftarrow> orTerms tab r ts; Some (a OR b) }"

subsection \<open>The fields of a register\<close>

text \<open>
  A field is a run of bits from its shift on: \<open>fieldOk\<close> asks that the mask is that run, and \<open>apart\<close> that no two
  fields of a register share a bit.
\<close>

definition fieldOk :: "string \<times> u32 \<times> nat \<Rightarrow> bool" where
  "fieldOk f = (case f of (_, m, s) \<Rightarrow> m \<noteq> 0 \<and> push_bit s (drop_bit s m) = m \<and> drop_bit s m AND (drop_bit s m + 1) = 0)"

fun apart :: "u32 list \<Rightarrow> bool" where
  "apart [] = True"
| "apart (m # ms) = (list_all (\<lambda>m'. m AND m' = 0) ms \<and> apart ms)"

definition regOk :: "regFields \<Rightarrow> bool" where
  "regOk r = (list_all fieldOk (snd r) \<and> apart (map (\<lambda>f. fst (snd f)) (snd r)) \<and> distinct (map fst (snd r)))"

lemma register_fields_apart: "list_all regOk (ddrFields @ mcgFields)"
  by code_simp

end
