(* ===== verification/BootHw.thy ===== *)
theory BootHw
  imports RegFields
begin

text \<open>
  The processor's own set-up at the start (\<open>src/src/boot/arch/k70/\<close>): the clocks (\<open>mcgInit.c\<close>), the memory
  controller (\<open>sdramInit.c\<close>), and the exceptions of the system calls and of the scheduler (\<open>svcInit.c\<close>,
  \<open>schedInit.c\<close>). The status registers, which the hardware changes, are read from a sequence of values.
\<close>

subsection \<open>Writing registers\<close>

fun writeRows :: "regFields list \<Rightarrow> string \<Rightarrow> (string \<times> regTerm list) list \<Rightarrow> regs \<Rightarrow> regs option" where
  "writeRows tab pre [] h = Some h"
| "writeRows tab pre ((r, ts) # rows) h = do { v \<leftarrow> orTerms tab r ts; writeRows tab pre rows (setReg (pre @ r) v h) }"

text \<open>
  Waiting for a bit of a status register, whose \<open>n\<close>-th read gives \<open>rd n\<close>: the number of the read that ends
  the loop, and no result if none does.
\<close>

partial_function (option) pollReg :: "u32 \<Rightarrow> (nat \<Rightarrow> u32) \<Rightarrow> nat \<Rightarrow> nat option" where
  "pollReg m rd n = (if rd n AND m = 0 then pollReg m rd (n + 1) else Some n)"

lemma pollReg_first:
  assumes "rd k AND m \<noteq> 0" "n \<le> k" "\<forall>i. n \<le> i \<and> i < k \<longrightarrow> rd i AND m = 0"
  shows "pollReg m rd n = Some k"
  using assms
proof (induction "k - n" arbitrary: n)
  case 0
  then show ?case by (subst pollReg.simps) simp
next
  case (Suc d)
  have "rd n AND m = 0" using Suc.prems Suc.hyps(2) by simp
  moreover have "pollReg m rd (n + 1) = Some k" by (rule Suc.hyps(1)) (use Suc.prems Suc.hyps(2) in auto)
  ultimately show ?case by (subst pollReg.simps) simp
qed

lemma pollReg_sound: "pollReg m rd n = Some k \<Longrightarrow> rd k AND m \<noteq> 0"
  by (induction m rd n k rule: pollReg.raw_induct [rotated, consumes 1]) (auto split: if_splits)

lemma pollReg_returns: "(\<exists>k. pollReg m rd 0 = Some k) \<longleftrightarrow> (\<exists>k. rd k AND m \<noteq> 0)"
proof
  assume "\<exists>k. rd k AND m \<noteq> 0"
  then have "rd (LEAST k. rd k AND m \<noteq> 0) AND m \<noteq> 0" by (rule LeastI_ex)
  moreover have "\<forall>i < (LEAST k. rd k AND m \<noteq> 0). rd i AND m = 0" using not_less_Least by blast
  ultimately show "\<exists>k. pollReg m rd 0 = Some k" using pollReg_first by blast
qed (use pollReg_sound in blast)

subsection \<open>The exceptions of system calls and of the scheduler\<close>

abbreviation "SVC_MAX_PRIORITY \<equiv> (15 :: u8)"
abbreviation "SCB_SHPR2_PRI_11_MASK \<equiv> (0xFF000000 :: u32)"
abbreviation "SCB_SHPR3_PRI_14_MASK \<equiv> (0xFF0000 :: u32)"
abbreviation "SCB_SHPR3_PRI_15_MASK \<equiv> (0xFF000000 :: u32)"
abbreviation "SCB_ICSR_PENDSVSET_MASK \<equiv> (0x10000000 :: u32)"
abbreviation "SysTick_CSR_ENABLE_MASK \<equiv> (1 :: u32)"
abbreviation "SysTick_CSR_TICKINT_MASK \<equiv> (2 :: u32)"
abbreviation "SysTick_CSR_CLKSOURCE_MASK \<equiv> (4 :: u32)"
abbreviation "SysTick_RVR_RELOAD_MASK \<equiv> (0xFFFFFF :: u32)"
abbreviation "MANOS_ARCH_K70_SVC_INT_PRIORITY \<equiv> (15 :: u8)"
abbreviation "MANOS_ARCH_K70_SCHED_INT_PRIORITY \<equiv> (14 :: u8)"
abbreviation "MANOS_ARCH_K70_CYCLES_PER_MILLIS \<equiv> (120000 :: int)"

definition svcInit :: "u8 \<Rightarrow> regs \<Rightarrow> regs" where
  "svcInit priority h =
     (if SVC_MAX_PRIORITY < priority then h
      else setReg ''SCB_SHPR2''
        ((h ''SCB_SHPR2'' AND NOT SCB_SHPR2_PRI_11_MASK) OR field 24 SCB_SHPR2_PRI_11_MASK (push_bit 4 (ucast priority))) h)"

text \<open>The old priorities are cleared with the conjunction of the two masks, which is 0.\<close>

definition schedInit :: "int \<Rightarrow> u8 \<Rightarrow> regs \<Rightarrow> regs option" where
  "schedInit quantumMillis priority h =
     do {
       let h1 = setReg ''SCB_SHPR3''
         ((h ''SCB_SHPR3'' AND NOT (SCB_SHPR3_PRI_14_MASK AND SCB_SHPR3_PRI_15_MASK))
          OR field 16 SCB_SHPR3_PRI_14_MASK (push_bit 4 (ucast priority))
          OR field 24 SCB_SHPR3_PRI_15_MASK (push_bit 4 (ucast priority))) h;
       let h2 = orReg ''SYST_CSR'' (SysTick_CSR_TICKINT_MASK OR SysTick_CSR_CLKSOURCE_MASK) h1;
       cycles \<leftarrow> cint (quantumMillis * MANOS_ARCH_K70_CYCLES_PER_MILLIS);
       reload \<leftarrow> cint (cycles - 1);
       Some (setReg ''SYST_RVR'' (field 0 SysTick_RVR_RELOAD_MASK (of_int reload)) h2)
     }"

text \<open>The macros \<open>YIELD\<close> and \<open>START_SYSTICK\<close>, which asks for the switch and starts the clock of the scheduler.\<close>

definition YIELD :: "regs \<Rightarrow> regs" where
  "YIELD h = orReg ''SCB_ICSR'' SCB_ICSR_PENDSVSET_MASK h"

definition START_SYSTICK :: "regs \<Rightarrow> regs" where
  "START_SYSTICK h = orReg ''SYST_CSR'' SysTick_CSR_ENABLE_MASK h"

subsection \<open>The clocks\<close>

abbreviation "SIM_SCGC5_PORTA_MASK \<equiv> (0x200 :: u32)"

definition SIM_CLKDIV1_OUTDIV :: "nat \<Rightarrow> u32 \<Rightarrow> u32" where
  "SIM_CLKDIV1_OUTDIV i x = field (32 - 4 * i) (push_bit (32 - 4 * i) 0xF) x"

text \<open>The registers of the clock generator have 8 bits; all masks of the table are below 256.\<close>

definition mcgPll0 :: "regs \<Rightarrow> regs option" where
  "mcgPll0 h =
     writeRows mcgFields ''MCG_''
       [(''C2'', [RField ''RANGE0'' 1]),
        (''C1'', [RField ''CLKS'' 2, RField ''FRDIV'' 5]),
        (''C5'', [RField ''PRDIV0'' 4]),
        (''C6'', [RMask ''PLLS'', RMask ''CME0'', RField ''VDIV0'' 8]),
        (''C5'', [RField ''PRDIV0'' 4, RMask ''PLLCLKEN0''])]
       (setReg ''SIM_CLKDIV1''
         (SIM_CLKDIV1_OUTDIV 1 0 OR SIM_CLKDIV1_OUTDIV 2 1 OR SIM_CLKDIV1_OUTDIV 3 2 OR SIM_CLKDIV1_OUTDIV 4 5)
         (orReg ''SIM_SCGC5'' SIM_SCGC5_PORTA_MASK h))"

definition mcgPll1 :: "regs \<Rightarrow> regs option" where
  "mcgPll1 h =
     writeRows mcgFields ''MCG_''
       [(''C1'', [RField ''FRDIV'' 5]),
        (''C10'', [RField ''RANGE1'' 1, RMask ''EREFS1'']),
        (''C12'', [RField ''VDIV1'' 14]),
        (''C11'', [RField ''PRDIV1'' 4, RMask ''PLLCLKEN1''])] h"

definition mcgInit :: "(nat \<Rightarrow> u32) \<Rightarrow> (nat \<Rightarrow> u32) \<Rightarrow> regs \<Rightarrow> regs option" where
  "mcgInit rdS rdS2 h =
     do {
       h1 \<leftarrow> mcgPll0 h;
       lock0 \<leftarrow> fieldMask mcgFields ''S'' ''LOCK0'';
       _ \<leftarrow> pollReg lock0 rdS 0;
       h2 \<leftarrow> mcgPll1 h1;
       lock1 \<leftarrow> fieldMask mcgFields ''S2'' ''LOCK1'';
       _ \<leftarrow> pollReg lock1 rdS2 0;
       Some h2
     }"

subsection \<open>The memory controller\<close>

abbreviation "SIM_SCGC3_DDR_MASK \<equiv> (0x4000 :: u32)"
abbreviation "SIM_MCR_DDRPEN_MASK \<equiv> (4 :: u32)"
abbreviation "SIM_MCR_DDRCFG_DDR2_FULL_STRENGTH \<equiv> (6 :: u32)"
abbreviation "MCM_CR_DDRSIZE_128_MBYTES \<equiv> (1 :: u32)"
abbreviation "DDR_PAD_CTRL_PAD_ODT_CS0_75_OHMS \<equiv> (1 :: u32)"
abbreviation "DDR_PAD_CTRL_SPARE_DLY_CTRL_10_BUFFERS \<equiv> (3 :: u32)"
abbreviation "DDR_CR00_DDRCLS_DDR2 \<equiv> (4 :: u32)"
abbreviation "DDR_CR09_BSTLEN_4_WORDS \<equiv> (2 :: u32)"
abbreviation "DDR_CR30_INTSTAT_DRAM_INIT_COMPLETE_MASK \<equiv> (push_bit 10 1 :: u32)"

definition sdramPads :: "regs \<Rightarrow> regs option" where
  "sdramPads h =
     do {
       let h1 = orReg ''SIM_SCGC3'' SIM_SCGC3_DDR_MASK h;
       let h2 = orReg ''SIM_MCR'' (SIM_MCR_DDRPEN_MASK OR field 5 0xE0 SIM_MCR_DDRCFG_DDR2_FULL_STRENGTH) h1;
       rst \<leftarrow> fieldMask ddrFields ''RCR'' ''RST'';
       let h3 = orReg ''DDR_RCR'' rst h2;
       writeRows ddrFields ''DDR_''
         [(''PAD_CTRL'', [RField ''PAD_ODT_CS0'' DDR_PAD_CTRL_PAD_ODT_CS0_75_OHMS,
                          RField ''SPARE_DLY_CTRL'' DDR_PAD_CTRL_SPARE_DLY_CTRL_10_BUFFERS, RConst 0x00030200]),
          (''CR00'', [RField ''DDRCLS'' DDR_CR00_DDRCLS_DDR2])] h3
     }"

definition sdramTiming :: "(string \<times> regTerm list) list" where
  "sdramTiming =
    [(''CR02'', [RField ''INITAREF'' 2, RField ''TINIT'' 49]),
     (''CR03'', [RField ''TCCD'' 2, RField ''WRLAT'' 2, RField ''LATGATE'' 5, RField ''LATLIN'' 6]),
     (''CR04'', [RField ''TRASMIN'' 6, RField ''TRC'' 9, RField ''TRRD'' 2, RField ''TBINT'' 2]),
     (''CR05'', [RField ''TMRD'' 2, RField ''TRTP'' 2, RField ''TRP'' 3, RField ''TWTR'' 2]),
     (''CR06'', [RField ''TRASMAX'' 36928, RField ''TMOD'' 2, RConst 0x02000000]),
     (''CR07'', [RMask ''CCAPEN'', RField ''TCKESR'' 3, RField ''CLKPW'' 3]),
     (''CR08'', [RField ''TDAL'' 5, RField ''TWR'' 3, RField ''TRASDI'' 2, RMask ''TRAS'']),
     (''CR09'', [RField ''BSTLEN'' DDR_CR09_BSTLEN_4_WORDS, RField ''TDLL'' 200]),
     (''CR10'', [RField ''TRPAB'' 3, RField ''TCPD'' 50, RField ''TFAW'' 7]),
     (''CR11'', [RMask ''TREFEN'']),
     (''CR12'', [RField ''TREF'' 1170, RField ''TRFC'' 49]),
     (''CR13'', [RField ''TREFINT'' 5]),
     (''CR14'', [RField ''TXSR'' 200, RField ''TPDEX'' 2]),
     (''CR15'', [RField ''TXSNR'' 50]),
     (''CR16'', [RMask ''QKREF''])]"

definition sdramModes :: "(string \<times> regTerm list) list" where
  "sdramModes =
    [(''CR20'', [RField ''CKSRX'' 3, RField ''CKSRE'' 3]),
     (''CR21'', [RField ''MR1DAT0'' 0x0004, RField ''MR0DAT0'' 0x0232]),
     (''CR22'', [RField ''MR3DAT0'' 0, RField ''MR2DATA0'' 0]),
     (''CR23'', [RConst 0x00040302]),
     (''CR25'', [RField ''APREBIT'' 10, RField ''COLSIZ'' 1, RField ''ADDPINS'' 2, RMask ''BNK8'']),
     (''CR26'', [RMask ''BNKSPT'', RMask ''ADDCOL'', RField ''CMDAGE'' 255, RField ''AGECNT'' 255]),
     (''CR27'', [RMask ''SWPEN'', RMask ''RWEN'', RMask ''PRIEN'', RMask ''PLEN'']),
     (''CR28'', [RMask ''CSMAP'', RConst 0x00000002]),
     (''CR29'', [RConst 0x00000000]),
     (''CR30'', [RMask ''RSYNCRF'']),
     (''CR34'', [RMask ''ODTWRCS'', RMask ''ODTRDC'', RConst 0x02020000]),
     (''CR36'', [RConst 0x01010201])]"

definition sdramPorts :: "(string \<times> regTerm list) list" where
  "sdramPorts =
    [(''CR37'', [RField ''R2WSAME'' 2]),
     (''CR38'', [RField ''PWRCNT'' 32]),
     (''CR39'', [RField ''WP0'' 1, RField ''RP0'' 1, RField ''P0RDCNT'' 32]),
     (''CR40'', [RField ''P1WRCNT'' 32]),
     (''CR41'', [RField ''WP1'' 1, RField ''RP1'' 1, RField ''P1RDCNT'' 32]),
     (''CR42'', [RField ''P2WRCNT'' 32]),
     (''CR43'', [RField ''WP2'' 1, RField ''RP2'' 1, RField ''P2RDCNT'' 32]),
     (''CR44'', [RConst 0x00000000]),
     (''CR45'', [RField ''P0PRI3'' 3, RField ''P0PRI2'' 3, RField ''P0PRI1'' 3, RField ''P0PRI0'' 3]),
     (''CR46'', [RField ''P1PRI0'' 2, RField ''P0PRIRLX'' 100, RField ''P0ORD'' 1]),
     (''CR47'', [RField ''P1ORD'' 1, RField ''P1PRI3'' 2, RField ''P1PRI2'' 2, RField ''P1PRI1'' 2]),
     (''CR48'', [RField ''P2PRI1'' 1, RField ''P2PRI0'' 1, RField ''P1PRIRLX'' 100])]"

definition sdramPhy :: "(string \<times> regTerm list) list" where
  "sdramPhy =
    [(''CR49'', [RField ''P2ORD'' 2, RField ''P2PRI3'' 1, RField ''P2PRI2'' 1]),
     (''CR50'', [RField ''P2PRIRLX'' 100]),
     (''CR52'', [RField ''RDDTENBAS'' 2, RField ''PHYRDLAT'' 6, RField ''PYWRLTBS'' 2]),
     (''CR53'', [RField ''CTRLUPDMX'' 968]),
     (''CR54'', [RField ''PHYUPDTY1'' 968, RField ''PHYUPDTY0'' 968]),
     (''CR55'', [RField ''PHYUPDTY3'' 968, RField ''PHYUPDTY2'' 968]),
     (''CR56'', [RField ''WRLATADJ'' 2, RField ''RDLATADJ'' 3, RField ''PHYUPDRESP'' 968]),
     (''CR57'', [RMask ''ODTALTEN'', RField ''CLKENDLY'' 1, RField ''CMDDLY'' 2])]"

definition sdramInit :: "(nat \<Rightarrow> u32) \<Rightarrow> regs \<Rightarrow> regs option" where
  "sdramInit rd h =
     do {
       h1 \<leftarrow> sdramPads h;
       h2 \<leftarrow> writeRows ddrFields ''DDR_'' (sdramTiming @ sdramModes @ sdramPorts @ sdramPhy) h1;
       start \<leftarrow> fieldMask ddrFields ''CR00'' ''START'';
       let h3 = orReg ''DDR_CR00'' start h2;
       _ \<leftarrow> pollReg DDR_CR30_INTSTAT_DRAM_INIT_COMPLETE_MASK rd 0;
       Some (orReg ''MCM_CR'' (field 20 0x300000 MCM_CR_DDRSIZE_128_MBYTES) h3)
     }"

text \<open>The values that the comments of \<open>sdramInit.c\<close> give for the registers, as the code once wrote them.\<close>

definition sdramWas :: "(string \<times> u32) list" where
  "sdramWas =
    [(''CR02'', 0x02000031), (''CR03'', 0x02020506), (''CR04'', 0x06090202), (''CR05'', 0x02020302),
     (''CR06'', 0x02904002), (''CR07'', 0x01000303), (''CR08'', 0x05030201), (''CR09'', 0x020000c8),
     (''CR10'', 0x03003207), (''CR11'', 0x01000000), (''CR12'', 0x04920031), (''CR13'', 0x00000005),
     (''CR14'', 0x00c80002), (''CR15'', 0x00000032), (''CR16'', 0x00000001), (''CR20'', 0x00030300),
     (''CR21'', 0x00040232), (''CR22'', 0x00000000), (''CR23'', 0x00040302), (''CR25'', 0x0a010201),
     (''CR26'', 0x0101ffff), (''CR27'', 0x01010101), (''CR28'', 0x00000003), (''CR29'', 0x00000000),
     (''CR30'', 0x00000001), (''CR34'', 0x02020101), (''CR36'', 0x01010201), (''CR37'', 0x00000200),
     (''CR38'', 0x00200000), (''CR39'', 0x01010020), (''CR40'', 0x00002000), (''CR41'', 0x01010020),
     (''CR42'', 0x00002000), (''CR43'', 0x01010020), (''CR44'', 0x00000000), (''CR45'', 0x03030303),
     (''CR46'', 0x02006401), (''CR47'', 0x01020202), (''CR48'', 0x01010064), (''CR49'', 0x00020101),
     (''CR50'', 0x00000064), (''CR52'', 0x02000602), (''CR53'', 0x03c80000), (''CR54'', 0x03c803c8),
     (''CR55'', 0x03c803c8), (''CR56'', 0x020303c8), (''CR57'', 0x01010002)]"


subsection \<open>What the registers hold\<close>

lemma setReg_at [simp]: "setReg r v h x = (if x = r then v else h x)"
  by (simp add: setReg_def)

lemma orReg_at [simp]: "orReg r v h x = (if x = r then h r OR v else h x)"
  by (simp add: orReg_def)

lemma writeRows_values:
  assumes "list_all (\<lambda>(r, ts). orTerms tab r ts = map_of was r \<and> map_of was r \<noteq> None) rows"
  shows "\<exists>h'. writeRows tab pre rows h = Some h' \<and>
    (\<forall>r \<in> fst ` set rows. map_of was r = Some (h' (pre @ r))) \<and> (\<forall>x. (\<forall>r \<in> fst ` set rows. x \<noteq> pre @ r) \<longrightarrow> h' x = h x)"
  using assms
proof (induction rows arbitrary: h)
  case Nil
  then show ?case by simp
next
  case (Cons row rows)
  obtain r ts where row: "row = (r, ts)" by (cases row)
  obtain v where v: "map_of was r = Some v" "orTerms tab r ts = Some v" using Cons.prems row by auto
  obtain h' where h': "writeRows tab pre rows (setReg (pre @ r) v h) = Some h'"
    "\<forall>r \<in> fst ` set rows. map_of was r = Some (h' (pre @ r))"
    "\<forall>x. (\<forall>r \<in> fst ` set rows. x \<noteq> pre @ r) \<longrightarrow> h' x = setReg (pre @ r) v h x"
    using Cons by fastforce
  have "h' (pre @ r) = v" if "r \<notin> fst ` set rows"
    using h'(3) [rule_format, of "pre @ r"] that by (auto simp: image_iff)
  moreover have "map_of was r = Some (h' (pre @ r))" if "r \<in> fst ` set rows" by (rule bspec [OF h'(2) that])
  ultimately have "map_of was r = Some (h' (pre @ r))" using v(1) by (cases "r \<in> fst ` set rows") simp_all
  then show ?case using h' v row by (intro exI [of _ h']) auto
qed

text \<open>The value that the documentation gives a register is the one its row computes.\<close>

definition rowsWas :: "(string \<times> regTerm list) list \<Rightarrow> bool" where
  "rowsWas rows = list_all (\<lambda>(r, ts). orTerms ddrFields r ts = map_of sdramWas r \<and> map_of sdramWas r \<noteq> None) rows"

lemma sdramModes_was: "rowsWas sdramModes"
  by code_simp

lemma sdramPorts_was: "rowsWas sdramPorts"
  by code_simp

lemma sdramPhy_was: "rowsWas sdramPhy"
  by code_simp

lemma sdramTiming_first_was: "rowsWas (take 8 sdramTiming)"
  by code_simp

lemma sdramTiming_rest_was: "rowsWas (drop 8 sdramTiming)"
  by code_simp

lemma sdram_rows_was:
  "list_all (\<lambda>(r, ts). orTerms ddrFields r ts = map_of sdramWas r \<and> map_of sdramWas r \<noteq> None)
     (sdramTiming @ sdramModes @ sdramPorts @ sdramPhy)"
proof -
  have app: "rowsWas (xs @ ys) \<longleftrightarrow> rowsWas xs \<and> rowsWas ys" for xs ys
    by (simp only: rowsWas_def list_all_append)
  have "rowsWas (take 8 sdramTiming @ drop 8 sdramTiming)"
    by (simp only: app sdramTiming_first_was sdramTiming_rest_was simp_thms)
  then have "rowsWas sdramTiming" by (simp only: append_take_drop_id)
  then have "rowsWas (sdramTiming @ sdramModes @ sdramPorts @ sdramPhy)"
    by (simp only: app sdramModes_was sdramPorts_was sdramPhy_was simp_thms)
  then show ?thesis by (simp only: rowsWas_def)
qed

lemma sdram_rows_names: "map fst (sdramTiming @ sdramModes @ sdramPorts @ sdramPhy) = map fst sdramWas"
  by (simp add: sdramTiming_def sdramModes_def sdramPorts_def sdramPhy_def sdramWas_def)

lemma sdramWas_distinct: "distinct (map fst sdramWas)"
  by (simp add: sdramWas_def)

lemma sdramPads_values:
  "sdramPads h = Some (setReg ''DDR_CR00'' 0x400 (setReg ''DDR_PAD_CTRL'' 0x01030203 (orReg ''DDR_RCR'' 0x40000000
     (orReg ''SIM_MCR'' 0xC4 (orReg ''SIM_SCGC3'' 0x4000 h)))))"
proof -
  have "fieldMask ddrFields ''RCR'' ''RST'' = Some 0x40000000"
    "orTerms ddrFields ''PAD_CTRL'' [RField ''PAD_ODT_CS0'' 1, RField ''SPARE_DLY_CTRL'' 3, RConst 0x00030200] = Some 0x01030203"
    "orTerms ddrFields ''CR00'' [RField ''DDRCLS'' 4] = Some 0x400"
    "(4 :: u32) OR field 5 0xE0 6 = 0xC4"
    by code_simp+
  then show ?thesis by (simp add: sdramPads_def del: orTerms.simps)
qed


lemma sdramInit_runs:
  assumes "\<exists>n. rd n AND DDR_CR30_INTSTAT_DRAM_INIT_COMPLETE_MASK \<noteq> 0"
  shows "\<exists>h'. sdramInit rd h = Some h' \<and> (\<forall>(r, v) \<in> set sdramWas. h' (''DDR_'' @ r) = v) \<and>
    h' ''DDR_CR00'' = 0x401 \<and> h' ''DDR_PAD_CTRL'' = 0x01030203 \<and> h' ''DDR_RCR'' = h ''DDR_RCR'' OR 0x40000000 \<and>
    h' ''SIM_SCGC3'' = h ''SIM_SCGC3'' OR 0x4000 \<and> h' ''SIM_MCR'' = h ''SIM_MCR'' OR 0xC4 \<and>
    h' ''MCM_CR'' = h ''MCM_CR'' OR 0x100000"
proof -
  define h1 where "h1 = the (sdramPads h)"
  have h1: "sdramPads h = Some h1" by (simp add: h1_def sdramPads_values)
  let ?rows = "sdramTiming @ sdramModes @ sdramPorts @ sdramPhy"
  have names: "fst ` set ?rows = set (map fst sdramWas)" using sdram_rows_names by (metis set_map)
  from writeRows_values [OF sdram_rows_was, of "''DDR_''" h1] obtain h2 where h2:
    "writeRows ddrFields ''DDR_'' ?rows h1 = Some h2"
    "\<forall>r \<in> fst ` set ?rows. map_of sdramWas r = Some (h2 (''DDR_'' @ r))"
    "\<forall>x. (\<forall>r \<in> fst ` set ?rows. x \<noteq> ''DDR_'' @ r) \<longrightarrow> h2 x = h1 x"
    by blast
  have start: "fieldMask ddrFields ''CR00'' ''START'' = Some 1" by code_simp
  obtain k where k: "pollReg DDR_CR30_INTSTAT_DRAM_INIT_COMPLETE_MASK rd 0 = Some k"
    using assms pollReg_returns by blast
  have size: "field 20 0x300000 1 = (0x100000 :: u32)" by code_simp
  define h' where "h' = orReg ''MCM_CR'' 0x100000 (orReg ''DDR_CR00'' 1 h2)"
  have run: "sdramInit rd h = Some h'" using h1 h2(1) start k size by (simp add: sdramInit_def h'_def)
  have other: "h2 x = h1 x" if "list_all (\<lambda>r. x \<noteq> ''DDR_'' @ r) (map fst sdramWas)" for x
    using h2(3) that unfolding names by (simp add: list_all_iff)
  have kept: "h2 ''DDR_CR00'' = h1 ''DDR_CR00''" "h2 ''DDR_PAD_CTRL'' = h1 ''DDR_PAD_CTRL''" "h2 ''DDR_RCR'' = h1 ''DDR_RCR''"
    "h2 ''SIM_SCGC3'' = h1 ''SIM_SCGC3''" "h2 ''SIM_MCR'' = h1 ''SIM_MCR''" "h2 ''MCM_CR'' = h1 ''MCM_CR''"
    by (rule other, simp add: sdramWas_def)+
  have "h' (''DDR_'' @ r) = v" if "(r, v) \<in> set sdramWas" for r v
  proof -
    have "r \<noteq> ''CR00''" using that by (auto simp: sdramWas_def)
    moreover have "map_of sdramWas r = Some v" using that sdramWas_distinct by simp
    moreover have "r \<in> fst ` set ?rows" unfolding names using that by force
    moreover have "map_of sdramWas r = Some (h2 (''DDR_'' @ r))" using h2(2) calculation(3) by (rule bspec)
    ultimately show ?thesis by (simp add: h'_def)
  qed
  then show ?thesis using run kept h1 by (auto simp: h'_def sdramPads_values)
qed

lemma mcgPll0_values:
  "mcgPll0 h = Some (setReg ''MCG_C5'' 0x44 (setReg ''MCG_C6'' 0x68 (setReg ''MCG_C5'' 4 (setReg ''MCG_C1'' 0xA8
     (setReg ''MCG_C2'' 0x10 (setReg ''SIM_CLKDIV1'' 0x01250000 (orReg ''SIM_SCGC5'' 0x200 h)))))))"
proof -
  have "SIM_CLKDIV1_OUTDIV 1 0 OR SIM_CLKDIV1_OUTDIV 2 1 OR SIM_CLKDIV1_OUTDIV 3 2 OR SIM_CLKDIV1_OUTDIV 4 5 = 0x01250000"
    "orTerms mcgFields ''C2'' [RField ''RANGE0'' 1] = Some 0x10"
    "orTerms mcgFields ''C1'' [RField ''CLKS'' 2, RField ''FRDIV'' 5] = Some 0xA8"
    "orTerms mcgFields ''C5'' [RField ''PRDIV0'' 4] = Some 4"
    "orTerms mcgFields ''C6'' [RMask ''PLLS'', RMask ''CME0'', RField ''VDIV0'' 8] = Some 0x68"
    "orTerms mcgFields ''C5'' [RField ''PRDIV0'' 4, RMask ''PLLCLKEN0''] = Some 0x44"
    by code_simp+
  then show ?thesis by (simp add: mcgPll0_def del: orTerms.simps)
qed

lemma mcgPll1_values:
  "mcgPll1 h = Some (setReg ''MCG_C11'' 0x44 (setReg ''MCG_C12'' 14 (setReg ''MCG_C10'' 0x14 (setReg ''MCG_C1'' 0x28 h))))"
proof -
  have "orTerms mcgFields ''C1'' [RField ''FRDIV'' 5] = Some 0x28"
    "orTerms mcgFields ''C10'' [RField ''RANGE1'' 1, RMask ''EREFS1''] = Some 0x14"
    "orTerms mcgFields ''C12'' [RField ''VDIV1'' 14] = Some 14"
    "orTerms mcgFields ''C11'' [RField ''PRDIV1'' 4, RMask ''PLLCLKEN1''] = Some 0x44"
    by code_simp+
  then show ?thesis by (simp add: mcgPll1_def del: orTerms.simps)
qed

subsection \<open>The clocks that result\<close>

text \<open>
  What the registers mean, as the comments of \<open>mcgInit.c\<close> put it: the output is the external clock or that of
  the first loop, which divides the external clock, multiplies it and halves it; the dividers count from 1
  and the multipliers from 16.
\<close>

definition regBits :: "regs \<Rightarrow> string \<Rightarrow> u32 \<Rightarrow> nat \<Rightarrow> nat" where
  "regBits h r m s = unat (drop_bit s (h r AND m))"

definition pllClock :: "nat \<Rightarrow> nat \<Rightarrow> nat \<Rightarrow> nat" where
  "pllClock ext prdiv vdiv = ext div (prdiv + 1) * (vdiv + 16) div 2"

definition mcgOut :: "nat \<Rightarrow> regs \<Rightarrow> nat option" where
  "mcgOut ext h =
     (let clks = regBits h ''MCG_C1'' 0xC0 6 in
      if clks = 2 then Some ext
      else if clks = 0 \<and> regBits h ''MCG_C6'' 0x40 6 = 1 then Some (pllClock ext (regBits h ''MCG_C5'' 7 0) (regBits h ''MCG_C6'' 0x1F 0))
      else None)"

definition outClock :: "nat \<Rightarrow> nat \<Rightarrow> regs \<Rightarrow> nat option" where
  "outClock i ext h = map_option (\<lambda>f. f div (regBits h ''SIM_CLKDIV1'' (push_bit (32 - 4 * i) 0xF) (32 - 4 * i) + 1)) (mcgOut ext h)"

definition ddrClock :: "nat \<Rightarrow> regs \<Rightarrow> nat" where
  "ddrClock ext h = pllClock ext (regBits h ''MCG_C11'' 7 0) (regBits h ''MCG_C12'' 0x1F 0)"

definition MHz :: "nat \<Rightarrow> nat" where
  "MHz n = n * 1000000"

definition clocksRun :: "regs \<Rightarrow> bool" where
  "clocksRun h \<longleftrightarrow> outClock 1 (MHz 50) h = Some (MHz 120) \<and> outClock 2 (MHz 50) h = Some (MHz 60) \<and>
     outClock 3 (MHz 50) h = Some (MHz 40) \<and> outClock 4 (MHz 50) h = Some (MHz 20) \<and> ddrClock (MHz 50) h = MHz 150"

lemma mcgInit_runs:
  assumes "\<exists>n. rdS n AND 0x40 \<noteq> 0" "\<exists>n. rdS2 n AND 0x40 \<noteq> 0"
  shows "\<exists>h1 h'. mcgPll0 h = Some h1 \<and> mcgOut (MHz 50) h1 = Some (MHz 50) \<and> mcgInit rdS rdS2 h = Some h' \<and> clocksRun h'"
proof -
  obtain j k where jk: "pollReg 0x40 rdS 0 = Some j" "pollReg 0x40 rdS2 0 = Some k"
    using assms pollReg_returns by metis
  have lock: "fieldMask mcgFields ''S'' ''LOCK0'' = Some 0x40" "fieldMask mcgFields ''S2'' ''LOCK1'' = Some 0x40"
    by code_simp+
  show ?thesis
    using jk
    by (simp add: mcgInit_def lock mcgPll0_values mcgPll1_values clocksRun_def outClock_def mcgOut_def ddrClock_def regBits_def
        pllClock_def MHz_def Let_def flip: numeral_2_eq_2)
qed

lemma schedInit_values:
  assumes "0 < q" "q \<le> 139"
  shows "\<exists>h'. schedInit q p h = Some h' \<and> unat (h' ''SYST_RVR'') + 1 = nat q * 120000 \<and>
    h' ''SYST_CSR'' = h ''SYST_CSR'' OR 6 \<and>
    h' ''SCB_SHPR3'' = (h ''SCB_SHPR3'' OR field 16 0xFF0000 (push_bit 4 (ucast p)) OR field 24 0xFF000000 (push_bit 4 (ucast p))) \<and>
    (\<forall>x. x \<notin> {''SYST_RVR'', ''SYST_CSR'', ''SCB_SHPR3''} \<longrightarrow> h' x = h x)"
proof -
  define r where "r = q * 120000 - 1"
  have r: "0 \<le> r" "r < 2 ^ 24" using assms by (simp_all add: r_def)
  have "field 0 SysTick_RVR_RELOAD_MASK (of_int r) = of_int r"
  proof -
    have "(0xFFFFFF :: u32) = mask 24" by (simp add: mask_eq_exp_minus_1)
    moreover have "take_bit 24 (of_int r :: u32) = of_int r"
      using r by (simp add: word_uint_eq_iff unsigned_take_bit_eq take_bit_int_eq_self uint_word_of_int_eq)
    ultimately show ?thesis by (simp add: field_def take_bit_eq_mask)
  qed
  moreover have "unat (of_int r :: u32) + 1 = nat q * 120000"
  proof -
    have "uint (of_int r :: u32) = r" using r by (simp add: uint_word_of_int_eq take_bit_int_eq_self)
    then have "unat (of_int r :: u32) = nat r" by (metis nat_uint_eq)
    then show ?thesis using assms by (simp add: r_def)
  qed
  moreover have "cint (q * 120000) = Some (q * 120000)" "cint (q * 120000 - 1) = Some r"
    using assms by (simp_all add: cint_def r_def)
  moreover have "(6 :: u32) = 2 OR 4" by simp
  ultimately show ?thesis by (simp add: schedInit_def Let_def or.assoc)
qed


text \<open>The old priorities of the scheduler's exceptions stay: they are combined with the new ones.\<close>

lemma schedInit_keeps_priorities:
  "schedInit 50 14 (\<lambda>_. 0x10000000) = Some h' \<Longrightarrow> h' ''SCB_SHPR3'' = 0xF0E00000"
  by (auto simp: schedInit_def cint_def Let_def field_def)

subsection \<open>Properties\<close>

text \<open>
  C31: the memory controller's set-up returns exactly when the controller reports that it is done, and then
  every register has the value that the comments give for it, the command processing is started, the pads and
  the clock are on, and the other bits of the shared registers are as before: the composition of fields by
  name is equal to the raw constants it replaced.
\<close>

theorem sdramInit_as_documented:
  "case sdramInit rd h of
     None \<Rightarrow> \<forall>n. rd n AND DDR_CR30_INTSTAT_DRAM_INIT_COMPLETE_MASK = 0
   | Some h' \<Rightarrow> (\<exists>n. rd n AND DDR_CR30_INTSTAT_DRAM_INIT_COMPLETE_MASK \<noteq> 0) \<and>
       list_all (\<lambda>(r, v). h' (''DDR_'' @ r) = v) sdramWas \<and> h' ''DDR_CR00'' = 0x401 \<and> h' ''DDR_PAD_CTRL'' = 0x01030203 \<and>
       h' ''DDR_RCR'' = h ''DDR_RCR'' OR 0x40000000 \<and> h' ''SIM_SCGC3'' = h ''SIM_SCGC3'' OR 0x4000 \<and>
       h' ''SIM_MCR'' = h ''SIM_MCR'' OR 0xC4 \<and> h' ''MCM_CR'' = h ''MCM_CR'' OR 0x100000"
proof (cases "\<exists>n. rd n AND DDR_CR30_INTSTAT_DRAM_INIT_COMPLETE_MASK \<noteq> 0")
  case True
  from sdramInit_runs [OF True, of h] show ?thesis using True by (auto simp: list_all_iff)
next
  case False
  then have "pollReg DDR_CR30_INTSTAT_DRAM_INIT_COMPLETE_MASK rd 0 = None"
    using pollReg_returns [of DDR_CR30_INTSTAT_DRAM_INIT_COMPLETE_MASK rd] by (simp add: not_Some_eq)
  then have "sdramInit rd h = None" by (auto simp: sdramInit_def Let_def bind_eq_None_conv)
  then show ?thesis using False by simp
qed

text \<open>
  C32: the set-up of the clocks returns exactly when both loops lock, and then the core runs at 120 MHz, the
  peripherals at 60, the external bus at 40, the flash at 20 and the memory at 150, from the external clock of
  50 MHz; until the first loop locks the external clock drives the system.
\<close>

theorem mcgInit_clocks:
  "case mcgInit rdS rdS2 h of
     None \<Rightarrow> (\<forall>n. rdS n AND 0x40 = 0) \<or> (\<forall>n. rdS2 n AND 0x40 = 0)
   | Some h' \<Rightarrow> clocksRun h' \<and> (\<exists>h1. mcgPll0 h = Some h1 \<and> mcgOut (MHz 50) h1 = Some (MHz 50))"
proof (cases "(\<exists>n. rdS n AND 0x40 \<noteq> 0) \<and> (\<exists>n. rdS2 n AND 0x40 \<noteq> 0)")
  case True
  then show ?thesis using mcgInit_runs [of rdS rdS2 h] by auto
next
  case False
  then have "pollReg 0x40 rdS 0 = None \<or> pollReg 0x40 rdS2 0 = None"
    using pollReg_returns [of "0x40" rdS] pollReg_returns [of "0x40" rdS2] by (metis not_Some_eq)
  moreover have "fieldMask mcgFields ''S'' ''LOCK0'' = Some 0x40" "fieldMask mcgFields ''S2'' ''LOCK1'' = Some 0x40"
    by code_simp+
  ultimately have "mcgInit rdS rdS2 h = None" by (auto simp: mcgInit_def bind_eq_None_conv)
  then show ?thesis using False by auto
qed

text \<open>
  C33: the quantum of the scheduler is what it is asked for: for 1 to 139 milliseconds, more than the boot's 50,
  the tick's reload value fits its 24 bits and counts exactly that many milliseconds of the core clock that
  the set-up of the clocks has left, which it does not touch.
\<close>

theorem schedInit_quantum:
  assumes "mcgInit rdS rdS2 h = Some h1" "0 < q" "q \<le> 139"
  shows "\<exists>h2 core. schedInit q p h1 = Some h2 \<and> outClock 1 (MHz 50) h2 = Some core \<and>
    (unat (h2 ''SYST_RVR'') + 1) * 1000 = nat q * core"
proof -
  have "mcgInit rdS rdS2 h \<noteq> None" using assms(1) by simp
  then have "pollReg 0x40 rdS 0 \<noteq> None" "pollReg 0x40 rdS2 0 \<noteq> None"
  proof -
    have lock: "fieldMask mcgFields ''S'' ''LOCK0'' = Some 0x40" "fieldMask mcgFields ''S2'' ''LOCK1'' = Some 0x40"
      by code_simp+
    show "pollReg 0x40 rdS 0 \<noteq> None" "pollReg 0x40 rdS2 0 \<noteq> None"
      using assms(1) by (auto simp: mcgInit_def lock bind_eq_Some_conv)
  qed
  then have "\<exists>n. rdS n AND 0x40 \<noteq> 0" "\<exists>n. rdS2 n AND 0x40 \<noteq> 0" using pollReg_returns by (metis not_Some_eq)+
  then have run: "clocksRun h1" using mcgInit_runs [of rdS rdS2 h] assms(1) by auto
  obtain h2 where h2: "schedInit q p h1 = Some h2" "unat (h2 ''SYST_RVR'') + 1 = nat q * 120000"
    "\<forall>x. x \<notin> {''SYST_RVR'', ''SYST_CSR'', ''SCB_SHPR3''} \<longrightarrow> h2 x = h1 x"
    using schedInit_values [OF assms(2,3), of p h1] by auto
  have "outClock 1 (MHz 50) h2 = outClock 1 (MHz 50) h1"
    using h2(3) by (simp add: outClock_def mcgOut_def regBits_def Let_def)
  then have "outClock 1 (MHz 50) h2 = Some (MHz 120)" using run by (simp add: clocksRun_def)
  then show ?thesis using h2(1,2) by (simp add: MHz_def)
qed

theorem schedInit_quantum_witness:
  "\<exists>h1 h2 core. mcgInit (\<lambda>n. if n < 3 then 0 else 0x40) (\<lambda>n. 0x40) (\<lambda>_. 0) = Some h1 \<and>
     schedInit 50 MANOS_ARCH_K70_SCHED_INT_PRIORITY h1 = Some h2 \<and>
     outClock 1 (MHz 50) h2 = Some core \<and> (unat (h2 ''SYST_RVR'') + 1) * 1000 = 50 * core"
proof -
  have "\<exists>n :: nat. (if n < 3 then 0 else 0x40) AND 0x40 \<noteq> (0 :: u32)" "\<exists>n :: nat. 0x40 AND 0x40 \<noteq> (0 :: u32)"
    by (auto intro: exI [of _ 3])
  then obtain h1 where "mcgInit (\<lambda>n. if n < 3 then 0 else 0x40) (\<lambda>n. 0x40) (\<lambda>_. 0) = Some h1"
    using mcgInit_runs [of "\<lambda>n. if n < 3 then 0 else 0x40" "\<lambda>n. 0x40" "\<lambda>_. 0"] by blast
  then show ?thesis using schedInit_quantum [of _ _ _ h1 50 14] by fastforce
qed

end
