(* ===== verification/Dispatch.thy ===== *)
theory Dispatch
  imports Files BootHw
begin

text \<open>
  System calls as programs make them: the calls of \<open>src/src/boot/arch/k70/syscall.c\<close> in the form they have on
  the other platforms, where they call the kernel directly, and the dispatcher that serves the \<open>SVC\<close>
  instruction on the K70 (\<open>svcHandler.c\<close>, \<open>syscall.x\<close>).
\<close>

subsection \<open>Direct calls\<close>

definition kexec ::
  "'d Sys Dev list \<Rightarrow> mem \<Rightarrow> (string \<Rightarrow> u32) \<Rightarrow> u32 option \<Rightarrow> nat option \<Rightarrow> string option \<Rightarrow> u32 \<Rightarrow> u32 list \<Rightarrow> 'd Sys
    \<Rightarrow> (int \<times> 'd Sys) option" where
  "kexec ds m code sb gb path argv argvWords s = sysexecv ds m code sb gb path argv argvWords s"

definition kclose :: "'d Sys Dev list \<Rightarrow> int \<Rightarrow> 'd Sys \<Rightarrow> 'd Sys option" where
  "kclose ds fd s = map_option snd (sysclose ds fd s)"

definition kfstat :: "'d Sys Dev list \<Rightarrow> mem \<Rightarrow> int \<Rightarrow> NodeInfo \<Rightarrow> 'd Sys \<Rightarrow> (int \<times> NodeInfo) option" where
  "kfstat ds m fd ni s =
     do { r \<leftarrow> sysgetInfoFd ds m fd s; Some (case r of Inl _ \<Rightarrow> (-1, ni) | Inr ni' \<Rightarrow> (0, ni')) }"

definition kopen :: "'d Sys Dev list \<Rightarrow> mem \<Rightarrow> string \<Rightarrow> u32 \<Rightarrow> 'd Sys \<Rightarrow> (int \<times> 'd Sys) option" where
  "kopen ds m path caps s =
     do { (r, s') \<leftarrow> sysopen ds m path caps s; Some (case r of Inl _ \<Rightarrow> -1 | Inr fd \<Rightarrow> int fd, s') }"

text \<open>Reading gives the number of bytes and those it put in the buffer.\<close>

definition kread :: "'d Sys Dev list \<Rightarrow> mem \<Rightarrow> int \<Rightarrow> u32 \<Rightarrow> 'd Sys \<Rightarrow> ((int \<times> string) \<times> 'd Sys) option" where
  "kread ds m fd n s =
     do { (r, s') \<leftarrow> sysread ds m fd n s; Some (case r of Inl _ \<Rightarrow> (-1, []) | Inr (k, out) \<Rightarrow> (sint k, out), s') }"

definition kwrite :: "'d Sys Dev list \<Rightarrow> mem \<Rightarrow> int \<Rightarrow> string \<Rightarrow> u32 \<Rightarrow> 'd Sys \<Rightarrow> (int \<times> 'd Sys) option" where
  "kwrite ds m fd buf n s =
     do { (r, s') \<leftarrow> syswrite ds m fd buf n s; Some (case r of Inl _ \<Rightarrow> -1 | Inr k \<Rightarrow> sint k, s') }"

definition trylock :: "Lock \<Rightarrow> 'd Sys \<Rightarrow> int \<times> Lock" where
  "trylock l s = (case systrylock (rpid (kern s)) l of (got, l') \<Rightarrow> (if got then 1 else 0, l'))"

definition lock :: "Lock \<Rightarrow> 'd Sys \<Rightarrow> Lock option" where
  "lock l s = syslock (rpid (kern s)) (rpdead (kern s)) l"

definition unlock :: "Lock \<Rightarrow> 'd Sys \<Rightarrow> Lock" where
  "unlock l s = sysunlock (rpid (kern s)) l"

definition waitpid :: "int \<Rightarrow> 'd Sys \<Rightarrow> 'd Sys option" where
  "waitpid p s = do { k \<leftarrow> syswaitpid p (kern s); Some (s\<lparr>kern := k\<rparr>) }"

definition sleep :: "'d Sys Dev list \<Rightarrow> mem \<Rightarrow> int \<Rightarrow> 'd Sys \<Rightarrow> (int \<times> 'd Sys) option" where
  "sleep ds m millis s =
     do { (r, s') \<leftarrow> syssleep ds m millis s; Some (case r of Inl _ \<Rightarrow> -1 | Inr n \<Rightarrow> sint n, s') }"

text \<open>This one is declared to return an \<open>int\<close> and has no return statement: it has no result.\<close>

definition postsignal :: "int \<Rightarrow> u32 \<Rightarrow> 'd Sys \<Rightarrow> 'd Sys option" where
  "postsignal p sig s = do { k \<leftarrow> syspostsignal p sig (kern s); Some (s\<lparr>kern := k\<rparr>) }"

subsection \<open>The machine a program runs on\<close>

text \<open>
  The registers the processor saves when a call interrupts a program, as \<open>StackFrame\<close> has them; beside the
  kernel's state the memory of programs, as the bytes, the locks and the node descriptions at its addresses,
  the special registers, and the nesting of critical regions with the state of the interrupts.
\<close>

record StackFrame =
  fa :: "u32 list"
  fip :: u32
  flr :: u32
  fpc :: u32
  fxpsr :: u32

record Machine =
  sys :: Manos
  ubytes :: "u32 \<Rightarrow> u8"
  ulocks :: "u32 \<Rightarrow> Lock"
  unodes :: "u32 \<Rightarrow> NodeInfo"
  uregs :: regs
  criticalRegionCount :: int
  interruptsOn :: bool

definition enterCriticalRegion :: "Machine \<Rightarrow> Machine" where
  "enterCriticalRegion w =
     (let w1 = (if criticalRegionCount w = 0 then w\<lparr>interruptsOn := False\<rparr> else w)
      in w1\<lparr>criticalRegionCount := criticalRegionCount w1 + 1\<rparr>)"

definition leaveCriticalRegion :: "Machine \<Rightarrow> Machine" where
  "leaveCriticalRegion w =
     (let w1 = w\<lparr>criticalRegionCount := criticalRegionCount w - 1\<rparr>
      in if criticalRegionCount w1 = 0 then w1\<lparr>interruptsOn := True\<rparr> else w1)"

definition yieldCpu :: "Machine \<Rightarrow> Machine" where
  "yieldCpu w = w\<lparr>uregs := YIELD (uregs w)\<rparr>"

text \<open>
  A string in memory, and the \<open>n\<close> bytes of a buffer with those up to the next \<open>NUL\<close> after them, which a
  reader of numbers may look at.
\<close>

partial_function (option) stringAt :: "(u32 \<Rightarrow> u8) \<Rightarrow> u32 \<Rightarrow> string option" where
  "stringAt b a = (if b a = 0 then Some [] else do { s \<leftarrow> stringAt b (a + 1); Some (chr8 (b a) # s) })"

definition bytesAt :: "(u32 \<Rightarrow> u8) \<Rightarrow> u32 \<Rightarrow> u32 \<Rightarrow> string" where
  "bytesAt b a n = map (\<lambda>i. chr8 (b (a + of_nat i))) [0..<unat n]"

definition bufferAt :: "(u32 \<Rightarrow> u8) \<Rightarrow> u32 \<Rightarrow> u32 \<Rightarrow> string option" where
  "bufferAt b a n = do { rest \<leftarrow> stringAt b (a + n); Some (bytesAt b a n @ rest @ [NUL]) }"

fun putBytes :: "u32 \<Rightarrow> string \<Rightarrow> (u32 \<Rightarrow> u8) \<Rightarrow> (u32 \<Rightarrow> u8)" where
  "putBytes a [] b = b"
| "putBytes a (c # cs) b = putBytes (a + 1) cs (b(a := ord8 c))"

subsection \<open>The system calls of the table\<close>

definition execSyscall ::
  "Manos Dev list \<Rightarrow> mem \<Rightarrow> (string \<Rightarrow> u32) \<Rightarrow> u32 option \<Rightarrow> nat option \<Rightarrow> u32 list \<Rightarrow> Machine \<Rightarrow> (u32 \<times> Machine) option" where
  "execSyscall ds m code sb gb args w =
     do {
       path \<leftarrow> (if args ! 0 = 0 then Some None else map_option Some (stringAt (ubytes w) (args ! 0)));
       let argvWords = map (\<lambda>i. words (sys w) (args ! 1 + 4 * of_nat i)) [0..<256];
       (r, s') \<leftarrow> sysexecv ds m code sb gb path (args ! 1) argvWords (sys w);
       Some (of_int r, w\<lparr>sys := s'\<rparr>)
     }"

definition closeSyscall :: "Manos Dev list \<Rightarrow> u32 list \<Rightarrow> Machine \<Rightarrow> (u32 \<times> Machine) option" where
  "closeSyscall ds args w = do { (_, s') \<leftarrow> sysclose ds (sint (args ! 0)) (sys w); Some (0, w\<lparr>sys := s'\<rparr>) }"

definition fstatSyscall :: "Manos Dev list \<Rightarrow> mem \<Rightarrow> u32 list \<Rightarrow> Machine \<Rightarrow> (u32 \<times> Machine) option" where
  "fstatSyscall ds m args w =
     do {
       r \<leftarrow> sysgetInfoFd ds m (sint (args ! 0)) (sys w);
       Some (case r of Inl _ \<Rightarrow> (-1, w) | Inr ni \<Rightarrow> (0, w\<lparr>unodes := (unodes w)(args ! 1 := ni)\<rparr>))
     }"

definition openSyscall :: "Manos Dev list \<Rightarrow> mem \<Rightarrow> u32 list \<Rightarrow> Machine \<Rightarrow> (u32 \<times> Machine) option" where
  "openSyscall ds m args w =
     do {
       path \<leftarrow> stringAt (ubytes w) (args ! 0);
       (r, s') \<leftarrow> sysopen ds m path (args ! 1) (sys w);
       Some (case r of Inl _ \<Rightarrow> -1 | Inr fd \<Rightarrow> of_nat fd, w\<lparr>sys := s'\<rparr>)
     }"

definition readSyscall :: "Manos Dev list \<Rightarrow> mem \<Rightarrow> u32 list \<Rightarrow> Machine \<Rightarrow> (u32 \<times> Machine) option" where
  "readSyscall ds m args w =
     do {
       (r, s') \<leftarrow> sysread ds m (sint (args ! 0)) (args ! 2) (sys w);
       Some (case r of
               Inl _ \<Rightarrow> (-1, w\<lparr>sys := s'\<rparr>)
             | Inr (n, out) \<Rightarrow> (n, w\<lparr>sys := s', ubytes := putBytes (args ! 1) out (ubytes w)\<rparr>))
     }"

definition writeSyscall :: "Manos Dev list \<Rightarrow> mem \<Rightarrow> u32 list \<Rightarrow> Machine \<Rightarrow> (u32 \<times> Machine) option" where
  "writeSyscall ds m args w =
     do {
       buf \<leftarrow> bufferAt (ubytes w) (args ! 1) (args ! 2);
       (r, s') \<leftarrow> syswrite ds m (sint (args ! 0)) buf (args ! 2) (sys w);
       Some (case r of Inl _ \<Rightarrow> -1 | Inr n \<Rightarrow> n, w\<lparr>sys := s'\<rparr>)
     }"

definition trylockSyscall :: "u32 list \<Rightarrow> Machine \<Rightarrow> (u32 \<times> Machine) option" where
  "trylockSyscall args w =
     (case systrylock (rpid (kern (sys w))) (ulocks w (args ! 0)) of
        (got, l) \<Rightarrow> Some (if got then 1 else 0, w\<lparr>ulocks := (ulocks w)(args ! 0 := l)\<rparr>))"

definition lockSyscall :: "u32 list \<Rightarrow> Machine \<Rightarrow> (u32 \<times> Machine) option" where
  "lockSyscall args w =
     (if args ! 0 = 0 then None
      else do { l \<leftarrow> syslock (rpid (kern (sys w))) (rpdead (kern (sys w))) (ulocks w (args ! 0));
                Some (0, w\<lparr>ulocks := (ulocks w)(args ! 0 := l)\<rparr>) })"

definition unlockSyscall :: "u32 list \<Rightarrow> Machine \<Rightarrow> (u32 \<times> Machine) option" where
  "unlockSyscall args w =
     Some (0, w\<lparr>ulocks := (ulocks w)(args ! 0 := sysunlock (rpid (kern (sys w))) (ulocks w (args ! 0)))\<rparr>)"

text \<open>Waiting and sleeping ask for the switch to another process when the caller was made to wait.\<close>

definition waitpidSyscall :: "u32 list \<Rightarrow> Machine \<Rightarrow> (u32 \<times> Machine) option" where
  "waitpidSyscall args w =
     do {
       k \<leftarrow> syswaitpid (sint (args ! 0)) (kern (sys w));
       let w1 = w\<lparr>sys := (sys w)\<lparr>kern := k\<rparr>\<rparr>;
       Some (0, if sint (args ! 0) < 0 \<or> int MANOS_MAXPROC < sint (args ! 0) then w1 else yieldCpu w1)
     }"

definition exitsSyscall :: "u32 list \<Rightarrow> Machine \<Rightarrow> (u32 \<times> Machine) option" where
  "exitsSyscall args w = Some (0, leaveCriticalRegion (yieldCpu (enterCriticalRegion w)))"

definition postsignalSyscall :: "u32 list \<Rightarrow> Machine \<Rightarrow> (u32 \<times> Machine) option" where
  "postsignalSyscall args w =
     do { k \<leftarrow> syspostsignal (sint (args ! 0)) (args ! 1) (kern (sys w)); Some (0, w\<lparr>sys := (sys w)\<lparr>kern := k\<rparr>\<rparr>) }"

definition sleepSyscall :: "Manos Dev list \<Rightarrow> mem \<Rightarrow> u32 list \<Rightarrow> Machine \<Rightarrow> (u32 \<times> Machine) option" where
  "sleepSyscall ds m args w =
     do {
       (r, s') \<leftarrow> syssleep ds m (sint (args ! 0)) (sys w);
       let w1 = w\<lparr>sys := s'\<rparr>;
       Some (case r of Inl _ \<Rightarrow> (-1, w1) | Inr n \<Rightarrow> (n, if 0 <s n then yieldCpu w1 else w1))
     }"

subsection \<open>The dispatcher\<close>

record syscallEntry =
  fn :: "u32 list \<Rightarrow> Machine \<Rightarrow> (u32 \<times> Machine) option"
  isVoid :: bool

text \<open>The table in the order of \<open>SYSCALL_MAP\<close>.\<close>

definition dispatchTable ::
  "Manos Dev list \<Rightarrow> mem \<Rightarrow> (string \<Rightarrow> u32) \<Rightarrow> u32 option \<Rightarrow> nat option \<Rightarrow> syscallEntry list" where
  "dispatchTable ds m code sb gb =
     [\<lparr>fn = execSyscall ds m code sb gb, isVoid = False\<rparr>,
      \<lparr>fn = closeSyscall ds, isVoid = True\<rparr>,
      \<lparr>fn = fstatSyscall ds m, isVoid = False\<rparr>,
      \<lparr>fn = openSyscall ds m, isVoid = False\<rparr>,
      \<lparr>fn = readSyscall ds m, isVoid = False\<rparr>,
      \<lparr>fn = writeSyscall ds m, isVoid = False\<rparr>,
      \<lparr>fn = trylockSyscall, isVoid = False\<rparr>,
      \<lparr>fn = lockSyscall, isVoid = True\<rparr>,
      \<lparr>fn = unlockSyscall, isVoid = True\<rparr>,
      \<lparr>fn = waitpidSyscall, isVoid = True\<rparr>,
      \<lparr>fn = exitsSyscall, isVoid = True\<rparr>,
      \<lparr>fn = postsignalSyscall, isVoid = False\<rparr>,
      \<lparr>fn = sleepSyscall ds m, isVoid = False\<rparr>]"

text \<open>
  The number of the call is in the instruction before the return address. A number that is not in the table
  stops the processor at a breakpoint, after a message.
\<close>

definition svcHandlerDispatch ::
  "Manos Dev list \<Rightarrow> mem \<Rightarrow> (string \<Rightarrow> u32) \<Rightarrow> u32 option \<Rightarrow> nat option \<Rightarrow> StackFrame \<times> Machine \<Rightarrow> (StackFrame \<times> Machine) option" where
  "svcHandlerDispatch ds m code sb gb fw =
     (case fw of (f, w) \<Rightarrow>
        let w0 = enterCriticalRegion w;
            w1 = w0\<lparr>sys := (sys w0)\<lparr>devst := (devst (sys w0))\<lparr>svcInterruptCount := svcInterruptCount (devst (sys w0)) + 1\<rparr>\<rparr>\<rparr>;
            w2 = leaveCriticalRegion w1;
            idx = unat (ubytes w2 (fpc f - 2));
            tab = dispatchTable ds m code sb gb
        in if idx < length tab then
             do { (r, w3) \<leftarrow> fn (tab ! idx) (fa f) w2;
                  Some (if isVoid (tab ! idx) then f else f\<lparr>fa := (fa f)[0 := r]\<rparr>, w3) }
           else None)"

subsection \<open>The end of a process\<close>

definition manosExit :: "'d Sys \<Rightarrow> 'd Sys option" where
  "manosExit s =
     do { q \<leftarrow> rp (kern s); k \<leftarrow> abortProc q (kern s); Some (s\<lparr>kern := upd q (\<lambda>x. x\<lparr>state := ProcDead\<rparr>) k\<rparr>) }"

subsection \<open>The machine runs\<close>

text \<open>
  The handlers of the scheduler's two exceptions (\<open>schedHandler.c\<close>): the stack pointer of the interrupted
  process goes in, that of the next one comes out; and the handler of the alarms.
\<close>

definition schedHandler :: "u32 \<Rightarrow> Machine \<Rightarrow> (u32 \<times> Machine) option" where
  "schedHandler x w =
     do { (y, k) \<leftarrow> scheduleProc x (kern (sys w)); Some (y, w\<lparr>sys := (sys w)\<lparr>kern := k\<rparr>\<rparr>) }"

definition systickHandler :: "u32 \<Rightarrow> Machine \<Rightarrow> (u32 \<times> Machine) option" where
  "systickHandler x w =
     (let w1 = enterCriticalRegion w;
          d = devst (sys w1);
          w2 = w1\<lparr>sys := (sys w1)\<lparr>devst := d\<lparr>systickInterruptCount := systickInterruptCount d + 1\<rparr>\<rparr>\<rparr>
      in schedHandler x (leaveCriticalRegion w2))"

definition pendsvHandler :: "u32 \<Rightarrow> Machine \<Rightarrow> (u32 \<times> Machine) option" where
  "pendsvHandler x w =
     (let w1 = enterCriticalRegion w;
          d = devst (sys w1);
          w2 = w1\<lparr>sys := (sys w1)\<lparr>devst := d\<lparr>pendsvInterruptCount := pendsvInterruptCount d + 1\<rparr>\<rparr>\<rparr>
      in schedHandler x (leaveCriticalRegion w2))"

definition alarmInterrupt :: "Machine \<Rightarrow> Machine option" where
  "alarmInterrupt w =
     do { (t, k) \<leftarrow> pdbHandler (timerDev (devst (sys w))) (kern (sys w));
          Some (w\<lparr>sys := (sys w)\<lparr>kern := k, devst := (devst (sys w))\<lparr>timerDev := t\<rparr>\<rparr>\<rparr>) }"

text \<open>
  What happens to the machine: a program writes its memory, makes a system call or ends, the scheduler's
  exceptions switch to another process, and an alarm rings. The blocks that the allocator gives are free.
\<close>

inductive machine_step :: "font \<Rightarrow> mem \<Rightarrow> Machine \<Rightarrow> Machine \<Rightarrow> bool" for font :: font and m :: mem where
  step_program: "machine_step font m w (w\<lparr>ubytes := b, ulocks := l, unodes := n\<rparr>)"
| step_svc: "svcHandlerDispatch (deviceTable font m) m code sb gb (f, w) = Some (f', w') \<Longrightarrow> machine_step font m w w'"
| step_exit: "manosExit (sys w) = Some s \<Longrightarrow> machine_step font m w (w\<lparr>sys := s\<rparr>)"
| step_tick: "systickHandler x w = Some (y, w') \<Longrightarrow> machine_step font m w w'"
| step_yield: "pendsvHandler x w = Some (y, w') \<Longrightarrow> machine_step font m w w'"
| step_alarm: "alarmInterrupt w = Some w' \<Longrightarrow> machine_step font m w w'"

inductive_cases machine_stepE: "machine_step font m w w'"

end
