(* ===== verification/MachineProps.thy ===== *)
theory MachineProps
  imports Dispatch
begin

text \<open>
  What holds in every run of the machine of \<open>Dispatch\<close>: the ownership of portals and the nesting of critical
  regions; and a program that makes three system calls. The addresses of portals are never used again in the
  model, so the descriptors that a process which has ended still holds until its slot is cleared do no harm.
\<close>

subsection \<open>Descriptors stay private in every call\<close>

text \<open>
  Changes of the kernel's processes that leave their directories and their descriptors alone, but for
  descriptor tables that are cleared as a whole.
\<close>

definition sameHeld :: "Kern \<Rightarrow> Kern \<Rightarrow> bool" where
  "sameHeld k k' \<longleftrightarrow>
     (\<forall>q. (fds (procs k' q) = fds (procs k q) \<or> fds (procs k' q) = (\<lambda>_. None)) \<and>
          pslash (procs k' q) = pslash (procs k q) \<and> pdot (procs k' q) = pdot (procs k q))"

lemma sameHeld_refl [simp]: "sameHeld k k"
  by (simp add: sameHeld_def)

lemma sameHeld_trans: "sameHeld k k' \<Longrightarrow> sameHeld k' k'' \<Longrightarrow> sameHeld k k''"
  unfolding sameHeld_def by metis

lemma sameHeld_procs: "procs k' = procs k \<Longrightarrow> sameHeld k k'"
  by (simp add: sameHeld_def)

lemma sameHeld_upd:
  assumes "fds (f (procs k q)) = fds (procs k q) \<or> fds (f (procs k q)) = (\<lambda>_. None)" "pslash (f (procs k q)) = pslash (procs k q)"
    "pdot (f (procs k q)) = pdot (procs k q)"
  shows "sameHeld k (upd q f k)"
  using assms by (simp add: sameHeld_def upd_def)

lemma later_sameHeld:
  assumes "tidy s" "portals s' = portals s" "fresh s' = fresh s" "sameHeld (kern s) (kern s')"
  shows "later s s'"
proof -
  have "held s' h = held s h \<or> held s' h = None" for h
  proof (cases h)
    case (Fd q fd)
    have "fds (procs (kern s') q) = fds (procs (kern s) q) \<or> fds (procs (kern s') q) = (\<lambda>_. None)"
      using assms(4) by (simp add: sameHeld_def)
    then show ?thesis using Fd by auto
  qed (use assms(4) in \<open>simp_all add: sameHeld_def\<close>)
  then have held: "held s' h = Some a \<Longrightarrow> held s h = Some a" for h a by (metis option.distinct(1))
  have "portals s a \<noteq> None" if "held s' h = Some a" for h a by (rule tidyD(1) [OF assms(1) held [OF that]])
  moreover have "h = h'" if "held s' h = Some a" "held s' h' = Some a" for h h' a
    by (rule tidyD(2) [OF assms(1) held [OF that(1)] held [OF that(2)]])
  ultimately show ?thesis using tidyD(3) [OF assms(1)] assms(2,3) by (auto simp: later_def tidy_def)
qed

lemma newProcGroup_same: "newProcGroup b g k = Some (r, k') \<Longrightarrow> procs k' = procs k"
  by (auto simp: newProcGroup_def bind_eq_Some_conv)

lemma newProc_same: "newProc sb gb k = Some (q, k') \<Longrightarrow> sameHeld k k'"
  by (auto simp: newProc_def bind_eq_Some_conv Let_def sameHeld_def upd_def setLinks_def
      dest!: newProcGroup_same split: if_splits)

lemma syswaitpid_same: "syswaitpid p k = Some k' \<Longrightarrow> sameHeld k k'"
  by (auto simp: syswaitpid_def bind_eq_Some_conv Let_def sameHeld_def upd_def setLinks_def split: if_splits)

lemma syspostsignal_same: "syspostsignal p sig k = Some k' \<Longrightarrow> sameHeld k k'"
  by (auto simp: syspostsignal_def bind_eq_Some_conv sameHeld_def upd_def split: if_splits)

lemma eachSafe_same:
  assumes run: "eachSafe h body pos x k = Some r" and body: "\<And>n k b k'. body n k = Some (b, k') \<Longrightarrow> sameHeld k k'"
  shows "sameHeld k (snd r)"
proof -
  let ?P = "\<lambda>h b pos x k r. (\<forall>n k c k'. b n k = Some (c, k') \<longrightarrow> sameHeld k k') \<longrightarrow> sameHeld k (snd r)"
  have step: "?P h b pos x k r"
    if ih: "\<And>h b pos x k r. each h b pos x k = Some r \<Longrightarrow> ?P h b pos x k r"
      and eq: "(case pos of
         None \<Rightarrow> Some (None, k)
       | Some n \<Rightarrow>
           if n = h then Some (None, k)
           else do {
             (brk, k') \<leftarrow> b n k;
             if brk then Some (Some n, k')
             else do {
               m \<leftarrow> x;
               x' \<leftarrow> (if m = h then Some None else do { y \<leftarrow> nxt (links k') m; Some (Some y) });
               each h b (Some m) x' k'
             }
           }) = Some r"
    for each and h :: node and b :: "node \<Rightarrow> Kern \<Rightarrow> (bool \<times> Kern) option" and pos x k r
  proof
    assume b: "\<forall>n k c k'. b n k = Some (c, k') \<longrightarrow> sameHeld k k'"
    show "sameHeld k (snd r)"
    proof (cases "\<exists>n. pos = Some n \<and> n \<noteq> h")
      case False
      then show ?thesis using eq by (cases pos) auto
    next
      case True
      then obtain n brk k1 where n: "pos = Some n" "n \<noteq> h" "b n k = Some (brk, k1)"
        using eq by (auto simp: bind_eq_Some_conv)
      have k1: "sameHeld k k1" using b n(3) by blast
      show ?thesis
      proof (cases brk)
        case True
        then show ?thesis using eq n k1 by auto
      next
        case False
        then obtain m y where "each h b (Some m) y k1 = Some r" using eq n by (auto simp: bind_eq_Some_conv)
        then show ?thesis using sameHeld_trans [OF k1] ih b by blast
      qed
    qed
  qed
  have "?P h body pos x k r"
    by (rule eachSafe.raw_induct [of ?P "((((h, body), pos), x), k)" r, unfolded prod.case, OF step run])
  then show ?thesis using body by blast
qed

lemma forEachSafe_same:
  assumes "forEachSafe h body k = Some (r, k')" "\<And>n k b k'. body n k = Some (b, k') \<Longrightarrow> sameHeld k k'"
  shows "sameHeld k k'"
  using assms(1) eachSafe_same [where body = body and r = "(r, k')", OF _ assms(2)]
  by (auto simp: forEachSafe_def bind_eq_Some_conv split: if_splits)

lemma wakeWaiting_same: "wakeWaiting p k = Some k' \<Longrightarrow> sameHeld k k'"
  by (auto simp: wakeWaiting_def bind_eq_Some_conv elim!: forEachSafe_same split: node.splits)
    (auto simp: sameHeld_def upd_def setLinks_def)

lemma ttyMessage_same: "ttyMessage t p k = Some k' \<Longrightarrow> sameHeld k k'"
  by (auto simp: ttyMessage_def bind_eq_Some_conv Let_def sameHeld_def split: if_splits option.splits)

lemma abortProc_same: "abortProc p k = Some k' \<Longrightarrow> sameHeld k k'"
  by (auto simp: abortProc_def bind_eq_Some_conv setLinks_def dest!: wakeWaiting_same) (simp add: sameHeld_def)

lemma leaveProcGroup_same: "leaveProcGroup g k = Some k' \<Longrightarrow> procs k' = procs k"
  by (auto simp: leaveProcGroup_def bind_eq_Some_conv)

lemma recycleProc_same: "recycleProc p k = Some k' \<Longrightarrow> sameHeld k k'"
  by (auto simp: recycleProc_def bind_eq_Some_conv Let_def sameHeld_def upd_def setLinks_def dest!: leaveProcGroup_same)

lemma processSignals_same:
  assumes "processSignals p k = Some k'"
  shows "sameHeld k k'"
proof -
  let ?pending = "sigPending (procs k p)"
  have upd: "sameHeld k1 (upd q (\<lambda>x. x\<lparr>state := st\<rparr>) k1)" "sameHeld k1 (upd p (\<lambda>x. x\<lparr>sigPending := 0\<rparr>) k1)" for q st k1
    by (simp_all add: sameHeld_upd)
  have links: "sameHeld k1 (setLinks l k1)" for l k1 by (simp add: sameHeld_procs setLinks_def)
  have freed: "sameHeld k1 (k1\<lparr>freed := x\<rparr>)" for x k1 by (simp add: sameHeld_procs)
  have quit: "sameHeld k k1"
    if run: "do { k1 \<leftarrow> ttyMessage t n k; k2 \<leftarrow> wakeWaiting p k1; Some (g k2) } = Some k1" and g: "\<And>k2. sameHeld k2 (g k2)" for t n g k1
  proof -
    obtain k2 k3 where k: "ttyMessage t n k = Some k2" "wakeWaiting p k2 = Some k3" "k1 = g k3"
      using run by (auto simp: bind_eq_Some_conv)
    show ?thesis
      unfolding k(3) by (rule sameHeld_trans [OF sameHeld_trans [OF ttyMessage_same [OF k(1)] wakeWaiting_same [OF k(2)]] g])
  qed
  obtain k1 where k1: "(if ?pending AND SigAbort \<noteq> 0 then
        do {
          k1 \<leftarrow> ttyMessage ([CHR 0x0A] @ ''Killed [%d]'' @ [CHR 0x0A]) (pid (procs k p)) k;
          k2 \<leftarrow> wakeWaiting p k1;
          Some (upd p (\<lambda>q. q\<lparr>state := ProcDead\<rparr>) (k2\<lparr>freed := freed k2 @ openPortals (procs k2 p)\<rparr>))
        }
      else if ?pending AND SigStop \<noteq> 0 then
        do {
          k1 \<leftarrow> ttyMessage ([CHR 0x0A] @ ''Stopped [%d]'' @ [CHR 0x0A]) (pid (procs k p)) k;
          k2 \<leftarrow> wakeWaiting p k1;
          Some (upd p (\<lambda>q. q\<lparr>state := ProcStopped\<rparr>) (setLinks (INIT_LIST_HEAD (WaitQ p) (links k2)) k2))
        }
      else if ?pending AND SigContinue \<noteq> 0 then
        do {
          let k1 = upd p (\<lambda>q. q\<lparr>state := ProcReady\<rparr>) k;
          slot \<leftarrow> tableAt k1 (ppid (procs k1 p));
          q \<leftarrow> slot;
          l \<leftarrow> listAddAfter (NextWaitQ q) (WaitQ p) (links k1);
          Some (upd q (\<lambda>x. x\<lparr>state := ProcWaiting\<rparr>) (setLinks l k1))
        }
      else if ?pending AND SigAlarm \<noteq> 0 then Some (upd p (\<lambda>q. q\<lparr>state := ProcReady\<rparr>) k)
      else Some k) = Some k1"
    "k' = upd p (\<lambda>q. q\<lparr>sigPending := 0\<rparr>) k1"
    using assms unfolding processSignals_def Let_def bind_eq_Some_conv option.inject
    by blast
  have "sameHeld k k1"
  proof (cases "?pending AND SigAbort \<noteq> 0")
    case True
    show ?thesis
      by (rule quit [OF k1(1) [unfolded if_P [OF True]]]) (rule sameHeld_trans [OF freed upd(1)])
  next
    case no1: False
    show ?thesis
    proof (cases "?pending AND SigStop \<noteq> 0")
      case True
      show ?thesis
        by (rule quit [OF k1(1) [unfolded if_not_P [OF no1] if_P [OF True]]]) (rule sameHeld_trans [OF links upd(1)])
    next
      case no2: False
      note k1 = k1(1) [unfolded if_not_P [OF no1] if_not_P [OF no2]]
      show ?thesis
      proof (cases "?pending AND SigContinue \<noteq> 0")
        case True
        then obtain q l where "k1 = upd q (\<lambda>x. x\<lparr>state := ProcWaiting\<rparr>) (setLinks l (upd p (\<lambda>x. x\<lparr>state := ProcReady\<rparr>) k))"
          using k1 [unfolded if_P [OF True]] by (auto simp: bind_eq_Some_conv Let_def)
        then show ?thesis by (simp add: sameHeld_trans [OF sameHeld_trans [OF upd(1) links] upd(1)])
      next
        case False
        then show ?thesis using k1 [unfolded if_not_P [OF False]] upd(1) by (auto split: if_split_asm)
      qed
    qed
  qed
  then show ?thesis unfolding k1(2) by (rule sameHeld_trans [OF _ upd(2)])
qed

lemma nextRunnableBody_same: "nextRunnableBody n k = Some (b, k') \<Longrightarrow> sameHeld k k'"
  by (auto simp: nextRunnableBody_def bind_eq_Some_conv setLinks_def split: node.splits if_splits
      dest!: recycleProc_same processSignals_same) (simp_all add: sameHeld_def)

lemma nextRunnableProc_same: "nextRunnableProc k = Some (p, k') \<Longrightarrow> sameHeld k k'"
  by (auto simp: nextRunnableProc_def bind_eq_Some_conv Let_def dest!: forEachSafe_same [OF _ nextRunnableBody_same])
    (simp add: sameHeld_def)

lemma findRunnable_same:
  assumes "findRunnable k = Some r"
  shows "sameHeld k (snd r)"
  using assms
proof (induction k r rule: findRunnable.raw_induct [rotated, consumes 1])
  case (1 find k r)
  obtain p k1 where p: "nextRunnableProc k = Some (p, k1)" using 1(2) by (auto simp: bind_eq_Some_conv)
  show ?case using nextRunnableProc_same [OF p] 1 p sameHeld_trans by (auto split: if_splits)
qed

lemma scheduleProc_same:
  assumes "scheduleProc x k = Some (y, k')"
  shows "sameHeld k k'"
proof -
  have upd: "sameHeld k1 (upd q (\<lambda>x. x\<lparr>state := st\<rparr>) k1)" "sameHeld k1 (upd q (\<lambda>y. y\<lparr>sp := x\<rparr>) k1)" for q st k1
    by (simp_all add: sameHeld_upd)
  have links: "sameHeld k1 (setLinks l k1)" for l k1 by (simp add: sameHeld_procs setLinks_def)
  obtain k1 p k2 where pre: "(case rp k of
        None \<Rightarrow> Some k
      | Some r \<Rightarrow>
          if \<not> stackOk x (procs k r) then None
          else do {
            let k1 = (if state (procs k r) = ProcRunning then upd r (\<lambda>q. q\<lparr>state := ProcReady\<rparr>) k else k);
            k2 \<leftarrow> processSignals r k1;
            l \<leftarrow> listAddBefore (NextRunQ r) RunHead (links k2);
            Some (upd r (\<lambda>q. q\<lparr>sp := x\<rparr>) (setLinks l k2))
          }) = Some k1"
    and f: "findRunnable (k1\<lparr>rp := Some badProc\<rparr>) = Some (p, k2)"
    and k': "k' = upd p (\<lambda>q. q\<lparr>state := ProcRunning\<rparr>) (k2\<lparr>rp := Some p\<rparr>)"
    using assms unfolding scheduleProc_def by (auto simp: bind_eq_Some_conv split: if_splits)
  have k1: "sameHeld k k1"
  proof (cases "rp k")
    case None
    then show ?thesis using pre by simp
  next
    case (Some r)
    obtain k3 l where k3: "processSignals r (if state (procs k r) = ProcRunning then upd r (\<lambda>q. q\<lparr>state := ProcReady\<rparr>) k else k) = Some k3"
      "k1 = upd r (\<lambda>q. q\<lparr>sp := x\<rparr>) (setLinks l k3)"
      using pre Some unfolding Let_def by (auto simp: bind_eq_Some_conv split: if_split_asm)
    have "sameHeld k (if state (procs k r) = ProcRunning then upd r (\<lambda>q. q\<lparr>state := ProcReady\<rparr>) k else k)" by (simp add: upd)
    then show ?thesis using processSignals_same [OF k3(1)] k3(2) upd links by (metis sameHeld_trans)
  qed
  have "sameHeld k1 k2" using findRunnable_same [OF f] by (simp add: sameHeld_def)
  moreover have "sameHeld k2 k'" unfolding k' by (simp add: sameHeld_def upd_def)
  ultimately show ?thesis using k1 sameHeld_trans by blast
qed

lemma later_hold:
  assumes "tidy s" "\<And>h. held s' h = (if h = g then Some (fresh s) else held s h)"
    "portals s' = (portals s)(fresh s \<mapsto> p)" "fresh s' = fresh s + 1"
  shows "later s s'"
proof -
  have new: "held s h \<noteq> Some (fresh s)" for h
    using tidyD(1) [OF assms(1), of h "fresh s"] tidyD(3) [OF assms(1), of "fresh s"] by blast
  show ?thesis
    unfolding later_def tidy_def assms(2-4) using tidyD [OF assms(1)] new by (auto simp: less_SucI split: if_splits)
qed

lemma later_addDir:
  assumes "tidy s" "addPortal p s = (a, s')"
  shows "later s (s'\<lparr>kern := upd q (\<lambda>x. x\<lparr>pslash := Some a\<rparr>) (kern s')\<rparr>)" "later s (s'\<lparr>kern := upd q (\<lambda>x. x\<lparr>pdot := Some a\<rparr>) (kern s')\<rparr>)"
proof -
  have a: "a = fresh s" "s' = s\<lparr>portals := (portals s)(a \<mapsto> p), fresh := fresh s + 1\<rparr>"
    using assms(2) by (auto simp: addPortal_def)
  show "later s (s'\<lparr>kern := upd q (\<lambda>x. x\<lparr>pslash := Some a\<rparr>) (kern s')\<rparr>)"
  proof (rule later_hold [OF assms(1), where g = "Slash q" and p = p])
    show "held (s'\<lparr>kern := upd q (\<lambda>x. x\<lparr>pslash := Some a\<rparr>) (kern s')\<rparr>) h = (if h = Slash q then Some (fresh s) else held s h)" for h
      by (cases h) (auto simp: a upd_def)
  qed (simp_all add: a)
  show "later s (s'\<lparr>kern := upd q (\<lambda>x. x\<lparr>pdot := Some a\<rparr>) (kern s')\<rparr>)"
  proof (rule later_hold [OF assms(1), where g = "Dot q" and p = p])
    show "held (s'\<lparr>kern := upd q (\<lambda>x. x\<lparr>pdot := Some a\<rparr>) (kern s')\<rparr>) h = (if h = Dot q then Some (fresh s) else held s h)" for h
      by (cases h) (auto simp: a upd_def)
  qed (simp_all add: a)
qed

lemma setupStack_same:
  assumes "setupStack code q cmd argc argv s = Some s'"
  shows "portals s' = portals s \<and> fresh s' = fresh s \<and> sameHeld (kern s) (kern s')"
proof -
  obtain b a w where "stack (procs (kern s) q) = Some b"
    "pushWords (frameWords code cmd argc argv) (b + MANOS_ARCH_K70_STACK_SIZE) (words s) = (a, w)"
    using assms by (auto simp: setupStack_def bind_eq_Some_conv simp del: pushWords.simps) (metis prod.exhaust)
  then have "s' = s\<lparr>kern := upd q (\<lambda>x. x\<lparr>sp := a\<rparr>) (kern s), words := w\<rparr>"
    using assms by (simp add: setupStack_def)
  then show ?thesis by (simp add: sameHeld_def upd_def)
qed

context tidy_devices
begin

lemma attachRootFor_addPortal:
  assumes "attachRootFor ds m s = Some (a, s')" "tidy s"
  shows "\<exists>p s1. later s s1 \<and> kern s1 = kern s \<and> addPortal p s1 = (a, s')"
proof -
  obtain d p s1 where d: "deviceAt ds (fromDeviceId DEV_DEVROOT) = Some d" "dev_attach d m '''' s = Some (p, s1)"
    "addPortal p s1 = (a, s')"
    using assms(1) by (auto simp: attachRootFor_def bind_eq_Some_conv)
  show ?thesis using attach_later [OF deviceAt_set [OF d(1)] assms(2) d(2)] d(3) by blast
qed

lemma schedProc_later:
  assumes run: "schedProc ds m code sb gb cmd argc argv s = Some (q, s')" and "tidy s"
  shows "later s s'"
proof -
  obtain lk k1 a s1 b s2 r s4 s5 l where c:
    "newProc sb gb ((kern s)\<lparr>runQLock := lk\<rparr>) = Some (q, k1)"
    "attachRootFor ds m (s\<lparr>kern := k1\<rparr>) = Some (a, s1)"
    "attachRootFor ds m (s1\<lparr>kern := upd q (\<lambda>x. x\<lparr>pslash := Some a\<rparr>) (kern s1)\<rparr>) = Some (b, s2)"
    "openFor ds m q ''/dev/uart/k70Uart'' CAP_READWRITE (s2\<lparr>kern := upd q (\<lambda>x. x\<lparr>pdot := Some b\<rparr>) (kern s2)\<rparr>) = Some (r, s4)"
    "setupStack code q cmd argc argv
       (s4\<lparr>kern := upd q (\<lambda>x. x\<lparr>tty := (case r of Inl _ \<Rightarrow> -1 | Inr fd \<Rightarrow> int fd)\<rparr>) (kern s4)\<rparr>) = Some s5"
    and s': "portals s' = portals s5" "fresh s' = fresh s5" "sameHeld (kern s5) (kern s')"
    using run by (auto simp: schedProc_def bind_eq_Some_conv Let_def sameHeld_def upd_def setLinks_def)
  have k1: "sameHeld (kern s) k1" using newProc_same [OF c(1)] by (simp add: sameHeld_def)
  have l1: "later s (s\<lparr>kern := k1\<rparr>)" by (rule later_sameHeld [OF assms(2)]) (simp_all add: k1)
  obtain p1 t1 where a1: "later (s\<lparr>kern := k1\<rparr>) t1" "addPortal p1 t1 = (a, s1)"
    using attachRootFor_addPortal [OF c(2) later_tidy [OF l1]] by blast
  note l2 = later_trans [OF later_trans [OF l1 a1(1)] later_addDir(1) [OF later_tidy [OF a1(1)] a1(2), of q]]
  obtain p2 t2 where a2: "later (s1\<lparr>kern := upd q (\<lambda>x. x\<lparr>pslash := Some a\<rparr>) (kern s1)\<rparr>) t2" "addPortal p2 t2 = (b, s2)"
    using attachRootFor_addPortal [OF c(3) later_tidy [OF l2]] by blast
  note l3 = later_trans [OF later_trans [OF l2 a2(1)] later_addDir(2) [OF later_tidy [OF a2(1)] a2(2), of q]]
  note l4 = later_trans [OF l3 openFor_later [OF c(4) later_tidy [OF l3]]]
  have "sameHeld (kern s4) (upd q (\<lambda>x. x\<lparr>tty := (case r of Inl _ \<Rightarrow> -1 | Inr fd \<Rightarrow> int fd)\<rparr>) (kern s4))"
    by (rule sameHeld_upd) simp_all
  then have "sameHeld (kern s4) (kern s5) \<and> portals s5 = portals s4 \<and> fresh s5 = fresh s4"
    using setupStack_same [OF c(5)] by (auto intro: sameHeld_trans)
  then have "later s4 s'" using s' by (intro later_sameHeld [OF later_tidy [OF l4]]) (auto intro: sameHeld_trans)
  then show ?thesis using later_trans [OF l4] by blast
qed

lemma findProgram_later:
  assumes run: "findProgram ds m q path es s = Some (r, s')" and "tidy s"
  shows "later s s' \<and> kern s' = kern s"
proof -
  obtain a p0 r1 s1 where w1: "(if isAbsolute path then pslash (procs (kern s) q) else pdot (procs (kern s) q)) = Some a"
    "portals s a = Some p0" "syswalk ds m p0 es s = Some (r1, s1)"
    using run by (auto simp: findProgram_def bind_eq_Some_conv)
  note l1 = syswalk_later [OF w1(3) assms(2)]
  consider "s' = s1" | root rb s2 where "syswalk ds m root [''bin''] s1 = Some (rb, s2)" "s' = s2"
    | root pbin s2 r' where "syswalk ds m root [''bin''] s1 = Some (Inr pbin, s2)" "syswalk ds m pbin [last es] s2 = Some (r', s')"
  proof (cases "\<exists>p. r1 = Inr p \<or> isAbsolute path")
    case True
    then have "s' = s1" using run w1 by (cases r1) (auto simp: findProgram_def)
    then show ?thesis by (rule that(1))
  next
    case False
    then obtain e b root rb s2 where e: "r1 = Inl e" "\<not> isAbsolute path" "pslash (procs (kern s1) q) = Some b"
      "portals s1 b = Some root" "syswalk ds m root [''bin''] s1 = Some (rb, s2)"
      using run w1 by (cases r1) (auto simp: findProgram_def bind_eq_Some_conv)
    show ?thesis
    proof (cases rb)
      case (Inl x)
      then have "s' = s2" using run w1 e by (auto simp: findProgram_def)
      with e(5) show ?thesis by (rule that(2))
    next
      case (Inr pbin)
      then obtain r' where "syswalk ds m pbin [last es] s2 = Some (r', s')"
        using run w1 e by (auto simp: findProgram_def bind_eq_Some_conv split: if_splits)
      with e(5) [unfolded Inr] show ?thesis by (rule that(3))
    qed
  qed
  then show ?thesis
  proof cases
    case 1
    then show ?thesis using l1 by simp
  next
    case 2
    note l2 = syswalk_later [OF 2(1) later_tidy]
    show ?thesis using l1 l2 2(2) later_trans by metis
  next
    case 3
    note l2 = syswalk_later [OF 3(1) later_tidy [OF conjunct1 [OF l1]]]
    note l3 = syswalk_later [OF 3(2) later_tidy [OF conjunct1 [OF l2]]]
    show ?thesis using l1 l2 l3 later_trans by metis
  qed
qed

text \<open>From the opening of the file on, in a device of the table.\<close>

lemma loadProgram_later:
  assumes d: "d \<in> set ds" and "tidy s1"
    and body: "do {
      (ro, s2) \<leftarrow> dev_open d p CAP_READ s1;
      case ro of
        Inl _ \<Rightarrow> Some (-1, s2)
      | Inr p1 \<Rightarrow>
          if \<not> avail m (len + 1) then None
          else do {
            (rr, p2, s3) \<leftarrow> dev_read d m p1 len 0 s2;
            case rr of
              Inl _ \<Rightarrow> Some (-1, s3)
            | Inr (_, out) \<Rightarrow>
                do {
                  s4 \<leftarrow> dev_close d p2 s3;
                  case Option.bind (programName len out) (map_of builtinCmds) of
                    None \<Rightarrow> Some (-1, s4)
                  | Some f \<Rightarrow>
                      do { (q', s5) \<leftarrow> schedProc ds m code sb gb (code f) argc argv s4; Some (pid (procs (kern s5) q'), s5) }
                }
          }
      } = Some (r, s')"
  shows "later s1 s'"
proof -
  obtain ro s2 where o: "dev_open d p CAP_READ s1 = Some (ro, s2)" using body by (auto simp: bind_eq_Some_conv)
  have l2: "later s1 s2" using open_later [OF d assms(2) o] by blast
  show ?thesis
  proof (cases ro)
    case (Inl e)
    then show ?thesis using body o l2 by simp
  next
    case (Inr p1)
    obtain rr p2 s3 where rd: "dev_read d m p1 len 0 s2 = Some (rr, p2, s3)"
      using body o Inr by (auto simp: bind_eq_Some_conv split: if_splits)
    note l3 = later_trans [OF l2 read_later [OF d later_tidy [OF l2] rd]]
    show ?thesis
    proof (cases rr)
      case (Inl e)
      then show ?thesis using body o \<open>ro = Inr p1\<close> rd l3 by (simp split: if_splits)
    next
      case rr: (Inr no)
      obtain n out where no: "no = (n, out)" by (cases no)
      obtain s4 where cl: "dev_close d p2 s3 = Some s4"
        using body o Inr rd rr no by (auto simp: bind_eq_Some_conv split: if_splits)
      note l4 = later_trans [OF l3 conjunct1 [OF close_later [OF d later_tidy [OF l3] cl]]]
      show ?thesis
      proof (cases "Option.bind (programName len out) (map_of builtinCmds)")
        case None
        then show ?thesis using body o Inr rd rr no cl l4 by (simp split: if_splits)
      next
        case prog: (Some g)
        obtain w where w: "schedProc ds m code sb gb (code g) argc argv s4 = Some (w, s')"
          using body o Inr rd rr no cl prog by (auto simp: bind_eq_Some_conv split: if_splits)
        show ?thesis by (rule later_trans [OF l4 schedProc_later [OF w later_tidy [OF l4]]])
      qed
    qed
  qed
qed

lemma sysexecv_later:
  assumes run: "sysexecv ds m code sb gb path argv argvWords s = Some (r, s')" and "tidy s"
  shows "later s s'"
proof (cases path)
  case None
  then show ?thesis using run assms(2) by (simp add: sysexecv_def later_refl)
next
  case (Some pth)
  obtain argc q mp where c: "argCount 256 argvWords = Some argc" "rp (kern s) = Some q" "mkPath (avail m) (avail m) pth = Some mp"
    using run Some by (auto simp: sysexecv_def bind_eq_Some_conv)
  show ?thesis
  proof (cases mp)
    case None
    then show ?thesis using run Some c assms(2) by (simp add: sysexecv_def later_refl)
  next
    case mp: (Some pt)
    obtain found s1 where f: "findProgram ds m q pth (elems pt) s = Some (found, s1)"
      using run Some c mp by (auto simp: sysexecv_def bind_eq_Some_conv)
    have l1: "later s s1" using findProgram_later [OF f assms(2)] by blast
    show ?thesis
    proof (cases "\<exists>p. found = Some p \<and> cflags (pcrumb p) AND CRUMB_ISFILE \<noteq> 0")
      case False
      then show ?thesis using run Some c mp f l1 by (cases found) (simp_all add: sysexecv_def)
    next
      case True
      then obtain p where p: "found = Some p" "cflags (pcrumb p) AND CRUMB_ISFILE \<noteq> 0" by blast
      obtain d info where d: "deviceAt ds (pdevice p) = Some d" "dev_getInfo d m p s1 = Some info"
        using run Some c mp f p by (auto simp: sysexecv_def bind_eq_Some_conv)
      show ?thesis
      proof (cases "\<exists>ni. info = Inr ni \<and> ni_mode ni = M0555")
        case False
        then show ?thesis using run Some c mp f p d l1 by (cases info) (simp_all add: sysexecv_def)
      next
        case True
        then obtain ni where ni: "info = Inr ni" "ni_mode ni = M0555" by blast
        have "later s1 s'"
          by (rule loadProgram_later [OF deviceAt_set [OF d(1)] later_tidy [OF l1], of p m "ni_length ni" code sb gb "of_nat argc" argv r s'])
            (use run Some c mp f p d ni in \<open>simp add: sysexecv_def\<close>)
        then show ?thesis using later_trans [OF l1] by blast
      qed
    qed
  qed
qed

lemma syssleep_later:
  assumes run: "syssleep ds m millis s = Some (r, s')" and "tidy s"
  shows "later s s'"
proof -
  obtain ro s1 st s2 u s3 n buf where c: "sysopen ds m ''/dev/timer/k70MilliTimer'' CAP_WRITE s = Some (ro, s1)"
    "syswrite ds m (case ro of Inl _ \<Rightarrow> -1 | Inr fd \<Rightarrow> int fd) buf n s1 = Some (st, s2)"
    "sysclose ds (case ro of Inl _ \<Rightarrow> -1 | Inr fd \<Rightarrow> int fd) s2 = Some (u, s3)"
    "(case st of Inl e \<Rightarrow> Some (Inl e, s3)
      | Inr n \<Rightarrow> if 0 <s n then do { q \<leftarrow> rp (kern s3); Some (Inr n, s3\<lparr>kern := upd q (\<lambda>x. x\<lparr>state := ProcWaiting\<rparr>) (kern s3)\<rparr>) }
         else Some (Inr n, s3)) = Some (r, s')"
    using run unfolding syssleep_def Let_def by (fastforce simp: bind_eq_Some_conv)
  have s': "portals s' = portals s3" "fresh s' = fresh s3" "sameHeld (kern s3) (kern s')"
    using c(4) by (cases st; auto simp: bind_eq_Some_conv sameHeld_def upd_def split: if_splits)+
  note l1 = sysopen_later [OF c(1) assms(2)]
  note l2 = later_trans [OF l1 syswrite_later [OF c(2) later_tidy [OF l1]]]
  note l3 = later_trans [OF l2 sysclose_later [OF c(3) later_tidy [OF l2]]]
  show ?thesis by (rule later_trans [OF l3 later_sameHeld [OF later_tidy [OF l3] s']])
qed

end

text \<open>Critical regions: interrupts are on exactly outside of them.\<close>

definition irq_ok :: "Machine \<Rightarrow> bool" where
  "irq_ok w \<longleftrightarrow> 0 \<le> criticalRegionCount w \<and> (interruptsOn w \<longleftrightarrow> criticalRegionCount w = 0)"

lemma region_sel [simp]:
  "sys (enterCriticalRegion w) = sys w" "sys (leaveCriticalRegion w) = sys w" "sys (yieldCpu w) = sys w"
  "ubytes (enterCriticalRegion w) = ubytes w" "ubytes (leaveCriticalRegion w) = ubytes w"
  by (simp_all add: enterCriticalRegion_def leaveCriticalRegion_def yieldCpu_def Let_def)

lemma region_keeps_irq:
  assumes "irq_ok w"
  shows "irq_ok (enterCriticalRegion w)" "0 < criticalRegionCount (enterCriticalRegion w)"
    "criticalRegionCount (enterCriticalRegion w) = criticalRegionCount w + 1"
  using assms by (auto simp: irq_ok_def enterCriticalRegion_def Let_def)

lemma leave_keeps_irq: "irq_ok w \<Longrightarrow> 0 < criticalRegionCount w \<Longrightarrow> irq_ok (leaveCriticalRegion w)"
  by (auto simp: irq_ok_def leaveCriticalRegion_def Let_def)

lemma irq_ok_cong: "criticalRegionCount w' = criticalRegionCount w \<Longrightarrow> interruptsOn w' = interruptsOn w \<Longrightarrow> irq_ok w' = irq_ok w"
  by (simp add: irq_ok_def)

lemma region_inverse: "irq_ok w \<Longrightarrow> leaveCriticalRegion (enterCriticalRegion w) = w"
  by (auto simp: irq_ok_def enterCriticalRegion_def leaveCriticalRegion_def Let_def)

text \<open>Inside a region: a change of the kernel's state, and the end of the region.\<close>

lemma region_update:
  "irq_ok w \<Longrightarrow> leaveCriticalRegion (enterCriticalRegion w\<lparr>sys := s\<rparr>) = w\<lparr>sys := s\<rparr>"
  "irq_ok w \<Longrightarrow> leaveCriticalRegion (yieldCpu (enterCriticalRegion w)) = yieldCpu w"
  by (auto simp: irq_ok_def enterCriticalRegion_def leaveCriticalRegion_def yieldCpu_def Let_def)

lemmas syscall_defs = execSyscall_def closeSyscall_def fstatSyscall_def openSyscall_def readSyscall_def writeSyscall_def
  trylockSyscall_def lockSyscall_def unlockSyscall_def waitpidSyscall_def exitsSyscall_def postsignalSyscall_def sleepSyscall_def

text \<open>What a call does to the kernel's state: what its service does, and otherwise the kernel's part only.\<close>

lemma syscall_sys:
  "execSyscall ds m code sb gb args w = Some (r, w') \<Longrightarrow> \<exists>p av ws ro. sysexecv ds m code sb gb p av ws (sys w) = Some (ro, sys w')"
  "closeSyscall ds args w = Some (r, w') \<Longrightarrow> \<exists>fd ro. sysclose ds fd (sys w) = Some (ro, sys w')"
  "fstatSyscall ds m args w = Some (r, w') \<Longrightarrow> sys w' = sys w"
  "openSyscall ds m args w = Some (r, w') \<Longrightarrow> \<exists>p c ro. sysopen ds m p c (sys w) = Some (ro, sys w')"
  "readSyscall ds m args w = Some (r, w') \<Longrightarrow> \<exists>fd n ro. sysread ds m fd n (sys w) = Some (ro, sys w')"
  "writeSyscall ds m args w = Some (r, w') \<Longrightarrow> \<exists>fd b n ro. syswrite ds m fd b n (sys w) = Some (ro, sys w')"
  "trylockSyscall args w = Some (r, w') \<Longrightarrow> sys w' = sys w"
  "lockSyscall args w = Some (r, w') \<Longrightarrow> sys w' = sys w"
  "unlockSyscall args w = Some (r, w') \<Longrightarrow> sys w' = sys w"
  "waitpidSyscall args w = Some (r, w') \<Longrightarrow> \<exists>p k. syswaitpid p (kern (sys w)) = Some k \<and> sys w' = (sys w)\<lparr>kern := k\<rparr>"
  "exitsSyscall args w = Some (r, w') \<Longrightarrow> sys w' = sys w"
  "postsignalSyscall args w = Some (r, w') \<Longrightarrow> \<exists>p sg k. syspostsignal p sg (kern (sys w)) = Some k \<and> sys w' = (sys w)\<lparr>kern := k\<rparr>"
  "sleepSyscall ds m args w = Some (r, w') \<Longrightarrow> \<exists>t ro. syssleep ds m t (sys w) = Some (ro, sys w')"
proof -
  show "execSyscall ds m code sb gb args w = Some (r, w') \<Longrightarrow> \<exists>p av ws ro. sysexecv ds m code sb gb p av ws (sys w) = Some (ro, sys w')"
    by (auto simp: execSyscall_def bind_eq_Some_conv Let_def simp del: upt_rec_numeral) blast
  show "closeSyscall ds args w = Some (r, w') \<Longrightarrow> \<exists>fd ro. sysclose ds fd (sys w) = Some (ro, sys w')"
    by (auto simp: closeSyscall_def bind_eq_Some_conv) blast
  show "sys w' = sys w" if run: "fstatSyscall ds m args w = Some (r, w')"
  proof -
    obtain x :: "NodeInfo reply" where "(case x of Inl _ \<Rightarrow> (-1, w) | Inr ni \<Rightarrow> (0, w\<lparr>unodes := (unodes w)(args ! 1 := ni)\<rparr>)) = (r, w')"
      using run by (auto simp: fstatSyscall_def bind_eq_Some_conv)
    then show ?thesis by (cases x) auto
  qed
  show "openSyscall ds m args w = Some (r, w') \<Longrightarrow> \<exists>p c ro. sysopen ds m p c (sys w) = Some (ro, sys w')"
    by (auto simp: openSyscall_def bind_eq_Some_conv) blast
  show "\<exists>fd n ro. sysread ds m fd n (sys w) = Some (ro, sys w')" if run: "readSyscall ds m args w = Some (r, w')"
  proof -
    obtain x s' where x: "sysread ds m (sint (args ! 0)) (args ! 2) (sys w) = Some (x, s')"
      "(case x of Inl _ \<Rightarrow> (-1, w\<lparr>sys := s'\<rparr>) | Inr (n, out) \<Rightarrow> (n, w\<lparr>sys := s', ubytes := putBytes (args ! 1) out (ubytes w)\<rparr>)) = (r, w')"
      using run by (auto simp: readSyscall_def bind_eq_Some_conv)
    then have "sys w' = s'" by (cases x) auto
    then show ?thesis using x(1) by blast
  qed
  show "writeSyscall ds m args w = Some (r, w') \<Longrightarrow> \<exists>fd b n ro. syswrite ds m fd b n (sys w) = Some (ro, sys w')"
    by (auto simp: writeSyscall_def bind_eq_Some_conv) blast
  show "\<exists>t ro. syssleep ds m t (sys w) = Some (ro, sys w')" if run: "sleepSyscall ds m args w = Some (r, w')"
  proof -
    obtain x s' where x: "syssleep ds m (sint (args ! 0)) (sys w) = Some (x, s')"
      "(case x of Inl _ \<Rightarrow> (-1, w\<lparr>sys := s'\<rparr>) | Inr n \<Rightarrow> (n, if 0 <s n then yieldCpu (w\<lparr>sys := s'\<rparr>) else w\<lparr>sys := s'\<rparr>)) = (r, w')"
      using run by (auto simp: sleepSyscall_def bind_eq_Some_conv Let_def)
    then have "sys w' = s'" by (cases x) (auto split: if_splits)
    then show ?thesis using x(1) by blast
  qed
  show "waitpidSyscall args w = Some (r, w') \<Longrightarrow> \<exists>p k. syswaitpid p (kern (sys w)) = Some k \<and> sys w' = (sys w)\<lparr>kern := k\<rparr>"
    by (auto simp: waitpidSyscall_def bind_eq_Some_conv Let_def intro!: exI [of _ "sint (args ! 0)"] split: if_split_asm)
  show "postsignalSyscall args w = Some (r, w') \<Longrightarrow> \<exists>p sg k. syspostsignal p sg (kern (sys w)) = Some k \<and> sys w' = (sys w)\<lparr>kern := k\<rparr>"
    by (auto simp: postsignalSyscall_def bind_eq_Some_conv intro!: exI [of _ "sint (args ! 0)"] exI [of _ "args ! 1"])
qed (auto simp: syscall_defs bind_eq_Some_conv Let_def split: if_split_asm prod.split_asm)

lemma dispatch_fn:
  assumes "e \<in> set (dispatchTable ds m code sb gb)"
  obtains (exec) "fn e = execSyscall ds m code sb gb" | (cls) "fn e = closeSyscall ds" | (fstat) "fn e = fstatSyscall ds m"
    | (opn) "fn e = openSyscall ds m" | (rd) "fn e = readSyscall ds m" | (wr) "fn e = writeSyscall ds m"
    | (trylock) "fn e = trylockSyscall" | (lck) "fn e = lockSyscall" | (unlck) "fn e = unlockSyscall" | (wait) "fn e = waitpidSyscall"
    | (exits) "fn e = exitsSyscall" | (post) "fn e = postsignalSyscall" | (slp) "fn e = sleepSyscall ds m"
  using assms by (auto simp: dispatchTable_def)

text \<open>No call leaves the critical regions other than it found them.\<close>

definition regions :: "Machine \<Rightarrow> int \<times> bool" where
  "regions w = (criticalRegionCount w, interruptsOn w)"

lemma regions_upd [simp]:
  "regions (yieldCpu w) = regions w" "regions (w\<lparr>sys := s\<rparr>) = regions w" "regions (w\<lparr>sys := s, ubytes := b\<rparr>) = regions w"
  "regions (w\<lparr>ulocks := l\<rparr>) = regions w" "regions (w\<lparr>unodes := n\<rparr>) = regions w" "regions (w\<lparr>ubytes := b, ulocks := l, unodes := n\<rparr>) = regions w"
  by (simp_all add: regions_def yieldCpu_def)

lemma irq_regions: "regions w' = regions w \<Longrightarrow> irq_ok w' = irq_ok w"
  by (simp add: regions_def irq_ok_def)

lemma syscall_regions:
  assumes "e \<in> set (dispatchTable ds m code sb gb)" "fn e args w = Some (r, w')" "irq_ok w"
  shows "regions w' = regions w"
proof -
  have sum: "regions (snd z) = regions w" if "z = (case x of Inl e \<Rightarrow> f e | Inr y \<Rightarrow> g y)" "\<And>e. regions (snd (f e)) = regions w"
    "\<And>y. regions (snd (g y)) = regions w" for z x f and g :: "'z \<Rightarrow> u32 \<times> Machine"
    using that by (cases x) auto
  note run = assms(2)
  from assms(1) show ?thesis
  proof (cases rule: dispatch_fn)
    case fstat
    then obtain x :: "NodeInfo reply" where "(case x of Inl _ \<Rightarrow> (-1, w) | Inr ni \<Rightarrow> (0, w\<lparr>unodes := (unodes w)(args ! 1 := ni)\<rparr>)) = (r, w')"
      using run by (auto simp: fstatSyscall_def bind_eq_Some_conv)
    from sum [OF this [symmetric]] show ?thesis by simp
  next
    case rd
    then obtain x :: "(u32 \<times> string) reply" and s' where "(case x of Inl _ \<Rightarrow> (-1, w\<lparr>sys := s'\<rparr>) | Inr (n, out) \<Rightarrow> (n, w\<lparr>sys := s', ubytes := putBytes (args ! 1) out (ubytes w)\<rparr>)) = (r, w')"
      using run by (auto simp: readSyscall_def bind_eq_Some_conv)
    from sum [OF this [symmetric]] show ?thesis by (simp split: prod.split)
  next
    case slp
    then obtain x :: "u32 reply" and s' where "(case x of Inl _ \<Rightarrow> (-1, w\<lparr>sys := s'\<rparr>) | Inr n \<Rightarrow> (n, if 0 <s n then yieldCpu (w\<lparr>sys := s'\<rparr>) else w\<lparr>sys := s'\<rparr>)) = (r, w')"
      using run by (auto simp: sleepSyscall_def bind_eq_Some_conv Let_def)
    from sum [OF this [symmetric]] show ?thesis by simp
  qed (use run assms(3) in \<open>auto simp: syscall_defs region_update bind_eq_Some_conv Let_def split: if_split_asm prod.split_asm\<close>)
qed

lemma syscall_later:
  assumes e: "e \<in> set (dispatchTable (deviceTable font m) m code sb gb)" and run: "fn e args w = Some (r, w')" and tidy: "tidy (sys w)"
  shows "later (sys w) (sys w')"
proof -
  have kern: "later (sys w) ((sys w)\<lparr>kern := k\<rparr>)" if "sameHeld (kern (sys w)) k" for k
    by (rule later_sameHeld [OF tidy]) (simp_all add: that)
  have same: "later (sys w) (sys w')" if "sys w' = sys w" using later_refl [OF tidy] that by simp
  from e show ?thesis
  proof (cases rule: dispatch_fn)
    case exec
    then show ?thesis using syscall_sys(1) run files.sysexecv_later [OF _ tidy] by metis
  next
    case cls
    then show ?thesis using syscall_sys(2) run files.sysclose_later [OF _ tidy] by metis
  next
    case opn
    then show ?thesis using syscall_sys(4) run files.sysopen_later [OF _ tidy] by metis
  next
    case rd
    then show ?thesis using syscall_sys(5) run files.sysread_later [OF _ tidy] by metis
  next
    case wr
    then show ?thesis using syscall_sys(6) run files.syswrite_later [OF _ tidy] by metis
  next
    case wait
    then show ?thesis using syscall_sys(10) run kern syswaitpid_same by metis
  next
    case post
    then show ?thesis using syscall_sys(12) run kern syspostsignal_same by metis
  next
    case slp
    then show ?thesis using syscall_sys(13) run files.syssleep_later [OF _ tidy] by metis
  qed (use run same syscall_sys(3,7,8,9,11) in \<open>simp_all\<close>)
qed

text \<open>Every step of the machine.\<close>

lemma svcHandlerDispatch_runs:
  assumes "svcHandlerDispatch ds m code sb gb (f, w) = Some (f', w')" "irq_ok w"
  obtains e r s where "e \<in> set (dispatchTable ds m code sb gb)" "fn e (fa f) (w\<lparr>sys := s\<rparr>) = Some (r, w')"
    "f' = (if isVoid e then f else f\<lparr>fa := (fa f)[0 := r]\<rparr>)" "kern s = kern (sys w)" "portals s = portals (sys w)" "fresh s = fresh (sys w)"
proof -
  let ?tab = "dispatchTable ds m code sb gb" and ?i = "unat (ubytes w (fpc f - 2))"
  define s where "s = (sys w)\<lparr>devst := (devst (sys w))\<lparr>svcInterruptCount := svcInterruptCount (devst (sys w)) + 1\<rparr>\<rparr>"
  have "leaveCriticalRegion (enterCriticalRegion w\<lparr>sys := s\<rparr>) = w\<lparr>sys := s\<rparr>" by (rule region_update [OF assms(2)])
  then have run: "(if ?i < length ?tab then do { (r, w3) \<leftarrow> fn (?tab ! ?i) (fa f) (w\<lparr>sys := s\<rparr>);
      Some (if isVoid (?tab ! ?i) then f else f\<lparr>fa := (fa f)[0 := r]\<rparr>, w3) } else None) = Some (f', w')"
    using assms(1) by (simp add: svcHandlerDispatch_def Let_def s_def cong: if_cong)
  then have i: "?i < length ?tab" by (simp split: if_splits)
  obtain r where "fn (?tab ! ?i) (fa f) (w\<lparr>sys := s\<rparr>) = Some (r, w')" "f' = (if isVoid (?tab ! ?i) then f else f\<lparr>fa := (fa f)[0 := r]\<rparr>)"
    using run i by (auto simp: bind_eq_Some_conv)
  with that [of "?tab ! ?i" s r] show thesis using nth_mem [OF i] by (simp add: s_def)
qed

lemma schedHandler_runs:
  assumes "systickHandler x w = Some (y, w') \<or> pendsvHandler x w = Some (y, w')" "irq_ok w"
  shows "regions w' = regions w \<and> portals (sys w') = portals (sys w) \<and> fresh (sys w') = fresh (sys w) \<and>
    sameHeld (kern (sys w)) (kern (sys w'))"
  using assms
  by (auto simp: systickHandler_def pendsvHandler_def Let_def region_update schedHandler_def bind_eq_Some_conv dest: scheduleProc_same)

lemma ringAlarms_same: "ringAlarms t as k = Some (as', k') \<Longrightarrow> sameHeld k k'"
  by (induction as arbitrary: as' k k')
    (auto simp: bind_eq_Some_conv split: if_splits dest!: syspostsignal_same intro: sameHeld_trans)

lemma alarmInterrupt_runs:
  assumes "alarmInterrupt w = Some w'"
  shows "regions w' = regions w \<and> portals (sys w') = portals (sys w) \<and> fresh (sys w') = fresh (sys w) \<and>
    sameHeld (kern (sys w)) (kern (sys w'))"
  using assms
  by (auto simp: alarmInterrupt_def pdbHandler_def bind_eq_Some_conv Let_def dest: ringAlarms_same split: list.splits option.splits if_split_asm)

lemma manosExit_runs:
  "manosExit s = Some s' \<Longrightarrow> portals s' = portals s \<and> fresh s' = fresh s \<and> sameHeld (kern s) (kern s')"
  by (auto simp: manosExit_def bind_eq_Some_conv dest!: abortProc_same) (simp add: sameHeld_def upd_def)

lemma kernel_part_keeps:
  assumes "regions w' = regions w \<and> portals (sys w') = portals (sys w) \<and> fresh (sys w') = fresh (sys w) \<and>
      sameHeld (kern (sys w)) (kern (sys w'))" "irq_ok w" "tidy (sys w)"
  shows "irq_ok w' \<and> tidy (sys w')"
  using assms later_tidy [OF later_sameHeld [OF assms(3)]] irq_regions [of w' w] by simp

lemma machine_step_keeps:
  assumes "machine_step font m w w'" "irq_ok w" "tidy (sys w)"
  shows "irq_ok w' \<and> tidy (sys w')"
  using assms(1)
proof cases
  case (step_svc code sb gb f f')
  obtain e r s where s: "e \<in> set (dispatchTable (deviceTable font m) m code sb gb)" "fn e (fa f) (w\<lparr>sys := s\<rparr>) = Some (r, w')"
    "kern s = kern (sys w)" "portals s = portals (sys w)" "fresh s = fresh (sys w)"
    by (rule svcHandlerDispatch_runs [OF step_svc assms(2)])
  have "tidy s" using later_same [OF assms(3) s(3-5)] by (rule later_tidy)
  moreover have "irq_ok (w\<lparr>sys := s\<rparr>)" using irq_regions [of "w\<lparr>sys := s\<rparr>" w] assms(2) by simp
  ultimately show ?thesis
    using later_tidy [OF syscall_later [OF s(1,2)]] syscall_regions [OF s(1,2)] irq_regions [of w' "w\<lparr>sys := s\<rparr>"] by simp
next
  case (step_exit s)
  have "irq_ok (w\<lparr>sys := s\<rparr>) \<and> tidy (sys (w\<lparr>sys := s\<rparr>))"
    by (rule kernel_part_keeps [OF _ assms(2,3)]) (use manosExit_runs [OF step_exit(2)] in simp)
  then show ?thesis unfolding step_exit(1) .
next
  case (step_tick x y)
  show ?thesis by (rule kernel_part_keeps [OF schedHandler_runs assms(2,3)]) (use step_tick assms(2) in blast)+
next
  case (step_yield x y)
  show ?thesis by (rule kernel_part_keeps [OF schedHandler_runs assms(2,3)]) (use step_yield assms(2) in blast)+
next
  case step_alarm
  show ?thesis by (rule kernel_part_keeps [OF alarmInterrupt_runs [OF step_alarm] assms(2,3)])
qed (use assms(2,3) in \<open>simp add: irq_ok_def\<close>)


subsection \<open>A program that makes three calls\<close>

definition countSvc :: "Manos \<Rightarrow> Manos" where
  "countSvc s = s\<lparr>devst := (devst s)\<lparr>svcInterruptCount := svcInterruptCount (devst s) + 1\<rparr>\<rparr>"

lemma countSvc_sel [simp]:
  "kern (countSvc s) = kern s" "portals (countSvc s) = portals s" "fresh (countSvc s) = fresh s"
  "ledPins (devst (countSvc s)) = ledPins (devst s)" "countSvc (opened q fd p s) = opened q fd p (countSvc s)"
  by (simp_all add: countSvc_def opened_def setFd_def)

lemma countSvc_tables [simp]:
  "world_ok (countSvc s) = world_ok s" "tableOf i (countSvc s) = tableOf i s" "freeFd q (countSvc s) = freeFd q s"
  by (simp_all add: countSvc_def world_ok_def tableOf_def freeFd_def)

lemma countSvc_names [simp]: "rooted q (countSvc s) = rooted q s" "lookup (countSvc s) es = lookup s es"
  by (simp_all add: rooted_def lookup_def cong: option.case_cong)

lemma svcHandlerDispatch_entry:
  assumes "irq_ok w" "ubytes w (fpc f - 2) = of_nat k" "k < 13"
  shows "svcHandlerDispatch ds m code sb gb (f, w) =
    do { (r, w3) \<leftarrow> fn (dispatchTable ds m code sb gb ! k) (fa f) (w\<lparr>sys := countSvc (sys w)\<rparr>);
         Some (if isVoid (dispatchTable ds m code sb gb ! k) then f else f\<lparr>fa := (fa f)[0 := r]\<rparr>, w3) }"
proof -
  have "leaveCriticalRegion (enterCriticalRegion w\<lparr>sys := countSvc (sys w)\<rparr>) = w\<lparr>sys := countSvc (sys w)\<rparr>"
    by (rule region_update(1) [OF assms(1)])
  moreover have "unat (of_nat k :: u8) = k" using assms(3) by (intro unat_of_nat_small) simp
  moreover have "length (dispatchTable ds m code sb gb) = 13" by (simp add: dispatchTable_def)
  ultimately show ?thesis using assms(2,3) by (simp add: svcHandlerDispatch_def Let_def countSvc_def cong: if_cong)
qed

lemma sint_small: "n < 2 ^ 31 \<Longrightarrow> sint (of_nat n :: u32) = int n"
  by (simp add: signed_of_nat signed_take_bit_int_eq_self)

text \<open>Writing a byte and closing, whatever the interrupts have counted since the file was opened.\<close>

lemma led_write_close:
  assumes "rp (kern s) = Some q" "fd < MANOS_MAXFD" "fds (procs (kern s) q) fd = None" "pdevice p = 1" "ledOf (pcrumb p) = Some c"
  obtains s2 s3 where "syswrite (devicesWith font sv) m (int fd) (CHR ''1'' # rest) 1 (opened q fd p s) = Some (Inr 1, s2)"
    "sysclose (devicesWith font sv) (int fd) (countSvc s2) = Some (Inr (), s3)" "kern s2 = kern (opened q fd p s)" "kern s3 = kern s"
    "\<forall>c'. lit c' (ledPins (devst s3)) \<longleftrightarrow> c' = c \<or> lit c' (ledPins (devst s))"
proof -
  let ?ds = "devicesWith font sv" and ?led = "liftPart ledPins ledPins_update devLed"
  have at: "deviceAt ?ds 1 = Some ?led" by (simp add: deviceAt_def devicesWith_def)
  define g where "g = setLed c LedOn (ledPins (devst s))"
  have wrt: "dev_write ?led m p (CHR ''1'' # rest) 1 (poffset p) (opened q fd p s) =
      Some (Inr 1, p, (opened q fd p s)\<lparr>devst := (devst s)\<lparr>ledPins := g\<rparr>\<rparr>)"
    using assms(5) by (simp add: liftPart_def liftDev_def devLed_def writeLed_def g_def opened_sel)
  define s2 where "s2 = setPortal (fresh s) p ((opened q fd p s)\<lparr>devst := (devst s)\<lparr>ledPins := g\<rparr>\<rparr>)"
  have w: "syswrite ?ds m (int fd) (CHR ''1'' # rest) 1 (opened q fd p s) = Some (Inr 1, s2)"
    unfolding s2_def using write_opened [OF assms(1) _ _ wrt] assms(2,4) at by simp
  have k: "kern (countSvc s2) = kern (opened q fd p s)" "portals (countSvc s2) (fresh s) = Some p"
    by (simp_all add: s2_def setPortal_def)
  obtain s3 where s3: "sysclose ?ds (int fd) (countSvc s2) = Some (Inr (), s3)" "kern s3 = kern s" "devst s3 = devst (countSvc s2)"
    using close_opened [OF assms(1,2,3) k _ _ _ close_led_file refl] assms(4) at by auto
  have "ledPins (devst s3) = g" by (simp add: s3(3) s2_def setPortal_def countSvc_def)
  then have "\<forall>c'. lit c' (ledPins (devst s3)) \<longleftrightarrow> c' = c \<or> lit c' (ledPins (devst s))" by (simp add: g_def lit_setLed)
  then show thesis using that w s3(1,2) k(1) by simp
qed

lemma svc_led:
  assumes irq: "irq_ok w" and sys: "world_ok (sys w)" "roomy m" "rp (kern (sys w)) = Some q" "rooted q (sys w)" "freeFd q (sys w) = Some fd"
    and led: "(nm, c) \<in> set ledFiles"
    and path: "stringAt (ubytes w) a = Some (slash # join [''dev'', ''led'', nm])"
    and bytes: "ubytes w b = 0x31" "stringAt (ubytes w) (b + 1) = Some rest"
    and ops: "ubytes w (fpc fo - 2) = 3" "ubytes w (fpc fw - 2) = 5" "ubytes w (fpc fc - 2) = 1"
    and args: "fa fo = [a, CAP_WRITE, x, y]" "fa fw = [of_nat fd, b, 1, z]" "fa fc = [of_nat fd, u, v, t]"
  shows "\<exists>w1 w2 w3.
    svcHandlerDispatch (devicesWith font sv) m code sb gb (fo, w) = Some (fo\<lparr>fa := [of_nat fd, CAP_WRITE, x, y]\<rparr>, w1) \<and>
    svcHandlerDispatch (devicesWith font sv) m code sb gb (fw, w1) = Some (fw\<lparr>fa := [1, b, 1, z]\<rparr>, w2) \<and>
    svcHandlerDispatch (devicesWith font sv) m code sb gb (fc, w2) = Some (fc, w3) \<and>
    ubytes w3 = ubytes w \<and> kern (sys w3) = kern (sys w) \<and>
    (\<forall>c'. lit c' (ledPins (devst (sys w3))) \<longleftrightarrow> c' = c \<or> lit c' (ledPins (devst (sys w))))"
proof -
  let ?ds = "devicesWith font sv" and ?s = "countSvc (sys w)"
  obtain k where k: "lookup ?s [''dev'', ''led'', nm] = Found 1 k" "ledOf (scrumb (ledSNS ! k)) = Some c"
    using lookup_led [OF led] by blast
  have "names_ok [''dev'', ''led'', nm]" using led by (auto simp: names_ok_def plain_def ledFiles_def)
  then obtain p where p: "portalAt (\<lambda>i. tableOf i ?s) 1 k p"
    "sysopen ?ds m (slash # join [''dev'', ''led'', nm]) CAP_WRITE ?s = Some (Inr fd, opened q fd p ?s)"
    using sysopen_opens [of ?s m q "[''dev'', ''led'', nm]" CAP_WRITE font sv] sys k(1) by (auto simp: opens_def)
  have dev: "pdevice p = 1" "ledOf (pcrumb p) = Some c" using p(1) k(2) by (simp_all add: portalAt_def tableOf_def)
  note fd = freeFd_free [OF sys(5)]
  define w1 where "w1 = w\<lparr>sys := opened q fd p ?s\<rparr>"
  have o: "svcHandlerDispatch ?ds m code sb gb (fo, w) = Some (fo\<lparr>fa := [of_nat fd, CAP_WRITE, x, y]\<rparr>, w1)"
    using svcHandlerDispatch_entry [OF irq, of fo 3] ops(1) args(1) path p(2)
    by (simp add: dispatchTable_def openSyscall_def w1_def)
  obtain s2 s3 where s: "syswrite ?ds m (int fd) (CHR ''1'' # rest @ [NUL]) 1 (opened q fd p (countSvc ?s)) = Some (Inr 1, s2)"
    "sysclose ?ds (int fd) (countSvc s2) = Some (Inr (), s3)" "kern s3 = kern (sys w)"
    "\<forall>c'. lit c' (ledPins (devst s3)) \<longleftrightarrow> c' = c \<or> lit c' (ledPins (devst (sys w)))"
    by (rule led_write_close [of "countSvc ?s" q fd p c font sv m "rest @ [NUL]"]) (use sys(3) fd dev in auto)
  have sint: "sint (of_nat fd :: u32) = int fd" using fd by (intro sint_small) simp
  define w2 where "w2 = w1\<lparr>sys := s2\<rparr>"
  have irq1: "irq_ok w1" "irq_ok w2" using irq by (simp_all add: w1_def w2_def irq_ok_def)
  have buf: "bufferAt (ubytes w) b 1 = Some (CHR ''1'' # rest @ [NUL])"
    using bytes by (simp add: bufferAt_def bytesAt_def chr8_def char_of_def bit_0)
  have "ubytes w1 = ubytes w" "countSvc (sys w1) = opened q fd p (countSvc ?s)" by (simp_all add: w1_def)
  then have wr: "svcHandlerDispatch ?ds m code sb gb (fw, w1) = Some (fw\<lparr>fa := [1, b, 1, z]\<rparr>, w2)"
    using svcHandlerDispatch_entry [OF irq1(1), of fw 5] ops(2) args(2) buf s(1) sint
    by (simp add: dispatchTable_def writeSyscall_def w2_def)
  have cl: "svcHandlerDispatch ?ds m code sb gb (fc, w2) = Some (fc, w2\<lparr>sys := s3\<rparr>)"
    using svcHandlerDispatch_entry [OF irq1(2), of fc 1] ops(3) args(3) s(2) sint
    by (simp add: dispatchTable_def closeSyscall_def w2_def w1_def)
  show ?thesis using o wr cl s(3,4) by (auto simp: w2_def w1_def)
qed


subsection \<open>An example\<close>

text \<open>A program's strings in memory, and the three instructions it makes its calls with.\<close>

definition exBytes :: "u32 \<Rightarrow> u8" where
  "exBytes =
     (let b = putBytes 0x100 (''/dev/led/blue'' @ [NUL]) (putBytes 0x200 (''1'' @ [NUL]) (\<lambda>_. 0))
      in b(0x10 := 3, 0x20 := 5, 0x30 := 1))"

definition exMachine :: Machine where
  "exMachine =
     \<lparr>sys = exWorld, ubytes = exBytes, ulocks = \<lambda>_. initLock, unodes = \<lambda>_. dirNode exRootPortal '''', uregs = \<lambda>_. 0, criticalRegionCount = 0,
      interruptsOn = True\<rparr>"

definition exFrame :: "u32 \<Rightarrow> u32 list \<Rightarrow> StackFrame" where
  "exFrame at args = \<lparr>fa = args, fip = 0, flr = 0, fpc = at + 2, fxpsr = 0\<rparr>"

lemma exMachine_irq: "irq_ok exMachine"
  by (simp add: exMachine_def irq_ok_def)

lemma exBytes_strings: "stringAt exBytes 0x100 = Some ''/dev/led/blue''" "stringAt exBytes 0x201 = Some []" "exBytes 0x200 = 0x31"
  "exBytes 0x10 = 3" "exBytes 0x20 = 5" "exBytes 0x30 = 1"
proof -
  have look: "exBytes a = (if a = 0x30 then 1 else if a = 0x20 then 5 else if a = 0x10 then 3
      else putBytes 0x100 (''/dev/led/blue'' @ [NUL]) (putBytes 0x200 (''1'' @ [NUL]) (\<lambda>_. 0)) a)" for a
    by (simp add: exBytes_def Let_def)
  have chars: "ord8 CHR ''/'' = 47" "ord8 CHR ''d'' = 100" "ord8 CHR ''e'' = 101" "ord8 CHR ''v'' = 118" "ord8 CHR ''l'' = 108"
    "ord8 CHR ''b'' = 98" "ord8 CHR ''u'' = 117" "ord8 CHR ''1'' = 49" "ord8 NUL = 0"
    by (simp_all add: ord8_def)
  have codes: "chr8 47 = CHR ''/''" "chr8 100 = CHR ''d''" "chr8 101 = CHR ''e''" "chr8 118 = CHR ''v''" "chr8 108 = CHR ''l''"
    "chr8 98 = CHR ''b''" "chr8 117 = CHR ''u''"
    by (simp_all add: chr8_def char_of_def bit_0)
  show "stringAt exBytes 0x100 = Some ''/dev/led/blue''"
    by (simp add: stringAt.simps look chars codes)
  show "stringAt exBytes 0x201 = Some []" by (simp add: stringAt.simps look chars)
  show "exBytes 0x200 = 0x31" "exBytes 0x10 = 3" "exBytes 0x20 = 5" "exBytes 0x30 = 1" by (simp_all add: look chars)
qed

subsection \<open>Properties\<close>



text \<open>
  C10: a program that opens a light's file by its path, writes \<open>1\<close> from its memory and closes the file, each by
  an \<open>SVC\<close> instruction, gets the lowest free descriptor and the count 1 in its first register, finds its other
  registers and its memory as they were, and has lit that light and no other.
\<close>

theorem svc_program_lights_led:
  assumes "irq_ok w" "world_ok (sys w)" "roomy m" "rp (kern (sys w)) = Some q" "rooted q (sys w)" "freeFd q (sys w) = Some fd"
    "(nm, c) \<in> set ledFiles" "stringAt (ubytes w) a = Some (slash # join [''dev'', ''led'', nm])"
    "ubytes w b = 0x31" "stringAt (ubytes w) (b + 1) = Some rest"
    "ubytes w (fpc fo - 2) = 3" "ubytes w (fpc fw - 2) = 5" "ubytes w (fpc fc - 2) = 1"
    "fa fo = [a, CAP_WRITE, x, y]" "fa fw = [of_nat fd, b, 1, z]" "fa fc = [of_nat fd, u, v, t]"
  shows "\<exists>w1 w2 w3.
    svcHandlerDispatch (deviceTable font m') m code sb gb (fo, w) = Some (fo\<lparr>fa := [of_nat fd, CAP_WRITE, x, y]\<rparr>, w1) \<and>
    svcHandlerDispatch (deviceTable font m') m code sb gb (fw, w1) = Some (fw\<lparr>fa := [1, b, 1, z]\<rparr>, w2) \<and>
    svcHandlerDispatch (deviceTable font m') m code sb gb (fc, w2) = Some (fc, w3) \<and>
    ubytes w3 = ubytes w \<and> kern (sys w3) = kern (sys w) \<and>
    (\<forall>c'. lit c' (ledPins (devst (sys w3))) \<longleftrightarrow> c' = c \<or> lit c' (ledPins (devst (sys w))))"
  unfolding deviceTable_def by (rule svc_led [OF assms])

theorem svc_program_lights_led_witness:
  "\<forall>font. \<exists>w1 w2 w3.
     svcHandlerDispatch (deviceTable font exMem) exMem (\<lambda>_. 0) None None (exFrame 0x10 [0x100, CAP_WRITE, 0, 0], exMachine) =
       Some (exFrame 0x10 [0, CAP_WRITE, 0, 0], w1) \<and>
     svcHandlerDispatch (deviceTable font exMem) exMem (\<lambda>_. 0) None None (exFrame 0x20 [0, 0x200, 1, 0], w1) =
       Some (exFrame 0x20 [1, 0x200, 1, 0], w2) \<and>
     svcHandlerDispatch (deviceTable font exMem) exMem (\<lambda>_. 0) None None (exFrame 0x30 [0, 0, 0, 0], w2) =
       Some (exFrame 0x30 [0, 0, 0, 0], w3)"
proof
  fix font
  have "(''blue'', LedBlue) \<in> set ledFiles" by (simp add: ledFiles_def)
  from svc_program_lights_led [OF exMachine_irq _ exMem_roomy _ _ _ this, of 3 0 "0x100" "0x200" "[]" "exFrame 0x10 [0x100, CAP_WRITE, 0, 0]"
      "exFrame 0x20 [0, 0x200, 1, 0]" "exFrame 0x30 [0, 0, 0, 0]" 0 0 0 0 0 0 font exMem "\<lambda>_. 0" None None]
  show "\<exists>w1 w2 w3.
     svcHandlerDispatch (deviceTable font exMem) exMem (\<lambda>_. 0) None None (exFrame 0x10 [0x100, CAP_WRITE, 0, 0], exMachine) =
       Some (exFrame 0x10 [0, CAP_WRITE, 0, 0], w1) \<and>
     svcHandlerDispatch (deviceTable font exMem) exMem (\<lambda>_. 0) None None (exFrame 0x20 [0, 0x200, 1, 0], w1) =
       Some (exFrame 0x20 [1, 0x200, 1, 0], w2) \<and>
     svcHandlerDispatch (deviceTable font exMem) exMem (\<lambda>_. 0) None None (exFrame 0x30 [0, 0, 0, 0], w2) =
       Some (exFrame 0x30 [0, 0, 0, 0], w3)"
    using exWorld_ok exWorld_kern(1) exWorld_rooted exWorld_freeFd exBytes_strings by (auto simp: exMachine_def exFrame_def)
qed

end
