(* ===== verification/Commands.thy ===== *)
theory Commands
  imports MachineProps Shell
begin

text \<open>
  The programs of the shell (\<open>src/src/torgo/commands/\<close>) over the system calls of \<open>Dispatch\<close>. A program gets
  its arguments and the state and gives its result and the new state; \<open>None\<close> where it reads memory it has
  not set, follows a null pointer, or never ends. The terminal is the descriptor that the process keeps.
\<close>

subsection \<open>Writing to the terminal\<close>

definition rpTty :: "'d Sys \<Rightarrow> int option" where
  "rpTty s = do { q \<leftarrow> rp (kern s); Some (tty (procs (kern s) q)) }"

definition ttyPrintln :: "'d Sys Dev list \<Rightarrow> mem \<Rightarrow> string \<Rightarrow> fmt_arg list \<Rightarrow> 'd Sys \<Rightarrow> 'd Sys option" where
  "ttyPrintln ds m fmt args s = do { t \<leftarrow> rpTty s; (_, s') \<leftarrow> fprintln ds m t fmt args s; Some s' }"

definition ttyPrint :: "'d Sys Dev list \<Rightarrow> mem \<Rightarrow> string \<Rightarrow> fmt_arg list \<Rightarrow> 'd Sys \<Rightarrow> 'd Sys option" where
  "ttyPrint ds m fmt args s = do { t \<leftarrow> rpTty s; (_, s') \<leftarrow> fprint ds m t fmt args s; Some s' }"

definition ttyPutchar :: "'d Sys Dev list \<Rightarrow> mem \<Rightarrow> char \<Rightarrow> 'd Sys \<Rightarrow> 'd Sys option" where
  "ttyPutchar ds m c s = do { t \<leftarrow> rpTty s; (_, s') \<leftarrow> fputchar ds m t c s; Some s' }"

subsection \<open>\<open>echo\<close>\<close>

text \<open>The words from the \<open>i\<close>-th on; the search for a redirection is that of \<open>Shell\<close>.\<close>

fun echoWords :: "'d Sys Dev list \<Rightarrow> mem \<Rightarrow> int \<Rightarrow> nat \<Rightarrow> string list \<Rightarrow> 'd Sys \<Rightarrow> 'd Sys option" where
  "echoWords ds m fd i [] s = Some s"
| "echoWords ds m fd i (w # ws) s =
     do {
       s1 \<leftarrow> (if 1 < i then map_option snd (fputchar ds m fd (CHR '' '') s) else Some s);
       (_, s2) \<leftarrow> fputstr ds m fd w s1;
       echoWords ds m fd (i + 1) ws s2
     }"

definition echoTo :: "'d Sys Dev list \<Rightarrow> mem \<Rightarrow> int \<Rightarrow> string list \<Rightarrow> 'd Sys \<Rightarrow> 'd Sys option" where
  "echoTo ds m fd ws s =
     do { s1 \<leftarrow> echoWords ds m fd 1 ws s; (_, s2) \<leftarrow> fputchar ds m fd (CHR 0x0A) s1; Some s2 }"

definition echoMain :: "'d Sys Dev list \<Rightarrow> mem \<Rightarrow> string list \<Rightarrow> 'd Sys \<Rightarrow> (int \<times> 'd Sys) option" where
  "echoMain ds m argv s =
     (case redirection 1 (tl argv) (length argv) of
        None \<Rightarrow> do { s1 \<leftarrow> ttyPrintln ds m ''Bad Redirection'' [] s; Some (-1, s1) }
      | Some (k, out) \<Rightarrow>
          (let ws = take (k - 1) (tl argv) in
           case out of
             None \<Rightarrow> do { t \<leftarrow> rpTty s; s1 \<leftarrow> echoTo ds m t ws s; Some (0, s1) }
           | Some path \<Rightarrow>
               do {
                 (fd, s1) \<leftarrow> kopen ds m path CAP_WRITE s;
                 if fd < 0 then do { s2 \<leftarrow> ttyPrintln ds m ''Cannot write to %s'' [StrArg path] s1; Some (-1, s2) }
                 else do { s2 \<leftarrow> echoTo ds m fd ws s1; s3 \<leftarrow> kclose ds fd s2; Some (0, s3) }
               }))"

subsection \<open>\<open>cat\<close>\<close>

text \<open>The options, from the first argument on, and the path, which is missing when there are only options.\<close>

fun catOptions :: "string list \<Rightarrow> bool \<Rightarrow> bool \<Rightarrow> string option \<times> bool \<times> bool" where
  "catOptions [] inHex withNewlines = (None, inHex, withNewlines)"
| "catOptions (a # as) inHex withNewlines =
     (if startsWith (CHR ''-'') a then
        (if startsWith (CHR ''x'') (tl a) then catOptions as True withNewlines
         else if startsWith (CHR ''n'') (tl a) then catOptions as inHex True
         else catOptions as inHex withNewlines)
      else (Some a, inHex, withNewlines))"

definition catUsage :: "string list" where
  "catUsage =
     [''usage: cat [OPTIONS] PATH'', [CHR 0x0A] @ ''OPTIONS:'' @ [CHR 0x0A],
      ''  -x                Read in 4 byte chunks and print as hex'', ''  -n                Emit newlines after each read'']"

fun ttyLines :: "'d Sys Dev list \<Rightarrow> mem \<Rightarrow> string list \<Rightarrow> 'd Sys \<Rightarrow> 'd Sys option" where
  "ttyLines ds m [] s = Some s"
| "ttyLines ds m (l # ls) s = do { s1 \<leftarrow> ttyPrintln ds m l [] s; ttyLines ds m ls s1 }"

text \<open>
  The loop: \<open>x\<close> are the bytes of the local variable, the lowest first. A failed read gives -1, which does not end
  the loop; a button that reads \<open>0\<close> does.
\<close>

definition wordOf :: "string \<Rightarrow> u32" where
  "wordOf cs = foldr (\<lambda>c v. ucast (ord8 c) + v * 256) cs 0"

partial_function (option) catLoop ::
  "'d Sys Dev list \<Rightarrow> mem \<Rightarrow> int \<Rightarrow> int \<Rightarrow> bool \<Rightarrow> bool \<Rightarrow> string \<Rightarrow> 'd Sys \<Rightarrow> 'd Sys option" where
  "catLoop ds m fd sw1 inHex withNewlines x s =
     do {
       ((n, out), s1) \<leftarrow> kread ds m fd (if inHex then 4 else 1) s;
       if n = 0 then Some s1
       else do {
         let x1 = out @ drop (length out) x;
         s2 \<leftarrow> (if inHex then ttyPrint ds m ''0x%lx'' [UIntArg (wordOf x1)] s1 else ttyPutchar ds m (x1 ! 0) s1);
         s3 \<leftarrow> (if withNewlines then ttyPutchar ds m (CHR 0x0A) s2 else Some s2);
         ((_, c), s4) \<leftarrow> kread ds m sw1 1 s3;
         if startsWith (CHR ''0'') c then Some s4 else catLoop ds m fd sw1 inHex withNewlines x1 s4
       }
     }"

definition catMain :: "'d Sys Dev list \<Rightarrow> mem \<Rightarrow> string \<Rightarrow> NodeInfo \<Rightarrow> string list \<Rightarrow> 'd Sys \<Rightarrow> (int \<times> 'd Sys) option" where
  "catMain ds m x0 ni argv s =
     (if length argv < 2 then do { s1 \<leftarrow> ttyLines ds m catUsage s; Some (-1, s1) }
      else (case catOptions (tl argv) False False of (path, inHex, withNewlines) \<Rightarrow>
        do {
          (sw1, s1) \<leftarrow> kopen ds m ''/dev/swpb/1'' CAP_READ s;
          pth \<leftarrow> path;
          (fd, s2) \<leftarrow> kopen ds m pth CAP_READ s1;
          _ \<leftarrow> kfstat ds m fd ni s2;
          s3 \<leftarrow> catLoop ds m fd sw1 inHex withNewlines x0 s2;
          s4 \<leftarrow> kclose ds sw1 s3;
          s5 \<leftarrow> kclose ds fd s4;
          Some (0, s5)
        }))"

subsection \<open>\<open>date\<close>\<close>

definition months :: "string list" where
  "months = [''January'', ''February'', ''March'', ''April'', ''May'', ''June'', ''July'', ''August'', ''September'',
             ''October'', ''November'', ''December'']"

text \<open>The six words of a date, read back.\<close>

definition dateFrom :: "string \<Rightarrow> Date option" where
  "dateFrom bs =
     (if length bs = 24 then
        (let w = (\<lambda>i. sint (wordOf (take 4 (drop (4 * i) bs)))) in
         Some \<lparr>seconds = w 0, minutes = w 1, hours = w 2, day = w 3, month = w 4, year = w 5\<rparr>)
      else None)"

definition dateArgs :: "Date \<Rightarrow> fmt_arg list option" where
  "dateArgs d =
     (if 0 \<le> month d \<and> nat (month d) < length months
      then Some (StrArg (months ! nat (month d)) #
                 map (\<lambda>x. UIntArg (of_int x)) [day d, year d, hours d, minutes d, seconds d])
      else None)"

definition dateFmt :: string where
  "dateFmt = ''%s %d, %d %02d:%02d:%02d'' @ [CHR 0x0A]"

definition dateMain :: "'d Sys Dev list \<Rightarrow> mem \<Rightarrow> string list \<Rightarrow> 'd Sys \<Rightarrow> (int \<times> 'd Sys) option" where
  "dateMain ds m argv s =
     (if 1 < length argv \<and> (length argv = 2 \<or> argv ! 1 \<noteq> ''--set'') then
        do { s1 \<leftarrow> ttyPrint ds m (''usage: %s [--set '' @ [CHR 0x22] @ ''YYYY [MM [DD [HH [MM [SS]]]]]'' @ [CHR 0x22] @ '']'' @ [CHR 0x0A])
                     [StrArg (argv ! 0)] s;
             Some (1, s1) }
      else do {
        s1 \<leftarrow> (if 1 < length argv then
                 do {
                   (fd, s1) \<leftarrow> kopen ds m ''/dev/date'' CAP_WRITE s;
                   (_, s2) \<leftarrow> kwrite ds m fd (argv ! 2 @ [NUL]) (of_nat (length (argv ! 2))) s1;
                   kclose ds fd s2
                 }
               else Some s);
        (fd, s2) \<leftarrow> kopen ds m ''/dev/date'' CAP_READ s1;
        ((_, bs), s3) \<leftarrow> kread ds m fd 24 s2;
        s4 \<leftarrow> kclose ds fd s3;
        d \<leftarrow> dateFrom bs;
        args \<leftarrow> dateArgs d;
        s5 \<leftarrow> ttyPrint ds m dateFmt args s4;
        Some (0, s5)
      })"

subsection \<open>\<open>ls\<close>, \<open>pwd\<close>, \<open>fg\<close> and \<open>toast\<close>\<close>

text \<open>A name is printed as a format.\<close>

partial_function (option) lsLoop :: "'d Sys Dev list \<Rightarrow> mem \<Rightarrow> int \<Rightarrow> 'd Sys \<Rightarrow> 'd Sys option" where
  "lsLoop ds m fd s =
     do {
       (r, s1) \<leftarrow> dirread ds m fd s;
       case r of
         Inl _ \<Rightarrow> Some s1
       | Inr nis \<Rightarrow> if nis = [] then Some s1 else do { s2 \<leftarrow> ttyLines ds m (map ni_name nis) s1; lsLoop ds m fd s2 }
     }"

definition lsMain :: "'d Sys Dev list \<Rightarrow> mem \<Rightarrow> string list \<Rightarrow> 'd Sys \<Rightarrow> (int \<times> 'd Sys) option" where
  "lsMain ds m argv s =
     do {
       (fd, s1) \<leftarrow> kopen ds m (if 1 < length argv then argv ! 1 else ''.'') CAP_READ s;
       s2 \<leftarrow> lsLoop ds m fd s1;
       s3 \<leftarrow> kclose ds fd s2;
       Some (0, s3)
     }"

definition pwdMain :: "'d Sys Dev list \<Rightarrow> mem \<Rightarrow> string \<Rightarrow> 'd Sys \<Rightarrow> (int \<times> 'd Sys) option" where
  "pwdMain ds m buf s =
     do { (name, s1) \<leftarrow> getcwd ds m buf s; s2 \<leftarrow> ttyPrintln ds m (cstr name) [] s1; Some (0, s2) }"

text \<open>The signal is posted by a direct call of the kernel.\<close>

definition fgMain :: "'d Sys Dev list \<Rightarrow> mem \<Rightarrow> string list \<Rightarrow> 'd Sys \<Rightarrow> (int \<times> 'd Sys) option" where
  "fgMain ds m argv s =
     (if length argv \<noteq> 2 then
        do { name \<leftarrow> (if argv = [] then None else Some (argv ! 0));
             s1 \<leftarrow> ttyPrint ds m (''usage: %s PID'' @ [CHR 0x0A]) [StrArg name] s;
             Some (1, s1) }
      else do { p \<leftarrow> atoi (argv ! 1); k \<leftarrow> syspostsignal p SigContinue (kern s); Some (0, s\<lparr>kern := k\<rparr>) })"

definition toast :: string where
  "toast =
     (let nl = [CHR 0x0A, CHR 0x09, CHR 0x09, CHR 0x09, CHR 0x09] in
      nl @ '' _   __'' @ nl @ ''( `^` ))'' @ nl @ ''|     ||'' @ nl @ ''|     ||'' @ nl @
      [CHR 0x27] @ ''-----'' @ [CHR 0x27, CHR 0x60, CHR 0x0A, CHR 0x0A])"

definition kprint :: "font \<Rightarrow> string \<Rightarrow> fmt_arg list \<Rightarrow> Manos \<Rightarrow> Manos option" where
  "kprint font fmt args s =
     do { (_, w) \<leftarrow> sysprint (k70Console font) fmt args (lcdDev (devst s)); Some (s\<lparr>devst := (devst s)\<lparr>lcdDev := w\<rparr>\<rparr>) }"

definition showToast :: "font \<Rightarrow> Manos \<Rightarrow> Manos option" where
  "showToast font s = kprint font toast [] s"

text \<open>Between the call of \<open>sleep\<close> and its return the other processes run: \<open>others\<close> is what they do.\<close>

definition toastMain :: "font \<Rightarrow> Manos Dev list \<Rightarrow> mem \<Rightarrow> (Manos \<Rightarrow> Manos option) \<Rightarrow> Manos \<Rightarrow> (int \<times> Manos) option" where
  "toastMain font ds m others s =
     do {
       s1 \<leftarrow> ttyPrintln ds m ''Get ready for toast...'' [] s;
       (_, s2) \<leftarrow> sleep ds m 2000 s1;
       s3 \<leftarrow> others s2;
       s4 \<leftarrow> showToast font s3;
       Some (0, s4)
     }"

subsection \<open>\<open>ps\<close>\<close>

definition stateName :: "ProcState \<Rightarrow> string" where
  "stateName st =
     (case st of ProcDead \<Rightarrow> ''Dead'' | ProcSpawning \<Rightarrow> ''Spawn'' | ProcReady \<Rightarrow> ''Ready'' | ProcRunning \<Rightarrow> ''Run''
      | ProcWaiting \<Rightarrow> ''Wait'' | ProcStopped \<Rightarrow> ''Stop'')"

definition tabs :: "string list \<Rightarrow> string" where
  "tabs fs = concat (map (\<lambda>(i, f). (if i = 0 then [] else [CHR 0x09]) @ f) (enumerate 0 fs))"

text \<open>\<open>str\<close> reads the string at an address.\<close>

definition printProc :: "'d Sys Dev list \<Rightarrow> mem \<Rightarrow> (u32 \<Rightarrow> string option) \<Rightarrow> nat \<Rightarrow> 'd Sys \<Rightarrow> 'd Sys option" where
  "printProc ds m str q s =
     do {
       let p = procs (kern s) q;
       b \<leftarrow> pgrp p;
       g \<leftarrow> pgrps (kern s) b;
       name \<leftarrow> str (words s (pargv p));
       ttyPrintln ds m (tabs [''%d'', ''%d'', ''%d'', ''%s'', ''%s''])
         [UIntArg (of_int (pid p)), UIntArg (of_int (pgid g)), UIntArg (of_int (ppid p)), StrArg (stateName (state p)), StrArg name] s
     }"

text \<open>\<open>LIST_FOR_EACH_ENTRY\<close> over the run queue.\<close>

partial_function (option) psLoop :: "'d Sys Dev list \<Rightarrow> mem \<Rightarrow> (u32 \<Rightarrow> string option) \<Rightarrow> node option \<Rightarrow> 'd Sys \<Rightarrow> 'd Sys option" where
  "psLoop ds m str pos s =
     (case pos of
        None \<Rightarrow> Some s
      | Some RunHead \<Rightarrow> Some s
      | Some (NextRunQ q) \<Rightarrow> do { s1 \<leftarrow> printProc ds m str q s; n \<leftarrow> nxt (links (kern s1)) (NextRunQ q); psLoop ds m str (Some n) s1 }
      | Some _ \<Rightarrow> None)"

definition psMain :: "'d Sys Dev list \<Rightarrow> mem \<Rightarrow> (u32 \<Rightarrow> string option) \<Rightarrow> 'd Sys \<Rightarrow> (int \<times> 'd Sys) option" where
  "psMain ds m str s =
     do {
       s1 \<leftarrow> ttyPrintln ds m (tabs [''PID'', ''PGID'', ''PPID'', ''STATE'', ''CMD'']) [] s;
       l \<leftarrow> lock (runQLock (kern s1)) s1;
       let s2 = s1\<lparr>kern := (kern s1)\<lparr>runQLock := l\<rparr>\<rparr>;
       q \<leftarrow> rp (kern s2);
       s3 \<leftarrow> printProc ds m str q s2;
       pos \<leftarrow> (if listIsEmpty RunHead (links (kern s3)) then Some None else map_option Some (nxt (links (kern s3)) RunHead));
       s4 \<leftarrow> psLoop ds m str pos s3;
       Some (0, s4\<lparr>kern := (kern s4)\<lparr>runQLock := unlock (runQLock (kern s4)) s4\<rparr>\<rparr>)
     }"

subsection \<open>\<open>fizzbuzz\<close>\<close>

text \<open>One round of the loop that never ends; the result tells whether the program goes on.\<close>

definition fizzbuzzRound :: "'d Sys Dev list \<Rightarrow> mem \<Rightarrow> int \<Rightarrow> int \<Rightarrow> 'd Sys \<Rightarrow> (bool \<times> 'd Sys) option" where
  "fizzbuzzRound ds m fizz buzz s =
     do {
       (t, s1) \<leftarrow> kopen ds m ''/dev/timer/k70Timer'' CAP_READ s;
       if t = -1 then do { s2 \<leftarrow> ttyPrintln ds m ''Failed to open timer'' [] s1; Some (False, s2) }
       else do {
         ((_, bs), s2) \<leftarrow> kread ds m t 8 s1;
         s3 \<leftarrow> kclose ds t s2;
         tick \<leftarrow> (if length bs = 8 then Some (bytesMsec (map ord8 bs) div 1000) else None);
         s4 \<leftarrow> (if tick mod 15 = 0 then
                  do { (_, s4) \<leftarrow> kwrite ds m fizz ''1'' 1 s3; (_, s5) \<leftarrow> kwrite ds m buzz ''1'' 1 s4; Some s5 }
                else if tick mod 5 = 0 then
                  do { (_, s4) \<leftarrow> kwrite ds m fizz ''0'' 1 s3; (_, s5) \<leftarrow> kwrite ds m buzz ''1'' 1 s4; Some s5 }
                else if tick mod 3 = 0 then
                  do { (_, s4) \<leftarrow> kwrite ds m buzz ''0'' 1 s3; (_, s5) \<leftarrow> kwrite ds m fizz ''1'' 1 s4; Some s5 }
                else Some s3);
         Some (True, s4)
       }
     }"

text \<open>The rounds of the program, with what the other processes do between them, and its start.\<close>

fun fizzbuzzRounds :: "'d Sys Dev list \<Rightarrow> mem \<Rightarrow> int \<Rightarrow> int \<Rightarrow> ('d Sys \<Rightarrow> 'd Sys option) list \<Rightarrow> 'd Sys \<Rightarrow> (bool \<times> 'd Sys) option" where
  "fizzbuzzRounds ds m fizz buzz [] s = Some (True, s)"
| "fizzbuzzRounds ds m fizz buzz (f # fs) s =
     do {
       s1 \<leftarrow> f s;
       (go, s2) \<leftarrow> fizzbuzzRound ds m fizz buzz s1;
       if go then fizzbuzzRounds ds m fizz buzz fs s2 else do { s3 \<leftarrow> manosExit s2; Some (False, s3) }
     }"

definition fizzbuzzMain :: "'d Sys Dev list \<Rightarrow> mem \<Rightarrow> ('d Sys \<Rightarrow> 'd Sys option) list \<Rightarrow> 'd Sys \<Rightarrow> (bool \<times> 'd Sys) option" where
  "fizzbuzzMain ds m fs s =
     do {
       (fizz, s1) \<leftarrow> kopen ds m ''/dev/led/green'' CAP_WRITE s;
       (buzz, s2) \<leftarrow> kopen ds m ''/dev/led/blue'' CAP_WRITE s1;
       fizzbuzzRounds ds m fizz buzz fs s2
     }"

end
