(* ===== verification/Clock.thy ===== *)
theory Clock
  imports Dispatch
begin

text \<open>
  The clock's file over the table of devices: reading it through a descriptor that is opened for the read and
  closed again, as the device of kernel services does for the date and the programs of the shell do.
\<close>

subsection \<open>The file of the clock\<close>

text \<open>The timers of the board are in place, and the first is the clock.\<close>

definition clock_ok :: "Manos \<Rightarrow> bool" where
  "clock_ok s \<longleftrightarrow>
     timerSNS (timerDev (devst s)) = Some (flatNS (timerRows 0 k70Timer)) \<and>
     (case timers (timerDev (devst s)) of [] \<Rightarrow> False | t # _ \<Rightarrow> tname t \<noteq> ''k70PDB0'')"

text \<open>The milliseconds it shows.\<close>

definition clockTime :: "Manos \<Rightarrow> u64" where
  "clockTime s = tmsecs (hd (timers (timerDev (devst s))))"

abbreviation "clockNS \<equiv> flatNS (timerRows 0 k70Timer)"

lemma clockNS_tree: "kids clockNS 0 = [1, 2]" "isdir clockNS 0" "nodes clockNS = 3"
  by (simp_all add: kids_def kidsFrom_def isdir_def par_def nodes_def flatNS_def k70Timer_def fid_indices upt_from)

lemma lookup_clock:
  assumes "clock_ok s"
  shows "lookup s [''dev'', ''timer'', ''k70Timer''] = Found 6 1"
proof -
  have "find_child rootSNS 2 ''timer'' = Some 18" by (simp add: find_child_def rootSNS_tree rootSNS_names)
  then have go: "lookup s [''dev'', ''timer'', ''k70Timer''] = resolve (\<lambda>i. tableOf i s) entryOf 6 0 [''k70Timer'']"
    by (rule lookup_mount) (simp_all add: root_mounts)
  have "find_child clockNS 0 ''k70Timer'' = Some 1"
    by (simp add: find_child_def clockNS_tree) (simp add: flatNS_def k70Timer_def)
  moreover have "\<not> isMount clockNS 1" by (simp add: isMount_def flatNS_def k70Timer_def)
  moreover have "tableOf 6 s = clockNS" using assms by (simp add: tableOf_def clock_ok_def)
  ultimately show ?thesis unfolding go by (subst resolve.simps) (simp add: clockNS_tree)
qed

lemma clock_device_read:
  assumes "world_ok s" "clock_ok s" "pcrumb p = scrumb (clockNS ! 1)"
  shows "dev_read (liftDev timerPart setTimerPart devTimer) m p 8 0 s =
    Some (Inr (8, map chr8 (msecBytes (clockTime s))), p, s)"
proof -
  let ?w = "timerPart s"
  obtain t ts where t: "timers (timerDev (devst s)) = t # ts" "tname t \<noteq> ''k70PDB0''" "timerSNS (timerDev (devst s)) = Some clockNS"
    using assms(2) by (auto simp: clock_ok_def split: list.splits)
  have w: "timers ?w = t # ts" "timerSNS ?w = Some clockNS" using t by (simp_all add: timerPart_def)
  have "sns_wf clockNS" using assms(1) t(3) by (auto simp: world_ok_def timer_ok_def)
  then have info: "getInfoTimer m p ?w = Some (Inr (nodeInfo p (clockNS ! 1)))"
    using selfInfo_node [of clockNS 1 p m] assms(3) w(2) clockNS_tree by (simp add: getInfoTimer_def selfInfo_def)
  have node: "cflags (pcrumb p) AND CRUMB_ISDIR = 0" "scontents (clockNS ! 1) = HwContents 0" "slength (clockNS ! 1) = 8"
    by (simp_all add: assms(3)) (simp_all add: flatNS_def k70Timer_def)
  have "timerOf ?w (nodeInfo p (clockNS ! 1)) = Some (0, t)" using w(1) node(2) by (simp add: timerOf_def nodeInfo_def)
  then have "readTimer m p 8 0 ?w = Some (Inr (8, map chr8 (msecBytes (tmsecs t))), p, ?w)"
    using info node t(2) by (simp add: readTimer_def nodeInfo_def msecBytes_def)
  moreover have "setTimerPart ?w s = s" by (simp add: timerPart_def setTimerPart_def)
  ultimately show ?thesis using t(1) by (simp add: liftDev_def devTimer_def clockTime_def)
qed

subsection \<open>A reading\<close>

text \<open>The state after a file was opened and closed again: the address of its portal is used up.\<close>

definition passed :: "'d Sys \<Rightarrow> 'd Sys" where
  "passed s = s\<lparr>portals := (portals s)(fresh s := None), fresh := fresh s + 1\<rparr>"

lemma close_passes:
  assumes "rp (kern s) = Some q" "freeFd q s = Some fd" "0 \<le> pdevice p" "pdevice p < MANOS_MAXDEV"
    "deviceAt ds (pdevice p) = Some d" "dev_close d p (opened q fd p s) = Some (opened q fd p s)"
  shows "sysclose ds (int fd) (opened q fd p s) = Some (Inr (), passed s)"
proof -
  note fd = freeFd_free [OF assms(2)]
  have "setFd q fd None (opened q fd p s\<lparr>portals := (portals (opened q fd p s))(fresh s := None)\<rparr>) = passed s"
    using reopened_kern [of "kern s" q fd "fresh s"] fd by (simp add: opened_def setFd_def passed_def)
  then show ?thesis
    using assms(3-6) fd opened_descriptor [OF assms(1)] by (simp add: sysclose_def opened_sel)
qed

lemma opened_ok [simp]:
  "world_ok (opened q fd p s) = world_ok s" "clock_ok (opened q fd p s) = clock_ok s" "clockTime (opened q fd p s) = clockTime s"
  by (simp_all add: world_ok_def clock_ok_def clockTime_def opened_sel)

lemma clock_session:
  assumes "world_ok s" "roomy m" "rp (kern s) = Some q" "rooted q s" "freeFd q s = Some fd" "clock_ok s"
  shows "\<exists>p. sysopen (devicesWith font sv) m ''/dev/timer/k70Timer'' caps s = Some (Inr fd, opened q fd p s) \<and>
    sysread (devicesWith font sv) m (int fd) 8 (opened q fd p s) = Some (Inr (8, map chr8 (msecBytes (clockTime s))), opened q fd p s) \<and>
    sysclose (devicesWith font sv) (int fd) (opened q fd p s) = Some (Inr (), passed s)"
proof -
  let ?ds = "devicesWith font sv"
  have path: "slash # join [''dev'', ''timer'', ''k70Timer''] = ''/dev/timer/k70Timer''" by simp
  have "names_ok [''dev'', ''timer'', ''k70Timer'']" by (simp add: names_ok_def plain_def)
  from sysopen_opens [OF assms(1-4) this, of caps font sv] obtain p where p:
    "portalAt (\<lambda>i. tableOf i s) 6 1 p" "poffset p = 0" "sysopen ?ds m ''/dev/timer/k70Timer'' caps s = Some (Inr fd, opened q fd p s)"
    unfolding path by (auto simp: opens_def lookup_clock [OF assms(6)] assms(5))
  have dev: "pdevice p = 6" "pcrumb p = scrumb (clockNS ! 1)" using p(1) assms(6) by (simp_all add: portalAt_def tableOf_def clock_ok_def)
  have at: "deviceAt ?ds 6 = Some (liftDev timerPart setTimerPart devTimer)" by (simp add: deviceAt_def devicesWith_def)
  note fd = freeFd_free [OF assms(5)]
  let ?o = "opened q fd p s"
  have read: "dev_read (liftDev timerPart setTimerPart devTimer) m p 8 0 ?o = Some (Inr (8, map chr8 (msecBytes (clockTime s))), p, ?o)"
    using clock_device_read [of ?o p m] assms(1,6) dev(2) by simp
  have "setPortal (fresh s) p ?o = ?o" by (simp add: setPortal_def opened_def setFd_def)
  then have r: "sysread ?ds m (int fd) 8 ?o = Some (Inr (8, map chr8 (msecBytes (clockTime s))), ?o)"
    using fd opened_descriptor [OF assms(3)] dev(1) at p(2) read by (simp add: sysread_def opened_sel)
  have "dev_close (liftDev timerPart setTimerPart devTimer) p ?o = Some ?o"
    by (simp add: liftDev_def devTimer_def closeTimer_def timerPart_def setTimerPart_def)
  then have "sysclose ?ds (int fd) ?o = Some (Inr (), passed s)"
    using close_passes [OF assms(3,5)] dev(1) at by simp
  then show ?thesis using p(3) r by blast
qed

subsection \<open>The clock as the kernel reads it\<close>

lemma byte_split: "ucast (ucast w :: u8) + drop_bit 8 w * 256 = (w :: u64)"
proof -
  have "(ucast (ucast w :: u8) :: u64) = take_bit 8 w"
    by (rule bit_word_eqI) (auto simp: bit_simps)
  moreover have "drop_bit 8 w * 256 = push_bit 8 (drop_bit 8 w)" by (simp add: push_bit_eq_mult mult.commute)
  moreover have "take_bit 8 w + push_bit 8 (drop_bit 8 w) = w" using bits_ident [of 8 w] by (simp only: add.commute)
  ultimately show ?thesis by simp
qed

lemma bytesMsec_msecBytes [simp]: "bytesMsec (msecBytes v) = v"
proof -
  define d where "d i = drop_bit (8 * i) v" for i
  have step: "ucast (ucast (d i) :: u8) + d (Suc i) * 256 = d i" for i
    using byte_split [of "d i"] by (simp add: d_def add.commute)
  have "d 8 = 0" by (rule bit_word_eqI) (simp add: d_def bit_simps)
  have bytes: "msecBytes v = map (\<lambda>i. ucast (d i)) [0, 1, 2, 3, 4, 5, 6, 7]" by (simp add: msecBytes_def d_def upt_rec numeral_eq_Suc)
  have steps: "ucast (ucast (d 0) :: u8) + d 1 * 256 = d 0" "ucast (ucast (d 1) :: u8) + d 2 * 256 = d 1"
    "ucast (ucast (d 2) :: u8) + d 3 * 256 = d 2" "ucast (ucast (d 3) :: u8) + d 4 * 256 = d 3"
    "ucast (ucast (d 4) :: u8) + d 5 * 256 = d 4" "ucast (ucast (d 5) :: u8) + d 6 * 256 = d 5"
    "ucast (ucast (d 6) :: u8) + d 7 * 256 = d 6" "ucast (ucast (d 7) :: u8) + d 8 * 256 = d 7"
    using step [of 0] step [of 1] step [of 2] step [of 3] step [of 4] step [of 5] step [of 6] step [of 7]
    by (simp_all add: numeral_eq_Suc)
  have "foldr (\<lambda>b v. ucast b + v * 256) (map (\<lambda>i. ucast (d i) :: u8) [0, 1, 2, 3, 4, 5, 6, 7]) (d 8) = d 0"
    by (simp only: list.map foldr.simps o_apply id_apply steps)
  then show ?thesis using \<open>d 8 = 0\<close> by (simp add: bytesMsec_def bytes d_def)
qed


lemma kernel_clock:
  assumes "world_ok s" "roomy m" "rp (kern s) = Some q" "rooted q s" "freeFd q s = Some fd" "clock_ok s"
  shows "readClock (kernelServices font (devicesWith font noServices) m) s = Some (clockTime s, passed s)"
proof -
  obtain p where p: "sysopen (devicesWith font noServices) m ''/dev/timer/k70Timer'' CAP_READ s = Some (Inr fd, opened q fd p s)"
    "sysread (devicesWith font noServices) m (int fd) 8 (opened q fd p s) = Some (Inr (8, map chr8 (msecBytes (clockTime s))), opened q fd p s)"
    "sysclose (devicesWith font noServices) (int fd) (opened q fd p s) = Some (Inr (), passed s)"
    using clock_session [OF assms, of font noServices CAP_READ] by blast
  have "length (msecBytes v) = 8" for v by (simp add: msecBytes_def)
  moreover have "map ord8 (map chr8 bs) = bs" for bs by (induction bs) simp_all
  ultimately show ?thesis by (simp add: kernelServices_def openClock_def p del: map_map)
qed

subsection \<open>The file of the date\<close>

lemma lookup_date: "lookup s [''dev'', ''date''] = Found 7 1"
proof -
  have "find_child rootSNS 2 ''date'' = Some 19" by (simp add: find_child_def rootSNS_tree rootSNS_names)
  then have "lookup s [''dev'', ''date''] = resolve (\<lambda>i. tableOf i s) entryOf 7 1 []"
    by (rule lookup_mount) (simp_all add: root_mounts)
  then show ?thesis by simp
qed

lemma rooted_opened: "tidy s \<Longrightarrow> rooted q s \<Longrightarrow> rooted q (opened q' fd p s)"
proof -
  assume tidy: "tidy s" and root: "rooted q s"
  then obtain a r where a: "pslash (procs (kern s) q) = Some a" "portals s a = Some r" "portalAt (\<lambda>i. tableOf i s) 0 0 r"
    by (auto simp: rooted_def split: option.splits)
  have "a \<noteq> fresh s" using tidyD(3) [OF tidy, of a] a(2) by auto
  moreover have "(\<lambda>i. tableOf i (opened q' fd p s)) = (\<lambda>i. tableOf i s)" by (simp add: tableOf_def opened_sel)
  ultimately show ?thesis using a by (cases "q = q'") (simp_all add: rooted_def opened_sel upd_def)
qed

lemma date_session:
  assumes "world_ok s" "roomy m" "rp (kern s) = Some q" "rooted q s" "tidy s" "clock_ok s"
    and fds: "freeFd q s = Some fd" "fd' \<noteq> fd" "fd' < MANOS_MAXFD" "fds (procs (kern s) q) fd' = None"
    and date: "secondsToDate (clockTime s div 1000) = Some d"
  shows "\<exists>p s1. sysopen (deviceTable font m) m ''/dev/date'' CAP_READ s = Some (Inr fd, opened q fd p s) \<and>
    sysread (deviceTable font m) m (int fd) 24 (opened q fd p s) = Some (Inr (24, dateBytes d), s1) \<and>
    sysclose (deviceTable font m) (int fd) s1 = Some (Inr (), passed (passed s))"
proof -
  let ?ds = "deviceTable font m"
  define sv where "sv = kernelServices font (devicesWith font noServices) m"
  have ds: "?ds = devicesWith font sv" by (simp add: deviceTable_def sv_def)
  have path: "slash # join [''dev'', ''date''] = ''/dev/date''" by simp
  have "names_ok [''dev'', ''date'']" by (simp add: names_ok_def plain_def)
  from sysopen_opens [OF assms(1-4) this, of CAP_READ font sv] obtain p where p:
    "portalAt (\<lambda>i. tableOf i s) 7 1 p" "poffset p = 0" "sysopen ?ds m ''/dev/date'' CAP_READ s = Some (Inr fd, opened q fd p s)"
    unfolding path ds by (auto simp: opens_def lookup_date fds(1))
  have dev: "pdevice p = 7" "pcrumb p = scrumb (devdevSNS ! 1)" using p(1) by (simp_all add: portalAt_def tableOf_def)
  have at: "deviceAt ?ds 7 = Some (devDev sv)" by (simp add: ds deviceAt_def devicesWith_def)
  note fd = freeFd_free [OF fds(1)]
  define o1 where "o1 = opened q fd p s"
  have free: "fds (procs (kern o1) q) fd' = None" using fds(2,4) by (simp add: o1_def opened_sel upd_def)
  then obtain n where n: "freeFd q o1 = Some n"
    using fds(3) by (cases "freeFd q o1") (auto simp: freeFd_def find_None_iff)
  have o1: "world_ok o1" "rp (kern o1) = Some q" "rooted q o1" "clock_ok o1" "clockTime o1 = clockTime s"
    using assms(1,3,6) rooted_opened [OF assms(5,4)] by (simp_all add: o1_def opened_sel)
  have clock: "readClock sv o1 = Some (clockTime s, passed o1)"
    using kernel_clock [OF o1(1) assms(2) o1(2,3) n o1(4), of font] o1(5) by (simp add: sv_def)
  have node: "cflags (pcrumb p) AND CRUMB_ISDIR = 0" "unat (STATICNS_CRUMB_SELF_IDX (pcrumb p)) = 1"
    by (simp_all add: dev(2) devdevSNS_def fid_indices)
  have "readDate sv o1 = Some (dateBytes d, passed o1)" using clock date by (simp add: readDate_def)
  then have "dev_read (devDev sv) m p 24 0 o1 = Some (Inr (24, dateBytes d), p, passed o1)"
    using node by (simp add: devDev_def readDevDev_def)
  then have r: "sysread ?ds m (int fd) 24 o1 = Some (Inr (24, dateBytes d), setPortal (fresh s) p (passed o1))"
    using fd opened_descriptor [OF assms(3)] dev(1) at p(2) by (simp add: sysread_def opened_sel o1_def)
  let ?s1 = "setPortal (fresh s) p (passed o1)"
  have s1: "descriptor (int fd) ?s1 = Some (q, Some (fresh s))" "portals ?s1 (fresh s) = Some p"
    using fd opened_descriptor [OF assms(3), of fd p] by (simp_all add: setPortal_def passed_def o1_def descriptor_def)
  have "setFd q fd None (?s1\<lparr>portals := (portals ?s1)(fresh s := None)\<rparr>) = passed (passed s)"
    using reopened_kern [of "kern s" q fd "fresh s"] fd
    by (simp add: opened_def setFd_def passed_def setPortal_def o1_def fun_upd_twist)
  then have "sysclose ?ds (int fd) ?s1 = Some (Inr (), passed (passed s))"
    using s1 dev(1) at by (simp add: sysclose_def devDev_def closeDevDev_def)
  then show ?thesis using p(3) r by (auto simp: o1_def)
qed

end
