(* ===== verification/CommandProps.thy ===== *)
theory CommandProps
  imports Commands Clock
begin

text \<open>
  What the programs of the shell do over the table of devices: \<open>echo\<close> to a light's file, the date, and the
  rounds of \<open>fizzbuzz\<close>.
\<close>

subsection \<open>Lights\<close>

definition setPins :: "Pins \<Rightarrow> Manos \<Rightarrow> Manos" where
  "setPins g s = s\<lparr>devst := (devst s)\<lparr>ledPins := g\<rparr>\<rparr>"

lemma setPins_sel [simp]:
  "kern (setPins g s) = kern s" "portals (setPins g s) = portals s" "fresh (setPins g s) = fresh s"
  "ledPins (devst (setPins g s)) = g" "descriptor fd (setPins g s) = descriptor fd s"
  by (simp_all add: setPins_def descriptor_def cong: if_cong)

text \<open>What writing a text that begins with a character does to the pins.\<close>

definition ledTo :: "LedColor \<Rightarrow> char \<Rightarrow> Pins \<Rightarrow> Pins" where
  "ledTo c ch g = (if ch = CHR ''0'' then setLed c LedOff g else if ch = CHR ''1'' then setLed c LedOn g else g)"

lemma lit_ledTo:
  "lit c' (ledTo c ch g) \<longleftrightarrow> (if c' = c \<and> (ch = CHR ''0'' \<or> ch = CHR ''1'') then ch = CHR ''1'' else lit c' g)"
  by (simp add: ledTo_def lit_setLed)

lemma led_write:
  assumes "descriptor (int fd) s = Some (q, Some a)" "portals s a = Some p" "pdevice p = 1" "ledOf (pcrumb p) = Some c" "n \<noteq> 0"
  shows "\<exists>k. syswrite (devicesWith font sv) m (int fd) (ch # rest) n s = Some (Inr k, setPins (ledTo c ch (ledPins (devst s))) s)"
proof -
  have "deviceAt (devicesWith font sv) 1 = Some (liftPart ledPins ledPins_update devLed)" by (simp add: deviceAt_def devicesWith_def)
  moreover have "setPortal a p (setPins g s) = setPins g s" for g
    using assms(2) by (simp add: setPortal_def setPins_def fun_upd_idem)
  ultimately show ?thesis
    using assms
    by (auto simp: syswrite_def liftPart_def liftDev_def devLed_def writeLed_def ledTo_def setPins_def setPortal_def fun_upd_idem)
qed

lemma echo_led:
  assumes "world_ok s" "roomy m" "rp (kern s) = Some q" "rooted q s" "freeFd q s = Some fd" "(nm, c) \<in> set ledFiles"
    and w: "w \<noteq> []" "hd w \<noteq> CHR ''>''" "length w < 2 ^ 32"
  shows "\<exists>s'. echoMain (devicesWith font sv) m [a0, w, ''>'', slash # join [''dev'', ''led'', nm]] s = Some (0, s') \<and>
    kern s' = kern s \<and>
    (\<forall>c'. lit c' (ledPins (devst s')) \<longleftrightarrow>
       (if c' = c \<and> (hd w = CHR ''0'' \<or> hd w = CHR ''1'') then hd w = CHR ''1'' else lit c' (ledPins (devst s))))"
proof -
  let ?ds = "devicesWith font sv" and ?path = "slash # join [''dev'', ''led'', nm]"
  obtain k where k: "lookup s [''dev'', ''led'', nm] = Found 1 k" "k < nodes ledSNS" "ledOf (scrumb (ledSNS ! k)) = Some c"
    using lookup_led [OF assms(6)] by blast
  have "names_ok [''dev'', ''led'', nm]" using assms(6) by (auto simp: names_ok_def plain_def ledFiles_def)
  from sysopen_opens [OF assms(1-4) this, of CAP_WRITE font sv] obtain p where p: "portalAt (\<lambda>i. tableOf i s) 1 k p"
    "sysopen ?ds m ?path CAP_WRITE s = Some (Inr fd, opened q fd p s)"
    by (auto simp: opens_def k(1) assms(5))
  have dev: "pdevice p = 1" "ledOf (pcrumb p) = Some c" using p(1) k(3) by (simp_all add: portalAt_def tableOf_def)
  note fd = freeFd_free [OF assms(5)]
  obtain ch rest where ch: "w = ch # rest" using w(1) by (cases w) auto
  define s1 where "s1 = opened q fd p s"
  define s2 where "s2 = setPins (ledTo c ch (ledPins (devst s))) s1"
  have s1: "descriptor (int fd) s1 = Some (q, Some (fresh s))" "portals s1 (fresh s) = Some p"
    using fd opened_descriptor [OF assms(3)] by (simp_all add: s1_def opened_sel)
  have "(of_nat (length w) :: u32) \<noteq> 0"
    using w(1,3) by (simp add: word_of_nat_eq_0_iff) (metis length_greater_0_conv nat_dvd_not_less)
  then obtain j where j: "syswrite ?ds m (int fd) w (of_nat (length w)) s1 = Some (Inr j, s2)"
    using led_write [OF s1 dev, of "of_nat (length w)" font sv m ch rest] ch by (auto simp: s2_def s1_def opened_sel)
  have "descriptor (int fd) s2 = Some (q, Some (fresh s))" "portals s2 (fresh s) = Some p" using s1 by (simp_all add: s2_def)
  from led_write [OF this dev, of 1 font sv m "CHR 0x0A" "[]"]
  obtain j' where j': "syswrite ?ds m (int fd) [CHR 0x0A] 1 s2 = Some (Inr j', s2)"
    by (auto simp: ledTo_def setPins_def s2_def)
  have to: "echoTo ?ds m (int fd) [w] s1 = Some s2"
    by (simp add: echoTo_def fputstr_def fputstrn_def fputchar_def j j')
  have at: "deviceAt ?ds 1 = Some (liftPart ledPins ledPins_update devLed)" by (simp add: deviceAt_def devicesWith_def)
  have "kern s2 = kern (opened q fd p s)" "portals s2 (fresh s) = Some p" by (simp_all add: s2_def s1_def opened_sel)
  with close_opened [OF assms(3) _ _ this _ _ _ close_led_file refl]
  obtain s3 where s3: "sysclose ?ds (int fd) s2 = Some (Inr (), s3)" "kern s3 = kern s" "devst s3 = devst s2"
    using fd dev(1) at by auto
  have "echoMain ?ds m [a0, w, ''>'', ?path] s = Some (0, s3)"
    using w(2) ch p(2) to s3(1) by (simp add: echoMain_def kopen_def kclose_def s1_def)
  then show ?thesis using s3 ch by (auto simp: s2_def lit_ledTo)
qed

subsection \<open>\<open>fizzbuzz\<close>\<close>

text \<open>A descriptor of the process that is a light's file.\<close>

definition ledFd :: "nat \<Rightarrow> nat \<Rightarrow> LedColor \<Rightarrow> Manos \<Rightarrow> bool" where
  "ledFd q fd c s \<longleftrightarrow>
     fd < MANOS_MAXFD \<and>
     (case fds (procs (kern s) q) fd of
        None \<Rightarrow> False
      | Some a \<Rightarrow> (case portals s a of None \<Rightarrow> False | Some p \<Rightarrow> pdevice p = 1 \<and> ledOf (pcrumb p) = Some c))"

lemma ledFd_setPins [simp]: "ledFd q fd c (setPins g s) = ledFd q fd c s"
  by (simp add: ledFd_def cong: option.case_cong)

lemma ledFd_passed:
  assumes "tidy s" "ledFd q fd c s"
  shows "ledFd q fd c (passed s)"
proof -
  obtain a p where a: "fds (procs (kern s) q) fd = Some a" "portals s a = Some p" "fd < MANOS_MAXFD" "pdevice p = 1" "ledOf (pcrumb p) = Some c"
    using assms(2) by (auto simp: ledFd_def split: option.splits)
  have "a \<noteq> fresh s" using tidyD(3) [OF assms(1), of a] a(2) by auto
  then show ?thesis using a by (simp add: ledFd_def passed_def)
qed

lemma kwrite_led:
  assumes "rp (kern s) = Some q" "ledFd q fd c s"
  shows "\<exists>k. kwrite (devicesWith font sv) m (int fd) [ch] 1 s = Some (k, setPins (ledTo c ch (ledPins (devst s))) s)"
proof -
  obtain a p where a: "fds (procs (kern s) q) fd = Some a" "portals s a = Some p" "fd < MANOS_MAXFD" "pdevice p = 1" "ledOf (pcrumb p) = Some c"
    using assms(2) by (auto simp: ledFd_def split: option.splits)
  have "descriptor (int fd) s = Some (q, Some a)" using assms(1) a(1,3) by (simp add: descriptor_def)
  then show ?thesis using led_write [OF _ a(2,4,5), of fd q 1 font sv m ch "[]"] by (auto simp: kwrite_def)
qed

lemma fizzbuzz_lights:
  assumes "world_ok s" "roomy m" "rp (kern s) = Some q" "rooted q s" "tidy s" "freeFd q s = Some fd" "clock_ok s"
    and leds: "ledFd q fizz LedGreen s" "ledFd q buzz LedBlue s"
  shows "\<exists>s'. fizzbuzzRound (devicesWith font sv) m (int fizz) (int buzz) s = Some (True, s') \<and> kern s' = kern s \<and>
    (let n = unat (clockTime s) div 1000; on = (\<lambda>c t. lit c (ledPins (devst t))) in
       (on LedGreen s' \<longleftrightarrow> (if 15 dvd n then True else if 5 dvd n then False else if 3 dvd n then True else on LedGreen s)) \<and>
       (on LedBlue s' \<longleftrightarrow> (if 5 dvd n then True else if 3 dvd n then False else on LedBlue s)) \<and>
       (\<forall>c. c \<noteq> LedGreen \<and> c \<noteq> LedBlue \<longrightarrow> on c s' = on c s))"
proof -
  let ?ds = "devicesWith font sv"
  define t where "t = clockTime s div 1000"
  have t: "unat t = unat (clockTime s) div 1000" by (simp add: t_def unat_div_distrib)
  have md: "t mod 15 = 0 \<longleftrightarrow> 15 dvd unat t" "t mod 5 = 0 \<longleftrightarrow> 5 dvd unat t" "t mod 3 = 0 \<longleftrightarrow> 3 dvd unat t"
    by (simp_all add: dvd_eq_mod_eq_0 word_unat_eq_iff unat_mod_distrib)
  obtain p where p: "sysopen ?ds m ''/dev/timer/k70Timer'' CAP_READ s = Some (Inr fd, opened q fd p s)"
    "sysread ?ds m (int fd) 8 (opened q fd p s) = Some (Inr (8, map chr8 (msecBytes (clockTime s))), opened q fd p s)"
    "sysclose ?ds (int fd) (opened q fd p s) = Some (Inr (), passed s)"
    using clock_session [OF assms(1-4,6,7), of font sv CAP_READ] by blast
  have same: "map ord8 (map chr8 bs) = bs" for bs by (induction bs) simp_all
  have len: "length (msecBytes v) = 8" for v by (simp add: msecBytes_def)
  define w where "w = (\<lambda>c ch s. setPins (ledTo c ch (ledPins (devst s))) s)"
  have wr: "\<exists>k. kwrite ?ds m (int fizz) [ch] 1 x = Some (k, w LedGreen ch x)" "\<exists>k. kwrite ?ds m (int buzz) [ch] 1 x = Some (k, w LedBlue ch x)"
    "rp (kern (w c ch x)) = Some q" "ledFd q fizz LedGreen (w c ch x)" "ledFd q buzz LedBlue (w c ch x)"
    if "rp (kern x) = Some q" "ledFd q fizz LedGreen x" "ledFd q buzz LedBlue x" for x c ch
    unfolding w_def using kwrite_led [OF that(1,2)] kwrite_led [OF that(1,3)] that by simp_all
  have x0: "rp (kern (passed s)) = Some q" "ledFd q fizz LedGreen (passed s)" "ledFd q buzz LedBlue (passed s)"
    using assms(3) ledFd_passed [OF assms(5) leds(1)] ledFd_passed [OF assms(5) leds(2)] by (simp_all add: passed_def)
  define s' where "s' = (if 15 dvd unat t then w LedBlue (CHR ''1'') (w LedGreen (CHR ''1'') (passed s))
    else if 5 dvd unat t then w LedBlue (CHR ''1'') (w LedGreen (CHR ''0'') (passed s))
    else if 3 dvd unat t then w LedGreen (CHR ''1'') (w LedBlue (CHR ''0'') (passed s)) else passed s)"
  have "fizzbuzzRound ?ds m (int fizz) (int buzz) s = Some (True, s')"
    using wr(1) [OF x0, of "CHR ''1''"] wr(1) [OF x0, of "CHR ''0''"] wr(2) [OF x0, of "CHR ''0''"]
      wr(2) [OF wr(3-5) [OF x0, of LedGreen "CHR ''1''"], of "CHR ''1''"] wr(2) [OF wr(3-5) [OF x0, of LedGreen "CHR ''0''"], of "CHR ''1''"]
      wr(1) [OF wr(3-5) [OF x0, of LedBlue "CHR ''0''"], of "CHR ''1''"]
    by (auto simp: fizzbuzzRound_def kopen_def kread_def kclose_def p same len s'_def t_def [symmetric] md simp del: map_map)
  moreover have "kern s' = kern s" by (simp add: s'_def w_def passed_def)
  moreover have "ledPins (devst (passed s)) = ledPins (devst s)" by (simp add: passed_def)
  ultimately show ?thesis
    unfolding t [symmetric] Let_def by (intro exI [of _ s']) (auto simp: s'_def w_def lit_ledTo elim: dvd_trans [rotated])
qed

subsection \<open>\<open>date\<close>\<close>

lemma wordOf_intBytes: "wordOf (intBytes x) = of_int x"
proof -
  define w where "w = (of_int x :: u32)"
  define d where "d i = drop_bit (8 * i) w" for i
  have split: "ucast (ucast v :: u8) + drop_bit 8 v * 256 = v" for v :: u32
  proof -
    have "(ucast (ucast v :: u8) :: u32) = take_bit 8 v" by (rule bit_word_eqI) (auto simp: bit_simps)
    moreover have "drop_bit 8 v * 256 = push_bit 8 (drop_bit 8 v)" by (simp add: push_bit_eq_mult mult.commute)
    ultimately show ?thesis using bits_ident [of 8 v] by (simp only: add.commute)
  qed
  have step: "ucast (ucast (d i) :: u8) + d (Suc i) * 256 = d i" for i using split [of "d i"] by (simp add: d_def add.commute)
  have steps: "ucast (ucast (d 0) :: u8) + d 1 * 256 = d 0" "ucast (ucast (d 1) :: u8) + d 2 * 256 = d 1"
    "ucast (ucast (d 2) :: u8) + d 3 * 256 = d 2" "ucast (ucast (d 3) :: u8) + d 4 * 256 = d 3"
    using step [of 0] step [of 1] step [of 2] step [of 3] by (simp_all add: numeral_eq_Suc)
  have d4: "d 4 = 0" by (rule bit_word_eqI) (simp add: d_def bit_simps)
  have bytes: "intBytes x = map (\<lambda>i. chr8 (ucast (d i))) [0, 1, 2, 3]" by (simp add: intBytes_def d_def w_def upt_rec numeral_eq_Suc)
  have "foldr (\<lambda>c v. ucast (ord8 c) + v * 256) (map (\<lambda>i. chr8 (ucast (d i))) [0, 1, 2, 3]) (d 4) = d 0"
    by (simp only: list.map foldr.simps o_apply id_apply ord8_chr8 steps)
  then show ?thesis by (simp only: wordOf_def bytes d4) (simp add: d_def w_def)
qed

lemma length_intBytes [simp]: "length (intBytes x) = 4"
  by (simp add: intBytes_def)

definition smallInt :: "int \<Rightarrow> bool" where
  "smallInt x \<longleftrightarrow> - (2 ^ 31) \<le> x \<and> x < 2 ^ 31"

lemma sint_smallInt: "smallInt x \<Longrightarrow> sint (of_int x :: u32) = x"
  by (simp add: smallInt_def signed_of_int signed_take_bit_int_eq_self)

lemma length_dateBytes [simp]: "length (dateBytes d) = 24"
  by (simp add: dateBytes_def)

lemma dateFrom_dateBytes:
  assumes "list_all smallInt [seconds d, minutes d, hours d, day d, month d, year d]"
  shows "dateFrom (dateBytes d) = Some d"
proof -
  have "take 4 (drop (4 * i) (dateBytes d)) = intBytes ([seconds d, minutes d, hours d, day d, month d, year d] ! i)" if "i \<in> {0, 1, 2, 3, 4, 5}" for i
    using that by (auto simp: dateBytes_def)
  from this [of 0] this [of 1] this [of 2] this [of 3] this [of 4] this [of 5] show ?thesis
    using assms by (simp add: dateFrom_def Let_def wordOf_intBytes sint_smallInt)
qed

lemma year_daysBefore: "EPOCH_YEAR \<le> y \<Longrightarrow> y - EPOCH_YEAR \<le> int (daysBefore y)"
proof (induction y rule: int_ge_induct)
  case (step y)
  then show ?case using daysBefore_Suc [of y] DAYS_IN_YEAR_bounds(1) [of y] by linarith
qed simp

lemma date_of_clock:
  assumes "unat t div 86400 < 2 ^ 30"
  shows "\<exists>d. secondsToDate t = Some d \<and> list_all smallInt [seconds d, minutes d, hours d, day d, month d, year d] \<and>
    0 \<le> month d \<and> month d < 12"
proof -
  obtain d where d: "secondsToDate t = Some d" "dateOf t d" using secondsToDate_dateOf [of t] assms by auto
  have h: "int (unat t mod 86400) = 3600 * hours d + 60 * minutes d + seconds d" "0 \<le> minutes d" "0 \<le> seconds d"
    using d(2) by (simp_all add: dateOf_def Let_def)
  have "int (unat t mod 86400) < 86400" by simp
  then have "hours d < 24" using h by linarith
  moreover have "nat (month d) < 12" using d(2) by (auto simp: dateOf_def Let_def)
  then have days: "monthDays (IS_LEAP (year d)) ! nat (month d) \<le> 31" using monthDays_pos by blast
  moreover have "year d - EPOCH_YEAR \<le> int (daysBefore (year d))" using year_daysBefore d(2) by (simp add: dateOf_def Let_def)
  ultimately have "list_all smallInt [seconds d, minutes d, hours d, day d, month d, year d]"
    using d(2) days assms unfolding smallInt_def dateOf_def Let_def by simp
  then show ?thesis using d by (auto simp: dateOf_def Let_def)
qed

text \<open>What the program prints.\<close>

definition dec :: "int \<Rightarrow> string" where
  "dec x = showNum False (of_int x)"

definition dateText :: "Date \<Rightarrow> string" where
  "dateText d =
     months ! nat (month d) @ '' '' @ dec (day d) @ '', '' @ dec (year d) @ '' '' @ zeroPad 2 (dec (hours d)) @ '':'' @
     zeroPad 2 (dec (minutes d)) @ '':'' @ zeroPad 2 (dec (seconds d)) @ [CHR 0x0A]"

lemma length_dec: "length (dec x) \<le> 20"
  by (simp add: dec_def length_showNum)

lemma length_dateText: "nat (month d) < 12 \<Longrightarrow> length (dateText d) < 4096"
proof -
  assume "nat (month d) < 12"
  then have "months ! nat (month d) \<in> set months" by (intro nth_mem) (simp add: months_def)
  then have "length (months ! nat (month d)) \<le> 9" by (auto simp: months_def)
  moreover have "length (dateText d) = length (months ! nat (month d)) + length (dec (day d)) + length (dec (year d)) +
      length (zeroPad 2 (dec (hours d))) + length (zeroPad 2 (dec (minutes d))) + length (zeroPad 2 (dec (seconds d))) + 7"
    by (simp add: dateText_def)
  moreover have pad: "length (zeroPad 2 (dec x)) \<le> 22" for x using length_dec [of x] by (simp add: zeroPad_def)
  ultimately show ?thesis
    using length_dec [of "day d"] length_dec [of "year d"] pad [of "hours d"] pad [of "minutes d"] pad [of "seconds d"]
    by linarith
qed

definition dateItems :: "fmt_item list" where
  "dateItems =
     [Str None, Lit (CHR '' ''), Num False None, Lit (CHR '',''), Lit (CHR '' ''), Num False None, Lit (CHR '' ''),
      Num False (Some (CHR ''2'')), Lit (CHR '':''), Num False (Some (CHR ''2'')), Lit (CHR '':''), Num False (Some (CHR ''2'')),
      Lit (CHR 0x0A)]"

lemma vfprint_date:
  assumes "dateArgs d = Some args" "nat (month d) < 12"
  shows "vfprint ds m fd dateFmt args s =
    syswrite ds m fd (dateText d @ NUL # replicate (4095 - length (dateText d)) NUL) (of_nat (length (dateText d))) s"
proof -
  have "expandAll dateItems args = Some (dateText d)"
    using assms(1) by (auto simp: dateArgs_def dateItems_def dateText_def dec_def digitVal_def split: if_splits)
  moreover have "concat (map fmtText dateItems) = dateFmt" by (simp add: dateItems_def dateFmt_def)
  moreover have "\<forall>it \<in> set dateItems. item_ok it" by (simp add: dateItems_def isDigit_def)
  ultimately have "fmtSnprintf (replicate 4096 NUL) 4096 dateFmt args =
      Some (length (dateText d), dateText d @ NUL # drop (length (dateText d) + 1) (replicate 4096 NUL))"
    using fmtSnprintf_items [of dateItems args "dateText d" 4096 "replicate 4096 NUL"] length_dateText [OF assms(2)] by simp
  then show ?thesis by (simp add: vfprint_def fmtSnprintf_def fputstrn_def drop_replicate)
qed

lemma date_prints:
  assumes "world_ok s" "roomy m" "rp (kern s) = Some q" "rooted q s" "tidy s" "clock_ok s"
    and fds: "freeFd q s = Some fd" "fd' \<noteq> fd" "fd' < MANOS_MAXFD" "fds (procs (kern s) q) fd' = None"
    and time: "unat (clockTime s) div 1000 div 86400 < 2 ^ 30"
  shows "\<exists>d. secondsToDate (clockTime s div 1000) = Some d \<and>
    dateMain (deviceTable font m) m [name] s =
      map_option (\<lambda>(r, s'). (0, s'))
        (syswrite (deviceTable font m) m (tty (procs (kern s) q))
          (dateText d @ NUL # replicate (4095 - length (dateText d)) NUL) (of_nat (length (dateText d))) (passed (passed s)))"
proof -
  have "unat (clockTime s div 1000) div 86400 < 2 ^ 30" using time by (simp add: unat_div_distrib)
  then obtain d where d: "secondsToDate (clockTime s div 1000) = Some d"
    "list_all smallInt [seconds d, minutes d, hours d, day d, month d, year d]" "0 \<le> month d" "month d < 12"
    using date_of_clock by blast
  obtain p s1 where p: "sysopen (deviceTable font m) m ''/dev/date'' CAP_READ s = Some (Inr fd, opened q fd p s)"
    "sysread (deviceTable font m) m (int fd) 24 (opened q fd p s) = Some (Inr (24, dateBytes d), s1)"
    "sysclose (deviceTable font m) (int fd) s1 = Some (Inr (), passed (passed s))"
    using date_session [OF assms(1-10) d(1)] by blast
  have "length months = 12" by (simp add: months_def)
  then have "dateArgs d \<noteq> None" using d(3,4) by (simp add: dateArgs_def)
  then obtain args where args: "dateArgs d = Some args" by blast
  have tty: "rpTty (passed (passed s)) = Some (tty (procs (kern s) q))" using assms(3) by (simp add: rpTty_def passed_def)
  have "nat (month d) < 12" using d(3,4) by simp
  note printed = vfprint_date [OF args this]
  have "dateMain (deviceTable font m) m [name] s =
      map_option (\<lambda>(r, s'). (0, s')) (vfprint (deviceTable font m) m (tty (procs (kern s) q)) dateFmt args (passed (passed s)))"
    by (simp add: dateMain_def kopen_def kread_def kclose_def p dateFrom_dateBytes [OF d(2)] args ttyPrint_def tty fprint_def
        split: bind_split)
  then show ?thesis using d(1) unfolding printed by blast
qed

subsection \<open>An example\<close>

text \<open>A process that holds the files of two lights.\<close>

lemma opened_tidy: "tidy s \<Longrightarrow> tidy (opened q fd p s)"
proof -
  assume "tidy s"
  then have "later s (opened q fd p s)"
  proof (rule later_hold [where g = "Fd q fd" and p = p])
    show "held (opened q fd p s) h = (if h = Fd q fd then Some (fresh s) else held s h)" for h
      by (cases h) (simp_all add: opened_sel upd_def)
  qed (simp_all add: opened_def setFd_def)
  then show ?thesis by (rule later_tidy)
qed

definition exLights :: Manos where
  "exLights = opened 3 1 (exLed 4) (opened 3 0 (exLed 3) exWorld)"

lemma exLights_facts:
  "world_ok exLights" "rp (kern exLights) = Some 3" "rooted 3 exLights" "tidy exLights" "freeFd 3 exLights = Some 2"
  "ledFd 3 0 LedGreen exLights" "ledFd 3 1 LedBlue exLights" "clock_ok exLights" "clockTime exLights = 0" "fds (procs (kern exLights) 3) 3 = None"
proof -
  note fresh = tidyD(3) [OF exWorld_tidy]
  show "world_ok exLights" "rooted 3 exLights" "tidy exLights" "rp (kern exLights) = Some 3"
    using exWorld_ok exWorld_rooted exWorld_tidy exWorld_kern(1) by (simp_all add: exLights_def rooted_opened opened_tidy opened_sel)
  have "[0..<3] = [0, 1, 2 :: nat]" by (simp add: upt_rec)
  moreover have "[0..<MANOS_MAXFD] = [0..<3] @ [3..<MANOS_MAXFD]" using upt_add_eq_append [of 0 3 1021] by simp
  ultimately show "freeFd 3 exLights = Some 2"
    using exWorld_kern(2) [of 3] by (simp add: freeFd_def exLights_def opened_sel upd_def)
  have "ledOf (scrumb (ledSNS ! 3)) = Some LedGreen" "ledOf (scrumb (ledSNS ! 4)) = Some LedBlue"
    by (simp_all add: ledSNS_def ledOf_def fid_indices)
  then show "ledFd 3 0 LedGreen exLights" "ledFd 3 1 LedBlue exLights"
    by (simp_all add: ledFd_def exLights_def opened_sel upd_def exLed_def opened_def setFd_def)
  have dev: "timerDev (devst exWorld) = exTimers" by (simp add: exWorld_def exDevices_def)
  have "timerSNS exTimers = Some clockNS" by (simp add: exTimers_def)
  moreover have "tname (hd (timers exTimers)) = ''k70FTM0''" "tmsecs (hd (timers exTimers)) = 0" by (simp_all add: exTimers_facts k70Timer_def)
  ultimately show "clock_ok exLights" "clockTime exLights = 0"
    by (simp_all add: exLights_def) (simp_all add: clock_ok_def clockTime_def dev exTimers_facts)
  show "fds (procs (kern exLights) 3) 3 = None" using exWorld_kern(2) [of 3 3] by (simp add: exLights_def opened_sel upd_def)
qed

subsection \<open>Properties\<close>



text \<open>
  A round of \<open>fizzbuzz\<close> reads the clock through its file and sets its two lights by the seconds: both on at a
  multiple of 15, only blue at another multiple of 5, only green at another multiple of 3, and as before
  otherwise. It gives the clock's descriptor back and changes no other light.
\<close>

theorem fizzbuzz_shows_clock:
  assumes "world_ok s" "roomy m" "rp (kern s) = Some q" "rooted q s" "tidy s" "freeFd q s = Some fd" "clock_ok s"
    and "ledFd q fizz LedGreen s" "ledFd q buzz LedBlue s"
  shows "\<exists>s'. fizzbuzzRound (deviceTable font m) m (int fizz) (int buzz) s = Some (True, s') \<and> kern s' = kern s \<and>
    (let n = unat (clockTime s) div 1000; on = (\<lambda>c t. lit c (ledPins (devst t))) in
       (on LedGreen s' \<longleftrightarrow> (if 15 dvd n then True else if 5 dvd n then False else if 3 dvd n then True else on LedGreen s)) \<and>
       (on LedBlue s' \<longleftrightarrow> (if 5 dvd n then True else if 3 dvd n then False else on LedBlue s)) \<and>
       (\<forall>c. c \<noteq> LedGreen \<and> c \<noteq> LedBlue \<longrightarrow> on c s' = on c s))"
  unfolding deviceTable_def by (rule fizzbuzz_lights [OF assms])

theorem fizzbuzz_shows_clock_witness:
  "\<forall>font. \<exists>s'. fizzbuzzRound (deviceTable font exMem) exMem 0 1 exLights = Some (True, s') \<and>
     lit LedGreen (ledPins (devst s')) \<and> lit LedBlue (ledPins (devst s'))"
  using fizzbuzz_shows_clock [OF exLights_facts(1) exMem_roomy exLights_facts(2-5,8,6,7)]
  by (simp add: Let_def exLights_facts(9)) metis

text \<open>
  C22: \<open>date\<close> prints the date and time of the clock: it reads \<open>/dev/date\<close>, whose device reads the clock's file in
  turn, gives both descriptors back, and writes to its terminal the month's name, the day and the year, and the
  hours, minutes and seconds with two digits each.
\<close>

theorem date_prints_clock:
  assumes "world_ok s" "roomy m" "rp (kern s) = Some q" "rooted q s" "tidy s" "clock_ok s"
    and "freeFd q s = Some fd" "fd' \<noteq> fd" "fd' < MANOS_MAXFD" "fds (procs (kern s) q) fd' = None"
    and "unat (clockTime s) div 1000 div 86400 < 2 ^ 30"
  shows "\<exists>d. secondsToDate (clockTime s div 1000) = Some d \<and>
    dateMain (deviceTable font m) m [name] s =
      map_option (\<lambda>(r, s'). (0, s'))
        (syswrite (deviceTable font m) m (tty (procs (kern s) q))
          (dateText d @ NUL # replicate (4095 - length (dateText d)) NUL) (of_nat (length (dateText d))) (passed (passed s)))"
  by (rule date_prints [OF assms])

theorem date_prints_clock_witness:
  "\<forall>font. \<exists>d. secondsToDate 0 = Some d \<and>
    dateMain (deviceTable font exMem) exMem [''date''] exLights =
      map_option (\<lambda>(r, s'). (0, s'))
        (syswrite (deviceTable font exMem) exMem (tty (procs (kern exLights) 3))
          (dateText d @ NUL # replicate (4095 - length (dateText d)) NUL) (of_nat (length (dateText d))) (passed (passed exLights)))"
  using date_prints_clock [OF exLights_facts(1) exMem_roomy exLights_facts(2-4,8,5), of 3] exLights_facts(9,10) by simp

end
