(* ===== verification/Boot.thy ===== *)
theory Boot
  imports BootHw CommandProps
begin

text \<open>
  The start of the kernel (\<open>src/src/boot/main.c\<close>, \<open>src/src/boot/arch/k70/enterUserMode.c\<close>): from the state
  the loader leaves, over the reset of every device and the table of processes, to the first process.
\<close>

subsection \<open>The steps of the start\<close>

text \<open>The data the kernel's tables begin with, and a process in memory that is cleared.\<close>

definition initKern :: "Kern \<Rightarrow> Kern" where
  "initKern k =
     k\<lparr>links := INIT_LIST_HEAD FreeHead (INIT_LIST_HEAD RunHead (links k)), freelistLock := initLock, runQLock := initLock,
       nextPid := initRef\<rparr>"

definition zeroProc :: Proc where
  "zeroProc =
     \<lparr>pid = 0, ppid = 0, tty = 0, state = ProcDead, fds = (\<lambda>_. None), pslash = None, pdot = None, pgrp = None, canary1 = 0,
      canary2 = 0, stack = None, sp = 0, sigPending = 0, sigMask = 0, pargv = 0\<rparr>"

text \<open>The process that is scheduled while no other can run.\<close>

definition noProc :: Proc where
  "noProc = zeroProc\<lparr>pid := -1, sigMask := - 1\<rparr>"

definition startDevice :: "mem \<Rightarrow> 'w Dev \<Rightarrow> 'w \<Rightarrow> 'w option" where
  "startDevice m d s = do { s1 \<leftarrow> dev_reset d m s; s2 \<leftarrow> dev_power d 1 s1; dev_init d m s2 }"

fun startDevices :: "mem \<Rightarrow> 'w Dev list \<Rightarrow> 'w \<Rightarrow> 'w option" where
  "startDevices m [] s = Some s"
| "startDevices m (d # ds) s = do { s1 \<leftarrow> startDevice m d s; startDevices m ds s1 }"

abbreviation "sizeof_Proc \<equiv> (4184 :: u32)"

fun linkFree :: "nat list \<Rightarrow> node links \<Rightarrow> node links option" where
  "linkFree [] l = Some l"
| "linkFree (i # is) l = do { l1 \<leftarrow> listAddAfter (NextFree i) FreeHead (INIT_LIST_HEAD (NextFree i) l); linkFree is l1 }"

text \<open>Both blocks are written without looking at the result of the allocation.\<close>

definition allocProcs :: "mem \<Rightarrow> Kern \<Rightarrow> Kern option" where
  "allocProcs m k =
     (if avail m (of_nat MANOS_MAXPROC * sizeof_Proc) \<and> avail m (of_nat MANOS_MAXPROC * 4) then
        do {
          l \<leftarrow> linkFree [0..<MANOS_MAXPROC] (links k);
          Some (k\<lparr>links := l, procs := (\<lambda>s. if s = badProc then procs k s else zeroProc), procTable := (\<lambda>_. None)\<rparr>)
        }
      else None)"

definition kprintln :: "font \<Rightarrow> string \<Rightarrow> fmt_arg list \<Rightarrow> Manos \<Rightarrow> Manos option" where
  "kprintln font fmt args s =
     do { (_, w) \<leftarrow> sysprintln (k70Console font) fmt args (lcdDev (devst s)); Some (s\<lparr>devst := (devst s)\<lparr>lcdDev := w\<rparr>\<rparr>) }"

definition enterUserMode :: "regs \<Rightarrow> regs" where
  "enterUserMode h = orReg ''CONTROL'' 1 (START_SYSTICK h)"

text \<open>
  What the hardware and the loader give: the values of the status registers that the start waits for, the heap,
  the blocks the allocator returns, the addresses of functions, and that of the first process's arguments.
\<close>

record Board =
  statusS :: "nat \<Rightarrow> u32"
  statusS2 :: "nat \<Rightarrow> u32"
  statusDdr :: "nat \<Rightarrow> u32"
  totalRAM :: u32
  numChunkOffsets :: u32
  heap :: u32
  stackBlock :: "u32 option"
  groupBlock :: "nat option"
  codeAt :: "string \<Rightarrow> u32"
  firstArgv :: u32

definition initHw :: "Board \<Rightarrow> regs \<Rightarrow> regs option" where
  "initHw b h =
     do { h1 \<leftarrow> mcgInit (statusS b) (statusS2 b) h; h2 \<leftarrow> sdramInit (statusDdr b) h1;
          Some (svcInit MANOS_ARCH_K70_SVC_INT_PRIORITY h2) }"

definition printHeap :: "font \<Rightarrow> Board \<Rightarrow> Manos \<Rightarrow> Manos option" where
  "printHeap font b s =
     do {
       s1 \<leftarrow> kprintln font ''Total System RAM: %lu'' [UIntArg (totalRAM b)] s;
       s2 \<leftarrow> kprintln font '' # Chunk Offsets: %lu'' [UIntArg (numChunkOffsets b)] s1;
       kprintln font ''    Heap Address: 0x%.8lx'' [UIntArg (heap b)] s2
     }"

definition startKernel :: "font \<Rightarrow> mem \<Rightarrow> Board \<Rightarrow> Manos \<Rightarrow> Manos option" where
  "startKernel font m b s =
     do {
       s1 \<leftarrow> startDevices m (deviceTable font m) s;
       s2 \<leftarrow> kprintln font ''Allocating free list...'' [] s1;
       k \<leftarrow> allocProcs m (kern s2);
       s3 \<leftarrow> printHeap font b (s2\<lparr>kern := k\<rparr>);
       (_, s4) \<leftarrow> schedProc (deviceTable font m) m (codeAt b) (stackBlock b) (groupBlock b) (codeAt b ''torgo_main'') 1 (firstArgv b) s3;
       Some s4
     }"

text \<open>The call of \<open>main\<close>, up to the loop it ends in; the last line is printed unless the scheduler is faster.\<close>

definition kernelMain :: "font \<Rightarrow> mem \<Rightarrow> Board \<Rightarrow> Machine \<Rightarrow> Machine option" where
  "kernelMain font m b w =
     do {
       let s0 = (sys w)\<lparr>kern := initKern (kern (sys w))\<rparr>;
       h1 \<leftarrow> initHw b (uregs w);
       s1 \<leftarrow> startKernel font m b s0;
       h2 \<leftarrow> schedInit 50 MANOS_ARCH_K70_SCHED_INT_PRIORITY h1;
       s2 \<leftarrow> kprint font ''Entering User Mode'' [] s1;
       s3 \<leftarrow> kprintln font ''...'' [] s2;
       Some (w\<lparr>sys := s3, uregs := enterUserMode h2\<rparr>)
     }"

subsection \<open>The messages\<close>

lemma fmtLoop_lits:
  assumes "CHR ''%'' \<notin> set t" "length (fint st) = 21" "length t < unat (frem st)" "fpos st + length t \<le> length (fbuf st)"
  shows "\<exists>st'. emitted st t (fargs st) st' \<and> fmtLoop True (t @ x) st = fmtLoop True x st'"
  using assms
proof (induction t arbitrary: st)
  case Nil
  then show ?case by (auto simp: emitted_def fmt_inv_def)
next
  case (Cons c t)
  obtain st1 where st1: "emitted st [c] (fargs st) st1" "fmtLoop True (c # (t @ x)) st = fmtLoop True (t @ x) st1"
    using fmtLoop_item [of "Lit c" st "[c]" "fargs st" "t @ x"] Cons.prems by auto
  have "length t < unat (frem st1)" using emitted_rem(1) [OF st1(1)] Cons.prems(3) by simp
  moreover have "length (fint st1) = 21" "fargs st1 = fargs st" "fpos st1 + length t \<le> length (fbuf st1)"
    using st1(1) Cons.prems(4) by (auto simp: emitted_def fmt_inv_def)
  ultimately obtain st2 where "emitted st1 t (fargs st) st2" "fmtLoop True (t @ x) st1 = fmtLoop True x st2"
    using Cons.IH [of st1] Cons.prems(1) by auto
  then show ?case using st1 emitted_trans [OF st1(1), of t "fargs st" st2] by auto
qed

text \<open>A text and a number after it; the precision of a number is not looked at.\<close>

definition longFmt :: "bool \<Rightarrow> string" where
  "longFmt hex = (if hex then ''%.8lx'' else ''%lu'')"

lemma longFmt_conv:
  assumes "fmtNum True hex 0 st = Some st'"
  shows "fmtConv True (tl (longFmt hex)) st = Some ([], st')"
proof (cases hex)
  case True
  have "atoi ''8lx'' = Some 8" by (simp add: atoi_def isSpace_def isDigit_def digitsVal_def cint_def)
  then show ?thesis using True assms by (simp add: longFmt_def fmtConv_def atoi_nondigit isDigit_def)
next
  case False
  have "atoi ''lu'' = Some 0" by (simp add: atoi_def isSpace_def isDigit_def digitsVal_def cint_def)
  then show ?thesis using False assms by (simp add: longFmt_def fmtConv_def isDigit_def)
qed

lemma fmtSnprintf_long:
  assumes "CHR ''%'' \<notin> set t" "length t < 1000"
  shows "\<exists>buf. fmtSnprintf (replicate 1024 NUL) 1024 (t @ longFmt hex) [UIntArg i] = Some (length (t @ showNum hex i), (t @ showNum hex i) @ NUL # buf)"
proof -
  let ?st = "\<lparr>fbuf = replicate 1024 NUL, fpos = 0, frem = 1024, fint = replicate (INTBUF_SIZE + 1) NUL, fargs = [UIntArg i]\<rparr>"
  have len: "length (showNum hex i) \<le> 20" by (rule length_showNum)
  obtain st1 where st1: "emitted ?st t [UIntArg i] st1" "fmtLoop True (t @ longFmt hex) ?st = fmtLoop True (longFmt hex) st1"
    using fmtLoop_lits [of t ?st "longFmt hex"] assms by auto
  have room: "unat (frem st1) = 1024 - length t" using emitted_rem(1) [OF st1(1)] assms(2) by simp
  have inv: "length (fint st1) = 21" "fargs st1 = [UIntArg i]" "fpos st1 = length t" "length (fbuf st1) = 1024"
    using st1(1) assms(2) by (auto simp: emitted_def fmt_inv_def)
  have "length (showNum hex i) < unat (frem st1)" "fpos st1 + length (showNum hex i) \<le> length (fbuf st1)"
    unfolding room inv using len assms(2) by arith+
  then obtain st2 where st2: "fmtNum True hex 0 st1 = Some st2" "emitted st1 (showNum hex i) [] st2"
    using fmtNum_emits [OF inv(1,2), of "showNum hex i" False 0 hex] by auto
  have "\<not> startsWith (CHR ''%'') (tl (longFmt hex))" "longFmt hex = CHR ''%'' # tl (longFmt hex)" "frem st1 \<noteq> 0"
    using room assms(2) by (auto simp: longFmt_def)
  then have "fmtLoop True (longFmt hex) st1 = Some st2"
    using fmtLoop_conv [OF _ _ longFmt_conv [OF st2(1)]] fmtLoop_end by metis
  moreover have e: "emitted ?st (t @ showNum hex i) [] st2" using emitted_trans [OF st1(1) st2(2)] by simp
  moreover obtain k where "1024 - (length t + length (showNum hex i)) = Suc k"
    using len assms(2) by (cases "1024 - (length t + length (showNum hex i))") auto
  ultimately show ?thesis using st1(2) len assms(2)
    by (auto simp: fmtSnprintf_def fmtVsnprintf_def fmtVsnprintfInternal_def emitted_def list_update_append
        drop_Suc [symmetric] Cons_nth_drop_Suc [symmetric])
qed

lemma fmtSnprintf_plain:
  assumes "CHR ''%'' \<notin> set t" "length t < 1000"
  shows "\<exists>buf. fmtSnprintf (replicate 1024 NUL) 1024 t as = Some (length t, t @ NUL # buf)"
proof -
  have "expandAll (map Lit t) as = Some t" by (induction t) simp_all
  moreover have "concat (map fmtText (map Lit t)) = t" by (induction t) simp_all
  ultimately show ?thesis using fmtSnprintf_items [of "map Lit t" as t 1024 "replicate 1024 NUL"] assms by auto
qed

text \<open>The screen takes whatever is printed on it.\<close>

definition onScreen :: "Manos \<Rightarrow> bool" where
  "onScreen s \<longleftrightarrow> (case lcdScreen (lcdDev (devst s)) of None \<Rightarrow> False | Some l \<Rightarrow> lcd_inv l)"

definition printed :: "Manos \<Rightarrow> Manos \<Rightarrow> bool" where
  "printed s s' \<longleftrightarrow> onScreen s' \<and> (\<exists>w. s' = s\<lparr>devst := (devst s)\<lparr>lcdDev := w\<rparr>\<rparr>)"

lemma sysputs_ok:
  assumes "lcdScreen w = Some l" "lcd_inv l"
  shows "\<exists>l'. sysputs (k70Console font) t w = Some (Inr (), w\<lparr>lcdScreen := Some l'\<rparr>) \<and> lcd_inv l'"
proof -
  have "\<forall>c \<in> set (consoleCodes t). c < 256"
    by (auto simp: consoleCodes_def split: if_splits)
  then obtain l' where "putsLcd font (consoleCodes t) l = Some l'" "lcd_inv l'" using putsLcd_ok [OF assms(2)] by blast
  then show ?thesis
    using nputsLoop_screen [OF assms(1), of font t]
    by (auto simp: sysputs_def sysnputs_def consolePutc_def k70Console_def intro!: exI [of _ l'])
qed

lemma kprint_ok:
  assumes "onScreen s" "fmtSnprintf (replicate 1024 NUL) 1024 fmt as = Some (n, buf)"
  shows "\<exists>s'. kprint font fmt as s = Some s' \<and> printed s s'" "\<exists>s'. kprintln font fmt as s = Some s' \<and> printed s s'"
proof -
  obtain l where l: "lcdScreen (lcdDev (devst s)) = Some l" "lcd_inv l" using assms(1) by (auto simp: onScreen_def split: option.splits)
  let ?t = "takeWhile (\<lambda>c. c \<noteq> NUL) buf"
  obtain l1 where l1: "sysputs (k70Console font) ?t (lcdDev (devst s)) = Some (Inr (), (lcdDev (devst s))\<lparr>lcdScreen := Some l1\<rparr>)" "lcd_inv l1"
    using sysputs_ok [OF l] by blast
  then have p: "sysprint (k70Console font) fmt as (lcdDev (devst s)) = Some (n, (lcdDev (devst s))\<lparr>lcdScreen := Some l1\<rparr>)"
    using assms(2) by (simp add: sysprint_def)
  then show "\<exists>s'. kprint font fmt as s = Some s' \<and> printed s s'" using l1(2) by (auto simp: kprint_def printed_def onScreen_def)
  obtain l2 where "sysputs (k70Console font) [CHR 0x0A] ((lcdDev (devst s))\<lparr>lcdScreen := Some l1\<rparr>) =
      Some (Inr (), (lcdDev (devst s))\<lparr>lcdScreen := Some l2\<rparr>)" "lcd_inv l2"
    using sysputs_ok [of "(lcdDev (devst s))\<lparr>lcdScreen := Some l1\<rparr>" l1 font "[CHR 0x0A]"] l1(2) by auto
  then show "\<exists>s'. kprintln font fmt as s = Some s' \<and> printed s s'"
    using p by (auto simp: kprintln_def sysprintln_def printed_def onScreen_def)
qed

lemma kprint_text:
  assumes "onScreen s" "CHR ''%'' \<notin> set t" "length t < 1000"
  shows "\<exists>s'. kprint font t as s = Some s' \<and> printed s s'" "\<exists>s'. kprintln font t as s = Some s' \<and> printed s s'"
    "\<exists>s'. kprintln font (t @ longFmt hex) [UIntArg i] s = Some s' \<and> printed s s'"
  using fmtSnprintf_plain [OF assms(2,3), of as] fmtSnprintf_long [OF assms(2,3), of hex i] kprint_ok [OF assms(1)] by blast+

lemma printed_trans: "printed s s1 \<Longrightarrow> printed s1 s2 \<Longrightarrow> printed s s2"
  by (auto simp: printed_def)

lemma printHeap_ok:
  assumes "onScreen s"
  shows "\<exists>s'. printHeap font b s = Some s' \<and> printed s s'"
proof -
  have fmts: "''Total System RAM: %lu'' = ''Total System RAM: '' @ longFmt False"
    "'' # Chunk Offsets: %lu'' = '' # Chunk Offsets: '' @ longFmt False"
    "''    Heap Address: 0x%.8lx'' = ''    Heap Address: 0x'' @ longFmt True"
    by (simp_all add: longFmt_def)
  have texts: "CHR ''%'' \<notin> set ''Total System RAM: ''" "CHR ''%'' \<notin> set '' # Chunk Offsets: ''"
    "CHR ''%'' \<notin> set ''    Heap Address: 0x''" "length ''Total System RAM: '' < 1000" "length '' # Chunk Offsets: '' < 1000"
    "length ''    Heap Address: 0x'' < 1000" by simp_all
  obtain s1 where s1: "kprintln font ''Total System RAM: %lu'' [UIntArg (totalRAM b)] s = Some s1" "printed s s1"
    unfolding fmts using kprint_text(3) [OF assms texts(1,4)] by blast
  have "onScreen s1" using s1(2) unfolding printed_def by (rule conjunct1)
  from kprint_text(3) [OF this texts(2,5)]
  obtain s2 where s2: "kprintln font '' # Chunk Offsets: %lu'' [UIntArg (numChunkOffsets b)] s1 = Some s2" "printed s1 s2"
    unfolding fmts by blast
  have "onScreen s2" using s2(2) unfolding printed_def by (rule conjunct1)
  from kprint_text(3) [OF this texts(3,6)]
  obtain s3 where s3: "kprintln font ''    Heap Address: 0x%.8lx'' [UIntArg (heap b)] s2 = Some s3" "printed s2 s3"
    unfolding fmts by blast
  have "printHeap font b s = Some s3" unfolding printHeap_def s1(1) s2(1) s3(1) bind.simps option.simps by (simp add: s1(1) s2(1) s3(1))
  then show ?thesis using printed_trans [OF printed_trans [OF s1(2) s2(2)] s3(2)] by blast
qed

subsection \<open>The free list\<close>

lemma linkFree_ring:
  assumes "ring l FreeHead (map NextFree xs)" "ring l RunHead []" "distinct (is @ xs)"
  shows "\<exists>l'. linkFree is l = Some l' \<and> ring l' FreeHead (map NextFree (rev is @ xs)) \<and> ring l' RunHead []"
  using assms
proof (induction "is" arbitrary: l xs)
  case (Cons i "is")
  let ?l = "INIT_LIST_HEAD (NextFree i) l"
  note same = INIT_LIST_HEAD_ring(2) [of "NextFree i" l]
  have "ring ?l FreeHead (map NextFree xs)" "ring ?l RunHead []"
    by (rule ring_same [OF _ Cons.prems(1)] ring_same [OF _ Cons.prems(2)], rule lh.same_mono [OF same], use Cons.prems(3) in auto)+
  moreover have "NextFree i \<notin> set (FreeHead # map NextFree xs)" using Cons.prems(3) by auto
  ultimately obtain l1 where l1: "listAddAfter (NextFree i) FreeHead ?l = Some l1" "ring l1 FreeHead (NextFree i # map NextFree xs)"
    "same_on (- set (NextFree i # FreeHead # map NextFree xs)) ?l l1" and run: "ring ?l RunHead []"
    using listAddAfter_ring [of ?l FreeHead "map NextFree xs" "NextFree i"] by blast
  have "ring l1 RunHead []" by (rule ring_same [OF lh.same_mono [OF l1(3)] run]) auto
  moreover have "ring l1 FreeHead (map NextFree (i # xs))" using l1(2) by simp
  ultimately show ?case using Cons.IH [of l1 "i # xs"] Cons.prems(3) l1(1) by auto
qed simp


subsection \<open>The devices\<close>

text \<open>
  What the devices' tables hold before the start: one serial port and the timers of the board are there to be
  found, and the screen with its frame buffer.
\<close>

definition coldDevices :: "Devices \<Rightarrow> bool" where
  "coldDevices d \<longleftrightarrow>
     uarts (uartDev d) = [] \<and> (case uplugged (uartDev d) of [[u], []] \<Rightarrow> uhwname u = ''k70Uart'' | _ \<Rightarrow> False) \<and>
     timers (timerDev d) = [] \<and> tplugged (timerDev d) = [k70Timer, []] \<and> (\<forall>n. tmem (timerDev d) n) \<and>
     (case lcdHotplug (lcdDev d) of None \<Rightarrow> False | Some l \<Rightarrow> length (fb l) = 130560)"

lemma startDevice_part:
  assumes "\<And>f x. get (update f x) = f (get x)" "\<And>f g x. update f (update g x) = update (\<lambda>y. f (g y)) x"
  shows "startDevice m (liftPart get update d) s =
    do { w \<leftarrow> startDevice m d (get (devst s)); Some (s\<lparr>devst := update (\<lambda>_. w) (devst s)\<rparr>) }"
  by (cases "dev_reset d m (get (devst s))"; simp add: startDevice_def liftPart_def liftDev_def assms)

lemma start_gpio:
  "\<exists>g'. startDevice m devLed g = Some g'" "\<exists>g'. startDevice m devSwpb g = Some g'" "\<exists>a'. startDevice m devAdc a = Some a'"
  by (simp_all add: startDevice_def devLed_def devSwpb_def devAdc_def resetDev_def powerDev_def initLed_def initSwpb_def initAdc_def)

lemma start_plain: "startDevice m devRoot s = Some s" "startDevice m (devDev sv) s' = Some s'"
  by (simp_all add: startDevice_def devRoot_def devDev_def resetDev_def powerDev_def initDev_def)

lemma start_lcd:
  assumes "lcdHotplug w = Some l" "length (fb l) = 130560"
  shows "\<exists>l'. startDevice m (devLcd font) w = Some (w\<lparr>lcdScreen := Some l'\<rparr>) \<and> lcd_inv l'"
proof -
  obtain h where h: "k70LcdEnable l = k70LcdClear (l\<lparr>lregs := h, fbSize := LCD_XSIZE * LCD_YSIZE * LCD_BPP, colorDepth := LCD_BPP,
                        lbg := 0x00ffffff, lfg := 0\<rparr>)"
    unfolding k70LcdEnable_def Let_def by blast
  obtain l' where "k70LcdEnable l = Some l'" "lcd_inv l'"
    unfolding h
    using k70LcdClear_ok [of "l\<lparr>lregs := h, fbSize := LCD_XSIZE * LCD_YSIZE * LCD_BPP, colorDepth := LCD_BPP, lbg := 0x00ffffff, lfg := 0\<rparr>"]
      assms(2) by (auto simp: lcd_inv_def)
  then show ?thesis using assms(1)
    by (auto simp: startDevice_def devLcd_def resetLcd_def powerDev_def initDev_def enableLcd_def)
qed

lemma start_uart:
  assumes "startDevice m devUart w = Some w'" "uarts w = []" "uplugged w = [[u], []]" "uhwname u = ''k70Uart''"
  shows "\<exists>rows. uartSNS w' = Some (flatNS rows) \<and> length rows = 3 \<and> sns_wf (flatNS rows) \<and> sname (rows ! 0) = ''k70Uart'' \<and>
    (\<forall>j < 3. scrumb (rows ! j) = MKSTATICNS_CRUMB 0 (of_nat (j + 1)) CRUMB_ISFILE)"
proof -
  obtain w1 w2 where w: "resetUart m w = Some w1" "uartSNS w' = uartSNS w1"
    using assms(1) by (auto simp: startDevice_def devUart_def powerUart_def initUart_def bind_eq_Some_conv)
  obtain bytes rows where r: "uartRows bytes 0 [u] = Some rows" "w1 = w\<lparr>uarts := [u], uartSNS := Some (flatNS rows)\<rparr>"
    using w(1) assms(2,3) by (auto simp: resetUart_def bind_eq_Some_conv)
  have rows: "length rows = 3" "\<forall>j < length rows. scrumb (rows ! j) = MKSTATICNS_CRUMB 0 (of_nat (j + 1)) CRUMB_ISFILE"
    using uartRows_rows [OF r(1)] by simp_all
  have "sns_wf (flatNS rows)" by (rule flatNS_wf [OF rows(2)]) (use rows(1) in auto)
  moreover have "sname (rows ! 0) = ''k70Uart''" using r(1) assms(4) by (auto simp: nsRow_def bind_eq_Some_conv)
  ultimately show ?thesis using rows w(2) r(2) by (intro exI [of _ rows]) simp
qed

lemma powerAll_board: "\<exists>h n. powerAll 1 k70Timer hn = Some (map (\<lambda>t. t\<lparr>talarms := Some []\<rparr>) k70Timer, h, n)"
  by (cases hn) (simp add: k70Timer_def k70Control_def hwPower_def k70TimerPower_def k70PDBPower_def k70PDBReset_def Let_def)

lemma start_timer:
  assumes "timers (timerDev (devst s)) = []" "tplugged (timerDev (devst s)) = [k70Timer, []]" "\<forall>n. tmem (timerDev (devst s)) n"
  shows "\<exists>t. startDevice m (liftDev timerPart setTimerPart devTimer) s = Some (s\<lparr>devst := (devst s)\<lparr>timerDev := t\<rparr>\<rparr>) \<and>
    timerSNS t = Some (flatNS (timerRows 0 k70Timer)) \<and> map tname (timers t) = [''k70FTM0'', ''k70PDB0'']"
proof -
  let ?w = "timerPart s"
  let ?w1 = "?w\<lparr>timers := k70Timer, timerSNS := Some (flatNS (timerRows 0 k70Timer))\<rparr>"
  have n: "length k70Timer = 2" "plugChains [k70Timer, []] False [] = Some (k70Timer, 2)" by (simp_all add: k70Timer_def)
  have r: "resetTimer m ?w = Some ?w1"
    using assms by (simp add: resetTimer_def timerPart_def n)
  obtain h n where p: "powerAll 1 k70Timer (tregs ?w, tnvic ?w) = Some (map (\<lambda>t. t\<lparr>talarms := Some []\<rparr>) k70Timer, h, n)"
    using powerAll_board by blast
  then have "powerTimer 1 ?w1 = Some (?w1\<lparr>timers := map (\<lambda>t. t\<lparr>talarms := Some []\<rparr>) k70Timer, tregs := h, tnvic := n\<rparr>)"
    by (simp add: powerTimer_def)
  moreover have "timerPart (setTimerPart ?w1 s) = ?w1" by (simp add: timerPart_def setTimerPart_def)
  ultimately have "startDevice m (liftDev timerPart setTimerPart devTimer) s =
      Some (setTimerPart (?w1\<lparr>timers := map (\<lambda>t. t\<lparr>talarms := Some []\<rparr>) k70Timer, tregs := h, tnvic := n\<rparr>) s)"
    using r by (simp add: startDevice_def liftDev_def devTimer_def initDev_def) (simp add: timerPart_def setTimerPart_def)
  then show ?thesis by (simp add: setTimerPart_def) (rule exI, rule conjI, rule refl, simp add: k70Timer_def)
qed


text \<open>What the start makes of the devices.\<close>

definition started :: "Manos \<Rightarrow> bool" where
  "started s \<longleftrightarrow> world_ok s \<and> clock_ok s \<and> onScreen s \<and> lookup s [''dev'', ''uart'', ''k70Uart''] = Found 3 1"

lemma lookup_uart:
  assumes "uartSNS (uartDev (devst s)) = Some (flatNS rows)" "length rows = 3" "sname (rows ! 0) = ''k70Uart''"
    "\<forall>j < 3. scrumb (rows ! j) = MKSTATICNS_CRUMB 0 (of_nat (j + 1)) CRUMB_ISFILE"
  shows "lookup s [''dev'', ''uart'', ''k70Uart''] = Found 3 1" "plainNS (flatNS rows)"
proof -
  obtain a b c where r: "rows = [a, b, c]" using assms(2) by (metis length_0_conv length_Suc_conv numeral_3_eq_3)
  have crumbs: "scrumb a = MKSTATICNS_CRUMB 0 1 CRUMB_ISFILE" "scrumb b = MKSTATICNS_CRUMB 0 2 CRUMB_ISFILE"
    "scrumb c = MKSTATICNS_CRUMB 0 3 CRUMB_ISFILE"
    using assms(4) [rule_format, of 0] assms(4) [rule_format, of 1] assms(4) [rule_format, of 2] by (simp_all add: r)
  have tree: "kids (flatNS rows) 0 = [1, 2, 3]" "isdir (flatNS rows) 0" "nodes (flatNS rows) = 4"
    by (simp_all add: kids_def kidsFrom_def isdir_def par_def nodes_def flatNS_def r crumbs fid_indices upt_from)
  show plain: "plainNS (flatNS rows)"
    by (simp add: plainNS_def flatNS_def r crumbs nsEnd_crumb MKSTATICNS_SENTINEL_CRUMB_def)
  have mnt: "isMount rootSNS 15" "mountTarget entryOf rootSNS 15 = Some (3, 0)"
    by (simp_all add: isMount_def mountTarget_def mountPath_def fromDeviceId_def deviceIds_def rootSNS_def entryOf_def Let_def)
  have "find_child rootSNS 2 ''uart'' = Some 15" by (simp add: find_child_def rootSNS_tree rootSNS_names)
  then have go: "lookup s [''dev'', ''uart'', ''k70Uart''] = resolve (\<lambda>i. tableOf i s) entryOf 3 0 [''k70Uart'']"
    by (rule lookup_mount) (simp_all add: mnt)
  have "find_child (flatNS rows) 0 ''k70Uart'' = Some 1"
    using assms(3) by (simp add: find_child_def tree) (simp add: flatNS_def r)
  moreover have "\<not> isMount (flatNS rows) 1" by (rule plainNS_mount [OF plain]) (simp add: tree)
  moreover have "tableOf 3 s = flatNS rows" using assms(1) by (simp add: tableOf_def)
  ultimately show "lookup s [''dev'', ''uart'', ''k70Uart''] = Found 3 1" unfolding go by (subst resolve.simps) (simp add: tree)
qed

lemma timerRows_plain: "plainNS (flatNS (timerRows 0 k70Timer))" "sns_wf (flatNS (timerRows 0 k70Timer))"
  using exWorld_ok by (simp_all add: world_ok_def exWorld_def exDevices_def exTimers_def timer_ok_def)

lemma startDevices_ok:
  assumes cold: "coldDevices (devst s)" and serial: "startDevice m devUart (uartDev (devst s)) \<noteq> None"
  shows "\<exists>d. startDevices m (devicesWith font sv) s = Some (s\<lparr>devst := d\<rparr>) \<and> started (s\<lparr>devst := d\<rparr>)"
proof -
  obtain u' where u': "startDevice m devUart (uartDev (devst s)) = Some u'" using serial by blast
  obtain u where u: "uplugged (uartDev (devst s)) = [[u], []]" "uhwname u = ''k70Uart''"
    using cold by (auto simp: coldDevices_def split: list.splits)
  obtain l where l: "lcdHotplug (lcdDev (devst s)) = Some l" "length (fb l) = 130560"
    using cold by (auto simp: coldDevices_def split: option.splits)
  have "uarts (uartDev (devst s)) = []" using cold by (simp add: coldDevices_def)
  from start_uart [OF u' this u] obtain rows where rows: "uartSNS u' = Some (flatNS rows)" "length rows = 3" "sns_wf (flatNS rows)"
    "sname (rows ! 0) = ''k70Uart''" "\<forall>j < 3. scrumb (rows ! j) = MKSTATICNS_CRUMB 0 (of_nat (j + 1)) CRUMB_ISFILE" by blast
  obtain g1 where g1: "startDevice m devLed (ledPins (devst s)) = Some g1" using start_gpio(1) by blast
  obtain g2 where g2: "startDevice m devSwpb (swpbPins (devst s)) = Some g2" using start_gpio(2) by blast
  obtain a where a: "startDevice m devAdc (adcDev (devst s)) = Some a" using start_gpio(3) by blast
  obtain l' where l': "startDevice m (devLcd font) (lcdDev (devst s)) = Some ((lcdDev (devst s))\<lparr>lcdScreen := Some l'\<rparr>)" "lcd_inv l'"
    using start_lcd [OF l] by blast
  define d1 where "d1 = (devst s)\<lparr>ledPins := g1, swpbPins := g2, uartDev := u', lcdDev := (lcdDev (devst s))\<lparr>lcdScreen := Some l'\<rparr>, adcDev := a\<rparr>"
  have "timers (timerDev d1) = []" "tplugged (timerDev d1) = [k70Timer, []]" "\<forall>n. tmem (timerDev d1) n"
    using cold by (simp_all add: coldDevices_def d1_def)
  then obtain t where t: "startDevice m (liftDev timerPart setTimerPart devTimer) (s\<lparr>devst := d1\<rparr>) = Some (s\<lparr>devst := d1\<lparr>timerDev := t\<rparr>\<rparr>)"
    "timerSNS t = Some (flatNS (timerRows 0 k70Timer))" "map tname (timers t) = [''k70FTM0'', ''k70PDB0'']"
    using start_timer [of "s\<lparr>devst := d1\<rparr>" m] by auto
  let ?d = "d1\<lparr>timerDev := t\<rparr>"
  have "startDevices m [devDev sv] = Some" by (rule ext) (simp add: start_plain)
  then have "startDevices m (devicesWith font sv) s =
      startDevice m (liftDev timerPart setTimerPart devTimer) (s\<lparr>devst := d1\<rparr>)"
    by (simp add: devicesWith_def start_plain startDevice_part g1 g2 a l'(1) u' d1_def del: startDevices.simps) (simp add: start_plain startDevice_part g1 g2 a l'(1) u')
  then have run: "startDevices m (devicesWith font sv) s = Some (s\<lparr>devst := ?d\<rparr>)" using t(1) by (simp add: start_plain)
  have u: "uartSNS (uartDev (devst (s\<lparr>devst := ?d\<rparr>))) = Some (flatNS rows)" using rows(1) by (simp add: d1_def)
  note look = lookup_uart [OF u rows(2,4,5)]
  have "world_ok (s\<lparr>devst := ?d\<rparr>)" using rows(3) look(2) timerRows_plain t(2) u by (simp add: world_ok_def uart_ok_def timer_ok_def)
  moreover have "clock_ok (s\<lparr>devst := ?d\<rparr>)" using t(2,3) by (auto simp: clock_ok_def split: list.splits)
  moreover have "onScreen (s\<lparr>devst := ?d\<rparr>)" using l'(2) by (simp add: onScreen_def d1_def)
  ultimately show ?thesis using run look(1) unfolding started_def by blast
qed


subsection \<open>The first process\<close>

lemma attachRoot:
  assumes "world_ok s" "avail m 24"
  shows "\<exists>p. attachRootFor (devicesWith font sv) m s = Some (addPortal p s) \<and> portalAt (\<lambda>i. tableOf i s) 0 0 p"
proof -
  have "static_device (devicesWith font sv ! 0) world_ok (tableOf 0) (entryOf 0)" by (rule devices_static) simp
  from static_device.attach_entry [OF this assms] obtain p where p: "dev_attach (devicesWith font sv ! 0) m [] s = Some (p, s)"
    "pdevice p = fromDeviceId (dev_id (devicesWith font sv ! 0))" "pcrumb p = scrumb (tableOf 0 s ! entryOf 0 [])" by blast
  have "deviceAt (devicesWith font sv) (fromDeviceId DEV_DEVROOT) = Some (devicesWith font sv ! 0)"
    by (simp add: deviceAt_def fromDeviceId_def deviceIds_def)
  moreover have "portalAt (\<lambda>i. tableOf i s) 0 0 p"
    using p(2,3) rootSNS_tree(7)
    by (simp add: portalAt_def deviceIds_def tableOf_def entryOf_def devicesWith_def devRoot_def fromDeviceId_def)
  ultimately show ?thesis using p(1) by (intro exI [of _ p]) (simp add: attachRootFor_def)
qed

text \<open>The kernel's tables before the first process.\<close>

definition coldKern :: "Kern \<Rightarrow> bool" where
  "coldKern k \<longleftrightarrow> rp k = None \<and> procs k badProc = noProc"

lemma started_cong: "devst s' = devst s \<Longrightarrow> started s' = started s"
  by (simp add: started_def world_ok_def clock_ok_def onScreen_def lookup_def tableOf_def)

definition readyKern :: "Kern \<Rightarrow> bool" where
  "readyKern k \<longleftrightarrow> rp k = None \<and> nextPid k = initRef \<and> ring (links k) FreeHead (map NextFree (rev [0..<MANOS_MAXPROC])) \<and>
     ring (links k) RunHead [] \<and> (\<forall>i. procTable k i = None) \<and> (\<forall>q. procs k q = (if q = badProc then noProc else zeroProc))"

lemma allocProcs_ready:
  assumes "roomy m" "coldKern k"
  shows "\<exists>k'. allocProcs m (initKern k) = Some k' \<and> readyKern k'"
proof -
  let ?l = "INIT_LIST_HEAD FreeHead (INIT_LIST_HEAD RunHead (links k))"
  have r: "ring ?l FreeHead (map NextFree [])" using INIT_LIST_HEAD_ring(1) by simp
  have "same_on (- {FreeHead}) (INIT_LIST_HEAD RunHead (links k)) ?l" by (rule INIT_LIST_HEAD_ring(2))
  from ring_same [OF lh.same_mono [OF this] INIT_LIST_HEAD_ring(1)] have "ring ?l RunHead []" by simp
  from linkFree_ring [OF r this, of "[0..<MANOS_MAXPROC]"] obtain l' where
    l': "linkFree [0..<MANOS_MAXPROC] ?l = Some l'" "ring l' FreeHead (map NextFree (rev [0..<MANOS_MAXPROC]))" "ring l' RunHead []"
    by (simp del: upt_rec_numeral) blast
  have "avail m n" for n using assms(1) by (simp add: roomy_def)
  then show ?thesis using l' assms(2)
    by (simp add: allocProcs_def initKern_def readyKern_def coldKern_def del: upt_rec_numeral)
qed

text \<open>The state after the first process was made.\<close>

definition shellReady :: "Manos \<Rightarrow> bool" where
  "shellReady s \<longleftrightarrow>
     rp (kern s) = None \<and> pid (procs (kern s) badProc) = -1 \<and> run_inv (kern s) [126] (rev [0..<126]) \<and>
     stackOk (sp (procs (kern s) 126)) (procs (kern s) 126) \<and> procTable (kern s) 1 = Some 126 \<and> pid (procs (kern s) 126) = 1 \<and> state (procs (kern s) 126) = ProcReady \<and> tty (procs (kern s) 126) = 0 \<and> rooted 126 s \<and>
     (case fds (procs (kern s) 126) 0 of None \<Rightarrow> False
      | Some a \<Rightarrow> (case portals s a of None \<Rightarrow> False | Some p \<Rightarrow> portalAt (\<lambda>i. tableOf i s) 3 1 p \<and> pcaps p = CAP_READWRITE)) \<and>
     (\<forall>fd. fd \<noteq> 0 \<longrightarrow> fds (procs (kern s) 126) fd = None)"


lemma pushWords_top: "fst (pushWords xs a w) = a - 4 * of_nat (length xs)"
proof (induction xs arbitrary: a w)
  case (Cons x xs)
  show ?case unfolding pushWords.simps Cons.IH by (simp add: algebra_simps)
qed simp

lemma setupStack_runs:
  assumes "stack (procs (kern s) q) = Some b"
  shows "\<exists>w. setupStack code q cmd argc argv s =
    Some (s\<lparr>kern := upd q (\<lambda>x. x\<lparr>sp := b + MANOS_ARCH_K70_STACK_SIZE - 72\<rparr>) (kern s), words := w\<rparr>)"
proof -
  let ?r = "pushWords (frameWords code cmd argc argv) (b + MANOS_ARCH_K70_STACK_SIZE) (words s)"
  have "fst ?r = b + MANOS_ARCH_K70_STACK_SIZE - 72" unfolding pushWords_top by (simp add: frameWords_def)
  then show ?thesis by (cases ?r) (auto simp: setupStack_def assms simp del: pushWords.simps)
qed

lemma newProc_stack: "newProc (Some b) gb k = Some (q, k') \<Longrightarrow> stack (procs k q) = None \<Longrightarrow> stack (procs k' q) = Some (b + 8)"
  by (auto simp: newProc_def newProcGroup_def bind_eq_Some_conv Let_def upd_def setLinks_def split: if_splits)

lemma newProc_rp: "newProc sb gb k = Some (q, k') \<Longrightarrow> rp k' = rp k"
  by (auto simp: newProc_def newProcGroup_def bind_eq_Some_conv Let_def upd_def setLinks_def split: if_splits)

lemma schedProc_run:
  assumes "syslock (rpid (kern s)) (rpdead (kern s)) (runQLock (kern s)) = Some lk"
    and "newProc sb gb ((kern s)\<lparr>runQLock := lk\<rparr>) = Some (q, k1)"
    and "attachRootFor ds m (s\<lparr>kern := k1\<rparr>) = Some (a, s1)"
    and "attachRootFor ds m (s1\<lparr>kern := upd q (\<lambda>x. x\<lparr>pslash := Some a\<rparr>) (kern s1)\<rparr>) = Some (b, s2)"
    and "openFor ds m q ''/dev/uart/k70Uart'' CAP_READWRITE (s2\<lparr>kern := upd q (\<lambda>x. x\<lparr>pdot := Some b\<rparr>) (kern s2)\<rparr>) = Some (Inr fd, s4)"
    and "setupStack code q cmd argc argv (s4\<lparr>kern := upd q (\<lambda>x. x\<lparr>tty := int fd\<rparr>) (kern s4)\<rparr>) = Some s5"
    and "listAddBefore (NextRunQ q) RunHead (links (kern s5)) = Some l"
    and "k6 = upd q (\<lambda>x. x\<lparr>state := ProcReady\<rparr>) (setLinks l (upd q (\<lambda>x. x\<lparr>pargv := argv\<rparr>) (kern s5)))"
  shows "schedProc ds m code sb gb cmd argc argv s = Some (q, s5\<lparr>kern := k6\<lparr>runQLock := sysunlock (rpid k6) (runQLock k6)\<rparr>\<rparr>)"
  using assms by (simp add: schedProc_def Let_def)

lemma schedProc_first:
  assumes st: "started s" and ready: "readyKern (kern s)" and m: "roomy m" and b: "unat b + 0x8008 < 2 ^ 32"
  shows "\<exists>s'. schedProc (devicesWith font sv) m code (Some b) (Some g) cmd argc argv s = Some (126, s') \<and> shellReady s' \<and>
    devst s' = devst s"
proof -
  let ?ds = "devicesWith font sv" and ?k = "kern s"
  have free: "lock_free ?k l" for l using ready by (simp add: lock_free_def unscheduled_def rpid_def readyKern_def)
  have lk: "syslock (rpid ?k) (rpdead ?k) (runQLock ?k) = Some (runQLock ?k)" "?k\<lparr>runQLock := runQLock ?k\<rparr> = ?k"
    using ready by (simp_all add: syslock_def syslockTest_def unscheduled_def rpid_def readyKern_def)
  have slots: "rev [0..<MANOS_MAXPROC] = 126 # rev [0..<126]" using upt_Suc [of 0 126] by (simp del: upt_Suc upt_rec_numeral)
  have z: "procs ?k 126 = zeroProc" "nextPid ?k = initRef" "rp ?k = None" "ring (links ?k) RunHead (map NextRunQ [])"
    "ring (links ?k) FreeHead (map NextFree (126 # rev [0..<126]))" "procTable ?k (nat 1) = None"
    using ready slots by (simp_all add: readyKern_def)
  have slot: "slot_ok (procs ?k 126)" "pid (procs ?k 126) = 0" "rcount (nextPid ?k) = 0"
    unfolding z by (simp_all add: slot_ok_def zeroProc_def initRef_def)
  have one: "1 = (if pid (procs ?k 126) = 0 then rcount (nextPid ?k) + 1 else pid (procs ?k 126))" by (simp add: slot)
  have none: "rp ?k \<noteq> Some 126" "(126 :: nat) \<notin> set []" "(0 :: int) < 1" "1 < int MANOS_MAXPROC" using z(3) by simp_all
  from newProc_ok [OF z(5,4) none(2) free free none(1) slot(1) one none(3,4) z(6), of b g]
  obtain k1 grp where k1: "newProc (Some b) (Some g) ?k = Some (126, k1)" "spawned ?k 126 g (procs k1 126)"
    "ring (links k1) FreeHead (map NextFree (rev [0..<126]))" "ring (links k1) RunHead []" "procTable k1 = (procTable ?k)(nat 1 \<mapsto> 126)"
    and others: "\<forall>t. t \<noteq> 126 \<longrightarrow> procs k1 t = procs ?k t" and grp: "pgrps k1 = (pgrps ?k)(g \<mapsto> grp)" "rcount (memberCount grp) = 1"
    by auto
  have p126: "pid (procs k1 126) = 1" "stack (procs k1 126) = Some (b + 8)" "sigPending (procs k1 126) = 0" "pgrp (procs k1 126) = Some g"
    "canary1 (procs k1 126) = canary2 (procs k1 126)"
    using k1(2) slot newProc_stack [OF k1(1)] z(1) by (simp_all add: spawned_def zeroProc_def)
  have rp1: "rp k1 = None" using newProc_rp [OF k1(1)] z(3) by simp
  have fds1: "fds (procs k1 126) = (\<lambda>_. None)"
    using newProc_same [OF k1(1), unfolded sameHeld_def, rule_format, of 126] unfolding z(1) by (simp add: zeroProc_def)
  have mem: "avail m 24" using m by (simp add: roomy_def)
  let ?s1 = "s\<lparr>kern := k1\<rparr>"
  have w1: "world_ok ?s1" using st by (simp add: started_def world_ok_def)
  obtain p where p: "attachRootFor ?ds m ?s1 = Some (addPortal p ?s1)" "portalAt (\<lambda>i. tableOf i ?s1) 0 0 p"
    using attachRoot [OF w1 mem] by blast
  define s2 where "s2 = s\<lparr>kern := upd 126 (\<lambda>x. x\<lparr>pslash := Some (fresh s)\<rparr>) k1, portals := (portals s)(fresh s \<mapsto> p), fresh := fresh s + 1\<rparr>"
  have w2: "world_ok s2" using st by (simp add: started_def world_ok_def s2_def)
  obtain r where r: "attachRootFor ?ds m s2 = Some (addPortal r s2)" "portalAt (\<lambda>i. tableOf i s2) 0 0 r"
    using attachRoot [OF w2 mem] by blast
  define s3 where "s3 = (snd (addPortal r s2))\<lparr>kern := upd 126 (\<lambda>x. x\<lparr>pdot := Some (fresh s + 1)\<rparr>) (kern s2)\<rparr>"
  have s3: "devst s3 = devst s" "fresh s3 = fresh s + 2" "portals s3 (fresh s) = Some p"
    "procs (kern s3) 126 = (procs k1 126)\<lparr>pslash := Some (fresh s), pdot := Some (fresh s + 1)\<rparr>" "links (kern s3) = links k1"
    "procTable (kern s3) = procTable k1" "rp (kern s3) = rp k1"
    by (simp_all add: s3_def s2_def addPortal_def)
  have tab: "tableOf i s' = tableOf i s" if "devst s' = devst s" for i s' using that by (simp add: tableOf_def)
  have at: "portalAt (\<lambda>i. tableOf i s') j n q = portalAt (\<lambda>i. tableOf i s) j n q" if "devst s' = devst s" for s' j n q
    using tab [OF that] by simp
  have root: "rooted 126 s3" using p(2) at [of ?s1] at [OF s3(1)] by (simp add: rooted_def s3)
  have st3: "started s3" using st started_cong [OF s3(1)] by simp
  have fd: "freeFd 126 s3 = Some 0" unfolding freeFd_def using fds1 s3(4) by (simp add: upt_rec [of 0 MANOS_MAXFD] del: upt_rec_numeral)
  have path: "slash # join [''dev'', ''uart'', ''k70Uart''] = ''/dev/uart/k70Uart''" by simp
  have "names_ok [''dev'', ''uart'', ''k70Uart'']" by (simp add: names_ok_def plain_def)
  from openFor_opens [OF _ m root this, of CAP_READWRITE font sv] obtain q where q:
    "portalAt (\<lambda>i. tableOf i s) 3 1 q" "pcaps q = CAP_READWRITE"
    "openFor ?ds m 126 ''/dev/uart/k70Uart'' CAP_READWRITE s3 = Some (Inr 0, opened 126 0 q s3)"
    using st3 at [OF s3(1)] unfolding path by (auto simp: opens_def fd started_def)
  define s4 where "s4 = opened 126 0 q s3"
  let ?s5 = "s4\<lparr>kern := upd 126 (\<lambda>x. x\<lparr>tty := 0\<rparr>) (kern s4)\<rparr>"
  have "stack (procs (kern ?s5) 126) = Some (b + 8)" using p126(2) by (simp add: s4_def opened_sel s3)
  from setupStack_runs [OF this] obtain w where su:
    "setupStack code 126 cmd argc argv ?s5 = Some (?s5\<lparr>kern := upd 126 (\<lambda>x. x\<lparr>sp := b + 8 + MANOS_ARCH_K70_STACK_SIZE - 72\<rparr>) (kern ?s5), words := w\<rparr>)" by blast
  obtain l where l: "listAddBefore (NextRunQ 126) RunHead (links k1) = Some l" "ring l RunHead [NextRunQ 126]"
    "same_on (- set [NextRunQ 126, RunHead]) (links k1) l"
    using listAddBefore_ring [OF k1(4), of "NextRunQ 126"] by auto
  have fr: "ring l FreeHead (map NextFree (rev [0..<126]))"
    by (rule ring_same [OF lh.same_mono [OF l(3)] k1(3)]) auto
  have links: "links (kern s4) = links k1" by (simp add: s4_def opened_sel s3)
  define s5 where "s5 = ?s5\<lparr>kern := upd 126 (\<lambda>x. x\<lparr>sp := b + 8 + MANOS_ARCH_K70_STACK_SIZE - 72\<rparr>) (kern ?s5), words := w\<rparr>"
  define k6 where "k6 = upd 126 (\<lambda>x. x\<lparr>state := ProcReady\<rparr>) (setLinks l (upd 126 (\<lambda>x. x\<lparr>pargv := argv\<rparr>) (kern s5)))"
  define s6 where "s6 = s5\<lparr>kern := k6\<lparr>runQLock := sysunlock (rpid k6) (runQLock k6)\<rparr>\<rparr>"
  define t1 where "t1 = snd (addPortal p ?s1)"
  define t2 where "t2 = snd (addPortal r s2)"
  have t: "t1\<lparr>kern := upd 126 (\<lambda>x. x\<lparr>pslash := Some (fresh s)\<rparr>) (kern t1)\<rparr> = s2"
    "t2\<lparr>kern := upd 126 (\<lambda>x. x\<lparr>pdot := Some (fresh s + 1)\<rparr>) (kern t2)\<rparr> = s3"
    by (simp_all add: t1_def t2_def addPortal_def s2_def s3_def)
  have at1: "attachRootFor ?ds m ?s1 = Some (fresh s, t1)" using p(1) by (simp add: t1_def addPortal_def)
  have at2: "attachRootFor ?ds m (t1\<lparr>kern := upd 126 (\<lambda>x. x\<lparr>pslash := Some (fresh s)\<rparr>) (kern t1)\<rparr>) = Some (fresh s + 1, t2)"
    unfolding t(1) using r(1) by (simp add: t2_def addPortal_def s2_def)
  have op: "openFor ?ds m 126 ''/dev/uart/k70Uart'' CAP_READWRITE (t2\<lparr>kern := upd 126 (\<lambda>x. x\<lparr>pdot := Some (fresh s + 1)\<rparr>) (kern t2)\<rparr>) =
      Some (Inr 0, s4)"
    unfolding t(2) s4_def by (rule q(3))
  have su': "setupStack code 126 cmd argc argv (s4\<lparr>kern := upd 126 (\<lambda>x. x\<lparr>tty := int 0\<rparr>) (kern s4)\<rparr>) = Some s5"
    using su by (simp add: s5_def)
  have "newProc (Some b) (Some g) (?k\<lparr>runQLock := runQLock ?k\<rparr>) = Some (126, k1)" using k1(1) lk(2) by simp
  moreover have "listAddBefore (NextRunQ 126) RunHead (links (kern s5)) = Some l" using l(1) links by (simp add: s5_def)
  ultimately have run: "schedProc ?ds m code (Some b) (Some g) cmd argc argv s = Some (126, s6)"
    unfolding s6_def by (rule schedProc_run [OF lk(1) _ at1 at2 op su' _ k6_def])
  have proc: "procs (kern s6) 126 = (procs k1 126)\<lparr>pslash := Some (fresh s), pdot := Some (fresh s + 1),
      fds := (\<lambda>_. None)(0 \<mapsto> Suc (Suc (fresh s))), tty := 0, sp := b + 8 + MANOS_ARCH_K70_STACK_SIZE - 72, pargv := argv, state := ProcReady\<rparr>"
    by (simp add: s6_def k6_def s5_def s4_def opened_sel s3 fds1)
  have dev: "devst s6 = devst s" by (simp add: s6_def s5_def s4_def opened_sel s3)
  have ports: "portals s6 (fresh s) = Some p" "portals s6 (Suc (Suc (fresh s))) = Some q"
    by (simp_all add: s6_def s5_def s4_def opened_sel s3)
  have "rooted 126 s6" using p(2) at [of ?s1] at [OF dev] by (simp add: rooted_def proc ports)
  moreover have k6: "links (kern s6) = l" "rp (kern s6) = None" "procTable (kern s6) 1 = Some 126" "pgrps (kern s6) = pgrps k1"
    "t \<noteq> 126 \<Longrightarrow> procs (kern s6) t = procs ?k t" for t
    using others by (simp_all add: s6_def k6_def s5_def s4_def opened_sel s3 k1(5) rp1) (simp_all add: s3_def s2_def)
  have pgrp: "pgrp (procs (kern s6) t) = (if t = 126 then Some g else None)" for t
    using k6(5) [of t] ready p126(4) by (cases "t = 126") (auto simp: proc readyKern_def zeroProc_def noProc_def)
  then have "members (kern s6) g = {126}" by (auto simp: members_def split: if_splits)
  then have "groups_ok (kern s6)" using grp by (auto simp: groups_ok_def pgrp k6(4) split: if_splits)
  then have "run_inv (kern s6) [126] (rev [0..<126])"
    using l(2) fr p126 by (simp add: run_inv_def k6(1) queued_ok_def proc)
  moreover have "stackOk (sp (procs (kern s6) 126)) (procs (kern s6) 126)"
  proof -
    have "unat (b + 0x8008) = unat b + 0x8008" using b by (subst unat_word_ariths) simp
    then have "(72 :: u32) \<le> b + 0x8008" by (simp add: word_le_nat_alt)
    moreover have "72 \<le> y \<Longrightarrow> y - 72 < y" for y :: u32 by (simp add: word_less_nat_alt unat_sub word_le_nat_alt)
    ultimately have "b + 0x8008 - 72 < b + 0x8008" by blast
    then show ?thesis using p126 by (simp add: stackOk_def canary2At_def proc add.assoc)
  qed
  moreover have "pid (procs (kern s6) badProc) = -1" using k6(5) [of badProc] ready by (simp add: readyKern_def noProc_def)
  ultimately have "shellReady s6"
    using k6(2,3) q(1,2) at [OF dev] p126(1) by (simp add: shellReady_def proc ports)
  then show ?thesis using run dev by blast
qed


subsection \<open>The whole start\<close>

text \<open>The state the loader leaves, and hardware that becomes ready, with memory for the first process.\<close>

definition cold :: "Machine \<Rightarrow> bool" where
  "cold w \<longleftrightarrow> irq_ok w \<and> coldKern (kern (sys w)) \<and> coldDevices (devst (sys w)) \<and> (\<forall>a. portals (sys w) a = None)"

definition boardReady :: "Board \<Rightarrow> bool" where
  "boardReady b \<longleftrightarrow>
     (\<exists>n. statusS b n AND 0x40 \<noteq> 0) \<and> (\<exists>n. statusS2 b n AND 0x40 \<noteq> 0) \<and>
     (\<exists>n. statusDdr b n AND DDR_CR30_INTSTAT_DRAM_INIT_COMPLETE_MASK \<noteq> 0) \<and>
     (case stackBlock b of None \<Rightarrow> False | Some a \<Rightarrow> unat a + 0x8008 < 2 ^ 32) \<and> groupBlock b \<noteq> None"

lemma printed_facts:
  assumes "printed s s'"
  shows "onScreen s'" "kern s' = kern s" "portals s' = portals s" "fresh s' = fresh s" "started s \<Longrightarrow> started s'"
    "tidy s' = tidy s" "shellReady s' = shellReady s" "world_ok s' = world_ok s" "clock_ok s' = clock_ok s"
proof -
  obtain w where w: "s' = s\<lparr>devst := (devst s)\<lparr>lcdDev := w\<rparr>\<rparr>" and scr: "onScreen s'" using assms by (auto simp: printed_def)
  then show "onScreen s'" "kern s' = kern s" "portals s' = portals s" "fresh s' = fresh s" by simp_all
  have t: "(\<lambda>i. tableOf i s') = (\<lambda>i. tableOf i s)" by (rule ext) (simp add: tableOf_def w)
  show wc: "world_ok s' = world_ok s" "clock_ok s' = clock_ok s" by (simp_all add: w world_ok_def clock_ok_def)
  show "started s \<Longrightarrow> started s'" using wc scr t by (simp add: started_def lookup_def)
  have "held s' h = held s h" for h by (cases h) (simp_all add: w)
  then show "tidy s' = tidy s" by (simp add: tidy_def w)
  show "shellReady s' = shellReady s" using t by (simp add: shellReady_def rooted_def w cong: option.case_cong)
qed

lemma startKernel_ok:
  assumes k: "kern s = initKern k" "coldKern k" and d: "coldDevices (devst s)" "startDevice m devUart (uartDev (devst s)) \<noteq> None"
    and m: "roomy m" and p: "\<forall>a. portals s a = None" and b: "boardReady b"
  shows "\<exists>s'. startKernel font m b s = Some s' \<and> shellReady s' \<and> started s' \<and> tidy s'"
proof -
  let ?sv = "kernelServices font (devicesWith font noServices) m"
  obtain d' where d': "startDevices m (devicesWith font ?sv) s = Some (s\<lparr>devst := d'\<rparr>)" "started (s\<lparr>devst := d'\<rparr>)"
    using startDevices_ok [OF d, of font ?sv] by blast
  let ?s1 = "s\<lparr>devst := d'\<rparr>"
  have "onScreen ?s1" using d'(2) by (simp add: started_def)
  from kprint_text(2) [OF this, of "''Allocating free list...''" font "[]"]
  obtain s2 where s2: "kprintln font ''Allocating free list...'' [] ?s1 = Some s2" "printed ?s1 s2" by auto
  note f2 = printed_facts [OF s2(2)]
  obtain k' where k': "allocProcs m (initKern k) = Some k'" "readyKern k'" using allocProcs_ready [OF m k(2)] by blast
  let ?s2 = "s2\<lparr>kern := k'\<rparr>"
  have "onScreen ?s2" using f2(1) by (simp add: onScreen_def)
  from printHeap_ok [OF this, of font b]
  obtain s3 where s3: "printHeap font b ?s2 = Some s3" "printed ?s2 s3" by blast
  note f3 = printed_facts [OF s3(2)]
  have "started ?s2" using f2(5) [OF d'(2)] started_cong [of ?s2 s2] by simp
  then have st3: "started s3" by (rule f3(5))
  have ready: "readyKern (kern s3)" using k'(2) f3(2) by simp
  have none: "portals s3 a = None" for a using p f2(3) f3(3) by simp
  have tidy: "tidy s3"
  proof -
    have "held s3 h = None" for h using ready by (cases h) (auto simp: readyKern_def zeroProc_def noProc_def)
    then show ?thesis using none by (simp add: tidy_def)
  qed
  obtain a g where a: "stackBlock b = Some a" "unat a + 0x8008 < 2 ^ 32" "groupBlock b = Some g"
    using b by (auto simp: boardReady_def split: option.splits)
  obtain s4 where s4: "schedProc (devicesWith font ?sv) m (codeAt b) (Some a) (Some g) (codeAt b ''torgo_main'') 1 (firstArgv b) s3 = Some (126, s4)"
    "shellReady s4" "devst s4 = devst s3"
    using schedProc_first [OF st3 ready m a(2)] by blast
  have "tidy s4" using files.schedProc_later [OF s4(1) [folded deviceTable_def] tidy] by (rule later_tidy)
  moreover have "started s4" using st3 started_cong [OF s4(3)] by simp
  moreover have "startKernel font m b s = Some s4"
    unfolding startKernel_def deviceTable_def d'(1) by (simp add: s2(1) f2(2) k(1) k'(1) s3(1) a(1,3) s4(1))
  ultimately show ?thesis using s4(2) by blast
qed

lemma initHw_ok:
  assumes "boardReady b"
  shows "\<exists>h'. initHw b h = Some h'"
proof -
  obtain h1 where h1: "mcgInit (statusS b) (statusS2 b) h = Some h1"
    using mcgInit_runs [of "statusS b" "statusS2 b" h] assms unfolding boardReady_def by blast
  obtain h2 where "sdramInit (statusDdr b) h1 = Some h2"
    using sdramInit_runs [of "statusDdr b" h1] assms unfolding boardReady_def by blast
  then show ?thesis using h1 by (simp add: initHw_def)
qed

lemma kernelMain_ok:
  assumes c: "cold w" and u: "startDevice m devUart (uartDev (devst (sys w))) \<noteq> None" and m: "roomy m" and b: "boardReady b"
  shows "\<exists>w'. kernelMain font m b w = Some w' \<and> shellReady (sys w') \<and> world_ok (sys w') \<and> clock_ok (sys w') \<and> tidy (sys w') \<and>
    irq_ok w' \<and> unat (uregs w' ''SYST_RVR'') + 1 = 50 * 120000 \<and> uregs w' ''SYST_CSR'' AND 7 = 7 \<and> uregs w' ''CONTROL'' AND 1 = 1"
proof -
  let ?s0 = "(sys w)\<lparr>kern := initKern (kern (sys w))\<rparr>"
  obtain h1 where h1: "initHw b (uregs w) = Some h1" using initHw_ok [OF b] by blast
  obtain s1 where s1: "startKernel font m b ?s0 = Some s1" "shellReady s1" "started s1" "tidy s1"
    using startKernel_ok [of ?s0 "kern (sys w)" m b font] c u m b by (auto simp: cold_def)
  obtain h2 where h2: "schedInit 50 MANOS_ARCH_K70_SCHED_INT_PRIORITY h1 = Some h2" "unat (h2 ''SYST_RVR'') + 1 = nat 50 * 120000"
    "h2 ''SYST_CSR'' = h1 ''SYST_CSR'' OR 6"
    using schedInit_values [of 50 MANOS_ARCH_K70_SCHED_INT_PRIORITY h1] by auto
  have "onScreen s1" using s1(3) by (simp add: started_def)
  from kprint_text(1) [OF this, of "''Entering User Mode''" font "[]"]
  obtain s2 where s2: "kprint font ''Entering User Mode'' [] s1 = Some s2" "printed s1 s2" by auto
  note f2 = printed_facts [OF s2(2)]
  from kprint_text(2) [OF f2(1), of "''...''" font "[]"]
  obtain s3 where s3: "kprintln font ''...'' [] s2 = Some s3" "printed s2 s3" by auto
  note f3 = printed_facts [OF s3(2)]
  let ?w = "w\<lparr>sys := s3, uregs := enterUserMode h2\<rparr>"
  have "kernelMain font m b w = Some ?w" unfolding kernelMain_def Let_def by (simp add: h1 s1(1) h2(1) s2(1) s3(1))
  moreover have "shellReady s3" "world_ok s3" "clock_ok s3" "tidy s3"
    using s1(2-4) by (simp_all add: f2 f3 started_def)
  moreover have "irq_ok ?w" using c by (simp add: cold_def irq_ok_def)
  moreover have "uregs ?w ''SYST_RVR'' = h2 ''SYST_RVR''" by (simp add: enterUserMode_def START_SYSTICK_def)
  moreover have "((x OR 6) OR 1) AND 7 = 7" "(x OR 1) AND 1 = 1" for x :: u32
  proof -
    have "((x OR 6) OR 1) = x OR 7" by (simp add: or.assoc)
    moreover have "(x OR 7) AND 7 = 7" by (rule bit_word_eqI) (auto simp: bit_simps)
    ultimately show "((x OR 6) OR 1) AND 7 = 7" by simp
    show "(x OR 1) AND 1 = 1" by (rule bit_word_eqI) (auto simp: bit_simps)
  qed
  then have "uregs ?w ''SYST_CSR'' AND 7 = 7" "uregs ?w ''CONTROL'' AND 1 = 1"
    by (simp_all add: enterUserMode_def START_SYSTICK_def h2(3))
  ultimately show ?thesis using h2(2) by (intro exI [of _ ?w]) simp
qed

lemma first_schedule:
  assumes "shellReady s"
  shows "\<exists>k'. scheduleProc x (kern s) = Some (sp (procs (kern s) 126), k') \<and> running_inv k' [] (rev [0..<126]) 126 \<and>
    state (procs k' 126) = ProcRunning"
proof -
  let ?k = "(kern s)\<lparr>rp := Some badProc\<rparr>"
  note s = assms [unfolded shellReady_def]
  have inv: "run_inv ?k [126] (rev [0..<126])" using s by (simp add: run_inv_def queued_ok_def groups_ok_def members_def)
  have sch: "scheduling ?k" using s by (simp add: scheduling_def)
  have "scan (\<lambda>s. state (procs ?k s)) [126] = (Some 126, [], [])" using s by simp
  from findRunnable_scan [OF inv sch this] obtain k1 where k1: "findRunnable ?k = Some (126, k1)" "run_inv k1 [] (rev [0..<126] @ [])"
    "reaped ?k k1 []" by auto
  have same: "procs k1 t = procs (kern s) t" for t using k1(3) by (simp add: reaped_def)
  let ?k2 = "upd 126 (\<lambda>q. q\<lparr>state := ProcRunning\<rparr>) (k1\<lparr>rp := Some 126\<rparr>)"
  have "scheduleProc x (kern s) = Some (sp (procs (kern s) 126), ?k2)"
    using s k1(1) by (simp add: scheduleProc_def same)
  moreover have "running_inv ?k2 [] (rev [0..<126]) 126"
  proof -
    have "groups_ok ?k2" by (rule groups_ok_cong [of k1]) (use k1(2) in \<open>simp_all add: run_inv_def\<close>)
    moreover have "queued_ok (kern s) 126" using s by (simp add: run_inv_def)
    ultimately show ?thesis using k1(2) s by (simp add: running_inv_def run_inv_def queued_ok_def same)
  qed
  ultimately show ?thesis by (intro exI [of _ ?k2]) simp
qed


lemma first_tick:
  assumes "shellReady (sys w)" "irq_ok w"
  shows "\<exists>w'. systickHandler x w = Some (sp (procs (kern (sys w)) 126), w') \<and>
    running_inv (kern (sys w')) [] (rev [0..<126]) 126 \<and> state (procs (kern (sys w')) 126) = ProcRunning"
proof -
  obtain k' where k': "scheduleProc x (kern (sys w)) = Some (sp (procs (kern (sys w)) 126), k')" "running_inv k' [] (rev [0..<126]) 126"
    "state (procs k' 126) = ProcRunning" using first_schedule [OF assms(1)] by blast
  let ?d = "devst (sys w)"
  let ?s = "(sys w)\<lparr>devst := ?d\<lparr>systickInterruptCount := systickInterruptCount ?d + 1\<rparr>\<rparr>"
  have "leaveCriticalRegion (enterCriticalRegion w\<lparr>sys := ?s\<rparr>) = w\<lparr>sys := ?s\<rparr>" by (rule region_update(1) [OF assms(2)])
  then have "systickHandler x w = Some (sp (procs (kern (sys w)) 126), w\<lparr>sys := ?s\<lparr>kern := k'\<rparr>\<rparr>)"
    using k'(1) by (simp add: systickHandler_def schedHandler_def Let_def)
  then show ?thesis using k'(2,3) by (intro exI [of _ "w\<lparr>sys := ?s\<lparr>kern := k'\<rparr>\<rparr>"]) simp
qed

lemma machine_run_keeps: "(machine_step font m)\<^sup>*\<^sup>* w w' \<Longrightarrow> irq_ok w \<Longrightarrow> tidy (sys w) \<Longrightarrow> irq_ok w' \<and> tidy (sys w')"
  by (induction rule: rtranclp_induct) (auto dest: machine_step_keeps)

subsection \<open>An example\<close>

definition exBoard :: Board where
  "exBoard =
     \<lparr>statusS = (\<lambda>_. 0x40), statusS2 = (\<lambda>_. 0x40), statusDdr = (\<lambda>_. 0x400), totalRAM = 0x7F00000, numChunkOffsets = 0x3F8000,
      heap = 0x80100000, stackBlock = Some 0x80200000, groupBlock = Some 9, codeAt = (\<lambda>_. 0x1000), firstArgv = 0x20000000\<rparr>"

definition exColdDevices :: Devices where
  "exColdDevices = exDevices\<lparr>
     uartDev := (uartDev exDevices)\<lparr>uplugged := [[exUart], []], uarts := [], uartSNS := None, umalloc := (\<lambda>_. Some (replicate 1000 0))\<rparr>,
     lcdDev := \<lparr>lcdHotplug = Some exLcd, lcdScreen = None\<rparr>,
     timerDev := exTimers\<lparr>timers := [], timerSNS := None\<rparr>\<rparr>"

definition exCold :: Machine where
  "exCold = exMachine\<lparr>sys := exWorld\<lparr>kern := (kern exWorld)\<lparr>rp := None, procs := (\<lambda>_. noProc)\<rparr>, portals := (\<lambda>_. None), devst := exColdDevices\<rparr>\<rparr>"

lemma exCold_cold: "cold exCold"
  using exMachine_irq exLcd_facts(1)
  by (simp add: cold_def exCold_def irq_ok_def coldKern_def coldDevices_def exColdDevices_def exTimers_def exUart_def lcd_inv_def)

lemma exBoard_ready: "boardReady exBoard"
  by (simp add: boardReady_def exBoard_def)

lemma formatName_clear: "k * sizeof_StaticNS < 1000 \<Longrightarrow> formatName (replicate 1000 0) k fmt nm = Some []"
proof -
  assume k: "k * sizeof_StaticNS < 1000"
  define r where "r = replicate (999 - k * sizeof_StaticNS) NUL"
  have "1000 - sizeof_StaticNS * k = Suc (999 - k * sizeof_StaticNS)" using k by simp
  then have "map chr8 (drop (sizeof_StaticNS * k) (replicate 1000 0)) = NUL # r" by (simp add: r_def chr8_def char_of_def bit_0)
  then show ?thesis
    by (simp add: formatName_def fmtSprintf_def fmtVsnprintfInternal_def cstrlen_def cstr_def fmtLoop.simps)
qed

lemma exCold_serial: "startDevice m devUart (uartDev (devst (sys exCold))) \<noteq> None"
  by (simp add: startDevice_def devUart_def exCold_def exColdDevices_def exDevices_def resetUart_def powerUart_def initUart_def
      formatName_clear Let_def k70UartPower_def enableUart_def k70UartEnable_def exUart_def)

subsection \<open>Properties\<close>



text \<open>
  C9: the first tick after the start runs the shell: the handler gives the stack pointer that the start
  has prepared, the first process is running, the other 126 slots are free, and the invariant of the running
  scheduler holds.
\<close>

theorem first_tick_runs_shell:
  assumes "cold w" and "startDevice m devUart (uartDev (devst (sys w))) \<noteq> None" and "roomy m" and "boardReady b"
    and "kernelMain font m b w = Some w1"
  shows "\<exists>w2. systickHandler x w1 = Some (sp (procs (kern (sys w1)) 126), w2) \<and>
    running_inv (kern (sys w2)) [] (rev [0..<126]) 126 \<and> state (procs (kern (sys w2)) 126) = ProcRunning"
  using kernelMain_ok [OF assms(1-4), of font] assms(5) first_tick [of w1 x] by auto

theorem first_tick_runs_shell_witness:
  "\<forall>font. \<exists>w1 w2. kernelMain font exMem exBoard exCold = Some w1 \<and>
     systickHandler 0x2000F000 w1 = Some (sp (procs (kern (sys w1)) 126), w2) \<and> rp (kern (sys w2)) = Some 126"
proof
  fix font
  obtain w1 where w1: "kernelMain font exMem exBoard exCold = Some w1"
    using kernelMain_ok [OF exCold_cold exCold_serial exMem_roomy exBoard_ready, of font] by blast
  from first_tick_runs_shell [OF exCold_cold exCold_serial exMem_roomy exBoard_ready w1, of "0x2000F000"]
  show "\<exists>w1 w2. kernelMain font exMem exBoard exCold = Some w1 \<and>
     systickHandler 0x2000F000 w1 = Some (sp (procs (kern (sys w1)) 126), w2) \<and> rp (kern (sys w2)) = Some 126"
    using w1 by (auto simp: running_inv_def)
qed

end
