(* ===== verification/Spec2Isabelle.thy ===== *)
theory Spec2Isabelle
  imports FifoQueue HeapQueue Paths DateTime Fmt Shell KHeapProps Profont Typed Boot
begin

text \<open>
  manos: a small operating system in the manner of Plan 9 for the Freescale K70, a 32-bit ARM board with a
  screen, a serial port, lights and push buttons. The kernel's sources are in \<open>src/src/\<close>, its interfaces in
  \<open>src/include/\<close>, both from the root of the repository.

  \<^bold>\<open>The program.\<close> Everything is a file. A device (\<open>struct Dev\<close>) is a table of operations over portals; a portal
  is a position in a device's namespace, and a crumb is what a device needs to find the node again. The system
  calls \<open>open\<close>, \<open>read\<close>, \<open>write\<close>, \<open>close\<close>, \<open>getcwd\<close> and their like walk a path across the devices, keep a table of
  descriptors per process, and call the device. The devices work on drivers (screen, serial port, timers), which
  work on registers. Processes have fixed slots, are linked into lists by group and by parent, and are run
  in turn by \<open>scheduleProc\<close>; a system call enters through the \<open>SVC\<close> exception, with its arguments in
  registers. The kernel's memory comes from \<open>kmalloc\<close>. The first process is the shell \<open>torgo\<close>, which reads
  a line, splits it into commands and starts the programs of \<open>/bin\<close>.

  \<^bold>\<open>The model.\<close> A C function is a HOL function with its name; a \<open>struct\<close> is a record with its field
  names, an \<open>enum\<close> or a union with a tag is a \<open>datatype\<close>, and the integers of the code are \<open>u8\<close>, \<open>u32\<close> and \<open>u64\<close>
  words that wrap. What the code does to memory it shares is a change of an explicit store. A result of type
  \<open>option\<close> is \<open>None\<close> where the C code follows a null pointer, leaves an array, reads what nobody has set, fails
  an \<open>ASSERT\<close>, or never returns. An error the code reports is a value (\<open>errno\<close> and -1), as in the code.
  Loops that the code does not bound are \<open>partial_function (option)\<close>; that they return is proved where a
  property says that something happens. No definition has fuel.
\<close>

subsection \<open>Containers and text\<close>

text \<open>
  \<^item> \<open>ManosPrelude\<close>: the machine types, the error numbers, C strings in memory, and the collections of lemmas
    (\<open>ring_simps\<close>, \<open>unat_conv\<close>) that the others share.
  \<^item> \<open>FifoQueue\<close> (\<open>fifoq/\<close>): the ring of bytes. \<open>contents\<close> maps it to a list; the locale \<open>bounded_fifo\<close> is the
    contract the serial port uses, interpreted as \<open>byteq\<close>. The operations refine those of a list.
  \<^item> \<open>HeapQueue\<close> (\<open>heapq/\<close>): the heap of keys; order and multiset are kept, and what its last element does.
  \<^item> \<open>ListHead\<close> (\<open>include/manos/list.h\<close>): lists linked through a store of pairs of pointers. A \<open>ring\<close> is a sequence;
    the locale \<open>queue_store\<close>, interpreted as \<open>lh\<close>, is what the scheduler and the waiters use of them.
  \<^item> \<open>LockRef\<close> (\<open>ipc/\<close>): locks and counters, and the interleavings of the critical regions of several processes.
  \<^item> \<open>Paths\<close> (\<open>path/mkPath.c\<close>), \<open>DateTime\<close> (\<open>date/date.c\<close>), \<open>Fmt\<close> (\<open>sys/fmt.c\<close>): splitting a path, dates from seconds and
    back, and formatted output into a buffer of a given size, with the writes past its end.
\<close>

subsection \<open>The namespace and the devices\<close>

text \<open>
  \<^item> \<open>Crumbs\<close> (\<open>crumb/\<close>, \<open>portal/\<close>, \<open>nodeinfo/\<close>, \<open>walk/emptyWalkTrail.c\<close>): crumbs, portals, trails of a walk.
  \<^item> \<open>StaticNamespace\<close> (\<open>walk/\<close>): the tables of nodes. \<open>sns_wf\<close> is the layout the comments ask for; on it
    \<open>genericWalk\<close> follows the tree that the table encodes and \<open>readStaticNS\<close> lists the children in order.
  \<^item> \<open>DevBase\<close> (\<open>dev/dev.c\<close>, \<open>fromDeviceId.c\<close>): the record \<open>Dev\<close> of a device's operations over a state type, and the locale
    \<open>static_device\<close>: a device whose files are a table of nodes. The eight devices interpret it, each in its own theory:
    \<open>DevRoot\<close>, \<open>DevGpio\<close> (lights and buttons), \<open>DevUart\<close>, \<open>DevLcd\<close>, \<open>DevAdc\<close>, \<open>DevTimer\<close> and \<open>DevDev\<close> (dates and counts).
  \<^item> \<open>HwRegs\<close> (\<open>nvic.c\<close>), \<open>LcdHw\<close> (\<open>lcd.c\<close>), \<open>UartHw\<close> (\<open>uart.c\<close>), \<open>TimerHw\<close> (\<open>timer.c\<close>): the drivers of \<open>dev/arch/k70/\<close> over
    named registers. \<open>uart_exec\<close> is every run of the port's interrupts and transfers: bytes leave in the order they came.
    \<open>Profont\<close> (\<open>profont.c\<close>) is the font, row by row, and shows that printed characters can be told apart.
  \<^item> \<open>Console\<close> (\<open>sys/uartpollio.c\<close>): the kernel's own messages, on the screen.
\<close>

subsection \<open>System calls and processes\<close>

text \<open>
  \<^item> \<open>Syscalls\<close> (\<open>sys/walk.c\<close>, \<open>open.c\<close>, \<open>close.c\<close>, \<open>read.c\<close>, \<open>write.c\<close>, \<open>dirread.c\<close>, \<open>getInfo.c\<close>, \<open>getcwd.c\<close>): the calls over any
    list of devices. \<open>Resolve\<close> gives the meaning of a path across mount points, with the locale \<open>mounted\<close>.
  \<^item> \<open>World\<close> (\<open>boot/globals.c\<close>): all the devices over one state and their table; it interprets \<open>mounted\<close> as \<open>world\<close>.
    The kernel's own device makes system calls, so the table is built in two levels: the outer devices call
    the inner ones, whose own services do nothing. The code's nesting has the same depth, since
    the services open only the clock's file, of the timer device.
  \<^item> \<open>Descriptors\<close> (the locale \<open>tidy_devices\<close>) and \<open>Files\<close> (its interpretations \<open>inner\<close> and \<open>files\<close>): no two descriptors share
    a portal. \<open>Typed\<close> (the locale \<open>typed_devices\<close>, with \<open>typed_inner\<close> and \<open>typed_files\<close>): every portal that is kept stands at a
    node of the table of its device. \<open>Files\<close> also has what a path opens, and what a path below a file does.
  \<^item> \<open>ProcSched\<close> (\<open>process/\<close>, \<open>sys/schedule.c\<close>, \<open>postsignal.c\<close>): slots, groups, signals, waiting, the choice of the next
    process; \<open>ProcProps\<close>: who is chosen, that everyone has a turn, that a waiter waits until the exit.
  \<^item> \<open>Exec\<close> (\<open>sys/execv.c\<close>, \<open>print.c\<close>): starting a program, sleeping, printing to a descriptor.
  \<^item> \<open>Dispatch\<close> (\<open>boot/arch/k70/svcHandler.c\<close>, \<open>syscall.c\<close>, \<open>schedHandler.c\<close>): the calls as a program makes them, with
    arguments in registers and pointers into its memory; \<open>machine_step\<close> is what the processor can do next.
    \<open>MachineProps\<close> has the invariant of every run and a program of three calls.
  \<^item> \<open>RegFields\<close> (bit fields of \<open>MK70F12.h\<close>), \<open>BootHw\<close> (\<open>mcgInit.c\<close>, \<open>sdramInit.c\<close>, \<open>svcInit.c\<close>, \<open>schedInit.c\<close>) and \<open>Boot\<close>
    (\<open>boot/main.c\<close>, \<open>enterUserMode.c\<close>): from the loader's state to the shell as the running process.
\<close>

subsection \<open>The shell and its programs\<close>

text \<open>
  \<^item> \<open>TorgoStrings\<close> (\<open>torgo/charbuf.c\<close>, \<open>string.c\<close>, \<open>env.c\<close>), \<open>ShellParser\<close> (\<open>parser.c\<close>), \<open>Shell\<close> (\<open>torgo.c\<close>). The parser's
    state machine refines a lexer over lists, quoting round-trips, and a typed line runs the command it names.
    Allocation may fail: a list of outcomes says which allocations do.
  \<^item> \<open>Clock\<close>, \<open>Commands\<close> (\<open>torgo/commands/\<close>), \<open>CommandProps\<close>: \<open>cat\<close>, \<open>date\<close>, \<open>echo\<close>, \<open>fg\<close>, \<open>fizzbuzz\<close>, \<open>ls\<close>, \<open>ps\<close>, \<open>pwd\<close> and \<open>toast\<close>
    over the system calls, and what they do to the devices: a light goes on, the clock's date is printed.
\<close>

subsection \<open>The allocator\<close>

text \<open>
  \<^item> \<open>KMem\<close> (\<open>kmalloc/memset.c\<close>): memory as a map from addresses to bytes, and the vectorised \<open>kmemset\<close>, equal to a loop
    over bytes. \<open>KMalloc\<close> (\<open>kmalloc.c\<close>, \<open>ramk70.h\<close>): the allocator on that memory: tags, lists, bitmap, every operation.
  \<^item> \<open>KChain\<close>: lists linked by address; \<open>KHeap\<close>: the locale \<open>arena\<close>, over the bounds of a heap, with \<open>pool\<close>: chunks
    tile the heap, a free chunk is on exactly one list, the bitmap marks the allocated ones; \<open>KPool\<close>: searching and
    splitting keep the pool; \<open>KAlloc\<close>: the entry points keep \<open>heapOk\<close>.
  \<^item> \<open>KHeapProps\<close>: \<open>k70\<close> interprets \<open>arena\<close> on the board's memory. A block is aligned, zeroed and disjoint from every
    other; \<open>kfree\<close> gives it back; no call trips an assertion; and sizes near 2^32 wrap.
\<close>

subsection \<open>Bounds and conventions\<close>

text \<open>
  \<^item> Addresses in the allocator's memory are naturals: all of that memory lies below 2^32, so no address that the
    proofs use wraps; the sizes, which can wrap, are words.
  \<^item> The addresses of portals, groups and processes in the theories of the system calls are numbers that are handed out
    once. The real allocator may use an address again after it was freed, so a use of a freed portal by the
    code would be a fault in the code but is harmless in the model. A record \<open>mem\<close> says which sizes can be allocated and
    what fresh stack memory holds; a property that needs every allocation to succeed says \<open>roomy\<close>, or takes \<open>endless\<close> memory.
  \<^item> A wait for the serial port takes the list of the interrupts still to come, and \<open>pollReg\<close> takes the values that a
    status register will show: a list or sequence that never lets the wait end gives \<open>None\<close>.
  \<^item> Paths are taken below 2^28 bytes where a property needs the length not to wrap.
  \<^item> \<open>LcdHw\<close> and the theories above it leave the font open; \<open>Profont\<close> gives it.
\<close>

subsection \<open>Not modelled\<close>

text \<open>
  \<^item> \<open>src/src-old/\<close> and \<open>src/include-old/\<close>: the previous version of the system, which the build does not compile.
  \<^item> The rest of \<open>include/arch/k70/MK70F12.h\<close>, the chip maker's header: addresses and bit masks of peripherals. The tables of the
    memory controller and of the clock generator are in \<open>RegFields\<close>; the other registers appear by name in the drivers.
  \<^item> \<open>torgo/harvard.h\<close> and \<open>manos_ansi.h\<close>: two pictures of terminal characters, which the shell prints first.
  \<^item> Assembly: the stubs that execute \<open>SVC\<close>, saving and restoring registers in \<open>schedHandler.c\<close>, and
    \<open>hardFaultHandler.c\<close>. What the instructions do to the kernel's variables is in \<open>Dispatch\<close> and \<open>Boot\<close>.
  \<^item> \<open>cw/\<close>: the start-up code and settings of the vendor's tools.
  \<^item> \<open>kmallocDump\<close> and \<open>dumpChunk\<close>, which print the heap, and \<open>lsmem\<close>, which calls the first. The lock of the allocator at
    the start, the idle loop at the end of \<open>main\<close>, and the banner of the shell.
  \<^item> \<open>dev/arch/nice/\<close> and \<open>kmalloc/ram.h\<close>: the build hosted on another system; its drivers are calls of that system's library.
  \<^item> \<open>t/sns-walk.c\<close>: a test program.
\<close>

end
